(* ===== verification/Prelude.thy ===== *)
theory Prelude
  imports Main "HOL-Library.Char_ord" "HOL-Library.List_Lexorder" "HOL-Library.Multiset"
begin

section \<open>Prelude: shared types, lemma collections and generic lemmas\<close>

text \<open>
  Types and generic facts the component theories share. Python strings are char lists,
  ordered by code point (\<open>List_Lexorder\<close> over
  \<open>Char_ord\<close>), so Python's \<^verbatim>\<open>sorted\<close> on names is
  \<^const>\<open>sort\<close>. A dict whose iteration order is visible is an association list with
  distinct keys; one that is only looked up in is a map.
\<close>

named_theorems em_simps \<open>unfolding rules of the exception-and-state combinators\<close>
named_theorems pres_intros \<open>invariant preservation rules of the combinators and of the stores\<close>
named_theorems row_simps \<open>reading back a table row after an update\<close>

type_synonym name = string
type_synonym 'v dict = "(string \<times> 'v) list"

definition wf_dict :: "('k \<times> 'v) list \<Rightarrow> bool" where
  "wf_dict d = distinct (map fst d)"

definition keys :: "('k \<times> 'v) list \<Rightarrow> 'k set" where
  "keys d = fst ` set d"

lemma keys_simps [simp]:
  "keys [] = {}"
  "keys (p # d) = insert (fst p) (keys d)"
  by (auto simp: keys_def)

lemma finite_keys [simp, intro]: "finite (keys d)"
  by (simp add: keys_def)

lemma map_of_eq_None_keys: "map_of d k = None \<longleftrightarrow> k \<notin> keys d"
  by (simp add: keys_def map_of_eq_None_iff)

lemma map_of_Some_keys: "map_of d k = Some v \<Longrightarrow> k \<in> keys d"
  by (force simp: keys_def dest: map_of_SomeD)

lemma keys_map_of: "k \<in> keys d \<longleftrightarrow> (\<exists>v. map_of d k = Some v)"
  by (metis map_of_eq_None_keys not_Some_eq)

subsection \<open>Lists\<close>

lemma count_list_sort [simp]: "count_list (sort xs) x = count_list xs x"
  by (metis count_mset mset_sort)

lemma count_list_zero_iff: "count_list xs x = 0 \<longleftrightarrow> x \<notin> set xs"
  by (rule count_list_0_iff)

lemma count_list_replicate_if [simp]:
  "count_list (replicate k x) y = (if x = y then k else 0)"
  by (induction k) auto

lemma count_list_filter: "P x \<Longrightarrow> count_list (filter P xs) x = count_list xs x"
  by (induction xs) auto

lemma length_filter_remove_one:
  "x \<notin> A \<Longrightarrow>
     length (filter (\<lambda>d. d \<notin> A) xs) =
     length (filter (\<lambda>d. d \<notin> insert x A) xs) + count_list xs x"
  by (induction xs) auto

end
