(* ===== verification/Resolver.thy ===== *)
theory Resolver
  imports Prelude
begin

section \<open>Dependency order of modules (src/indexer/resolver.py)\<close>

text \<open>
  \<open>topological_sort\<close> is Kahn's algorithm over the modules of one registry. The model keeps
  the code's state: the \<open>in_degree\<close> counters (integers, as Python's), the
  \<open>dependents\<close> lists in dict order (with duplicates when a manifest repeats a
  dependency), the queue and the result. The theorems show that the loop ends, that the
  result lists every module exactly once whatever the dependencies are, that every module
  placed by the loop follows the dependencies the registry has, and that on an acyclic
  registry the loop places every module.
\<close>

subsection \<open>Model\<close>

text \<open>Of \<open>ModuleInfo\<close> only \<open>depends\<close> is read: \<open>info.depends\<close> of every entry, in dict order.\<close>

type_synonym deps_registry = "name list dict"

definition dependents_of :: "deps_registry \<Rightarrow> name \<Rightarrow> name list" where
  "dependents_of modules dep =
     (if dep \<in> keys modules
      then concat (map (\<lambda>(n, ds). replicate (count_list ds dep) n) modules)
      else [])"

definition in_degree0 :: "deps_registry \<Rightarrow> name \<Rightarrow> int" where
  "in_degree0 modules n =
     (case map_of modules n of
        None \<Rightarrow> 0
      | Some ds \<Rightarrow> int (length (filter (\<lambda>d. d \<in> keys modules) ds)))"

fun release :: "name list \<Rightarrow> (name \<Rightarrow> int) \<Rightarrow> name list \<Rightarrow> (name \<Rightarrow> int) \<times> name list" where
  "release [] deg queue = (deg, queue)"
| "release (d # ds) deg queue =
     (let deg' = deg(d := deg d - 1)
      in release ds deg' (if deg' d = 0 then queue @ [d] else queue))"

lemma release_measure:
  assumes "finite A" and "set ds \<subseteq> A" and "release ds deg q = (deg', q')"
  shows "length q' + card {d \<in> A. deg' d > 0} \<le> length q + card {d \<in> A. deg d > 0}"
  using assms(2,3)
proof (induction ds arbitrary: deg q)
  case Nil
  then show ?case by simp
next
  case (Cons d ds)
  define deg1 where "deg1 = deg(d := deg d - 1)"
  define q1 where "q1 = (if deg1 d = 0 then q @ [d] else q)"
  have "release ds deg1 q1 = (deg', q')"
    using Cons.prems(2) by (simp add: deg1_def q1_def Let_def)
  then have IH: "length q' + card {x \<in> A. deg' x > 0} \<le> length q1 + card {x \<in> A. deg1 x > 0}"
    using Cons.prems(1) by (intro Cons.IH) auto
  have sub: "{x \<in> A. deg1 x > 0} \<subseteq> {x \<in> A. deg x > 0}"
    by (auto simp: deg1_def split: if_splits)
  have fin: "finite {x \<in> A. deg x > 0}" using \<open>finite A\<close> by simp
  show ?case
  proof (cases "deg1 d = 0")
    case True
    then have "{x \<in> A. deg1 x > 0} = {x \<in> A. deg x > 0} - {d}" and "d \<in> {x \<in> A. deg x > 0}"
      using Cons.prems by (auto simp: deg1_def split: if_splits)
    then have "Suc (card {x \<in> A. deg1 x > 0}) = card {x \<in> A. deg x > 0}"
      using fin by (metis card_Suc_Diff1)
    with True IH show ?thesis by (simp add: q1_def)
  next
    case False
    with IH card_mono [OF fin sub] show ?thesis by (simp add: q1_def)
  qed
qed

lemma dependents_of_keys: "set (dependents_of modules dep) \<subseteq> keys modules"
  by (auto simp: dependents_of_def keys_def image_iff split: if_splits) (metis fst_conv)

text \<open>The \<open>while queue\<close> loop. Each counter reaches zero at most once, so the queued modules
  plus the modules with a positive counter decrease at every turn.\<close>

function kahn_loop ::
  "deps_registry \<Rightarrow> name list \<Rightarrow> (name \<Rightarrow> int) \<Rightarrow> name list \<Rightarrow> name list" where
  "kahn_loop modules [] deg result = result"
| "kahn_loop modules (node # queue) deg result =
     (case release (sort (dependents_of modules node)) deg queue of
        (deg', queue') \<Rightarrow> kahn_loop modules queue' deg' (result @ [node]))"
  by pat_completeness auto

termination
proof (relation "measure (\<lambda>(modules, queue, deg, result).
    length queue + card {d \<in> keys modules. deg d > 0})", goal_cases)
  case 1
  show ?case by simp
next
  case (2 modules node queue deg result deg' queue')
  then have "length queue' + card {d \<in> keys modules. deg' d > 0}
      \<le> length queue + card {d \<in> keys modules. deg d > 0}"
    by (intro release_measure [where ds = "sort (dependents_of modules node)"])
      (simp_all add: dependents_of_keys)
  then show ?case by simp
qed

definition topological_sort :: "deps_registry \<Rightarrow> name list" where
  "topological_sort modules =
     (if modules = [] then []
      else
        let queue = sort (filter (\<lambda>n. in_degree0 modules n = 0) (map fst modules));
            result = kahn_loop modules queue (in_degree0 modules) []
        in if length result < length modules
           then result @ sort (filter (\<lambda>n. n \<notin> set result) (map fst modules))
           else result)"

subsection \<open>What the loop establishes\<close>

definition depends_in :: "deps_registry \<Rightarrow> name \<Rightarrow> name list" where
  "depends_in modules n = filter (\<lambda>d. d \<in> keys modules) (the (map_of modules n))"

text \<open>Everything before a prefix boundary that a module needs is already placed.\<close>

fun ordered :: "deps_registry \<Rightarrow> name list \<Rightarrow> name list \<Rightarrow> bool" where
  "ordered modules placed [] = True"
| "ordered modules placed (n # ns) =
     (set (depends_in modules n) \<subseteq> set placed \<and> ordered modules (placed @ [n]) ns)"

lemma ordered_snoc:
  "ordered modules placed (ns @ [n]) \<longleftrightarrow>
     ordered modules placed ns \<and> set (depends_in modules n) \<subseteq> set placed \<union> set ns"
  by (induction ns arbitrary: placed) auto

lemma ordered_nth:
  "ordered modules placed ns \<Longrightarrow> i < length ns \<Longrightarrow>
     set (depends_in modules (ns ! i)) \<subseteq> set placed \<union> set (take i ns)"
proof (induction ns arbitrary: placed i)
  case Nil
  then show ?case by simp
next
  case (Cons n ns)
  then show ?case by (cases i) fastforce+
qed

definition pending :: "deps_registry \<Rightarrow> name list \<Rightarrow> name \<Rightarrow> nat" where
  "pending modules result n = length (filter (\<lambda>d. d \<notin> set result) (depends_in modules n))"

definition kahn_inv ::
  "deps_registry \<Rightarrow> name list \<Rightarrow> (name \<Rightarrow> int) \<Rightarrow> name list \<Rightarrow> bool" where
  "kahn_inv modules queue deg result \<longleftrightarrow>
     distinct (result @ queue) \<and> set (result @ queue) \<subseteq> keys modules \<and>
     (\<forall>n \<in> keys modules. deg n = int (pending modules result n)) \<and>
     (\<forall>n \<in> keys modules. n \<in> set (result @ queue) \<longleftrightarrow> deg n = 0) \<and>
     ordered modules [] result"

lemma release_effect:
  assumes "\<And>n. int (count_list ds n) \<le> deg n" and "distinct q"
    and "\<And>n. n \<in> set q \<Longrightarrow> n \<notin> set ds" and "release ds deg q = (deg', q')"
  shows "deg' = (\<lambda>n. deg n - int (count_list ds n)) \<and> distinct q' \<and>
    set q' = set q \<union> {n \<in> set ds. deg n = int (count_list ds n)}"
  using assms
proof (induction ds arbitrary: deg q)
  case Nil
  then show ?case by (auto simp: fun_eq_iff)
next
  case (Cons d ds)
  let ?deg1 = "deg(d := deg d - 1)"
  let ?q1 = "if deg d - 1 = 0 then q @ [d] else q"
  have rel: "release ds ?deg1 ?q1 = (deg', q')"
    using Cons.prems(4) by (simp add: Let_def)
  have c: "int (count_list ds n) \<le> ?deg1 n" for n
    using Cons.prems(1) [of n] by (auto split: if_splits)
  have dnq: "d \<notin> set q" using Cons.prems(3) by auto
  have zero: "d \<notin> set ds" if "deg d - 1 = 0"
    using Cons.prems(1) [of d] that by (simp add: count_list_zero_iff)
  have nq: "n \<notin> set ds" if "n \<in> set ?q1" for n
    using that Cons.prems(3) zero by (auto split: if_splits)
  have dq: "distinct ?q1" using Cons.prems(2) dnq by simp
  have IH: "deg' = (\<lambda>n. ?deg1 n - int (count_list ds n)) \<and> distinct q' \<and>
      set q' = set ?q1 \<union> {n \<in> set ds. ?deg1 n = int (count_list ds n)}"
    by (rule Cons.IH [OF c dq nq rel])
  have sets: "set ?q1 \<union> {n \<in> set ds. ?deg1 n = int (count_list ds n)} =
      set q \<union> {n \<in> set (d # ds). deg n = int (count_list (d # ds) n)}"
    using zero by (auto simp: count_list_zero_iff split: if_splits)
  from IH sets show ?case by (auto simp: fun_eq_iff)
qed

lemma count_concat_dependents:
  assumes "wf_dict ms" and "n \<in> keys ms"
  shows "count_list (concat (map (\<lambda>(n, ds). replicate (count_list ds dep) n) ms)) n =
    count_list (the (map_of ms n)) dep"
  using assms
proof (induction ms)
  case Nil
  then show ?case by simp
next
  case (Cons p ms)
  obtain m ds where p: "p = (m, ds)" by (cases p)
  have none: "count_list (concat (map (\<lambda>(n, ds). replicate (count_list ds dep) n) ms)) k = 0"
    if "k \<notin> keys ms" for k
    using that by (auto simp: count_list_zero_iff keys_def image_iff)
  show ?case
  proof (cases "n = m")
    case True
    with Cons.prems have "n \<notin> keys ms" by (simp add: p wf_dict_def keys_def)
    with none True show ?thesis by (simp add: p)
  next
    case False
    with Cons show ?thesis by (simp add: p wf_dict_def)
  qed
qed

lemma count_dependents:
  "wf_dict ms \<Longrightarrow> n \<in> keys ms \<Longrightarrow> dep \<in> keys ms \<Longrightarrow>
     count_list (dependents_of ms dep) n = count_list (depends_in ms n) dep"
  by (simp add: dependents_of_def count_concat_dependents depends_in_def count_list_filter)

lemma pending_snoc:
  assumes "node \<notin> set result"
  shows "pending ms result n = pending ms (result @ [node]) n + count_list (depends_in ms n) node"
  using length_filter_remove_one [OF assms] by (simp add: pending_def)

lemma kahn_inv_step:
  assumes wf: "wf_dict ms" and inv: "kahn_inv ms (node # queue) deg result"
    and rel: "release (sort (dependents_of ms node)) deg queue = (deg', queue')"
    and nonneg: "\<And>n. n \<notin> keys ms \<Longrightarrow> deg n = 0"
  shows "kahn_inv ms queue' deg' (result @ [node]) \<and> (\<forall>n. n \<notin> keys ms \<longrightarrow> deg' n = 0)"
proof -
  let ?ds = "sort (dependents_of ms node)"
  have node: "node \<in> keys ms" "node \<notin> set result" and dq: "distinct queue"
    using inv by (auto simp: kahn_inv_def)
  have cnt: "count_list (dependents_of ms node) n = (if n \<in> keys ms then count_list (depends_in ms n) node else 0)" for n
    using count_dependents [OF wf _ node(1)] dependents_of_keys [of ms node]
    by (auto simp: count_list_zero_iff)
  have pend: "deg n = int (pending ms (result @ [node]) n) + int (count_list ?ds n)"
    if "n \<in> keys ms" for n
    using inv that pending_snoc [OF node(2), of ms n]
    by (simp add: kahn_inv_def count_dependents [OF wf that node(1)])
  have le: "int (count_list ?ds n) \<le> deg n" for n
    using pend [of n] nonneg [of n] cnt [of n] by (cases "n \<in> keys ms") auto
  have "n \<notin> set ?ds" if "n \<in> set queue" for n
  proof -
    from inv that have "n \<in> keys ms" "deg n = 0" by (auto simp: kahn_inv_def)
    with le [of n] have "count_list ?ds n = 0" by simp
    then show ?thesis unfolding count_list_zero_iff .
  qed
  from release_effect [OF le dq this rel]
  have deg': "deg' = (\<lambda>n. deg n - int (count_list ?ds n))" and dq': "distinct queue'"
    and sq': "set queue' = set queue \<union> {n \<in> set ?ds. deg n = int (count_list ?ds n)}"
    by blast+
  have new: "deg n \<noteq> 0" if "n \<in> set ?ds" for n
  proof
    assume "deg n = 0"
    with le [of n] have "count_list ?ds n = 0" by linarith
    then have "n \<notin> set ?ds" unfolding count_list_zero_iff .
    with that show False by simp
  qed
  have keys': "set queue' \<subseteq> keys ms"
    using inv sq' dependents_of_keys [of ms node] by (auto simp: kahn_inv_def)
  have done_zero: "deg n = 0 \<and> n \<notin> set queue" if "n \<in> set (result @ [node])" for n
    using inv that unfolding kahn_inv_def by auto
  have disj: "set (result @ [node]) \<inter> set queue' = {}"
    using done_zero new unfolding sq' by blast
  have placed: "n \<in> set (result @ [node]) \<union> set queue' \<longleftrightarrow> deg' n = 0" if "n \<in> keys ms" for n
    using inv that le [of n] sq' by (auto simp: kahn_inv_def deg' count_list_zero_iff)
  have "deg node = 0" using inv node by (auto simp: kahn_inv_def)
  then have "pending ms result node = 0" using inv node by (auto simp: kahn_inv_def)
  then have "set (depends_in ms node) \<subseteq> set result" by (auto simp: pending_def filter_empty_conv)
  then have ord: "ordered ms [] (result @ [node])"
    using inv by (simp add: kahn_inv_def ordered_snoc)
  have "\<forall>n \<in> keys ms. deg' n = int (pending ms (result @ [node]) n)"
    using pend by (simp add: deg')
  moreover have "\<forall>n. n \<notin> keys ms \<longrightarrow> deg' n = 0" using nonneg by (simp add: deg' cnt)
  ultimately show ?thesis
    using inv dq' keys' disj placed ord unfolding kahn_inv_def by auto
qed

lemma kahn_loop_inv:
  assumes "wf_dict ms" and "kahn_inv ms queue deg result" and "\<And>n. n \<notin> keys ms \<Longrightarrow> deg n = 0"
  shows "\<exists>deg'. kahn_inv ms [] deg' (kahn_loop ms queue deg result)"
  using assms
proof (induction ms queue deg result rule: kahn_loop.induct)
  case (1 modules deg result)
  then show ?case by auto
next
  case (2 modules node queue deg result)
  obtain deg' queue' where rel: "release (sort (dependents_of modules node)) deg queue = (deg', queue')"
    by fastforce
  from kahn_inv_step [OF "2.prems"(1,2) rel "2.prems"(3)]
  have "kahn_inv modules queue' deg' (result @ [node])" "\<And>n. n \<notin> keys modules \<Longrightarrow> deg' n = 0"
    by auto
  from "2.IH" [OF rel [symmetric] "2.prems"(1) this] show ?case by (simp add: rel)
qed

lemma kahn_inv_init:
  assumes "wf_dict ms"
  shows "kahn_inv ms (sort (filter (\<lambda>n. in_degree0 ms n = 0) (map fst ms))) (in_degree0 ms) []"
proof -
  have "in_degree0 ms n = int (pending ms [] n)" if "n \<in> keys ms" for n
    using that by (auto simp: in_degree0_def pending_def depends_in_def keys_map_of)
  then show ?thesis using assms by (auto simp: kahn_inv_def wf_dict_def keys_def)
qed

definition kahn_result :: "deps_registry \<Rightarrow> name list" where
  "kahn_result ms =
     kahn_loop ms (sort (filter (\<lambda>n. in_degree0 ms n = 0) (map fst ms))) (in_degree0 ms) []"

definition left_over :: "deps_registry \<Rightarrow> name list" where
  "left_over ms = sort (filter (\<lambda>n. n \<notin> set (kahn_result ms)) (map fst ms))"

lemma kahn_result_facts:
  assumes "wf_dict ms"
  shows "distinct (kahn_result ms)" and "set (kahn_result ms) \<subseteq> keys ms"
    and "ordered ms [] (kahn_result ms)"
    and "n \<in> keys ms \<Longrightarrow> n \<notin> set (kahn_result ms) \<Longrightarrow>
      \<exists>d \<in> set (depends_in ms n). d \<notin> set (kahn_result ms)"
proof -
  have "in_degree0 ms n = 0" if "n \<notin> keys ms" for n
    using that by (simp add: in_degree0_def map_of_eq_None_keys [THEN iffD2])
  then obtain deg where inv: "kahn_inv ms [] deg (kahn_result ms)"
    using kahn_loop_inv [OF assms kahn_inv_init [OF assms]] unfolding kahn_result_def by blast
  then show "distinct (kahn_result ms)" "set (kahn_result ms) \<subseteq> keys ms"
    "ordered ms [] (kahn_result ms)"
    by (auto simp: kahn_inv_def)
  assume "n \<in> keys ms" "n \<notin> set (kahn_result ms)"
  with inv have "pending ms (kahn_result ms) n \<noteq> 0" by (auto simp: kahn_inv_def)
  then show "\<exists>d \<in> set (depends_in ms n). d \<notin> set (kahn_result ms)"
    by (auto simp: pending_def filter_empty_conv)
qed

lemma left_over_facts:
  assumes "wf_dict ms"
  shows "distinct (left_over ms)" and "set (left_over ms) = keys ms - set (kahn_result ms)"
    and "sorted (left_over ms)"
  using assms by (auto simp: left_over_def wf_dict_def keys_def)

lemma topological_sort_split:
  assumes "wf_dict ms"
  shows "topological_sort ms = kahn_result ms @ left_over ms"
proof (cases "ms = []")
  case True
  then show ?thesis by (simp add: topological_sort_def kahn_result_def left_over_def)
next
  case False
  have len: "length ms = card (keys ms)"
    using assms by (metis distinct_card keys_def length_map list.set_map wf_dict_def)
  have "left_over ms = []" if "\<not> length (kahn_result ms) < length ms"
  proof -
    have "card (keys ms) \<le> card (set (kahn_result ms))"
      using that kahn_result_facts(1) [OF assms] by (simp add: len distinct_card)
    then have "set (kahn_result ms) = keys ms"
      using kahn_result_facts(2) [OF assms] by (intro card_seteq) auto
    with left_over_facts(2) [OF assms] show ?thesis by auto
  qed
  with False show ?thesis
    by (simp add: topological_sort_def kahn_result_def [symmetric] left_over_def [symmetric] Let_def)
qed

subsection \<open>The properties of \<open>topological_sort\<close>\<close>

definition depends_rel :: "deps_registry \<Rightarrow> (name \<times> name) set" where
  "depends_rel ms = {(d, n). n \<in> keys ms \<and> d \<in> set (depends_in ms n)}"

lemma depends_in_keys: "set (depends_in ms n) \<subseteq> keys ms"
  by (auto simp: depends_in_def)

lemma acyclic_left_over_Nil:
  assumes "wf_dict ms" and "acyclic (depends_rel ms)"
  shows "left_over ms = []"
proof -
  have "depends_rel ms \<subseteq> keys ms \<times> keys ms"
    by (auto simp: depends_rel_def dest: depends_in_keys [THEN subsetD])
  then have "finite (depends_rel ms)" by (rule finite_subset) simp
  then have wf: "wf (depends_rel ms)" using assms(2) by (rule finite_acyclic_wf)
  have "n \<in> set (kahn_result ms)" if "n \<in> keys ms" for n
    using that
  proof (induction n rule: wf_induct_rule [OF wf])
    case (1 n)
    have "d \<in> set (kahn_result ms)" if d: "d \<in> set (depends_in ms n)" for d
    proof (rule "1.IH")
      show "(d, n) \<in> depends_rel ms" using d "1.prems" by (simp add: depends_rel_def)
      show "d \<in> keys ms" using d depends_in_keys by blast
    qed
    then show ?case using kahn_result_facts(4) [OF assms(1) "1.prems"] by auto
  qed
  then have "keys ms \<subseteq> set (kahn_result ms)" by (rule subsetI)
  then have "set (left_over ms) = {}" by (simp add: left_over_facts(2) [OF assms(1)])
  then show ?thesis by simp
qed

text \<open>C28. Kahn's sort lists every module of the registry exactly once: the result has no
  duplicate and its elements are the keys of the dict, with missing, repeated or circular
  dependencies alike. The \<open>while\<close> loop of the code therefore also ends on every
  registry (the model is a total function with a decreasing measure).\<close>

theorem topological_sort_permutation:
  assumes "wf_dict modules"
  shows "distinct (topological_sort modules) \<and> set (topological_sort modules) = keys modules"
  using kahn_result_facts(1,2) [OF assms] left_over_facts(1,2) [OF assms]
  by (auto simp: topological_sort_split [OF assms])

theorem topological_sort_permutation_witness:
  "distinct (topological_sort [(''sale'', [''base'', ''gone'']), (''base'', [])]) \<and>
   set (topological_sort [(''sale'', [''base'', ''gone'']), (''base'', [])]) = {''sale'', ''base''}"
  using topological_sort_permutation [of "[(''sale'', [''base'', ''gone'']), (''base'', [])]"]
  by (simp add: wf_dict_def)

text \<open>C27. On a registry without a dependency cycle, every dependency that the registry has
  stands before the module that needs it.\<close>

theorem topological_sort_dependencies_first:
  assumes "wf_dict modules" and "acyclic (depends_rel modules)"
    and "i < length (topological_sort modules)"
  shows "set (depends_in modules (topological_sort modules ! i)) \<subseteq>
    set (take i (topological_sort modules))"
proof -
  have "topological_sort modules = kahn_result modules"
    using topological_sort_split acyclic_left_over_Nil assms(1,2) by simp
  with assms(3) ordered_nth [OF kahn_result_facts(3) [OF assms(1)]] show ?thesis by simp
qed

theorem topological_sort_dependencies_first_witness:
  "acyclic (depends_rel [(''sale'', [''base'']), (''base'', [])]) \<and>
   set (depends_in [(''sale'', [''base'']), (''base'', [])]
     (topological_sort [(''sale'', [''base'']), (''base'', [])] ! 1)) \<subseteq>
   set (take 1 (topological_sort [(''sale'', [''base'']), (''base'', [])]))"
proof -
  let ?ms = "[(''sale'', [''base'']), (''base'', [])] :: deps_registry"
  have rel: "depends_rel ?ms = {(''base'', ''sale'')}"
    by (auto simp: depends_rel_def depends_in_def split: if_splits)
  have ac: "acyclic (depends_rel ?ms)" unfolding rel by (simp add: acyclic_insert wf_acyclic)
  have len: "1 < length (topological_sort ?ms)" by code_simp
  show ?thesis
    using ac topological_sort_dependencies_first [OF _ ac len] by (simp add: wf_dict_def)
qed

text \<open>With circular dependencies the result is the placed part, in dependency order,
  followed by the stuck modules in alphabetical order; each stuck module has a dependency
  that is itself stuck, so nothing is put at the end without a cycle behind it.\<close>

theorem topological_sort_circular:
  assumes "wf_dict modules"
  shows "\<exists>placed stuck. topological_sort modules = placed @ stuck \<and> sorted stuck \<and>
    (\<forall>i < length placed. set (depends_in modules (placed ! i)) \<subseteq> set (take i placed)) \<and>
    (\<forall>n \<in> set stuck. \<exists>d \<in> set stuck. d \<in> set (depends_in modules n))"
proof (intro exI conjI)
  show "topological_sort modules = kahn_result modules @ left_over modules"
    by (rule topological_sort_split [OF assms])
  show "sorted (left_over modules)" by (rule left_over_facts(3) [OF assms])
  show "\<forall>i < length (kahn_result modules).
      set (depends_in modules (kahn_result modules ! i)) \<subseteq> set (take i (kahn_result modules))"
    using ordered_nth [OF kahn_result_facts(3) [OF assms]] by simp
  show "\<forall>n \<in> set (left_over modules). \<exists>d \<in> set (left_over modules). d \<in> set (depends_in modules n)"
    using kahn_result_facts(4) [OF assms] left_over_facts(2) [OF assms] depends_in_keys by fast
qed

theorem topological_sort_circular_witness:
  "\<exists>placed stuck. topological_sort [(''b'', [''a'']), (''a'', [''b''])] = placed @ stuck \<and> sorted stuck \<and>
    (\<forall>i < length placed. set (depends_in [(''b'', [''a'']), (''a'', [''b''])] (placed ! i))
       \<subseteq> set (take i placed)) \<and>
    (\<forall>n \<in> set stuck. \<exists>d \<in> set stuck. d \<in> set (depends_in [(''b'', [''a'']), (''a'', [''b''])] n))"
  by (rule topological_sort_circular) (simp add: wf_dict_def)

end
