(* ===== verification/Py_Strings.thy ===== *)
theory Py_Strings
  imports Prelude
begin

section \<open>Python strings, integers and relative paths\<close>

text \<open>
  The operations of \<^verbatim>\<open>str\<close>, \<^verbatim>\<open>int\<close> and
  \<^verbatim>\<open>pathlib.Path\<close> the sources use. A character is a code point below 256; the
  classes \<open>is_space\<close> and \<open>is_digit\<close> are Python's on that range. Paths are
  POSIX paths; \<open>path_parts\<close> drops empty and \<open>.\<close> components as
  \<^verbatim>\<open>Path\<close> does, so \<open>path_parent\<close> of a one-component path is
  \<^verbatim>\<open>"."\<close>. The interpreter's limit on the digits of a decimal string (4300) is left out.
\<close>

subsection \<open>Strings\<close>

definition char_code :: "char \<Rightarrow> nat" where
  "char_code c = of_char c"

definition is_space :: "char \<Rightarrow> bool" where
  "is_space c = (let n = char_code c
     in (9 \<le> n \<and> n \<le> 13) \<or> (28 \<le> n \<and> n \<le> 32) \<or> n = 133 \<or> n = 160)"

definition is_digit :: "char \<Rightarrow> bool" where
  "is_digit c = (48 \<le> char_code c \<and> char_code c \<le> 57)"

definition strip :: "string \<Rightarrow> string" where
  "strip s = rev (dropWhile is_space (rev (dropWhile is_space s)))"

definition startswith :: "string \<Rightarrow> string \<Rightarrow> bool" where
  "startswith s p = (take (length p) s = p)"

definition endswith :: "string \<Rightarrow> string \<Rightarrow> bool" where
  "endswith s p = (length p \<le> length s \<and> drop (length s - length p) s = p)"

definition removeprefix :: "string \<Rightarrow> string \<Rightarrow> string" where
  "removeprefix s p = (if startswith s p then drop (length p) s else s)"

fun split_on :: "char \<Rightarrow> string \<Rightarrow> string list" where
  "split_on sep [] = [[]]"
| "split_on sep (c # cs) =
     (if c = sep then [] # split_on sep cs
      else (case split_on sep cs of
              [] \<Rightarrow> [[c]]
            | w # ws \<Rightarrow> (c # w) # ws))"

fun join_with :: "char \<Rightarrow> string list \<Rightarrow> string" where
  "join_with sep [] = []"
| "join_with sep [w] = w"
| "join_with sep (w # v # ws) = w @ sep # join_with sep (v # ws)"

lemma split_on_not_Nil [simp]: "split_on sep s \<noteq> []"
  by (induction s) (auto split: list.split)

lemma join_split: "join_with sep (split_on sep s) = s"
proof (induction s)
  case Nil
  then show ?case by simp
next
  case (Cons c cs)
  obtain w ws where w: "split_on sep cs = w # ws" by (cases "split_on sep cs") auto
  with Cons show ?case by (cases ws) auto
qed

lemma split_on_no_sep: "sep \<notin> set s \<Longrightarrow> split_on sep s = [s]"
  by (induction s) auto

lemma split_on_append: "sep \<notin> set w \<Longrightarrow> split_on sep (w @ sep # s) = w # split_on sep s"
  by (induction w) auto

lemma startswith_iff: "startswith s p \<longleftrightarrow> (\<exists>t. s = p @ t)"
  by (metis append_eq_conv_conj startswith_def)

subsection \<open>Integers\<close>

fun parse_digits :: "int \<Rightarrow> bool \<Rightarrow> string \<Rightarrow> int option" where
  "parse_digits acc after_digit [] = (if after_digit then Some acc else None)"
| "parse_digits acc after_digit (c # cs) =
     (if is_digit c then parse_digits (10 * acc + (int (char_code c) - 48)) True cs
      else if c = CHR ''_'' \<and> after_digit then parse_digits acc False cs
      else None)"

text \<open>\<^verbatim>\<open>int(s)\<close>; \<open>None\<close> is the \<^verbatim>\<open>ValueError\<close>.\<close>

definition py_int :: "string \<Rightarrow> int option" where
  "py_int s =
     (case strip s of
        [] \<Rightarrow> None
      | c # cs \<Rightarrow>
          if c = CHR ''-'' then map_option uminus (parse_digits 0 False cs)
          else if c = CHR ''+'' then parse_digits 0 False cs
          else parse_digits 0 False (c # cs))"

definition digit_char :: "nat \<Rightarrow> char" where
  "digit_char n = char_of (48 + n)"

fun str_nat :: "nat \<Rightarrow> string" where
  "str_nat n = (if n < 10 then [digit_char n] else str_nat (n div 10) @ [digit_char (n mod 10)])"

declare str_nat.simps [simp del]

definition str_int :: "int \<Rightarrow> string" where
  "str_int i = (if i < 0 then CHR ''-'' # str_nat (nat (- i)) else str_nat (nat i))"

lemma char_code_digit: "n < 10 \<Longrightarrow> char_code (digit_char n) = 48 + n"
  by (simp add: char_code_def digit_char_def)

lemma is_digit_digit_char: "n < 10 \<Longrightarrow> is_digit (digit_char n)"
  by (simp add: is_digit_def char_code_digit)

lemma digit_not_space: "is_digit c \<Longrightarrow> \<not> is_space c"
  by (auto simp: is_digit_def is_space_def Let_def)

lemma str_nat_digits: "\<forall>c \<in> set (str_nat n). is_digit c"
proof (induction n rule: str_nat.induct)
  case (1 n)
  then show ?case by (subst str_nat.simps) (auto simp: is_digit_digit_char)
qed

lemma str_nat_not_Nil [simp]: "str_nat n \<noteq> []"
  by (subst str_nat.simps) simp

lemma strip_digits: "\<forall>c \<in> set s. is_digit c \<Longrightarrow> strip s = s"
proof -
  assume s: "\<forall>c \<in> set s. is_digit c"
  have drop: "dropWhile is_space t = t" if "\<forall>c \<in> set t. is_digit c" for t
    using that by (cases t) (auto simp: digit_not_space)
  show ?thesis using s drop [of s] drop [of "rev s"] by (simp add: strip_def)
qed

definition digits_value :: "int \<Rightarrow> string \<Rightarrow> int" where
  "digits_value = foldl (\<lambda>acc c. 10 * acc + (int (char_code c) - 48))"

lemma parse_digits_value:
  "\<forall>c \<in> set s. is_digit c \<Longrightarrow>
     parse_digits acc b s = (if b \<or> s \<noteq> [] then Some (digits_value acc s) else None)"
proof (induction s arbitrary: acc b)
  case Nil
  then show ?case by (simp add: digits_value_def)
next
  case (Cons c cs)
  then have "parse_digits a True cs = Some (digits_value a cs)" for a by simp
  with Cons.prems show ?case by (simp add: digits_value_def)
qed

lemma digits_value_str_nat: "digits_value 0 (str_nat n) = int n"
proof (induction n rule: str_nat.induct)
  case (1 n)
  show ?case
  proof (cases "n < 10")
    case True
    then show ?thesis by (subst str_nat.simps) (simp add: digits_value_def char_code_digit)
  next
    case False
    with "1.IH" have IH: "digits_value 0 (str_nat (n div 10)) = int (n div 10)" by simp
    have "int (char_code (digit_char (n mod 10))) - 48 = int (n mod 10)"
      by (simp add: char_code_digit)
    with False IH have "digits_value 0 (str_nat n) = 10 * int (n div 10) + int (n mod 10)"
      by (subst str_nat.simps) (simp add: digits_value_def)
    then show ?thesis by presburger
  qed
qed

lemma parse_digits_str_nat: "parse_digits 0 False (str_nat n) = Some (int n)"
  by (simp add: parse_digits_value str_nat_digits digits_value_str_nat)

lemma sign_not_digit: "is_digit c \<Longrightarrow> c \<noteq> CHR ''-'' \<and> c \<noteq> CHR ''+'' \<and> c \<noteq> CHR ''.''"
  by (auto simp: is_digit_def char_code_def)

text \<open>\<open>int\<close> reads back a decimal, with or without leading zeros.\<close>

lemma py_int_padded [simp]: "py_int (replicate k (CHR ''0'') @ str_nat n) = Some (int n)"
proof -
  let ?s = "replicate k (CHR ''0'') @ str_nat n"
  have digits: "\<forall>c \<in> set ?s. is_digit c"
    using str_nat_digits [of n] by (auto simp: is_digit_def char_code_def)
  have "digits_value 0 (replicate k (CHR ''0'')) = 0"
    by (induction k) (simp_all add: digits_value_def char_code_def)
  then have "digits_value 0 ?s = int n"
    using digits_value_str_nat [of n] by (simp add: digits_value_def)
  then have "parse_digits 0 False ?s = Some (int n)"
    using digits by (simp add: parse_digits_value)
  moreover obtain c cs where s: "?s = c # cs" by (cases "?s") auto
  moreover have "is_digit c" using digits s by (metis list.set_intros(1))
  ultimately show ?thesis
    using strip_digits [OF digits] sign_not_digit [of c] by (simp add: py_int_def s)
qed

lemma py_int_str_nat [simp]: "py_int (str_nat n) = Some (int n)"
  using py_int_padded [of 0] by simp

subsection \<open>Paths\<close>

definition path_parts :: "string \<Rightarrow> string list" where
  "path_parts p = (if startswith p ''/'' then [''/''] else []) @
     filter (\<lambda>w. w \<noteq> [] \<and> w \<noteq> ''.'') (split_on (CHR ''/'') p)"

definition path_name :: "string \<Rightarrow> string" where
  "path_name p =
     (case rev (path_parts p) of [] \<Rightarrow> [] | w # _ \<Rightarrow> if w = ''/'' then [] else w)"

definition path_str :: "string list \<Rightarrow> string" where
  "path_str ws =
     (case ws of
        [] \<Rightarrow> ''.''
      | w # rest \<Rightarrow> if w = ''/'' then w @ join_with (CHR ''/'') rest else join_with (CHR ''/'') ws)"

definition path_parent :: "string \<Rightarrow> string" where
  "path_parent p =
     (if path_parts p = [''/''] then ''/'' else path_str (butlast (path_parts p)))"

definition path_norm :: "string \<Rightarrow> string" where
  "path_norm p = path_str (path_parts p)"

end
