(* ===== verification/Version_Registry.thy ===== *)
theory Version_Registry
  imports Py_Strings
begin

section \<open>Version dispatch (src/indexer/version_registry.py)\<close>

text \<open>
  A \<open>VersionRegistry\<close> is a list of \<open>(min_major, max_major, handler)\<close> entries sorted by
  \<open>min_major\<close>; the first entry that covers a major wins. The contract every era gate of the
  module relies on (a major belongs to at most one entry, so the order of the entries does
  not matter) is the locale \<open>era_table\<close>, interpreted on each table the module defines.
\<close>

type_synonym 'h entry = "int \<times> int option \<times> 'h"

definition entry_covers :: "int \<Rightarrow> 'h entry \<Rightarrow> bool" where
  "entry_covers major e =
     (case e of (lo, hi, _) \<Rightarrow>
        lo \<le> major \<and> (case hi of None \<Rightarrow> True | Some h \<Rightarrow> major \<le> h))"

definition make_version_registry :: "'h entry list \<Rightarrow> 'h entry list" where
  "make_version_registry entries = sort_key fst entries"

fun resolve_entries :: "'h entry list \<Rightarrow> int \<Rightarrow> 'h option \<Rightarrow> 'h option" where
  "resolve_entries [] major dflt = dflt"
| "resolve_entries ((min_major, max_major, handler) # rest) major dflt =
     (if major < min_major then resolve_entries rest major dflt
      else if (case max_major of None \<Rightarrow> False | Some m \<Rightarrow> major > m)
        then resolve_entries rest major dflt
      else Some handler)"

definition resolve :: "'h entry list \<Rightarrow> int \<Rightarrow> 'h option \<Rightarrow> 'h option" where
  "resolve entries major dflt = resolve_entries (make_version_registry entries) major dflt"

text \<open>\<^verbatim>\<open>int(str(odoo_version).split(".")[0])\<close>; \<open>None\<close> is the caught \<open>ValueError\<close>.\<close>

definition version_major :: "string \<Rightarrow> int option" where
  "version_major odoo_version = py_int (hd (split_on (CHR ''.'') odoo_version))"

definition resolve_version :: "'h entry list \<Rightarrow> string \<Rightarrow> 'h option \<Rightarrow> 'h option" where
  "resolve_version entries odoo_version dflt =
     (case version_major odoo_version of
        None \<Rightarrow> dflt
      | Some major \<Rightarrow> resolve entries major dflt)"

definition STYLESHEET_LESS_REGISTRY :: "bool entry list" where
  "STYLESHEET_LESS_REGISTRY = [(9, Some 11, True)]"

definition STYLESHEET_SCSS_REGISTRY :: "bool entry list" where
  "STYLESHEET_SCSS_REGISTRY = [(12, None, True)]"

definition py_bool :: "bool option \<Rightarrow> bool" where
  "py_bool b = (b = Some True)"

definition less_active :: "string \<Rightarrow> bool" where
  "less_active v = py_bool (resolve_version STYLESHEET_LESS_REGISTRY v (Some False))"

definition scss_active :: "string \<Rightarrow> bool" where
  "scss_active v = py_bool (resolve_version STYLESHEET_SCSS_REGISTRY v (Some False))"

definition REPORT_TYPE_DEFAULT_REGISTRY :: "string entry list" where
  "REPORT_TYPE_DEFAULT_REGISTRY = [(8, Some 10, ''pdf''), (11, None, ''qweb-pdf'')]"

definition REPORT_TEMPLATE_WARN_REGISTRY :: "bool entry list" where
  "REPORT_TEMPLATE_WARN_REGISTRY = [(11, None, True)]"

definition PYTHON3_SOURCE_REGISTRY :: "bool entry list" where
  "PYTHON3_SOURCE_REGISTRY = [(11, None, True)]"

definition python3_source_expected :: "string \<Rightarrow> bool" where
  "python3_source_expected v = py_bool (resolve_version PYTHON3_SOURCE_REGISTRY v (Some False))"

definition report_default_type :: "string \<Rightarrow> string option" where
  "report_default_type v = resolve_version REPORT_TYPE_DEFAULT_REGISTRY v (Some ''qweb-pdf'')"

record report_info =
  has_legacy_marker :: bool
  report_type :: string

definition is_qweb_report :: "report_info \<Rightarrow> string \<Rightarrow> bool" where
  "is_qweb_report r v =
     (if has_legacy_marker r then False
      else
        let rt = strip (report_type r) in
        if rt = [] then
          (case report_default_type v of None \<Rightarrow> False | Some t \<Rightarrow> startswith t ''qweb-'')
        else startswith rt ''qweb-'')"

definition report_template_warn_active :: "string \<Rightarrow> bool" where
  "report_template_warn_active v =
     py_bool (resolve_version REPORT_TEMPLATE_WARN_REGISTRY v (Some False))"

subsection \<open>First match in ascending order\<close>

lemma resolve_entries_find:
  "resolve_entries es major dflt =
     (case find (entry_covers major) es of
        None \<Rightarrow> dflt | Some (_, _, h) \<Rightarrow> Some h)"
  by (induction es major dflt rule: resolve_entries.induct)
    (auto simp: entry_covers_def split: option.splits)

lemma resolve_entries_least:
  assumes "sorted (map fst es)" and "\<exists>e \<in> set es. entry_covers major e"
  shows "\<exists>lo hi h. (lo, hi, h) \<in> set es \<and> entry_covers major (lo, hi, h) \<and>
    resolve_entries es major dflt = Some h \<and>
    (\<forall>e \<in> set es. entry_covers major e \<longrightarrow> lo \<le> fst e)"
  using assms
proof (induction es)
  case Nil
  then show ?case by simp
next
  case (Cons e es)
  obtain lo hi h where e: "e = (lo, hi, h)" by (cases e)
  show ?case
  proof (cases "entry_covers major e")
    case True
    then have "resolve_entries (e # es) major dflt = Some h" by (simp add: resolve_entries_find e)
    moreover have "\<forall>e' \<in> set (e # es). lo \<le> fst e'" using Cons.prems(1) by (auto simp: e)
    ultimately show ?thesis using True unfolding e by auto
  next
    case False
    then have "resolve_entries (e # es) major dflt = resolve_entries es major dflt"
      by (simp add: resolve_entries_find)
    with False Cons show ?thesis by auto
  qed
qed

lemma resolve_least:
  assumes "\<exists>e \<in> set entries. entry_covers major e"
  shows "\<exists>lo hi h. (lo, hi, h) \<in> set entries \<and> entry_covers major (lo, hi, h) \<and>
    resolve entries major dflt = Some h \<and>
    (\<forall>e \<in> set entries. entry_covers major e \<longrightarrow> lo \<le> fst e)"
  using resolve_entries_least [of "make_version_registry entries" major dflt] assms
  by (simp add: resolve_def make_version_registry_def)

locale era_table =
  fixes entries :: "'h entry list"
  assumes disjoint_eras:
    "e \<in> set entries \<Longrightarrow> e' \<in> set entries \<Longrightarrow> entry_covers major e \<Longrightarrow> entry_covers major e'
       \<Longrightarrow> e = e'"
begin

lemma resolve_covering:
  assumes "(lo, hi, h) \<in> set entries" and "entry_covers major (lo, hi, h)"
  shows "resolve entries major dflt = Some h"
proof -
  obtain lo' hi' h' where "(lo', hi', h') \<in> set entries" "entry_covers major (lo', hi', h')"
    "resolve entries major dflt = Some h'"
    using resolve_least [of entries major dflt] assms by blast
  with disjoint_eras [OF assms(1) _ assms(2)] show ?thesis by auto
qed

lemma resolve_order_irrelevant:
  assumes "set entries' = set entries"
  shows "resolve entries' major dflt = resolve entries major dflt"
proof (cases "\<exists>e \<in> set entries. entry_covers major e")
  case True
  then obtain lo hi h where e: "(lo, hi, h) \<in> set entries" "entry_covers major (lo, hi, h)"
    by (metis prod_cases3)
  obtain lo' hi' h' where "(lo', hi', h') \<in> set entries" "entry_covers major (lo', hi', h')"
    "resolve entries' major dflt = Some h'"
    using resolve_least [of entries' major dflt] e assms by blast
  with disjoint_eras [OF e(1) _ e(2)] resolve_covering [OF e] show ?thesis by auto
next
  case False
  then have "find (entry_covers major) (sort_key fst entries'') = None" if "set entries'' = set entries"
    for entries'' using that by (simp add: find_None_iff)
  with assms show ?thesis
    by (simp add: resolve_def make_version_registry_def resolve_entries_find)
qed

end

lemma resolve_uncovered:
  "\<forall>e \<in> set entries. \<not> entry_covers major e \<Longrightarrow> resolve entries major dflt = dflt"
proof -
  assume "\<forall>e \<in> set entries. \<not> entry_covers major e"
  then have "find (entry_covers major) (sort_key fst entries) = None"
    by (simp add: find_None_iff)
  then show ?thesis by (simp add: resolve_def make_version_registry_def resolve_entries_find)
qed

text \<open>A gate is a table whose every handler is \<open>True\<close>: it is on exactly for the majors of its eras.\<close>

locale era_gate = era_table entries for entries :: "bool entry list" +
  assumes handlers_True: "(lo, hi, h) \<in> set entries \<Longrightarrow> h"
begin

lemma gate_iff:
  "py_bool (resolve_version entries v (Some False)) \<longleftrightarrow>
     (\<exists>m. version_major v = Some m \<and> (\<exists>e \<in> set entries. entry_covers m e))"
proof (cases "version_major v")
  case None
  then show ?thesis by (simp add: resolve_version_def py_bool_def)
next
  case (Some m)
  show ?thesis
  proof (cases "\<exists>e \<in> set entries. entry_covers m e")
    case True
    then obtain lo hi h where "(lo, hi, h) \<in> set entries" "entry_covers m (lo, hi, h)"
      by (metis prod_cases3)
    with resolve_covering handlers_True Some True show ?thesis
      by (auto simp: resolve_version_def py_bool_def)
  next
    case False
    with resolve_uncovered [of entries m "Some False"] Some show ?thesis
      by (auto simp: resolve_version_def py_bool_def)
  qed
qed

end

interpretation less_era: era_gate STYLESHEET_LESS_REGISTRY
  by unfold_locales (simp_all add: STYLESHEET_LESS_REGISTRY_def)

interpretation scss_era: era_gate STYLESHEET_SCSS_REGISTRY
  by unfold_locales (simp_all add: STYLESHEET_SCSS_REGISTRY_def)

interpretation python3_era: era_gate PYTHON3_SOURCE_REGISTRY
  by unfold_locales (simp_all add: PYTHON3_SOURCE_REGISTRY_def)

interpretation template_warn_era: era_gate REPORT_TEMPLATE_WARN_REGISTRY
  by unfold_locales (simp_all add: REPORT_TEMPLATE_WARN_REGISTRY_def)

interpretation report_era: era_table REPORT_TYPE_DEFAULT_REGISTRY
  by unfold_locales (auto simp: REPORT_TYPE_DEFAULT_REGISTRY_def entry_covers_def)

lemma version_major_str: "version_major (str_nat n @ CHR ''.'' # rest) = Some (int n)"
proof -
  have "CHR ''.'' \<notin> set (str_nat n)" using str_nat_digits sign_not_digit by blast
  then show ?thesis by (simp add: version_major_def split_on_append)
qed

lemma less_active_iff: "less_active v \<longleftrightarrow> (\<exists>m. version_major v = Some m \<and> 9 \<le> m \<and> m \<le> 11)"
  unfolding less_active_def less_era.gate_iff
  by (simp add: STYLESHEET_LESS_REGISTRY_def entry_covers_def)

lemma scss_active_iff: "scss_active v \<longleftrightarrow> (\<exists>m. version_major v = Some m \<and> 12 \<le> m)"
  unfolding scss_active_def scss_era.gate_iff
  by (simp add: STYLESHEET_SCSS_REGISTRY_def entry_covers_def)

lemma report_default_type_iff:
  "version_major v = Some m \<Longrightarrow> report_default_type v =
     Some (if 8 \<le> m \<and> m \<le> 10 then ''pdf'' else ''qweb-pdf'')"
  using report_era.resolve_covering [of 8 "Some 10" "''pdf''" m "Some ''qweb-pdf''"]
    report_era.resolve_covering [of 11 None "''qweb-pdf''" m "Some ''qweb-pdf''"]
    resolve_uncovered [of REPORT_TYPE_DEFAULT_REGISTRY m "Some ''qweb-pdf''"]
  by (auto simp: report_default_type_def resolve_version_def REPORT_TYPE_DEFAULT_REGISTRY_def
      entry_covers_def)

subsection \<open>Properties\<close>

text \<open>A version registry answers with the covering entry of least \<open>min_major\<close> (first match
  in ascending order wins) and with the default exactly when no entry covers the major.\<close>

theorem resolve_first_match:
  "(\<forall>e \<in> set entries. \<not> entry_covers major e) \<and> resolve entries major dflt = dflt \<or>
   (\<exists>lo hi h. (lo, hi, h) \<in> set entries \<and> entry_covers major (lo, hi, h) \<and>
      resolve entries major dflt = Some h \<and>
      (\<forall>(lo', hi', h') \<in> set entries. entry_covers major (lo', hi', h') \<longrightarrow> lo \<le> lo'))"
proof (cases "\<exists>e \<in> set entries. entry_covers major e")
  case False
  then show ?thesis using resolve_uncovered [of entries major dflt] by blast
next
  case True
  obtain lo hi h where
    m: "(lo, hi, h) \<in> set entries" "entry_covers major (lo, hi, h)"
      "resolve entries major dflt = Some h"
      "\<And>e. e \<in> set entries \<Longrightarrow> entry_covers major e \<Longrightarrow> lo \<le> fst e"
    using resolve_least [OF True] by blast
  then show ?thesis by force
qed

theorem resolve_first_match_witness:
  "resolve [(12, None, ''b''), (9, Some 12, ''a'')] 12 None = Some ''a''"
  using resolve_first_match [of "[(12, None, ''b''), (9, Some 12, ''a'')]" 12 None]
  by (auto simp: entry_covers_def)

text \<open>The stylesheet gates split the versions: a version string \<open>N.rest\<close> runs the LESS
  parser exactly for \<open>N\<close> in 9..11 and the SCSS parser exactly from 12 on, so no version runs
  both, and an unparseable version runs neither.\<close>

theorem stylesheet_gates:
  "less_active (str_nat n @ CHR ''.'' # rest) = (9 \<le> n \<and> n \<le> 11) \<and>
   scss_active (str_nat n @ CHR ''.'' # rest) = (12 \<le> n) \<and>
   \<not> (less_active v \<and> scss_active v) \<and>
   (version_major v = None \<longrightarrow> \<not> less_active v \<and> \<not> scss_active v)"
  by (auto simp: less_active_iff scss_active_iff version_major_str)

theorem stylesheet_gates_witness:
  "version_major ''saas~x'' = None \<and> \<not> less_active ''saas~x'' \<and> \<not> scss_active ''saas~x''"
proof -
  have none: "version_major ''saas~x'' = None" by code_simp
  show ?thesis using stylesheet_gates [of 0 "[]" "''saas~x''"] none by blast
qed

end
