(* ===== verification/Effects.thy ===== *)
theory Effects
  imports Prelude
begin

section \<open>State with exceptions\<close>

text \<open>
  Code that changes a store and may raise is a function from the state to a result and the
  next state: \<open>Inl\<close> is the exception in flight, and the state keeps what was committed
  before it. \<open>try_except\<close> is Python's \<^verbatim>\<open>try/except\<close>: the handler answers
  \<open>None\<close> for an exception it does not name, which is then raised again.
  \<open>steps R m\<close> says that every run of \<open>m\<close> moves the state along \<open>R\<close>; for
  a reflexive and transitive \<open>R\<close> (locale \<open>stepwise\<close>) it is compositional, so a
  property of the store operations lifts to every handler built from them.
\<close>

type_synonym ('s, 'e, 'a) em = "'s \<Rightarrow> ('e + 'a) \<times> 's"

definition ret :: "'a \<Rightarrow> ('s, 'e, 'a) em" where
  "ret a = (\<lambda>s. (Inr a, s))"

definition raise_exc :: "'e \<Rightarrow> ('s, 'e, 'a) em" where
  "raise_exc e = (\<lambda>s. (Inl e, s))"

definition bindE :: "('s, 'e, 'a) em \<Rightarrow> ('a \<Rightarrow> ('s, 'e, 'b) em) \<Rightarrow> ('s, 'e, 'b) em" where
  "bindE m k = (\<lambda>s. case m s of (Inl e, s') \<Rightarrow> (Inl e, s') | (Inr a, s') \<Rightarrow> k a s')"

definition try_except ::
  "('s, 'e, 'a) em \<Rightarrow> ('e \<Rightarrow> ('s, 'e, 'a) em option) \<Rightarrow> ('s, 'e, 'a) em" where
  "try_except m h = (\<lambda>s. case m s of
     (Inl e, s') \<Rightarrow> (case h e of None \<Rightarrow> (Inl e, s') | Some k \<Rightarrow> k s')
   | (Inr a, s') \<Rightarrow> (Inr a, s'))"

definition gets :: "('s \<Rightarrow> 'a) \<Rightarrow> ('s, 'e, 'a) em" where
  "gets f = (\<lambda>s. (Inr (f s), s))"

definition modify :: "('s \<Rightarrow> 's) \<Rightarrow> ('s, 'e, unit) em" where
  "modify f = (\<lambda>s. (Inr (), f s))"

definition seqE :: "('s, 'e, 'a) em \<Rightarrow> ('s, 'e, 'b) em \<Rightarrow> ('s, 'e, 'b) em" where
  "seqE m n = bindE m (\<lambda>_. n)"

text \<open>A \<^verbatim>\<open>for\<close> loop that threads an accumulator.\<close>

fun for_each :: "'x list \<Rightarrow> 'a \<Rightarrow> ('x \<Rightarrow> 'a \<Rightarrow> ('s, 'e, 'a) em) \<Rightarrow> ('s, 'e, 'a) em" where
  "for_each [] acc body = ret acc"
| "for_each (x # xs) acc body = bindE (body x acc) (\<lambda>acc'. for_each xs acc' body)"

declare ret_def [em_simps] raise_exc_def [em_simps] bindE_def [em_simps] seqE_def [em_simps]
  try_except_def [em_simps] gets_def [em_simps] modify_def [em_simps]

definition steps :: "('s \<Rightarrow> 's \<Rightarrow> bool) \<Rightarrow> ('s, 'e, 'a) em \<Rightarrow> bool" where
  "steps R m \<longleftrightarrow> (\<forall>s. R s (snd (m s)))"

lemma stepsD: "steps R m \<Longrightarrow> m s = (r, s') \<Longrightarrow> R s s'"
  by (metis snd_conv steps_def)

lemma stepsI: "(\<And>s r s'. m s = (r, s') \<Longrightarrow> R s s') \<Longrightarrow> steps R m"
  by (metis prod.collapse steps_def)

locale stepwise =
  fixes R :: "'s \<Rightarrow> 's \<Rightarrow> bool"
  assumes step_refl: "R s s"
    and step_trans: "R s t \<Longrightarrow> R t u \<Longrightarrow> R s u"
begin

lemma steps_ret [pres_intros]: "steps R (ret a)"
  by (simp add: steps_def ret_def step_refl)

lemma steps_raise [pres_intros]: "steps R (raise_exc e)"
  by (simp add: steps_def raise_exc_def step_refl)

lemma steps_gets [pres_intros]: "steps R (gets f)"
  by (simp add: steps_def gets_def step_refl)

lemma steps_modify: "(\<And>s. R s (f s)) \<Longrightarrow> steps R (modify f)"
  by (simp add: steps_def modify_def)

lemma steps_bind [pres_intros]:
  assumes "steps R m" and "\<And>a. steps R (k a)"
  shows "steps R (bindE m k)"
proof (rule stepsI)
  fix s r s' assume run: "bindE m k s = (r, s')"
  obtain r1 s1 where m: "m s = (r1, s1)" by fastforce
  from stepsD [OF assms(1) m] have 1: "R s s1" .
  show "R s s'"
  proof (cases r1)
    case (Inl e)
    with run m 1 show ?thesis by (simp add: bindE_def)
  next
    case (Inr a)
    with run m have "k a s1 = (r, s')" by (simp add: bindE_def)
    from stepsD [OF assms(2) this] 1 show ?thesis by (rule step_trans [rotated])
  qed
qed

lemma steps_seq [pres_intros]: "steps R m \<Longrightarrow> steps R n \<Longrightarrow> steps R (seqE m n)"
  unfolding seqE_def by (rule steps_bind)

lemma steps_try [pres_intros]:
  assumes "steps R m" and "\<And>e k. h e = Some k \<Longrightarrow> steps R k"
  shows "steps R (try_except m h)"
proof (rule stepsI)
  fix s r s' assume run: "try_except m h s = (r, s')"
  obtain r1 s1 where m: "m s = (r1, s1)" by fastforce
  from stepsD [OF assms(1) m] have 1: "R s s1" .
  show "R s s'"
  proof (cases r1)
    case (Inr a)
    with run m 1 show ?thesis by (simp add: try_except_def)
  next
    case (Inl e)
    show ?thesis
    proof (cases "h e")
      case None
      with Inl run m 1 show ?thesis by (simp add: try_except_def)
    next
      case (Some k)
      with Inl run m have "k s1 = (r, s')" by (simp add: try_except_def)
      from stepsD [OF assms(2) [OF Some] this] 1 show ?thesis by (rule step_trans [rotated])
    qed
  qed
qed

lemma steps_if [pres_intros]: "(b \<Longrightarrow> steps R m) \<Longrightarrow> (\<not> b \<Longrightarrow> steps R n) \<Longrightarrow> steps R (if b then m else n)"
  by simp

lemma steps_case_option [pres_intros]:
  "(x = None \<Longrightarrow> steps R m) \<Longrightarrow> (\<And>a. x = Some a \<Longrightarrow> steps R (k a)) \<Longrightarrow>
     steps R (case x of None \<Rightarrow> m | Some a \<Rightarrow> k a)"
  by (cases x) simp_all

lemma steps_case_prod [pres_intros]:
  "(\<And>a b. p = (a, b) \<Longrightarrow> steps R (k a b)) \<Longrightarrow> steps R (case p of (a, b) \<Rightarrow> k a b)"
  by (cases p) simp

lemma steps_let [pres_intros]: "(\<And>v. v = x \<Longrightarrow> steps R (k v)) \<Longrightarrow> steps R (let v = x in k v)"
  by simp

lemma steps_for_each_in:
  "(\<And>x acc. x \<in> set xs \<Longrightarrow> steps R (body x acc)) \<Longrightarrow> steps R (for_each xs acc body)"
  by (induction xs arbitrary: acc) (auto intro: steps_bind steps_ret)

lemma steps_for_each [pres_intros]:
  "(\<And>x acc. steps R (body x acc)) \<Longrightarrow> steps R (for_each xs acc body)"
  by (rule steps_for_each_in)

end

text \<open>Preserving a predicate is the special case of the relation \<open>P s \<longrightarrow> P s'\<close>.\<close>

definition keeps :: "('s \<Rightarrow> bool) \<Rightarrow> 's \<Rightarrow> 's \<Rightarrow> bool" where
  "keeps P s s' \<longleftrightarrow> (P s \<longrightarrow> P s')"

interpretation keeping: stepwise "keeps P"
  for P :: "'s \<Rightarrow> bool"
  by unfold_locales (auto simp: keeps_def)

lemma keepsD: "steps (keeps P) m \<Longrightarrow> m s = (r, s') \<Longrightarrow> P s \<Longrightarrow> P s'"
  using stepsD [of "keeps P" m s r s'] by (simp add: keeps_def)

end
