(* ===== verification/Billing_Store.thy ===== *)
theory Billing_Store
  imports Effects Py_Strings
begin

section \<open>The billing tables and their stores\<close>

text \<open>
  The PostgreSQL tables the billing code reads and writes, and the store operations over
  them: \<open>SubscriptionStore\<close> (src/db/subscription_registry.py), the plan assignment of
  src/db/auth_plans.py, and the key, tenant and membership helpers of src/db/auth. A table
  is a list of rows in insertion order. Every store method is one transaction
  (\<open>txn\<close>): it commits or leaves the tables alone. The \<open>faults\<close> schedule says
  what happens to the next transactions: \<open>Lost_before\<close> (the connection fails, nothing is
  written) or \<open>Lost_after\<close> (the commit reached the server but the client sees an
  \<open>OperationalError\<close>); an exhausted schedule is a healthy database.

  Constraints come from migrations/0001_initial.sql. PostgreSQL evaluates the CHECK
  constraints of the row proposed by an \<^verbatim>\<open>INSERT ... ON CONFLICT\<close> before it looks
  for the conflict, and draws the next serial number for every proposed row; both are
  modelled. Integer columns are unbounded here: a number that PostgreSQL refuses as out of range is
  stored by the model. A run of store methods is serial, one transaction after another. Where a query may match several rows and names no order, the model takes the
  earliest inserted.
\<close>

datatype exc =
    ValueError
  | LookupError
  | KeyError
  | RuntimeError
  | IntegrityError
  | UniqueViolation
  | OperationalError
  | ProgrammingError
  | TypeError
  | OverflowError
  | AlreadyProvisioned int

datatype fault = Fine | Lost_before | Lost_after

subsection \<open>Rows\<close>

record subscription =
  sub_id :: int
  plan_id :: int
  claimed_user_id :: "int option"
  api_key_id :: "int option"
  tenant_id :: "int option"
  buyer_email :: "string option"
  status :: string
  seats :: int
  source :: string
  external_ref :: string
  amount_cents :: "int option"
  currency :: "string option"
  billing_interval :: "string option"
  current_period_start :: "int option"
  current_period_end :: "int option"
  trial_ends_at :: "int option"
  cancelled_at :: "int option"
  created_at :: int
  updated_at :: int
  last_event_at :: "int option"
  cancel_at_period_end :: bool

record plan =
  plan_pk :: int
  slug :: string
  price_cents :: int

record api_key =
  key_pk :: int
  key_name :: string
  key_user_id :: "int option"
  key_tenant_id :: "int option"
  key_plan_id :: int
  key_active :: bool
  rate_limit_override :: "int option"
  quota_override :: "int option"

record webui_user =
  user_pk :: int
  username :: string
  email :: "string option"
  email_verified :: bool

text \<open>What \<open>processing_error\<close> records: an unmapped event type, or the text of an exception.\<close>

datatype event_error = Unmapped string | Raised exc

record webhook_event =
  event_pk :: int
  vendor :: string
  event_id :: string
  event_type :: string
  signature_valid :: bool
  processed_at :: "int option"
  processing_error :: "event_error option"
  event_subscription_id :: "int option"

text \<open>Resolved values of the \<open>billing.*\<close> settings (\<open>get_setting\<close>, None when it gives None).\<close>

record billing_settings =
  unlimited_sentinel_slug :: "string option"
  free_plan_slug :: "string option"
  team_plan_slug :: "string option"
  team_min_seats :: "int option"
  polar_product_map :: "(string \<times> string) list"

record db =
  subs :: "subscription list"
  sub_seq :: int
  events :: "webhook_event list"
  event_seq :: int
  plans :: "plan list"
  default_plan_id :: int
  api_keys :: "api_key list"
  key_seq :: int
  users :: "webui_user list"
  tenants :: "(int \<times> string) list"
  tenant_seq :: int
  tenant_members :: "((int \<times> int) \<times> string) list"
  profiles :: "(string \<times> int option) list"
  settings :: billing_settings
  plan_cache :: "int \<rightharpoonup> int"
  clock :: int
  faults :: "fault list"

type_synonym 'a dbm = "(db, exc, 'a) em"

subsection \<open>Transactions and constraints\<close>

definition txn :: "'a dbm \<Rightarrow> 'a dbm" where
  "txn op = (\<lambda>s. case faults s of
     [] \<Rightarrow> op s
   | Fine # fs \<Rightarrow> op (s\<lparr>faults := fs\<rparr>)
   | Lost_before # fs \<Rightarrow> (Inl OperationalError, s\<lparr>faults := fs\<rparr>)
   | Lost_after # fs \<Rightarrow> (Inl OperationalError, snd (op (s\<lparr>faults := fs\<rparr>))))"

definition is_upper :: "char \<Rightarrow> bool" where
  "is_upper c = (65 \<le> char_code c \<and> char_code c \<le> 90)"

text \<open>The CHECK constraints of \<open>subscriptions\<close>, its foreign keys, and both together.\<close>

definition row_checks :: "subscription \<Rightarrow> bool" where
  "row_checks r \<longleftrightarrow>
     (case billing_interval r of None \<Rightarrow> True
      | Some b \<Rightarrow> b \<in> {''free'', ''monthly'', ''annual'', ''one_time''}) \<and>
     (case currency r of None \<Rightarrow> True | Some c \<Rightarrow> length c = 3 \<and> list_all is_upper c) \<and>
     (status r \<notin> {''active'', ''trialing''} \<or> claimed_user_id r \<noteq> None \<or> api_key_id r \<noteq> None \<or>
      tenant_id r \<noteq> None \<or> buyer_email r \<noteq> None) \<and>
     0 < seats r \<and>
     source r \<in> {''polar'', ''erp'', ''admin'', ''promo''} \<and>
     status r \<in> {''pending'', ''active'', ''past_due'', ''cancelled'', ''expired'', ''trialing'',
       ''refunded''}"

definition fk_ok :: "('a \<Rightarrow> int) \<Rightarrow> 'a list \<Rightarrow> int option \<Rightarrow> bool" where
  "fk_ok pk table v = (case v of None \<Rightarrow> True | Some k \<Rightarrow> k \<in> pk ` set table)"

definition sub_ok :: "db \<Rightarrow> subscription \<Rightarrow> bool" where
  "sub_ok s r \<longleftrightarrow> row_checks r \<and>
     fk_ok plan_pk (plans s) (Some (plan_id r)) \<and>
     fk_ok user_pk (users s) (claimed_user_id r) \<and>
     fk_ok key_pk (api_keys s) (api_key_id r) \<and>
     fk_ok fst (tenants s) (tenant_id r)"

text \<open>\<^verbatim>\<open>UPDATE subscriptions SET ... WHERE cond\<close>; the result is the row count.\<close>

definition update_subs :: "(subscription \<Rightarrow> bool) \<Rightarrow> (subscription \<Rightarrow> subscription) \<Rightarrow> nat dbm" where
  "update_subs cond f = txn (\<lambda>s.
     let g = (\<lambda>r. (f r)\<lparr>updated_at := clock s\<rparr>);
         hits = filter cond (subs s)
     in if list_all (\<lambda>r. sub_ok s (g r)) hits
        then (Inr (length hits), s\<lparr>subs := map (\<lambda>r. if cond r then g r else r) (subs s)\<rparr>)
        else (Inl IntegrityError, s))"

definition row_of :: "db \<Rightarrow> int \<Rightarrow> subscription option" where
  "row_of s i = find (\<lambda>r. sub_id r = i) (subs s)"

definition key_of :: "db \<Rightarrow> int \<Rightarrow> api_key option" where
  "key_of s k = find (\<lambda>x. key_pk x = k) (api_keys s)"

definition plan_of :: "db \<Rightarrow> int \<Rightarrow> plan option" where
  "plan_of s p = find (\<lambda>x. plan_pk x = p) (plans s)"

subsection \<open>SubscriptionStore: subscriptions\<close>

definition coalesce :: "'a option \<Rightarrow> 'a option \<Rightarrow> 'a option" where
  "coalesce a b = (case a of None \<Rightarrow> b | Some x \<Rightarrow> Some x)"

definition greatest :: "int option \<Rightarrow> int option \<Rightarrow> int option" where
  "greatest stored incoming =
     (case (coalesce stored incoming, coalesce incoming stored) of
        (Some a, Some b) \<Rightarrow> Some (max a b)
      | (None, b) \<Rightarrow> b
      | (a, None) \<Rightarrow> a)"

definition event_current :: "int option \<Rightarrow> int option \<Rightarrow> bool" where
  "event_current incoming stored =
     (case (incoming, stored) of (Some i, Some st) \<Rightarrow> st \<le> i | _ \<Rightarrow> True)"

text \<open>The \<open>DO UPDATE SET\<close> of the upsert: \<open>ex\<close> is the proposed row (\<open>EXCLUDED\<close>).\<close>

definition merge_row :: "int \<Rightarrow> subscription \<Rightarrow> subscription \<Rightarrow> subscription" where
  "merge_row now ex old =
     (let cur = event_current (last_event_at ex) (last_event_at old) in
      old\<lparr>status := (if cur then status ex else status old),
          plan_id := (if cur then plan_id ex else plan_id old),
          seats := (if cur then seats ex else seats old),
          last_event_at := greatest (last_event_at old) (last_event_at ex),
          amount_cents := coalesce (amount_cents ex) (amount_cents old),
          currency := coalesce (currency ex) (currency old),
          billing_interval := coalesce (billing_interval ex) (billing_interval old),
          current_period_start := coalesce (current_period_start ex) (current_period_start old),
          current_period_end := coalesce (current_period_end ex) (current_period_end old),
          trial_ends_at := coalesce (trial_ends_at ex) (trial_ends_at old),
          buyer_email := coalesce (buyer_email ex) (buyer_email old),
          updated_at := now\<rparr>)"

definition same_ref :: "subscription \<Rightarrow> subscription \<Rightarrow> bool" where
  "same_ref a b = (source a = source b \<and> external_ref a = external_ref b)"

text \<open>The upsert statement. \<open>ex0\<close> carries the caller's values; its \<open>sub_id\<close> and time
  stamps are assigned by the column defaults (\<open>proposed_row\<close>).\<close>

definition proposed_row :: "db \<Rightarrow> subscription \<Rightarrow> subscription" where
  "proposed_row s ex0 = ex0\<lparr>sub_id := sub_seq s + 1, created_at := clock s, updated_at := clock s,
     cancelled_at := None, cancel_at_period_end := False\<rparr>"

definition upsert_stmt :: "subscription \<Rightarrow> int dbm" where
  "upsert_stmt ex0 = (\<lambda>s.
     let ex = proposed_row s ex0;
         s1 = s\<lparr>sub_seq := sub_seq s + 1\<rparr>
     in if \<not> sub_ok s ex then (Inl IntegrityError, s1)
        else (case find (same_ref ex) (subs s) of
           None \<Rightarrow> (Inr (sub_id ex), s1\<lparr>subs := subs s @ [ex]\<rparr>)
         | Some old \<Rightarrow>
             if \<not> sub_ok s (merge_row (clock s) ex old) then (Inl IntegrityError, s1)
             else (Inr (sub_id old), s1\<lparr>subs := map (\<lambda>r.
               if sub_id r = sub_id old then merge_row (clock s) ex old else r) (subs s)\<rparr>)))"

definition upsert_by_external_ref :: "subscription \<Rightarrow> int dbm" where
  "upsert_by_external_ref ex0 = txn (upsert_stmt ex0)"

definition get_by_external_ref :: "string \<Rightarrow> subscription option dbm" where
  "get_by_external_ref ref = txn (gets (\<lambda>s. find (\<lambda>r. external_ref r = ref) (subs s)))"

definition get_by_id :: "int \<Rightarrow> subscription option dbm" where
  "get_by_id i = txn (gets (\<lambda>s. row_of s i))"

definition to_lower :: "string \<Rightarrow> string" where
  "to_lower = map (\<lambda>c. if is_upper c then char_of (char_code c + 32) else c)"

definition newest_first :: "subscription list \<Rightarrow> subscription list" where
  "newest_first rs = sort_key (\<lambda>r. - created_at r) rs"

definition find_unclaimed_active_by_email :: "string \<Rightarrow> subscription list dbm" where
  "find_unclaimed_active_by_email addr = txn (gets (\<lambda>s. newest_first (filter
     (\<lambda>r. map_option to_lower (buyer_email r) = Some (to_lower addr) \<and> status r = ''active'' \<and>
          claimed_user_id r = None) (subs s))))"

text \<open>\<open>list_by_user\<close> (the plan columns of its LEFT JOIN are looked up by \<open>plan_id\<close>),
  \<open>list_by_tenant\<close> and one page of \<open>list_all\<close>.\<close>

definition list_by_user :: "int \<Rightarrow> (subscription \<times> string option) list dbm" where
  "list_by_user u = txn (gets (\<lambda>s. map (\<lambda>r. (r, map_option slug (plan_of s (plan_id r))))
     (newest_first (filter (\<lambda>r. claimed_user_id r = Some u) (subs s)))))"

definition list_by_tenant :: "int \<Rightarrow> subscription list dbm" where
  "list_by_tenant t = txn (gets (\<lambda>s.
     newest_first (filter (\<lambda>r. tenant_id r = Some t) (subs s))))"

definition list_all_subs :: "nat \<Rightarrow> nat \<Rightarrow> (subscription \<times> string option) list dbm" where
  "list_all_subs limit offset = txn (gets (\<lambda>s. map (\<lambda>r. (r, map_option slug (plan_of s (plan_id r))))
     (take limit (drop offset
        (sort_key (\<lambda>r. - created_at r) (sort_key (\<lambda>r. - sub_id r) (subs s)))))))"

text \<open>Partial updates: one constructor per column of \<open>_ALLOWED_UPDATE_COLS\<close>;
  \<open>Unknown_col\<close> is any other key.\<close>

datatype col_update =
    Set_status string
  | Set_claimed_user_id "int option"
  | Set_api_key_id "int option"
  | Set_tenant_id "int option"
  | Set_plan_id int
  | Set_seats int
  | Set_amount_cents "int option"
  | Set_currency "string option"
  | Set_billing_interval "string option"
  | Set_current_period_start "int option"
  | Set_current_period_end "int option"
  | Set_trial_ends_at "int option"
  | Set_cancelled_at "int option"
  | Set_buyer_email "string option"
  | Set_cancel_at_period_end bool
  | Set_last_event_at "int option"
  | Unknown_col string

fun set_col :: "col_update \<Rightarrow> subscription \<Rightarrow> subscription" where
  "set_col (Set_status v) r = r\<lparr>status := v\<rparr>"
| "set_col (Set_claimed_user_id v) r = r\<lparr>claimed_user_id := v\<rparr>"
| "set_col (Set_api_key_id v) r = r\<lparr>api_key_id := v\<rparr>"
| "set_col (Set_tenant_id v) r = r\<lparr>tenant_id := v\<rparr>"
| "set_col (Set_plan_id v) r = r\<lparr>plan_id := v\<rparr>"
| "set_col (Set_seats v) r = r\<lparr>seats := v\<rparr>"
| "set_col (Set_amount_cents v) r = r\<lparr>amount_cents := v\<rparr>"
| "set_col (Set_currency v) r = r\<lparr>currency := v\<rparr>"
| "set_col (Set_billing_interval v) r = r\<lparr>billing_interval := v\<rparr>"
| "set_col (Set_current_period_start v) r = r\<lparr>current_period_start := v\<rparr>"
| "set_col (Set_current_period_end v) r = r\<lparr>current_period_end := v\<rparr>"
| "set_col (Set_trial_ends_at v) r = r\<lparr>trial_ends_at := v\<rparr>"
| "set_col (Set_cancelled_at v) r = r\<lparr>cancelled_at := v\<rparr>"
| "set_col (Set_buyer_email v) r = r\<lparr>buyer_email := v\<rparr>"
| "set_col (Set_cancel_at_period_end v) r = r\<lparr>cancel_at_period_end := v\<rparr>"
| "set_col (Set_last_event_at v) r = r\<lparr>last_event_at := v\<rparr>"
| "set_col (Unknown_col c) r = r"

fun is_unknown :: "col_update \<Rightarrow> bool" where
  "is_unknown (Unknown_col c) = True"
| "is_unknown u = False"

definition set_cols :: "col_update list \<Rightarrow> subscription \<Rightarrow> subscription" where
  "set_cols us r = fold set_col us r"

definition update_fields :: "int \<Rightarrow> col_update list \<Rightarrow> bool dbm" where
  "update_fields i updates =
     (if list_ex is_unknown updates then raise_exc ValueError
      else if updates = [] then raise_exc ValueError
      else bindE (update_subs (\<lambda>r. sub_id r = i) (set_cols updates)) (\<lambda>n. ret (0 < n)))"

definition claim_unclaimed_for_user :: "int \<Rightarrow> int \<Rightarrow> bool dbm" where
  "claim_unclaimed_for_user i u =
     bindE (update_subs (\<lambda>r. sub_id r = i \<and> claimed_user_id r = None)
              (\<lambda>r. r\<lparr>claimed_user_id := Some u\<rparr>))
       (\<lambda>n. ret (n = 1))"

definition link_to_user :: "int \<Rightarrow> int \<Rightarrow> unit dbm" where
  "link_to_user i u =
     seqE (update_subs (\<lambda>r. sub_id r = i) (\<lambda>r. r\<lparr>claimed_user_id := Some u\<rparr>)) (ret ())"

definition link_to_api_key :: "int \<Rightarrow> int \<Rightarrow> unit dbm" where
  "link_to_api_key i k =
     seqE (update_subs (\<lambda>r. sub_id r = i) (\<lambda>r. r\<lparr>api_key_id := Some k\<rparr>)) (ret ())"

definition link_to_tenant :: "int \<Rightarrow> int \<Rightarrow> unit dbm" where
  "link_to_tenant i t =
     seqE (update_subs (\<lambda>r. sub_id r = i) (\<lambda>r. r\<lparr>tenant_id := Some t\<rparr>)) (ret ())"

definition mark_cancelled :: "int \<Rightarrow> unit dbm" where
  "mark_cancelled i = bindE (gets clock) (\<lambda>now.
     seqE (update_subs (\<lambda>r. sub_id r = i)
             (\<lambda>r. r\<lparr>status := ''cancelled'', cancelled_at := Some now\<rparr>)) (ret ()))"

definition schedule_cancellation :: "int \<Rightarrow> unit dbm" where
  "schedule_cancellation i = bindE (gets clock) (\<lambda>now.
     seqE (update_subs (\<lambda>r. sub_id r = i)
             (\<lambda>r. r\<lparr>cancel_at_period_end := True, cancelled_at := Some now\<rparr>)) (ret ()))"

subsection \<open>SubscriptionStore: the webhook ledger\<close>

definition record_webhook_event ::
  "string \<Rightarrow> string \<Rightarrow> string \<Rightarrow> bool \<Rightarrow> (int \<times> bool \<times> bool) dbm" where
  "record_webhook_event vend eid etype sig_valid = txn (\<lambda>s.
     let pk = event_seq s + 1; s1 = s\<lparr>event_seq := pk\<rparr> in
     if vend \<notin> {''polar'', ''erp'', ''test''} then (Inl IntegrityError, s1)
     else (case find (\<lambda>e. vendor e = vend \<and> event_id e = eid) (events s) of
        None \<Rightarrow>
          (Inr (pk, True, False),
           s1\<lparr>events := events s @ [\<lparr>event_pk = pk, vendor = vend, event_id = eid,
             event_type = etype, signature_valid = sig_valid, processed_at = None,
             processing_error = None, event_subscription_id = None\<rparr>]\<rparr>)
      | Some e \<Rightarrow> (Inr (event_pk e, False, processed_at e \<noteq> None), s1)))"

definition mark_event_processed :: "int \<Rightarrow> int option \<Rightarrow> event_error option \<Rightarrow> unit dbm" where
  "mark_event_processed pk sub err = txn (modify (\<lambda>s. s\<lparr>events := map (\<lambda>e.
     if event_pk e = pk
     then e\<lparr>processed_at := Some (clock s), event_subscription_id := sub, processing_error := err\<rparr>
     else e) (events s)\<rparr>))"

subsection \<open>Keys, plans and tenants\<close>

definition set_api_key_plan_and_overrides ::
  "int \<Rightarrow> int \<Rightarrow> int option \<Rightarrow> int option \<Rightarrow> bool \<Rightarrow> bool \<Rightarrow> unit dbm" where
  "set_api_key_plan_and_overrides k p rl q upd_rl upd_q = txn (\<lambda>s.
     case key_of s k of
       None \<Rightarrow> (Inl KeyError, s)
     | Some _ \<Rightarrow>
         if \<not> list_ex (\<lambda>x. plan_pk x = p) (plans s) then (Inl IntegrityError, s)
         else (Inr (), s\<lparr>api_keys := map (\<lambda>x. if key_pk x = k
           then x\<lparr>key_plan_id := p,
                  rate_limit_override := (if upd_rl then rl else rate_limit_override x),
                  quota_override := (if upd_q then q else quota_override x)\<rparr>
           else x) (api_keys s)\<rparr>))"

definition list_api_keys_of_user :: "int \<Rightarrow> api_key list dbm" where
  "list_api_keys_of_user u = txn (gets (\<lambda>s.
     sort_key key_pk (filter (\<lambda>x. key_user_id x = Some u) (api_keys s))))"

definition create_api_key :: "string \<Rightarrow> int \<Rightarrow> int \<Rightarrow> int dbm" where
  "create_api_key label u t = txn (\<lambda>s.
     let k = key_seq s + 1; s1 = s\<lparr>key_seq := k\<rparr> in
     if list_ex (\<lambda>x. user_pk x = u) (users s) \<and> list_ex (\<lambda>x. fst x = t) (tenants s)
     then (Inr k, s1\<lparr>api_keys := api_keys s @ [\<lparr>key_pk = k, key_name = label, key_user_id = Some u,
        key_tenant_id = Some t, key_plan_id = default_plan_id s, key_active = True,
        rate_limit_override = None, quota_override = None\<rparr>]\<rparr>)
     else (Inl IntegrityError, s1))"

definition deactivate_api_key :: "int \<Rightarrow> unit dbm" where
  "deactivate_api_key k = txn (modify (\<lambda>s. s\<lparr>api_keys := map (\<lambda>x.
     if key_pk x = k then x\<lparr>key_active := False\<rparr> else x) (api_keys s)\<rparr>))"

definition create_tenant :: "string \<Rightarrow> int dbm" where
  "create_tenant nm =
     (if strip nm = [] then raise_exc ValueError
      else if CHR '','' \<in> set nm then raise_exc ValueError
      else txn (\<lambda>s.
        let t = tenant_seq s + 1; s1 = s\<lparr>tenant_seq := t\<rparr> in
        if list_ex (\<lambda>x. snd x = strip nm) (tenants s) then (Inl UniqueViolation, s1)
        else (Inr t, s1\<lparr>tenants := tenants s @ [(t, strip nm)]\<rparr>)))"

definition add_tenant_member :: "int \<Rightarrow> int \<Rightarrow> string \<Rightarrow> unit dbm" where
  "add_tenant_member u t role =
     (if role \<notin> {''member'', ''tenant_admin''} then raise_exc ValueError
      else txn (\<lambda>s.
        if list_ex (\<lambda>x. user_pk x = u) (users s) \<and> list_ex (\<lambda>x. fst x = t) (tenants s)
        then (Inr (), s\<lparr>tenant_members :=
           (if list_ex (\<lambda>m. fst m = (u, t)) (tenant_members s)
            then map (\<lambda>m. if fst m = (u, t) then ((u, t), role) else m) (tenant_members s)
            else tenant_members s @ [((u, t), role)])\<rparr>)
        else (Inl IntegrityError, s)))"

definition get_public_tenant_id :: "int dbm" where
  "get_public_tenant_id =
     bindE (txn (gets (\<lambda>s. find (\<lambda>x. snd x = ''public'') (tenants s))))
       (\<lambda>r. case r of None \<Rightarrow> raise_exc RuntimeError | Some x \<Rightarrow> ret (fst x))"

definition is_viindoo_profile :: "string \<Rightarrow> bool" where
  "is_viindoo_profile nm = (startswith nm ''standard_viindoo_'' \<or> startswith nm ''viindoo_internal_'')"

definition get_viindoo_tenant_id :: "int dbm" where
  "get_viindoo_tenant_id =
     bindE (txn (gets (\<lambda>s.
        (remdups (List.map_filter (\<lambda>(nm, t). if is_viindoo_profile nm then t else None) (profiles s)),
         find (\<lambda>x. snd x = ''Viindoo Technology JSC'') (tenants s)))))
       (\<lambda>(owners, row). case owners of
          [t] \<Rightarrow> ret t
        | _ # _ # _ \<Rightarrow> raise_exc RuntimeError
        | [] \<Rightarrow> (case row of None \<Rightarrow> raise_exc RuntimeError | Some x \<Rightarrow> ret (fst x)))"

definition resolve_default_mint_tenant_id :: "int \<Rightarrow> int dbm" where
  "resolve_default_mint_tenant_id u =
     bindE (txn (gets (\<lambda>s. map (\<lambda>m. snd (fst m)) (filter (\<lambda>m. fst (fst m) = u) (tenant_members s)))))
       (\<lambda>ts. case ts of
          [t] \<Rightarrow> ret t
        | _ \<Rightarrow>
          bindE (txn (gets (\<lambda>s. case find (\<lambda>x. user_pk x = u) (users s) of
                   None \<Rightarrow> None | Some x \<Rightarrow> email x)))
            (\<lambda>addr. case addr of
               None \<Rightarrow> get_public_tenant_id
             | Some a \<Rightarrow>
                 if CHR ''@'' \<in> set a \<and>
                    to_lower (strip (last (split_on (CHR ''@'') a))) = ''viindoo.com''
                 then get_viindoo_tenant_id
                 else get_public_tenant_id))"

text \<open>\<open>invalidate_plan_cache\<close>: drops the middleware's cached plan of the key; never raises.\<close>

definition invalidate_plan_cache :: "int \<Rightarrow> unit dbm" where
  "invalidate_plan_cache k = modify (\<lambda>s. s\<lparr>plan_cache := (plan_cache s)(k := None)\<rparr>)"

end
