(* ===== verification/Store_Laws.thy ===== *)
theory Store_Laws
  imports Billing_Store
begin

section \<open>Laws of the billing stores\<close>

text \<open>
  The well-formedness invariant of the billing tables (\<open>wf_db\<close>: primary keys below
  their sequences, unique keys, CHECK and foreign key constraints) and how every store
  operation moves the tables. \<open>rows_step Q\<close> says that a run keeps the invariant and the
  configuration tables, and takes every subscription row to a row related by \<open>Q\<close>;
  \<open>Q\<close> is chosen per property (the event watermark, the claim). The locale
  \<open>db_stepwise\<close> is the interface between the stores and the handlers above them: a
  relation on tables that is a preorder and blind to the fault schedule composes over
  transactions.
\<close>

subsection \<open>The invariant\<close>

definition wf_subs :: "db \<Rightarrow> bool" where
  "wf_subs s \<longleftrightarrow> distinct (map sub_id (subs s)) \<and> (\<forall>r \<in> set (subs s). sub_id r \<le> sub_seq s) \<and>
     distinct (map (\<lambda>r. (source r, external_ref r)) (subs s)) \<and> (\<forall>r \<in> set (subs s). sub_ok s r)"

definition wf_keys :: "db \<Rightarrow> bool" where
  "wf_keys s \<longleftrightarrow> distinct (map key_pk (api_keys s)) \<and> (\<forall>x \<in> set (api_keys s). key_pk x \<le> key_seq s) \<and>
     (\<forall>x \<in> set (api_keys s). \<exists>p \<in> set (plans s). plan_pk p = key_plan_id x) \<and>
     (\<exists>p \<in> set (plans s). plan_pk p = default_plan_id s)"

definition wf_events :: "db \<Rightarrow> bool" where
  "wf_events s \<longleftrightarrow> distinct (map event_pk (events s)) \<and> (\<forall>e \<in> set (events s). event_pk e \<le> event_seq s) \<and>
     distinct (map (\<lambda>e. (vendor e, event_id e)) (events s))"

definition wf_tenants :: "db \<Rightarrow> bool" where
  "wf_tenants s \<longleftrightarrow> distinct (map fst (tenants s)) \<and> (\<forall>x \<in> set (tenants s). fst x \<le> tenant_seq s) \<and>
     distinct (map snd (tenants s)) \<and> distinct (map fst (tenant_members s))"

definition wf_db :: "db \<Rightarrow> bool" where
  "wf_db s \<longleftrightarrow> wf_subs s \<and> wf_keys s \<and> wf_events s \<and> wf_tenants s"

lemmas wf_defs = wf_db_def wf_subs_def wf_keys_def wf_events_def wf_tenants_def

definition same_config :: "db \<Rightarrow> db \<Rightarrow> bool" where
  "same_config s s' \<longleftrightarrow> plans s' = plans s \<and> default_plan_id s' = default_plan_id s \<and>
     users s' = users s \<and> profiles s' = profiles s \<and> settings s' = settings s \<and> clock s' = clock s"

lemma same_config_refl [simp]: "same_config s s"
  by (simp add: same_config_def)

lemma same_config_trans: "same_config s t \<Longrightarrow> same_config t u \<Longrightarrow> same_config s u"
  by (simp add: same_config_def)

definition same_tables :: "db \<Rightarrow> db \<Rightarrow> bool" where
  "same_tables s s' \<longleftrightarrow> (\<exists>fs. s' = s\<lparr>faults := fs\<rparr>)"

subsection \<open>Rows of a table with a primary key\<close>

lemma find_key_map:
  assumes "\<And>r. key (f r) = key r"
  shows "find (\<lambda>r. key r = i) (map f xs) = map_option f (find (\<lambda>r. key r = i) xs)"
  using assms by (induction xs) auto

lemma find_append: "find P (xs @ ys) = (case find P xs of None \<Rightarrow> find P ys | Some x \<Rightarrow> Some x)"
  by (induction xs) auto

lemma find_keyD: "find (\<lambda>r. key r = i) xs = Some r \<Longrightarrow> r \<in> set xs \<and> key r = i"
  by (induction xs) (auto split: if_splits)

lemma find_keyI: "distinct (map key xs) \<Longrightarrow> r \<in> set xs \<Longrightarrow> find (\<lambda>x. key x = key r) xs = Some r"
  by (induction xs) (auto simp: rev_image_eqI split: if_splits)

lemma find_pred_Some: "find P xs = Some x \<Longrightarrow> x \<in> set xs \<and> P x"
  by (induction xs) (auto split: if_splits)

lemma row_ofD: "row_of s i = Some r \<Longrightarrow> r \<in> set (subs s) \<and> sub_id r = i"
  unfolding row_of_def by (rule find_keyD)

lemma key_ofD: "key_of s k = Some x \<Longrightarrow> x \<in> set (api_keys s) \<and> key_pk x = k"
  unfolding key_of_def by (rule find_keyD)

lemma row_of_member: "wf_db s \<Longrightarrow> r \<in> set (subs s) \<Longrightarrow> row_of s (sub_id r) = Some r"
  by (simp add: row_of_def wf_defs find_keyI)

lemma key_of_member: "wf_db s \<Longrightarrow> x \<in> set (api_keys s) \<Longrightarrow> key_of s (key_pk x) = Some x"
  by (simp add: key_of_def wf_defs find_keyI)

text \<open>Foreign keys keep holding when the referenced tables grow.\<close>

lemma fk_ok_mono: "fk_ok pk xs v \<Longrightarrow> pk ` set xs \<subseteq> pk ` set ys \<Longrightarrow> fk_ok pk ys v"
  by (auto simp: fk_ok_def split: option.splits)

lemma sub_ok_mono:
  assumes "sub_ok s r" and "plans s' = plans s" and "users s' = users s"
    and "key_pk ` set (api_keys s) \<subseteq> key_pk ` set (api_keys s')"
    and "fst ` set (tenants s) \<subseteq> fst ` set (tenants s')"
  shows "sub_ok s' r"
  using assms by (auto simp: sub_ok_def elim: fk_ok_mono)

lemma sub_ok_cong:
  "plans s' = plans s \<Longrightarrow> users s' = users s \<Longrightarrow> api_keys s' = api_keys s \<Longrightarrow>
     tenants s' = tenants s \<Longrightarrow> sub_ok s' r = sub_ok s r"
  by (simp add: sub_ok_def)

lemma wf_db_faults [simp]: "wf_db (s\<lparr>faults := fs\<rparr>) = wf_db s"
  by (simp add: wf_defs sub_ok_def)

lemma row_of_faults [simp]: "row_of (s\<lparr>faults := fs\<rparr>) i = row_of s i"
  by (simp add: row_of_def)

lemma key_of_faults [simp]: "key_of (s\<lparr>faults := fs\<rparr>) i = key_of s i"
  by (simp add: key_of_def)

subsection \<open>Relations that compose over transactions\<close>

locale db_stepwise = stepwise R
  for R :: "db \<Rightarrow> db \<Rightarrow> bool" +
  assumes step_faults: "R s (s\<lparr>faults := fs\<rparr>)"
begin

lemma steps_txn [pres_intros]:
  assumes "steps R op"
  shows "steps R (txn op)"
proof (rule stepsI)
  fix s r s' assume run: "txn op s = (r, s')"
  have op: "R (s\<lparr>faults := fs\<rparr>) (snd (op (s\<lparr>faults := fs\<rparr>)))" "R s (snd (op s))" for fs
    using assms by (auto simp: steps_def)
  show "R s s'"
    using run op step_faults step_trans
    by (auto simp: txn_def split: list.splits fault.splits) (metis snd_conv)+
qed

lemma txn_step:
  assumes "txn op s = (r, s')" and "\<And>fs. R (s\<lparr>faults := fs\<rparr>) (snd (op (s\<lparr>faults := fs\<rparr>)))"
  shows "R s s'"
proof -
  have "s\<lparr>faults := faults s\<rparr> = s" by simp
  then have "R s (snd (op s))" using assms(2) [of "faults s"] by simp
  moreover have "R s (snd (op (s\<lparr>faults := fs\<rparr>)))" for fs
    using assms(2) step_faults by (rule step_trans [rotated])
  ultimately show ?thesis
    using assms(1) step_faults by (auto simp: txn_def split: list.splits fault.splits) (metis snd_conv)+
qed

end

definition same_subs :: "db \<Rightarrow> db \<Rightarrow> bool" where
  "same_subs s s' \<longleftrightarrow> subs s' = subs s \<and> sub_seq s' = sub_seq s \<and> events s' = events s \<and> same_config s s'"

definition same_keys :: "db \<Rightarrow> db \<Rightarrow> bool" where
  "same_keys s s' \<longleftrightarrow> api_keys s' = api_keys s \<and> key_seq s' = key_seq s \<and> plan_cache s' = plan_cache s"

interpretation same_subs: db_stepwise same_subs
  by unfold_locales (auto simp: same_subs_def same_config_def)

interpretation same_keys: db_stepwise same_keys
  by unfold_locales (auto simp: same_keys_def)

text \<open>The relation behind the per-row properties.\<close>

definition rows_step :: "(subscription \<Rightarrow> subscription \<Rightarrow> bool) \<Rightarrow> db \<Rightarrow> db \<Rightarrow> bool" where
  "rows_step Q s s' \<longleftrightarrow> (wf_db s \<longrightarrow> wf_db s' \<and> same_config s s' \<and>
     (\<forall>i r. row_of s i = Some r \<longrightarrow> (\<exists>r'. row_of s' i = Some r' \<and> Q r r')))"

definition same_identity :: "subscription \<Rightarrow> subscription \<Rightarrow> bool" where
  "same_identity r r' \<longleftrightarrow> sub_id r' = sub_id r \<and> source r' = source r \<and> external_ref r' = external_ref r"

definition opt_le :: "int option \<Rightarrow> int option \<Rightarrow> bool" where
  "opt_le a b = (case a of None \<Rightarrow> True | Some x \<Rightarrow> (case b of None \<Rightarrow> False | Some y \<Rightarrow> x \<le> y))"

definition watermark_grows :: "subscription \<Rightarrow> subscription \<Rightarrow> bool" where
  "watermark_grows r r' \<longleftrightarrow> same_identity r r' \<and> opt_le (last_event_at r) (last_event_at r')"

definition claim_kept :: "subscription \<Rightarrow> subscription \<Rightarrow> bool" where
  "claim_kept r r' \<longleftrightarrow> (\<forall>u. claimed_user_id r = Some u \<longrightarrow> claimed_user_id r' = Some u)"

lemma opt_le_refl [simp]: "opt_le a a"
  by (simp add: opt_le_def split: option.split)

lemma opt_le_trans: "opt_le a b \<Longrightarrow> opt_le b c \<Longrightarrow> opt_le a c"
  by (auto simp: opt_le_def split: option.splits)

lemma opt_le_greatest [simp]: "opt_le a (greatest a b)"
  by (simp add: opt_le_def greatest_def coalesce_def split: option.split)

lemma rows_step_refl: "(\<And>r. Q r r) \<Longrightarrow> rows_step Q s s"
  by (simp add: rows_step_def)

lemma rows_step_trans:
  assumes "\<And>a b c. Q a b \<Longrightarrow> Q b c \<Longrightarrow> Q a c" and "rows_step Q s t" and "rows_step Q t u"
  shows "rows_step Q s u"
  using assms(2,3) unfolding rows_step_def by (blast intro: same_config_trans assms(1))

interpretation watermark: db_stepwise "rows_step watermark_grows"
proof
  show "rows_step watermark_grows s s" for s
    by (rule rows_step_refl) (simp add: watermark_grows_def same_identity_def)
  show "rows_step watermark_grows s t \<Longrightarrow> rows_step watermark_grows t u \<Longrightarrow> rows_step watermark_grows s u"
    for s t u
    by (erule rows_step_trans [rotated]) (auto simp: watermark_grows_def same_identity_def elim: opt_le_trans)
  show "rows_step watermark_grows s (s\<lparr>faults := fs\<rparr>)" for s fs
    by (simp add: rows_step_def watermark_grows_def same_identity_def same_config_def)
qed

interpretation claims: db_stepwise "rows_step claim_kept"
proof
  show "rows_step claim_kept s s" for s
    by (rule rows_step_refl) (simp add: claim_kept_def)
  show "rows_step claim_kept s t \<Longrightarrow> rows_step claim_kept t u \<Longrightarrow> rows_step claim_kept s u" for s t u
    by (erule rows_step_trans [rotated]) (auto simp: claim_kept_def)
  show "rows_step claim_kept s (s\<lparr>faults := fs\<rparr>)" for s fs
    by (simp add: rows_step_def claim_kept_def same_config_def)
qed

subsection \<open>Operations that leave the subscriptions alone\<close>

definition side_step :: "db \<Rightarrow> db \<Rightarrow> bool" where
  "side_step s s' \<longleftrightarrow> (wf_db s \<longrightarrow> wf_db s' \<and> subs s' = subs s \<and> same_config s s')"

interpretation side: db_stepwise side_step
  by unfold_locales (auto simp: side_step_def elim: same_config_trans simp: same_config_def)

lemma steps_mono: "steps R m \<Longrightarrow> (\<And>s s'. R s s' \<Longrightarrow> R' s s') \<Longrightarrow> steps R' m"
  by (simp add: steps_def)

lemma side_rows: "side_step s s' \<Longrightarrow> (\<And>r. Q r r) \<Longrightarrow> rows_step Q s s'"
  by (simp add: side_step_def rows_step_def row_of_def)

lemma distinct_key_map:
  assumes "\<And>x. key (f x) = key x"
  shows "map key (map f xs) = map key xs"
  by (simp add: assms)

lemma wf_db_keys_map:
  assumes "wf_db s" and "\<And>x. key_pk (f x) = key_pk x"
    and "\<And>x. x \<in> set (api_keys s) \<Longrightarrow> \<exists>p \<in> set (plans s). plan_pk p = key_plan_id (f x)"
  shows "wf_db (s\<lparr>api_keys := map f (api_keys s)\<rparr>)"
proof -
  have pk: "key_pk ` f ` set (api_keys s) = key_pk ` set (api_keys s)"
    by (simp add: image_image assms(2))
  have "sub_ok (s\<lparr>api_keys := map f (api_keys s)\<rparr>) r = sub_ok s r" for r
    by (simp add: sub_ok_def fk_ok_def pk cong: option.case_cong)
  then show ?thesis using assms by (simp add: wf_defs comp_def)
qed

lemma wf_db_keys_snoc:
  assumes "wf_db s"
  shows "wf_db (s\<lparr>key_seq := key_seq s + 1\<rparr>)"
    and "key_pk x = key_seq s + 1 \<Longrightarrow> key_plan_id x = default_plan_id s \<Longrightarrow>
      wf_db (s\<lparr>key_seq := key_seq s + 1, api_keys := api_keys s @ [x]\<rparr>)"
proof -
  have cong: "sub_ok (s\<lparr>key_seq := n\<rparr>) r = sub_ok s r" for n r by (rule sub_ok_cong) auto
  then show "wf_db (s\<lparr>key_seq := key_seq s + 1\<rparr>)"
    using assms by (simp add: wf_defs) (smt (verit, best))
  assume x: "key_pk x = key_seq s + 1" "key_plan_id x = default_plan_id s"
  have "sub_ok (s\<lparr>key_seq := key_seq s + 1, api_keys := api_keys s @ [x]\<rparr>) r" if "sub_ok s r" for r
    using that by (rule sub_ok_mono) auto
  moreover have "key_pk x \<notin> key_pk ` set (api_keys s)"
    using assms x(1) by (auto simp: wf_defs)
  ultimately show "wf_db (s\<lparr>key_seq := key_seq s + 1, api_keys := api_keys s @ [x]\<rparr>)"
    using assms x by (auto simp: wf_defs)
qed

lemma wf_db_tenants:
  assumes "wf_db s"
  shows "wf_db (s\<lparr>tenant_seq := tenant_seq s + 1\<rparr>)"
    and "nm \<notin> snd ` set (tenants s) \<Longrightarrow>
      wf_db (s\<lparr>tenant_seq := tenant_seq s + 1, tenants := tenants s @ [(tenant_seq s + 1, nm)]\<rparr>)"
proof -
  have cong: "sub_ok (s\<lparr>tenant_seq := n\<rparr>) r = sub_ok s r" for n r by (rule sub_ok_cong) auto
  then show "wf_db (s\<lparr>tenant_seq := tenant_seq s + 1\<rparr>)"
    using assms by (simp add: wf_defs) (smt (verit, best))
  assume nm: "nm \<notin> snd ` set (tenants s)"
  have "sub_ok (s\<lparr>tenant_seq := tenant_seq s + 1, tenants := tenants s @ [(tenant_seq s + 1, nm)]\<rparr>) r"
    if "sub_ok s r" for r
    using that by (rule sub_ok_mono) auto
  moreover have "tenant_seq s + 1 \<notin> fst ` set (tenants s)"
    using assms by (force simp: wf_defs)
  ultimately show "wf_db (s\<lparr>tenant_seq := tenant_seq s + 1, tenants := tenants s @ [(tenant_seq s + 1, nm)]\<rparr>)"
    using assms nm by (auto simp: wf_defs)
qed

lemma wf_db_members:
  "wf_db s \<Longrightarrow> distinct (map fst ms) \<Longrightarrow> wf_db (s\<lparr>tenant_members := ms\<rparr>)"
  using sub_ok_cong [of "s\<lparr>tenant_members := ms\<rparr>" s] by (simp add: wf_defs)

lemma wf_db_cache: "wf_db (s\<lparr>plan_cache := c\<rparr>) = wf_db s"
  using sub_ok_cong [of "s\<lparr>plan_cache := c\<rparr>" s] by (simp add: wf_defs)

lemma wf_db_event_seq: "wf_db s \<Longrightarrow> wf_db (s\<lparr>event_seq := event_seq s + 1\<rparr>)"
  using sub_ok_cong [of "s\<lparr>event_seq := event_seq s + 1\<rparr>" s] by (force simp: wf_defs)

lemma steps_sideI:
  "(\<And>s. wf_db s \<Longrightarrow> wf_db (snd (m s)) \<and> subs (snd (m s)) = subs s \<and> same_config s (snd (m s))) \<Longrightarrow>
     steps side_step m"
  by (simp add: steps_def side_step_def)

lemma key_plan_member:
  "wf_db s \<Longrightarrow> x \<in> set (api_keys s) \<Longrightarrow> \<exists>p \<in> set (plans s). plan_pk p = key_plan_id x"
  by (simp add: wf_defs)

lemma side_set_api_key_plan [pres_intros]:
  "steps side_step (set_api_key_plan_and_overrides k p rl q b1 b2)"
  unfolding set_api_key_plan_and_overrides_def
  by (rule side.steps_txn, rule steps_sideI)
    (auto simp: list_ex_iff same_config_def key_plan_member intro!: wf_db_keys_map split: option.split)

lemma side_create_api_key [pres_intros]: "steps side_step (create_api_key l u t)"
  unfolding create_api_key_def
  by (rule side.steps_txn, rule steps_sideI)
    (simp add: Let_def same_config_def wf_db_keys_snoc)

lemma side_deactivate [pres_intros]: "steps side_step (deactivate_api_key k)"
  unfolding deactivate_api_key_def
  by (rule side.steps_txn, rule steps_sideI)
    (auto simp: modify_def same_config_def key_plan_member intro!: wf_db_keys_map)

lemma side_create_tenant [pres_intros]: "steps side_step (create_tenant nm)"
  unfolding create_tenant_def
  by (intro side.steps_if side.steps_raise side.steps_txn steps_sideI)
    (auto simp: Let_def same_config_def list_ex_iff wf_db_tenants(1) intro!: wf_db_tenants(2))

lemma distinct_upsert_member:
  assumes "distinct (map fst ms)"
  shows "distinct (map fst (if list_ex (\<lambda>m. fst m = k) ms
      then map (\<lambda>m. if fst m = k then (k, v) else m) ms else ms @ [(k, v)]))"
proof (cases "list_ex (\<lambda>m. fst m = k) ms")
  case True
  have "map fst (map (\<lambda>m. if fst m = k then (k, v) else m) ms) = map fst ms" by simp
  with True assms show ?thesis by presburger
next
  case False
  then have "k \<notin> set (map fst ms)" by (auto simp: list_ex_iff)
  with False assms show ?thesis by simp
qed

lemma side_add_tenant_member [pres_intros]: "steps side_step (add_tenant_member u t role)"
  unfolding add_tenant_member_def
proof (intro side.steps_if side.steps_raise side.steps_txn steps_sideI, goal_cases)
  case (1 s)
  then have "distinct (map fst (tenant_members s))" by (simp add: wf_defs)
  from wf_db_members [OF 1(2) distinct_upsert_member [OF this, of "(u, t)" role]] 1 show ?case
    by (simp add: same_config_def)
qed

lemma side_invalidate_plan_cache [pres_intros]: "steps side_step (invalidate_plan_cache k)"
  unfolding invalidate_plan_cache_def
  by (rule side.steps_modify) (simp add: side_step_def wf_db_cache same_config_def)

subsection \<open>Runs of a transaction\<close>

lemma txn_healthy [simp]: "faults s = [] \<Longrightarrow> txn op s = op s"
  by (simp add: txn_def)

lemma txn_stateE:
  assumes "txn op s = (r, s')"
  obtains fs where "s' = s\<lparr>faults := fs\<rparr>" | fs where "s' = snd (op (s\<lparr>faults := fs\<rparr>))"
proof (cases "faults s")
  case Nil
  then have eq: "s\<lparr>faults := []\<rparr> = s" by simp
  from Nil assms have "s' = snd (op (s\<lparr>faults := []\<rparr>))" unfolding eq by simp
  then show thesis by (rule that(2))
next
  case (Cons f fs)
  with assms have "s' = s\<lparr>faults := fs\<rparr> \<or> s' = snd (op (s\<lparr>faults := fs\<rparr>))"
    by (cases f) (auto simp: txn_def)
  then show thesis using that by blast
qed

lemma txn_InrE:
  assumes "txn op s = (Inr a, s')"
  obtains fs where "op (s\<lparr>faults := fs\<rparr>) = (Inr a, s')"
proof (cases "faults s")
  case Nil
  then have eq: "s\<lparr>faults := []\<rparr> = s" by simp
  from Nil assms have "op (s\<lparr>faults := []\<rparr>) = (Inr a, s')" unfolding eq by simp
  then show thesis by (rule that)
next
  case (Cons f fs)
  with assms have "op (s\<lparr>faults := fs\<rparr>) = (Inr a, s')"
    by (cases f) (auto simp: txn_def)
  then show thesis by (rule that)
qed

lemma bindE_cases [consumes 1, case_names raised returned]:
  assumes "bindE m k s = (r, s')"
  obtains e where "m s = (Inl e, s')" "r = Inl e"
    | a s1 where "m s = (Inr a, s1)" "k a s1 = (r, s')"
  using assms by (auto simp: bindE_def split: prod.splits sum.splits)

lemma seqE_cases [consumes 1, case_names raised returned]:
  assumes "seqE m n s = (r, s')"
  obtains e where "m s = (Inl e, s')" "r = Inl e"
    | a s1 where "m s = (Inr a, s1)" "n s1 = (r, s')"
  using assms unfolding seqE_def by (rule bindE_cases)

subsection \<open>Operations on subscription rows\<close>

lemma wf_db_subs_map:
  assumes "wf_db s" and "\<And>r. same_identity r (h r)" and "\<And>r. r \<in> set (subs s) \<Longrightarrow> sub_ok s (h r)"
  shows "wf_db (s\<lparr>subs := map h (subs s)\<rparr>)"
proof -
  have "sub_ok (s\<lparr>subs := xs\<rparr>) r = sub_ok s r" for xs r by (rule sub_ok_cong) auto
  then show ?thesis using assms by (simp add: wf_defs comp_def same_identity_def)
qed

lemma wf_db_sub_seq: "wf_db s \<Longrightarrow> wf_db (s\<lparr>sub_seq := sub_seq s + 1\<rparr>)"
  using sub_ok_cong [of "s\<lparr>sub_seq := sub_seq s + 1\<rparr>" s] by (force simp: wf_defs)

lemma wf_db_subs_snoc:
  assumes "wf_db s" and "sub_ok s r" and "sub_id r = sub_seq s + 1"
    and "\<And>x. x \<in> set (subs s) \<Longrightarrow> \<not> same_ref r x"
  shows "wf_db (s\<lparr>sub_seq := sub_seq s + 1, subs := subs s @ [r]\<rparr>)"
proof -
  have "sub_ok (s\<lparr>sub_seq := n, subs := xs\<rparr>) q = sub_ok s q" for n xs q by (rule sub_ok_cong) auto
  moreover have "sub_id r \<notin> sub_id ` set (subs s)"
    using assms(1,3) by (force simp: wf_defs)
  moreover have "(source r, external_ref r) \<notin> (\<lambda>r. (source r, external_ref r)) ` set (subs s)"
    using assms(4) by (auto simp: same_ref_def)
  ultimately show ?thesis using assms(1-3) by (auto simp: wf_defs)
qed

lemma row_of_subs_map:
  "(\<And>r. same_identity r (h r)) \<Longrightarrow> row_of (s\<lparr>subs := map h (subs s)\<rparr>) i = map_option h (row_of s i)"
  by (simp add: row_of_def find_key_map same_identity_def)

lemma rows_step_map:
  assumes "\<And>r. same_identity r (h r)" and "\<And>r. r \<in> set (subs s) \<Longrightarrow> sub_ok s (h r)"
    and "\<And>r. r \<in> set (subs s) \<Longrightarrow> Q r (h r)"
  shows "rows_step Q s (s\<lparr>subs := map h (subs s)\<rparr>)"
proof -
  have "\<exists>r'. row_of (s\<lparr>subs := map h (subs s)\<rparr>) i = Some r' \<and> Q r r'" if "row_of s i = Some r" for i r
    using that assms(3) row_ofD [OF that] by (simp add: row_of_subs_map assms(1))
  then show ?thesis
    using wf_db_subs_map [OF _ assms(1,2)] by (simp add: rows_step_def same_config_def)
qed

lemma same_identity_updated [simp]:
  "same_identity r (x\<lparr>updated_at := t\<rparr>) = same_identity r x"
  by (simp add: same_identity_def)

lemma same_identity_refl [simp]: "same_identity r r"
  by (simp add: same_identity_def)

lemma rows_step_faults:
  "(\<And>r. Q r r) \<Longrightarrow> rows_step Q s (s\<lparr>faults := fs\<rparr>)"
  by (simp add: rows_step_def same_config_def)

lemma rows_step_from_faults: "rows_step Q (s\<lparr>faults := fs\<rparr>) s' \<Longrightarrow> rows_step Q s s'"
  by (simp add: rows_step_def same_config_def)

lemma update_subs_step:
  assumes run: "update_subs cond f s = (res, s')"
    and ident: "\<And>r. same_identity r (f r)"
    and hit: "\<And>r. r \<in> set (subs s) \<Longrightarrow> cond r \<Longrightarrow> Q r ((f r)\<lparr>updated_at := clock s\<rparr>)"
    and refl: "\<And>r. Q r r"
  shows "rows_step Q s s'"
  using run unfolding update_subs_def
proof (cases rule: txn_stateE)
  case (1 fs)
  then show ?thesis by (simp add: rows_step_faults refl)
next
  case (2 fs)
  let ?s = "s\<lparr>faults := fs\<rparr>"
  let ?h = "\<lambda>r. if cond r then (f r)\<lparr>updated_at := clock s\<rparr> else r"
  let ?all = "list_all (\<lambda>r. sub_ok ?s ((f r)\<lparr>updated_at := clock s\<rparr>)) (filter cond (subs s))"
  from 2 have s': "s' = (if ?all then ?s\<lparr>subs := map ?h (subs ?s)\<rparr> else ?s)"
    by (simp only: Let_def split: if_split) simp
  have "rows_step Q s (?s\<lparr>subs := map ?h (subs ?s)\<rparr>)" if wf: "wf_db s" and all: ?all
  proof (rule rows_step_from_faults [where fs = fs], rule rows_step_map)
    show "same_identity r (?h r)" for r by (simp add: ident)
    show "sub_ok ?s (?h r)" if r: "r \<in> set (subs ?s)" for r
    proof (cases "cond r")
      case True
      with all r show ?thesis by (simp add: list_all_iff)
    next
      case False
      with wf r show ?thesis by (simp add: wf_defs sub_ok_cong [of ?s s])
    qed
    show "Q r (?h r)" if "r \<in> set (subs ?s)" for r
      using that hit refl by simp
  qed
  moreover have "rows_step Q s s'" if "\<not> wf_db s" using that by (simp add: rows_step_def)
  moreover have "rows_step Q s ?s" by (simp add: rows_step_faults refl)
  ultimately show ?thesis using s' by (cases "wf_db s") (simp_all split: if_splits)
qed

lemma update_subs_InrE:
  assumes "update_subs cond f s = (Inr n, s')"
  obtains fs where "n = length (filter cond (subs s))"
    and "s' = s\<lparr>faults := fs, subs :=
      map (\<lambda>r. if cond r then (f r)\<lparr>updated_at := clock s\<rparr> else r) (subs s)\<rparr>"
  using assms that unfolding update_subs_def
  by (auto elim!: txn_InrE simp: Let_def split: if_splits cong: if_cong)

lemma row_of_update_subs:
  assumes "update_subs cond f s = (Inr n, s')" and "\<And>r. same_identity r (f r)"
  shows "row_of s' i = map_option (\<lambda>r. if cond r then (f r)\<lparr>updated_at := clock s\<rparr> else r) (row_of s i)"
  using assms(1)
proof (rule update_subs_InrE)
  fix fs assume "s' = s\<lparr>faults := fs, subs :=
      map (\<lambda>r. if cond r then (f r)\<lparr>updated_at := clock s\<rparr> else r) (subs s)\<rparr>"
  then show ?thesis
    using assms(2) by (simp add: row_of_def find_key_map same_identity_def)
qed

lemma steps_update_subs:
  assumes "\<And>r. same_identity r (f r)" and "\<And>r t. cond r \<Longrightarrow> Q r ((f r)\<lparr>updated_at := t\<rparr>)" and "\<And>r. Q r r"
  shows "steps (rows_step Q) (update_subs cond f)"
  by (rule stepsI, erule update_subs_step) (auto simp: assms)

text \<open>The upsert adds a row with a fresh reference or merges into the row that has it.\<close>

lemma merge_row_fields [simp]:
  "sub_id (merge_row t ex r) = sub_id r" "source (merge_row t ex r) = source r"
  "external_ref (merge_row t ex r) = external_ref r"
  "claimed_user_id (merge_row t ex r) = claimed_user_id r" "api_key_id (merge_row t ex r) = api_key_id r"
  "tenant_id (merge_row t ex r) = tenant_id r"
  "last_event_at (merge_row t ex r) = greatest (last_event_at r) (last_event_at ex)"
  by (simp_all add: merge_row_def Let_def)

lemma same_identity_merge [simp]: "same_identity r (merge_row t ex r)"
  by (simp add: same_identity_def)

lemma sub_id_unique: "wf_db s \<Longrightarrow> r \<in> set (subs s) \<Longrightarrow> x \<in> set (subs s) \<Longrightarrow> sub_id r = sub_id x \<Longrightarrow> r = x"
  by (auto simp: wf_defs distinct_map dest: inj_onD)

lemma wf_sub_okD: "wf_db s \<Longrightarrow> r \<in> set (subs s) \<Longrightarrow> sub_ok s r"
  by (simp add: wf_defs)

lemma map_at_row:
  assumes "wf_db s" and "old \<in> set (subs s)"
  shows "map (\<lambda>r. if sub_id r = sub_id old then f old else r) (subs s) =
    map (\<lambda>r. if sub_id r = sub_id old then f r else r) (subs s)"
  using sub_id_unique [OF assms(1) _ assms(2)] by auto

lemma rows_step_sub_seq:
  "rows_step Q (s\<lparr>sub_seq := sub_seq s + 1\<rparr>) s' \<Longrightarrow> rows_step Q s s'"
  by (auto simp: rows_step_def same_config_def row_of_def wf_db_sub_seq)

lemma upsert_stmt_step:
  assumes merge: "\<And>r ex t. Q r (merge_row t ex r)" and refl: "\<And>r. Q r r"
    and run: "upsert_stmt ex0 s = (res, s')"
  shows "rows_step Q s s'"
proof -
  let ?ex = "proposed_row s ex0" and ?s1 = "s\<lparr>sub_seq := sub_seq s + 1\<rparr>"
  have seq: "rows_step Q s ?s1" by (simp add: rows_step_sub_seq rows_step_refl refl)
  have "rows_step Q s s'" if wf: "wf_db s"
  proof (cases "find (same_ref ?ex) (subs s)")
    case None
    have "wf_db (s\<lparr>sub_seq := sub_seq s + 1, subs := subs s @ [?ex]\<rparr>)" if "sub_ok s ?ex"
      using wf that None by (intro wf_db_subs_snoc) (auto simp: proposed_row_def find_None_iff)
    then have "rows_step Q s (s\<lparr>sub_seq := sub_seq s + 1, subs := subs s @ [?ex]\<rparr>)" if "sub_ok s ?ex"
      using that by (auto simp: rows_step_def same_config_def row_of_def find_append refl split: option.split)
    with run None seq show ?thesis by (auto simp: upsert_stmt_def Let_def split: if_splits)
  next
    case (Some old)
    then have old: "old \<in> set (subs s)" by (auto dest: find_pred_Some)
    let ?h = "\<lambda>r. if sub_id r = sub_id old then merge_row (clock s) ?ex r else r"
    have "rows_step Q ?s1 (?s1\<lparr>subs := map ?h (subs ?s1)\<rparr>)" if ok: "sub_ok s (merge_row (clock s) ?ex old)"
    proof (rule rows_step_map)
      fix r
      show "same_identity r (?h r)" by simp
      assume r: "r \<in> set (subs ?s1)"
      show "Q r (?h r)" by (simp add: merge refl)
      have "sub_ok s (?h r)"
        using r wf ok sub_id_unique [OF wf _ old] by (auto simp: wf_sub_okD)
      then show "sub_ok ?s1 (?h r)" by (rule sub_ok_mono) auto
    qed
    note rows_step_sub_seq [OF this]
    with run Some seq show ?thesis
      by (auto simp: upsert_stmt_def Let_def map_at_row [OF wf old, of "merge_row (clock s) ?ex"] split: if_splits)
  qed
  then show ?thesis by (auto simp: rows_step_def)
qed

lemma steps_upsert_watermark [pres_intros]:
  "steps (rows_step watermark_grows) (upsert_by_external_ref ex0)"
  unfolding upsert_by_external_ref_def
  by (intro watermark.steps_txn stepsI, erule upsert_stmt_step [rotated 2])
    (simp_all add: watermark_grows_def)

lemma steps_upsert_claims [pres_intros]:
  "steps (rows_step claim_kept) (upsert_by_external_ref ex0)"
  unfolding upsert_by_external_ref_def
  by (intro claims.steps_txn stepsI, erule upsert_stmt_step [rotated 2])
    (simp_all add: claim_kept_def)

text \<open>The single-row updates whose effect on watermark and claim needs no precondition.\<close>

lemma steps_claim_unclaimed [pres_intros]:
  "steps (rows_step watermark_grows) (claim_unclaimed_for_user i u)"
  "steps (rows_step claim_kept) (claim_unclaimed_for_user i u)"
  unfolding claim_unclaimed_for_user_def
  by (intro pres_intros steps_update_subs; simp add: watermark_grows_def same_identity_def claim_kept_def)+

lemma steps_link_to_user [pres_intros]: "steps (rows_step watermark_grows) (link_to_user i u)"
  unfolding link_to_user_def
  by (intro pres_intros steps_update_subs; simp add: watermark_grows_def same_identity_def)+

lemma steps_link_to_api_key [pres_intros]:
  "steps (rows_step watermark_grows) (link_to_api_key i k)"
  "steps (rows_step claim_kept) (link_to_api_key i k)"
  unfolding link_to_api_key_def
  by (intro pres_intros steps_update_subs; simp add: watermark_grows_def same_identity_def claim_kept_def)+

lemma steps_link_to_tenant [pres_intros]:
  "steps (rows_step watermark_grows) (link_to_tenant i t)"
  "steps (rows_step claim_kept) (link_to_tenant i t)"
  unfolding link_to_tenant_def
  by (intro pres_intros steps_update_subs; simp add: watermark_grows_def same_identity_def claim_kept_def)+

lemma steps_mark_cancelled [pres_intros]:
  "steps (rows_step watermark_grows) (mark_cancelled i)"
  "steps (rows_step claim_kept) (mark_cancelled i)"
  unfolding mark_cancelled_def
  by (intro pres_intros steps_update_subs; simp add: watermark_grows_def same_identity_def claim_kept_def)+

lemma steps_schedule_cancellation [pres_intros]:
  "steps (rows_step watermark_grows) (schedule_cancellation i)"
  "steps (rows_step claim_kept) (schedule_cancellation i)"
  unfolding schedule_cancellation_def
  by (intro pres_intros steps_update_subs; simp add: watermark_grows_def same_identity_def claim_kept_def)+

lemma steps_side_rows:
  assumes "steps side_step m"
  shows "steps (rows_step watermark_grows) m" and "steps (rows_step claim_kept) m"
  using assms by (auto elim!: steps_mono side_rows simp: watermark_grows_def claim_kept_def)

subsection \<open>Reading operations\<close>

interpretation reading: db_stepwise same_tables
proof
  show "same_tables s s" for s
    unfolding same_tables_def by (rule exI [of _ "faults s"]) simp
  show "same_tables s t \<Longrightarrow> same_tables t u \<Longrightarrow> same_tables s u" for s t u
    by (auto simp: same_tables_def)
  show "same_tables s (s\<lparr>faults := fs\<rparr>)" for s fs
    by (auto simp: same_tables_def)
qed

lemma same_tables_side: "same_tables s s' \<Longrightarrow> side_step s s'"
  by (auto simp: same_tables_def side_step_def same_config_def)

subsection \<open>A sample database\<close>

text \<open>The database of the witnesses: three plans, user 7 with a verified address, the public
  tenant, and one unclaimed active subscription bought with the address of user 7.\<close>

definition sample_sub :: subscription where
  "sample_sub = \<lparr>sub_id = 1, plan_id = 2, claimed_user_id = None, api_key_id = None, tenant_id = None,
     buyer_email = Some ''ann@x.io'', status = ''active'', seats = 1, source = ''polar'',
     external_ref = ''sub_1'', amount_cents = Some 900, currency = Some ''USD'',
     billing_interval = Some ''monthly'', current_period_start = None, current_period_end = None,
     trial_ends_at = None, cancelled_at = None, created_at = 5, updated_at = 5,
     last_event_at = Some 100, cancel_at_period_end = False\<rparr>"

definition sample_db :: db where
  "sample_db = \<lparr>subs = [sample_sub], sub_seq = 1, events = [], event_seq = 0,
     plans = [\<lparr>plan_pk = 1, slug = ''free'', price_cents = 0\<rparr>, \<lparr>plan_pk = 2, slug = ''pro'', price_cents = 900\<rparr>,
       \<lparr>plan_pk = 3, slug = ''unlimited'', price_cents = 0\<rparr>],
     default_plan_id = 1, api_keys = [], key_seq = 0,
     users = [\<lparr>user_pk = 7, username = ''ann'', email = Some ''Ann@x.io'', email_verified = True\<rparr>],
     tenants = [(1, ''public'')], tenant_seq = 1, tenant_members = [], profiles = [],
     settings = \<lparr>unlimited_sentinel_slug = None, free_plan_slug = None, team_plan_slug = None,
       team_min_seats = None, polar_product_map = [(''prod_pro'', ''pro'')]\<rparr>, plan_cache = Map.empty, clock = 200, faults = []\<rparr>"

text \<open>The same with the subscription provisioned: user 7 holds it through key 1 on its plan.\<close>

definition provisioned_db :: db where
  "provisioned_db = sample_db\<lparr>
     subs := [sample_sub\<lparr>claimed_user_id := Some 7, api_key_id := Some 1\<rparr>],
     api_keys := [\<lparr>key_pk = 1, key_name = ''k'', key_user_id = Some 7, key_tenant_id = Some 1,
       key_plan_id = 2, key_active = True, rate_limit_override = Some 5, quota_override = None\<rparr>],
     key_seq := 1, plan_cache := [1 \<mapsto> 2]\<rparr>"

lemma wf_sample_db: "wf_db sample_db" and wf_provisioned_db: "wf_db provisioned_db"
  by code_simp+

end
