(* ===== verification/Provisioning.thy ===== *)
theory Provisioning
  imports Store_Laws
begin

section \<open>Provisioning (src/billing/provisioning.py)\<close>

text \<open>
  Turning a claimed subscription into access: the plan ranking, \<open>provision_or_upgrade\<close> and
  the claim-on-login sweep \<open>claim_subscription_for_user\<close>. The advisory lock of
  \<open>provision_or_upgrade\<close> opens a connection of its own, which may fail like any
  transaction; inside it the handler runs alone.
\<close>

subsection \<open>Plan ranks\<close>

definition or_default :: "string option \<Rightarrow> string \<Rightarrow> string" where
  "or_default v d = (case v of None \<Rightarrow> d | Some [] \<Rightarrow> d | Some x \<Rightarrow> x)"

definition unlimited_slug :: "db \<Rightarrow> string" where
  "unlimited_slug s = or_default (unlimited_sentinel_slug (settings s)) ''unlimited''"

definition UNLIMITED_RANK :: int where
  "UNLIMITED_RANK = 2 ^ 62"

definition plan_rank :: "db \<Rightarrow> string option \<Rightarrow> int \<Rightarrow> int" where
  "plan_rank s sl price = (if sl = Some (unlimited_slug s) then UNLIMITED_RANK else price)"

definition plan_meta :: "db \<Rightarrow> int \<Rightarrow> string option \<times> int" where
  "plan_meta s p = (case plan_of s p of None \<Rightarrow> (None, 0) | Some x \<Rightarrow> (Some (slug x), price_cents x))"

definition key_plan_meta :: "db \<Rightarrow> int \<Rightarrow> (string option \<times> int) option" where
  "key_plan_meta s k =
     (case key_of s k of
        None \<Rightarrow> None
      | Some x \<Rightarrow> map_option (\<lambda>p. (Some (slug p), price_cents p)) (plan_of s (key_plan_id x)))"

definition rank_of_plan :: "db \<Rightarrow> int \<Rightarrow> int" where
  "rank_of_plan s p = (case plan_meta s p of (sl, price) \<Rightarrow> plan_rank s sl price)"

definition plan_outranks :: "int \<Rightarrow> int \<Rightarrow> bool dbm" where
  "plan_outranks cur new =
     (if cur = new then ret False
      else txn (gets (\<lambda>s. rank_of_plan s cur > rank_of_plan s new)))"

subsection \<open>Provisioning one subscription\<close>

definition sub_token :: "int \<Rightarrow> string" where
  "sub_token i = ''sub-'' @ str_int i"

definition username_for :: "int \<Rightarrow> string dbm" where
  "username_for u =
     try_except
       (bindE (txn (gets (\<lambda>s. find (\<lambda>x. user_pk x = u) (users s)))) (\<lambda>row.
          case row of
            Some x \<Rightarrow> if username x \<noteq> [] then ret (username x) else ret (''user-'' @ str_int u)
          | None \<Rightarrow> ret (''user-'' @ str_int u)))
       (\<lambda>_. Some (ret (''user-'' @ str_int u)))"

definition ensure_tenant :: "int \<Rightarrow> int dbm" where
  "ensure_tenant i =
     try_except (create_tenant (sub_token i))
       (\<lambda>e. if e = UniqueViolation
             then Some (bindE (txn (gets (\<lambda>s. find (\<lambda>x. snd x = sub_token i) (tenants s)))) (\<lambda>row.
               case row of None \<Rightarrow> raise_exc UniqueViolation | Some x \<Rightarrow> ret (fst x)))
             else None)"

definition upgrade_key :: "int \<Rightarrow> int \<Rightarrow> unit dbm" where
  "upgrade_key k p =
     bindE (txn (gets (\<lambda>s.
        (case key_plan_meta s k of None \<Rightarrow> -1 | Some (sl, price) \<Rightarrow> plan_rank s sl price,
         rank_of_plan s p))))
       (\<lambda>(cur_rank, new_rank).
          if cur_rank > new_rank then ret ()
          else set_api_key_plan_and_overrides k p None None False False)"

definition mint_key :: "int \<Rightarrow> int \<Rightarrow> int \<Rightarrow> int dbm" where
  "mint_key i u p =
     bindE (username_for u) (\<lambda>nm.
     bindE (resolve_default_mint_tenant_id u) (\<lambda>t.
     bindE (create_api_key (sub_token i @ '' ('' @ nm @ '')'') u t) (\<lambda>k.
     seqE (set_api_key_plan_and_overrides k p None None False False) (ret k))))"

definition provision_seats :: "int \<Rightarrow> int \<Rightarrow> int \<Rightarrow> unit dbm" where
  "provision_seats i u n =
     (if n > 1
      then bindE (ensure_tenant i) (\<lambda>t.
        seqE (add_tenant_member u t ''tenant_admin'') (link_to_tenant i t))
      else ret ())"

text \<open>The body of the lock: the key (the user's first active one, raised, or a new one), the
  seats, then the links that make the row findable as provisioned.\<close>

definition settle_key :: "int \<Rightarrow> int \<Rightarrow> int \<Rightarrow> api_key list \<Rightarrow> int dbm" where
  "settle_key i u p existing =
     (case find key_active existing of
        Some x \<Rightarrow> seqE (upgrade_key (key_pk x) p) (ret (key_pk x))
      | None \<Rightarrow> mint_key i u p)"

definition link_subscription :: "int \<Rightarrow> int \<Rightarrow> int \<Rightarrow> int dbm" where
  "link_subscription i u k =
     seqE (link_to_api_key i k) (seqE (link_to_user i u) (seqE (invalidate_plan_cache k) (ret k)))"

definition provision_unlinked :: "int \<Rightarrow> int \<Rightarrow> subscription \<Rightarrow> int dbm" where
  "provision_unlinked i u sub =
     bindE (list_api_keys_of_user u) (\<lambda>existing.
     bindE (settle_key i u (plan_id sub) existing) (\<lambda>k.
     seqE (provision_seats i u (if seats sub = 0 then 1 else seats sub))
       (link_subscription i u k)))"

definition provision_or_upgrade_locked :: "int \<Rightarrow> int \<Rightarrow> int dbm" where
  "provision_or_upgrade_locked i u =
     bindE (get_by_id i) (\<lambda>row. case row of
       None \<Rightarrow> raise_exc ValueError
     | Some sub \<Rightarrow> (case api_key_id sub of
         Some k \<Rightarrow> raise_exc (AlreadyProvisioned k)
       | None \<Rightarrow> provision_unlinked i u sub))"

definition provision_or_upgrade :: "int \<Rightarrow> int \<Rightarrow> int dbm" where
  "provision_or_upgrade i u = seqE (txn (ret ())) (provision_or_upgrade_locked i u)"

lemmas provision_defs = provision_or_upgrade_def provision_or_upgrade_locked_def provision_unlinked_def
  settle_key_def link_subscription_def

subsection \<open>Claim on login\<close>

definition find_claimed_unprovisioned_active :: "int \<Rightarrow> subscription list dbm" where
  "find_claimed_unprovisioned_active u = txn (gets (\<lambda>s. newest_first (filter
     (\<lambda>r. claimed_user_id r = Some u \<and> status r = ''active'' \<and> api_key_id r = None) (subs s))))"

definition claim_one :: "int \<Rightarrow> subscription \<Rightarrow> int list \<times> int list \<Rightarrow> (int list \<times> int list) dbm" where
  "claim_one u sub acc = (case acc of (seen, provisioned) \<Rightarrow>
     if sub_id sub \<in> set seen then ret (seen, provisioned)
     else
       let skip = ret (sub_id sub # seen, provisioned) in
       try_except
         (bindE (if claimed_user_id sub = Some u then ret True
                 else claim_unclaimed_for_user (sub_id sub) u) (\<lambda>won.
            if \<not> won then skip
            else try_except
              (bindE (provision_or_upgrade (sub_id sub) u)
                 (\<lambda>k. ret (sub_id sub # seen, provisioned @ [k])))
              (\<lambda>e. case e of AlreadyProvisioned k \<Rightarrow> Some skip | _ \<Rightarrow> None)))
         (\<lambda>_. Some skip))"

definition claim_subscription_for_user :: "int \<Rightarrow> string \<Rightarrow> int list dbm" where
  "claim_subscription_for_user u addr =
     try_except
       (bindE (find_unclaimed_active_by_email addr) (\<lambda>unclaimed.
        bindE (find_claimed_unprovisioned_active u) (\<lambda>half_claimed.
        bindE (for_each (unclaimed @ half_claimed) ([], []) (claim_one u)) (\<lambda>acc.
        ret (snd acc)))))
       (\<lambda>_. Some (ret []))"

subsection \<open>How provisioning moves the tables\<close>

lemma reads_username_for [pres_intros]: "steps same_tables (username_for u)"
  unfolding username_for_def by (auto intro!: pres_intros)

lemma reads_public_tenant [pres_intros]: "steps same_tables get_public_tenant_id"
  unfolding get_public_tenant_id_def by (intro pres_intros)

lemma reads_viindoo_tenant [pres_intros]: "steps same_tables get_viindoo_tenant_id"
  unfolding get_viindoo_tenant_id_def by (intro pres_intros) (auto intro: pres_intros split: list.split)

lemma reads_mint_tenant [pres_intros]: "steps same_tables (resolve_default_mint_tenant_id u)"
  unfolding resolve_default_mint_tenant_id_def
  by (intro pres_intros) (auto intro!: pres_intros split: list.split)

lemma side_of_reading: "steps same_tables m \<Longrightarrow> steps side_step m"
  by (erule steps_mono) (rule same_tables_side)

lemma side_ensure_tenant [pres_intros]: "steps side_step (ensure_tenant i)"
  unfolding ensure_tenant_def by (intro pres_intros) (auto intro!: pres_intros split: if_splits)

lemma side_upgrade_key [pres_intros]: "steps side_step (upgrade_key k p)"
  unfolding upgrade_key_def by (intro pres_intros)

lemma side_mint_key [pres_intros]: "steps side_step (mint_key i u p)"
  unfolding mint_key_def by (intro pres_intros side_of_reading)

text \<open>Once \<open>u\<close> owns the row of \<open>i\<close>, provisioning it changes nobody's claim.\<close>

definition owned :: "int \<Rightarrow> int \<Rightarrow> db \<Rightarrow> bool" where
  "owned i u s \<longleftrightarrow> (\<exists>r. row_of s i = Some r \<and> claimed_user_id r = Some u)"

definition same_claim :: "subscription \<Rightarrow> subscription \<Rightarrow> bool" where
  "same_claim r r' \<longleftrightarrow> claimed_user_id r' = claimed_user_id r \<and> buyer_email r' = buyer_email r"

definition claim_step :: "int \<Rightarrow> int \<Rightarrow> db \<Rightarrow> db \<Rightarrow> bool" where
  "claim_step i u s s' \<longleftrightarrow> (wf_db s \<and> owned i u s \<longrightarrow> rows_step same_claim s s')"

lemma rows_step_wf: "rows_step Q s s' \<Longrightarrow> wf_db s \<Longrightarrow> wf_db s'"
  by (simp add: rows_step_def)

lemma rows_stepD: "rows_step Q s s' \<Longrightarrow> wf_db s \<Longrightarrow> row_of s i = Some r \<Longrightarrow> \<exists>r'. row_of s' i = Some r' \<and> Q r r'"
  by (simp add: rows_step_def)

lemma rows_step_weaken: "rows_step Q s s' \<Longrightarrow> (\<And>r r'. Q r r' \<Longrightarrow> Q' r r') \<Longrightarrow> rows_step Q' s s'"
  unfolding rows_step_def by blast

lemma owned_step: "wf_db s \<Longrightarrow> owned i u s \<Longrightarrow> rows_step same_claim s s' \<Longrightarrow> owned i u s'"
  by (auto simp: owned_def same_claim_def dest!: rows_stepD)

interpretation claiming: db_stepwise "claim_step i u"
  for i u :: int
proof
  show "claim_step i u s s" for s
    by (simp add: claim_step_def rows_step_refl same_claim_def)
  show "claim_step i u s v" if "claim_step i u s t" and "claim_step i u t v" for s t v
  proof -
    have "rows_step same_claim s v" if "wf_db s" and "owned i u s"
    proof -
      from \<open>claim_step i u s t\<close> that have 1: "rows_step same_claim s t" by (simp add: claim_step_def)
      with that \<open>claim_step i u t v\<close> have "rows_step same_claim t v"
        by (simp add: claim_step_def rows_step_wf [OF 1] owned_step)
      with 1 show ?thesis by (rule rows_step_trans [rotated]) (simp add: same_claim_def)
    qed
    then show ?thesis by (simp add: claim_step_def)
  qed
  show "claim_step i u s (s\<lparr>faults := fs\<rparr>)" for s fs
    by (simp add: claim_step_def rows_step_faults same_claim_def)
qed

lemma steps_claim_side: "steps side_step m \<Longrightarrow> steps (claim_step i u) m"
  by (erule steps_mono) (simp add: claim_step_def side_rows same_claim_def)

lemma claim_step_rows:
  assumes run: "update_subs cond f s = (res, s')" and ident: "\<And>r. same_identity r (f r)"
    and hit: "\<And>r. cond r \<Longrightarrow> owned i u s \<Longrightarrow> row_of s (sub_id r) = Some r \<Longrightarrow> same_claim r (f r)"
  shows "claim_step i u s s'"
proof -
  have "rows_step same_claim s s'" if "wf_db s" and "owned i u s"
    using run ident
    by (rule update_subs_step) (use that hit row_of_member in \<open>auto simp: same_claim_def\<close>)
  then show ?thesis by (simp add: claim_step_def)
qed

lemma claiming_link_to_user [pres_intros]: "steps (claim_step i u) (link_to_user i u)"
  unfolding link_to_user_def
  by (intro pres_intros stepsI, erule claim_step_rows)
    (auto simp: same_identity_def same_claim_def owned_def)

lemma claiming_link_to_api_key [pres_intros]: "steps (claim_step i u) (link_to_api_key j k)"
  unfolding link_to_api_key_def
  by (intro pres_intros stepsI, erule claim_step_rows) (auto simp: same_identity_def same_claim_def)

lemma claiming_link_to_tenant [pres_intros]: "steps (claim_step i u) (link_to_tenant j t)"
  unfolding link_to_tenant_def
  by (intro pres_intros stepsI, erule claim_step_rows) (auto simp: same_identity_def same_claim_def)

lemma claiming_provision_seats [pres_intros]: "steps (claim_step i u) (provision_seats j v n)"
  unfolding provision_seats_def
  by (intro pres_intros steps_claim_side [OF side_ensure_tenant] steps_claim_side [OF side_add_tenant_member])

lemma watermark_provision_seats [pres_intros]: "steps (rows_step watermark_grows) (provision_seats j v n)"
  unfolding provision_seats_def
  by (intro pres_intros steps_side_rows [OF side_ensure_tenant] steps_side_rows [OF side_add_tenant_member])

lemma claiming_provision [pres_intros]: "steps (claim_step i u) (provision_or_upgrade i u)"
  unfolding provision_defs get_by_id_def list_api_keys_of_user_def
  by (intro pres_intros steps_claim_side [OF side_upgrade_key] steps_claim_side [OF side_mint_key]
      steps_claim_side [OF side_invalidate_plan_cache])

lemma watermark_provision [pres_intros]: "steps (rows_step watermark_grows) (provision_or_upgrade i u)"
  unfolding provision_defs get_by_id_def list_api_keys_of_user_def
  by (intro pres_intros steps_side_rows(1) [OF side_upgrade_key] steps_side_rows(1) [OF side_mint_key]
      steps_side_rows(1) [OF side_invalidate_plan_cache])

text \<open>A won claim owns the row; every row the claim touched was unclaimed.\<close>

lemma claim_unclaimed_won:
  assumes run: "claim_unclaimed_for_user i u s = (Inr True, s')" and wf: "wf_db s"
  shows "owned i u s'"
proof -
  let ?c = "\<lambda>r. sub_id r = i \<and> claimed_user_id r = None"
  from run have upd: "update_subs ?c (\<lambda>r. r\<lparr>claimed_user_id := Some u\<rparr>) s = (Inr 1, s')"
    unfolding claim_unclaimed_for_user_def by (auto elim!: bindE_cases simp: ret_def)
  then have "length (filter ?c (subs s)) = 1"
    by (auto elim!: update_subs_InrE)
  then have "\<exists>r \<in> set (subs s). ?c r"
    by (metis (mono_tags, lifting) filter_False list.size(3) zero_neq_one)
  then obtain r where r: "r \<in> set (subs s)" "sub_id r = i" "claimed_user_id r = None" by blast
  from row_of_update_subs [OF upd, of i] row_of_member [OF wf r(1)] r show ?thesis
    by (simp add: owned_def same_identity_def)
qed

text \<open>What the login sweep of user \<open>u\<close> with address \<open>addr\<close> may do to a row's claim.\<close>

definition email_matches :: "string \<Rightarrow> subscription \<Rightarrow> bool" where
  "email_matches addr r \<longleftrightarrow> map_option to_lower (buyer_email r) = Some (to_lower addr)"

definition swept :: "int \<Rightarrow> string \<Rightarrow> subscription \<Rightarrow> subscription \<Rightarrow> bool" where
  "swept u addr r r' \<longleftrightarrow> buyer_email r' = buyer_email r \<and>
     (claimed_user_id r' = claimed_user_id r \<or>
      claimed_user_id r = None \<and> claimed_user_id r' = Some u \<and> email_matches addr r)"

definition sweepable :: "int \<Rightarrow> string \<Rightarrow> db \<Rightarrow> subscription \<Rightarrow> bool" where
  "sweepable u addr s sub \<longleftrightarrow> (\<exists>r. row_of s (sub_id sub) = Some r \<and>
     (email_matches addr r \<or> claimed_user_id r = Some u) \<and>
     (claimed_user_id sub = Some u \<longrightarrow> claimed_user_id r = Some u))"

lemma swept_trans: "swept u addr a b \<Longrightarrow> swept u addr b c \<Longrightarrow> swept u addr a c"
  by (auto simp: swept_def email_matches_def)

lemma swept_refl [simp]: "swept u addr r r"
  by (simp add: swept_def)

interpretation sweep: db_stepwise "rows_step (swept u addr)"
  for u addr
  by unfold_locales
    (auto intro: rows_step_refl rows_step_faults elim: rows_step_trans [rotated] dest: swept_trans)

lemma sweepable_step:
  "wf_db s \<Longrightarrow> sweepable u addr s sub \<Longrightarrow> rows_step (swept u addr) s s' \<Longrightarrow> sweepable u addr s' sub"
  by (fastforce simp: sweepable_def swept_def email_matches_def dest: rows_stepD)

lemma claim_one_step:
  assumes run: "claim_one u sub acc s = (res, s')" and wf: "wf_db s" and pre: "sweepable u addr s sub"
  shows "rows_step (swept u addr) s s'"
proof -
  obtain seen prov where acc: "acc = (seen, prov)" by fastforce
  let ?claim = "if claimed_user_id sub = Some u then ret True else claim_unclaimed_for_user (sub_id sub) u"
  have claim: "rows_step (swept u addr) s s1 \<and> (r1 = Inr True \<longrightarrow> owned (sub_id sub) u s1)"
    if c: "?claim s = (r1, s1)" for r1 s1
  proof (cases "claimed_user_id sub = Some u")
    case True
    with c pre show ?thesis by (auto simp: ret_def sweep.step_refl owned_def sweepable_def)
  next
    case False
    with c have c: "claim_unclaimed_for_user (sub_id sub) u s = (r1, s1)" by simp
    then have "\<exists>r2. update_subs (\<lambda>r. sub_id r = sub_id sub \<and> claimed_user_id r = None)
        (\<lambda>r. r\<lparr>claimed_user_id := Some u\<rparr>) s = (r2, s1)"
      unfolding claim_unclaimed_for_user_def by (auto elim!: bindE_cases simp: ret_def)
    then obtain r2 where "update_subs (\<lambda>r. sub_id r = sub_id sub \<and> claimed_user_id r = None)
        (\<lambda>r. r\<lparr>claimed_user_id := Some u\<rparr>) s = (r2, s1)" ..
    then have "rows_step (swept u addr) s s1"
      by (rule update_subs_step)
        (use pre in \<open>auto simp: same_identity_def swept_def sweepable_def email_matches_def
           dest!: row_of_member [OF wf]\<close>)
    with c wf show ?thesis by (auto dest: claim_unclaimed_won)
  qed
  have prov: "rows_step (swept u addr) s1 s2"
    if "provision_or_upgrade (sub_id sub) u s1 = (r2, s2)" and "owned (sub_id sub) u s1" and "wf_db s1" for r2 s1 s2
    using stepsD [OF claiming_provision that(1)] that(2,3)
    by (auto simp: claim_step_def swept_def same_claim_def elim: rows_step_weaken)
  obtain r1 s1 where c: "?claim s = (r1, s1)" by fastforce
  obtain r2 s2 where p: "provision_or_upgrade (sub_id sub) u s1 = (r2, s2)" by fastforce
  have "s' = s \<or> s' = s1 \<or> r1 = Inr True \<and> s' = s2"
  proof (cases "sub_id sub \<in> set seen")
    case True
    with run show ?thesis by (simp add: claim_one_def acc ret_def)
  next
    case False
    show ?thesis
    proof (cases "r1 = Inr True")
      case True
      then show ?thesis
        using run False c p
        by (cases r2) (auto simp: claim_one_def acc Let_def em_simps split: exc.splits)
    next
      case False2: False
      then have "s' = s1"
        using run False c
        by (cases r1) (simp_all add: claim_one_def acc Let_def em_simps)
      then show ?thesis by simp
    qed
  qed
  moreover have "rows_step (swept u addr) s s2" if "r1 = Inr True"
    using claim [OF c] prov [OF p] that wf by (metis rows_step_wf sweep.step_trans)
  ultimately show ?thesis
    using claim [OF c] sweep.step_refl by metis
qed

lemma for_each_step:
  assumes refl: "\<And>s. R s s" and trans: "\<And>s t v. R s t \<Longrightarrow> R t v \<Longrightarrow> R s v"
    and body: "\<And>x acc s r s'. x \<in> set xs \<Longrightarrow> body x acc s = (r, s') \<Longrightarrow> pre x s \<Longrightarrow> R s s'"
    and stable: "\<And>x s s'. x \<in> set xs \<Longrightarrow> pre x s \<Longrightarrow> R s s' \<Longrightarrow> pre x s'"
    and run: "for_each xs acc body s = (r, s')" and pre: "\<forall>x \<in> set xs. pre x s"
  shows "R s s'"
  using run pre body stable
proof (induction xs arbitrary: acc s)
  case Nil
  then show ?case by (simp add: ret_def refl)
next
  case (Cons x xs)
  from Cons.prems(1) show ?case
    unfolding for_each.simps
  proof (cases rule: bindE_cases)
    case (raised e)
    show ?thesis by (rule Cons.prems(3) [OF _ raised(1)]) (use Cons.prems(2) in auto)
  next
    case (returned a s1)
    have 1: "R s s1" by (rule Cons.prems(3) [OF _ returned(1)]) (use Cons.prems(2) in auto)
    moreover have "R s1 s'"
    proof (rule Cons.IH [OF returned(2)])
      show "\<forall>y \<in> set xs. pre y s1"
        using Cons.prems(2) Cons.prems(4) [OF _ _ 1] by auto
      show "R t t'" if "y \<in> set xs" "body y a t = (q, t')" "pre y t" for y a t q t'
        by (rule Cons.prems(3) [OF _ that(2,3)]) (simp add: that(1))
      show "pre y t'" if "y \<in> set xs" "pre y t" "R t t'" for y t t'
        by (rule Cons.prems(4) [OF _ that(2,3)]) (simp add: that(1))
    qed
    ultimately show ?thesis by (rule trans)
  qed
qed

lemma sweep_list:
  assumes "wf_db s" and "\<And>r. r \<in> set subs' \<Longrightarrow> sweepable u addr s r"
    and "for_each subs' acc (claim_one u) s = (res, s')"
  shows "rows_step (swept u addr) s s'"
proof (rule for_each_step [where R = "rows_step (swept u addr)"
      and pre = "\<lambda>r s. wf_db s \<and> sweepable u addr s r", OF _ _ _ _ assms(3)])
  show "rows_step (swept u addr) t t" for t by (rule sweep.step_refl)
  show "rows_step (swept u addr) t v \<Longrightarrow> rows_step (swept u addr) v w \<Longrightarrow> rows_step (swept u addr) t w"
    for t v w by (rule sweep.step_trans)
  show "\<forall>r \<in> set subs'. wf_db s \<and> sweepable u addr s r" using assms(1,2) by blast
qed (auto intro: claim_one_step sweepable_step rows_step_wf)

lemma find_unclaimed_run:
  assumes "find_unclaimed_active_by_email addr s = (Inr rs, s')" and "wf_db s" and "r \<in> set rs"
  shows "sweepable u addr s r"
  using assms unfolding find_unclaimed_active_by_email_def
  by (auto elim!: txn_InrE simp: gets_def newest_first_def sweepable_def email_matches_def row_of_member)

lemma find_half_claimed_run:
  assumes "find_claimed_unprovisioned_active u s = (Inr rs, s')" and "wf_db s" and "r \<in> set rs"
  shows "sweepable u addr s r"
  using assms unfolding find_claimed_unprovisioned_active_def
  by (auto elim!: txn_InrE simp: gets_def newest_first_def sweepable_def row_of_member)

lemma reads_find [pres_intros]:
  "steps same_tables (find_unclaimed_active_by_email addr)"
  "steps same_tables (find_claimed_unprovisioned_active u)"
  unfolding find_unclaimed_active_by_email_def find_claimed_unprovisioned_active_def
  by (intro pres_intros)+

lemma same_tables_sweepable: "same_tables s s' \<Longrightarrow> sweepable u addr s' r = sweepable u addr s r"
  by (auto simp: same_tables_def sweepable_def)

lemma same_tables_wf: "same_tables s s' \<Longrightarrow> wf_db s' = wf_db s"
  by (auto simp: same_tables_def)

lemma sweep_reading: "same_tables s s' \<Longrightarrow> rows_step (swept u addr) s s'"
  by (auto simp: same_tables_def rows_step_faults)

lemma sweep_body:
  assumes run: "bindE (find_unclaimed_active_by_email addr) (\<lambda>unclaimed.
        bindE (find_claimed_unprovisioned_active u) (\<lambda>half_claimed.
        bindE (for_each (unclaimed @ half_claimed) ([], []) (claim_one u)) (\<lambda>acc.
        ret (snd acc)))) s = (res, s')" and wf: "wf_db s"
  shows "rows_step (swept u addr) s s'"
  using run
proof (cases rule: bindE_cases)
  case (raised e)
  from stepsD [OF reads_find(1) raised(1)] show ?thesis by (rule sweep_reading)
next
  case (returned xs s1)
  have s1: "same_tables s s1" by (rule stepsD [OF reads_find(1) returned(1)])
  from returned(2) show ?thesis
  proof (cases rule: bindE_cases)
    case (raised e)
    from stepsD [OF reads_find(2) raised(1)] s1 show ?thesis
      by (meson reading.step_trans sweep_reading)
  next
    case ret2: (returned ys s2)
    have s2: "same_tables s1 s2" by (rule stepsD [OF reads_find(2) ret2(1)])
    have s12: "same_tables s s2" using s1 s2 by (rule reading.step_trans)
    have "sweepable u addr s2 r" if "r \<in> set (xs @ ys)" for r
      using that find_unclaimed_run [OF returned(1) wf] find_half_claimed_run [OF ret2(1)] wf
      by (auto simp: same_tables_sweepable [OF s12] same_tables_sweepable [OF s2] same_tables_wf [OF s1]
          same_tables_sweepable [OF s1])
    moreover have "wf_db s2" using wf by (simp add: same_tables_wf [OF s12])
    moreover obtain res' where "for_each (xs @ ys) ([], []) (claim_one u) s2 = (res', s')"
      using ret2(2) by (auto elim!: bindE_cases simp: ret_def)
    ultimately have "rows_step (swept u addr) s2 s'" by (intro sweep_list)
    with sweep_reading [OF s12] show ?thesis by (rule sweep.step_trans)
  qed
qed

text \<open>The login sweep \<open>claim_subscription_for_user\<close> never raises, whatever the database does
  to its transactions; it keeps the tables well formed, never takes a subscription from a user
  who has it, and gives the user only subscriptions that were unclaimed and whose buyer address
  is the user's address (up to case).\<close>

theorem claim_subscription_for_user_safe:
  assumes "wf_db s" and "claim_subscription_for_user u addr s = (res, s')"
  shows "(\<exists>ks. res = Inr ks) \<and> wf_db s' \<and>
    (\<forall>i r. row_of s i = Some r \<longrightarrow> (\<exists>r'. row_of s' i = Some r' \<and>
       (claimed_user_id r' = claimed_user_id r \<or>
        claimed_user_id r = None \<and> claimed_user_id r' = Some u \<and>
        map_option to_lower (buyer_email r) = Some (to_lower addr))))"
proof -
  let ?body = "bindE (find_unclaimed_active_by_email addr) (\<lambda>unclaimed.
        bindE (find_claimed_unprovisioned_active u) (\<lambda>half_claimed.
        bindE (for_each (unclaimed @ half_claimed) ([], []) (claim_one u)) (\<lambda>acc.
        ret (snd acc))))"
  obtain r1 s1 where b: "?body s = (r1, s1)" by fastforce
  with assms(2) have "s' = s1" and "\<exists>ks. res = Inr ks"
    unfolding claim_subscription_for_user_def
    by (auto simp: try_except_def ret_def split: sum.splits)
  with sweep_body [OF b assms(1)] assms(1) show ?thesis
    by (fastforce simp: rows_step_def swept_def email_matches_def)
qed

theorem claim_subscription_for_user_safe_witness:
  "wf_db (sample_db\<lparr>faults := [Fine, Fine, Lost_after]\<rparr>) \<and>
   (\<exists>ks. fst (claim_subscription_for_user 7 ''ANN@x.io'' (sample_db\<lparr>faults := [Fine, Fine, Lost_after]\<rparr>)) = Inr ks) \<and>
   map_option claimed_user_id (row_of (snd (claim_subscription_for_user 7 ''ANN@x.io'' sample_db)) 1) =
     Some (Some 7)"
proof (intro conjI)
  show wf: "wf_db (sample_db\<lparr>faults := [Fine, Fine, Lost_after]\<rparr>)" by (simp add: wf_sample_db)
  show "\<exists>ks. fst (claim_subscription_for_user 7 ''ANN@x.io'' (sample_db\<lparr>faults := [Fine, Fine, Lost_after]\<rparr>)) = Inr ks"
    using claim_subscription_for_user_safe [OF wf surjective_pairing [of "claim_subscription_for_user 7 ''ANN@x.io'' (sample_db\<lparr>faults := [Fine, Fine, Lost_after]\<rparr>)"]]
    by blast
  show "map_option claimed_user_id (row_of (snd (claim_subscription_for_user 7 ''ANN@x.io'' sample_db)) 1) =
     Some (Some 7)"
    by code_simp
qed

subsection \<open>Highest tier wins\<close>

lemma keeps_update_subs [pres_intros]: "steps same_keys (update_subs c f)"
  unfolding update_subs_def
  by (intro same_keys.steps_txn stepsI) (auto simp: same_keys_def Let_def split: if_splits)

lemma keeps_links [pres_intros]:
  "steps same_keys (link_to_user i u)" "steps same_keys (link_to_api_key i k)"
  "steps same_keys (link_to_tenant i t)" "steps same_keys (claim_unclaimed_for_user i u)"
  unfolding link_to_user_def link_to_api_key_def link_to_tenant_def claim_unclaimed_for_user_def
  by (intro pres_intros)+

lemma keeps_create_tenant [pres_intros]: "steps same_keys (create_tenant nm)"
  unfolding create_tenant_def
  by (intro same_keys.steps_if same_keys.steps_raise same_keys.steps_txn stepsI)
    (auto simp: same_keys_def Let_def split: if_splits)

lemma keeps_add_tenant_member [pres_intros]: "steps same_keys (add_tenant_member u t role)"
  unfolding add_tenant_member_def
  by (intro same_keys.steps_if same_keys.steps_raise same_keys.steps_txn stepsI)
    (auto simp: same_keys_def split: if_splits)

lemma keeps_provision_seats [pres_intros]: "steps same_keys (provision_seats i u n)"
  unfolding provision_seats_def ensure_tenant_def
  by (intro pres_intros) (auto intro!: pres_intros split: if_splits)

text \<open>Keys survive, keep their owner, state and overrides, and their plan never loses rank.\<close>

definition key_ge :: "db \<Rightarrow> api_key \<Rightarrow> api_key \<Rightarrow> bool" where
  "key_ge s x x' \<longleftrightarrow> key_user_id x' = key_user_id x \<and> key_active x' = key_active x \<and>
     rate_limit_override x' = rate_limit_override x \<and> quota_override x' = quota_override x \<and>
     rank_of_plan s (key_plan_id x) \<le> rank_of_plan s (key_plan_id x')"

definition keys_up :: "db \<Rightarrow> db \<Rightarrow> bool" where
  "keys_up s s' \<longleftrightarrow> (wf_db s \<longrightarrow> wf_db s' \<and> same_config s s' \<and> key_seq s \<le> key_seq s' \<and>
     (\<forall>k x. key_of s k = Some x \<longrightarrow> (\<exists>x'. key_of s' k = Some x' \<and> key_ge s x x')))"

lemma rank_same_config: "same_config s s' \<Longrightarrow> rank_of_plan s' p = rank_of_plan s p"
  by (simp add: rank_of_plan_def plan_meta_def plan_of_def plan_rank_def unlimited_slug_def same_config_def)

lemma key_ge_refl [simp]: "key_ge s x x"
  by (simp add: key_ge_def)

lemma keys_upD: "keys_up s s' \<Longrightarrow> wf_db s \<Longrightarrow> key_of s k = Some x \<Longrightarrow> \<exists>x'. key_of s' k = Some x' \<and> key_ge s x x'"
  by (simp add: keys_up_def)

lemma keys_up_wf: "keys_up s s' \<Longrightarrow> wf_db s \<Longrightarrow> wf_db s' \<and> same_config s s' \<and> key_seq s \<le> key_seq s'"
  by (simp add: keys_up_def)

lemma keys_up_trans:
  assumes "keys_up s t" and "keys_up t v"
  shows "keys_up s v"
proof -
  have "\<exists>x'. key_of v k = Some x' \<and> key_ge s x x'" if wf: "wf_db s" and x: "key_of s k = Some x" for k x
  proof -
    from keys_upD [OF assms(1) wf x] obtain y where y: "key_of t k = Some y" "key_ge s x y" by blast
    note t = keys_up_wf [OF assms(1) wf]
    from keys_upD [OF assms(2) _ y(1)] t obtain z where "key_of v k = Some z" "key_ge t y z" by blast
    with y(2) t show ?thesis by (force simp: key_ge_def rank_same_config)
  qed
  then show ?thesis
    using keys_up_wf [OF assms(1)] keys_up_wf [OF assms(2)]
    by (auto simp: keys_up_def intro: same_config_trans)
qed

interpretation keys_up: db_stepwise keys_up
proof
  show "keys_up s s" and "keys_up s (s\<lparr>faults := fs\<rparr>)" for s fs
    by (auto simp: keys_up_def same_config_def)
qed (rule keys_up_trans)

lemma keys_up_same:
  assumes "steps (rows_step watermark_grows) m" and "steps same_keys m"
  shows "steps keys_up m"
proof (rule stepsI)
  fix s r s' assume run: "m s = (r, s')"
  from stepsD [OF assms(1) run] stepsD [OF assms(2) run] show "keys_up s s'"
    by (simp add: keys_up_def rows_step_def same_keys_def key_of_def)
qed

lemma keys_up_reading: "steps same_tables m \<Longrightarrow> steps keys_up m"
  by (erule steps_mono) (auto simp: same_tables_def keys_up_def same_config_def)

lemma keys_up_set_plan:
  assumes run: "set_api_key_plan_and_overrides k p None None False False s = (r, s')"
    and rank: "\<And>x. key_of s k = Some x \<Longrightarrow> rank_of_plan s (key_plan_id x) \<le> rank_of_plan s p"
  shows "keys_up s s'"
proof -
  from run have side: "side_step s s'" by (rule stepsD [OF side_set_api_key_plan])
  from run have "key_seq s' = key_seq s \<and> (api_keys s' = api_keys s \<or>
      api_keys s' = map (\<lambda>x. if key_pk x = k then x\<lparr>key_plan_id := p\<rparr> else x) (api_keys s))"
    unfolding set_api_key_plan_and_overrides_def
    by (cases rule: txn_stateE) (auto split: option.splits if_splits cong: if_cong)
  then have "\<exists>x'. key_of s' j = Some x' \<and> key_ge s x x'" if "key_of s j = Some x" for j x
    using that rank key_ofD [OF that] by (auto simp: key_of_def find_key_map key_ge_def)
  with side \<open>key_seq s' = key_seq s \<and> _\<close> show ?thesis by (simp add: keys_up_def side_step_def)
qed

lemma keys_up_upgrade_key [pres_intros]: "steps keys_up (upgrade_key k p)"
proof (rule stepsI)
  fix s r s' assume "upgrade_key k p s = (r, s')"
  then show "keys_up s s'"
    unfolding upgrade_key_def
  proof (cases rule: bindE_cases)
    case (raised e)
    from raised(1) show ?thesis by (rule stepsD [rotated]) (intro keys_up.steps_txn keys_up.steps_gets)
  next
    case (returned a s1)
    from returned(1) obtain fs where s1: "s1 = s\<lparr>faults := fs\<rparr>"
      and a: "a = (case key_plan_meta s1 k of None \<Rightarrow> -1 | Some (sl, price) \<Rightarrow> plan_rank s1 sl price,
        rank_of_plan s1 p)"
      by (auto elim!: txn_InrE simp: gets_def)
    have up: "keys_up s s1" unfolding s1 by (rule keys_up.step_faults)
    have "keys_up s1 s'" if wf: "wf_db s1"
    proof (cases "fst a > snd a")
      case True
      with returned(2) show ?thesis by (simp add: ret_def split: prod.splits) (metis keys_up.step_refl)
    next
      case False
      with returned(2) have set: "set_api_key_plan_and_overrides k p None None False False s1 = (r, s')"
        by (simp split: prod.splits)
      have "rank_of_plan s1 (key_plan_id x) \<le> rank_of_plan s1 p" if x: "key_of s1 k = Some x" for x
      proof -
        from key_ofD [OF x] wf have "\<exists>q \<in> set (plans s1). plan_pk q = key_plan_id x"
          by (auto simp: key_plan_member)
        then obtain q where "plan_of s1 (key_plan_id x) = Some q"
          unfolding plan_of_def by (metis (mono_tags, lifting) find_None_iff2 option.exhaust)
        with False x show ?thesis
          by (simp add: a key_plan_meta_def rank_of_plan_def [of s1 "key_plan_id x"] plan_meta_def)
      qed
      with set show ?thesis by (rule keys_up_set_plan)
    qed
    then have "keys_up s1 s'" by (cases "wf_db s1") (simp_all add: keys_up_def)
    with up show ?thesis by (rule keys_up.step_trans)
  qed
qed

lemma create_api_key_run:
  assumes "create_api_key l u t s = (res, s')" and wf: "wf_db s"
  shows "\<forall>k x. key_of s k = Some x \<longrightarrow> key_of s' k = Some x" and "key_seq s \<le> key_seq s'"
    and "res = Inr k \<Longrightarrow> key_of s k = None"
proof -
  let ?k = "key_seq s + 1"
  let ?x = "\<lparr>key_pk = ?k, key_name = l, key_user_id = Some u, key_tenant_id = Some t,
    key_plan_id = default_plan_id s, key_active = True, rate_limit_override = None, quota_override = None\<rparr>"
  have res: "k = ?k" if "res = Inr k"
    using assms(1) that unfolding create_api_key_def
    by (auto elim!: txn_InrE simp: Let_def split: if_splits)
  have s': "api_keys s' \<in> {api_keys s, api_keys s @ [?x]}" and "key_seq s \<le> key_seq s'"
    using assms(1) unfolding create_api_key_def
    by (auto elim!: txn_stateE simp: Let_def split: if_splits)
  then show "\<forall>k x. key_of s k = Some x \<longrightarrow> key_of s' k = Some x" and "key_seq s \<le> key_seq s'"
    by (auto simp: key_of_def find_append)
  have "key_of s ?k = None"
    using wf by (force simp: key_of_def find_None_iff wf_defs)
  with res show "key_of s k = None" if "res = Inr k" using that by simp
qed

lemma keys_up_create_api_key [pres_intros]: "steps keys_up (create_api_key l u t)"
proof (rule stepsI)
  fix s r s' assume run: "create_api_key l u t s = (r, s')"
  from stepsD [OF side_create_api_key run] create_api_key_run [OF run] show "keys_up s s'"
    by (auto simp: keys_up_def side_step_def)
qed

text \<open>Setting the plan of a key that is not in \<open>s\<close> leaves the keys of \<open>s\<close> alone.\<close>

lemma keys_up_mint_tail:
  assumes up: "keys_up s s1" and fresh: "key_of s k = None"
    and run: "set_api_key_plan_and_overrides k p None None False False s1 = (r, s')"
  shows "keys_up s s'"
proof -
  from run have side: "side_step s1 s'" by (rule stepsD [OF side_set_api_key_plan])
  from run have "key_seq s' = key_seq s1" and
    keys: "api_keys s' = api_keys s1 \<or>
      api_keys s' = map (\<lambda>x. if key_pk x = k then x\<lparr>key_plan_id := p\<rparr> else x) (api_keys s1)"
    unfolding set_api_key_plan_and_overrides_def
    by (auto elim!: txn_stateE split: option.splits if_splits cong: if_cong)
  have same: "key_of s' j = key_of s1 j" if "j \<noteq> k" for j
  proof -
    have "key_of s1 j = Some x \<Longrightarrow> key_pk x \<noteq> k" for x using key_ofD [of s1 j x] that by auto
    then show ?thesis using keys by (cases "key_of s1 j") (auto simp: key_of_def find_key_map)
  qed
  have "\<exists>x'. key_of s' j = Some x' \<and> key_ge s x x'" if "wf_db s" "key_of s j = Some x" for j x
    using keys_upD [OF up that] same [of j] fresh that(2) by (cases "j = k") auto
  with keys_up_wf [OF up] side \<open>key_seq s' = key_seq s1\<close> show ?thesis
    by (auto simp: keys_up_def side_step_def intro: same_config_trans)
qed

lemma keys_up_mint_key [pres_intros]: "steps keys_up (mint_key i u p)"
proof -
  have "steps keys_up (bindE (create_api_key l u t) (\<lambda>k.
      seqE (set_api_key_plan_and_overrides k p None None False False) (ret k)))" for l t
  proof (rule stepsI)
    fix s r s' assume "bindE (create_api_key l u t) (\<lambda>k.
      seqE (set_api_key_plan_and_overrides k p None None False False) (ret k)) s = (r, s')"
    then show "keys_up s s'"
    proof (cases rule: bindE_cases)
      case (raised e)
      from stepsD [OF keys_up_create_api_key raised(1)] show ?thesis .
    next
      case (returned k s1)
      note up = stepsD [OF keys_up_create_api_key returned(1)]
      from returned(2) obtain r1 where "set_api_key_plan_and_overrides k p None None False False s1 = (r1, s')"
        by (auto elim!: seqE_cases simp: ret_def)
      from keys_up_mint_tail [OF up _ this] create_api_key_run(3) [OF returned(1)]
      show ?thesis by (cases "wf_db s") (auto simp: keys_up_def)
    qed
  qed
  then show ?thesis
    unfolding mint_key_def
    by (blast intro: keys_up.steps_bind [OF keys_up_reading [OF reads_username_for]]
        keys_up.steps_bind [OF keys_up_reading [OF reads_mint_tenant]])
qed

lemma keys_up_invalidate [pres_intros]: "steps keys_up (invalidate_plan_cache k)"
  unfolding invalidate_plan_cache_def
  by (rule keys_up.steps_modify) (simp add: keys_up_def wf_db_cache same_config_def key_of_def)

lemma keys_up_provision [pres_intros]: "steps keys_up (provision_or_upgrade i u)"
  unfolding provision_defs get_by_id_def list_api_keys_of_user_def
  by (intro keys_up.steps_seq keys_up.steps_bind keys_up.steps_txn keys_up.steps_gets keys_up.steps_ret
      keys_up.steps_raise keys_up.steps_case_option keys_up_upgrade_key keys_up_mint_key keys_up_invalidate
      keys_up_same [OF watermark_provision_seats keeps_provision_seats]
      keys_up_same [OF steps_link_to_user keeps_links(1)]
      keys_up_same [OF steps_link_to_api_key(1) keeps_links(2)])

subsection \<open>What a successful provisioning leaves\<close>

lemma set_plan_run:
  assumes "set_api_key_plan_and_overrides k p rl q b1 b2 s = (Inr (), s')"
  obtains x where "key_of s k = Some x"
    and "key_of s' k = Some (x\<lparr>key_plan_id := p,
      rate_limit_override := (if b1 then rl else rate_limit_override x),
      quota_override := (if b2 then q else quota_override x)\<rparr>)"
    and "same_config s s'" and "p \<in> plan_pk ` set (plans s)"
  using assms that unfolding set_api_key_plan_and_overrides_def
  by (elim txn_InrE)
    (force simp: key_of_def find_key_map same_config_def list_ex_iff split: option.splits if_splits dest: find_keyD)

lemma upgrade_key_run:
  assumes run: "upgrade_key k p s = (Inr (), s')" and wf: "wf_db s" and x: "key_of s k = Some x"
  shows "\<exists>x'. key_of s' k = Some x' \<and> key_ge s x x' \<and> rank_of_plan s p \<le> rank_of_plan s (key_plan_id x')"
proof -
  from keys_upD [OF stepsD [OF keys_up_upgrade_key run] wf x] obtain x' where
    x': "key_of s' k = Some x'" "key_ge s x x'" by blast
  from run obtain fs where
    "(if (case key_plan_meta (s\<lparr>faults := fs\<rparr>) k of None \<Rightarrow> -1
          | Some (sl, price) \<Rightarrow> plan_rank (s\<lparr>faults := fs\<rparr>) sl price) > rank_of_plan (s\<lparr>faults := fs\<rparr>) p
      then ret () else set_api_key_plan_and_overrides k p None None False False) (s\<lparr>faults := fs\<rparr>) = (Inr (), s')"
    (is "(if ?b then _ else _) ?s = _")
    unfolding upgrade_key_def by (auto elim!: bindE_cases txn_InrE simp: gets_def)
  then show ?thesis
  proof (cases ?b)
    case True
    with \<open>(if ?b then _ else _) ?s = _\<close> have "s' = ?s" by (simp add: ret_def)
    with x x'(1) have "x' = x" by simp
    obtain q where "plan_of s (key_plan_id x) = Some q"
      using key_plan_member [OF wf] key_ofD [OF x] unfolding plan_of_def
      by (metis (mono_tags, lifting) find_None_iff2 option.exhaust)
    with True x x' \<open>x' = x\<close> rank_same_config [of s ?s] show ?thesis
      by (auto simp: key_plan_meta_def rank_of_plan_def [of s "key_plan_id x"] plan_meta_def same_config_def
          plan_of_def plan_rank_def unlimited_slug_def)
  next
    case False
    with \<open>(if ?b then _ else _) ?s = _\<close> have
      "set_api_key_plan_and_overrides k p None None False False ?s = (Inr (), s')" by simp
    then have "key_plan_id x' = p" using x'(1) by (auto elim!: set_plan_run)
    with x' show ?thesis by auto
  qed
qed

lemma create_api_key_new:
  assumes run: "create_api_key l u t s = (Inr k, s')" and wf: "wf_db s"
  shows "\<exists>x. key_of s' k = Some x \<and> key_user_id x = Some u \<and> key_active x"
  using run create_api_key_run(3) [OF run wf refl] unfolding create_api_key_def
  by (auto elim!: txn_InrE simp: Let_def key_of_def find_append split: if_splits)

lemma mint_key_run:
  assumes run: "mint_key i u p s = (Inr k, s')" and wf: "wf_db s"
  shows "\<exists>x. key_of s' k = Some x \<and> key_user_id x = Some u \<and> key_active x \<and> key_plan_id x = p"
proof -
  from run obtain nm t s0 s1 s2 where nm: "username_for u s = (Inr nm, s0)"
    and t: "resolve_default_mint_tenant_id u s0 = (Inr t, s1)"
    and c: "create_api_key (sub_token i @ '' ('' @ nm @ '')'') u t s1 = (Inr k, s2)"
    and p: "set_api_key_plan_and_overrides k p None None False False s2 = (Inr (), s')"
    unfolding mint_key_def by (auto elim!: bindE_cases seqE_cases simp: ret_def)
  have "same_tables s s1"
    using stepsD [OF reads_username_for nm] stepsD [OF reads_mint_tenant t] by (rule reading.step_trans)
  with wf have "wf_db s1" by (simp add: same_tables_wf)
  from create_api_key_new [OF c this] p show ?thesis by (auto elim!: set_plan_run)
qed

lemma link_runs:
  assumes "link_subscription i u k s = (Inr k', s')" and "row_of s i = Some r"
  shows "k' = k \<and> plan_cache s' k = None \<and> api_keys s' = api_keys s \<and>
    (\<exists>r'. row_of s' i = Some r' \<and> api_key_id r' = Some k \<and> claimed_user_id r' = Some u \<and> plan_id r' = plan_id r)"
proof -
  from assms(1) obtain n1 n2 s1 s2 where
    l1: "update_subs (\<lambda>r. sub_id r = i) (\<lambda>r. r\<lparr>api_key_id := Some k\<rparr>) s = (Inr n1, s1)"
    and l2: "update_subs (\<lambda>r. sub_id r = i) (\<lambda>r. r\<lparr>claimed_user_id := Some u\<rparr>) s1 = (Inr n2, s2)"
    and s': "s' = s2\<lparr>plan_cache := (plan_cache s2)(k := None)\<rparr>" "k' = k"
    unfolding link_subscription_def link_to_api_key_def link_to_user_def invalidate_plan_cache_def
    by (auto elim!: seqE_cases simp: ret_def modify_def)
  have "api_keys s2 = api_keys s"
    using stepsD [OF keeps_update_subs l1] stepsD [OF keeps_update_subs l2] by (simp add: same_keys_def)
  moreover have "\<exists>r'. row_of s2 i = Some r' \<and> api_key_id r' = Some k \<and> claimed_user_id r' = Some u \<and> plan_id r' = plan_id r"
    using row_of_update_subs [OF l1, of i] row_of_update_subs [OF l2, of i] assms(2) row_ofD [OF assms(2)]
    by (simp add: same_identity_def)
  ultimately show ?thesis using s' by (simp add: row_of_def)
qed

text \<open>Provisioning leaves the commercial terms of every row alone.\<close>

definition same_terms :: "subscription \<Rightarrow> subscription \<Rightarrow> bool" where
  "same_terms r r' \<longleftrightarrow> same_identity r r' \<and> plan_id r' = plan_id r \<and> status r' = status r \<and>
     seats r' = seats r \<and> last_event_at r' = last_event_at r \<and> buyer_email r' = buyer_email r"

interpretation terms: db_stepwise "rows_step same_terms"
proof
  show "rows_step same_terms s s" and "rows_step same_terms s (s\<lparr>faults := fs\<rparr>)" for s fs
    by (simp_all add: rows_step_refl rows_step_faults same_terms_def)
  show "rows_step same_terms s t \<Longrightarrow> rows_step same_terms t v \<Longrightarrow> rows_step same_terms s v" for s t v
    by (erule rows_step_trans [rotated]) (auto simp: same_terms_def same_identity_def)
qed

lemma terms_links [pres_intros]:
  "steps (rows_step same_terms) (link_to_user i u)" "steps (rows_step same_terms) (link_to_api_key i k)"
  "steps (rows_step same_terms) (link_to_tenant i t)"
  "steps (rows_step same_terms) (claim_unclaimed_for_user i u)"
  unfolding link_to_user_def link_to_api_key_def link_to_tenant_def claim_unclaimed_for_user_def
  by (intro pres_intros steps_update_subs; simp add: same_terms_def same_identity_def)+

lemma terms_side: "steps side_step m \<Longrightarrow> steps (rows_step same_terms) m"
  by (erule steps_mono) (simp add: side_rows same_terms_def)

lemma terms_provision_seats [pres_intros]: "steps (rows_step same_terms) (provision_seats i u n)"
  unfolding provision_seats_def
  by (intro pres_intros terms_side [OF side_ensure_tenant] terms_side [OF side_add_tenant_member])

lemma terms_provision [pres_intros]: "steps (rows_step same_terms) (provision_or_upgrade i u)"
  unfolding provision_defs get_by_id_def list_api_keys_of_user_def
  by (intro pres_intros terms_side [OF side_upgrade_key] terms_side [OF side_mint_key]
      terms_side [OF side_invalidate_plan_cache])

text \<open>The key the handler settles on: the user's first active key, raised, or a new one.\<close>

definition serves :: "db \<Rightarrow> int \<Rightarrow> int \<Rightarrow> int \<Rightarrow> bool" where
  "serves s u p k \<longleftrightarrow> (\<exists>x. key_of s k = Some x \<and> key_user_id x = Some u \<and> key_active x \<and>
     rank_of_plan s p \<le> rank_of_plan s (key_plan_id x))"

lemma settle_key_serves:
  assumes run: "settle_key i u p existing s = (Inr k, s')"
    and wf: "wf_db s" and ex: "set existing \<subseteq> {x \<in> set (api_keys s). key_user_id x = Some u}"
  shows "serves s' u p k"
proof (cases "find key_active existing")
  case None
  with run mint_key_run [OF _ wf] show ?thesis by (fastforce simp: serves_def settle_key_def)
next
  case (Some x)
  with ex have x: "x \<in> set (api_keys s)" "key_user_id x = Some u" "key_active x"
    by (auto dest!: find_pred_Some)
  from run Some have up: "upgrade_key (key_pk x) p s = (Inr (), s')" and "k = key_pk x"
    by (auto elim!: seqE_cases simp: ret_def settle_key_def)
  from upgrade_key_run [OF up wf key_of_member [OF wf x(1)]] x \<open>k = key_pk x\<close>
    keys_up_wf [OF stepsD [OF keys_up_upgrade_key up] wf]
  show ?thesis by (auto simp: serves_def key_ge_def rank_same_config)
qed

lemma serves_same_keys:
  "serves s u p k \<Longrightarrow> api_keys s' = api_keys s \<Longrightarrow> same_config s s' \<Longrightarrow> serves s' u p k"
  by (auto simp: serves_def key_of_def rank_same_config)

lemma provision_runE:
  assumes "provision_or_upgrade i u s = (Inr k, s')"
  obtains sub existing s2 s3 s4 where "same_tables s s2"
    and "row_of s i = Some sub" and "api_key_id sub = None"
    and "set existing \<subseteq> {x \<in> set (api_keys s). key_user_id x = Some u}"
    and "settle_key i u (plan_id sub) existing s2 = (Inr k, s3)"
    and "provision_seats i u (if seats sub = 0 then 1 else seats sub) s3 = (Inr (), s4)"
    and "link_subscription i u k s4 = (Inr k, s')"
proof -
  from assms obtain row s0 s1 where lock: "txn (ret ()) s = (Inr (), s0)"
    and get: "get_by_id i s0 = (Inr row, s1)" and rest: "(case row of
       None \<Rightarrow> raise_exc ValueError
     | Some sub \<Rightarrow> (case api_key_id sub of
         Some k \<Rightarrow> raise_exc (AlreadyProvisioned k)
       | None \<Rightarrow> provision_unlinked i u sub)) s1 = (Inr k, s')"
    unfolding provision_or_upgrade_def provision_or_upgrade_locked_def
    by (elim seqE_cases bindE_cases) auto
  have s01: "same_tables s s1" and row: "row = row_of s i"
    using lock get unfolding get_by_id_def
    by (auto elim!: txn_InrE simp: gets_def ret_def same_tables_def)
  from rest obtain sub where sub: "row = Some sub" "api_key_id sub = None"
    by (auto simp: raise_exc_def split: option.splits)
  with rest obtain existing s2 s3 s4 k' where
    lst: "list_api_keys_of_user u s1 = (Inr existing, s2)"
    and key: "settle_key i u (plan_id sub) existing s2 = (Inr k', s3)"
    and st: "provision_seats i u (if seats sub = 0 then 1 else seats sub) s3 = (Inr (), s4)"
    and lnk: "link_subscription i u k' s4 = (Inr k, s')"
    unfolding provision_unlinked_def by (simp only: option.case) (elim bindE_cases seqE_cases; auto)
  have "k' = k" using lnk unfolding link_subscription_def
    by (auto elim!: seqE_cases simp: ret_def)
  moreover have "same_tables s s2" and "set existing \<subseteq> {x \<in> set (api_keys s). key_user_id x = Some u}"
    using lst s01 unfolding list_api_keys_of_user_def
    by (auto elim!: txn_InrE simp: gets_def same_tables_def)
  moreover have "row_of s i = Some sub" using row sub(1) by simp
  ultimately show thesis using that sub(2) key st lnk by blast
qed

text \<open>C2. Highest tier wins: on any outcome of \<open>provision_or_upgrade\<close>, errors and lost
  connections included, every API key that existed still exists with its owner, its active
  flag and its overrides, and the plan it carries ranks at least as high as before. The
  invariant holds afterwards and no subscription changed its terms.\<close>

theorem provision_never_downgrades:
  assumes "wf_db s" and "provision_or_upgrade i u s = (res, s')" and "key_of s k = Some x"
  shows "wf_db s' \<and> (\<exists>x'. key_of s' k = Some x' \<and> key_user_id x' = key_user_id x \<and>
      key_active x' = key_active x \<and> rate_limit_override x' = rate_limit_override x \<and>
      rank_of_plan s (key_plan_id x) \<le> rank_of_plan s' (key_plan_id x')) \<and>
    (\<forall>j r. row_of s j = Some r \<longrightarrow> (\<exists>r'. row_of s' j = Some r' \<and> plan_id r' = plan_id r \<and>
      status r' = status r \<and> seats r' = seats r \<and> last_event_at r' = last_event_at r))"
proof -
  note up = stepsD [OF keys_up_provision assms(2)] and tm = stepsD [OF terms_provision assms(2)]
  from keys_upD [OF up assms(1,3)] keys_up_wf [OF up assms(1)]
  have "\<exists>x'. key_of s' k = Some x' \<and> key_ge s x x' \<and> rank_of_plan s' (key_plan_id x') = rank_of_plan s (key_plan_id x')"
    by (auto simp: rank_same_config)
  moreover have "\<forall>j r. row_of s j = Some r \<longrightarrow> (\<exists>r'. row_of s' j = Some r' \<and> same_terms r r')"
    using tm assms(1) by (simp add: rows_step_def)
  ultimately show ?thesis
    using keys_up_wf [OF up assms(1)] by (auto simp: key_ge_def same_terms_def)
qed

theorem provision_never_downgrades_witness:
  "wf_db (provisioned_db\<lparr>subs := [sample_sub]\<rparr>) \<and>
   (\<exists>x'. key_of (snd (provision_or_upgrade 1 7 (provisioned_db\<lparr>subs := [sample_sub]\<rparr>))) 1 = Some x' \<and>
      900 \<le> rank_of_plan (snd (provision_or_upgrade 1 7 (provisioned_db\<lparr>subs := [sample_sub]\<rparr>))) (key_plan_id x'))"
proof -
  let ?s = "provisioned_db\<lparr>subs := [sample_sub]\<rparr>"
  have wf: "wf_db ?s" by code_simp
  have k: "key_of ?s 1 = Some (hd (api_keys ?s))" and r: "rank_of_plan ?s (key_plan_id (hd (api_keys ?s))) = 900"
    by code_simp+
  show ?thesis
    using provision_never_downgrades [OF wf surjective_pairing [of "provision_or_upgrade 1 7 ?s"] k] wf
    unfolding r by blast
qed

text \<open>C3. When \<open>provision_or_upgrade\<close> returns a key, the subscription is linked to that key and
  claimed by the user, the key belongs to the user, is active and carries a plan that ranks at
  least as high as the bought one, and no cached plan of the key is left in the middleware.\<close>

theorem provision_delivers:
  assumes wf: "wf_db s" and run: "provision_or_upgrade i u s = (Inr k, s')"
  shows "\<exists>r x. row_of s' i = Some r \<and> api_key_id r = Some k \<and> claimed_user_id r = Some u \<and>
    key_of s' k = Some x \<and> key_user_id x = Some u \<and> key_active x \<and>
    rank_of_plan s' (plan_id r) \<le> rank_of_plan s' (key_plan_id x) \<and> plan_cache s' k = None"
  using run
proof (rule provision_runE)
  fix sub existing s2 s3 s4
  assume s2: "same_tables s s2" and sub: "row_of s i = Some sub"
    and ex: "set existing \<subseteq> {x \<in> set (api_keys s). key_user_id x = Some u}"
    and key: "settle_key i u (plan_id sub) existing s2 = (Inr k, s3)"
    and st: "provision_seats i u (if seats sub = 0 then 1 else seats sub) s3 = (Inr (), s4)"
    and lnk: "link_subscription i u k s4 = (Inr k, s')"
  have wf2: "wf_db s2" and sub2: "row_of s2 i = Some sub" and keys2: "api_keys s2 = api_keys s"
    using wf sub s2 by (auto simp: same_tables_def)
  have "steps side_step (settle_key i u (plan_id sub) existing)"
    unfolding settle_key_def by (intro pres_intros)
  from stepsD [OF this key] wf2 sub2 have wf3: "wf_db s3" and sub3: "row_of s3 i = Some sub"
    by (simp_all add: side_step_def row_of_def)
  have srv: "serves s3 u (plan_id sub) k"
    using settle_key_serves [OF key wf2] ex keys2 by simp
  from rows_stepD [OF stepsD [OF terms_provision_seats st] wf3 sub3]
  obtain r4 where r4: "row_of s4 i = Some r4" "plan_id r4 = plan_id sub" by (auto simp: same_terms_def)
  note l = link_runs [OF lnk r4(1)]
  have "steps (rows_step watermark_grows) (link_subscription i u k)"
    unfolding link_subscription_def
    by (intro pres_intros steps_side_rows(1) [OF side_invalidate_plan_cache])
  from stepsD [OF this lnk] stepsD [OF terms_provision_seats st] wf3
  have "same_config s3 s4" "same_config s4 s'" by (simp_all add: rows_step_def)
  then have "same_config s3 s'" by (rule same_config_trans)
  moreover have "api_keys s' = api_keys s3"
    using l stepsD [OF keeps_provision_seats st] by (simp add: same_keys_def)
  ultimately have "serves s' u (plan_id sub) k" using serves_same_keys [OF srv] by simp
  with l r4(2) show ?thesis by (auto simp: serves_def)
qed

lemma provisioned_key: "fst (provision_or_upgrade 1 7 sample_db) = Inr 1"
  by code_simp

theorem provision_delivers_witness:
  "wf_db sample_db \<and> (\<exists>r. row_of (snd (provision_or_upgrade 1 7 sample_db)) 1 = Some r \<and> api_key_id r = Some 1)"
proof -
  have "provision_or_upgrade 1 7 sample_db = (Inr 1, snd (provision_or_upgrade 1 7 sample_db))"
    using surjective_pairing [of "provision_or_upgrade 1 7 sample_db"]
    by (metis (no_types, lifting) provisioned_key)
  from provision_delivers [OF wf_sample_db this] show ?thesis using wf_sample_db by blast
qed

end
