(* ===== verification/Activation.thy ===== *)
theory Activation
  imports Provisioning
begin

section \<open>Entitlement activation (src/billing/activation.py)\<close>

text \<open>
  \<open>grant_entitlement\<close>, \<open>update_entitlement\<close> and \<open>revoke_entitlement\<close>, the only
  writers of entitlement state. Time stamps are integers. Logging is left out; a
  \<open>reason\<close> argument is only logged and is left out with it.
\<close>

record entitlement_grant =
  g_plan_id :: int
  g_external_ref :: string
  g_source :: string
  g_seats :: int
  g_buyer_email :: "string option"
  g_amount_cents :: "int option"
  g_currency :: "string option"
  g_billing_interval :: "string option"
  g_period_start :: "int option"
  g_period_end :: "int option"
  g_trial_ends_at :: "int option"

subsection \<open>Helpers\<close>

definition verified_user_id_for_email :: "string \<Rightarrow> int option dbm" where
  "verified_user_id_for_email addr = txn (gets (\<lambda>s.
     map_option user_pk (find (\<lambda>_. True) (sort_key user_pk (filter
       (\<lambda>x. map_option to_lower (email x) = Some (to_lower addr) \<and> email_verified x) (users s))))))"

definition key_plan_id_of :: "int \<Rightarrow> int option dbm" where
  "key_plan_id_of k = txn (gets (\<lambda>s. map_option key_plan_id (key_of s k)))"

definition free_plan :: "db \<Rightarrow> int option" where
  "free_plan s = map_option plan_pk
     (find (\<lambda>p. slug p = or_default (free_plan_slug (settings s)) ''free'') (plans s))"

definition free_plan_id :: "int option dbm" where
  "free_plan_id = txn (gets free_plan)"

definition is_paid_plan :: "int \<Rightarrow> bool dbm" where
  "is_paid_plan p = bindE free_plan_id (\<lambda>f. ret (f = None \<or> Some p \<noteq> f))"

definition enforce_team_min_seats :: "int \<Rightarrow> int \<Rightarrow> unit dbm" where
  "enforce_team_min_seats p n =
     bindE (txn (gets (\<lambda>s.
        (map_option slug (plan_of s p), or_default (team_plan_slug (settings s)) ''team'',
         case team_min_seats (settings s) of None \<Rightarrow> 3 | Some m \<Rightarrow> m))))
       (\<lambda>(plan_slug, team_slug, min_seats).
          if plan_slug = Some team_slug \<and> n < min_seats then raise_exc ValueError else ret ())"

subsection \<open>Grant\<close>

definition grant_row :: "entitlement_grant \<Rightarrow> int option \<Rightarrow> subscription" where
  "grant_row g ev =
     \<lparr>sub_id = 0, plan_id = g_plan_id g, claimed_user_id = None, api_key_id = None,
      tenant_id = None, buyer_email = g_buyer_email g, status = ''active'', seats = g_seats g,
      source = g_source g, external_ref = g_external_ref g, amount_cents = g_amount_cents g,
      currency = g_currency g, billing_interval = g_billing_interval g,
      current_period_start = g_period_start g, current_period_end = g_period_end g,
      trial_ends_at = g_trial_ends_at g, cancelled_at = None, created_at = 0, updated_at = 0,
      last_event_at = ev, cancel_at_period_end = False\<rparr>"

definition claim_at_grant :: "int \<Rightarrow> string \<Rightarrow> unit dbm" where
  "claim_at_grant i addr =
     bindE (verified_user_id_for_email addr) (\<lambda>u. case u of
       None \<Rightarrow> ret ()
     | Some uid \<Rightarrow>
         bindE (get_by_id i) (\<lambda>sub.
         bindE (if (case sub of None \<Rightarrow> False | Some r \<Rightarrow> claimed_user_id r = Some uid)
                then ret True else claim_unclaimed_for_user i uid) (\<lambda>won.
         if won
         then try_except (seqE (provision_or_upgrade i uid) (ret ()))
                (\<lambda>e. case e of AlreadyProvisioned k \<Rightarrow> Some (ret ()) | _ \<Rightarrow> None)
         else ret ())))"

definition grant_entitlement :: "entitlement_grant \<Rightarrow> int option \<Rightarrow> int dbm" where
  "grant_entitlement g ev =
     seqE (enforce_team_min_seats (g_plan_id g) (g_seats g))
     (bindE (upsert_by_external_ref (grant_row g ev)) (\<lambda>i.
      seqE (case g_buyer_email g of
              None \<Rightarrow> ret ()
            | Some addr \<Rightarrow> if addr = [] then ret () else claim_at_grant i addr)
      (ret i)))"

subsection \<open>Update\<close>

definition TERMINAL_STATUSES :: "string list" where
  "TERMINAL_STATUSES = [''cancelled'', ''expired'', ''refunded'', ''past_due'']"

record entitlement_update =
  u_plan_id :: "int option"
  u_status :: "string option"
  u_seats :: "int option"
  u_period_start :: "int option"
  u_period_end :: "int option"
  u_trial_ends_at :: "int option"
  u_cancel_at_period_end :: "bool option"
  u_event_at :: "int option"

definition stale_event :: "int option \<Rightarrow> int option \<Rightarrow> bool" where
  "stale_event incoming stored =
     (case (incoming, stored) of (Some i, Some st) \<Rightarrow> i < st | _ \<Rightarrow> False)"

definition advance :: "int option \<Rightarrow> int \<Rightarrow> int option" where
  "advance stored incoming =
     (case stored of None \<Rightarrow> Some incoming | Some st \<Rightarrow> Some (max st incoming))"

definition downgrade_key_to_free :: "int \<Rightarrow> unit dbm" where
  "downgrade_key_to_free k =
     bindE free_plan_id (\<lambda>f. case f of
       Some p \<Rightarrow> seqE (set_api_key_plan_and_overrides k p None None True True) (invalidate_plan_cache k)
     | None \<Rightarrow> seqE (deactivate_api_key k) (invalidate_plan_cache k))"

definition repoint_key :: "int \<Rightarrow> int \<Rightarrow> bool \<Rightarrow> unit dbm" where
  "repoint_key k resolved plan_changed =
     bindE (if plan_changed then ret True else is_paid_plan resolved) (\<lambda>go.
     if \<not> go then ret ()
     else bindE (key_plan_id_of k) (\<lambda>cur.
       bindE (case cur of None \<Rightarrow> ret False | Some c \<Rightarrow> plan_outranks c resolved) (\<lambda>outranks.
       if outranks then ret ()
       else if cur \<noteq> Some resolved
       then seqE (set_api_key_plan_and_overrides k resolved None None False False)
              (invalidate_plan_cache k)
       else ret ())))"

definition update_cols :: "entitlement_update \<Rightarrow> int option \<Rightarrow> col_update list" where
  "update_cols u stored =
     (case u_plan_id u of None \<Rightarrow> [] | Some v \<Rightarrow> [Set_plan_id v]) @
     (case u_status u of None \<Rightarrow> [] | Some v \<Rightarrow> [Set_status v]) @
     (case u_seats u of None \<Rightarrow> [] | Some v \<Rightarrow> [Set_seats v]) @
     (case u_period_start u of None \<Rightarrow> [] | Some v \<Rightarrow> [Set_current_period_start (Some v)]) @
     (case u_period_end u of None \<Rightarrow> [] | Some v \<Rightarrow> [Set_current_period_end (Some v)]) @
     (case u_trial_ends_at u of None \<Rightarrow> [] | Some v \<Rightarrow> [Set_trial_ends_at (Some v)]) @
     (case u_cancel_at_period_end u of None \<Rightarrow> [] | Some v \<Rightarrow> [Set_cancel_at_period_end v]) @
     (case u_event_at u of None \<Rightarrow> [] | Some v \<Rightarrow> [Set_last_event_at (advance stored v)])"

text \<open>The part of \<open>update_entitlement\<close> after the subscription was read.\<close>

definition update_entitlement_row :: "subscription \<Rightarrow> entitlement_update \<Rightarrow> int dbm" where
  "update_entitlement_row sub u =
     (if stale_event (u_event_at u) (last_event_at sub)
      then seqE (update_fields (sub_id sub)
                   [Set_last_event_at (advance (last_event_at sub) (the (u_event_at u)))])
             (ret (sub_id sub))
      else
        let terminal = (case u_status u of None \<Rightarrow> False | Some st \<Rightarrow> st \<in> set TERMINAL_STATUSES);
            plan_changed = (case u_plan_id u of None \<Rightarrow> False | Some p \<Rightarrow> p \<noteq> plan_id sub);
            resolved = (case u_plan_id u of None \<Rightarrow> plan_id sub | Some p \<Rightarrow> p);
            cols = update_cols u (last_event_at sub)
        in seqE
             (case api_key_id sub of
                None \<Rightarrow> ret ()
              | Some k \<Rightarrow>
                  try_except
                    (if terminal then downgrade_key_to_free k else repoint_key k resolved plan_changed)
                    (\<lambda>e. if e = KeyError then Some (ret ()) else None))
             (seqE (if cols = [] then ret () else seqE (update_fields (sub_id sub) cols) (ret ()))
               (ret (sub_id sub))))"

definition update_entitlement :: "string \<Rightarrow> entitlement_update \<Rightarrow> int dbm" where
  "update_entitlement ref u =
     bindE (get_by_external_ref ref) (\<lambda>row. case row of
       None \<Rightarrow> raise_exc LookupError
     | Some sub \<Rightarrow> update_entitlement_row sub u)"

subsection \<open>Revoke\<close>

definition revoke_entitlement_row :: "subscription \<Rightarrow> bool \<Rightarrow> int option \<Rightarrow> unit dbm" where
  "revoke_entitlement_row sub voluntary ev =
     (if voluntary then schedule_cancellation (sub_id sub)
      else if stale_event ev (last_event_at sub)
      then seqE (update_fields (sub_id sub)
                   [Set_last_event_at (advance (last_event_at sub) (the ev))]) (ret ())
      else
        seqE (mark_cancelled (sub_id sub))
        (seqE (case ev of None \<Rightarrow> ret ()
               | Some v \<Rightarrow> seqE (update_fields (sub_id sub)
                              [Set_last_event_at (advance (last_event_at sub) v)]) (ret ()))
          (case api_key_id sub of
             None \<Rightarrow> ret ()
           | Some k \<Rightarrow> downgrade_key_to_free k)))"

definition revoke_entitlement :: "string \<Rightarrow> bool \<Rightarrow> int option \<Rightarrow> unit dbm" where
  "revoke_entitlement ref voluntary ev =
     bindE (get_by_external_ref ref) (\<lambda>row. case row of
       None \<Rightarrow> ret ()
     | Some sub \<Rightarrow> revoke_entitlement_row sub voluntary ev)"

subsection \<open>The row an update writes\<close>

definition updated_row :: "entitlement_update \<Rightarrow> int option \<Rightarrow> subscription \<Rightarrow> subscription" where
  "updated_row u stored r =
     r\<lparr>plan_id := (case u_plan_id u of None \<Rightarrow> plan_id r | Some v \<Rightarrow> v),
       status := (case u_status u of None \<Rightarrow> status r | Some v \<Rightarrow> v),
       seats := (case u_seats u of None \<Rightarrow> seats r | Some v \<Rightarrow> v),
       current_period_start := coalesce (u_period_start u) (current_period_start r),
       current_period_end := coalesce (u_period_end u) (current_period_end r),
       trial_ends_at := coalesce (u_trial_ends_at u) (trial_ends_at r),
       cancel_at_period_end := (case u_cancel_at_period_end u of None \<Rightarrow> cancel_at_period_end r | Some v \<Rightarrow> v),
       last_event_at := (case u_event_at u of None \<Rightarrow> last_event_at r | Some v \<Rightarrow> advance stored v)\<rparr>"

lemma set_cols_append: "set_cols (xs @ ys) r = set_cols ys (set_cols xs r)"
  by (simp add: set_cols_def)

lemma set_cols_optional:
  "set_cols (case v of None \<Rightarrow> [] | Some x \<Rightarrow> [Set_plan_id x]) r =
     r\<lparr>plan_id := (case v of None \<Rightarrow> plan_id r | Some x \<Rightarrow> x)\<rparr>"
  "set_cols (case w of None \<Rightarrow> [] | Some x \<Rightarrow> [Set_status x]) r =
     r\<lparr>status := (case w of None \<Rightarrow> status r | Some x \<Rightarrow> x)\<rparr>"
  "set_cols (case v of None \<Rightarrow> [] | Some x \<Rightarrow> [Set_seats x]) r =
     r\<lparr>seats := (case v of None \<Rightarrow> seats r | Some x \<Rightarrow> x)\<rparr>"
  "set_cols (case v of None \<Rightarrow> [] | Some x \<Rightarrow> [Set_current_period_start (Some x)]) r =
     r\<lparr>current_period_start := coalesce v (current_period_start r)\<rparr>"
  "set_cols (case v of None \<Rightarrow> [] | Some x \<Rightarrow> [Set_current_period_end (Some x)]) r =
     r\<lparr>current_period_end := coalesce v (current_period_end r)\<rparr>"
  "set_cols (case v of None \<Rightarrow> [] | Some x \<Rightarrow> [Set_trial_ends_at (Some x)]) r =
     r\<lparr>trial_ends_at := coalesce v (trial_ends_at r)\<rparr>"
  "set_cols (case b of None \<Rightarrow> [] | Some x \<Rightarrow> [Set_cancel_at_period_end x]) r =
     r\<lparr>cancel_at_period_end := (case b of None \<Rightarrow> cancel_at_period_end r | Some x \<Rightarrow> x)\<rparr>"
  "set_cols (case v of None \<Rightarrow> [] | Some x \<Rightarrow> [Set_last_event_at (advance stored x)]) r =
     r\<lparr>last_event_at := (case v of None \<Rightarrow> last_event_at r | Some x \<Rightarrow> advance stored x)\<rparr>"
  by (cases v; cases w; cases b; simp add: set_cols_def coalesce_def)+

lemma set_cols_update: "set_cols (update_cols u stored) r = updated_row u stored r"
  by (simp add: update_cols_def updated_row_def set_cols_append set_cols_optional cong: option.case_cong)

lemma update_cols_known: "\<not> list_ex is_unknown (update_cols u stored)"
  by (simp add: update_cols_def list_ex_append split: option.split)

lemma set_col_identity: "same_identity r (set_col c r)"
  by (cases c) (simp_all add: same_identity_def)

lemma set_cols_identity: "same_identity r (set_cols cs r)"
proof (induction cs arbitrary: r)
  case Nil
  then show ?case by (simp add: set_cols_def)
next
  case (Cons c cs)
  from Cons [of "set_col c r"] set_col_identity [of r c] show ?case
    by (simp add: set_cols_def same_identity_def)
qed

lemma update_fields_step:
  assumes "update_fields i cs s = (res, s')" and "\<And>r. Q r r"
    and "\<And>r. r \<in> set (subs s) \<Longrightarrow> sub_id r = i \<Longrightarrow> Q r ((set_cols cs r)\<lparr>updated_at := clock s\<rparr>)"
  shows "rows_step Q s s'"
proof -
  from assms(1) have "s' = s \<or> (\<exists>n. update_subs (\<lambda>r. sub_id r = i) (set_cols cs) s = (n, s'))"
    unfolding update_fields_def by (auto simp: raise_exc_def ret_def elim!: bindE_cases split: if_splits)
  then show ?thesis
  proof (elim disjE exE)
    assume "s' = s"
    then show ?thesis by (simp add: rows_step_refl assms(2))
  next
    fix n assume "update_subs (\<lambda>r. sub_id r = i) (set_cols cs) s = (n, s')"
    then show ?thesis
      by (rule update_subs_step) (simp_all add: set_cols_identity assms(2,3))
  qed
qed

lemma row_of_update_fields:
  assumes "update_fields i cs s = (Inr b, s')" and "row_of s i = Some r"
  shows "row_of s' i = Some ((set_cols cs r)\<lparr>updated_at := clock s\<rparr>) \<and> same_keys s s' \<and> same_config s s'"
proof -
  from assms(1) obtain n where upd: "update_subs (\<lambda>r. sub_id r = i) (set_cols cs) s = (Inr n, s')"
    unfolding update_fields_def by (auto simp: raise_exc_def ret_def elim!: bindE_cases split: if_splits)
  from row_of_update_subs [OF upd set_cols_identity, of i] stepsD [OF keeps_update_subs upd] upd assms(2)
    row_ofD [OF assms(2)]
  show ?thesis by (auto elim!: update_subs_InrE simp: same_config_def)
qed

subsection \<open>Key side of the handlers\<close>

lemma reads_free_plan [pres_intros]: "steps same_tables free_plan_id"
  unfolding free_plan_id_def by (intro pres_intros)

lemma reads_plan_checks [pres_intros]:
  "steps same_tables (is_paid_plan p)" "steps same_tables (key_plan_id_of k)"
  "steps same_tables (plan_outranks c p)" "steps same_tables (enforce_team_min_seats p n)"
  "steps same_tables (verified_user_id_for_email addr)" "steps same_tables (get_by_external_ref ref)"
  "steps same_tables (get_by_id i)"
  unfolding is_paid_plan_def key_plan_id_of_def plan_outranks_def enforce_team_min_seats_def
    verified_user_id_for_email_def get_by_external_ref_def get_by_id_def
  by (intro pres_intros)+

lemma side_downgrade [pres_intros]: "steps side_step (downgrade_key_to_free k)"
  unfolding downgrade_key_to_free_def by (intro pres_intros side_of_reading [OF reads_free_plan])

lemma side_repoint [pres_intros]: "steps side_step (repoint_key k p c)"
  unfolding repoint_key_def
  by (intro pres_intros side_of_reading [OF reads_plan_checks(1)] side_of_reading [OF reads_plan_checks(2)]
      side_of_reading [OF reads_plan_checks(3)])

subsection \<open>Watermark and claims over every handler\<close>

lemma opt_le_advance [simp]: "opt_le a (advance a v)"
  by (simp add: opt_le_def advance_def split: option.split)

lemma watermark_updated_row: "watermark_grows r (updated_row u (last_event_at r) r)"
  by (simp add: watermark_grows_def same_identity_def updated_row_def split: option.split)

lemma claim_updated_row: "claim_kept r (updated_row u st r)"
  by (simp add: claim_kept_def updated_row_def)

lemma watermark_advance: "watermark_grows r (r\<lparr>last_event_at := advance (last_event_at r) v\<rparr>)"
  by (simp add: watermark_grows_def same_identity_def)

definition row_ok :: "subscription \<Rightarrow> subscription \<Rightarrow> bool" where
  "row_ok r r' \<longleftrightarrow> watermark_grows r r' \<and> claim_kept r r'"

lemma row_ok_refl [simp]: "row_ok r r"
  by (simp add: row_ok_def watermark_grows_def claim_kept_def)

lemma row_ok_updated_at [simp]: "row_ok r (x\<lparr>updated_at := t\<rparr>) = row_ok r x"
  by (simp add: row_ok_def watermark_grows_def claim_kept_def)

lemma row_ok_updated_row: "row_ok r (updated_row u (last_event_at r) r)"
  by (simp add: row_ok_def watermark_updated_row claim_updated_row)

lemma watermark_updated_at [simp]: "watermark_grows r (x\<lparr>updated_at := t\<rparr>) = watermark_grows r x"
  by (simp add: watermark_grows_def)

lemma rows_step_unless_wf: "(wf_db s \<Longrightarrow> rows_step Q s s') \<Longrightarrow> rows_step Q s s'"
  by (auto simp: rows_step_def)

lemma rows_step_conj: "rows_step Q s s' \<Longrightarrow> rows_step Q' s s' \<Longrightarrow> rows_step (\<lambda>r r'. Q r r' \<and> Q' r r') s s'"
  by (force simp: rows_step_def)

interpretation rows_ok: db_stepwise "rows_step row_ok"
proof
  show "rows_step row_ok s s" and "rows_step row_ok s (s\<lparr>faults := fs\<rparr>)" for s fs
    by (simp_all add: rows_step_refl rows_step_faults)
  show "rows_step row_ok s t \<Longrightarrow> rows_step row_ok t v \<Longrightarrow> rows_step row_ok s v" for s t v
    by (erule rows_step_trans [rotated])
      (auto simp: row_ok_def watermark_grows_def claim_kept_def same_identity_def elim: opt_le_trans)
qed

lemma rows_ok_conj:
  "steps (rows_step watermark_grows) m \<Longrightarrow> steps (rows_step claim_kept) m \<Longrightarrow> steps (rows_step row_ok) m"
  unfolding row_ok_def steps_def by (auto intro: rows_step_conj)

lemma rows_ok_side: "steps side_step m \<Longrightarrow> steps (rows_step row_ok) m"
  by (rule rows_ok_conj) (rule steps_side_rows, assumption)+

lemma rows_ok_reading: "steps same_tables m \<Longrightarrow> steps (rows_step row_ok) m"
  by (rule rows_ok_side) (rule side_of_reading)

lemma rows_ok_provision:
  assumes run: "provision_or_upgrade i u s = (res, s')" and own: "owned i u s"
  shows "rows_step row_ok s s'"
proof (cases "wf_db s")
  case True
  with own stepsD [OF claiming_provision run] have "rows_step same_claim s s'" by (simp add: claim_step_def)
  then have "rows_step claim_kept s s'"
    by (rule rows_step_weaken) (simp add: same_claim_def claim_kept_def)
  with stepsD [OF watermark_provision run] show ?thesis
    unfolding row_ok_def by (rule rows_step_conj)
next
  case False
  then show ?thesis by (simp add: rows_step_def)
qed

lemma rows_ok_upsert [pres_intros]: "steps (rows_step row_ok) (upsert_by_external_ref ex)"
  by (rule rows_ok_conj) (intro pres_intros)+

lemma rows_ok_cancel [pres_intros]:
  "steps (rows_step row_ok) (mark_cancelled i)" "steps (rows_step row_ok) (schedule_cancellation i)"
  "steps (rows_step row_ok) (claim_unclaimed_for_user i u)"
  by (rule rows_ok_conj; intro pres_intros)+

lemma get_by_ref_run:
  assumes "get_by_external_ref ref s = (Inr row, s')"
  shows "same_tables s s'" and "row = find (\<lambda>r. external_ref r = ref) (subs s)"
    and "row = Some sub \<Longrightarrow> wf_db s \<Longrightarrow> row_of s (sub_id sub) = Some sub \<and> external_ref sub = ref"
  using assms unfolding get_by_external_ref_def
  by (auto elim!: txn_InrE simp: gets_def same_tables_def dest!: find_pred_Some intro: row_of_member)

lemma rows_ok_advance:
  assumes run: "update_fields i [Set_last_event_at (advance w v)] s = (b, s')" and wf: "wf_db s"
    and row: "row_of s i = Some r" and w: "last_event_at r = w"
  shows "rows_step row_ok s s'"
  using run
proof (rule update_fields_step)
  fix x assume "x \<in> set (subs s)" "sub_id x = i"
  with row_of_member [OF wf] row have "x = r" by force
  then show "row_ok x ((set_cols [Set_last_event_at (advance w v)] x)\<lparr>updated_at := clock s\<rparr>)"
    using w by (auto simp: set_cols_def row_ok_def watermark_advance claim_kept_def)
qed simp

lemma rows_ok_update_row:
  assumes run: "update_entitlement_row sub u s = (res, s')" and row: "row_of s (sub_id sub) = Some sub"
  shows "rows_step row_ok s s'"
proof (cases "wf_db s")
  case wf: True
  have self: "r = sub" if "r \<in> set (subs s1)" "sub_id r = sub_id sub" "subs s1 = subs s" for r s1
    using that row_of_member [OF wf] row by force
  show ?thesis
  proof (cases "stale_event (u_event_at u) (last_event_at sub)")
    case True
    with run obtain b where b: "update_fields (sub_id sub)
        [Set_last_event_at (advance (last_event_at sub) (the (u_event_at u)))] s = (b, s')"
      unfolding update_entitlement_row_def by (auto elim!: seqE_cases simp: ret_def)
    then show ?thesis by (rule rows_ok_advance [OF _ wf row refl])
  next
    case False
    let ?cols = "update_cols u (last_event_at sub)"
    let ?keys = "case api_key_id sub of None \<Rightarrow> ret () | Some k \<Rightarrow>
      try_except (if (case u_status u of None \<Rightarrow> False | Some st \<Rightarrow> st \<in> set TERMINAL_STATUSES)
        then downgrade_key_to_free k
        else repoint_key k (case u_plan_id u of None \<Rightarrow> plan_id sub | Some p \<Rightarrow> p)
          (case u_plan_id u of None \<Rightarrow> False | Some p \<Rightarrow> p \<noteq> plan_id sub))
        (\<lambda>e. if e = KeyError then Some (ret ()) else None)"
    from False run have seq: "seqE ?keys (seqE (if ?cols = [] then ret ()
        else seqE (update_fields (sub_id sub) ?cols) (ret ())) (ret (sub_id sub))) s = (res, s')"
      unfolding update_entitlement_row_def by (simp add: Let_def)
    have keys: "steps side_step ?keys" by (auto intro!: pres_intros split: if_splits)
    from seq show ?thesis
    proof (cases rule: seqE_cases)
      case (raised e)
      from stepsD [OF keys raised(1)] show ?thesis by (rule side_rows) simp
    next
      case (returned a s1)
      have side: "side_step s s1" by (rule stepsD [OF keys returned(1)])
      have "s' = s1 \<or> (\<exists>b. update_fields (sub_id sub) ?cols s1 = (b, s'))"
        using returned(2) by (auto elim!: seqE_cases simp: ret_def split: if_splits)
      then have "rows_step row_ok s1 s'"
      proof (elim disjE exE)
        assume "s' = s1"
        then show ?thesis by (simp add: rows_ok.step_refl)
      next
        fix b assume "update_fields (sub_id sub) ?cols s1 = (b, s')"
        then show ?thesis
        proof (rule update_fields_step)
          fix r assume "r \<in> set (subs s1)" "sub_id r = sub_id sub"
          with self [of r s1] side wf have "r = sub" by (simp add: side_step_def)
          then show "row_ok r ((set_cols ?cols r)\<lparr>updated_at := clock s1\<rparr>)"
            by (simp add: set_cols_update row_ok_updated_row)
        qed simp
      qed
      with side show ?thesis by (meson rows_ok.step_trans row_ok_refl side_rows)
    qed
  qed
qed (simp add: rows_step_def)

lemma rows_ok_update [pres_intros]: "steps (rows_step row_ok) (update_entitlement ref u)"
proof (rule stepsI)
  fix s res s' assume "update_entitlement ref u s = (res, s')"
  then show "rows_step row_ok s s'"
    unfolding update_entitlement_def
  proof (cases rule: bindE_cases)
    case (raised e)
    from raised(1) show ?thesis by (rule stepsD [OF rows_ok_reading [OF reads_plan_checks(6)]])
  next
    case (returned row s1)
    have 1: "rows_step row_ok s s1" by (rule stepsD [OF rows_ok_reading [OF reads_plan_checks(6)] returned(1)])
    moreover have "rows_step row_ok s1 s'" if wf: "wf_db s"
    proof (cases row)
      case None
      with returned(2) show ?thesis by (simp add: raise_exc_def rows_ok.step_refl)
    next
      case (Some sub)
      have "row_of s1 (sub_id sub) = Some sub"
        using get_by_ref_run [OF returned(1)] Some wf by (auto simp: same_tables_def)
      with returned(2) Some show ?thesis by (simp add: rows_ok_update_row)
    qed
    ultimately show ?thesis by (blast intro: rows_ok.step_trans rows_step_unless_wf)
  qed
qed

lemma mark_cancelled_run:
  assumes "mark_cancelled i s = (Inr (), s')" and "row_of s i = Some r"
  shows "row_of s' i = Some (r\<lparr>status := ''cancelled'', cancelled_at := Some (clock s), updated_at := clock s\<rparr>)
    \<and> same_keys s s' \<and> same_config s s'"
proof -
  from assms(1) obtain n where upd: "update_subs (\<lambda>r. sub_id r = i)
      (\<lambda>r. r\<lparr>status := ''cancelled'', cancelled_at := Some (clock s)\<rparr>) s = (Inr n, s')"
    unfolding mark_cancelled_def by (auto elim!: bindE_cases seqE_cases simp: gets_def ret_def)
  from row_of_update_subs [OF upd, of i] row_ofD [OF assms(2)] assms(2) stepsD [OF keeps_update_subs upd] upd
  show ?thesis by (auto elim!: update_subs_InrE simp: same_identity_def same_config_def)
qed

lemma rows_ok_revoke_row:
  assumes run: "revoke_entitlement_row sub voluntary ev s = (res, s')" and row: "row_of s (sub_id sub) = Some sub"
  shows "rows_step row_ok s s'"
proof (rule rows_step_unless_wf)
  assume wf: "wf_db s"
  consider "voluntary" | "\<not> voluntary" "stale_event ev (last_event_at sub)"
    | "\<not> voluntary" "\<not> stale_event ev (last_event_at sub)" by blast
  then show "rows_step row_ok s s'"
  proof cases
    case 1
    with run have "schedule_cancellation (sub_id sub) s = (res, s')" by (simp add: revoke_entitlement_row_def)
    then show ?thesis by (rule stepsD [OF rows_ok_cancel(2)])
  next
    case 2
    with run obtain b where "update_fields (sub_id sub)
        [Set_last_event_at (advance (last_event_at sub) (the ev))] s = (b, s')"
      unfolding revoke_entitlement_row_def by (auto elim!: seqE_cases simp: ret_def)
    then show ?thesis by (rule rows_ok_advance [OF _ wf row refl])
  next
    case 3
    let ?wm = "case ev of None \<Rightarrow> ret () | Some v \<Rightarrow> seqE (update_fields (sub_id sub)
      [Set_last_event_at (advance (last_event_at sub) v)]) (ret ())"
    let ?key = "case api_key_id sub of None \<Rightarrow> ret () | Some k \<Rightarrow> downgrade_key_to_free k"
    from 3 run have "seqE (mark_cancelled (sub_id sub)) (seqE ?wm ?key) s = (res, s')"
      by (simp add: revoke_entitlement_row_def)
    then show ?thesis
    proof (cases rule: seqE_cases)
      case (raised e)
      from stepsD [OF rows_ok_cancel(1) raised(1)] show ?thesis .
    next
      case (returned a s1)
      then have mark: "mark_cancelled (sub_id sub) s = (Inr (), s1)" by simp
      have 1: "rows_step row_ok s s1" by (rule stepsD [OF rows_ok_cancel(1) mark])
      have wf1: "wf_db s1" using 1 wf by (rule rows_step_wf)
      from mark_cancelled_run [OF mark row] obtain r1 where
        r1: "row_of s1 (sub_id sub) = Some r1" "last_event_at r1 = last_event_at sub" by auto
      have wm: "rows_step row_ok s1 s2" if "?wm s1 = (q, s2)" for q s2
        using that rows_ok_advance [OF _ wf1 r1]
        by (auto simp: ret_def rows_ok.step_refl elim!: seqE_cases split: option.splits)
      have key: "steps (rows_step row_ok) ?key"
        by (intro rows_ok_side pres_intros)
      from returned(2) have "rows_step row_ok s1 s'"
        by (cases rule: seqE_cases) (auto dest: wm stepsD [OF key] intro: rows_ok.step_trans)
      with 1 show ?thesis by (rule rows_ok.step_trans)
    qed
  qed
qed

lemma rows_ok_revoke [pres_intros]: "steps (rows_step row_ok) (revoke_entitlement ref voluntary ev)"
proof (rule stepsI, rule rows_step_unless_wf)
  fix s res s' assume "revoke_entitlement ref voluntary ev s = (res, s')" and wf: "wf_db s"
  then show "rows_step row_ok s s'"
    unfolding revoke_entitlement_def
  proof (cases rule: bindE_cases)
    case (raised e)
    from raised(1) show ?thesis by (rule stepsD [OF rows_ok_reading [OF reads_plan_checks(6)]])
  next
    case (returned row s1)
    have 1: "rows_step row_ok s s1" by (rule stepsD [OF rows_ok_reading [OF reads_plan_checks(6)] returned(1)])
    have "rows_step row_ok s1 s'"
    proof (cases row)
      case None
      with returned(2) show ?thesis by (simp add: ret_def rows_ok.step_refl)
    next
      case (Some sub)
      have "row_of s1 (sub_id sub) = Some sub"
        using get_by_ref_run [OF returned(1)] Some wf by (auto simp: same_tables_def)
      with returned(2) Some show ?thesis by (simp add: rows_ok_revoke_row)
    qed
    with 1 show ?thesis by (rule rows_ok.step_trans)
  qed
qed

lemma get_by_id_run:
  "get_by_id i s = (Inr row, s') \<Longrightarrow> row = row_of s i \<and> same_tables s s'"
  unfolding get_by_id_def by (auto elim!: txn_InrE simp: gets_def same_tables_def)

lemma owned_same_tables: "same_tables s s' \<Longrightarrow> owned i u s' = owned i u s"
  by (auto simp: same_tables_def owned_def)

text \<open>The claim of \<open>grant_entitlement\<close>: when it is won the user owns the row.\<close>

lemma claim_at_grant_won:
  assumes run: "(if (case sub of None \<Rightarrow> False | Some r \<Rightarrow> claimed_user_id r = Some uid)
      then ret True else claim_unclaimed_for_user i uid) s = (r, s')"
    and wf: "wf_db s" and sub: "sub = row_of s i"
  shows "rows_step row_ok s s'" and "r = Inr True \<Longrightarrow> owned i uid s'"
proof -
  show "rows_step row_ok s s'"
    using run stepsD [OF rows_ok_cancel(3)] by (auto simp: ret_def rows_ok.step_refl split: if_splits)
  show "owned i uid s'" if "r = Inr True"
    using run that sub claim_unclaimed_won [OF _ wf]
    by (auto simp: ret_def owned_def split: if_splits option.splits)
qed

lemma rows_ok_claim_at_grant [pres_intros]: "steps (rows_step row_ok) (claim_at_grant i addr)"
proof (rule stepsI, rule rows_step_unless_wf)
  fix s res s' assume run: "claim_at_grant i addr s = (res, s')" and wf: "wf_db s"
  then show "rows_step row_ok s s'"
    unfolding claim_at_grant_def
  proof (cases rule: bindE_cases)
    case (raised e)
    from raised(1) show ?thesis by (rule stepsD [OF rows_ok_reading [OF reads_plan_checks(5)]])
  next
    case (returned u s1)
    have 1: "same_tables s s1" by (rule stepsD [OF reads_plan_checks(5) returned(1)])
    have r1: "rows_step row_ok s s1" by (rule stepsD [OF rows_ok_reading [OF reads_plan_checks(5)] returned(1)])
    show ?thesis
    proof (cases u)
      case None
      with returned(2) r1 show ?thesis by (simp add: ret_def)
    next
      case (Some uid)
      let ?won = "\<lambda>sub. if (case sub of None \<Rightarrow> False | Some r \<Rightarrow> claimed_user_id r = Some uid)
                then ret True else claim_unclaimed_for_user i uid"
      let ?prov = "try_except (seqE (provision_or_upgrade i uid) (ret ()))
                (\<lambda>e. case e of AlreadyProvisioned k \<Rightarrow> Some (ret ()) | _ \<Rightarrow> None)"
      from returned(2) Some have "bindE (get_by_id i) (\<lambda>sub. bindE (?won sub)
          (\<lambda>won. if won then ?prov else ret ())) s1 = (res, s')" by simp
      then show ?thesis
      proof (cases rule: bindE_cases)
        case (raised e)
        from stepsD [OF rows_ok_reading [OF reads_plan_checks(7)] raised(1)] r1
        show ?thesis by (meson rows_ok.step_trans)
      next
        case get: (returned sub s2)
        have 2: "same_tables s s2" using 1 get_by_id_run [OF get(1)] by (blast intro: reading.step_trans)
        have sub: "sub = row_of s2 i" and wf2: "wf_db s2"
          using get_by_id_run [OF get(1)] 1 2 wf by (auto simp: same_tables_def)
        have r2: "rows_step row_ok s s2"
          using 2 by (auto simp: same_tables_def rows_step_faults)
        obtain w s3 where w: "?won sub s2 = (w, s3)" by fastforce
        note won = claim_at_grant_won [OF w wf2 sub]
        have prov: "rows_step row_ok s3 s'" if "w = Inr True" "?prov s3 = (res, s')"
        proof -
          from that(2) obtain q where "provision_or_upgrade i uid s3 = (q, s')"
            by (auto simp: try_except_def seqE_def bindE_def ret_def
                split: prod.splits sum.splits option.splits exc.splits)
          then show ?thesis by (rule rows_ok_provision) (rule won(2) [OF that(1)])
        qed
        from get(2) have "rows_step row_ok s3 s'"
          by (cases rule: bindE_cases)
            (use w prov in \<open>auto simp: ret_def rows_ok.step_refl split: if_splits\<close>)
        with r2 won(1) show ?thesis by (meson rows_ok.step_trans)
      qed
    qed
  qed
qed

lemma rows_ok_grant [pres_intros]: "steps (rows_step row_ok) (grant_entitlement g ev)"
  unfolding grant_entitlement_def
  by (intro rows_ok.steps_seq rows_ok.steps_bind rows_ok.steps_case_option rows_ok.steps_if rows_ok.steps_ret
      rows_ok_upsert rows_ok_claim_at_grant rows_ok_reading [OF reads_plan_checks(4)])

end
