(* ===== verification/Json.thy ===== *)
theory Json
  imports Py_Strings Complex_Main
begin

section \<open>JSON values and the Python conversions the webhook code applies to them\<close>

text \<open>
  The values \<^verbatim>\<open>json.loads\<close> returns. An object is its list of members in order
  with distinct keys. A float carries its value and its \<^verbatim>\<open>repr\<close>; the decoder
  itself is a parameter of the code that calls it. \<open>truthy\<close>, \<open>py_str\<close> and
  \<open>py_int_of\<close> are Python's \<^verbatim>\<open>bool\<close>, \<^verbatim>\<open>str\<close> and
  \<^verbatim>\<open>int\<close> on these values.
\<close>

datatype float_value = Finite rat | NaN | Infinite

datatype json =
    JNull
  | JBool bool
  | JInt int
  | JFloat float_value string
  | JStr string
  | JArr "json list"
  | JObj "(string \<times> json) list"

fun truthy :: "json \<Rightarrow> bool" where
  "truthy JNull = False"
| "truthy (JBool b) = b"
| "truthy (JInt i) = (i \<noteq> 0)"
| "truthy (JFloat v r) = (v \<noteq> Finite 0)"
| "truthy (JStr s) = (s \<noteq> [])"
| "truthy (JArr xs) = (xs \<noteq> [])"
| "truthy (JObj ms) = (ms \<noteq> [])"

text \<open>\<^verbatim>\<open>d.get(k)\<close> on an object, \<open>JNull\<close> standing for \<^verbatim>\<open>None\<close>.\<close>

definition members_get :: "(string \<times> json) list \<Rightarrow> string \<Rightarrow> json" where
  "members_get ms k = (case map_of ms k of None \<Rightarrow> JNull | Some v \<Rightarrow> v)"

fun obj_get :: "json \<Rightarrow> string \<Rightarrow> json" where
  "obj_get (JObj ms) k = members_get ms k"
| "obj_get v k = JNull"

fun is_obj :: "json \<Rightarrow> bool" where
  "is_obj (JObj ms) = True"
| "is_obj v = False"

text \<open>\<^verbatim>\<open>{**d, k: v}\<close>: replaces the member or appends it.\<close>

definition members_set :: "(string \<times> json) list \<Rightarrow> string \<Rightarrow> json \<Rightarrow> (string \<times> json) list" where
  "members_set ms k v =
     (if k \<in> fst ` set ms then map (\<lambda>m. if fst m = k then (k, v) else m) ms else ms @ [(k, v)])"

definition py_or :: "json \<Rightarrow> json \<Rightarrow> json" where
  "py_or a b = (if truthy a then a else b)"

subsection \<open>str\<close>

definition hex_digit :: "nat \<Rightarrow> char" where
  "hex_digit n = (if n < 10 then digit_char n else char_of (87 + n))"

definition repr_char :: "char \<Rightarrow> char \<Rightarrow> string" where
  "repr_char q c = (let n = char_code c in
     if c = q \<or> c = CHR 0x5C then [CHR 0x5C, c]
     else if n = 10 then [CHR 0x5C, CHR ''n'']
     else if n = 13 then [CHR 0x5C, CHR ''r'']
     else if n = 9 then [CHR 0x5C, CHR ''t'']
     else if n < 32 \<or> (127 \<le> n \<and> n < 161) \<or> n = 173
     then [CHR 0x5C, CHR ''x'', hex_digit (n div 16), hex_digit (n mod 16)]
     else [c])"

definition repr_str :: "string \<Rightarrow> string" where
  "repr_str s =
     (let q = (if CHR 0x27 \<in> set s \<and> CHR 0x22 \<notin> set s then CHR 0x22 else CHR 0x27)
      in q # concat (map (repr_char q) s) @ [q])"

fun comma_join :: "string list \<Rightarrow> string" where
  "comma_join [] = []"
| "comma_join [x] = x"
| "comma_join (x # xs) = x @ '', '' @ comma_join xs"

fun py_repr :: "json \<Rightarrow> string" where
  "py_repr JNull = ''None''"
| "py_repr (JBool b) = (if b then ''True'' else ''False'')"
| "py_repr (JInt i) = str_int i"
| "py_repr (JFloat v r) = r"
| "py_repr (JStr s) = repr_str s"
| "py_repr (JArr xs) = ''['' @ comma_join (map py_repr xs) @ '']''"
| "py_repr (JObj ms) = ''{'' @ comma_join (map (\<lambda>(k, v). repr_str k @ '': '' @ py_repr v) ms) @ ''}''"

definition py_str :: "json \<Rightarrow> string" where
  "py_str v = (case v of JStr s \<Rightarrow> s | _ \<Rightarrow> py_repr v)"

subsection \<open>int\<close>

datatype int_result = Int_ok int | Int_rejected | Int_overflow

text \<open>\<open>Int_rejected\<close> is a \<^verbatim>\<open>TypeError\<close> or \<^verbatim>\<open>ValueError\<close>; an infinite float raises
  \<^verbatim>\<open>OverflowError\<close>. A finite float is truncated towards zero.\<close>

fun py_int_of :: "json \<Rightarrow> int_result" where
  "py_int_of (JBool b) = Int_ok (if b then 1 else 0)"
| "py_int_of (JInt i) = Int_ok i"
| "py_int_of (JFloat (Finite r) t) = Int_ok (if r \<ge> 0 then \<lfloor>r\<rfloor> else \<lceil>r\<rceil>)"
| "py_int_of (JFloat NaN t) = Int_rejected"
| "py_int_of (JFloat Infinite t) = Int_overflow"
| "py_int_of (JStr s) = (case py_int s of None \<Rightarrow> Int_rejected | Some i \<Rightarrow> Int_ok i)"
| "py_int_of v = Int_rejected"

lemma map_of_map_replace:
  "map_of (map (\<lambda>m. if fst m = k then (k, v) else m) ms) j =
     (if j = k \<and> k \<in> fst ` set ms then Some v else map_of ms j)"
  by (induction ms) (auto split: if_splits)

lemma members_get_set [simp]:
  "members_get (members_set ms k v) j = (if j = k then v else members_get ms j)"
proof (cases "k \<in> fst ` set ms")
  case True
  then show ?thesis by (simp add: members_get_def members_set_def map_of_map_replace)
next
  case False
  then have "map_of ms k = None" by (simp add: map_of_eq_None_iff)
  with False show ?thesis
    by (simp add: members_get_def members_set_def map_add_def split: option.split)
qed

end
