(* ===== verification/Rate_Limit.thy ===== *)
theory Rate_Limit
  imports Prelude Complex_Main
begin

section \<open>Sliding-window rate limits (src/web_ui/rate_limit.py, src/mcp/middleware.py)\<close>

text \<open>
  Two limiters keep a bucket of time stamps per key: \<open>check_ip_rate_limit\<close> for the public
  web endpoints and the webhooks, which also drops idle buckets, and \<open>_check_rate_limit\<close> of
  the MCP server, whose limit comes from the plan of the key. Times are rationals (the values
  of \<^verbatim>\<open>time.monotonic()\<close>). The contract both promise is the locale
  \<open>window_limiter\<close>: on any sequence of calls in time order their answers are those of
  \<open>spec_run\<close>, which counts the admitted calls of the key inside the window over the whole
  history.
\<close>

subsection \<open>Specification\<close>

definition recent :: "rat \<Rightarrow> rat \<Rightarrow> rat list \<Rightarrow> rat list" where
  "recent W now ts = filter (\<lambda>t. now - t \<le> W) ts"

definition stamps_of :: "'k \<Rightarrow> (rat \<times> 'k) list \<Rightarrow> rat list" where
  "stamps_of k hist = map fst (filter (\<lambda>p. snd p = k) hist)"

text \<open>A call is its time, its key and its limit; no limit means unlimited and unrecorded.\<close>

fun spec_run :: "rat \<Rightarrow> (rat \<times> 'k) list \<Rightarrow> (rat \<times> 'k \<times> int option) list \<Rightarrow> bool list" where
  "spec_run W hist [] = []"
| "spec_run W hist ((now, k, None) # cs) = True # spec_run W hist cs"
| "spec_run W hist ((now, k, Some L) # cs) =
     (let ok = int (length (recent W now (stamps_of k hist))) < L
      in ok # spec_run W (if ok then hist @ [(now, k)] else hist) cs)"

fun limiter_run :: "('c \<Rightarrow> 's \<Rightarrow> bool \<times> 's) \<Rightarrow> 's \<Rightarrow> 'c list \<Rightarrow> bool list" where
  "limiter_run admit s [] = []"
| "limiter_run admit s (c # cs) = (case admit c s of (ok, s') \<Rightarrow> ok # limiter_run admit s' cs)"

lemma recent_append [simp]: "recent W t (xs @ ys) = recent W t xs @ recent W t ys"
  by (simp add: recent_def)

lemma recent_Nil [simp]: "recent W t [] = []"
  by (simp add: recent_def)

lemma recent_later:
  "t \<le> t' \<Longrightarrow> recent W t xs = recent W t ys \<Longrightarrow> recent W t' xs = recent W t' ys"
proof -
  assume "t \<le> t'" and eq: "recent W t xs = recent W t ys"
  then have "recent W t' zs = recent W t' (recent W t zs)" for zs
    by (auto simp: recent_def intro: filter_cong)
  then show ?thesis using eq by metis
qed

locale window_limiter =
  fixes W :: rat
    and admit :: "'c \<Rightarrow> 's \<Rightarrow> bool \<times> 's"
    and call_time :: "'c \<Rightarrow> rat" and call_key :: "'c \<Rightarrow> 'k" and call_limit :: "'c \<Rightarrow> int option"
    and call_ok :: "'c \<Rightarrow> bool"
    and bucket :: "'s \<Rightarrow> 'k \<Rightarrow> rat list" and limiter_inv :: "rat \<Rightarrow> 's \<Rightarrow> bool"
  assumes admit_inv:
      "limiter_inv t s \<Longrightarrow> t \<le> call_time c \<Longrightarrow> call_ok c \<Longrightarrow> limiter_inv (call_time c) (snd (admit c s))"
    and admit_answer:
      "limiter_inv t s \<Longrightarrow> t \<le> call_time c \<Longrightarrow> call_ok c \<Longrightarrow>
         fst (admit c s) = (case call_limit c of None \<Rightarrow> True
           | Some L \<Rightarrow> int (length (recent W (call_time c) (bucket s (call_key c)))) < L)"
    and admit_bucket:
      "limiter_inv t s \<Longrightarrow> t \<le> call_time c \<Longrightarrow> call_ok c \<Longrightarrow>
         recent W (call_time c) (bucket (snd (admit c s)) k) =
         recent W (call_time c) (bucket s k @
           (if fst (admit c s) \<and> call_limit c \<noteq> None \<and> k = call_key c then [call_time c] else []))"
begin

lemma run_refines:
  assumes "limiter_inv t s" and "sorted (t # map call_time cs)" and "\<forall>c \<in> set cs. call_ok c"
    and "\<And>k. recent W t (bucket s k) = recent W t (stamps_of k hist)"
  shows "limiter_run admit s cs =
    spec_run W hist (map (\<lambda>c. (call_time c, call_key c, call_limit c)) cs)"
  using assms
proof (induction cs arbitrary: t s hist)
  case Nil
  then show ?case by simp
next
  case (Cons c cs)
  obtain ok s' where adm: "admit c s = (ok, s')" by fastforce
  have t: "t \<le> call_time c" and ok_c: "call_ok c" and srt: "sorted (call_time c # map call_time cs)"
    and cs_ok: "\<forall>c \<in> set cs. call_ok c"
    using Cons.prems(2,3) by auto
  let ?hist = "if ok \<and> call_limit c \<noteq> None then hist @ [(call_time c, call_key c)] else hist"
  have now: "recent W (call_time c) (bucket s k) = recent W (call_time c) (stamps_of k hist)" for k
    using Cons.prems(4) t by (rule recent_later [rotated])
  have inv': "limiter_inv (call_time c) s'"
    using admit_inv [OF Cons.prems(1) t ok_c] by (simp add: adm)
  have hist': "recent W (call_time c) (bucket s' k) = recent W (call_time c) (stamps_of k ?hist)" for k
    using admit_bucket [OF Cons.prems(1) t ok_c, of k]
    by (cases "call_limit c") (auto simp: adm now stamps_of_def)
  have ans: "ok = (case call_limit c of None \<Rightarrow> True
      | Some L \<Rightarrow> int (length (recent W (call_time c) (stamps_of (call_key c) hist))) < L)"
    using admit_answer [OF Cons.prems(1) t ok_c] by (cases "call_limit c") (simp_all add: adm now)
  have "limiter_run admit s' cs =
      spec_run W ?hist (map (\<lambda>c. (call_time c, call_key c, call_limit c)) cs)"
    by (rule Cons.IH [OF inv' srt cs_ok hist'])
  with ans show ?case by (cases "call_limit c") (simp_all add: adm Let_def)
qed

end

subsection \<open>The web limiter\<close>

record ip_limiter =
  per_ip_buckets :: "string \<rightharpoonup> rat list"
  last_prune :: rat

definition prune_stale :: "rat \<Rightarrow> rat \<Rightarrow> ip_limiter \<Rightarrow> ip_limiter" where
  "prune_stale window now st =
     (if now - last_prune st < 2 * window then st
      else st\<lparr>last_prune := now,
        per_ip_buckets := (\<lambda>ip. case per_ip_buckets st ip of
            None \<Rightarrow> None
          | Some b \<Rightarrow> if b = [] \<or> last b < now - 2 * window then None else Some b)\<rparr>)"

definition evict :: "rat \<Rightarrow> rat \<Rightarrow> rat list \<Rightarrow> rat list" where
  "evict window now b = dropWhile (\<lambda>t. now - t > window) b"

text \<open>\<open>now\<close> is read before the lock is taken, \<open>now'\<close> inside \<open>_prune_stale\<close>.\<close>

definition check_ip_rate_limit ::
  "rat \<Rightarrow> rat \<Rightarrow> string \<Rightarrow> int \<Rightarrow> rat \<Rightarrow> ip_limiter \<Rightarrow> bool \<times> ip_limiter" where
  "check_ip_rate_limit now now' client_ip limit window st =
     (let st1 = prune_stale window now' st;
          b = evict window now (case per_ip_buckets st1 client_ip of None \<Rightarrow> [] | Some b \<Rightarrow> b)
      in if int (length b) \<ge> limit
         then (False, st1\<lparr>per_ip_buckets := (per_ip_buckets st1)(client_ip \<mapsto> b)\<rparr>)
         else (True, st1\<lparr>per_ip_buckets := (per_ip_buckets st1)(client_ip \<mapsto> b @ [now])\<rparr>))"

subsection \<open>The MCP limiter\<close>

record plan_info =
  info_plan_id :: int
  info_slug :: string
  quota_calls_per_month :: int
  rate_limit_rpm :: int
  info_rate_limit_override :: "int option"
  info_quota_override :: "int option"

definition resolve_effective_rpm :: "plan_info \<Rightarrow> int \<times> bool" where
  "resolve_effective_rpm p =
     (if info_slug p = ''unlimited'' then (0, True)
      else case info_rate_limit_override p of
        Some n \<Rightarrow> (n, False)
      | None \<Rightarrow> (rate_limit_rpm p, False))"

definition resolve_effective_quota :: "plan_info \<Rightarrow> int \<times> bool" where
  "resolve_effective_quota p =
     (if info_slug p = ''unlimited'' then (0, True)
      else case info_quota_override p of
        Some n \<Rightarrow> (n, False)
      | None \<Rightarrow> (quota_calls_per_month p, False))"

definition check_rate_limit ::
  "rat \<Rightarrow> int \<Rightarrow> plan_info \<Rightarrow> (int \<rightharpoonup> rat list) \<Rightarrow> (bool \<times> int) \<times> (int \<rightharpoonup> rat list)" where
  "check_rate_limit now key_id p rate_buckets =
     (case resolve_effective_rpm p of (effective_rpm, is_unlimited) \<Rightarrow>
        if is_unlimited then ((True, 0), rate_buckets)
        else
          let b = evict 60 now (case rate_buckets key_id of None \<Rightarrow> [] | Some b \<Rightarrow> b);
              remaining = max 0 (effective_rpm - int (length b))
          in if int (length b) \<ge> effective_rpm then ((False, 0), rate_buckets(key_id \<mapsto> b))
             else ((True, remaining - 1), rate_buckets(key_id \<mapsto> b @ [now])))"

text \<open>The monthly gate: \<open>used\<close> is the counter row of the current month, 0 without one.\<close>

definition check_monthly_quota :: "plan_info \<Rightarrow> int \<Rightarrow> bool \<times> int \<times> int" where
  "check_monthly_quota p used =
     (case resolve_effective_quota p of (effective_quota, is_unlimited) \<Rightarrow>
        if is_unlimited \<or> info_slug p = ''__fallback__'' then (True, 0, 0)
        else (used < effective_quota, used, effective_quota))"

subsection \<open>Both meet the contract\<close>

definition bucket_ok :: "rat \<Rightarrow> rat list \<Rightarrow> bool" where
  "bucket_ok t b \<longleftrightarrow> sorted b \<and> (\<forall>x \<in> set b. x \<le> t)"

definition lookup_bucket :: "('k \<rightharpoonup> rat list) \<Rightarrow> 'k \<Rightarrow> rat list" where
  "lookup_bucket m k = (case m k of None \<Rightarrow> [] | Some b \<Rightarrow> b)"

lemma lookup_bucket_upd [simp]:
  "lookup_bucket (m(k \<mapsto> b)) j = (if j = k then b else lookup_bucket m j)"
  by (simp add: lookup_bucket_def)

lemma evict_recent:
  assumes "sorted b"
  shows "evict W now b = recent W now b"
  using assms
proof (induction b)
  case Nil
  then show ?case by (simp add: evict_def recent_def)
next
  case (Cons t b)
  show ?case
  proof (cases "now - t > W")
    case True
    with Cons show ?thesis by (simp add: evict_def recent_def)
  next
    case False
    with Cons.prems have "\<forall>x \<in> set (t # b). now - x \<le> W" by auto
    then show ?thesis using False by (simp add: evict_def recent_def filter_id_conv)
  qed
qed

lemma sorted_le_last: "sorted xs \<Longrightarrow> x \<in> set xs \<Longrightarrow> x \<le> last xs"
  by (induction xs) (auto split: if_splits)

lemma recent_idem [simp]: "recent W t (recent W t b) = recent W t b"
  by (simp add: recent_def)

lemma bucket_ok_recent: "bucket_ok t b \<Longrightarrow> t \<le> t' \<Longrightarrow> bucket_ok t' (recent W t' b)"
  by (auto simp: bucket_ok_def recent_def intro: sorted_filter [where f = id, simplified])

lemma bucket_ok_snoc: "bucket_ok t b \<Longrightarrow> bucket_ok t (b @ [t])"
  by (auto simp: bucket_ok_def sorted_append)

lemma bucket_ok_mono: "bucket_ok t b \<Longrightarrow> t \<le> t' \<Longrightarrow> bucket_ok t' b"
  by (auto simp: bucket_ok_def)

definition ip_inv :: "rat \<Rightarrow> ip_limiter \<Rightarrow> bool" where
  "ip_inv t st \<longleftrightarrow> (\<forall>k. bucket_ok t (lookup_bucket (per_ip_buckets st) k))"

lemma prune_stale_bucket:
  assumes "ip_inv t st" and "now \<le> t'" and "now' - now \<le> W" and "t \<le> t'"
  shows "recent W t' (lookup_bucket (per_ip_buckets (prune_stale W now' st)) k) =
      recent W t' (lookup_bucket (per_ip_buckets st) k)"
    and "bucket_ok t (lookup_bucket (per_ip_buckets (prune_stale W now' st)) k)"
proof -
  let ?b = "lookup_bucket (per_ip_buckets st) k"
  have ok: "bucket_ok t ?b" using assms(1) by (simp add: ip_inv_def)
  have old: "recent W t' ?b = []" if "?b = [] \<or> last ?b < now' - 2 * W"
  proof -
    have "t' - x > W" if "x \<in> set ?b" for x
    proof -
      have "?b \<noteq> []" and "x \<le> last ?b"
        using that ok by (auto simp: bucket_ok_def sorted_le_last)
      with \<open>?b = [] \<or> last ?b < now' - 2 * W\<close> assms(2,3) show ?thesis by simp
    qed
    then show ?thesis by (force simp: recent_def filter_empty_conv)
  qed
  show "recent W t' (lookup_bucket (per_ip_buckets (prune_stale W now' st)) k) = recent W t' ?b"
    using old by (auto simp: prune_stale_def lookup_bucket_def recent_def split: option.splits)
  show "bucket_ok t (lookup_bucket (per_ip_buckets (prune_stale W now' st)) k)"
    using ok by (auto simp: prune_stale_def lookup_bucket_def bucket_ok_def split: option.splits)
qed

text \<open>A call of the web limiter: the two clock reads, the client and its limit. The contract
  needs the lock to be obtained within one window.\<close>

type_synonym ip_call = "rat \<times> rat \<times> string \<times> int"

definition ip_admit :: "rat \<Rightarrow> ip_call \<Rightarrow> ip_limiter \<Rightarrow> bool \<times> ip_limiter" where
  "ip_admit W c st = (case c of (now, now', ip, limit) \<Rightarrow> check_ip_rate_limit now now' ip limit W st)"

definition ip_call_ok :: "rat \<Rightarrow> ip_call \<Rightarrow> bool" where
  "ip_call_ok W c = (case c of (now, now', _, _) \<Rightarrow> now \<le> now' \<and> now' - now \<le> W)"

lemma check_ip_rate_limit_facts:
  assumes inv: "ip_inv t st" and t: "t \<le> now" and clk: "now' - now \<le> W" and W: "0 \<le> W"
    and run: "check_ip_rate_limit now now' ip limit W st = (ok, st')"
  shows "ok = (int (length (recent W now (lookup_bucket (per_ip_buckets st) ip))) < limit)"
    and "recent W now (lookup_bucket (per_ip_buckets st') k) =
      recent W now (lookup_bucket (per_ip_buckets st) k @ (if ok \<and> k = ip then [now] else []))"
    and "ip_inv now st'"
proof -
  let ?st1 = "prune_stale W now' st"
  note pr = prune_stale_bucket [OF inv order_refl clk t]
  have ev: "evict W now (lookup_bucket (per_ip_buckets ?st1) ip) =
      recent W now (lookup_bucket (per_ip_buckets st) ip)"
    using pr(2) [of ip] pr(1) [of ip] by (simp add: evict_recent bucket_ok_def)
  have now0: "recent W now [now] = [now]" using W by (simp add: recent_def)
  show "ok = (int (length (recent W now (lookup_bucket (per_ip_buckets st) ip))) < limit)"
    and "recent W now (lookup_bucket (per_ip_buckets st') k) =
      recent W now (lookup_bucket (per_ip_buckets st) k @ (if ok \<and> k = ip then [now] else []))"
    using run ev pr(1) [of k] now0
    by (auto simp: check_ip_rate_limit_def Let_def lookup_bucket_def [symmetric] split: if_splits)
  have "bucket_ok now (recent W now (lookup_bucket (per_ip_buckets st) k))" for k
    using inv t by (auto simp: ip_inv_def intro: bucket_ok_recent)
  moreover have "bucket_ok now (lookup_bucket (per_ip_buckets ?st1) k)" for k
    using pr(2) t by (rule bucket_ok_mono)
  ultimately show "ip_inv now st'"
    using run ev by (auto simp: check_ip_rate_limit_def Let_def ip_inv_def bucket_ok_snoc
        lookup_bucket_def [symmetric] split: if_splits)
qed

lemma ip_admit_facts:
  assumes "ip_inv t st" and "t \<le> fst c" and "ip_call_ok 60 c"
  shows "fst (ip_admit 60 c st) =
      (int (length (recent 60 (fst c) (lookup_bucket (per_ip_buckets st) (fst (snd (snd c)))))) <
       snd (snd (snd c)))"
    and "recent 60 (fst c) (lookup_bucket (per_ip_buckets (snd (ip_admit 60 c st))) k) =
      recent 60 (fst c) (lookup_bucket (per_ip_buckets st) k @
        (if fst (ip_admit 60 c st) \<and> k = fst (snd (snd c)) then [fst c] else []))"
    and "ip_inv (fst c) (snd (ip_admit 60 c st))"
proof -
  obtain now now' ip limit where c: "c = (now, now', ip, limit)" by (cases c)
  obtain ok st' where run: "check_ip_rate_limit now now' ip limit 60 st = (ok, st')" by fastforce
  have prem: "t \<le> now" "now' - now \<le> 60" "(0::rat) \<le> 60"
    using assms(2,3) by (auto simp: c ip_call_ok_def)
  note facts = check_ip_rate_limit_facts [OF assms(1) prem run]
  show "fst (ip_admit 60 c st) =
      (int (length (recent 60 (fst c) (lookup_bucket (per_ip_buckets st) (fst (snd (snd c)))))) <
       snd (snd (snd c)))"
    using facts(1) run by (simp add: c ip_admit_def)
  show "recent 60 (fst c) (lookup_bucket (per_ip_buckets (snd (ip_admit 60 c st))) k) =
      recent 60 (fst c) (lookup_bucket (per_ip_buckets st) k @
        (if fst (ip_admit 60 c st) \<and> k = fst (snd (snd c)) then [fst c] else []))"
    using facts(2) [of k] run by (simp add: c ip_admit_def)
  show "ip_inv (fst c) (snd (ip_admit 60 c st))"
    using facts(3) run by (simp add: c ip_admit_def)
qed

interpretation web_limiter: window_limiter 60 "ip_admit 60"
  "\<lambda>c. fst c" "\<lambda>c. fst (snd (snd c))" "\<lambda>c. Some (snd (snd (snd c)))" "ip_call_ok 60"
  "\<lambda>st. lookup_bucket (per_ip_buckets st)" ip_inv
  by unfold_locales (simp_all add: ip_admit_facts)

type_synonym mcp_call = "rat \<times> int \<times> plan_info"

definition mcp_admit :: "mcp_call \<Rightarrow> (int \<rightharpoonup> rat list) \<Rightarrow> bool \<times> (int \<rightharpoonup> rat list)" where
  "mcp_admit c m = (case c of (now, k, p) \<Rightarrow>
     case check_rate_limit now k p m of ((ok, _), m') \<Rightarrow> (ok, m'))"

definition mcp_limit :: "mcp_call \<Rightarrow> int option" where
  "mcp_limit c = (case resolve_effective_rpm (snd (snd c)) of
     (rpm, unlimited) \<Rightarrow> if unlimited then None else Some rpm)"

definition mcp_inv :: "rat \<Rightarrow> (int \<rightharpoonup> rat list) \<Rightarrow> bool" where
  "mcp_inv t m \<longleftrightarrow> (\<forall>k. bucket_ok t (lookup_bucket m k))"

lemma mcp_admit_facts:
  assumes inv: "mcp_inv t m" and t: "t \<le> fst c" and run: "mcp_admit c m = (ok, m')"
  shows "ok = (case mcp_limit c of None \<Rightarrow> True
      | Some L \<Rightarrow> int (length (recent 60 (fst c) (lookup_bucket m (fst (snd c))))) < L)"
    and "recent 60 (fst c) (lookup_bucket m' k) = recent 60 (fst c) (lookup_bucket m k @
      (if ok \<and> mcp_limit c \<noteq> None \<and> k = fst (snd c) then [fst c] else []))"
    and "mcp_inv (fst c) m'"
proof -
  obtain now key p where c: "c = (now, key, p)" by (cases c)
  obtain rpm unl where rpm: "resolve_effective_rpm p = (rpm, unl)" by fastforce
  have b: "bucket_ok now (lookup_bucket m k)" for k
    using inv t by (auto simp: mcp_inv_def c intro: bucket_ok_mono)
  then have ev: "evict 60 now (lookup_bucket m key) = recent 60 now (lookup_bucket m key)"
    by (simp add: evict_recent bucket_ok_def)
  have br: "bucket_ok now (recent 60 now (lookup_bucket m key))"
    by (rule bucket_ok_recent [OF b order_refl])
  note unf = mcp_admit_def check_rate_limit_def mcp_limit_def c rpm lookup_bucket_def [symmetric]
  show "ok = (case mcp_limit c of None \<Rightarrow> True
      | Some L \<Rightarrow> int (length (recent 60 (fst c) (lookup_bucket m (fst (snd c))))) < L)"
    using run ev by (auto simp: unf Let_def split: if_splits)
  show "recent 60 (fst c) (lookup_bucket m' k) = recent 60 (fst c) (lookup_bucket m k @
      (if ok \<and> mcp_limit c \<noteq> None \<and> k = fst (snd c) then [fst c] else []))"
    using run ev by (auto simp: unf Let_def recent_def split: if_splits)
  show "mcp_inv (fst c) m'"
    using run ev b br by (auto simp: unf Let_def mcp_inv_def bucket_ok_snoc split: if_splits)
qed

interpretation mcp_limiter: window_limiter 60 mcp_admit fst "\<lambda>c. fst (snd c)" mcp_limit "\<lambda>_. True"
  lookup_bucket mcp_inv
proof (unfold_locales, goal_cases)
  case (1 t s c)
  show ?case by (rule mcp_admit_facts(3) [OF 1(1,2)]) (rule prod.collapse [symmetric])
next
  case (2 t s c)
  show ?case by (rule mcp_admit_facts(1) [OF 2(1,2)]) (rule prod.collapse [symmetric])
next
  case (3 t s c k)
  show ?case by (rule mcp_admit_facts(2) [OF 3(1,2)]) (rule prod.collapse [symmetric])
qed

text \<open>C32. On every sequence of calls in time order, whose lock waits stay below one window,
  \<open>check_ip_rate_limit\<close> with the 60 second window started from no bucket answers exactly
  what the specification answers: a call passes when fewer than its limit of admitted calls
  of the same client lie in the last 60 seconds. The periodic pruning is invisible.\<close>

theorem web_limiter_exact:
  assumes "sorted (t0 # map fst cs)" and "\<forall>c \<in> set cs. ip_call_ok 60 c"
  shows "limiter_run (ip_admit 60) \<lparr>per_ip_buckets = Map.empty, last_prune = t0\<rparr> cs =
    spec_run 60 [] (map (\<lambda>c. (fst c, fst (snd (snd c)), Some (snd (snd (snd c))))) cs)"
  by (rule web_limiter.run_refines [OF _ assms])
    (simp_all add: ip_inv_def lookup_bucket_def bucket_ok_def stamps_of_def)

theorem web_limiter_exact_witness:
  "sorted (0 # map fst [(1, 1, ''a'', 1), (2, 2, ''a'', 1), (3, 4, ''b'', 1), (200, 201, ''a'', 1 :: int)]
     :: rat list) \<and>
   limiter_run (ip_admit 60) \<lparr>per_ip_buckets = Map.empty, last_prune = 0\<rparr>
     [(1, 1, ''a'', 1), (2, 2, ''a'', 1), (3, 4, ''b'', 1), (200, 201, ''a'', 1)] =
   [True, False, True, True]"
  using web_limiter_exact [of 0 "[(1, 1, ''a'', 1), (2, 2, ''a'', 1), (3, 4, ''b'', 1), (200, 201, ''a'', 1)]"]
  by (simp add: ip_call_ok_def Let_def recent_def stamps_of_def)

text \<open>The MCP limiter answers, on every sequence of calls in time order, exactly what the
  specification answers for the limit its plan resolves to: the \<open>unlimited\<close> plan passes
  always and is not counted, every other plan is held to its override or else its plan's
  calls per minute, an override of 0 admitting nothing.\<close>

theorem mcp_limiter_exact:
  assumes "sorted (map fst cs)"
  shows "limiter_run mcp_admit Map.empty cs =
    spec_run 60 [] (map (\<lambda>(now, k, p). (now, k,
      if info_slug p = ''unlimited'' then None
      else Some (case info_rate_limit_override p of None \<Rightarrow> rate_limit_rpm p | Some n \<Rightarrow> n))) cs)"
proof (cases cs)
  case Nil
  then show ?thesis by simp
next
  case (Cons c cs')
  have lim: "(\<lambda>(now, k, p). (now, k, if info_slug p = ''unlimited'' then None
      else Some (case info_rate_limit_override p of None \<Rightarrow> rate_limit_rpm p | Some n \<Rightarrow> n)))
    = (\<lambda>c. (fst c, fst (snd c), mcp_limit c))"
    by (auto simp: fun_eq_iff mcp_limit_def resolve_effective_rpm_def split: option.split)
  have "limiter_run mcp_admit Map.empty cs =
      spec_run 60 [] (map (\<lambda>c. (fst c, fst (snd c), mcp_limit c)) cs)"
    by (rule mcp_limiter.run_refines [where t = "fst c"])
      (use assms Cons in \<open>simp_all add: mcp_inv_def lookup_bucket_def bucket_ok_def stamps_of_def\<close>)
  then show ?thesis by (simp add: lim)
qed

theorem mcp_limiter_exact_witness:
  "limiter_run mcp_admit Map.empty
     (map (\<lambda>t. (t, 7, \<lparr>info_plan_id = 1, info_slug = ''free'', quota_calls_per_month = 9,
        rate_limit_rpm = 2, info_rate_limit_override = None, info_quota_override = None\<rparr>))
      [1, 2, 3, 100]) = [True, True, False, True]"
  using mcp_limiter_exact [of "map (\<lambda>t. (t, 7, \<lparr>info_plan_id = 1, info_slug = ''free'',
      quota_calls_per_month = 9, rate_limit_rpm = 2, info_rate_limit_override = None,
      info_quota_override = None\<rparr>)) [1, 2, 3, 100]"]
  by (simp add: Let_def recent_def stamps_of_def)

end
