(* ===== verification/Webhook.thy ===== *)
theory Webhook
  imports Activation Json Rate_Limit
begin

section \<open>The webhook pipeline (src/billing/webhook_pipeline.py)\<close>

text \<open>
  \<open>run_webhook_pipeline\<close> on one delivery: the rate limit, the signature, the ledger, the
  dispatch to grant, update or revoke, and the classification of errors. The vendor specifics
  are the fields of \<open>webhook_adapter\<close>, as in the code; \<^verbatim>\<open>json.loads\<close> is the
  argument \<open>loads\<close> (None is a decode error). An exception that leaves the pipeline
  (\<open>Inl\<close>) becomes a 500 response of the framework. The vendor's event time is an integer
  with the order of the instants it stands for. The branch on a NULL ledger key is left out: the
  ledger statement always returns its row.
\<close>

datatype action = Grant_action | Update_action | Revoke_action

datatype response =
    Rate_limited
  | Not_configured
  | Invalid_json
  | Invalid_envelope
  | Missing_event_id
  | Parse_error
  | Invalid_signature
  | Duplicate
  | Ignored string
  | Config_error
  | Permanent_error
  | Retry
  | Ok_response action

fun http_status :: "response \<Rightarrow> nat" where
  "http_status Rate_limited = 429"
| "http_status Not_configured = 503"
| "http_status Invalid_json = 400"
| "http_status Invalid_envelope = 400"
| "http_status Missing_event_id = 400"
| "http_status Parse_error = 400"
| "http_status Invalid_signature = 400"
| "http_status Duplicate = 200"
| "http_status (Ignored t) = 200"
| "http_status Config_error = 200"
| "http_status Permanent_error = 200"
| "http_status Retry = 503"
| "http_status (Ok_response a) = 200"

record request =
  headers :: "string \<rightharpoonup> string"
  body :: string

record webhook_adapter =
  ad_vendor :: string
  secret :: "string option"
  tolerance_seconds :: int
  rate_limit_vendor_rpm :: int
  header_id :: string
  header_timestamp :: string
  header_signature :: string
  verify_fn :: "string \<Rightarrow> string \<Rightarrow> string \<Rightarrow> string \<Rightarrow> string \<Rightarrow> int \<Rightarrow> exc + bool"
  parse_event_fn :: "json \<Rightarrow> exc + (string \<times> string \<times> string)"
  event_action_fn :: "string \<Rightarrow> action option"
  resolve_plan_fn :: "json \<Rightarrow> int dbm"
  extract_email_fn :: "json \<Rightarrow> string option"
  map_status_fn :: "json \<Rightarrow> string"
  normalize_interval_fn :: "json \<Rightarrow> string option"
  extract_cancel_at_period_end_fn :: "json \<Rightarrow> bool option"
  watched_event_prefixes :: "string list"
  extract_interval_fn :: "json \<Rightarrow> json"
  extract_seats_fn :: "json \<Rightarrow> exc + int"
  extract_amount_fn :: "json \<Rightarrow> exc + int option"
  extract_currency_fn :: "json \<Rightarrow> string option"
  extract_period_fn :: "json \<Rightarrow> int option \<times> int option \<times> int option"
  extract_event_at_fn :: "(string \<rightharpoonup> string) \<Rightarrow> json \<Rightarrow> int option"

definition lift_sum :: "exc + 'a \<Rightarrow> 'a dbm" where
  "lift_sum r = (\<lambda>s. (r, s))"

definition header :: "request \<Rightarrow> string \<Rightarrow> string" where
  "header req h = (case headers req h of None \<Rightarrow> [] | Some v \<Rightarrow> v)"

text \<open>The event id as the driver writes it to the text column. An object cannot be bound. An array is refused here too; the driver turns it
  into an SQL array and the server may store its text, so a payload whose id is an array is outside the model, and the vendor sends none.\<close>

fun bind_text :: "json \<Rightarrow> exc + string" where
  "bind_text (JStr s) = Inr s"
| "bind_text (JInt i) = Inr (str_int i)"
| "bind_text (JFloat v r) = Inr r"
| "bind_text (JBool b) = Inr (if b then ''true'' else ''false'')"
| "bind_text v = Inl ProgrammingError"

subsection \<open>Dispatch\<close>

definition permanent :: "exc \<Rightarrow> bool" where
  "permanent e = (e \<in> {IntegrityError, UniqueViolation, ValueError})"

record dispatch_args =
  d_action :: action
  d_plan_id :: int
  d_external_ref :: string
  d_payload :: json
  d_data :: json
  d_event_at :: "int option"

definition dispatch_grant :: "webhook_adapter \<Rightarrow> dispatch_args \<Rightarrow> int option dbm" where
  "dispatch_grant ad d =
     bindE (lift_sum (extract_seats_fn ad (d_data d))) (\<lambda>n.
     bindE (lift_sum (extract_amount_fn ad (d_data d))) (\<lambda>amount.
     case extract_period_fn ad (d_data d) of (ps, pe, te) \<Rightarrow>
     bindE (grant_entitlement
              \<lparr>g_plan_id = d_plan_id d, g_external_ref = d_external_ref d, g_source = ad_vendor ad,
               g_seats = n, g_buyer_email = extract_email_fn ad (d_data d), g_amount_cents = amount,
               g_currency = extract_currency_fn ad (d_data d),
               g_billing_interval = normalize_interval_fn ad (extract_interval_fn ad (d_data d)),
               g_period_start = ps, g_period_end = pe, g_trial_ends_at = te\<rparr> (d_event_at d))
       (\<lambda>i. ret (Some i))))"

definition dispatch_update :: "webhook_adapter \<Rightarrow> dispatch_args \<Rightarrow> int option dbm" where
  "dispatch_update ad d =
     bindE (lift_sum (extract_seats_fn ad (d_data d))) (\<lambda>n.
     case extract_period_fn ad (d_data d) of (ps, pe, te) \<Rightarrow>
     bindE (update_entitlement (d_external_ref d)
              \<lparr>u_plan_id = Some (d_plan_id d), u_status = Some (map_status_fn ad (d_payload d)),
               u_seats = Some n, u_period_start = ps, u_period_end = pe, u_trial_ends_at = te,
               u_cancel_at_period_end = extract_cancel_at_period_end_fn ad (d_data d),
               u_event_at = d_event_at d\<rparr>)
       (\<lambda>i. ret (Some i)))"

text \<open>A revoke reads the id of the subscription first; its result is kept for the error path.\<close>

definition dispatch_revoke :: "dispatch_args \<Rightarrow> int option \<Rightarrow> int option dbm" where
  "dispatch_revoke d found = seqE (revoke_entitlement (d_external_ref d) False (d_event_at d)) (ret found)"

definition finish :: "int \<Rightarrow> int option \<Rightarrow> action \<Rightarrow> (int option dbm) \<Rightarrow> response dbm" where
  "finish pk known a act =
     bindE (try_except (bindE act (\<lambda>i. ret (Inr i)))
              (\<lambda>e. Some (ret (Inl e)))) (\<lambda>outcome.
       case outcome of
         Inr i \<Rightarrow> seqE (mark_event_processed pk i None) (ret (Ok_response a))
       | Inl e \<Rightarrow>
           if permanent e
           then seqE (mark_event_processed pk known (Some (Raised e))) (ret Permanent_error)
           else ret Retry)"

definition dispatch :: "webhook_adapter \<Rightarrow> int \<Rightarrow> dispatch_args \<Rightarrow> response dbm" where
  "dispatch ad pk d =
     (case d_action d of
        Grant_action \<Rightarrow> finish pk None Grant_action (dispatch_grant ad d)
      | Update_action \<Rightarrow> finish pk None Update_action (dispatch_update ad d)
      | Revoke_action \<Rightarrow>
          bindE (try_except
                   (bindE (get_by_external_ref (d_external_ref d)) (\<lambda>row. ret (Inr (map_option sub_id row))))
                   (\<lambda>e. Some (ret (Inl e)))) (\<lambda>found.
            case found of
              Inl e \<Rightarrow> finish pk None Revoke_action (raise_exc e)
            | Inr i \<Rightarrow> finish pk i Revoke_action (dispatch_revoke d i)))"

subsection \<open>The pipeline after the rate limit\<close>

definition process_event ::
  "webhook_adapter \<Rightarrow> request \<Rightarrow> int \<Rightarrow> string \<Rightarrow> string \<Rightarrow> json \<Rightarrow> json \<Rightarrow> response dbm" where
  "process_event ad req pk etype ref raw enriched =
     (case event_action_fn ad etype of
        None \<Rightarrow>
          seqE (mark_event_processed pk None
                  (if list_ex (startswith etype) (watched_event_prefixes ad) then Some (Unmapped etype) else None))
            (ret (Ignored etype))
      | Some a \<Rightarrow>
          let args = (\<lambda>p. \<lparr>d_action = a, d_plan_id = p, d_external_ref = ref, d_payload = raw,
                d_data = py_or (obj_get raw ''data'') (JObj []),
                d_event_at = extract_event_at_fn ad (headers req) enriched\<rparr>)
          in if a = Revoke_action then dispatch ad pk (args 0)
             else bindE (try_except (bindE (resolve_plan_fn ad enriched) (\<lambda>p. ret (Some p)))
                           (\<lambda>e. if e = ValueError
                                 then Some (seqE (mark_event_processed pk None (Some (Raised e))) (ret None))
                                 else None)) (\<lambda>plan.
               case plan of None \<Rightarrow> ret Config_error | Some p \<Rightarrow> dispatch ad pk (args p)))"

definition handle_payload ::
  "webhook_adapter \<Rightarrow> request \<Rightarrow> bool \<Rightarrow> string \<Rightarrow> (string \<times> json) list \<Rightarrow> response dbm" where
  "handle_payload ad req sig_ok msg_id ms =
     (let eid = (if msg_id \<noteq> [] then JStr msg_id else members_get ms ''id'') in
      if \<not> truthy eid then ret Missing_event_id
      else
        let enriched = JObj (members_set ms ''id'' eid) in
        case parse_event_fn ad enriched of
          Inl e \<Rightarrow> if e = ValueError then ret Parse_error else raise_exc e
        | Inr (_, etype, ref) \<Rightarrow>
            bindE (lift_sum (bind_text eid)) (\<lambda>eid_text.
            bindE (record_webhook_event (ad_vendor ad) eid_text etype sig_ok) (\<lambda>(pk, is_new, already_processed).
              if \<not> sig_ok then ret Invalid_signature
              else if already_processed then ret Duplicate
              else process_event ad req pk etype ref (JObj ms) enriched)))"

definition handle_delivery ::
  "(string \<Rightarrow> json option) \<Rightarrow> webhook_adapter \<Rightarrow> request \<Rightarrow> response dbm" where
  "handle_delivery loads ad req =
     (case secret ad of
        None \<Rightarrow> ret Not_configured
      | Some sec \<Rightarrow>
          if sec = [] then ret Not_configured
          else
            let msg_id = header req (header_id ad) in
            bindE (lift_sum (verify_fn ad sec msg_id (header req (header_timestamp ad)) (body req)
                     (header req (header_signature ad)) (tolerance_seconds ad))) (\<lambda>sig_ok.
              case loads (body req) of
                None \<Rightarrow> ret Invalid_json
              | Some (JObj ms) \<Rightarrow> handle_payload ad req sig_ok msg_id ms
              | Some _ \<Rightarrow> ret Invalid_envelope))"

text \<open>The whole pipeline: the limiter state, then the database.\<close>

definition run_webhook_pipeline ::
  "(string \<Rightarrow> json option) \<Rightarrow> webhook_adapter \<Rightarrow> request \<Rightarrow> rat \<Rightarrow> rat \<Rightarrow> ip_limiter \<Rightarrow> db \<Rightarrow>
     (exc + response) \<times> ip_limiter \<times> db" where
  "run_webhook_pipeline loads ad req now now' st s =
     (case check_ip_rate_limit now now' (''vendor:'' @ ad_vendor ad) (rate_limit_vendor_rpm ad) 60 st of
        (allowed, st') \<Rightarrow>
          if \<not> allowed then (Inr Rate_limited, st', s)
          else (case handle_delivery loads ad req s of (r, s') \<Rightarrow> (r, st', s')))"

subsection \<open>The ledger\<close>

definition ledger_row :: "db \<Rightarrow> string \<Rightarrow> string \<Rightarrow> webhook_event option" where
  "ledger_row s v eid = find (\<lambda>e. vendor e = v \<and> event_id e = eid) (events s)"

lemma wf_db_events:
  assumes "wf_db s" and "map event_pk es = map event_pk (events s)"
    and "map (\<lambda>e. (vendor e, event_id e)) es = map (\<lambda>e. (vendor e, event_id e)) (events s)"
  shows "wf_db (s\<lparr>events := es\<rparr>)"
proof -
  have "sub_ok (s\<lparr>events := es\<rparr>) r = sub_ok s r" for r by (rule sub_ok_cong) auto
  moreover have "event_pk ` set es = event_pk ` set (events s)" using assms(2) by (metis set_map)
  then have "\<forall>e \<in> set es. event_pk e \<le> event_seq s"
    using assms(1) by (metis (no_types, lifting) image_iff wf_db_def wf_events_def)
  ultimately show ?thesis using assms by (simp add: wf_defs)
qed

lemma wf_db_event_snoc:
  assumes "wf_db s" and "event_pk e = event_seq s + 1"
    and "(vendor e, event_id e) \<notin> (\<lambda>e. (vendor e, event_id e)) ` set (events s)"
  shows "wf_db (s\<lparr>event_seq := event_seq s + 1, events := events s @ [e]\<rparr>)"
proof -
  have "sub_ok (s\<lparr>event_seq := n, events := es\<rparr>) r = sub_ok s r" for n es r by (rule sub_ok_cong) auto
  moreover have "event_pk e \<notin> event_pk ` set (events s)"
    using assms(1,2) by (force simp: wf_defs)
  ultimately show ?thesis using assms by (auto simp: wf_defs)
qed

lemma side_mark_event [pres_intros]: "steps side_step (mark_event_processed pk i err)"
  unfolding mark_event_processed_def
  by (intro side.steps_txn side.steps_modify)
    (auto simp: side_step_def same_config_def intro!: wf_db_events)

lemma side_record_event [pres_intros]: "steps side_step (record_webhook_event v eid t ok)"
  unfolding record_webhook_event_def
proof (intro side.steps_txn steps_sideI, goal_cases)
  case (1 s)
  let ?e = "\<lparr>event_pk = event_seq s + 1, vendor = v, event_id = eid, event_type = t, signature_valid = ok,
    processed_at = None, processing_error = None, event_subscription_id = None\<rparr>"
  have "wf_db (s\<lparr>event_seq := event_seq s + 1, events := events s @ [?e]\<rparr>)"
    if "find (\<lambda>e. vendor e = v \<and> event_id e = eid) (events s) = None"
    by (rule wf_db_event_snoc [OF 1]) (use that in \<open>auto simp: find_None_iff\<close>)
  with wf_db_event_seq [OF 1] show ?case
    by (auto simp: Let_def same_config_def split: option.split)
qed

lemma keeps_ledger [pres_intros]:
  "steps same_keys (mark_event_processed pk i err)" "steps same_keys (record_webhook_event v eid t ok)"
  unfolding mark_event_processed_def record_webhook_event_def
  by (intro same_keys.steps_txn same_keys.steps_modify stepsI;
      auto simp: same_keys_def Let_def split: if_splits option.splits)+

text \<open>A recorded delivery: the row of the event exists and nothing else in the ledger moved.\<close>

lemma record_event_run:
  assumes "record_webhook_event v eid t ok s = (Inr (pk, new, done), s')" and wf: "wf_db s"
  shows "\<exists>e. ledger_row s' v eid = Some e \<and> event_pk e = pk \<and> (done \<longleftrightarrow> processed_at e \<noteq> None) \<and>
    (new \<longleftrightarrow> ledger_row s v eid = None) \<and> (ledger_row s v eid \<noteq> None \<longrightarrow> ledger_row s v eid = Some e)"
  using assms unfolding record_webhook_event_def
  by (auto elim!: txn_InrE simp: Let_def ledger_row_def find_append split: if_splits option.splits)

lemma record_event_rows:
  assumes "record_webhook_event v eid t ok s = (res, s')"
  shows "\<exists>new. events s' = events s @ new \<and> (\<forall>e \<in> set new. processed_at e = None)"
  using assms unfolding record_webhook_event_def
  by (auto elim!: txn_stateE simp: Let_def split: if_splits option.splits)

subsection \<open>What a delivery may change\<close>

text \<open>The law an adapter owes the pipeline: resolving a plan only reads.\<close>

locale vendor_adapter =
  fixes ad :: webhook_adapter
  assumes resolve_reads: "steps same_tables (resolve_plan_fn ad p)"
begin

lemma rows_ok_lift [pres_intros]: "steps (rows_step row_ok) (lift_sum r)"
  by (rule stepsI) (simp add: lift_sum_def rows_ok.step_refl)

lemma rows_ok_finish:
  "steps (rows_step row_ok) act \<Longrightarrow> steps (rows_step row_ok) (finish pk known a act)"
  unfolding finish_def
  by (intro rows_ok.steps_bind rows_ok.steps_try)
    (auto intro!: rows_ok.steps_bind rows_ok.steps_seq rows_ok.steps_ret rows_ok_side [OF side_mark_event]
       split: sum.split)

lemma rows_ok_dispatch: "steps (rows_step row_ok) (dispatch ad pk d)"
proof -
  have "steps (rows_step row_ok) (dispatch_grant ad d)"
    unfolding dispatch_grant_def
    by (intro rows_ok.steps_bind rows_ok_lift rows_ok.steps_case_prod rows_ok_grant rows_ok.steps_ret)
  moreover have "steps (rows_step row_ok) (dispatch_update ad d)"
    unfolding dispatch_update_def
    by (intro rows_ok.steps_bind rows_ok_lift rows_ok.steps_case_prod rows_ok_update rows_ok.steps_ret)
  moreover have "steps (rows_step row_ok) (dispatch_revoke d i)" for i
    unfolding dispatch_revoke_def
    by (intro rows_ok.steps_seq rows_ok_revoke rows_ok.steps_ret)
  ultimately show ?thesis
    unfolding dispatch_def
    by (auto intro!: rows_ok_finish rows_ok.steps_bind rows_ok.steps_try rows_ok.steps_ret rows_ok.steps_raise
        rows_ok_reading [OF reads_plan_checks(6)] split: action.split sum.split)
qed

lemma rows_ok_process_event: "steps (rows_step row_ok) (process_event ad req pk etype ref raw enr)"
  unfolding process_event_def Let_def
  by (auto intro!: rows_ok.steps_bind rows_ok.steps_try rows_ok.steps_seq rows_ok.steps_ret rows_ok_dispatch
      rows_ok_reading [OF resolve_reads] rows_ok_side [OF side_mark_event] split: option.splits if_splits)

lemma rows_ok_handle_delivery: "steps (rows_step row_ok) (handle_delivery loads ad req)"
proof -
  have "steps (rows_step row_ok) (handle_payload ad req ok m ms)" for ok m ms
    unfolding handle_payload_def Let_def
    by (auto intro!: rows_ok.steps_bind rows_ok.steps_ret rows_ok.steps_raise rows_ok_lift rows_ok_process_event
        rows_ok_side [OF side_record_event] split: sum.split prod.split)
  then show ?thesis
    unfolding handle_delivery_def Let_def
    by (auto intro!: rows_ok.steps_bind rows_ok.steps_ret rows_ok_lift split: option.split json.split)
qed

end

subsection \<open>Handlers leave the ledger to the pipeline\<close>

definition same_events :: "db \<Rightarrow> db \<Rightarrow> bool" where
  "same_events s s' \<longleftrightarrow> events s' = events s \<and> event_seq s' = event_seq s"

interpretation same_events: db_stepwise same_events
  by unfold_locales (auto simp: same_events_def)

lemma same_events_txnI: "(\<And>s. events (snd (op s)) = events s \<and> event_seq (snd (op s)) = event_seq s) \<Longrightarrow> steps same_events (txn op)"
  by (rule same_events.steps_txn) (simp add: steps_def same_events_def)

lemma events_stores [pres_intros]:
  "steps same_events (update_subs c f)" "steps same_events (upsert_by_external_ref ex)"
  "steps same_events (set_api_key_plan_and_overrides k p rl q b1 b2)" "steps same_events (create_api_key l u t)"
  "steps same_events (deactivate_api_key k)"
  unfolding update_subs_def upsert_by_external_ref_def upsert_stmt_def set_api_key_plan_and_overrides_def
    create_api_key_def deactivate_api_key_def
  by (rule same_events_txnI; simp add: Let_def modify_def split: option.split)+

lemma events_tenants [pres_intros]:
  "steps same_events (create_tenant nm)" "steps same_events (add_tenant_member u t role)"
  unfolding create_tenant_def add_tenant_member_def
  by (intro same_events.steps_if same_events.steps_raise same_events_txnI; simp add: Let_def)+

lemma events_reading: "steps same_tables m \<Longrightarrow> steps same_events m"
  by (erule steps_mono) (auto simp: same_tables_def same_events_def)

lemma events_invalidate [pres_intros]: "steps same_events (invalidate_plan_cache k)"
  unfolding invalidate_plan_cache_def by (rule same_events.steps_modify) (simp add: same_events_def)

lemma events_rows [pres_intros]:
  "steps same_events (update_fields i cs)" "steps same_events (claim_unclaimed_for_user i u)"
  "steps same_events (link_to_user i u)" "steps same_events (link_to_api_key i k)"
  "steps same_events (link_to_tenant i t)" "steps same_events (mark_cancelled i)"
  "steps same_events (schedule_cancellation i)"
  unfolding update_fields_def claim_unclaimed_for_user_def link_to_user_def link_to_api_key_def link_to_tenant_def
    mark_cancelled_def schedule_cancellation_def
  by (intro pres_intros)+

lemma events_keys [pres_intros]:
  "steps same_events (upgrade_key k p)" "steps same_events (mint_key i u p)"
  "steps same_events (downgrade_key_to_free k)" "steps same_events (repoint_key k q c)"
  unfolding upgrade_key_def mint_key_def downgrade_key_to_free_def repoint_key_def
  by (intro pres_intros events_reading [OF reads_username_for] events_reading [OF reads_mint_tenant]
      events_reading [OF reads_free_plan] events_reading [OF reads_plan_checks(1)]
      events_reading [OF reads_plan_checks(2)] events_reading [OF reads_plan_checks(3)])+

lemma events_seats [pres_intros]: "steps same_events (provision_seats i u n)"
  unfolding provision_seats_def ensure_tenant_def
  by (intro pres_intros) (auto intro!: pres_intros split: if_splits)

lemma events_provision [pres_intros]: "steps same_events (provision_or_upgrade i u)"
  unfolding provision_defs get_by_id_def list_api_keys_of_user_def by (intro pres_intros)

lemma events_grant [pres_intros]: "steps same_events (grant_entitlement g ev)"
proof -
  have "steps same_events (claim_at_grant i addr)" for i addr
    unfolding claim_at_grant_def
    by (intro pres_intros events_reading [OF reads_plan_checks(5)] events_reading [OF reads_plan_checks(7)])
      (auto intro!: pres_intros split: exc.splits)
  then show ?thesis
    unfolding grant_entitlement_def
    by (intro same_events.steps_seq same_events.steps_bind same_events.steps_case_option same_events.steps_if
        same_events.steps_ret events_stores events_reading [OF reads_plan_checks(4)])
qed

lemma events_update [pres_intros]: "steps same_events (update_entitlement ref u)"
  unfolding update_entitlement_def update_entitlement_row_def
  by (intro pres_intros events_reading [OF reads_plan_checks(6)]) (auto intro!: pres_intros split: if_splits)

lemma events_revoke [pres_intros]: "steps same_events (revoke_entitlement ref v ev)"
  unfolding revoke_entitlement_def revoke_entitlement_row_def
  by (intro pres_intros events_reading [OF reads_plan_checks(6)])

subsection \<open>Outcomes of a delivery\<close>

definition inert :: "db \<Rightarrow> db \<Rightarrow> bool" where
  "inert s s' \<longleftrightarrow> subs s' = subs s \<and> api_keys s' = api_keys s \<and> plan_cache s' = plan_cache s \<and>
     (\<exists>new. events s' = events s @ new \<and> (\<forall>e \<in> set new. processed_at e = None))"

lemma inert_refl [simp]: "inert s s"
  by (simp add: inert_def)

lemma inert_record: "record_webhook_event v eid t ok s = (r, s') \<Longrightarrow> inert s s'"
proof -
  assume run: "record_webhook_event v eid t ok s = (r, s')"
  have "subs s' = subs s"
    using run unfolding record_webhook_event_def
    by (auto elim!: txn_stateE simp: Let_def split: if_splits option.splits)
  with record_event_rows [OF run] stepsD [OF keeps_ledger(2) run] show ?thesis
    by (simp add: inert_def same_keys_def)
qed

text \<open>How the steps before the dispatch end.\<close>

lemma handle_payload_cases:
  assumes "handle_payload ad req ok m ms s = (r, s')"
  obtains "s' = s" "\<forall>a. r \<noteq> Inr (Ok_response a)" "r \<noteq> Inr Retry"
    | eid t ref q where "bind_text (if m \<noteq> [] then JStr m else members_get ms ''id'') = Inr eid"
        "record_webhook_event (ad_vendor ad) eid t ok s = (q, s')"
        "\<forall>a. r \<noteq> Inr (Ok_response a)" "r \<noteq> Inr Retry"
    | eid t ref pk new s1 where "bind_text (if m \<noteq> [] then JStr m else members_get ms ''id'') = Inr eid"
        "record_webhook_event (ad_vendor ad) eid t ok s = (Inr (pk, new, False), s1)" "ok"
        "process_event ad req pk t ref (JObj ms)
           (JObj (members_set ms ''id'' (if m \<noteq> [] then JStr m else members_get ms ''id''))) s1 = (r, s')"
  using assms that unfolding handle_payload_def Let_def
  by (auto simp: ret_def raise_exc_def lift_sum_def elim!: bindE_cases split: if_splits sum.splits prod.splits)

lemma handle_delivery_cases:
  assumes "handle_delivery loads ad req s = (r, s')"
  obtains "s' = s" "\<forall>a. r \<noteq> Inr (Ok_response a)" "r \<noteq> Inr Retry"
    | sec ok ms where "secret ad = Some sec"
        "verify_fn ad sec (header req (header_id ad)) (header req (header_timestamp ad)) (body req)
           (header req (header_signature ad)) (tolerance_seconds ad) = Inr ok"
        "loads (body req) = Some (JObj ms)"
        "handle_payload ad req ok (header req (header_id ad)) ms s = (r, s')"
  using assms that unfolding handle_delivery_def Let_def
  by (auto simp: ret_def lift_sum_def elim!: bindE_cases split: if_splits option.splits json.splits)

lemma pipeline_cases:
  assumes "run_webhook_pipeline loads ad req now now' st s = (r, st', s')"
  obtains "s' = s" "r = Inr Rate_limited" | "handle_delivery loads ad req s = (r, s')"
  using assms that unfolding run_webhook_pipeline_def by (auto split: prod.splits if_splits)

lemma find_map_keep:
  "(\<And>x. P (f x) = P x) \<Longrightarrow> find P (map f xs) = map_option f (find P xs)"
  by (induction xs) auto

lemma mark_event_run:
  assumes "mark_event_processed pk i err s = (Inr (), s')" and "ledger_row s v eid = Some e" and "event_pk e = pk"
  shows "\<exists>e'. ledger_row s' v eid = Some e' \<and> processed_at e' \<noteq> None \<and> processing_error e' = err"
proof -
  from assms(1) have "events s' = map (\<lambda>e. if event_pk e = pk
     then e\<lparr>processed_at := Some (clock s), event_subscription_id := i, processing_error := err\<rparr> else e) (events s)"
    unfolding mark_event_processed_def by (auto elim!: txn_InrE simp: modify_def cong: if_cong)
  then have "ledger_row s' v eid = map_option (\<lambda>e. if event_pk e = pk
     then e\<lparr>processed_at := Some (clock s), event_subscription_id := i, processing_error := err\<rparr> else e) (ledger_row s v eid)"
    unfolding ledger_row_def by (simp add: find_map_keep)
  with assms(2,3) show ?thesis by simp
qed

lemma ledger_row_same: "same_events s s' \<Longrightarrow> ledger_row s' v eid = ledger_row s v eid"
  by (simp add: ledger_row_def same_events_def)

definition settled :: "(exc + response) \<Rightarrow> webhook_event option \<Rightarrow> bool" where
  "settled r row \<longleftrightarrow>
     (r = Inr Retry \<longrightarrow> (\<exists>e. row = Some e \<and> processed_at e = None)) \<and>
     (\<forall>a. r = Inr (Ok_response a) \<longrightarrow> (\<exists>e. row = Some e \<and> processed_at e \<noteq> None \<and> processing_error e = None))"

lemma finish_settled:
  assumes run: "finish pk known a act s = (r, s')" and act: "steps same_events act"
    and row: "ledger_row s v eid = Some e" "event_pk e = pk" "processed_at e = None"
  shows "settled r (ledger_row s' v eid)"
proof -
  obtain q s1 where q: "act s = (q, s1)" by fastforce
  have row1: "ledger_row s1 v eid = Some e" using ledger_row_same [OF stepsD [OF act q]] row(1) by simp
  show ?thesis
  proof (cases q)
    case (Inr i)
    with run q have "seqE (mark_event_processed pk i None) (ret (Ok_response a)) s1 = (r, s')"
      by (simp add: finish_def bindE_def try_except_def ret_def)
    then show ?thesis
      by (cases rule: seqE_cases) (use mark_event_run [OF _ row1 row(2)] in \<open>auto simp: ret_def settled_def\<close>)
  next
    case (Inl x)
    with run q have "(if permanent x then seqE (mark_event_processed pk known (Some (Raised x))) (ret Permanent_error)
        else ret Retry) s1 = (r, s')"
      by (simp add: finish_def bindE_def try_except_def ret_def)
    with row1 row(3) show ?thesis
      by (auto simp: settled_def ret_def elim!: seqE_cases split: if_splits)
  qed
qed

context vendor_adapter
begin

lemma events_lift: "steps same_events (lift_sum r)"
  by (rule stepsI) (simp add: lift_sum_def same_events.step_refl)

lemma events_dispatch:
  "steps same_events (dispatch_grant ad d)" "steps same_events (dispatch_update ad d)"
  "steps same_events (dispatch_revoke d i)"
  unfolding dispatch_grant_def dispatch_update_def dispatch_revoke_def
  by (intro same_events.steps_bind same_events.steps_seq events_lift same_events.steps_case_prod events_grant
      events_update events_revoke same_events.steps_ret)+

lemma dispatch_settled:
  assumes run: "dispatch ad pk d s = (r, s')"
    and row: "ledger_row s v eid = Some e" "event_pk e = pk" "processed_at e = None"
  shows "settled r (ledger_row s' v eid)"
proof (cases "d_action d")
  case Grant_action
  with run show ?thesis by (auto simp: dispatch_def intro: finish_settled [OF _ events_dispatch(1) row])
next
  case Update_action
  with run show ?thesis by (auto simp: dispatch_def intro: finish_settled [OF _ events_dispatch(2) row])
next
  case Revoke_action
  let ?get = "bindE (get_by_external_ref (d_external_ref d)) (\<lambda>row. ret (Inr (map_option sub_id row)))"
  obtain q s1 where q: "try_except ?get (\<lambda>e. Some (ret (Inl e))) s = (q, s1)" by fastforce
  have "steps same_events (try_except ?get (\<lambda>e. Some (ret (Inl e))))"
    by (auto intro!: same_events.steps_try same_events.steps_bind same_events.steps_ret
        events_reading [OF reads_plan_checks(6)])
  from ledger_row_same [OF stepsD [OF this q]] row(1) have row1: "ledger_row s1 v eid = Some e" by simp
  have "\<exists>f. q = Inr f"
    using q by (auto simp: try_except_def bindE_def ret_def split: prod.splits sum.splits)
  then obtain f where f: "q = Inr f" ..
  with run q Revoke_action have "(case f of Inl e \<Rightarrow> finish pk None Revoke_action (raise_exc e)
      | Inr i \<Rightarrow> finish pk i Revoke_action (dispatch_revoke d i)) s1 = (r, s')"
    by (simp add: dispatch_def bindE_def)
  then show ?thesis
    by (cases f) (auto intro: finish_settled [OF _ same_events.steps_raise row1 row(2,3)]
        finish_settled [OF _ events_dispatch(3) row1 row(2,3)])
qed

lemma process_settled:
  assumes run: "process_event ad req pk t ref raw enr s = (r, s')"
    and row: "ledger_row s v eid = Some e" "event_pk e = pk" "processed_at e = None"
  shows "settled r (ledger_row s' v eid)"
proof (cases "event_action_fn ad t")
  case None
  with run show ?thesis by (auto simp: process_event_def settled_def ret_def elim!: seqE_cases)
next
  case (Some a)
  show ?thesis
  proof (cases "a = Revoke_action")
    case True
    with run Some show ?thesis by (auto simp: process_event_def Let_def intro: dispatch_settled [OF _ row])
  next
    case False
    let ?res = "try_except (bindE (resolve_plan_fn ad enr) (\<lambda>p. ret (Some p)))
      (\<lambda>e. if e = ValueError then Some (seqE (mark_event_processed pk None (Some (Raised e))) (ret None)) else None)"
    obtain q s1 where q: "?res s = (q, s1)" by fastforce
    have "same_events s s1" if "q = Inr (Some p)" for p
    proof -
      from q that have "resolve_plan_fn ad enr s = (Inr p, s1)"
        by (auto simp: try_except_def bindE_def seqE_def ret_def split: prod.splits sum.splits if_splits)
      then show ?thesis by (rule stepsD [OF events_reading [OF resolve_reads]])
    qed
    then have row1: "ledger_row s1 v eid = Some e" if "q = Inr (Some p)" for p
      using ledger_row_same row(1) that by metis
    from run Some False q show ?thesis
      by (auto simp: process_event_def Let_def bindE_def ret_def settled_def [of "Inl _"]
          settled_def [of "Inr Config_error"] dest!: row1 intro: dispatch_settled [OF _ _ row(2,3)]
          split: sum.splits option.splits)
  qed
qed

lemma delivery_settled:
  assumes run: "run_webhook_pipeline loads ad req now now' st s = (r, st', s')" and wf: "wf_db s"
    and eid: "header req (header_id ad) \<noteq> []"
  shows "settled r (ledger_row s' (ad_vendor ad) (header req (header_id ad)))"
  using run
proof (cases rule: pipeline_cases)
  case 1
  then show ?thesis by (simp add: settled_def)
next
  case 2
  then show ?thesis
  proof (cases rule: handle_delivery_cases)
    case 1
    then show ?thesis by (simp add: settled_def)
  next
    case (2 sec ok ms)
    from 2(4) show ?thesis
    proof (cases rule: handle_payload_cases)
      case (3 eid' t ref pk new s1)
      from 3(1) eid have "eid' = header req (header_id ad)" by simp
      with record_event_run [OF 3(2) wf] 3(4) show ?thesis by (auto intro: process_settled)
    qed (auto simp: settled_def)
  qed
qed

end

end
