(* ===== verification/Polar.thy ===== *)
theory Polar
  imports Webhook
begin

section \<open>The Polar adapter (src/billing/polar.py, src/web_ui/routes/webhooks.py)\<close>

text \<open>
  What is specific to Polar: the signature check, the event and status maps, the payload
  extractors and the plan resolution, bound to the pipeline as \<open>polar_adapter\<close>. What
  the code takes from the standard library's codecs is the record \<open>runtime\<close>: base64
  decoding, the base64 HMAC-SHA256, the two date parsers and the clock. Upper and lower case are
  those of ASCII.
\<close>

record runtime =
  b64decode :: "string \<Rightarrow> string option"
  hmac_b64 :: "string \<Rightarrow> string \<Rightarrow> string"
  fromisoformat :: "string \<Rightarrow> int option"
  fromtimestamp :: "rat \<Rightarrow> int option"
  now_seconds :: rat
  polar_secret :: "string option"
  webhook_tolerance :: "int option"
  webhook_rate_limit :: "int option"

subsection \<open>Signature\<close>

text \<open>\<^verbatim>\<open>str.encode()\<close> (UTF-8) on code points below 256.\<close>

definition utf8 :: "string \<Rightarrow> string" where
  "utf8 s = concat (map (\<lambda>c. let n = char_code c in
     if n < 128 then [c] else [char_of (192 + n div 64), char_of (128 + n mod 64)]) s)"

definition is_ascii :: "string \<Rightarrow> bool" where
  "is_ascii s = list_all (\<lambda>c. char_code c < 128) s"

text \<open>\<^verbatim>\<open>str.split()\<close>: the maximal runs without whitespace.\<close>

fun split_ws :: "string \<Rightarrow> string \<Rightarrow> string list" where
  "split_ws acc [] = (if acc = [] then [] else [rev acc])"
| "split_ws acc (c # cs) =
     (if is_space c then (if acc = [] then split_ws [] cs else rev acc # split_ws [] cs)
      else split_ws (c # acc) cs)"

definition words :: "string \<Rightarrow> string list" where
  "words s = split_ws [] s"

text \<open>The text before and after the first comma (\<^verbatim>\<open>partition\<close>).\<close>

definition partition_comma :: "string \<Rightarrow> string \<times> string" where
  "partition_comma s = (takeWhile (\<lambda>c. c \<noteq> CHR '','') s, drop 1 (dropWhile (\<lambda>c. c \<noteq> CHR '','') s))"

text \<open>\<^verbatim>\<open>hmac.compare_digest\<close> on two \<^verbatim>\<open>str\<close> raises \<^verbatim>\<open>TypeError\<close> unless both are ASCII.\<close>

fun match_tokens :: "string \<Rightarrow> string list \<Rightarrow> exc + bool" where
  "match_tokens expected [] = Inr False"
| "match_tokens expected (t # ts) =
     (case partition_comma t of (version, sig) \<Rightarrow>
        if version = ''v1''
        then if \<not> (is_ascii sig \<and> is_ascii expected) then Inl TypeError
             else if sig = expected then Inr True else match_tokens expected ts
        else match_tokens expected ts)"

text \<open>Integers from this size on do not convert to a float.\<close>

definition float_limit :: int where
  "float_limit = 2 ^ 1024 - 2 ^ 970"

definition secret_bytes :: "runtime \<Rightarrow> string \<Rightarrow> string option" where
  "secret_bytes rt sec =
     (if startswith sec ''whsec_'' then b64decode rt (drop 6 sec @ ''='' @ ''='') else Some (utf8 sec))"

definition verify_signature ::
  "runtime \<Rightarrow> string \<Rightarrow> string \<Rightarrow> string \<Rightarrow> string \<Rightarrow> string \<Rightarrow> int \<Rightarrow> exc + bool" where
  "verify_signature rt sec msg_id timestamp bdy signature_header tol =
     (if sec = [] then Inr False
      else case secret_bytes rt sec of
        None \<Rightarrow> Inr False
      | Some key \<Rightarrow>
          (case py_int timestamp of
             None \<Rightarrow> Inr False
           | Some ts \<Rightarrow>
               if \<bar>ts\<bar> \<ge> float_limit then Inl OverflowError
               else if \<bar>now_seconds rt - of_int ts\<bar> > of_int tol then Inr False
               else if signature_header = [] then Inr False
               else match_tokens
                      (hmac_b64 rt key (utf8 (msg_id @ ''.'' @ timestamp) @ ''.'' @ bdy))
                      (words signature_header)))"

subsection \<open>Events\<close>

definition EVENT_STATUS_MAP :: "(string \<times> action) list" where
  "EVENT_STATUS_MAP =
     [(''subscription.created'', Grant_action), (''subscription.active'', Grant_action),
      (''order.paid'', Grant_action),
      (''subscription.updated'', Update_action), (''subscription.past_due'', Update_action),
      (''subscription.uncanceled'', Update_action),
      (''subscription.canceled'', Revoke_action), (''subscription.revoked'', Revoke_action),
      (''order.refunded'', Revoke_action)]"

definition BILLING_INTERVAL_MAP :: "(string \<times> string) list" where
  "BILLING_INTERVAL_MAP =
     [(''month'', ''monthly''), (''monthly'', ''monthly''), (''year'', ''annual''), (''annual'', ''annual''),
      (''yearly'', ''annual''), (''day'', ''monthly''), (''daily'', ''monthly''), (''week'', ''monthly''),
      (''weekly'', ''monthly''), (''one_time'', ''one_time''), (''one-time'', ''one_time''),
      (''onetime'', ''one_time''), (''free'', ''free'')]"

definition STATUS_MAP :: "(string \<times> string) list" where
  "STATUS_MAP =
     [(''active'', ''active''), (''incomplete'', ''pending''), (''incomplete_expired'', ''expired''),
      (''trialing'', ''trialing''), (''trial'', ''trialing''), (''past_due'', ''past_due''),
      (''unpaid'', ''expired''), (''canceled'', ''cancelled''), (''cancelled'', ''cancelled''),
      (''revoked'', ''cancelled''), (''expired'', ''expired''), (''ended'', ''expired''),
      (''refunded'', ''refunded''), (''pending'', ''pending'')]"

fun normalize_billing_interval :: "json \<Rightarrow> string option" where
  "normalize_billing_interval (JStr s) =
     (let token = to_lower (strip s) in
      if token = [] then Some ''one_time'' else map_of BILLING_INTERVAL_MAP token)"
| "normalize_billing_interval v = Some ''one_time''"

definition map_subscription_status :: "json \<Rightarrow> string" where
  "map_subscription_status payload =
     (case obj_get (obj_get payload ''data'') ''status'' of
        JStr raw \<Rightarrow> (case map_of STATUS_MAP (to_lower (strip raw)) of None \<Rightarrow> ''active'' | Some st \<Rightarrow> st)
      | _ \<Rightarrow> ''active'')"

definition parse_event :: "json \<Rightarrow> exc + (string \<times> string \<times> string)" where
  "parse_event payload =
     (let etype = obj_get payload ''type'';
          eid = py_or (py_or (obj_get payload ''id'') (obj_get payload ''webhook_id'')) (JStr []);
          data = obj_get payload ''data''
      in if \<not> truthy etype then Inl ValueError
         else if \<not> truthy eid then Inl ValueError
         else if \<not> is_obj data then Inl ValueError
         else if \<not> truthy (obj_get data ''id'') then Inl ValueError
         else Inr (py_str eid, py_str etype, py_str (obj_get data ''id'')))"

subsection \<open>Plan resolution\<close>

definition extract_product_id :: "json \<Rightarrow> json" where
  "extract_product_id data =
     (if truthy (obj_get data ''product_id'') then obj_get data ''product_id''
      else if truthy (obj_get (obj_get data ''product'') ''id'') then obj_get (obj_get data ''product'') ''id''
      else JNull)"

definition slug_to_plan_id :: "string \<Rightarrow> db \<Rightarrow> exc + int" where
  "slug_to_plan_id sl s = (case find (\<lambda>p. slug p = sl) (plans s) of None \<Rightarrow> Inl ValueError | Some p \<Rightarrow> Inr (plan_pk p))"

definition resolve_with_conn :: "json \<Rightarrow> db \<Rightarrow> exc + int" where
  "resolve_with_conn product_id s =
     (case map_of (polar_product_map (settings s)) (py_str product_id) of
        None \<Rightarrow> Inl ValueError
      | Some sl \<Rightarrow> if sl = [] then Inl ValueError else slug_to_plan_id sl s)"

definition resolve_plan_id :: "json \<Rightarrow> int dbm" where
  "resolve_plan_id payload =
     (let data = obj_get payload ''data'' in
      if \<not> is_obj data then raise_exc ValueError
      else let product_id = extract_product_id data in
        if \<not> truthy product_id then raise_exc ValueError
        else txn (\<lambda>s. (resolve_with_conn product_id s, s)))"

subsection \<open>Payload extractors\<close>

definition extract_buyer_email :: "json \<Rightarrow> string option" where
  "extract_buyer_email data =
     (if truthy (obj_get (obj_get data ''customer'') ''email'')
      then Some (py_str (obj_get (obj_get data ''customer'') ''email''))
      else if truthy (obj_get data ''customer_email'') then Some (py_str (obj_get data ''customer_email''))
      else if truthy (obj_get (obj_get data ''user'') ''email'')
      then Some (py_str (obj_get (obj_get data ''user'') ''email''))
      else None)"

definition extract_cancel_at_period_end :: "json \<Rightarrow> bool option" where
  "extract_cancel_at_period_end data =
     (case obj_get data ''cancel_at_period_end'' of JNull \<Rightarrow> None | v \<Rightarrow> Some (truthy v))"

definition or_key :: "json \<Rightarrow> string \<Rightarrow> string \<Rightarrow> json" where
  "or_key data k k2 = (if obj_get data k = JNull then obj_get data k2 else obj_get data k)"

definition extract_seats :: "json \<Rightarrow> exc + int" where
  "extract_seats data =
     (case py_int_of (or_key data ''seats'' ''quantity'') of
        Int_ok n \<Rightarrow> Inr (if n > 0 then n else 1)
      | Int_rejected \<Rightarrow> Inr 1
      | Int_overflow \<Rightarrow> Inl OverflowError)"

definition extract_amount :: "json \<Rightarrow> exc + int option" where
  "extract_amount data =
     (if obj_get data ''amount'' = JNull then Inr None
      else case py_int_of (obj_get data ''amount'') of
        Int_ok n \<Rightarrow> Inr (Some n)
      | Int_rejected \<Rightarrow> Inr None
      | Int_overflow \<Rightarrow> Inl OverflowError)"

definition extract_interval :: "json \<Rightarrow> json" where
  "extract_interval data =
     (if obj_get data ''recurring_interval'' = JNull
      then obj_get (obj_get data ''price'') ''recurring_interval''
      else obj_get data ''recurring_interval'')"

definition is_lower :: "char \<Rightarrow> bool" where
  "is_lower c = (97 \<le> char_code c \<and> char_code c \<le> 122)"

definition to_upper :: "string \<Rightarrow> string" where
  "to_upper = map (\<lambda>c. if is_lower c then char_of (char_code c - 32) else c)"

definition extract_currency :: "json \<Rightarrow> string option" where
  "extract_currency data =
     (case obj_get data ''currency'' of
        JStr raw \<Rightarrow>
          let cur = to_upper (strip raw) in
          if length cur = 3 \<and> list_all (\<lambda>c. is_upper c \<or> is_lower c) cur then Some cur else None
      | _ \<Rightarrow> None)"

definition parse_ts :: "runtime \<Rightarrow> json \<Rightarrow> int option" where
  "parse_ts rt v =
     (case v of
        JBool b \<Rightarrow> fromtimestamp rt (if b then 1 else 0)
      | JInt i \<Rightarrow> fromtimestamp rt (of_int i)
      | JFloat (Finite r) _ \<Rightarrow> fromtimestamp rt r
      | JStr raw \<Rightarrow>
          let s = strip raw in
          if s = [] then None
          else fromisoformat rt (if endswith s ''Z'' then butlast s @ ''+00:00'' else s)
      | _ \<Rightarrow> None)"

definition extract_period :: "runtime \<Rightarrow> json \<Rightarrow> int option \<times> int option \<times> int option" where
  "extract_period rt data =
     (parse_ts rt (obj_get data ''current_period_start''), parse_ts rt (obj_get data ''current_period_end''),
      parse_ts rt (obj_get data ''trial_ends_at''))"

definition extract_event_at :: "runtime \<Rightarrow> (string \<rightharpoonup> string) \<Rightarrow> json \<Rightarrow> int option" where
  "extract_event_at rt hs payload =
     (case parse_ts rt (case hs ''webhook-timestamp'' of None \<Rightarrow> JNull | Some t \<Rightarrow> JStr t) of
        Some t \<Rightarrow> Some t
      | None \<Rightarrow>
          if is_obj (obj_get payload ''data'')
          then parse_ts rt (py_or (obj_get (obj_get payload ''data'') ''modified_at'')
                 (obj_get (obj_get payload ''data'') ''created_at''))
          else None)"

subsection \<open>The binding\<close>

definition get_webhook_tolerance :: "runtime \<Rightarrow> int" where
  "get_webhook_tolerance rt = (case webhook_tolerance rt of None \<Rightarrow> 300 | Some v \<Rightarrow> v)"

definition get_webhook_rate_limit :: "runtime \<Rightarrow> int" where
  "get_webhook_rate_limit rt = (case webhook_rate_limit rt of None \<Rightarrow> 120 | Some v \<Rightarrow> v)"

definition polar_adapter :: "runtime \<Rightarrow> webhook_adapter" where
  "polar_adapter rt =
     \<lparr>ad_vendor = ''polar'', secret = polar_secret rt, tolerance_seconds = get_webhook_tolerance rt,
      rate_limit_vendor_rpm = get_webhook_rate_limit rt, header_id = ''webhook-id'',
      header_timestamp = ''webhook-timestamp'', header_signature = ''webhook-signature'',
      verify_fn = verify_signature rt, parse_event_fn = parse_event,
      event_action_fn = map_of EVENT_STATUS_MAP, resolve_plan_fn = resolve_plan_id,
      extract_email_fn = extract_buyer_email, map_status_fn = map_subscription_status,
      normalize_interval_fn = normalize_billing_interval,
      extract_cancel_at_period_end_fn = extract_cancel_at_period_end,
      watched_event_prefixes = [''subscription.'', ''order.''],
      extract_interval_fn = extract_interval, extract_seats_fn = extract_seats,
      extract_amount_fn = extract_amount, extract_currency_fn = extract_currency,
      extract_period_fn = extract_period rt, extract_event_at_fn = extract_event_at rt\<rparr>"

definition polar_webhook ::
  "(string \<Rightarrow> json option) \<Rightarrow> runtime \<Rightarrow> request \<Rightarrow> rat \<Rightarrow> rat \<Rightarrow> ip_limiter \<Rightarrow> db \<Rightarrow>
     (exc + response) \<times> ip_limiter \<times> db" where
  "polar_webhook loads rt req now now' st s = run_webhook_pipeline loads (polar_adapter rt) req now now' st s"

lemma reads_resolve_plan: "steps same_tables (resolve_plan_id p)"
proof -
  have "steps same_tables (\<lambda>s. (resolve_with_conn v s, s))" for v
    by (rule stepsI) (auto intro: reading.step_refl)
  then show ?thesis
    unfolding resolve_plan_id_def Let_def
    by (intro reading.steps_if reading.steps_raise reading.steps_txn)
qed

interpretation polar: vendor_adapter "polar_adapter rt"
  for rt
  by unfold_locales (simp add: polar_adapter_def reads_resolve_plan)

subsection \<open>Properties\<close>

text \<open>C30. Every Polar delivery with an event id ends in an accountable way: when the answer asks for
  a retry the ledger row of the event is still unprocessed, so the next delivery dispatches it
  again, and when the answer is a success the row is processed without an error.\<close>

theorem polar_delivery_accounted:
  assumes "polar_webhook loads rt req now now' st s = (r, st', s')" and "wf_db s"
    and "header req ''webhook-id'' = eid" and "eid \<noteq> []"
  shows "(r = Inr Retry \<longrightarrow> (\<exists>e. ledger_row s' ''polar'' eid = Some e \<and> processed_at e = None)) \<and>
    (\<forall>a. r = Inr (Ok_response a) \<longrightarrow>
      (\<exists>e. ledger_row s' ''polar'' eid = Some e \<and> processed_at e \<noteq> None \<and> processing_error e = None))"
proof -
  have "settled r (ledger_row s' (ad_vendor (polar_adapter rt)) (header req (header_id (polar_adapter rt))))"
    using assms by (intro polar.delivery_settled) (auto simp: polar_webhook_def polar_adapter_def)
  with assms(3) show ?thesis by (simp add: settled_def polar_adapter_def)
qed

definition sample_runtime :: runtime where
  "sample_runtime = \<lparr>b64decode = (\<lambda>s. Some s), hmac_b64 = (\<lambda>k m. filter (\<lambda>c. char_code c < 128) (k @ m)), fromisoformat = py_int,
     fromtimestamp = (\<lambda>t. Some \<lfloor>t\<rfloor>), now_seconds = 1000, polar_secret = Some ''k'',
     webhook_tolerance = None, webhook_rate_limit = None\<rparr>"

definition sample_payload :: "string \<Rightarrow> json" where
  "sample_payload etype = JObj [(''type'', JStr etype), (''data'', JObj [(''id'', JStr ''sub_1''),
     (''product_id'', JStr ''prod_pro''), (''customer'', JObj [(''email'', JStr ''ann@x.io'')]),
     (''currency'', JStr ''usd''), (''recurring_interval'', JStr ''Month''), (''seats'', JInt 1)])]"

definition sample_request :: "string \<Rightarrow> request" where
  "sample_request eid = \<lparr>headers = [''webhook-id'' \<mapsto> eid, ''webhook-timestamp'' \<mapsto> ''990'',
     ''webhook-signature'' \<mapsto> ''v1,k'' @ eid @ ''.990.body''], body = ''body''\<rparr>"

lemma sample_delivery:
  "fst (polar_webhook (\<lambda>_. Some (sample_payload ''subscription.active'')) sample_runtime (sample_request ''evt_1'')
     5 5 \<lparr>per_ip_buckets = Map.empty, last_prune = 0\<rparr> sample_db) = Inr (Ok_response Grant_action)"
  by code_simp

theorem polar_delivery_accounted_witness:
  "\<exists>e. ledger_row (snd (snd (polar_webhook (\<lambda>_. Some (sample_payload ''subscription.active'')) sample_runtime
     (sample_request ''evt_1'') 5 5 \<lparr>per_ip_buckets = Map.empty, last_prune = 0\<rparr> sample_db))) ''polar'' ''evt_1'' = Some e \<and>
     processed_at e \<noteq> None"
proof -
  let ?run = "polar_webhook (\<lambda>_. Some (sample_payload ''subscription.active'')) sample_runtime
     (sample_request ''evt_1'') 5 5 \<lparr>per_ip_buckets = Map.empty, last_prune = 0\<rparr> sample_db"
  have run: "?run = (Inr (Ok_response Grant_action), fst (snd ?run), snd (snd ?run))"
    using sample_delivery by (metis prod.collapse)
  have "header (sample_request ''evt_1'') ''webhook-id'' = ''evt_1''" by code_simp
  from polar_delivery_accounted [OF run wf_sample_db this] show ?thesis by auto
qed

lemma match_tokens_iff:
  assumes "is_ascii expected" and "\<And>t. t \<in> set ts \<Longrightarrow> is_ascii t"
  shows "match_tokens expected ts = Inr (\<exists>t \<in> set ts. partition_comma t = (''v1'', expected))"
  using assms(2)
proof (induction ts)
  case (Cons t ts)
  have "is_ascii (snd (partition_comma t))"
    using Cons.prems [of t] by (auto simp: is_ascii_def partition_comma_def list_all_iff dest!: in_set_dropD set_dropWhileD)
  with Cons assms(1) show ?case
    by (cases "partition_comma t") auto
qed simp

lemma split_ws_ascii: "t \<in> set (split_ws acc s) \<Longrightarrow> is_ascii acc \<Longrightarrow> is_ascii s \<Longrightarrow> is_ascii t"
  by (induction acc s rule: split_ws.induct) (auto simp: is_ascii_def split: if_splits)

text \<open>The signature check accepts exactly the signed deliveries: for ASCII headers and a
  timestamp below the float range it answers true if and only if the secret decodes, the
  timestamp is an integer within the tolerance, and the header has a token \<^verbatim>\<open>v1,MAC\<close> with the MAC
  of id, timestamp and body under the secret.\<close>

theorem verify_signature_exact:
  assumes "is_ascii sig" and "\<And>k m. is_ascii (hmac_b64 rt k m)"
    and "case py_int ts of None \<Rightarrow> True | Some t \<Rightarrow> \<bar>t\<bar> < float_limit"
  shows "verify_signature rt sec msg_id ts bdy sig tol = Inr (sec \<noteq> [] \<and>
    (\<exists>key t. secret_bytes rt sec = Some key \<and> py_int ts = Some t \<and> \<bar>now_seconds rt - of_int t\<bar> \<le> of_int tol \<and>
      (\<exists>tok \<in> set (words sig). partition_comma tok =
        (''v1'', hmac_b64 rt key (utf8 (msg_id @ ''.'' @ ts) @ ''.'' @ bdy)))))"
proof -
  have ascii: "is_ascii t" if "t \<in> set (words sig)" for t
    using split_ws_ascii [of t "[]" sig] that assms(1) by (simp add: words_def is_ascii_def)
  have m: "match_tokens (hmac_b64 rt k c) (words sig) =
      Inr (\<exists>t \<in> set (words sig). partition_comma t = (''v1'', hmac_b64 rt k c))" for k c
    by (rule match_tokens_iff [OF assms(2) ascii])
  have none: "words [] = []" by (simp add: words_def)
  show ?thesis
    using assms(3)
    by (auto simp: verify_signature_def m none not_less split: option.splits)
qed

theorem verify_signature_exact_witness:
  "is_ascii ''v1,kevt.990.b'' \<and>
   verify_signature sample_runtime ''k'' ''evt'' ''990'' ''b'' ''v1,kevt.990.b'' 300 = Inr True"
proof -
  have sig: "is_ascii ''v1,kevt.990.b''" by code_simp
  have mac: "is_ascii (hmac_b64 sample_runtime k m)" for k m
    by (auto simp: sample_runtime_def is_ascii_def list_all_iff)
  have ts: "case py_int ''990'' of None \<Rightarrow> True | Some t \<Rightarrow> \<bar>t\<bar> < float_limit" by code_simp
  have tok: "secret_bytes sample_runtime ''k'' = Some ''k''" "py_int ''990'' = Some 990"
    "\<bar>now_seconds sample_runtime - of_int 990\<bar> \<le> of_int 300"
    "\<exists>tok \<in> set (words ''v1,kevt.990.b''). partition_comma tok =
      (''v1'', hmac_b64 sample_runtime ''k'' (utf8 (''evt'' @ ''.'' @ ''990'') @ ''.'' @ ''b''))"
    by code_simp+
  from verify_signature_exact [OF sig mac ts, of "''k''" "''evt''" "''b''" 300] tok sig show ?thesis by auto
qed

text \<open>The signature check does raise on a malformed header, against its documentation: a
  signature token with a non-ASCII character, with an acceptable timestamp, ends in
  \<^verbatim>\<open>TypeError\<close>, and a timestamp beyond the float range in \<^verbatim>\<open>OverflowError\<close>; neither is a
  rejection.\<close>

theorem verify_signature_raises:
  "verify_signature sample_runtime ''k'' ''evt'' ''990'' ''b'' [CHR ''v'', CHR ''1'', CHR '','', CHR 0xE9] 300 =
     Inl TypeError \<and>
   (\<forall>n. float_limit \<le> int n \<longrightarrow> verify_signature sample_runtime ''k'' ''evt'' (str_nat n) ''b'' ''x'' 300 = Inl OverflowError)"
proof
  show "verify_signature sample_runtime ''k'' ''evt'' ''990'' ''b'' [CHR ''v'', CHR ''1'', CHR '','', CHR 0xE9] 300 =
     Inl TypeError"
    by code_simp
  have "secret_bytes sample_runtime ''k'' = Some ''k''" by code_simp
  then show "\<forall>n. float_limit \<le> int n \<longrightarrow>
      verify_signature sample_runtime ''k'' ''evt'' (str_nat n) ''b'' ''x'' 300 = Inl OverflowError"
    by (simp add: verify_signature_def)
qed

theorem verify_signature_raises_witness:
  "verify_signature sample_runtime ''k'' ''evt'' (str_nat (2 ^ 1025)) ''b'' ''x'' 300 = Inl OverflowError"
proof (rule mp [OF spec [OF conjunct2 [OF verify_signature_raises]]])
  have "(2::int) ^ 1024 - 2 ^ 970 \<le> 2 ^ 1025" by simp
  then show "float_limit \<le> int (2 ^ 1025)" unfolding float_limit_def of_nat_power of_nat_numeral .
qed

lemma map_of_all: "map_of kvs k = Some v \<Longrightarrow> list_all (\<lambda>p. P (snd p)) kvs \<Longrightarrow> P v"
  by (force simp: list_all_iff dest: map_of_SomeD)

lemma interval_allowed:
  "normalize_billing_interval v = Some b \<Longrightarrow> b \<in> {''free'', ''monthly'', ''annual'', ''one_time''}"
proof (cases v)
  case (JStr x)
  have all: "list_all (\<lambda>p. snd p \<in> {''free'', ''monthly'', ''annual'', ''one_time''}) BILLING_INTERVAL_MAP"
    by code_simp
  assume "normalize_billing_interval v = Some b"
  with JStr show ?thesis
    using map_of_all [OF _ all] by (auto simp: Let_def split: if_splits)
qed auto

lemma status_allowed:
  "map_subscription_status p \<in> {''pending'', ''active'', ''past_due'', ''cancelled'', ''expired'', ''trialing'', ''refunded''}"
proof -
  have all: "list_all (\<lambda>p. snd p \<in> {''pending'', ''active'', ''past_due'', ''cancelled'', ''expired'', ''trialing'',
      ''refunded''}) STATUS_MAP" by code_simp
  show ?thesis
    using map_of_all [OF _ all] by (auto simp: map_subscription_status_def split: json.split option.split)
qed

lemma upper_of_lower: "is_lower c \<Longrightarrow> is_upper (char_of (char_code c - 32)) \<and> \<not> is_lower (char_of (char_code c - 32))"
proof -
  assume "is_lower c"
  then have "char_code c - 32 < 256" "65 \<le> char_code c - 32" "char_code c - 32 \<le> 90"
    by (auto simp: is_lower_def)
  then show ?thesis by (simp add: is_upper_def is_lower_def char_code_def)
qed

lemma currency_allowed: "extract_currency d = Some c \<Longrightarrow> length c = 3 \<and> list_all is_upper c"
proof (cases "obj_get d ''currency''")
  case (JStr raw)
  have "\<not> is_lower x" if "x \<in> set (to_upper s)" for x s
    using that upper_of_lower by (auto simp: to_upper_def split: if_splits)
  moreover assume "extract_currency d = Some c"
  ultimately show ?thesis using JStr by (auto simp: extract_currency_def Let_def list_all_iff split: if_splits)
qed (auto simp: extract_currency_def)

text \<open>Whatever the payload carries, the row a Polar grant proposes satisfies every CHECK
  constraint of the subscriptions table as soon as a buyer address is found: the interval, the
  currency and the seats are normalised into the allowed ranges.\<close>

theorem polar_grant_passes_checks:
  assumes "extract_buyer_email d = Some addr" and "extract_seats d = Inr n"
  shows "row_checks (grant_row \<lparr>g_plan_id = p, g_external_ref = ref, g_source = ''polar'', g_seats = n,
      g_buyer_email = extract_buyer_email d, g_amount_cents = amount, g_currency = extract_currency d,
      g_billing_interval = normalize_billing_interval (extract_interval d), g_period_start = ps,
      g_period_end = pe, g_trial_ends_at = te\<rparr> ev)"
proof -
  have "0 < n" using assms(2) by (auto simp: extract_seats_def split: int_result.splits if_splits)
  with assms(1) interval_allowed [of "extract_interval d"] currency_allowed [of d] show ?thesis
    by (auto simp: row_checks_def grant_row_def split: option.split)
qed

theorem polar_grant_passes_checks_witness:
  "extract_seats (obj_get (sample_payload ''order.paid'') ''data'') = Inr 1 \<and>
   row_checks (grant_row \<lparr>g_plan_id = 2, g_external_ref = ''r'', g_source = ''polar'', g_seats = 1,
      g_buyer_email = extract_buyer_email (obj_get (sample_payload ''order.paid'') ''data''), g_amount_cents = None,
      g_currency = extract_currency (obj_get (sample_payload ''order.paid'') ''data''),
      g_billing_interval = normalize_billing_interval (extract_interval (obj_get (sample_payload ''order.paid'') ''data'')),
      g_period_start = None, g_period_end = None, g_trial_ends_at = None\<rparr> None)"
proof -
  have "extract_buyer_email (obj_get (sample_payload ''order.paid'') ''data'') = Some ''ann@x.io''"
    and "extract_seats (obj_get (sample_payload ''order.paid'') ''data'') = Inr 1" by code_simp+
  then show ?thesis using polar_grant_passes_checks by blast
qed

text \<open>A status the map does not know counts as active: an update that reports a paused
  subscription is applied as an active one, although the pipeline documents that a paused
  subscriber must not keep paid access.\<close>

theorem unknown_status_is_active:
  assumes "to_lower (strip raw) \<notin> fst ` set STATUS_MAP"
  shows "map_subscription_status (JObj [(''data'', JObj [(''status'', JStr raw)])]) = ''active''"
  using assms by (auto simp: map_subscription_status_def members_get_def map_of_eq_None_iff [symmetric]
      split: option.split)

theorem unknown_status_is_active_witness:
  "map_subscription_status (JObj [(''data'', JObj [(''status'', JStr ''paused'')])]) = ''active'' \<and>
   to_lower (strip ''paused'') \<notin> fst ` set STATUS_MAP"
proof -
  have "to_lower (strip ''paused'') \<notin> fst ` set STATUS_MAP" by code_simp
  with unknown_status_is_active show ?thesis by blast
qed



text \<open>C4. A delivery of an event the ledger has already marked processed is dropped before the
  dispatch: no subscription, key or cached plan changes and the ledger keeps its rows.\<close>

theorem processed_event_inert:
  assumes run: "run_webhook_pipeline loads ad req now now' st s = (r, st', s')" and wf: "wf_db s"
    and eid: "header req (header_id ad) = eid" "eid \<noteq> []"
    and seen: "ledger_row s (ad_vendor ad) eid = Some e" "processed_at e \<noteq> None"
  shows "inert s s' \<and> (\<forall>a. r \<noteq> Inr (Ok_response a)) \<and> r \<noteq> Inr Retry"
  using run
proof (cases rule: pipeline_cases)
  case 1
  then show ?thesis by simp
next
  case 2
  then show ?thesis
  proof (cases rule: handle_delivery_cases)
    case 1
    then show ?thesis by simp
  next
    case (2 sec ok ms)
    from 2(4) show ?thesis
    proof (cases rule: handle_payload_cases)
      case (3 eid' t ref pk new s1)
      from record_event_run [OF 3(2) wf] 3(1) eid seen show ?thesis by auto
    qed (auto intro: inert_record)
  qed
qed

definition seen_event :: webhook_event where
  "seen_event = \<lparr>event_pk = 1, vendor = ''polar'', event_id = ''evt_1'', event_type = ''order.paid'',
     signature_valid = True, processed_at = Some 9, processing_error = None, event_subscription_id = Some 1\<rparr>"

theorem processed_event_inert_witness:
  "ledger_row (sample_db\<lparr>events := [seen_event], event_seq := 1\<rparr>) ''polar'' ''evt_1'' = Some seen_event \<and>
   inert (sample_db\<lparr>events := [seen_event], event_seq := 1\<rparr>)
     (snd (snd (run_webhook_pipeline (\<lambda>_. Some (sample_payload ''order.paid'')) (polar_adapter sample_runtime)
       (sample_request ''evt_1'') 5 5 \<lparr>per_ip_buckets = Map.empty, last_prune = 0\<rparr>
       (sample_db\<lparr>events := [seen_event], event_seq := 1\<rparr>))))"
proof -
  let ?s = "sample_db\<lparr>events := [seen_event], event_seq := 1\<rparr>" and ?ad = "polar_adapter sample_runtime"
  let ?run = "run_webhook_pipeline (\<lambda>_. Some (sample_payload ''order.paid'')) ?ad (sample_request ''evt_1'') 5 5
     \<lparr>per_ip_buckets = Map.empty, last_prune = 0\<rparr> ?s"
  have run: "?run = (fst ?run, fst (snd ?run), snd (snd ?run))" by simp
  have wf: "wf_db ?s" and hd: "header (sample_request ''evt_1'') (header_id ?ad) = ''evt_1''"
    and row: "ledger_row ?s (ad_vendor ?ad) ''evt_1'' = Some seen_event" and vend: "ad_vendor ?ad = ''polar''"
    and seen: "processed_at seen_event \<noteq> None"
    by code_simp+
  have ne: "''evt_1'' \<noteq> []" by simp
  from processed_event_inert [OF run wf hd ne row seen] row vend show ?thesis by simp
qed

end
