(* ===== verification/Entitlements.thy ===== *)
theory Entitlements
  imports Polar
begin

section \<open>Entitlement lifecycle: properties of grant, update, revoke and login claim\<close>

text \<open>
  The properties of the billing handlers. \<open>billing_step\<close> is one call of a handler, of the
  login sweep or of the Polar webhook, with any arguments, any fault schedule and any clock
  value; runs of the system are its reflexive transitive closure.
\<close>

subsection \<open>Runs of the billing system\<close>

inductive billing_step :: "db \<Rightarrow> db \<Rightarrow> bool" where
  granted: "grant_entitlement g ev (s\<lparr>faults := fs, clock := t\<rparr>) = (r1, s') \<Longrightarrow> billing_step s s'"
| updated: "update_entitlement ref u (s\<lparr>faults := fs, clock := t\<rparr>) = (r1, s') \<Longrightarrow> billing_step s s'"
| revoked: "revoke_entitlement ref v ev (s\<lparr>faults := fs, clock := t\<rparr>) = (r2, s') \<Longrightarrow> billing_step s s'"
| logged_in: "claim_subscription_for_user uid addr (s\<lparr>faults := fs, clock := t\<rparr>) = (r3, s') \<Longrightarrow> billing_step s s'"
| delivered: "polar_webhook loads rt req now now' st (s\<lparr>faults := fs, clock := t\<rparr>) = (r4, st', s') \<Longrightarrow> billing_step s s'"

inductive_cases billing_stepE: "billing_step s s'"

lemma watermark_claim_subscription [pres_intros]:
  "steps (rows_step watermark_grows) (claim_subscription_for_user u addr)"
proof -
  have "steps (rows_step watermark_grows) (claim_one u sub acc)" for sub acc
    unfolding claim_one_def
    by (auto intro!: pres_intros simp: Let_def split: exc.splits if_splits prod.splits)
  then show ?thesis
    unfolding claim_subscription_for_user_def
    by (auto intro!: watermark.steps_try watermark.steps_bind watermark.steps_for_each watermark.steps_ret
        steps_side_rows(1) [OF side_of_reading [OF reads_find(1)]]
        steps_side_rows(1) [OF side_of_reading [OF reads_find(2)]])
qed

lemma claims_claim_subscription:
  assumes "claim_subscription_for_user u addr s = (res, s')"
  shows "rows_step claim_kept s s'"
proof (rule rows_step_unless_wf)
  assume wf: "wf_db s"
  let ?body = "bindE (find_unclaimed_active_by_email addr) (\<lambda>unclaimed.
        bindE (find_claimed_unprovisioned_active u) (\<lambda>half_claimed.
        bindE (for_each (unclaimed @ half_claimed) ([], []) (claim_one u)) (\<lambda>acc.
        ret (snd acc))))"
  from assms obtain r1 where "?body s = (r1, s')"
    unfolding claim_subscription_for_user_def
    by (auto simp: try_except_def ret_def split: prod.splits sum.splits)
  from sweep_body [OF this wf] show "rows_step claim_kept s s'"
    by (rule rows_step_weaken) (auto simp: swept_def claim_kept_def)
qed

lemma rows_ok_login: "claim_subscription_for_user u addr s = (res, s') \<Longrightarrow> rows_step row_ok s s'"
  unfolding row_ok_def
  by (intro rows_step_conj claims_claim_subscription stepsD [OF watermark_claim_subscription])

lemma rows_ok_polar_webhook:
  "polar_webhook loads rt req now now' st s = (r, st', s') \<Longrightarrow> rows_step row_ok s s'"
  unfolding polar_webhook_def
  by (elim pipeline_cases) (auto intro: stepsD [OF polar.rows_ok_handle_delivery] rows_ok.step_refl)

lemma wf_db_clock [simp]: "wf_db (s\<lparr>clock := t\<rparr>) = wf_db s"
  using sub_ok_cong [of "s\<lparr>clock := t\<rparr>" s] by (simp add: wf_defs)

lemma rows_step_at:
  "rows_step Q (s\<lparr>faults := fs, clock := t\<rparr>) s' \<Longrightarrow> wf_db s \<Longrightarrow>
     wf_db s' \<and> plans s' = plans s \<and> users s' = users s \<and>
     (\<forall>i r. row_of s i = Some r \<longrightarrow> (\<exists>r'. row_of s' i = Some r' \<and> Q r r'))"
  by (simp add: rows_step_def same_config_def row_of_def)

lemma billing_step_rows:
  assumes "billing_step s s'" and "wf_db s"
  shows "wf_db s' \<and> plans s' = plans s \<and> users s' = users s \<and>
    (\<forall>i r. row_of s i = Some r \<longrightarrow> (\<exists>r'. row_of s' i = Some r' \<and> row_ok r r'))"
  using assms(1)
  by (cases rule: billing_step.cases)
    (auto intro!: rows_step_at [OF _ assms(2)] intro: stepsD [OF rows_ok_grant] stepsD [OF rows_ok_update]
       stepsD [OF rows_ok_revoke] rows_ok_login rows_ok_polar_webhook)

lemma billing_run_rows:
  assumes "billing_step\<^sup>*\<^sup>* s s'" and "wf_db s"
  shows "wf_db s' \<and> (\<forall>i r. row_of s i = Some r \<longrightarrow> (\<exists>r'. row_of s' i = Some r' \<and> row_ok r r'))"
  using assms
proof (induction rule: rtranclp_induct)
  case base
  then show ?case by simp
next
  case (step t v)
  then have t: "wf_db t" and rows: "\<And>i r. row_of s i = Some r \<Longrightarrow> \<exists>r'. row_of t i = Some r' \<and> row_ok r r'"
    by auto
  note v = billing_step_rows [OF step.hyps(2) t]
  have "\<exists>r'. row_of v i = Some r' \<and> row_ok r r'" if r: "row_of s i = Some r" for i r
  proof -
    from rows [OF r] obtain q where q: "row_of t i = Some q" "row_ok r q" by blast
    with v obtain r' where "row_of v i = Some r'" "row_ok q r'" by blast
    with q(2) show ?thesis
      by (auto simp: row_ok_def watermark_grows_def claim_kept_def same_identity_def elim: opt_le_trans)
  qed
  with v show ?case by blast
qed

text \<open>From well-formed tables, every run of grants, updates, revocations, logins and webhook
  deliveries, with any arguments and whatever the database does to their transactions, ends in well-formed tables:
  primary keys stay unique and below their sequences, at most one subscription has a given source
  and reference, and every CHECK and foreign key constraint holds.\<close>

theorem billing_invariant:
  assumes "billing_step\<^sup>*\<^sup>* s s'" and "wf_db s"
  shows "wf_db s' \<and> (\<forall>r \<in> set (subs s'). \<forall>r' \<in> set (subs s').
    source r = source r' \<and> external_ref r = external_ref r' \<longrightarrow> r = r')"
proof -
  have wf: "wf_db s'" using billing_run_rows [OF assms] ..
  then have "inj_on (\<lambda>r. (source r, external_ref r)) (set (subs s'))"
    by (simp add: wf_defs distinct_map)
  with wf show ?thesis by (auto dest: inj_onD)
qed

theorem billing_invariant_witness:
  "billing_step\<^sup>*\<^sup>* sample_db (snd (claim_subscription_for_user 7 ''ann@x.io'' sample_db)) \<and>
   wf_db (snd (claim_subscription_for_user 7 ''ann@x.io'' sample_db))"
proof -
  have eq: "sample_db\<lparr>faults := [], clock := 200\<rparr> = sample_db" by (simp add: sample_db_def)
  have "billing_step sample_db (snd (claim_subscription_for_user 7 ''ann@x.io'' sample_db))"
    by (rule billing_step.logged_in [where s = sample_db and fs = "[]" and t = 200, unfolded eq,
          OF surjective_pairing])
  then have run: "billing_step\<^sup>*\<^sup>* sample_db (snd (claim_subscription_for_user 7 ''ann@x.io'' sample_db))" ..
  with billing_invariant [OF run wf_sample_db] show ?thesis by blast
qed

text \<open>C1. Over every serial run of the billing system, in which one handler call begins after another has ended, a subscription keeps its
  identity, its event watermark never goes back, and a claim, once made, is never taken away or given to another user. Calls that
  overlap are not covered: the update reads the row and writes it later without a lock, and two interleaved updates can take the
  watermark back (\<^verbatim>\<open>concurrent_updates_regress\<close>).\<close>

theorem watermark_and_claim_permanent:
  assumes "billing_step\<^sup>*\<^sup>* s s'" and "wf_db s" and "row_of s i = Some r"
  shows "\<exists>r'. row_of s' i = Some r' \<and> source r' = source r \<and> external_ref r' = external_ref r \<and>
    (\<forall>w. last_event_at r = Some w \<longrightarrow> (\<exists>w'. last_event_at r' = Some w' \<and> w \<le> w')) \<and>
    (\<forall>u. claimed_user_id r = Some u \<longrightarrow> claimed_user_id r' = Some u)"
  using billing_run_rows [OF assms(1,2)] assms(3)
  by (fastforce simp: row_ok_def watermark_grows_def claim_kept_def same_identity_def opt_le_def
      split: option.splits)

theorem watermark_and_claim_permanent_witness:
  "\<exists>r'. row_of (snd (revoke_entitlement ''sub_1'' False (Some 300) provisioned_db)) 1 = Some r' \<and>
    claimed_user_id r' = Some 7"
proof -
  have eq: "provisioned_db\<lparr>faults := [], clock := 200\<rparr> = provisioned_db"
    by (simp add: provisioned_db_def sample_db_def)
  have "billing_step provisioned_db (snd (revoke_entitlement ''sub_1'' False (Some 300) provisioned_db))"
    by (rule billing_step.revoked [where s = provisioned_db and fs = "[]" and t = 200, unfolded eq,
          OF surjective_pairing])
  then have run: "billing_step\<^sup>*\<^sup>* provisioned_db (snd (revoke_entitlement ''sub_1'' False (Some 300) provisioned_db))" ..
  have row: "row_of provisioned_db 1 = Some (sample_sub\<lparr>claimed_user_id := Some 7, api_key_id := Some 1\<rparr>)"
    by code_simp
  from watermark_and_claim_permanent [OF run wf_provisioned_db row] show ?thesis by auto
qed

subsection \<open>Stale events\<close>

definition blank_time :: "subscription \<Rightarrow> subscription" where
  "blank_time r = r\<lparr>updated_at := 0\<rparr>"

lemma same_watermark_write:
  assumes run: "update_fields i [Set_last_event_at w] s = (res, s')" and wf: "wf_db s"
    and row: "row_of s i = Some r" and w: "last_event_at r = w"
  shows "map blank_time (subs s') = map blank_time (subs s) \<and> same_keys s s'"
proof -
  from run obtain n where upd: "update_subs (\<lambda>r. sub_id r = i) (set_cols [Set_last_event_at w]) s = (n, s')"
    unfolding update_fields_def by (auto elim!: bindE_cases simp: ret_def)
  have self: "x = r" if "x \<in> set (subs s)" "sub_id x = i" for x
    using row_of_member [OF wf that(1)] row that(2) by simp
  have "blank_time ((set_cols [Set_last_event_at w] x)\<lparr>updated_at := t\<rparr>) = blank_time x"
    if "x \<in> set (subs s)" "sub_id x = i" for x t
    using self [OF that] w by (simp add: set_cols_def blank_time_def)
  then have "map blank_time (subs s') = map blank_time (subs s)"
    using upd unfolding update_subs_def
    by (elim txn_stateE) (auto simp: Let_def)
  with stepsD [OF keeps_update_subs upd] show ?thesis by simp
qed

lemma stale_eventE:
  assumes "stale_event ev st"
  obtains v w where "ev = Some v" "st = Some w" "v < w" "advance st v = st"
  using assms by (auto simp: stale_event_def advance_def split: option.splits)

text \<open>C5. An update or an immediate revocation that carries an event older than the one the
  subscription has already seen is dropped: no key, cached plan or subscription column but the
  row's modification time changes, on any outcome.\<close>

theorem stale_event_dropped:
  assumes wf: "wf_db s" and sub: "find (\<lambda>r. external_ref r = ref) (subs s) = Some sub"
    and stale: "stale_event ev (last_event_at sub)"
    and run: "s' \<in> {snd (update_entitlement ref (u\<lparr>u_event_at := ev\<rparr>) s), snd (revoke_entitlement ref False ev s)}"
  shows "map blank_time (subs s') = map blank_time (subs s) \<and> api_keys s' = api_keys s \<and>
    plan_cache s' = plan_cache s"
proof -
  from stale obtain v w where v: "ev = Some v" "advance (last_event_at sub) v = last_event_at sub"
    by (rule stale_eventE)
  let ?touch = "\<lambda>s1. \<exists>b. update_fields (sub_id sub) [Set_last_event_at (last_event_at sub)] s1 = (b, s')"
  have upd: "\<exists>s1. same_tables s s1 \<and> (s' = s1 \<or> ?touch s1)" if "update_entitlement ref (u\<lparr>u_event_at := ev\<rparr>) s = (q, s')" for q
    using that unfolding update_entitlement_def
  proof (cases rule: bindE_cases)
    case (raised e)
    from stepsD [OF reads_plan_checks(6) raised(1)] show ?thesis by blast
  next
    case (returned row s1)
    with sub stale v get_by_ref_run(1,2) [OF returned(1)] show ?thesis
      by (auto simp: update_entitlement_row_def ret_def elim!: seqE_cases)
  qed
  have rev: "\<exists>s1. same_tables s s1 \<and> (s' = s1 \<or> ?touch s1)" if "revoke_entitlement ref False ev s = (q, s')" for q
    using that unfolding revoke_entitlement_def
  proof (cases rule: bindE_cases)
    case (raised e)
    from stepsD [OF reads_plan_checks(6) raised(1)] show ?thesis by blast
  next
    case (returned row s1)
    with sub stale v get_by_ref_run(1,2) [OF returned(1)] show ?thesis
      by (auto simp: revoke_entitlement_row_def ret_def elim!: seqE_cases)
  qed
  have "\<exists>s1. same_tables s s1 \<and> (s' = s1 \<or> ?touch s1)"
    using run upd rev by (metis insertE prod.collapse singletonD)
  then obtain s1 where s1: "same_tables s s1" and end1: "s' = s1 \<or> ?touch s1" by blast
  have "row_of s1 (sub_id sub) = Some sub" and "wf_db s1"
    using wf s1 find_pred_Some [OF sub] row_of_member [OF wf] by (auto simp: same_tables_def)
  with end1 same_watermark_write [OF _ this(2,1) refl]
  have "map blank_time (subs s') = map blank_time (subs s1) \<and> same_keys s1 s'"
    using same_keys.step_refl by blast
  with s1 show ?thesis by (auto simp: same_tables_def same_keys_def)
qed

definition sample_update :: entitlement_update where
  "sample_update = \<lparr>u_plan_id = None, u_status = Some ''refunded'', u_seats = None, u_period_start = None,
     u_period_end = None, u_trial_ends_at = None, u_cancel_at_period_end = None, u_event_at = None\<rparr>"

theorem stale_event_dropped_witness:
  "stale_event (Some 50) (last_event_at (hd (subs provisioned_db))) \<and>
   api_keys (snd (update_entitlement ''sub_1'' (sample_update\<lparr>u_event_at := Some 50\<rparr>) provisioned_db)) =
     api_keys provisioned_db"
proof -
  let ?run = "update_entitlement ''sub_1'' (sample_update\<lparr>u_event_at := Some 50\<rparr>) provisioned_db"
  have find: "find (\<lambda>r. external_ref r = ''sub_1'') (subs provisioned_db) = Some (hd (subs provisioned_db))"
    and st: "stale_event (Some 50) (last_event_at (hd (subs provisioned_db)))"
    by code_simp+
  from stale_event_dropped [OF wf_provisioned_db find st, of "snd ?run" sample_update] st show ?thesis by simp
qed

subsection \<open>Losing access\<close>

text \<open>On a healthy database the statements of a handler run as written.\<close>

lemma update_subs_healthy:
  assumes "faults s = []" and "\<And>r. r \<in> set (subs s) \<Longrightarrow> cond r \<Longrightarrow> sub_ok s ((f r)\<lparr>updated_at := clock s\<rparr>)"
  shows "update_subs cond f s = (Inr (length (filter cond (subs s))),
    s\<lparr>subs := map (\<lambda>r. if cond r then (f r)\<lparr>updated_at := clock s\<rparr> else r) (subs s)\<rparr>)"
  using assms by (auto simp: update_subs_def Let_def list_all_iff)

lemma only_row: "wf_db s \<Longrightarrow> row_of s i = Some sub \<Longrightarrow> r \<in> set (subs s) \<Longrightarrow> sub_id r = i \<Longrightarrow> r = sub"
  using row_of_member by fastforce

lemma update_fields_healthy:
  assumes h: "faults s = []" and wf: "wf_db s" and row: "row_of s i = Some sub"
    and cols: "cols \<noteq> []" "\<not> list_ex is_unknown cols"
    and ok: "sub_ok s ((set_cols cols sub)\<lparr>updated_at := clock s\<rparr>)"
  shows "\<exists>b s'. update_fields i cols s = (Inr b, s') \<and> faults s' = [] \<and> wf_db s' \<and> same_keys s s' \<and>
    same_config s s' \<and> row_of s' i = Some ((set_cols cols sub)\<lparr>updated_at := clock s\<rparr>)"
proof -
  have "update_subs (\<lambda>r. sub_id r = i) (set_cols cols) s =
      (Inr (length (filter (\<lambda>r. sub_id r = i) (subs s))), s\<lparr>subs := map (\<lambda>r. if sub_id r = i
        then (set_cols cols r)\<lparr>updated_at := clock s\<rparr> else r) (subs s)\<rparr>)" (is "_ = (_, ?s')")
    by (rule update_subs_healthy [OF h]) (use only_row [OF wf row] ok in auto)
  then have run: "update_fields i cols s = (Inr (0 < length (filter (\<lambda>r. sub_id r = i) (subs s))), ?s')"
    using cols by (simp add: update_fields_def bindE_def ret_def)
  have "rows_step (\<lambda>_ _. True) s ?s'" by (rule update_fields_step [OF run]) simp_all
  then have "wf_db ?s'" using wf by (rule rows_step_wf)
  moreover have "faults ?s' = []" using h by simp
  ultimately show ?thesis using run row_of_update_fields [OF run row] by blast
qed

lemma mark_cancelled_healthy:
  assumes h: "faults s = []" and wf: "wf_db s" and row: "row_of s i = Some sub"
  shows "\<exists>s'. mark_cancelled i s = (Inr (), s') \<and> faults s' = [] \<and> wf_db s' \<and> same_keys s s' \<and>
    same_config s s' \<and> row_of s' i = Some (sub\<lparr>status := ''cancelled'', cancelled_at := Some (clock s), updated_at := clock s\<rparr>)"
proof -
  have "sub_ok s sub" using wf row row_ofD [OF row] by (simp add: wf_sub_okD)
  then have "sub_ok s (sub\<lparr>status := ''cancelled'', cancelled_at := Some (clock s), updated_at := clock s\<rparr>)"
    by (auto simp: sub_ok_def row_checks_def)
  then have "update_subs (\<lambda>r. sub_id r = i) (\<lambda>r. r\<lparr>status := ''cancelled'', cancelled_at := Some (clock s)\<rparr>) s =
      (Inr (length (filter (\<lambda>r. sub_id r = i) (subs s))), s\<lparr>subs := map (\<lambda>r. if sub_id r = i
        then r\<lparr>status := ''cancelled'', cancelled_at := Some (clock s), updated_at := clock s\<rparr> else r) (subs s)\<rparr>)"
    (is "_ = (_, ?s')")
    by (intro update_subs_healthy [OF h]) (use only_row [OF wf row] in auto)
  then have run: "mark_cancelled i s = (Inr (), ?s')"
    by (simp add: mark_cancelled_def em_simps)
  have "wf_db ?s'" using stepsD [OF rows_ok_cancel(1) run] wf by (rule rows_step_wf)
  moreover have "faults ?s' = []" using h by simp
  ultimately show ?thesis using run mark_cancelled_run [OF run row] by blast
qed

definition stripped :: "db \<Rightarrow> int \<Rightarrow> bool" where
  "stripped s k \<longleftrightarrow> plan_cache s k = None \<and> (\<exists>x. key_of s k = Some x \<and>
     (case free_plan s of
        Some p \<Rightarrow> key_plan_id x = p \<and> rate_limit_override x = None \<and> quota_override x = None
      | None \<Rightarrow> \<not> key_active x))"

lemma free_plan_config: "same_config s s' \<Longrightarrow> free_plan s' = free_plan s"
  by (simp add: free_plan_def same_config_def)

lemma downgrade_healthy:
  assumes h: "faults s = []" and wf: "wf_db s" and key: "key_of s k = Some x"
  shows "\<exists>s'. downgrade_key_to_free k s = (Inr (), s') \<and> stripped s' k \<and> subs s' = subs s \<and>
    same_config s s' \<and> faults s' = [] \<and> wf_db s' \<and> (\<forall>r. sub_ok s r \<longrightarrow> sub_ok s' r)"
proof -
  obtain s' where run: "downgrade_key_to_free k s = (Inr (), s')" and st: "stripped s' k" and h': "faults s' = []"
    and fk: "tenants s' = tenants s" "map key_pk (api_keys s') = map key_pk (api_keys s)"
  proof (cases "free_plan s")
    case None
    let ?s' = "s\<lparr>api_keys := map (\<lambda>x. if key_pk x = k then x\<lparr>key_active := False\<rparr> else x) (api_keys s),
      plan_cache := (plan_cache s)(k := None)\<rparr>"
    have "downgrade_key_to_free k s = (Inr (), ?s')"
      using None h by (simp add: downgrade_key_to_free_def free_plan_id_def deactivate_api_key_def
          invalidate_plan_cache_def em_simps)
    moreover have "stripped ?s' k"
      using None key key_ofD [OF key] free_plan_config [of s ?s']
      by (simp add: stripped_def key_of_def find_key_map same_config_def)
    ultimately show thesis using that h by simp
  next
    case (Some p)
    let ?s' = "s\<lparr>api_keys := map (\<lambda>x. if key_pk x = k then x\<lparr>key_plan_id := p, rate_limit_override := None,
      quota_override := None\<rparr> else x) (api_keys s), plan_cache := (plan_cache s)(k := None)\<rparr>"
    have "list_ex (\<lambda>q. plan_pk q = p) (plans s)"
      using Some by (auto simp: free_plan_def list_ex_iff dest!: find_pred_Some)
    then have "downgrade_key_to_free k s = (Inr (), ?s')"
      using Some h key by (simp add: downgrade_key_to_free_def free_plan_id_def
          set_api_key_plan_and_overrides_def invalidate_plan_cache_def em_simps)
    moreover have "stripped ?s' k"
      using Some key key_ofD [OF key] free_plan_config [of s ?s']
      by (simp add: stripped_def key_of_def find_key_map same_config_def)
    ultimately show thesis using that h by simp
  qed
  have side: "side_step s s'" by (rule stepsD [OF side_downgrade run])
  have "key_pk ` set (api_keys s') = key_pk ` set (api_keys s)"
    using fk(2) by (metis set_map)
  then have "sub_ok s' r" if "sub_ok s r" for r
    using that side wf fk(1) by (elim sub_ok_mono) (auto simp: side_step_def same_config_def)
  with run st h' side wf show ?thesis by (auto simp: side_step_def)
qed

lemma get_by_ref_healthy:
  assumes "faults s = []" and "find (\<lambda>r. external_ref r = ref) (subs s) = Some sub" and "wf_db s"
  shows "get_by_external_ref ref s = (Inr (Some sub), s)" and "row_of s (sub_id sub) = Some sub"
  using assms find_pred_Some [OF assms(2)] row_of_member [OF assms(3)]
  by (simp_all add: get_by_external_ref_def gets_def)

lemma advance_watermark_healthy:
  assumes h: "faults s = []" and wf: "wf_db s" and row: "row_of s i = Some r"
  shows "\<exists>s'. (case ev of None \<Rightarrow> ret () | Some v \<Rightarrow>
      seqE (update_fields i [Set_last_event_at (advance w v)]) (ret ())) s = (Inr (), s') \<and>
    faults s' = [] \<and> wf_db s' \<and> same_keys s s' \<and> same_config s s' \<and>
    (\<exists>r'. row_of s' i = Some r' \<and> status r' = status r)"
proof (cases ev)
  case None
  with assms show ?thesis by (simp add: ret_def same_keys.step_refl)
next
  case (Some v)
  have "sub_ok s r" using wf row row_ofD [OF row] by (simp add: wf_sub_okD)
  then have "sub_ok s ((set_cols [Set_last_event_at (advance w v)] r)\<lparr>updated_at := clock s\<rparr>)"
    by (simp add: sub_ok_def row_checks_def set_cols_def)
  from update_fields_healthy [OF h wf row _ _ this] obtain b s' where
    s': "update_fields i [Set_last_event_at (advance w v)] s = (Inr b, s')" "faults s' = []" "wf_db s'"
      "same_keys s s'" "same_config s s'"
      "row_of s' i = Some ((set_cols [Set_last_event_at (advance w v)] r)\<lparr>updated_at := clock s\<rparr>)"
    by auto
  with Some show ?thesis by (auto simp: em_simps set_cols_def)
qed

lemma sub_ok_updated_at: "sub_ok s (r\<lparr>updated_at := t\<rparr>) = sub_ok s r"
  by (simp add: sub_ok_def row_checks_def)

lemma key_of_fk: "wf_db s \<Longrightarrow> row_of s i = Some r \<Longrightarrow> api_key_id r = Some k \<Longrightarrow> \<exists>x. key_of s k = Some x"
  using wf_sub_okD [of s r] row_ofD [of s i r] key_of_member [of s]
  by (auto simp: sub_ok_def fk_ok_def)

text \<open>C31. On a healthy database an immediate revocation that is not stale always completes: the
  subscription is cancelled, and the key it paid for is on the free plan with its overrides
  cleared (or inactive when no free plan exists) with no cached plan left.\<close>

theorem revoke_cuts_access:
  assumes h: "faults s = []" and wf: "wf_db s"
    and sub: "find (\<lambda>r. external_ref r = ref) (subs s) = Some sub"
    and fresh: "\<not> stale_event ev (last_event_at sub)"
  shows "\<exists>s' r'. revoke_entitlement ref False ev s = (Inr (), s') \<and>
    row_of s' (sub_id sub) = Some r' \<and> status r' = ''cancelled'' \<and>
    (\<forall>k. api_key_id sub = Some k \<longrightarrow> stripped s' k)"
proof -
  note get = get_by_ref_healthy [OF h sub wf]
  from mark_cancelled_healthy [OF h wf get(2)] obtain s1 r1 where s1:
    "mark_cancelled (sub_id sub) s = (Inr (), s1)" "faults s1 = []" "wf_db s1" "same_keys s s1"
    "same_config s s1" "row_of s1 (sub_id sub) = Some r1" "status r1 = ''cancelled''" by auto
  from advance_watermark_healthy [OF s1(2,3,6), where ev = ev and w = "last_event_at sub"] obtain s2 r2 where s2:
    "(case ev of None \<Rightarrow> ret () | Some v \<Rightarrow> seqE (update_fields (sub_id sub)
        [Set_last_event_at (advance (last_event_at sub) v)]) (ret ())) s1 = (Inr (), s2)"
    "faults s2 = []" "wf_db s2" "same_keys s1 s2" "same_config s1 s2"
    "row_of s2 (sub_id sub) = Some r2" "status r2 = status r1" by blast
  let ?key = "case api_key_id sub of None \<Rightarrow> ret () | Some k \<Rightarrow> downgrade_key_to_free k"
  have "\<exists>s3. ?key s2 = (Inr (), s3) \<and> subs s3 = subs s2 \<and> (\<forall>k. api_key_id sub = Some k \<longrightarrow> stripped s3 k)"
  proof (cases "api_key_id sub")
    case None
    then show ?thesis by (simp add: ret_def)
  next
    case (Some k)
    from key_of_fk [OF wf get(2) Some] s1(4) s2(4) obtain x where "key_of s2 k = Some x"
      by (auto simp: same_keys_def key_of_def)
    from downgrade_healthy [OF s2(2,3) this] Some show ?thesis by auto
  qed
  then obtain s3 where s3: "?key s2 = (Inr (), s3)" "subs s3 = subs s2"
    "\<forall>k. api_key_id sub = Some k \<longrightarrow> stripped s3 k" by blast
  have "revoke_entitlement ref False ev s = (Inr (), s3)"
    using fresh get s1(1) s2(1) s3(1)
    by (simp add: revoke_entitlement_def revoke_entitlement_row_def seqE_def bindE_def)
  with s3 s2(6,7) s1(7) show ?thesis by (auto simp: row_of_def)
qed

theorem revoke_cuts_access_witness:
  "find (\<lambda>r. external_ref r = ''sub_1'') (subs provisioned_db) = Some (hd (subs provisioned_db)) \<and>
   (\<exists>s'. revoke_entitlement ''sub_1'' False (Some 300) provisioned_db = (Inr (), s') \<and> stripped s' 1)"
proof -
  have h: "faults provisioned_db = []" and key: "api_key_id (hd (subs provisioned_db)) = Some 1"
    and sub: "find (\<lambda>r. external_ref r = ''sub_1'') (subs provisioned_db) = Some (hd (subs provisioned_db))"
    and fresh: "\<not> stale_event (Some 300) (last_event_at (hd (subs provisioned_db)))"
    by code_simp+
  from revoke_cuts_access [OF h wf_provisioned_db sub fresh] key sub show ?thesis by auto
qed

text \<open>On a healthy database an update that is not stale and carries a terminal status always
  completes when the new row satisfies the table constraints: the row is the updated one and the
  key loses its paid plan just as on a revocation.\<close>

theorem terminal_update_cuts_access:
  assumes h: "faults s = []" and wf: "wf_db s"
    and sub: "find (\<lambda>r. external_ref r = ref) (subs s) = Some sub"
    and fresh: "\<not> stale_event (u_event_at u) (last_event_at sub)"
    and st: "u_status u = Some st" "st \<in> {''cancelled'', ''expired'', ''refunded'', ''past_due''}"
    and ok: "sub_ok s (updated_row u (last_event_at sub) sub)"
  shows "\<exists>s'. update_entitlement ref u s = (Inr (sub_id sub), s') \<and>
    row_of s' (sub_id sub) = Some ((updated_row u (last_event_at sub) sub)\<lparr>updated_at := clock s\<rparr>) \<and>
    (\<forall>k. api_key_id sub = Some k \<longrightarrow> stripped s' k)"
proof -
  note get = get_by_ref_healthy [OF h sub wf]
  let ?key = "case api_key_id sub of None \<Rightarrow> ret () | Some k \<Rightarrow>
    try_except (downgrade_key_to_free k) (\<lambda>e. if e = KeyError then Some (ret ()) else None)"
  have "\<exists>s1. ?key s = (Inr (), s1) \<and> subs s1 = subs s \<and> wf_db s1 \<and> faults s1 = [] \<and> same_config s s1 \<and>
      (\<forall>r. sub_ok s r \<longrightarrow> sub_ok s1 r) \<and> (\<forall>k. api_key_id sub = Some k \<longrightarrow> stripped s1 k)"
  proof (cases "api_key_id sub")
    case None
    with wf h show ?thesis by (simp add: ret_def)
  next
    case (Some k)
    from key_of_fk [OF wf get(2) Some] obtain x where "key_of s k = Some x" ..
    from downgrade_healthy [OF h wf this] Some show ?thesis by (auto simp: try_except_def)
  qed
  then obtain s1 where s1: "?key s = (Inr (), s1)" "subs s1 = subs s" "wf_db s1" "faults s1 = []"
    "same_config s s1" "\<forall>r. sub_ok s r \<longrightarrow> sub_ok s1 r" "\<forall>k. api_key_id sub = Some k \<longrightarrow> stripped s1 k" by blast
  let ?cols = "update_cols u (last_event_at sub)"
  have cols: "?cols \<noteq> []" using st(1) by (simp add: update_cols_def)
  have row1: "row_of s1 (sub_id sub) = Some sub" using get(2) s1(2) by (simp add: row_of_def)
  have "sub_ok s1 ((set_cols ?cols sub)\<lparr>updated_at := clock s1\<rparr>)"
    using ok s1(6) by (simp add: set_cols_update sub_ok_updated_at)
  from update_fields_healthy [OF s1(4,3) row1 cols update_cols_known this] obtain b s2 where s2:
    "update_fields (sub_id sub) ?cols s1 = (Inr b, s2)" "same_keys s1 s2" "same_config s1 s2"
    "row_of s2 (sub_id sub) = Some ((set_cols ?cols sub)\<lparr>updated_at := clock s1\<rparr>)" by blast
  have "update_entitlement ref u s = (Inr (sub_id sub), s2)"
    using fresh get st s1(1) s2(1) cols
    by (simp add: update_entitlement_def update_entitlement_row_def TERMINAL_STATUSES_def seqE_def bindE_def
        ret_def Let_def cong: option.case_cong)
  moreover have "stripped s2 k" if "api_key_id sub = Some k" for k
    using s1(7) that s2(2,3) by (auto simp: stripped_def same_keys_def key_of_def free_plan_config)
  ultimately show ?thesis using s2(4) s1(5) by (simp add: set_cols_update same_config_def)
qed

theorem terminal_update_cuts_access_witness:
  "\<exists>s'. update_entitlement ''sub_1'' (sample_update\<lparr>u_event_at := Some 300\<rparr>) provisioned_db = (Inr 1, s') \<and>
     stripped s' 1"
proof -
  let ?u = "sample_update\<lparr>u_event_at := Some 300\<rparr>" and ?sub = "hd (subs provisioned_db)"
  have h: "faults provisioned_db = []" and key: "api_key_id ?sub = Some 1" "sub_id ?sub = 1"
    and sub: "find (\<lambda>r. external_ref r = ''sub_1'') (subs provisioned_db) = Some ?sub"
    and fresh: "\<not> stale_event (u_event_at ?u) (last_event_at ?sub)"
    and st: "u_status ?u = Some ''refunded''"
      "''refunded'' \<in> {''cancelled'', ''expired'', ''refunded'', ''past_due''}"
    and ok: "sub_ok provisioned_db (updated_row ?u (last_event_at ?sub) ?sub)"
    by code_simp+
  from terminal_update_cuts_access [OF h wf_provisioned_db sub fresh st ok] key show ?thesis by auto
qed

text \<open>A voluntary cancellation only schedules: on any outcome the status, plan, seats and
  watermark of every subscription and every API key stay as they are, and when it returns the
  subscription is marked to end with its period.\<close>

theorem voluntary_revoke_keeps_access:
  assumes wf: "wf_db s" and sub: "find (\<lambda>r. external_ref r = ref) (subs s) = Some sub"
    and run: "revoke_entitlement ref True ev s = (res, s')"
  shows "api_keys s' = api_keys s \<and> plan_cache s' = plan_cache s \<and>
    (\<forall>i r. row_of s i = Some r \<longrightarrow> (\<exists>r'. row_of s' i = Some r' \<and> status r' = status r \<and>
      plan_id r' = plan_id r \<and> seats r' = seats r \<and> last_event_at r' = last_event_at r)) \<and>
    (res = Inr () \<longrightarrow> (\<exists>r'. row_of s' (sub_id sub) = Some r' \<and> cancel_at_period_end r'))"
  using run unfolding revoke_entitlement_def
proof (cases rule: bindE_cases)
  case (raised e)
  from stepsD [OF reads_plan_checks(6) raised(1)] raised(2) show ?thesis by (auto simp: same_tables_def)
next
  case (returned row s1)
  note s1 = get_by_ref_run(1,2) [OF returned(1)]
  have row1: "row_of s1 (sub_id sub) = Some sub" and wf1: "wf_db s1"
    using wf s1(1) find_pred_Some [OF sub] row_of_member [OF wf] by (auto simp: same_tables_def)
  let ?f = "\<lambda>r. r\<lparr>cancel_at_period_end := True, cancelled_at := Some (clock s1)\<rparr>"
  from returned(2) s1 sub have "schedule_cancellation (sub_id sub) s1 = (res, s')"
    by (simp add: revoke_entitlement_row_def)
  then obtain n where upd: "update_subs (\<lambda>r. sub_id r = sub_id sub) ?f s1 = (n, s')"
    and n: "res = Inr () \<longrightarrow> (\<exists>m. n = Inr m)"
    unfolding schedule_cancellation_def by (auto elim!: bindE_cases seqE_cases simp: gets_def ret_def)
  have keys: "same_keys s1 s'" by (rule stepsD [OF keeps_update_subs upd])
  have rows: "rows_step same_terms s1 s'"
    by (rule update_subs_step [OF upd]) (simp_all add: same_identity_def same_terms_def)
  have flag: "\<exists>r'. row_of s' (sub_id sub) = Some r' \<and> cancel_at_period_end r'" if "res = Inr ()"
  proof -
    from n that obtain m where "update_subs (\<lambda>r. sub_id r = sub_id sub) ?f s1 = (Inr m, s')"
      using upd by auto
    from row_of_update_subs [OF this, of "sub_id sub"] row1 show ?thesis by (simp add: same_identity_def)
  qed
  have "\<exists>r'. row_of s' i = Some r' \<and> same_terms r r'" if "row_of s i = Some r" for i r
    using rows wf1 that s1(1) by (auto simp: rows_step_def same_tables_def)
  with keys flag s1(1) show ?thesis
    by (fastforce simp: same_terms_def same_keys_def same_tables_def)
qed

theorem voluntary_revoke_keeps_access_witness:
  "find (\<lambda>r. external_ref r = ''sub_1'') (subs provisioned_db) = Some (hd (subs provisioned_db)) \<and>
   api_keys (snd (revoke_entitlement ''sub_1'' True None provisioned_db)) = api_keys provisioned_db"
proof -
  have sub: "find (\<lambda>r. external_ref r = ''sub_1'') (subs provisioned_db) = Some (hd (subs provisioned_db))"
    by code_simp
  from voluntary_revoke_keeps_access [OF wf_provisioned_db sub surjective_pairing] sub show ?thesis by blast
qed

subsection \<open>Behaviours at odds with the documented intent\<close>

definition sample_grant :: entitlement_grant where
  "sample_grant = \<lparr>g_plan_id = 2, g_external_ref = ''sub_1'', g_source = ''polar'', g_seats = 1,
     g_buyer_email = Some ''ann@x.io'', g_amount_cents = Some 900, g_currency = Some ''USD'',
     g_billing_interval = Some ''monthly'', g_period_start = None, g_period_end = None, g_trial_ends_at = None\<rparr>"

definition cancelled_db :: db where
  "cancelled_db = sample_db\<lparr>subs := [sample_sub\<lparr>status := ''cancelled'', last_event_at := Some 300\<rparr>]\<rparr>"

text \<open>A stale grant still provisions: a grant event from time 100 that is redelivered after the
  subscription was cancelled at time 300 leaves the status cancelled, as the monotonic guard
  demands, and yet mints the verified buyer an active key on the paid plan.\<close>

theorem stale_grant_provisions_cancelled:
  "case grant_entitlement sample_grant (Some 100) cancelled_db of (r, s') \<Rightarrow>
     r = Inr 1 \<and> map_option status (row_of s' 1) = Some ''cancelled'' \<and>
     map_option (\<lambda>x. (key_active x, key_plan_id x)) (key_of s' 1) = Some (True, 2)"
  by code_simp

text \<open>A regrant after a cancellation does not restore the key: once a provisioned subscription
  was revoked, a newer grant makes the row active on the paid plan again while its key stays on
  the free plan, because provisioning stops at the key link that is already there.\<close>

theorem regrant_leaves_key_free:
  "case revoke_entitlement ''sub_1'' False (Some 300) provisioned_db of (_, s1) \<Rightarrow>
   case grant_entitlement sample_grant (Some 400) s1 of (r, s2) \<Rightarrow>
     r = Inr 1 \<and> map_option (\<lambda>x. (status x, plan_id x)) (row_of s2 1) = Some (''active'', 2) \<and>
     free_plan s2 = Some 1 \<and> map_option key_plan_id (key_of s2 1) = Some 1"
  by code_simp

text \<open>A follow-up grant without the buyer address is refused although the stored row has one and
  is claimed: the constraint on orphan rows is checked on the proposed row, before the conflict is
  resolved, so the COALESCE of the address never gets a chance.\<close>

theorem regrant_without_email_rejected:
  "fst (grant_entitlement (sample_grant\<lparr>g_buyer_email := None\<rparr>) (Some 400) provisioned_db) = Inl IntegrityError \<and>
   map_option buyer_email (row_of provisioned_db 1) = Some (Some ''ann@x.io'') \<and>
   map_option claimed_user_id (row_of provisioned_db 1) = Some (Some 7)"
  by code_simp

text \<open>The guard of \<open>update_entitlement\<close> is a read followed by a write, so two deliveries that
  both read the row first can undo each other: after the cancellation of time 300 has been
  written, the older update of time 200 takes the watermark back to 200, makes the subscription
  active again and returns its key to the paid plan.\<close>

theorem concurrent_updates_regress:
  "case row_of provisioned_db 1 of None \<Rightarrow> False | Some sub \<Rightarrow>
   (case update_entitlement_row sub (sample_update\<lparr>u_status := Some ''cancelled'', u_event_at := Some 300\<rparr>) provisioned_db of
     (r1, s1) \<Rightarrow>
   (case update_entitlement_row sub (sample_update\<lparr>u_status := Some ''active'', u_event_at := Some 200\<rparr>) s1 of
     (r2, s2) \<Rightarrow>
      r1 = Inr 1 \<and> r2 = Inr 1 \<and>
      map_option (\<lambda>x. (status x, last_event_at x)) (row_of s1 1) = Some (''cancelled'', Some 300) \<and>
      map_option key_plan_id (key_of s1 1) = Some 1 \<and>
      map_option (\<lambda>x. (status x, last_event_at x)) (row_of s2 1) = Some (''active'', Some 200) \<and>
      map_option key_plan_id (key_of s2 1) = Some 2))"
  by code_simp

definition two_subs_db :: db where
  "two_subs_db = provisioned_db\<lparr>subs := subs provisioned_db @
     [sample_sub\<lparr>sub_id := 2, external_ref := ''sub_2'', claimed_user_id := Some 7, api_key_id := Some 1\<rparr>],
     sub_seq := 2\<rparr>"

text \<open>A key shared by two subscriptions loses both with one: provisioning puts every
  subscription of a user on the same active key, and revoking one of them moves that key to the
  free plan while the other subscription is still active on the paid plan. In the same way a
  terminal update takes a key off the unlimited plan, which the ranking says a vendor event must
  never do.\<close>

theorem revoke_strips_shared_key:
  "wf_db two_subs_db \<and>
   (case revoke_entitlement ''sub_1'' False (Some 300) two_subs_db of (r, s') \<Rightarrow>
      r = Inr () \<and> map_option (\<lambda>x. (status x, plan_id x, api_key_id x)) (row_of s' 2) = Some (''active'', 2, Some 1) \<and>
      map_option key_plan_id (key_of s' 1) = Some 1) \<and>
   (case set_api_key_plan_and_overrides 1 3 None None False False provisioned_db of (_, s1) \<Rightarrow>
    case update_entitlement ''sub_1'' (sample_update\<lparr>u_status := Some ''past_due'', u_event_at := Some 300\<rparr>) s1 of
      (r, s2) \<Rightarrow> r = Inr 1 \<and> map_option key_plan_id (key_of s1 1) = Some 3 \<and> map_option key_plan_id (key_of s2 1) = Some 1)"
  by code_simp

end
