(* ===== verification/Incremental.thy ===== *)
theory Incremental
  imports Py_Strings "HOL-Library.Product_Lexorder"
begin

section \<open>Git change detection (src/indexer/incremental.py)\<close>

text \<open>
  What changed between two commits of a repository: the module directories to parse again and
  the manifests added, deleted or renamed. Git is the parameter \<open>git\<close>: the answer of
  \<open>_git_z\<close> (the fields of a NUL-delimited command, None on failure) to an argument list.
  The file system is the parameter \<open>is_file\<close>. Paths are those git prints: relative, with
  \<^verbatim>\<open>/\<close> between components.
\<close>

type_synonym git_oracle = "string list \<Rightarrow> string list option"

definition MANIFEST_FILENAMES :: "string list" where
  "MANIFEST_FILENAMES = [''__manifest__.py'', ''__openerp__.py'']"

subsection \<open>Changed module directories\<close>

text \<open>The nearest of a directory and its ancestors with a property; the components come last first.\<close>

fun nearest_up :: "(string \<Rightarrow> bool) \<Rightarrow> string list \<Rightarrow> string option" where
  "nearest_up P [] = None"
| "nearest_up P (w # ws) =
     (let d = path_str (rev (w # ws)) in if P d then Some d else nearest_up P ws)"

definition has_manifest :: "(string \<Rightarrow> bool) \<Rightarrow> string \<Rightarrow> bool" where
  "has_manifest is_file d = list_ex (\<lambda>m. is_file (d @ ''/'' @ m)) MANIFEST_FILENAMES"

definition module_dir_of :: "(string \<Rightarrow> bool) \<Rightarrow> string \<Rightarrow> string option" where
  "module_dir_of is_file f =
     nearest_up (has_manifest is_file) (rev (butlast (path_parts f)))"

definition compute_changed_module_paths :: "(string \<Rightarrow> bool) \<Rightarrow> string list option \<Rightarrow> string set" where
  "compute_changed_module_paths is_file diff_lines =
     (case diff_lines of
        None \<Rightarrow> {}
      | Some ls \<Rightarrow> set (List.map_filter (module_dir_of is_file) (filter (\<lambda>l. strip l \<noteq> []) ls)))"

definition filter_modules_by_changed ::
  "('m \<Rightarrow> string) \<Rightarrow> (string \<times> 'm) list \<Rightarrow> string set \<Rightarrow> (string \<times> 'm) list" where
  "filter_modules_by_changed path_of modules changed = filter (\<lambda>(n, m). path_of m \<in> changed) modules"

subsection \<open>Manifest changes\<close>

record manifest_change =
  mc_status :: string
  mc_path :: string
  mc_old_path :: "string option"
  mc_similarity :: "int option"

definition mc_name :: "manifest_change \<Rightarrow> string" where
  "mc_name c = path_name (path_parent (mc_path c))"

definition mc_old_name :: "manifest_change \<Rightarrow> string option" where
  "mc_old_name c = (case mc_old_path c of
     None \<Rightarrow> None | Some p \<Rightarrow> if p = [] then None else Some (path_name (path_parent p)))"

definition mc_module_dir :: "manifest_change \<Rightarrow> string" where
  "mc_module_dir c = path_parent (mc_path c)"

type_synonym status_entry = "string \<times> int option \<times> string \<times> string option"

fun parse_name_status :: "string list \<Rightarrow> status_entry list" where
  "parse_name_status [] = []"
| "parse_name_status (code # rest) =
     (if take 1 code = ''R'' \<or> take 1 code = ''C''
      then (case rest of
              old # new # rest2 \<Rightarrow>
                (take 1 code, if drop 1 code = [] then None else py_int (drop 1 code), new, Some old) #
                parse_name_status rest2
            | _ \<Rightarrow> [])
      else (case rest of
              p # rest2 \<Rightarrow> (take 1 code, None, p, None) # parse_name_status rest2
            | [] \<Rightarrow> []))"

definition is_manifest :: "string \<Rightarrow> bool" where
  "is_manifest p = (p \<noteq> [] \<and> path_name p \<in> set MANIFEST_FILENAMES)"

definition dir_prefix :: "string \<Rightarrow> string" where
  "dir_prefix d = rev (dropWhile (\<lambda>c. c = CHR ''/'') (rev d)) @ ''/''"

definition renamed_into :: "string \<Rightarrow> string \<Rightarrow> status_entry \<Rightarrow> bool" where
  "renamed_into old_dir new_dir e =
     (case e of (kind, _, p, old) \<Rightarrow>
        kind = ''R'' \<and> (case old of None \<Rightarrow> False
          | Some q \<Rightarrow> q \<noteq> [] \<and> startswith q (dir_prefix old_dir) \<and> startswith p (dir_prefix new_dir)))"

definition rename_is_directory_majority ::
  "git_oracle \<Rightarrow> string \<Rightarrow> string \<Rightarrow> string \<Rightarrow> string \<Rightarrow> bool option" where
  "rename_is_directory_majority git old_sha new_sha old_dir new_dir =
     (if old_dir \<in> {[], ''.''} \<or> new_dir \<in> {[], ''.''} then Some False
      else case git [''ls-tree'', ''-r'', ''-z'', ''--name-only'', old_sha, ''--'', old_dir] of
        None \<Rightarrow> None
      | Some old_files \<Rightarrow>
          if old_files = [] then Some False
          else (case git [''diff'', ''--name-status'', ''-z'', ''-M'', old_sha @ ''..'' @ new_sha, ''--'', old_dir, new_dir] of
             None \<Rightarrow> None
           | Some moved \<Rightarrow>
               Some (2 * length (filter (renamed_into old_dir new_dir) (parse_name_status moved)) > length old_files)))"

definition change :: "string \<Rightarrow> string \<Rightarrow> manifest_change" where
  "change st p = \<lparr>mc_status = st, mc_path = p, mc_old_path = None, mc_similarity = None\<rparr>"

text \<open>One entry of the manifest diff; None is a failed directory check, which ends the function.\<close>

definition entry_changes :: "git_oracle \<Rightarrow> string \<Rightarrow> string \<Rightarrow> status_entry \<Rightarrow> manifest_change list option" where
  "entry_changes git old_sha new_sha e =
     (case e of (kind, similarity, p, old) \<Rightarrow>
        if kind = ''R''
        then let old_m = (case old of None \<Rightarrow> False | Some q \<Rightarrow> is_manifest q); q = (case old of None \<Rightarrow> [] | Some q \<Rightarrow> q)
             in if \<not> is_manifest p \<and> \<not> old_m then Some []
                else if \<not> (is_manifest p \<and> old_m)
                then Some ((if old_m then [change ''D'' q] else []) @ (if is_manifest p then [change ''A'' p] else []))
                else (case rename_is_directory_majority git old_sha new_sha (path_parent q) (path_parent p) of
                   None \<Rightarrow> None
                 | Some True \<Rightarrow> Some [\<lparr>mc_status = ''R'', mc_path = p, mc_old_path = old, mc_similarity = similarity\<rparr>]
                 | Some False \<Rightarrow> Some [change ''D'' q, change ''A'' p])
        else if (kind = ''A'' \<or> kind = ''D'') \<and> is_manifest p then Some [change kind p]
        else Some [])"

fun all_changes :: "git_oracle \<Rightarrow> string \<Rightarrow> string \<Rightarrow> status_entry list \<Rightarrow> manifest_change list option" where
  "all_changes git a b [] = Some []"
| "all_changes git a b (e # es) =
     (case entry_changes git a b e of
        None \<Rightarrow> None
      | Some cs \<Rightarrow> map_option (\<lambda>rest. cs @ rest) (all_changes git a b es))"

definition compute_manifest_changes :: "git_oracle \<Rightarrow> string \<Rightarrow> string \<Rightarrow> manifest_change list" where
  "compute_manifest_changes git old_sha new_sha =
     (case git ([''diff'', ''--name-status'', ''-z'', ''-M'', ''--diff-filter=ADR'', old_sha @ ''..'' @ new_sha, ''--''] @
            map (\<lambda>m. ''*'' @ m) MANIFEST_FILENAMES) of
        None \<Rightarrow> []
      | Some flds \<Rightarrow>
          (case all_changes git old_sha new_sha (parse_name_status flds) of
             None \<Rightarrow> []
           | Some cs \<Rightarrow> sort_key (\<lambda>c. (mc_path c, mc_status c)) cs))"

subsection \<open>Properties\<close>

text \<open>How git prints an entry (the score has three digits), and that the parser reads back what git
  prints.\<close>

definition score_field :: "nat \<Rightarrow> string" where
  "score_field n = replicate (3 - length (str_nat n)) (CHR ''0'') @ str_nat n"

fun name_status_fields :: "status_entry \<Rightarrow> string list" where
  "name_status_fields (kind, sim, p, None) = [kind, p]"
| "name_status_fields (kind, sim, p, Some old) =
     [kind @ (case sim of None \<Rightarrow> [] | Some n \<Rightarrow> score_field (nat n)), old, p]"

fun entry_ok :: "status_entry \<Rightarrow> bool" where
  "entry_ok (kind, sim, p, None) = (length kind = 1 \<and> kind \<notin> {''R'', ''C''} \<and> sim = None)"
| "entry_ok (kind, sim, p, Some old) =
     (kind \<in> {''R'', ''C''} \<and> (case sim of None \<Rightarrow> True | Some n \<Rightarrow> 0 \<le> n))"

lemma parse_entry:
  assumes "entry_ok e"
  shows "parse_name_status (name_status_fields e @ fs) = e # parse_name_status fs"
proof -
  obtain kind sim p old where e: "e = (kind, sim, p, old)" by (cases e)
  show ?thesis
    using assms by (cases old; cases sim) (auto simp: e score_field_def)
qed

text \<open>C33. The parser of \<^verbatim>\<open>git diff --name-status -z\<close> reads back every list of entries from the
  fields git prints for it, rename scores included.\<close>

theorem parse_name_status_roundtrip:
  assumes "list_all entry_ok es"
  shows "parse_name_status (concat (map name_status_fields es)) = es"
  using assms by (induction es) (simp_all add: parse_entry)

theorem parse_name_status_roundtrip_witness:
  "parse_name_status [''R093'', ''a/__manifest__.py'', ''b/__manifest__.py'', ''D'', ''c''] =
     [(''R'', Some 93, ''b/__manifest__.py'', Some ''a/__manifest__.py''), (''D'', None, ''c'', None)]"
proof -
  have "list_all entry_ok [(''R'', Some 93, ''b/__manifest__.py'', Some ''a/__manifest__.py''), (''D'', None, ''c'', None)]"
    by code_simp
  moreover have "concat (map name_status_fields [(''R'', Some 93, ''b/__manifest__.py'', Some ''a/__manifest__.py''), (''D'', None, ''c'', None)]) =
      [''R093'', ''a/__manifest__.py'', ''b/__manifest__.py'', ''D'', ''c'']"
    by code_simp
  ultimately show ?thesis using parse_name_status_roundtrip by metis
qed

lemma directory_majority_iff:
  "rename_is_directory_majority git a b d d' = Some True \<longleftrightarrow> d \<notin> {[], ''.''} \<and> d' \<notin> {[], ''.''} \<and>
     (\<exists>files moved. git [''ls-tree'', ''-r'', ''-z'', ''--name-only'', a, ''--'', d] = Some files \<and> files \<noteq> [] \<and>
        git [''diff'', ''--name-status'', ''-z'', ''-M'', a @ ''..'' @ b, ''--'', d, d'] = Some moved \<and>
        length files < 2 * length (filter (renamed_into d d') (parse_name_status moved)))"
  unfolding rename_is_directory_majority_def
  by (cases "git [''ls-tree'', ''-r'', ''-z'', ''--name-only'', a, ''--'', d]";
      cases "git [''diff'', ''--name-status'', ''-z'', ''-M'', a @ ''..'' @ b, ''--'', d, d']") auto

lemma entry_changes_sound:
  assumes "entry_changes git a b e = Some cs" and "c \<in> set cs"
  shows "is_manifest (mc_path c) \<and> (mc_status c \<in> {''A'', ''D''} \<and> mc_old_path c = None \<or>
    mc_status c = ''R'' \<and> (\<exists>q. mc_old_path c = Some q \<and> is_manifest q \<and>
      rename_is_directory_majority git a b (path_parent q) (mc_module_dir c) = Some True))"
  using assms
  by (auto simp: entry_changes_def change_def Let_def mc_module_dir_def split: prod.splits if_splits option.splits bool.splits)

lemma all_changes_sound:
  assumes "all_changes git a b es = Some cs" and "c \<in> set cs"
  shows "\<exists>e \<in> set es. \<exists>cs'. entry_changes git a b e = Some cs' \<and> c \<in> set cs'"
  using assms
  by (induction es arbitrary: cs) (fastforce split: option.splits)+

text \<open>Every change reported is about a manifest, the list is in order of path and status, and a
  rename is reported only between two manifests for which git shows that more than half of the
  files of the old module directory were renamed into the new one.\<close>

theorem manifest_changes_sound:
  assumes "c \<in> set (compute_manifest_changes git a b)"
  shows "is_manifest (mc_path c) \<and> mc_status c \<in> {''A'', ''D'', ''R''} \<and>
    sorted (map (\<lambda>c. (mc_path c, mc_status c)) (compute_manifest_changes git a b)) \<and>
    (mc_status c = ''R'' \<longrightarrow> (\<exists>q files moved. mc_old_path c = Some q \<and> is_manifest q \<and>
      git [''ls-tree'', ''-r'', ''-z'', ''--name-only'', a, ''--'', path_parent q] = Some files \<and>
      git [''diff'', ''--name-status'', ''-z'', ''-M'', a @ ''..'' @ b, ''--'', path_parent q, mc_module_dir c] = Some moved \<and>
      length files < 2 * length (filter (renamed_into (path_parent q) (mc_module_dir c)) (parse_name_status moved))))"
proof -
  from assms obtain flds cs where "all_changes git a b (parse_name_status flds) = Some cs" and "c \<in> set cs"
    by (auto simp: compute_manifest_changes_def split: option.splits) metis
  then obtain e cs' where e: "entry_changes git a b e = Some cs'" "c \<in> set cs'"
    by (blast dest: all_changes_sound)
  have "sorted (map (\<lambda>c. (mc_path c, mc_status c)) (compute_manifest_changes git a b))"
    by (simp add: compute_manifest_changes_def split: option.split)
  with entry_changes_sound [OF e] show ?thesis
    unfolding directory_majority_iff by auto
qed

definition sample_git :: git_oracle where
  "sample_git args =
     (if hd args = ''ls-tree'' then Some [''a/__manifest__.py'', ''a/m.py'']
      else if last args = ''*__openerp__.py'' then Some [''R093'', ''a/__manifest__.py'', ''b/__manifest__.py'']
      else Some [''R093'', ''a/__manifest__.py'', ''b/__manifest__.py'', ''R100'', ''a/m.py'', ''b/m.py''])"

theorem manifest_changes_sound_witness:
  "\<exists>c \<in> set (compute_manifest_changes sample_git ''x'' ''y''). mc_status c = ''R'' \<and> is_manifest (mc_path c)"
proof -
  have eq: "compute_manifest_changes sample_git ''x'' ''y'' = [\<lparr>mc_status = ''R'', mc_path = ''b/__manifest__.py'',
      mc_old_path = Some ''a/__manifest__.py'', mc_similarity = Some 93\<rparr>]"
    by code_simp
  then have "hd (compute_manifest_changes sample_git ''x'' ''y'') \<in> set (compute_manifest_changes sample_git ''x'' ''y'')"
    by simp
  from manifest_changes_sound [OF this] show ?thesis by (simp add: eq)
qed

lemma nearest_up_Some:
  "nearest_up P ws = Some d \<longleftrightarrow>
     (\<exists>k < length ws. d = path_str (rev (drop k ws)) \<and> P d \<and> (\<forall>j < k. \<not> P (path_str (rev (drop j ws)))))"
proof (induction ws)
  case (Cons w ws)
  show ?case
  proof (cases "P (path_str (rev (w # ws)))")
    case True
    then show ?thesis
      by (auto simp: Let_def) (metis drop0 gr_zeroI rev.simps(2))
  next
    case False
    have "nearest_up P (w # ws) = nearest_up P ws" using False by (simp add: Let_def)
    also have "(nearest_up P ws = Some d) = (\<exists>k < length (w # ws). d = path_str (rev (drop k (w # ws))) \<and> P d \<and>
        (\<forall>j < k. \<not> P (path_str (rev (drop j (w # ws))))))"
    proof
      assume "nearest_up P ws = Some d"
      with Cons.IH obtain k where k: "k < length ws" "d = path_str (rev (drop k ws))" "P d"
        "\<forall>j < k. \<not> P (path_str (rev (drop j ws)))" by blast
      have "\<forall>j < Suc k. \<not> P (path_str (rev (drop j (w # ws))))"
        using k(4) False by (auto simp: less_Suc_eq_0_disj)
      with k show "\<exists>k < length (w # ws). d = path_str (rev (drop k (w # ws))) \<and> P d \<and>
        (\<forall>j < k. \<not> P (path_str (rev (drop j (w # ws)))))"
        by (intro exI [of _ "Suc k"]) auto
    next
      assume "\<exists>k < length (w # ws). d = path_str (rev (drop k (w # ws))) \<and> P d \<and>
        (\<forall>j < k. \<not> P (path_str (rev (drop j (w # ws)))))"
      then obtain k where k: "k < length (w # ws)" "d = path_str (rev (drop k (w # ws)))" "P d"
        "\<forall>j < k. \<not> P (path_str (rev (drop j (w # ws))))" by blast
      with False obtain k' where k': "k = Suc k'" by (cases k) auto
      have "\<forall>j < k'. \<not> P (path_str (rev (drop j ws)))" using k(4) k' by (metis Suc_mono drop_Suc_Cons)
      with Cons.IH k k' show "nearest_up P ws = Some d" by auto
    qed
    finally show ?thesis .
  qed
qed simp

lemma nearest_up_take:
  "nearest_up P (rev ds) = Some d \<longleftrightarrow>
     (\<exists>n \<in> {0 <.. length ds}. d = path_str (take n ds) \<and>
        P d \<and>
        (\<forall>m \<in> {n <.. length ds}.
           \<not> P (path_str (take m ds))))"
  (is "?l \<longleftrightarrow> ?r")
proof -
  have rv: "rev (drop k (rev ds)) = take (length ds - k) ds" for k
    by (simp add: rev_drop)
  have "?l \<longleftrightarrow> (\<exists>k < length ds. d = path_str (take (length ds - k) ds) \<and> P d \<and>
      (\<forall>j < k. \<not> P (path_str (take (length ds - j) ds))))"
    by (simp only: nearest_up_Some rv length_rev)
  also have "\<dots> \<longleftrightarrow> ?r"
  proof
    assume "\<exists>k < length ds. d = path_str (take (length ds - k) ds) \<and> P d \<and>
      (\<forall>j < k. \<not> P (path_str (take (length ds - j) ds)))"
    then obtain k where k: "k < length ds" "d = path_str (take (length ds - k) ds)" "P d"
      "\<forall>j < k. \<not> P (path_str (take (length ds - j) ds))" by blast
    have "\<not> P (path_str (take m ds))" if "m \<in> {length ds - k <.. length ds}" for m
    proof -
      have "length ds - m < k" "length ds - (length ds - m) = m" using that k(1) by auto
      with k(4) show ?thesis by fastforce
    qed
    with k show ?r by (intro bexI [of _ "length ds - k"]) auto
  next
    assume ?r
    then obtain n where n: "n \<in> {0 <.. length ds}" "d = path_str (take n ds)" "P d"
      "\<forall>m \<in> {n <.. length ds}. \<not> P (path_str (take m ds))" by blast
    have "\<not> P (path_str (take (length ds - j) ds))" if "j < length ds - n" for j
      using n(1,4) that by auto
    with n show "\<exists>k < length ds. d = path_str (take (length ds - k) ds) \<and> P d \<and>
      (\<forall>j < k. \<not> P (path_str (take (length ds - j) ds)))"
      by (intro exI [of _ "length ds - n"]) auto
  qed
  finally show ?thesis .
qed

text \<open>A changed file is attributed to the nearest enclosing directory that has a manifest: the
  directory is an ancestor of the file, has a manifest, and no directory between it and the file
  has one; a file below no such directory adds nothing.\<close>

theorem module_dir_nearest:
  "module_dir_of is_file f = Some d \<longleftrightarrow>
     (\<exists>n \<in> {0 <.. length (butlast (path_parts f))}. d = path_str (take n (butlast (path_parts f))) \<and>
        has_manifest is_file d \<and>
        (\<forall>m \<in> {n <.. length (butlast (path_parts f))}.
           \<not> has_manifest is_file (path_str (take m (butlast (path_parts f))))))"
  unfolding module_dir_of_def by (rule nearest_up_take)

theorem module_dir_nearest_witness:
  "module_dir_of (\<lambda>p. p \<in> {''addons/sale/__manifest__.py'', ''addons/__openerp__.py''}) ''addons/sale/models/a.py'' =
     Some ''addons/sale''"
proof -
  let ?f = "\<lambda>p. p \<in> {''addons/sale/__manifest__.py'', ''addons/__openerp__.py''}"
  have ds: "butlast (path_parts ''addons/sale/models/a.py'') = [''addons'', ''sale'', ''models'']" by code_simp
  have two: "path_str (take 2 [''addons'', ''sale'', ''models'']) = ''addons/sale''"
    and has: "has_manifest ?f ''addons/sale''"
    and no: "\<not> has_manifest ?f (path_str (take 3 [''addons'', ''sale'', ''models'']))" by code_simp+
  have "m = 3" if "m \<in> {2 <.. length [''addons'', ''sale'', ''models'']}" for m :: nat
    using that by auto
  then have "\<forall>m \<in> {2 <.. length [''addons'', ''sale'', ''models'']}.
      \<not> has_manifest ?f (path_str (take m [''addons'', ''sale'', ''models'']))"
    using no by blast
  with two has show ?thesis
    by (subst module_dir_nearest) (intro bexI [of _ 2]; simp add: ds)
qed

end
