(* ===== verification/Lifecycle.thy ===== *)
theory Lifecycle
  imports Incremental
begin

section \<open>Module lifecycle (src/indexer/lifecycle.py)\<close>

text \<open>
  What changed between the presence ledger of a repository and a fresh scan of it
  (\<open>classify\<close>), whether retirement may proceed (\<open>apply_gates\<close>), and who succeeds a
  retired module (\<open>pick_successors\<close>, \<open>merged_into\<close>, \<open>removal_evidence\<close>). Of a
  \<open>RegistryScan\<close> the model keeps what these functions read; \<open>mi_rel_path\<close> is
  \<open>info.relative_path(info.path)\<close>. A dict is an association list, a set the list of its
  elements. The operator messages are the constructors of \<open>gate_reason\<close>. Logging, and with
  it \<open>merge_subject_target\<close>, is left out.
\<close>

subsection \<open>Scan and ledger\<close>

record module_info =
  mi_rel_path :: "string option"
  old_technical_name :: "string option"

record excluded_module =
  ex_reason :: string
  ex_path :: string

record registry_scan =
  scan_branch :: "string option"
  scan_modules :: "(string \<times> (string \<times> module_info) list) list"
  scan_excluded :: "(string \<times> excluded_module) list"
  scan_missing :: "string list"
  scan_unreadable :: "string list"
  scan_complete :: bool

definition present_names :: "registry_scan \<Rightarrow> string list" where
  "present_names scan = remdups (concat (map (\<lambda>(v, mods). map fst mods) (scan_modules scan)))"

fun module_in :: "(string \<times> (string \<times> module_info) list) list \<Rightarrow> string \<Rightarrow> module_info option" where
  "module_in [] n = None"
| "module_in ((v, mods) # rest) n = (case map_of mods n of Some i \<Rightarrow> Some i | None \<Rightarrow> module_in rest n)"

definition scan_module :: "registry_scan \<Rightarrow> string \<Rightarrow> module_info option" where
  "scan_module scan n = module_in (scan_modules scan) n"

record presence_row =
  row_name :: string
  row_state :: "string option"
  row_reason :: "string option"
  row_path :: "string option"

definition prev_names :: "presence_row list \<Rightarrow> string list" where
  "prev_names rows = remdups (filter (\<lambda>n. n \<noteq> []) (map row_name rows))"

text \<open>The last row of a name wins, as in the dict the code fills.\<close>

definition prev_row :: "presence_row list \<Rightarrow> string \<Rightarrow> presence_row option" where
  "prev_row rows n = (if n = [] then None else find (\<lambda>r. row_name r = n) (rev rows))"

subsection \<open>Transitions\<close>

definition reconcile_may_retry :: "string option \<Rightarrow> bool" where
  "reconcile_may_retry blocked_by =
     (case blocked_by of
        None \<Rightarrow> True
      | Some b \<Rightarrow> b = [] \<or> b = ''skipped_recent'' \<or> startswith b ''undecidable:'' \<or> startswith b ''error:'')"

record transition =
  t_name :: string
  t_before :: "string option"
  t_after :: string
  t_before_reason :: "string option"
  t_after_reason :: "string option"
  t_path :: "string option"
  t_old_path :: "string option"

definition kind :: "transition \<Rightarrow> string" where
  "kind t =
     (if t_before t = None then ''added''
      else if t_before t = Some ''retired'' then ''resurrected''
      else if t_after t = ''retired'' then ''retired''
      else if t_before t = Some (t_after t) then ''unchanged''
      else if t_after t = ''excluded'' then ''excluded''
      else ''included'')"

definition is_soft_drop :: "transition \<Rightarrow> bool" where
  "is_soft_drop t =
     (t_before t = Some ''present'' \<and>
      (t_after t = ''retired'' \<or> t_after t = ''excluded'' \<and> t_after_reason t = Some ''unparseable''))"

record transitions =
  t_items :: "transition list"
  n_present_before :: nat

definition of_kind :: "transitions \<Rightarrow> string \<Rightarrow> transition list" where
  "of_kind ts k = filter (\<lambda>t. kind t = k) (t_items ts)"

definition retired :: "transitions \<Rightarrow> transition list" where
  "retired ts = of_kind ts ''retired''"

definition soft_drops :: "transitions \<Rightarrow> transition list" where
  "soft_drops ts = filter is_soft_drop (t_items ts)"

definition changed :: "transitions \<Rightarrow> transition list" where
  "changed ts = filter (\<lambda>t. kind t \<noteq> ''unchanged'' \<or> t_old_path t \<noteq> None \<or>
     t_before_reason t \<noteq> t_after_reason t) (t_items ts)"

text \<open>State, reason and directory of a name in the scan.\<close>

definition now_entry :: "registry_scan \<Rightarrow> string \<Rightarrow> (string \<times> string option \<times> string option) option" where
  "now_entry scan n =
     (if n \<in> set (present_names scan)
      then Some (''present'', None, case scan_module scan n of None \<Rightarrow> None | Some i \<Rightarrow> mi_rel_path i)
      else case map_of (scan_excluded scan) n of
        None \<Rightarrow> None
      | Some ex \<Rightarrow> Some (''excluded'', Some (ex_reason ex), Some (ex_path ex)))"

definition nonempty :: "string option \<Rightarrow> bool" where
  "nonempty p = (case p of None \<Rightarrow> False | Some s \<Rightarrow> s \<noteq> [])"

definition transition_of :: "presence_row list \<Rightarrow> registry_scan \<Rightarrow> string \<Rightarrow> transition option" where
  "transition_of rows scan n =
     (let row = prev_row rows n;
          before = (case row of None \<Rightarrow> None | Some r \<Rightarrow> row_state r);
          before_reason = (case row of None \<Rightarrow> None | Some r \<Rightarrow> row_reason r);
          before_path = (case row of None \<Rightarrow> None | Some r \<Rightarrow> row_path r)
      in case now_entry scan n of
        Some (after, after_reason, p) \<Rightarrow>
          Some \<lparr>t_name = n, t_before = before, t_after = after,
            t_before_reason = (if before = Some ''excluded'' then before_reason else None),
            t_after_reason = after_reason, t_path = p,
            t_old_path = (if nonempty before_path \<and> nonempty p \<and> before_path \<noteq> p \<and> before \<noteq> Some ''retired''
              then before_path else None)\<rparr>
      | None \<Rightarrow>
          if before = Some ''present'' \<or> before = Some ''excluded''
          then Some \<lparr>t_name = n, t_before = before, t_after = ''retired'',
            t_before_reason = (if before = Some ''excluded'' then before_reason else None),
            t_after_reason = None, t_path = before_path, t_old_path = None\<rparr>
          else None)"

definition classify :: "presence_row list \<Rightarrow> registry_scan \<Rightarrow> transitions" where
  "classify rows scan =
     \<lparr>t_items = List.map_filter (transition_of rows scan)
        (sort (remdups (prev_names rows @ present_names scan @ map fst (scan_excluded scan)))),
      n_present_before = length (filter (\<lambda>n. (case prev_row rows n of None \<Rightarrow> None | Some r \<Rightarrow> row_state r) = Some ''present'')
        (prev_names rows))\<rparr>"

subsection \<open>Gates\<close>

definition mass_gate_trips :: "nat \<Rightarrow> nat \<Rightarrow> int option \<Rightarrow> string option" where
  "mass_gate_trips n_soft_drop n_before n_after =
     (let after = (case n_after of None \<Rightarrow> int n_before - int n_soft_drop | Some a \<Rightarrow> a) in
      if n_before > 0 \<and> n_soft_drop > 0 \<and> after \<le> 0 then Some ''total_wipe''
      else if 2 * n_soft_drop > n_before \<and> n_soft_drop \<ge> 20 then Some ''mass_retire''
      else None)"

definition GATE_EXEMPT_REASONS :: "string list" where
  "GATE_EXEMPT_REASONS = [''installable_false'', ''license_skip'']"

definition graph_baseline_drops :: "(string \<times> string) list \<Rightarrow> registry_scan \<Rightarrow> (string \<times> string) list" where
  "graph_baseline_drops baseline scan =
     (let covered = concat (map (\<lambda>(v, mods). map (\<lambda>m. (v, fst m)) mods) (scan_modules scan));
          exempt = map fst (filter (\<lambda>(n, ex). ex_reason ex \<in> set GATE_EXEMPT_REASONS) (scan_excluded scan))
      in sort (filter (\<lambda>p. p \<notin> set covered \<and> snd p \<notin> set exempt) (remdups baseline)))"

definition unparseable_kept :: "transitions \<Rightarrow> registry_scan \<Rightarrow> string list option \<Rightarrow> string list" where
  "unparseable_kept ts scan indexed_names =
     (let indexed = (case indexed_names of None \<Rightarrow> [] | Some ns \<Rightarrow> ns);
          was_present = map t_name (filter (\<lambda>t. t_before t = Some ''present'') (t_items ts))
      in sort (map fst (filter (\<lambda>(n, ex). ex_reason ex = ''unparseable'' \<and>
           (n \<in> set was_present \<or> n \<in> set indexed)) (scan_excluded scan))))"

datatype wipe_cause = Head_unreadable | Still_shipped nat nat | Not_in_history | History_unknown

datatype gate_reason =
    Missing_manifests nat "string list"
  | Unreadable_manifests nat "string list"
  | Tree_untrusted string
  | Total_wipe nat wipe_cause bool
  | Unparseable_manifests nat "string list"

record gate_result =
  scan_ok :: bool
  mass_ok :: bool
  n_soft_drop :: nat
  g_present_before :: nat
  tripped :: "string list"
  bypassed :: "string list"
  reasons :: "gate_reason list"
  baseline_kind :: string
  unproven :: "string list"
  allow_unproven :: bool

definition retire_allowed :: "gate_result \<Rightarrow> bool" where
  "retire_allowed g = (scan_ok g \<and> mass_ok g)"

definition kept_names :: "gate_result \<Rightarrow> string list" where
  "kept_names g = (if allow_unproven g \<or> baseline_kind g \<noteq> ''ledger'' then [] else unproven g)"

text \<open>The drops of the two baselines: their number, the number before, those kept as unparseable,
  and the unproven ones.\<close>

definition not_shown_gone :: "string list option \<Rightarrow> string \<Rightarrow> bool" where
  "not_shown_gone shipped n = (case shipped of None \<Rightarrow> True | Some ns \<Rightarrow> n \<in> set ns)"

definition graph_drops ::
  "(string \<times> string) list \<Rightarrow> registry_scan \<Rightarrow> string list option \<Rightarrow> nat \<times> nat \<times> nat \<times> string list" where
  "graph_drops base scan shipped =
     (let drops = graph_baseline_drops base scan;
          rekeyed = (\<lambda>(v, n). list_ex (\<lambda>(v2, mods). v2 \<noteq> v \<and> n \<in> fst ` set mods) (scan_modules scan));
          judged = filter (\<lambda>d. \<not> rekeyed d) drops;
          broken = (\<lambda>(v, n). (case map_of (scan_excluded scan) n of None \<Rightarrow> False | Some ex \<Rightarrow> ex_reason ex = ''unparseable''))
      in (length drops, length (remdups base), length (filter broken judged),
          map (\<lambda>(v, n). n @ ''@'' @ v)
            (filter (\<lambda>d. \<not> broken d \<and> not_shown_gone shipped (snd d)) judged)))"

definition ledger_drops :: "transitions \<Rightarrow> string list option \<Rightarrow> nat \<times> nat \<times> nat \<times> string list" where
  "ledger_drops ts shipped =
     (length (soft_drops ts), n_present_before ts,
      length (filter (\<lambda>t. t_after t \<noteq> ''retired'') (soft_drops ts)),
      map t_name (filter (\<lambda>t. t_after t = ''retired'' \<and> not_shown_gone shipped (t_name t)) (soft_drops ts)))"

definition scan_gates :: "registry_scan \<Rightarrow> bool \<Rightarrow> string list \<times> gate_reason list" where
  "scan_gates scan trusted =
     ((if scan_complete scan then [] else [''scan_incomplete'']) @ (if trusted then [] else [''scan_untrusted'']),
      (if scan_complete scan then []
       else (if scan_missing scan = [] then []
             else [Missing_manifests (length (scan_missing scan)) (take 3 (sort (scan_missing scan)))]) @
            (if scan_unreadable scan = [] then []
             else [Unreadable_manifests (length (scan_unreadable scan)) (take 3 (sort (scan_unreadable scan)))])) @
      (if trusted then [] else [Tree_untrusted (case scan_branch scan of None \<Rightarrow> ''(none)'' | Some b \<Rightarrow> if b = [] then ''(none)'' else b)]))"

definition wipe_verdict ::
  "nat \<Rightarrow> nat \<Rightarrow> string list \<Rightarrow> string list option \<Rightarrow> bool option \<Rightarrow> wipe_cause option" where
  "wipe_verdict n n_unparseable unprov shipped in_history =
     (let n_kept = length unprov + n_unparseable in
      if shipped = None then Some Head_unreadable
      else if n_kept > 0 then Some (Still_shipped n_kept n)
      else case in_history of
        Some True \<Rightarrow> None
      | Some False \<Rightarrow> Some Not_in_history
      | None \<Rightarrow> Some History_unknown)"

definition apply_gates ::
  "transitions \<Rightarrow> registry_scan \<Rightarrow> bool \<Rightarrow> bool \<Rightarrow> (string \<times> string) list option \<Rightarrow> string list option \<Rightarrow>
     string list option \<Rightarrow> bool option \<Rightarrow> gate_result" where
  "apply_gates ts scan trusted allow_mass_retire graph_baseline indexed_names shipped in_history =
     (case scan_gates scan trusted of (trip1, reasons1) \<Rightarrow>
      case (case graph_baseline of None \<Rightarrow> ledger_drops ts shipped | Some b \<Rightarrow> graph_drops b scan shipped) of
        (n, n_before, n_unparseable, unprov) \<Rightarrow>
      let gate = mass_gate_trips n n_before (Some (int (length (present_names scan))));
          cause = (if gate = Some ''total_wipe'' then wipe_verdict n n_unparseable unprov shipped in_history else None);
          held = (cause \<noteq> None \<and> \<not> allow_mass_retire);
          kept = unparseable_kept ts scan indexed_names
      in \<lparr>scan_ok = (trip1 = []), mass_ok = (\<not> held), n_soft_drop = n, g_present_before = n_before,
          tripped = trip1 @ (if held then [''total_wipe''] else []) @ (if kept \<noteq> [] then [''manifest_unparseable''] else []),
          bypassed = (if cause \<noteq> None \<and> allow_mass_retire then [''total_wipe''] else []),
          reasons = reasons1 @ (case cause of None \<Rightarrow> [] | Some c \<Rightarrow> [Total_wipe n_before c allow_mass_retire]) @
            (if kept \<noteq> [] then [Unparseable_manifests (length kept) (take 3 kept)] else []),
          baseline_kind = (if graph_baseline = None then ''ledger'' else ''graph''),
          unproven = sort unprov, allow_unproven = allow_mass_retire\<rparr>)"

subsection \<open>Successors\<close>

record successor =
  succ_names :: "string list"
  succ_source :: string

definition renames_of :: "manifest_change list \<Rightarrow> registry_scan \<Rightarrow> string \<Rightarrow> string list" where
  "renames_of changes scan old =
     sort (remdups (map mc_name (filter (\<lambda>c. mc_status c = ''R'' \<and> mc_old_name c = Some old \<and> old \<noteq> [] \<and>
       old \<noteq> mc_name c \<and> mc_name c \<in> set (present_names scan) \<union> set (map fst (scan_excluded scan))) changes)))"

definition declared_of :: "registry_scan \<Rightarrow> string \<Rightarrow> string list" where
  "declared_of scan old =
     sort (filter (\<lambda>n. (case scan_module scan n of
         None \<Rightarrow> False
       | Some i \<Rightarrow> strip (case old_technical_name i of None \<Rightarrow> [] | Some s \<Rightarrow> s) = old) \<and> old \<noteq> [] \<and> old \<noteq> n)
       (present_names scan))"

definition pick_successors ::
  "transitions \<Rightarrow> manifest_change list \<Rightarrow> registry_scan \<Rightarrow> (string \<times> successor) list" where
  "pick_successors ts changes scan =
     List.map_filter (\<lambda>t.
       if renames_of changes scan (t_name t) \<noteq> []
       then Some (t_name t, \<lparr>succ_names = renames_of changes scan (t_name t), succ_source = ''git_rename''\<rparr>)
       else if declared_of scan (t_name t) \<noteq> []
       then Some (t_name t, \<lparr>succ_names = declared_of scan (t_name t), succ_source = ''old_technical_name''\<rparr>)
       else None) (retired ts)"

definition commit_rename_pairs :: "git_oracle \<Rightarrow> string \<Rightarrow> string \<Rightarrow> (string \<times> string) list option" where
  "commit_rename_pairs git parent sha =
     map_option (\<lambda>flds. List.map_filter (\<lambda>(k, _, p, old). case old of
         Some q \<Rightarrow> if k = ''R'' \<and> q \<noteq> [] then Some (q, p) else None | None \<Rightarrow> None) (parse_name_status flds))
       (git [''diff'', ''--name-status'', ''-z'', ''-M'', parent @ ''..'' @ sha])"

definition manifest_dirs_at :: "git_oracle \<Rightarrow> string \<Rightarrow> string list option" where
  "manifest_dirs_at git revision =
     map_option (\<lambda>files. remdups (filter (\<lambda>d. d \<noteq> ''.'') (map path_parent
         (filter (\<lambda>f. path_name f \<in> set MANIFEST_FILENAMES) files))))
       (git [''ls-tree'', ''-r'', ''-z'', ''--name-only'', revision])"

definition share_reached :: "nat \<Rightarrow> nat \<Rightarrow> bool \<Rightarrow> bool" where
  "share_reached moved n_total inclusive = (if inclusive then moved * 2 \<ge> n_total * 1 else moved * 2 > n_total * 1)"

definition directory_moved_into ::
  "git_oracle \<Rightarrow> string \<Rightarrow> string \<Rightarrow> string \<Rightarrow> (string \<times> string) list \<Rightarrow> string list" where
  "directory_moved_into git parent sha old_dir candidates =
     (if candidates = [] then []
      else case (git [''ls-tree'', ''-r'', ''-z'', ''--name-only'', parent, ''--'', old_dir], commit_rename_pairs git parent sha) of
        (Some old_files, Some pairs) \<Rightarrow>
          if old_files = [] then []
          else sort (remdups (map snd (filter (\<lambda>(module_dir, n).
                 share_reached (length (filter (\<lambda>(old, p). startswith old (dir_prefix old_dir) \<and>
                   startswith p (dir_prefix module_dir)) pairs)) (length old_files) False) candidates)))
      | _ \<Rightarrow> [])"

definition MERGE_MIN_MOVED_FILES :: nat where
  "MERGE_MIN_MOVED_FILES = 3"

text \<open>The target directories of the pairs that leave \<open>old_dir\<close>, one per pair.\<close>

definition merge_targets :: "string list \<Rightarrow> string \<Rightarrow> (string \<times> string) list \<Rightarrow> string list" where
  "merge_targets after old_dir pairs =
     List.map_filter (\<lambda>(old, p).
       if \<not> startswith old (old_dir @ ''/'') \<or> startswith p (old_dir @ ''/'') then None
       else nearest_up (\<lambda>d. d \<in> set after) (rev (butlast (path_parts p)))) pairs"

definition merged_into :: "git_oracle \<Rightarrow> string \<Rightarrow> string \<Rightarrow> string \<Rightarrow> string list \<Rightarrow> string list" where
  "merged_into git parent sha old_dir0 observed =
     (let old_dir = rev (dropWhile (\<lambda>c. c = CHR ''/'') (rev old_dir0)) in
      case (git [''ls-tree'', ''-r'', ''-z'', ''--name-only'', parent, ''--'', old_dir], commit_rename_pairs git parent sha,
            manifest_dirs_at git parent, manifest_dirs_at git sha) of
        (Some old_files, Some pairs, Some before, Some after) \<Rightarrow>
          if old_files = [] then []
          else
            let targets = merge_targets after old_dir pairs in
            sort (remdups (map path_name (filter (\<lambda>d. d \<in> set before \<and> path_name d \<noteq> path_name old_dir \<and>
              path_name d \<in> set observed \<and> count_list targets d \<ge> MERGE_MIN_MOVED_FILES \<and>
              share_reached (count_list targets d) (length old_files) True) (remdups targets))))
      | _ \<Rightarrow> [])"

record removal_evidence_info =
  rev_sha :: string
  rev_date :: string
  rev_subject :: string
  rev_manifest_file :: string
  rev_parent_sha :: "string option"

type_synonym commit_hit = "string \<times> string \<times> string"

definition newest_hit ::
  "(string \<Rightarrow> commit_hit option) \<Rightarrow> string \<Rightarrow> string list \<Rightarrow> (commit_hit \<times> string) option" where
  "newest_hit removing_commit module_path manifest_files =
     fold (\<lambda>m found.
       let rel = (if module_path = [] then m else rev (dropWhile (\<lambda>c. c = CHR ''/'') (rev module_path)) @ ''/'' @ m)
       in case removing_commit rel of
            None \<Rightarrow> found
          | Some hit \<Rightarrow> (case found of
              None \<Rightarrow> Some (hit, rel)
            | Some (h, _) \<Rightarrow> if fst (snd hit) > fst (snd h) then Some (hit, rel) else found))
       manifest_files None"

definition removal_evidence ::
  "git_oracle \<Rightarrow> (string \<Rightarrow> commit_hit option) \<Rightarrow> (string \<Rightarrow> string option) \<Rightarrow> string \<Rightarrow> string list \<Rightarrow> string list \<Rightarrow>
     removal_evidence_info option \<times> successor option" where
  "removal_evidence git removing_commit rev_parse module_path manifest_files observed =
     (case newest_hit removing_commit module_path manifest_files of
        None \<Rightarrow> (None, None)
      | Some ((sha, date, subject), rel) \<Rightarrow>
          let parent = rev_parse (sha @ ''^'');
              evidence = \<lparr>rev_sha = sha, rev_date = date, rev_subject = subject, rev_manifest_file = path_name rel,
                rev_parent_sha = parent\<rparr>
          in case parent of
               None \<Rightarrow> (Some evidence, None)
             | Some par \<Rightarrow>
                 let old_dir = path_parent rel;
                     old_name = path_name (path_parent rel);
                     changes = compute_manifest_changes git par sha;
                     direct = sort (remdups (map mc_name (filter (\<lambda>c. mc_status c = ''R'' \<and> mc_old_path c = Some rel \<and>
                       mc_name c \<noteq> old_name \<and> mc_name c \<in> set observed) changes)));
                     targets = (if direct \<noteq> [] then direct
                       else directory_moved_into git par sha old_dir
                         (map (\<lambda>c. (mc_module_dir c, mc_name c)) (filter (\<lambda>c. mc_status c \<in> {''A'', ''R''} \<and>
                            mc_name c \<noteq> old_name \<and> mc_name c \<in> set observed) changes)))
                 in if targets \<noteq> [] then (Some evidence, Some \<lparr>succ_names = targets, succ_source = ''git_rename''\<rparr>)
                    else let merged = merged_into git par sha old_dir observed
                         in (Some evidence, if merged \<noteq> [] then Some \<lparr>succ_names = merged, succ_source = ''git_merge''\<rparr> else None))"

subsection \<open>Laws of the classification\<close>

definition before_state :: "presence_row list \<Rightarrow> string \<Rightarrow> string option" where
  "before_state rows n = Option.bind (prev_row rows n) row_state"

lemma transition_of_attr:
  "map_option t_name (transition_of rows scan n) = map_option (\<lambda>_. n) (transition_of rows scan n)"
  "map_option t_before (transition_of rows scan n) = map_option (\<lambda>_. before_state rows n) (transition_of rows scan n)"
  "map_option t_after (transition_of rows scan n) = (case now_entry scan n of Some e \<Rightarrow> Some (fst e)
     | None \<Rightarrow> if before_state rows n \<in> {Some ''present'', Some ''excluded''} then Some ''retired'' else None)"
  by (cases "prev_row rows n"; cases "now_entry scan n";
      simp add: transition_of_def before_state_def Let_def split: prod.split)+

lemma transition_of_name: "transition_of rows scan n = Some t \<Longrightarrow> t_name t = n"
  using transition_of_attr(1) [of rows scan n] by simp

lemma transition_of_before: "transition_of rows scan n = Some t \<Longrightarrow> t_before t = before_state rows n"
  using transition_of_attr(2) [of rows scan n] by simp

lemma now_entry_state:
  "map_option fst (now_entry scan n) =
     (if n \<in> set (present_names scan) then Some ''present''
      else if n \<in> fst ` set (scan_excluded scan) then Some ''excluded'' else None)"
proof (cases "map_of (scan_excluded scan) n")
  case None
  then have "n \<notin> fst ` set (scan_excluded scan)" by (simp add: map_of_eq_None_iff)
  with None show ?thesis by (simp add: now_entry_def)
next
  case (Some ex)
  then have "n \<in> fst ` set (scan_excluded scan)" by (metis fst_conv image_eqI map_of_SomeD)
  with Some show ?thesis by (simp add: now_entry_def)
qed

text \<open>The state a name ends in, None when it has no transition.\<close>

lemma after_state:
  "map_option t_after (transition_of rows scan n) =
     (if n \<in> set (present_names scan) then Some ''present''
      else if n \<in> fst ` set (scan_excluded scan) then Some ''excluded''
      else if before_state rows n \<in> {Some ''present'', Some ''excluded''} then Some ''retired'' else None)"
  using now_entry_state [of scan n] by (cases "now_entry scan n") (simp_all add: transition_of_attr(3) split: if_splits)

lemma prev_row_name: "prev_row rows n = Some r \<Longrightarrow> n \<in> set (prev_names rows)"
  by (auto simp: prev_row_def prev_names_def find_Some_iff split: if_splits)
    (metis (mono_tags, lifting) imageI length_rev nth_mem set_rev)

lemma map_filter_names:
  assumes "\<And>n t. f n = Some t \<Longrightarrow> g t = n"
  shows "map g (List.map_filter f ns) = filter (\<lambda>n. f n \<noteq> None) ns"
  using assms by (induction ns) (auto simp: List.map_filter_def)

lemma in_map_filter [simp]: "y \<in> set (List.map_filter f xs) \<longleftrightarrow> (\<exists>x \<in> set xs. f x = Some y)"
  by (induction xs) (auto simp: List.map_filter_def)

definition classified_names :: "presence_row list \<Rightarrow> registry_scan \<Rightarrow> string list" where
  "classified_names rows scan = sort (remdups (prev_names rows @ present_names scan @ map fst (scan_excluded scan)))"

lemma t_items_classify: "t_items (classify rows scan) = List.map_filter (transition_of rows scan) (classified_names rows scan)"
  by (simp add: classify_def classified_names_def)

lemma transition_of_classified:
  assumes "transition_of rows scan n = Some t"
  shows "n \<in> set (classified_names rows scan)"
proof (rule ccontr)
  assume n: "n \<notin> set (classified_names rows scan)"
  then have "prev_row rows n = None" using prev_row_name [of rows n] by (cases "prev_row rows n") (auto simp: classified_names_def)
  then have "before_state rows n = None" by (simp add: before_state_def)
  with n after_state [of rows scan n] assms show False by (simp add: classified_names_def)
qed

lemma classify_items:
  "t \<in> set (t_items (classify rows scan)) \<longleftrightarrow> transition_of rows scan (t_name t) = Some t"
  unfolding t_items_classify in_map_filter using transition_of_name transition_of_classified by metis

lemma classify_sorted: "sorted_wrt (<) (map t_name (t_items (classify rows scan)))"
proof -
  have "map t_name (t_items (classify rows scan)) =
      filter (\<lambda>n. transition_of rows scan n \<noteq> None) (classified_names rows scan)"
    unfolding t_items_classify by (rule map_filter_names) (rule transition_of_name)
  moreover have "sorted_wrt (<) (classified_names rows scan)"
    by (simp add: strict_sorted_iff classified_names_def)
  ultimately show ?thesis by (simp add: sorted_wrt_filter)
qed

lemma classify_after:
  "n \<in> t_name ` {t \<in> set (t_items (classify rows scan)). t_after t = a} \<longleftrightarrow>
     map_option t_after (transition_of rows scan n) = Some a"
proof -
  have "n \<in> t_name ` {t \<in> set (t_items (classify rows scan)). t_after t = a} \<longleftrightarrow>
      (\<exists>t. transition_of rows scan n = Some t \<and> t_after t = a)"
    unfolding classify_items image_iff using transition_of_name by blast
  then show ?thesis by simp
qed

text \<open>The classification is exact: the names come in strict order, so each has one transition;
  a name ends as present exactly when the scan indexes it, as excluded exactly when the scan excludes
  it and does not index it, and as retired exactly when the scan does not know it and its last
  ledger row was present or excluded.\<close>

theorem classify_exact:
  "sorted_wrt (<) (map t_name (t_items (classify rows scan))) \<and>
   (n \<in> t_name ` {t \<in> set (t_items (classify rows scan)). t_after t = ''present''} \<longleftrightarrow>
      n \<in> set (present_names scan)) \<and>
   (n \<in> t_name ` {t \<in> set (t_items (classify rows scan)). t_after t = ''excluded''} \<longleftrightarrow>
      n \<in> fst ` set (scan_excluded scan) - set (present_names scan)) \<and>
   (n \<in> t_name ` {t \<in> set (t_items (classify rows scan)). t_after t = ''retired''} \<longleftrightarrow>
      n \<notin> fst ` set (scan_excluded scan) \<union> set (present_names scan) \<and>
      before_state rows n \<in> {Some ''present'', Some ''excluded''})"
  unfolding classify_after after_state using classify_sorted by simp

subsection \<open>Laws of the gates\<close>

lemma mass_gate_total_wipe:
  "mass_gate_trips n b (Some a) = Some ''total_wipe'' \<longleftrightarrow> b > 0 \<and> n > 0 \<and> a \<le> 0"
  by (simp add: mass_gate_trips_def Let_def)

lemma wipe_verdict_None:
  "wipe_verdict n u unprov shipped in_history = None \<longleftrightarrow>
     shipped \<noteq> None \<and> unprov = [] \<and> u = 0 \<and> in_history = Some True"
  by (auto simp: wipe_verdict_def Let_def split: option.split bool.split)

text \<open>The two parts of the verdict, over the drops of either baseline.\<close>

definition baseline_drops ::
  "transitions \<Rightarrow> registry_scan \<Rightarrow> (string \<times> string) list option \<Rightarrow> string list option \<Rightarrow> nat \<times> nat \<times> nat \<times> string list" where
  "baseline_drops ts scan graph_baseline shipped =
     (case graph_baseline of None \<Rightarrow> ledger_drops ts shipped | Some b \<Rightarrow> graph_drops b scan shipped)"

lemma scan_ok_apply_gates:
  "scan_ok (apply_gates ts scan trusted allow gb indexed shipped in_history) \<longleftrightarrow> scan_complete scan \<and> trusted"
  by (simp add: apply_gates_def scan_gates_def Let_def split: prod.split)

lemma mass_ok_apply_gates:
  assumes "baseline_drops ts scan gb shipped = (n, b, u, unprov)"
  shows "mass_ok (apply_gates ts scan trusted allow gb indexed shipped in_history) \<longleftrightarrow>
    allow \<or> present_names scan \<noteq> [] \<or> b = 0 \<or> n = 0 \<or>
    shipped \<noteq> None \<and> unprov = [] \<and> u = 0 \<and> in_history = Some True"
proof -
  let ?w = "mass_gate_trips n b (Some (int (length (present_names scan)))) = Some ''total_wipe''"
  have "mass_ok (apply_gates ts scan trusted allow gb indexed shipped in_history) \<longleftrightarrow>
      \<not> ((if ?w then wipe_verdict n u unprov shipped in_history else None) \<noteq> None \<and> \<not> allow)"
    using assms unfolding apply_gates_def baseline_drops_def Let_def by (simp add: scan_gates_def)
  also have "\<dots> \<longleftrightarrow> \<not> ?w \<or> allow \<or> wipe_verdict n u unprov shipped in_history = None"
    by auto
  finally show ?thesis unfolding mass_gate_total_wipe wipe_verdict_None by auto
qed

lemma no_rekeyed_in_empty_scan:
  assumes "present_names scan = []"
  shows "\<not> list_ex (\<lambda>(v2, mods). v2 \<noteq> v \<and> n \<in> fst ` set mods) (scan_modules scan)"
  using assms by (fastforce simp: present_names_def list_ex_iff)

lemma ledger_drops_proven:
  "(case ledger_drops ts shipped of (n, b, u, unprov) \<Rightarrow> shipped \<noteq> None \<and> unprov = [] \<and> u = 0) \<longleftrightarrow>
     (\<exists>ns. shipped = Some ns \<and> list_all (\<lambda>t. t_after t = ''retired'' \<and> t_name t \<notin> set ns) (soft_drops ts))"
  by (cases shipped) (auto simp: ledger_drops_def not_shown_gone_def list_all_iff filter_empty_conv)

text \<open>Against the ledger, retirement is allowed exactly when the scan is complete and trusted and the
  repository was not wiped: a scan without any module, after modules were present and dropped, is
  accepted only on the operator's bypass, or when git lists the HEAD tree, no dropped module has a
  manifest there, none merely stopped parsing, and the last reflected commit is in the history of the
  branch. No number of drops holds retirement otherwise, and no bypass lifts the scan gate.\<close>

theorem retirement_gate_exact:
  "retire_allowed (apply_gates ts scan trusted allow_mass_retire None indexed shipped in_history) \<longleftrightarrow>
     scan_complete scan \<and> trusted \<and>
     (allow_mass_retire \<or> present_names scan \<noteq> [] \<or> n_present_before ts = 0 \<or> soft_drops ts = [] \<or>
      in_history = Some True \<and>
      (\<exists>ns. shipped = Some ns \<and> list_all (\<lambda>t. t_after t = ''retired'' \<and> t_name t \<notin> set ns) (soft_drops ts)))"
proof -
  obtain n b u unprov where d: "ledger_drops ts shipped = (n, b, u, unprov)" by (metis prod_cases4)
  then have "n = length (soft_drops ts)" "b = n_present_before ts" by (simp_all add: ledger_drops_def)
  moreover have "baseline_drops ts scan None shipped = (n, b, u, unprov)" by (simp add: baseline_drops_def d)
  note mass_ok_apply_gates [OF this]
  moreover note ledger_drops_proven [of shipped ts, unfolded d, simplified]
  ultimately show ?thesis
    unfolding retire_allowed_def scan_ok_apply_gates by auto
qed

definition unparseable_now :: "registry_scan \<Rightarrow> string \<Rightarrow> bool" where
  "unparseable_now scan n = (case map_of (scan_excluded scan) n of None \<Rightarrow> False | Some ex \<Rightarrow> ex_reason ex = ''unparseable'')"

lemma graph_drops_proven:
  assumes "present_names scan = []"
  shows "(case graph_drops base scan shipped of (n, b, u, unprov) \<Rightarrow> shipped \<noteq> None \<and> unprov = [] \<and> u = 0) \<longleftrightarrow>
     (\<exists>ns. shipped = Some ns \<and>
        list_all (\<lambda>d. \<not> unparseable_now scan (snd d) \<and> snd d \<notin> set ns) (graph_baseline_drops base scan))"
  using no_rekeyed_in_empty_scan [OF assms]
  by (cases shipped) (auto simp: graph_drops_def not_shown_gone_def unparseable_now_def list_all_iff filter_empty_conv Let_def split_beta)

text \<open>Against the graph, for a repository the ledger never reflected, the same holds of the pairs
  of version and name the scan no longer covers.\<close>

theorem graph_gate_exact:
  "retire_allowed (apply_gates ts scan trusted allow_mass_retire (Some base) indexed shipped in_history) \<longleftrightarrow>
     scan_complete scan \<and> trusted \<and>
     (allow_mass_retire \<or> present_names scan \<noteq> [] \<or> base = [] \<or> graph_baseline_drops base scan = [] \<or>
      in_history = Some True \<and>
      (\<exists>ns. shipped = Some ns \<and>
        list_all (\<lambda>d. \<not> unparseable_now scan (snd d) \<and> snd d \<notin> set ns) (graph_baseline_drops base scan)))"
proof -
  obtain n b u unprov where d: "graph_drops base scan shipped = (n, b, u, unprov)" by (metis prod_cases4)
  then have "n = length (graph_baseline_drops base scan)" "b = length (remdups base)"
    by (simp_all add: graph_drops_def Let_def)
  moreover have "baseline_drops ts scan (Some base) shipped = (n, b, u, unprov)" by (simp add: baseline_drops_def d)
  note mass_ok_apply_gates [OF this]
  moreover note graph_drops_proven [of scan shipped base, unfolded d, simplified]
  ultimately show ?thesis
    unfolding retire_allowed_def scan_ok_apply_gates by auto
qed

lemma kept_names_ledger:
  "set (kept_names (apply_gates ts scan trusted False None indexed shipped in_history)) =
     {t_name t | t. t \<in> set (soft_drops ts) \<and> t_after t = ''retired'' \<and> not_shown_gone shipped (t_name t)}"
  unfolding kept_names_def apply_gates_def ledger_drops_def scan_gates_def Let_def by auto

lemma not_kept_proven:
  assumes "t \<in> set (t_items ts)" and "t_before t = Some ''present''" and "t_after t = ''retired''"
    and "t_name t \<notin> set (kept_names (apply_gates ts scan trusted False None indexed shipped in_history))"
  shows "\<exists>ns. shipped = Some ns \<and> t_name t \<notin> set ns"
proof -
  have "t \<in> set (soft_drops ts)" using assms(1-3) by (simp add: soft_drops_def is_soft_drop_def)
  with assms(3) have "not_shown_gone shipped (t_name t) \<Longrightarrow>
      t_name t \<in> set (kept_names (apply_gates ts scan trusted False None indexed shipped in_history))"
    unfolding kept_names_ledger mem_Collect_eq by (intro exI conjI) (rule refl)
  with assms(4) have "\<not> not_shown_gone shipped (t_name t)" by blast
  then show ?thesis by (cases shipped) (simp_all add: not_shown_gone_def)
qed

lemma after_retired:
  assumes "t \<in> set (t_items (classify rows scan))" and "t_after t = ''retired''"
  shows "t_name t \<notin> set (present_names scan) \<and> t_name t \<notin> fst ` set (scan_excluded scan)"
proof -
  have "transition_of rows scan (t_name t) = Some t" using assms(1) unfolding classify_items .
  then have "map_option t_after (transition_of rows scan (t_name t)) = Some ''retired''" using assms(2) by simp
  then show ?thesis unfolding after_state
    by (cases "t_name t \<in> set (present_names scan)"; cases "t_name t \<in> fst ` set (scan_excluded scan)") simp_all
qed

lemma retired_items: "t \<in> set (retired ts) \<Longrightarrow> t \<in> set (t_items ts) \<and> kind t = ''retired''"
  by (simp add: retired_def of_kind_def)

lemma kind_retired:
  "kind t = ''retired'' \<longleftrightarrow> t_before t \<noteq> None \<and> t_before t \<noteq> Some ''retired'' \<and> t_after t = ''retired''"
  by (simp add: kind_def)

text \<open>C9. Without the operator's mass override and without a graph baseline (which a run uses while the ledger has never reflected the repository), a module that was present
  and that the gates do not keep by name is retired (its transition says retired, the gates allow it) only when the scan is complete
  and trusted, neither indexes nor excludes the name, and git listed the HEAD tree and found no manifest of that name there. With the
  override an unproven drop may be retired, and against a graph baseline the kept names are empty.\<close>

theorem retired_drop_proven:
  assumes "retire_allowed (apply_gates (classify rows scan) scan trusted False None indexed shipped in_history)"
    and "t \<in> set (retired (classify rows scan))" and "t_before t = Some ''present''"
    and "t_name t \<notin> set (kept_names (apply_gates (classify rows scan) scan trusted False None indexed shipped in_history))"
  shows "scan_complete scan \<and> trusted \<and> t_name t \<notin> set (present_names scan) \<and>
    t_name t \<notin> fst ` set (scan_excluded scan) \<and> (\<exists>ns. shipped = Some ns \<and> t_name t \<notin> set ns)"
proof -
  have t: "t \<in> set (t_items (classify rows scan))" and after: "t_after t = ''retired''"
    using retired_items [OF assms(2)] unfolding kind_retired by blast+
  note after_retired [OF t after] not_kept_proven [OF t assms(3) after assms(4)]
  moreover have "scan_complete scan \<and> trusted"
    using assms(1) unfolding retire_allowed_def scan_ok_apply_gates by blast
  ultimately show ?thesis by blast
qed

definition sample_scan :: registry_scan where
  "sample_scan = \<lparr>scan_branch = Some ''17.0'', scan_modules = [(''17.0'', [(''sale'', \<lparr>mi_rel_path = Some ''sale'', old_technical_name = None\<rparr>),
       (''crm_new'', \<lparr>mi_rel_path = Some ''crm_new'', old_technical_name = Some '' crm ''\<rparr>)])],
     scan_excluded = [(''old_pos'', \<lparr>ex_reason = ''installable_false'', ex_path = ''old_pos''\<rparr>)],
     scan_missing = [], scan_unreadable = [], scan_complete = True\<rparr>"

definition sample_rows :: "presence_row list" where
  "sample_rows = [\<lparr>row_name = ''sale'', row_state = Some ''present'', row_reason = None, row_path = Some ''sale''\<rparr>,
     \<lparr>row_name = ''crm'', row_state = Some ''present'', row_reason = None, row_path = Some ''crm''\<rparr>]"

definition sample_drop :: transition where
  "sample_drop = \<lparr>t_name = ''crm'', t_before = Some ''present'', t_after = ''retired'', t_before_reason = None,
     t_after_reason = None, t_path = Some ''crm'', t_old_path = None\<rparr>"

lemma sample_retired: "retired (classify sample_rows sample_scan) = [sample_drop]"
  by code_simp

theorem retired_drop_proven_witness:
  "t_name sample_drop \<notin> set (present_names sample_scan) \<and> sample_drop \<in> set (retired (classify sample_rows sample_scan))"
proof -
  let ?g = "apply_gates (classify sample_rows sample_scan) sample_scan True False None None (Some [''sale'', ''crm_new'']) None"
  have "retire_allowed ?g" and "t_before sample_drop = Some ''present''" and "t_name sample_drop \<notin> set (kept_names ?g)"
    by code_simp+
  moreover have r: "sample_drop \<in> set (retired (classify sample_rows sample_scan))" by (simp add: sample_retired)
  ultimately show ?thesis using retired_drop_proven by blast
qed

text \<open>The gates at work: one drop among surviving modules passes, and a wiped repository is held
  without its history.\<close>

definition wiped_scan :: registry_scan where
  "wiped_scan = sample_scan\<lparr>scan_modules := []\<rparr>"

theorem retirement_gate_exact_witness:
  "retire_allowed (apply_gates (classify sample_rows sample_scan) sample_scan True False None None None None) \<and>
   \<not> retire_allowed (apply_gates (classify sample_rows wiped_scan) wiped_scan True False None None (Some []) None)"
proof -
  have "scan_complete sample_scan" "present_names sample_scan \<noteq> []" "present_names wiped_scan = []"
    "n_present_before (classify sample_rows wiped_scan) \<noteq> 0" "soft_drops (classify sample_rows wiped_scan) \<noteq> []"
    by code_simp+
  then show ?thesis by (simp add: retirement_gate_exact)
qed

theorem graph_gate_exact_witness:
  "retire_allowed (apply_gates (classify sample_rows wiped_scan) wiped_scan True False (Some [(''17.0'', ''sale'')]) None (Some []) (Some True)) \<and>
   \<not> retire_allowed (apply_gates (classify sample_rows wiped_scan) wiped_scan True False (Some [(''17.0'', ''sale'')]) None (Some [''sale'']) (Some True))"
proof -
  have "scan_complete wiped_scan" "present_names wiped_scan = []"
    "graph_baseline_drops [(''17.0'', ''sale'')] wiped_scan = [(''17.0'', ''sale'')]"
    "\<not> unparseable_now wiped_scan ''sale''" by code_simp+
  then show ?thesis by (simp add: graph_gate_exact)
qed

subsection \<open>Laws of the successors\<close>

text \<open>A successor is reported only for a retired module and only from hard evidence: the names are
  in order, without repetition, not empty, never the retired name itself and all observed by the
  scan; each is the target of a manifest rename git shows, or, when there is no such rename, an
  indexed module that declares the retired name as its old technical name.\<close>

theorem successors_sound:
  assumes "(n, s) \<in> set (pick_successors ts changes scan)" and "m \<in> set (succ_names s)"
  shows "n \<in> t_name ` set (retired ts) \<and> sorted (succ_names s) \<and> distinct (succ_names s) \<and> m \<noteq> n \<and>
    (m \<in> set (present_names scan) \<or> m \<in> fst ` set (scan_excluded scan)) \<and>
    (succ_source s = ''git_rename'' \<and>
       (\<exists>c. c \<in> set changes \<and> mc_status c = ''R'' \<and> mc_old_name c = Some n \<and> mc_name c = m) \<or>
     succ_source s = ''old_technical_name'' \<and> renames_of changes scan n = [] \<and>
       (\<exists>i old. scan_module scan m = Some i \<and> old_technical_name i = Some old \<and> strip old = n))"
proof -
  from assms(1) obtain t where t: "t \<in> set (retired ts)" "t_name t = n"
    and pick: "s = \<lparr>succ_names = renames_of changes scan n, succ_source = ''git_rename''\<rparr> \<or>
      renames_of changes scan n = [] \<and> s = \<lparr>succ_names = declared_of scan n, succ_source = ''old_technical_name''\<rparr>"
    unfolding pick_successors_def in_map_filter by (auto split: if_splits)
  then have n: "n \<in> t_name ` set (retired ts)" by blast
  have "distinct (present_names scan)" by (simp add: present_names_def)
  then have ok: "sorted (succ_names s)" "distinct (succ_names s)"
    using pick by (auto simp: renames_of_def declared_of_def)
  from pick show ?thesis
  proof
    assume "s = \<lparr>succ_names = renames_of changes scan n, succ_source = ''git_rename''\<rparr>"
    with assms(2) n ok show ?thesis unfolding renames_of_def by auto
  next
    assume *: "renames_of changes scan n = [] \<and> s = \<lparr>succ_names = declared_of scan n, succ_source = ''old_technical_name''\<rparr>"
    with assms(2) have m: "m \<in> set (declared_of scan n)" by simp
    then obtain i where i: "scan_module scan m = Some i"
      "strip (case old_technical_name i of None \<Rightarrow> [] | Some s \<Rightarrow> s) = n" "n \<noteq> []" "n \<noteq> m" "m \<in> set (present_names scan)"
      unfolding declared_of_def by (auto split: option.splits)
    moreover from i(2,3) obtain old where "old_technical_name i = Some old" "strip old = n"
      by (cases "old_technical_name i") (auto simp: strip_def)
    ultimately show ?thesis using n * ok by simp
  qed
qed

theorem successors_sound_witness:
  "pick_successors (classify sample_rows sample_scan) [] sample_scan =
     [(''crm'', \<lparr>succ_names = [''crm_new''], succ_source = ''old_technical_name''\<rparr>)] \<and>
   ''crm'' \<in> t_name ` set (retired (classify sample_rows sample_scan)) \<and> scan_module sample_scan ''crm_new'' \<noteq> None"
proof -
  have p: "pick_successors (classify sample_rows sample_scan) [] sample_scan =
     [(''crm'', \<lparr>succ_names = [''crm_new''], succ_source = ''old_technical_name''\<rparr>)]"
    by code_simp
  show ?thesis
    using successors_sound [of "''crm''" "\<lparr>succ_names = [''crm_new''], succ_source = ''old_technical_name''\<rparr>"
        "classify sample_rows sample_scan" "[]" sample_scan "''crm_new''"]
    by (simp add: p) blast
qed

definition moved_to :: "string list \<Rightarrow> string \<Rightarrow> string \<Rightarrow> string \<times> string \<Rightarrow> bool" where
  "moved_to after old_dir d = (\<lambda>(old, p). startswith old (old_dir @ ''/'') \<and> \<not> startswith p (old_dir @ ''/'') \<and>
     nearest_up (\<lambda>d. d \<in> set after) (rev (butlast (path_parts p))) = Some d)"

lemma count_map_filter: "count_list (List.map_filter f xs) y = length (filter (\<lambda>x. f x = Some y) xs)"
  by (induction xs) (auto simp: List.map_filter_simps split: option.split)

lemma count_merge_targets:
  "count_list (merge_targets after old_dir pairs) d = length (filter (moved_to after old_dir d) pairs)"
  unfolding merge_targets_def count_map_filter moved_to_def
  by (intro arg_cong [where f = length] filter_cong refl) (auto split: if_splits)

lemma merge_targets_after: "d \<in> set (merge_targets after old_dir pairs) \<Longrightarrow> d \<in> set after"
  by (auto simp: merge_targets_def nearest_up_Some split: if_splits)

lemma length_merge_targets:
  "length (merge_targets after old_dir pairs) \<le> length (filter (\<lambda>(old, p). startswith old (old_dir @ ''/'')) pairs)"
  by (induction pairs) (auto simp: merge_targets_def List.map_filter_simps split: option.splits if_splits)

definition rstrip_slash :: "string \<Rightarrow> string" where
  "rstrip_slash d = rev (dropWhile (\<lambda>c. c = CHR ''/'') (rev d))"

text \<open>The directories \<open>merged_into\<close> accepts, from the answers of git.\<close>

definition merge_dirs :: "string list \<Rightarrow> string list \<Rightarrow> string list \<Rightarrow> (string \<times> string) list \<Rightarrow> string \<Rightarrow> string list \<Rightarrow> string list" where
  "merge_dirs old_files before after pairs old_dir observed =
     filter (\<lambda>d. d \<in> set before \<and> path_name d \<noteq> path_name old_dir \<and> path_name d \<in> set observed \<and>
       count_list (merge_targets after old_dir pairs) d \<ge> MERGE_MIN_MOVED_FILES \<and>
       share_reached (count_list (merge_targets after old_dir pairs) d) (length old_files) True)
       (remdups (merge_targets after old_dir pairs))"

lemma merged_into_answers:
  assumes "merged_into git par sha old_dir0 observed \<noteq> []"
  obtains old_files pairs before after
  where "git [''ls-tree'', ''-r'', ''-z'', ''--name-only'', par, ''--'', rstrip_slash old_dir0] = Some old_files"
    and "commit_rename_pairs git par sha = Some pairs"
    and "manifest_dirs_at git par = Some before" and "manifest_dirs_at git sha = Some after" and "old_files \<noteq> []"
    and "merged_into git par sha old_dir0 observed =
      sort (remdups (map path_name (merge_dirs old_files before after pairs (rstrip_slash old_dir0) observed)))"
  using assms unfolding merged_into_def merge_dirs_def rstrip_slash_def Let_def
  by (simp split: option.splits if_splits)

text \<open>A module reported as the target of a merge has a directory with a manifest both before and after
  the removing commit, another name than the removed module, and is observed; and git renamed at
  least three files, and at least half of the files the old directory had, out of it to places whose
  nearest enclosing module is that directory.\<close>

theorem merged_into_sound:
  assumes "m \<in> set (merged_into git par sha old_dir observed)"
  shows "\<exists>d old_files pairs before after.
    git [''ls-tree'', ''-r'', ''-z'', ''--name-only'', par, ''--'', rstrip_slash old_dir] = Some old_files \<and> old_files \<noteq> [] \<and>
    commit_rename_pairs git par sha = Some pairs \<and>
    manifest_dirs_at git par = Some before \<and> d \<in> set before \<and> manifest_dirs_at git sha = Some after \<and> d \<in> set after \<and>
    m = path_name d \<and> m \<noteq> path_name (rstrip_slash old_dir) \<and> m \<in> set observed \<and>
    3 \<le> length (filter (moved_to after (rstrip_slash old_dir) d) pairs) \<and>
    length old_files \<le> 2 * length (filter (moved_to after (rstrip_slash old_dir) d) pairs)"
proof -
  have "merged_into git par sha old_dir observed \<noteq> []" using assms by auto
  then obtain old_files pairs before after where git:
    "git [''ls-tree'', ''-r'', ''-z'', ''--name-only'', par, ''--'', rstrip_slash old_dir] = Some old_files"
    "commit_rename_pairs git par sha = Some pairs"
    "manifest_dirs_at git par = Some before" "manifest_dirs_at git sha = Some after" "old_files \<noteq> []"
    and eq: "merged_into git par sha old_dir observed =
      sort (remdups (map path_name (merge_dirs old_files before after pairs (rstrip_slash old_dir) observed)))"
    by (rule merged_into_answers)
  from assms eq obtain d where "m = path_name d"
    "d \<in> set (merge_dirs old_files before after pairs (rstrip_slash old_dir) observed)" by auto
  then have "d \<in> set before" "d \<in> set after" "m = path_name d" "m \<noteq> path_name (rstrip_slash old_dir)" "m \<in> set observed"
    "3 \<le> length (filter (moved_to after (rstrip_slash old_dir) d) pairs)"
    "length old_files \<le> 2 * length (filter (moved_to after (rstrip_slash old_dir) d) pairs)"
    by (auto simp: merge_dirs_def count_merge_targets share_reached_def MERGE_MIN_MOVED_FILES_def dest: merge_targets_after)
  with git show ?thesis by blast
qed

lemma length_merge_dirs:
  assumes "distinct (map fst pairs)" and "\<forall>(old, p) \<in> set pairs. startswith old (old_dir @ ''/'') \<longrightarrow> old \<in> set old_files"
    and "old_files \<noteq> []"
  shows "length (merge_dirs old_files before after pairs old_dir observed) \<le> 2"
proof -
  let ?ts = "merge_targets after old_dir pairs" and ?ds = "merge_dirs old_files before after pairs old_dir observed"
  let ?out = "map fst (filter (\<lambda>(old, p). startswith old (old_dir @ ''/'')) pairs)"
  have "distinct ?out" using assms(1) by (simp add: distinct_map_filter)
  then have "length ?out = card (set ?out)" by (metis distinct_card)
  also have "\<dots> \<le> card (set old_files)" by (rule card_mono) (use assms(2) in auto)
  also have "\<dots> \<le> length old_files" by (rule card_length)
  finally have ts: "length ?ts \<le> length old_files"
    using length_merge_targets [of after old_dir pairs] by simp
  have "distinct ?ds" by (simp add: merge_dirs_def)
  then have "length old_files * length ?ds = (\<Sum>d \<in> set ?ds. length old_files)"
    by (simp add: distinct_card)
  also have "\<dots> \<le> (\<Sum>d \<in> set ?ds. 2 * count_list ?ts d)"
    by (rule sum_mono) (simp add: merge_dirs_def share_reached_def)
  also have "\<dots> \<le> (\<Sum>d \<in> set ?ts. 2 * count_list ?ts d)"
    by (rule sum_mono2) (auto simp: merge_dirs_def)
  also have "\<dots> = 2 * length ?ts" by (simp add: sum_count_set flip: sum_distrib_left)
  finally have "length old_files * length ?ds \<le> length old_files * 2"
    using ts by (metis mult.commute mult_le_mono1 order_trans)
  then show ?thesis using assms(3) by simp
qed

text \<open>Git pairs a renamed file with one source, and the sources are files of the tree before; then at
  most two modules are reported as targets of a merge.\<close>

theorem at_most_two_merge_targets:
  assumes "git [''ls-tree'', ''-r'', ''-z'', ''--name-only'', par, ''--'', rstrip_slash old_dir] = Some old_files"
    and "commit_rename_pairs git par sha = Some pairs" and "distinct (map fst pairs)"
    and "\<forall>(old, p) \<in> set pairs. startswith old (rstrip_slash old_dir @ ''/'') \<longrightarrow> old \<in> set old_files"
  shows "length (merged_into git par sha old_dir observed) \<le> 2"
proof (cases "merged_into git par sha old_dir observed = []")
  case False
  then obtain before after where "old_files \<noteq> []"
    and eq: "merged_into git par sha old_dir observed =
      sort (remdups (map path_name (merge_dirs old_files before after pairs (rstrip_slash old_dir) observed)))"
    using assms(1,2) by (elim merged_into_answers) simp
  have "length (merged_into git par sha old_dir observed) \<le>
      length (merge_dirs old_files before after pairs (rstrip_slash old_dir) observed)"
    unfolding eq by (simp add: length_remdups_leq order_trans [OF length_remdups_leq])
  also have "\<dots> \<le> 2" using length_merge_dirs [OF assms(3,4)] \<open>old_files \<noteq> []\<close> .
  finally show ?thesis .
qed simp

text \<open>A commit that moves three of the four files of \<open>rag\<close> into \<open>ai\<close>.\<close>

definition merge_git :: git_oracle where
  "merge_git args =
     (if hd args = ''diff'' then Some [''R100'', ''rag/a.py'', ''ai/a.py'', ''R100'', ''rag/b.py'', ''ai/b.py'',
        ''R090'', ''rag/c.py'', ''ai/models/c.py'', ''D'', ''rag/__manifest__.py'']
      else if last args = ''rag'' then Some [''rag/__manifest__.py'', ''rag/a.py'', ''rag/b.py'', ''rag/c.py'']
      else Some [''ai/__manifest__.py'', ''ai/x.py''])"

theorem merged_into_sound_witness:
  "merged_into merge_git ''p'' ''c'' ''rag'' [''ai''] = [''ai''] \<and>
   (\<exists>before after d. manifest_dirs_at merge_git ''p'' = Some before \<and> manifest_dirs_at merge_git ''c'' = Some after \<and>
      d \<in> set before \<and> d \<in> set after \<and> path_name d = ''ai'')"
proof -
  have m: "merged_into merge_git ''p'' ''c'' ''rag'' [''ai''] = [''ai'']" by code_simp
  then have "''ai'' \<in> set (merged_into merge_git ''p'' ''c'' ''rag'' [''ai''])" by simp
  from merged_into_sound [OF this] m show ?thesis by auto
qed

theorem at_most_two_merge_targets_witness:
  "length (merged_into merge_git ''p'' ''c'' ''rag'' [''ai'']) \<le> 2"
proof -
  have "rstrip_slash ''rag'' = ''rag''" by code_simp
  moreover have "merge_git [''ls-tree'', ''-r'', ''-z'', ''--name-only'', ''p'', ''--'', ''rag''] =
      Some [''rag/__manifest__.py'', ''rag/a.py'', ''rag/b.py'', ''rag/c.py'']" by code_simp
  moreover have "commit_rename_pairs merge_git ''p'' ''c'' =
      Some [(''rag/a.py'', ''ai/a.py''), (''rag/b.py'', ''ai/b.py''), (''rag/c.py'', ''ai/models/c.py'')]" by code_simp
  ultimately show ?thesis by (intro at_most_two_merge_targets) (assumption | simp)+
qed

end
