(* ===== verification/Install_Set.thy ===== *)
theory Install_Set
  imports Py_Strings Complex_Main
begin

section \<open>Install-set resolution (src/mcp/install_set.py, src/mcp/describe.py)\<close>

text \<open>
  What installing a set of modules installs: the closure of their dependencies, then the
  auto-install modules whose triggers are met, round after round. As in the code the two reads
  of the graph are arguments: \<open>lookup\<close> answers a list of names with a dict, \<open>candidates\<close>
  answers the installed and the rejected set with rows of name, triggers and countries (None
  for a row without a third column). \<open>_CachedDepends\<close> is the memo passed along. The
  breadth-first loop ends only if the lookup stops returning new names, so it is a partial
  function, None being a run that does not end. Last come the two reads as \<open>_install_set\<close>
  binds them to the indexed graph; their deadline, which aborts the whole call, is left out.
\<close>

type_synonym dep_info = "bool \<times> string list"
type_synonym depends_lookup = "string list \<Rightarrow> string \<rightharpoonup> dep_info"
type_synonym memo = "string \<rightharpoonup> dep_info"
type_synonym candidate_row = "string \<times> string list \<times> string list option"
type_synonym candidate_lookup = "string set \<Rightarrow> string set \<Rightarrow> candidate_row list"

definition MAX_AUTO_INSTALL_ROUNDS :: nat where
  "MAX_AUTO_INSTALL_ROUNDS = 50"

definition BASELINE_ROOT :: string where
  "BASELINE_ROOT = ''base''"

definition COUNTRY_GATE_MIN_MAJOR :: int where
  "COUNTRY_GATE_MIN_MAJOR = 18"

record auto_installed =
  ai_name :: string
  ai_round :: nat
  ai_triggers :: "string list"
  ai_required_by :: "string option"

record baseline =
  b_installed :: "string set"
  b_rejected :: "string set"
  b_truncated :: bool

record install_set =
  is_roots :: "string list"
  is_installed :: "string set"
  is_baseline :: "string set"
  is_auto :: "auto_installed list"
  is_unsatisfiable :: "string \<rightharpoonup> string"
  is_country_conditional :: "string \<rightharpoonup> string list"
  is_truncated :: bool
  is_caveat :: "string option"

subsection \<open>The dependency closure\<close>

definition cached_depends :: "depends_lookup \<Rightarrow> memo \<Rightarrow> string list \<Rightarrow> memo" where
  "cached_depends lookup info ns =
     (let todo = sort (remdups (filter (\<lambda>n. info n = None) ns))
      in if todo = [] then info
         else let got = lookup todo
              in (\<lambda>n. if n \<in> set todo then Some (case got n of None \<Rightarrow> (False, []) | Some v \<Rightarrow> v) else info n))"

record bfs_state =
  seen :: "string set"
  order_found :: "string list"
  missing :: "string option"
  next_frontier :: "string list"

fun visit :: "memo \<Rightarrow> string set \<Rightarrow> string list \<Rightarrow> bfs_state \<Rightarrow> bfs_state" where
  "visit info known [] s = s"
| "visit info known (n # ns) s =
     visit info known ns
       (if n \<in> seen s then s
        else
          let s1 = s\<lparr>seen := insert n (seen s)\<rparr>
          in case (case info n of None \<Rightarrow> (False, []) | Some v \<Rightarrow> v) of (available, ds) \<Rightarrow>
               if \<not> available
               then s1\<lparr>missing := (if missing s = None then Some n else missing s)\<rparr>
               else s1\<lparr>order_found := order_found s @ [n],
                 next_frontier := next_frontier s @ filter (\<lambda>d. d \<notin> known \<and> d \<notin> seen s1) ds\<rparr>)"

partial_function (option) closure_loop ::
  "depends_lookup \<Rightarrow> string set \<Rightarrow> memo \<Rightarrow> bfs_state \<Rightarrow> string list \<Rightarrow> (memo \<times> bfs_state) option" where
  "closure_loop lookup known info s frontier =
     (if frontier = [] then Some (info, s)
      else
        let info1 = cached_depends lookup info (sort frontier);
            s1 = visit info1 known frontier (s\<lparr>next_frontier := []\<rparr>)
        in closure_loop lookup known info1 s1
             (sort (remdups (filter (\<lambda>n. n \<notin> seen s1) (next_frontier s1)))))"

declare closure_loop.simps [code]

definition start_frontier :: "string list \<Rightarrow> string set \<Rightarrow> string list" where
  "start_frontier start known = filter (\<lambda>n. n \<notin> known) (rev (remdups (rev start)))"

definition depends_closure ::
  "depends_lookup \<Rightarrow> memo \<Rightarrow> string list \<Rightarrow> string set \<Rightarrow> (memo \<times> string list \<times> string option) option" where
  "depends_closure lookup info start known =
     map_option (\<lambda>(info1, s). (info1, order_found s, missing s))
       (closure_loop lookup known info
          \<lparr>seen = {}, order_found = [], missing = None, next_frontier = []\<rparr> (start_frontier start known))"

subsection \<open>The auto-install fixpoint\<close>

record fix_flags =
  require_new :: bool
  do_record :: bool
  country_gate :: bool

record fix_state =
  f_memo :: memo
  f_installed :: "string set"
  f_newly :: "string set"
  f_rejected :: "string set"
  f_result :: install_set

fun select_rows ::
  "fix_flags \<Rightarrow> candidate_row list \<Rightarrow> fix_state \<Rightarrow> fix_state \<times> (string \<times> string list) list" where
  "select_rows fl [] s = (s, [])"
| "select_rows fl ((name, triggers, countries) # rows) s =
     (let cs = sort (remdups (case countries of None \<Rightarrow> [] | Some c \<Rightarrow> c));
          trig = sort (remdups triggers)
      in if name \<in> f_installed s \<or> name \<in> f_rejected s then select_rows fl rows s
         else if \<not> set trig \<subseteq> f_installed s then select_rows fl rows s
         else if require_new fl \<and> set trig \<inter> f_newly s = {} then select_rows fl rows s
         else if country_gate fl \<and> cs \<noteq> []
         then select_rows fl rows (s\<lparr>f_rejected := insert name (f_rejected s),
                f_result := (if do_record fl
                  then (f_result s)\<lparr>is_country_conditional := (is_country_conditional (f_result s))(name \<mapsto> cs)\<rparr>
                  else f_result s)\<rparr>)
         else (case select_rows fl rows s of (s', accepted) \<Rightarrow> (s', (name, trig) # accepted)))"

definition auto_entries ::
  "nat \<Rightarrow> string set \<Rightarrow> string \<Rightarrow> string list \<Rightarrow> string list \<Rightarrow> auto_installed list" where
  "auto_entries rnd accepted_names name trig closure =
     \<lparr>ai_name = name, ai_round = rnd, ai_triggers = trig, ai_required_by = None\<rparr> #
     map (\<lambda>d. \<lparr>ai_name = d, ai_round = rnd, ai_triggers = [], ai_required_by = Some name\<rparr>)
       (filter (\<lambda>d. d \<noteq> name \<and> d \<notin> accepted_names) (sort closure))"

fun accept ::
  "depends_lookup \<Rightarrow> fix_flags \<Rightarrow> nat \<Rightarrow> string set \<Rightarrow> (string \<times> string list) list \<Rightarrow> string set \<Rightarrow> fix_state \<Rightarrow>
     (string set \<times> fix_state) option" where
  "accept lookup fl rnd accepted_names [] added s = Some (added, s)"
| "accept lookup fl rnd accepted_names ((name, trig) # rest) added s =
     (case depends_closure lookup (f_memo s) [name] (f_installed s \<union> added) of
        None \<Rightarrow> None
      | Some (info, closure, miss) \<Rightarrow>
          (case miss of
             Some m \<Rightarrow>
               accept lookup fl rnd accepted_names rest added
                 (s\<lparr>f_memo := info, f_rejected := insert name (f_rejected s),
                    f_result := (if do_record fl
                      then (f_result s)\<lparr>is_unsatisfiable := (is_unsatisfiable (f_result s))(name \<mapsto> m)\<rparr>
                      else f_result s)\<rparr>)
           | None \<Rightarrow>
               accept lookup fl rnd accepted_names rest (added \<union> set closure)
                 (s\<lparr>f_memo := info,
                    f_result := (if do_record fl
                      then (f_result s)\<lparr>is_auto := is_auto (f_result s) @ auto_entries rnd accepted_names name trig closure\<rparr>
                      else f_result s)\<rparr>)))"

text \<open>The rounds \<open>rnd\<close>, \<open>rnd + 1\<close>, \<dots>, \<open>rnd + k - 1\<close>; the flag says that the cap was hit.\<close>

fun fixpoint ::
  "depends_lookup \<Rightarrow> candidate_lookup \<Rightarrow> fix_flags \<Rightarrow> nat \<Rightarrow> nat \<Rightarrow> fix_state \<Rightarrow> (bool \<times> fix_state) option" where
  "fixpoint lookup candidates fl 0 rnd s = Some (True, s)"
| "fixpoint lookup candidates fl (Suc k) rnd s =
     (case select_rows fl (sort_key fst (candidates (f_installed s) (f_rejected s))) s of (s1, accepted) \<Rightarrow>
        if accepted = [] then Some (False, s1)
        else (case depends_closure lookup (f_memo s1) (map fst accepted) (f_installed s1) of
           None \<Rightarrow> None
         | Some (info, _, _) \<Rightarrow>
             (case accept lookup fl rnd (fst ` set accepted) accepted {} (s1\<lparr>f_memo := info\<rparr>) of
                None \<Rightarrow> None
              | Some (added, s2) \<Rightarrow>
                  if added = {} then Some (False, s2)
                  else fixpoint lookup candidates fl k (rnd + 1)
                         (s2\<lparr>f_installed := f_installed s2 \<union> added, f_newly := f_newly s2 \<union> added\<rparr>))))"

definition empty_result :: "string list \<Rightarrow> install_set" where
  "empty_result roots = \<lparr>is_roots = roots, is_installed = {}, is_baseline = {}, is_auto = [],
     is_unsatisfiable = Map.empty, is_country_conditional = Map.empty, is_truncated = False, is_caveat = None\<rparr>"

definition compute_baseline ::
  "depends_lookup \<Rightarrow> candidate_lookup \<Rightarrow> memo \<Rightarrow> nat \<Rightarrow> (memo \<times> baseline) option" where
  "compute_baseline lookup candidates info max_rounds =
     (case depends_closure lookup info [BASELINE_ROOT] {} of
        None \<Rightarrow> None
      | Some (info1, base_closure, _) \<Rightarrow>
          map_option (\<lambda>(trunc, s). (f_memo s, \<lparr>b_installed = f_installed s, b_rejected = f_rejected s, b_truncated = trunc\<rparr>))
            (fixpoint lookup candidates \<lparr>require_new = False, do_record = False, country_gate = False\<rparr> max_rounds 1
               \<lparr>f_memo = info1, f_installed = set base_closure, f_newly = set base_closure, f_rejected = {},
                f_result = empty_result []\<rparr>))"

definition resolve_install_set ::
  "string list \<Rightarrow> depends_lookup \<Rightarrow> candidate_lookup \<Rightarrow> nat \<Rightarrow> bool \<Rightarrow> baseline option \<Rightarrow> install_set option" where
  "resolve_install_set roots lookup candidates max_rounds gate given =
     (let roots_t = rev (remdups (rev roots));
          is_creation = BASELINE_ROOT \<in> set roots_t
      in case (if is_creation then Some (Map.empty, \<lparr>b_installed = {}, b_rejected = {}, b_truncated = False\<rparr>)
               else case given of
                 Some b \<Rightarrow> Some (Map.empty, b)
               | None \<Rightarrow> compute_baseline lookup candidates Map.empty max_rounds) of
           None \<Rightarrow> None
         | Some (info, base) \<Rightarrow>
             (case depends_closure lookup info roots_t (b_installed base) of
                None \<Rightarrow> None
              | Some (info1, newly, _) \<Rightarrow>
                  map_option (\<lambda>(trunc, s). (f_result s)\<lparr>is_truncated := (b_truncated base \<or> trunc), is_installed := f_installed s\<rparr>)
                    (fixpoint lookup candidates
                       \<lparr>require_new = (\<not> is_creation), do_record = True, country_gate = (gate \<and> \<not> is_creation)\<rparr>
                       max_rounds 1
                       \<lparr>f_memo = info1, f_installed = b_installed base \<union> set newly, f_newly = set newly,
                        f_rejected = b_rejected base,
                        f_result = (empty_result roots_t)\<lparr>is_baseline := b_installed base, is_truncated := b_truncated base\<rparr>\<rparr>)))"

subsection \<open>The closure is the set of needed modules\<close>

text \<open>The names a closure has to look at: the start, and the dependencies of available names,
  except the names that are known already.\<close>

inductive_set needed :: "(string \<Rightarrow> bool) \<Rightarrow> (string \<Rightarrow> string list) \<Rightarrow> string set \<Rightarrow> string set \<Rightarrow> string set"
  for avail deps known start where
  start: "n \<in> start \<Longrightarrow> n \<notin> known \<Longrightarrow> n \<in> needed avail deps known start"
| dep: "n \<in> needed avail deps known start \<Longrightarrow> avail n \<Longrightarrow> d \<in> set (deps n) \<Longrightarrow> d \<notin> known \<Longrightarrow>
    d \<in> needed avail deps known start"

lemma needed_unknown: "n \<in> needed avail deps known start \<Longrightarrow> n \<notin> known"
  by (induction rule: needed.induct)

lemma needed_antimono:
  assumes "n \<in> needed avail deps known start" and "known' \<subseteq> known"
  shows "n \<in> needed avail deps known' start"
  using assms by (induction rule: needed.induct) (auto intro: needed.intros)

lemma needed_subset:
  assumes "start - known \<subseteq> A" and "\<And>n d. n \<in> A \<Longrightarrow> avail n \<Longrightarrow> d \<in> set (deps n) \<Longrightarrow> d \<notin> known \<Longrightarrow> d \<in> A"
  shows "needed avail deps known start \<subseteq> A"
proof
  fix n assume "n \<in> needed avail deps known start"
  then show "n \<in> A" by (induction rule: needed.induct) (use assms in auto)
qed

text \<open>What a client of the closure relies on: the lookup answers every name it is asked for with the
  availability and the dependencies of that name, and only finitely many names are dependencies.\<close>

locale depends_graph =
  fixes lookup :: depends_lookup and avail :: "string \<Rightarrow> bool" and deps :: "string \<Rightarrow> string list"
  assumes lookup_answers: "n \<in> set ns \<Longrightarrow> (case lookup ns n of None \<Rightarrow> (False, []) | Some v \<Rightarrow> v) = (avail n, deps n)"
    and finite_deps: "finite (\<Union>n. set (deps n))"
begin

definition memo_ok :: "memo \<Rightarrow> bool" where
  "memo_ok info \<longleftrightarrow> (\<forall>n v. info n = Some v \<longrightarrow> v = (avail n, deps n))"

lemma memo_ok_empty [simp]: "memo_ok Map.empty"
  by (simp add: memo_ok_def)

lemma cached_depends_ok:
  assumes "memo_ok info"
  shows "memo_ok (cached_depends lookup info ns)" and "n \<in> set ns \<Longrightarrow> cached_depends lookup info ns n = Some (avail n, deps n)"
proof -
  let ?todo = "sort (remdups (filter (\<lambda>n. info n = None) ns))"
  have "cached_depends lookup info ns n = (if n \<in> set ?todo then Some (avail n, deps n) else info n)" for n
    using lookup_answers [of n ?todo] by (simp add: cached_depends_def Let_def del: set_sort)
  with assms show "memo_ok (cached_depends lookup info ns)"
    and "n \<in> set ns \<Longrightarrow> cached_depends lookup info ns n = Some (avail n, deps n)"
    by (auto simp: memo_ok_def)
qed

lemma finite_needed: "finite (needed avail deps known (set start))"
proof (rule finite_subset)
  show "needed avail deps known (set start) \<subseteq> set start \<union> (\<Union>n. set (deps n))"
    by (rule needed_subset) auto
qed (simp add: finite_deps)

text \<open>The loop invariant; \<open>todo\<close> is what the current level has still to visit.\<close>

definition bfs_inv :: "string set \<Rightarrow> string set \<Rightarrow> string set \<Rightarrow> bfs_state \<Rightarrow> bool" where
  "bfs_inv known start todo s \<longleftrightarrow>
     seen s \<union> todo \<union> set (next_frontier s) \<subseteq> needed avail deps known start \<and>
     start - known \<subseteq> seen s \<union> todo \<union> set (next_frontier s) \<and>
     (\<forall>n \<in> seen s. avail n \<longrightarrow> set (deps n) - known \<subseteq> seen s \<union> todo \<union> set (next_frontier s)) \<and>
     set (order_found s) = {n \<in> seen s. avail n} \<and> distinct (order_found s) \<and>
     (missing s = None \<longleftrightarrow> (\<forall>n \<in> seen s. avail n)) \<and>
     (\<forall>m. missing s = Some m \<longrightarrow> m \<in> seen s \<and> \<not> avail m)"

lemma visit_inv:
  assumes "\<And>n. n \<in> set ns \<Longrightarrow> info n = Some (avail n, deps n)" and "bfs_inv known start (set ns) s"
  shows "bfs_inv known start {} (visit info known ns s) \<and> seen (visit info known ns s) = seen s \<union> set ns"
  using assms
proof (induction ns arbitrary: s)
  case (Cons n ns)
  let ?s1 = "s\<lparr>seen := insert n (seen s)\<rparr>"
  let ?s = "if n \<in> seen s then s
    else if \<not> avail n then ?s1\<lparr>missing := (if missing s = None then Some n else missing s)\<rparr>
    else ?s1\<lparr>order_found := order_found s @ [n],
      next_frontier := next_frontier s @ filter (\<lambda>d. d \<notin> known \<and> d \<notin> seen ?s1) (deps n)\<rparr>"
  have step: "visit info known (n # ns) s = visit info known ns ?s"
    using Cons.prems(1) [of n] by (simp add: Let_def)
  have inv: "bfs_inv known start (insert n (set ns)) s" using Cons.prems(2) by simp
  have seen: "seen ?s = insert n (seen s)" by auto
  have "bfs_inv known start (set ns) ?s"
  proof (cases "n \<in> seen s")
    case True
    then show ?thesis using inv by (auto simp: bfs_inv_def)
  next
    case new: False
    show ?thesis
    proof (cases "avail n")
      case False
      with new inv show ?thesis by (auto simp: bfs_inv_def)
    next
      case True
      have "n \<in> needed avail deps known start" using inv by (simp add: bfs_inv_def)
      then have "set (filter (\<lambda>d. d \<notin> known \<and> d \<notin> seen ?s1) (deps n)) \<subseteq> needed avail deps known start"
        using True by (auto intro: needed.dep)
      with new True inv show ?thesis by (auto simp: bfs_inv_def)
    qed
  qed
  then have "bfs_inv known start {} (visit info known ns ?s) \<and> seen (visit info known ns ?s) = seen ?s \<union> set ns"
    using Cons.prems(1) by (intro Cons.IH) simp_all
  with step seen show ?case by (simp add: Un_commute)
qed simp

lemma bfs_inv_next:
  assumes "bfs_inv known start {} s"
  shows "bfs_inv known start (set (sort (remdups (filter (\<lambda>n. n \<notin> seen s) (next_frontier s))))) (s\<lparr>next_frontier := []\<rparr>)"
  using assms by (auto simp: bfs_inv_def)

lemma closure_loop_total:
  assumes "memo_ok info" and "bfs_inv known (set start) (set frontier) (s\<lparr>next_frontier := []\<rparr>)"
    and "seen s \<inter> set frontier = {}"
  shows "\<exists>info' s'. closure_loop lookup known info s frontier = Some (info', s') \<and> memo_ok info' \<and>
    bfs_inv known (set start) {} (s'\<lparr>next_frontier := []\<rparr>)"
  using assms
proof (induction "card (needed avail deps known (set start) - seen s)" arbitrary: info s frontier rule: less_induct)
  case less
  show ?case
  proof (cases "frontier = []")
    case True
    with less.prems show ?thesis by (subst closure_loop.simps) auto
  next
    case False
    define info1 where "info1 = cached_depends lookup info (sort frontier)"
    define s1 where "s1 = visit info1 known frontier (s\<lparr>next_frontier := []\<rparr>)"
    define fr where "fr = sort (remdups (filter (\<lambda>n. n \<notin> seen s1) (next_frontier s1)))"
    have ok: "memo_ok info1" and info: "\<And>n. n \<in> set frontier \<Longrightarrow> info1 n = Some (avail n, deps n)"
      using cached_depends_ok [OF less.prems(1)] by (simp_all add: info1_def)
    have inv: "bfs_inv known (set start) {} s1" and seen: "seen s1 = seen s \<union> set frontier"
      using visit_inv [OF info less.prems(2)] by (simp_all add: s1_def)
    obtain n where "n \<in> set frontier" using False by (cases frontier) auto
    then have "n \<notin> seen s" "n \<in> seen s1" using seen less.prems(3) by auto
    then have "seen s \<subset> seen s1" using seen by auto
    moreover have "seen s1 \<subseteq> needed avail deps known (set start)" using inv by (simp add: bfs_inv_def)
    ultimately have "card (needed avail deps known (set start) - seen s1) < card (needed avail deps known (set start) - seen s)"
      by (intro psubset_card_mono) (auto simp: finite_needed)
    moreover have "bfs_inv known (set start) (set fr) (s1\<lparr>next_frontier := []\<rparr>)" "seen s1 \<inter> set fr = {}"
      using bfs_inv_next [OF inv] by (auto simp: fr_def)
    ultimately have "\<exists>info' s'. closure_loop lookup known info1 s1 fr = Some (info', s') \<and> memo_ok info' \<and>
        bfs_inv known (set start) {} (s'\<lparr>next_frontier := []\<rparr>)"
      using ok by (intro less.hyps)
    moreover have "closure_loop lookup known info s frontier = closure_loop lookup known info1 s1 fr"
      using False by (subst closure_loop.simps) (simp add: info1_def s1_def fr_def Let_def)
    ultimately show ?thesis by simp
  qed
qed

text \<open>The closure always returns: the needed available names, each once, and a needed unavailable name
  if there is one.\<close>

lemma depends_closure_total:
  assumes "memo_ok info"
  shows "\<exists>info' closure miss. depends_closure lookup info start known = Some (info', closure, miss) \<and> memo_ok info' \<and>
    distinct closure \<and> set closure = {n \<in> needed avail deps known (set start). avail n} \<and>
    (miss = None \<longleftrightarrow> (\<forall>n \<in> needed avail deps known (set start). avail n)) \<and>
    (\<forall>m. miss = Some m \<longrightarrow> m \<in> needed avail deps known (set start) \<and> \<not> avail m)"
proof -
  let ?s = "\<lparr>seen = {}, order_found = [], missing = None, next_frontier = []\<rparr> :: bfs_state"
  have "set (start_frontier start known) = set start - known" by (auto simp: start_frontier_def)
  then have "bfs_inv known (set start) (set (start_frontier start known)) (?s\<lparr>next_frontier := []\<rparr>)"
    by (auto simp: bfs_inv_def intro: needed.start)
  from closure_loop_total [OF assms this] obtain info' s' where
    run: "closure_loop lookup known info ?s (start_frontier start known) = Some (info', s')" "memo_ok info'"
    and inv: "bfs_inv known (set start) {} (s'\<lparr>next_frontier := []\<rparr>)" by auto
  have "needed avail deps known (set start) \<subseteq> seen s'"
    using inv by (intro needed_subset) (auto simp: bfs_inv_def)
  with inv have "seen s' = needed avail deps known (set start)" by (auto simp: bfs_inv_def)
  with run inv show ?thesis by (auto simp: depends_closure_def bfs_inv_def)
qed

text \<open>A set is sound when its members are available and with each member it has its available
  dependencies; \<open>complete_over K A\<close> says that the members of \<open>A\<close> miss nothing at all.\<close>

definition sound :: "string set \<Rightarrow> bool" where
  "sound I \<longleftrightarrow> (\<forall>n \<in> I. avail n \<and> (\<forall>d \<in> set (deps n). avail d \<longrightarrow> d \<in> I))"

definition complete_over :: "string set \<Rightarrow> string set \<Rightarrow> bool" where
  "complete_over K A \<longleftrightarrow> (\<forall>n \<in> A. avail n \<and> set (deps n) \<subseteq> K \<union> A)"

definition doomed :: "string set \<Rightarrow> string \<Rightarrow> bool" where
  "doomed K x \<longleftrightarrow> (\<exists>m \<in> needed avail deps K {x}. \<not> avail m)"

lemma sound_empty [simp]: "sound {}"
  by (simp add: sound_def)

lemma sound_closure:
  assumes "sound K"
  shows "sound (K \<union> {n \<in> needed avail deps K S. avail n})"
  using assms by (auto simp: sound_def intro: needed.dep)

lemma sound_complete: "sound K \<Longrightarrow> complete_over K A \<Longrightarrow> sound (K \<union> A)"
  by (auto simp: sound_def complete_over_def)

lemma complete_closure:
  assumes "complete_over K A" and "\<forall>n \<in> needed avail deps (K \<union> A) S. avail n"
  shows "complete_over K (A \<union> needed avail deps (K \<union> A) S)"
  using assms by (auto simp: complete_over_def intro: needed.dep)

lemma complete_not_doomed:
  assumes "complete_over K A" and "x \<in> A"
  shows "\<not> doomed K x"
proof -
  have "needed avail deps K {x} \<subseteq> A"
    using assms by (intro needed_subset) (auto simp: complete_over_def)
  with assms(1) show ?thesis by (auto simp: doomed_def complete_over_def)
qed

lemma doomed_antimono: "doomed K' x \<Longrightarrow> K \<subseteq> K' \<Longrightarrow> doomed K x"
  by (auto simp: doomed_def dest: needed_antimono)

text \<open>One run over the accepted candidates.\<close>

definition accepts ::
  "fix_flags \<Rightarrow> string set \<Rightarrow> (string \<times> string list) list \<Rightarrow> string set \<Rightarrow> fix_state \<Rightarrow> string set \<Rightarrow> fix_state \<Rightarrow> bool" where
  "accepts fl names acc added s added' s' \<longleftrightarrow>
     memo_ok (f_memo s') \<and> f_installed s' = f_installed s \<and> f_newly s' = f_newly s \<and>
     f_rejected s \<subseteq> f_rejected s' \<and> f_rejected s' \<subseteq> f_rejected s \<union> Collect (doomed {}) \<and>
     added \<subseteq> added' \<and> complete_over (f_installed s) added' \<and>
     added' \<inter> f_installed s \<subseteq> added \<and>
     is_baseline (f_result s') = is_baseline (f_result s) \<and>
     (\<forall>x m. is_unsatisfiable (f_result s') x = Some m \<longrightarrow>
        is_unsatisfiable (f_result s) x = Some m \<or> \<not> avail m \<and> m \<in> needed avail deps {} {x}) \<and>
     (\<exists>D L. D \<subseteq> fst ` set acc \<and> D \<subseteq> f_rejected s' \<and> (\<forall>x \<in> D. doomed (f_installed s) x) \<and> fst ` set acc - D \<subseteq> f_installed s \<union> added' \<and>
        (do_record fl \<longrightarrow> map ai_name (is_auto (f_result s')) = map ai_name (is_auto (f_result s)) @ L \<and> distinct L \<and>
           set L = (fst ` set acc - D) \<union> (added' - added - names)))"

lemma accept_total:
  assumes "memo_ok (f_memo s)" and "complete_over (f_installed s) added" and "distinct (map fst acc)" and "fst ` set acc \<subseteq> names"
  shows "\<exists>added' s'. accept lookup fl rnd names acc added s = Some (added', s') \<and> accepts fl names acc added s added' s'"
  using assms
proof (induction acc arbitrary: added s)
  case Nil
  then show ?case by (auto simp: accepts_def intro!: exI [of _ "{}"] exI [of _ "[]"])
next
  case (Cons a acc)
  obtain name trig where a: "a = (name, trig)" by (cases a)
  let ?K = "f_installed s \<union> added"
  let ?N = "needed avail deps ?K {name}"
  obtain info closure miss where c: "depends_closure lookup (f_memo s) [name] ?K = Some (info, closure, miss)"
    and ok: "memo_ok info" and cl: "distinct closure" "set closure = {n \<in> ?N. avail n}"
    and miss: "miss = None \<longleftrightarrow> (\<forall>n \<in> ?N. avail n)" "\<And>m. miss = Some m \<Longrightarrow> m \<in> ?N \<and> \<not> avail m"
    using depends_closure_total [OF Cons.prems(1), of "[name]" ?K] by auto
  show ?case
  proof (cases miss)
    case (Some m)
    let ?s = "s\<lparr>f_memo := info, f_rejected := insert name (f_rejected s),
      f_result := (if do_record fl then (f_result s)\<lparr>is_unsatisfiable := (is_unsatisfiable (f_result s))(name \<mapsto> m)\<rparr> else f_result s)\<rparr>"
    obtain added' s' where run: "accept lookup fl rnd names acc added ?s = Some (added', s')"
      and acc: "accepts fl names acc added ?s added' s'"
      using Cons.IH [of ?s added] Cons.prems ok by auto
    have "m \<in> needed avail deps {} {name}" "doomed (f_installed s) name" "doomed {} name"
      using miss(2) [OF Some] needed_antimono [of m avail deps ?K "{name}"] by (auto simp: doomed_def)
    note dead = this miss(2) [OF Some]
    from acc obtain D L where D: "D \<subseteq> fst ` set acc" "D \<subseteq> f_rejected s'" "\<forall>x \<in> D. doomed (f_installed s) x"
      "fst ` set acc - D \<subseteq> f_installed s \<union> added'"
      "do_record fl \<longrightarrow> map ai_name (is_auto (f_result s')) = map ai_name (is_auto (f_result s)) @ L \<and> distinct L \<and>
         set L = (fst ` set acc - D) \<union> (added' - added - names)"
      unfolding accepts_def by (auto split: if_splits)
    have "fst ` set (a # acc) - insert name D = fst ` set acc - D"
      using Cons.prems(3) a by auto
    then have "accepts fl names (a # acc) added s added' s'"
      using acc D dead unfolding accepts_def
      by (intro conjI exI [of _ "insert name D"] exI [of _ L]) (auto simp: a split: if_splits)
    with run show ?thesis by (auto simp: a c Some)
  next
    case None
    let ?s = "s\<lparr>f_memo := info, f_result := (if do_record fl
      then (f_result s)\<lparr>is_auto := is_auto (f_result s) @ auto_entries rnd names name trig closure\<rparr> else f_result s)\<rparr>"
    have N: "set closure = ?N" "\<forall>n \<in> ?N. avail n" using cl(2) miss(1) None by auto
    have comp: "complete_over (f_installed s) (added \<union> set closure)"
      using complete_closure [OF Cons.prems(2) N(2)] N(1) by simp
    obtain added' s' where run: "accept lookup fl rnd names acc (added \<union> set closure) ?s = Some (added', s')"
      and acc: "accepts fl names acc (added \<union> set closure) ?s added' s'"
      using Cons.IH [of ?s "added \<union> set closure"] Cons.prems ok comp by auto
    from acc obtain D L where D: "D \<subseteq> fst ` set acc" "D \<subseteq> f_rejected s'" "\<forall>x \<in> D. doomed (f_installed s) x"
      "fst ` set acc - D \<subseteq> f_installed s \<union> added'"
      "do_record fl \<longrightarrow> map ai_name (is_auto (f_result s')) = map ai_name (is_auto (f_result s)) @
           (name # filter (\<lambda>d. d \<noteq> name \<and> d \<notin> names) (sort closure)) @ L \<and> distinct L \<and>
         set L = (fst ` set acc - D) \<union> (added' - (added \<union> set closure) - names)"
      unfolding accepts_def by (auto simp: auto_entries_def comp_def split: if_splits)
    have fresh: "set closure \<inter> ?K = {}" using N(1) needed_unknown by blast
    have name: "name \<in> ?K \<union> set closure" using N(1) needed.start [of name "{name}" ?K avail deps] by auto
    have sub: "added \<union> set closure \<subseteq> added'" using acc by (simp add: accepts_def)
    let ?L = "(name # filter (\<lambda>d. d \<noteq> name \<and> d \<notin> names) (sort closure)) @ L"
    have names: "name \<notin> fst ` set acc" "name \<in> names" "fst ` set acc \<subseteq> names" using Cons.prems(3,4) a by auto
    have "distinct ?L \<and> set ?L = (fst ` set (a # acc) - D) \<union> (added' - added - names)" if "do_record fl"
      using D(1,5) that names cl(1) fresh sub by (auto simp: a)
    moreover have "fst ` set (a # acc) - D \<subseteq> f_installed s \<union> added'" using D(4) name sub by (auto simp: a)
    moreover have "D \<subseteq> fst ` set (a # acc)" using D(1) by auto
    ultimately have "\<exists>D L. D \<subseteq> fst ` set (a # acc) \<and> D \<subseteq> f_rejected s' \<and> (\<forall>x \<in> D. doomed (f_installed s) x) \<and>
        fst ` set (a # acc) - D \<subseteq> f_installed s \<union> added' \<and>
        (do_record fl \<longrightarrow> map ai_name (is_auto (f_result s')) = map ai_name (is_auto (f_result s)) @ L \<and> distinct L \<and>
           set L = (fst ` set (a # acc) - D) \<union> (added' - added - names))"
      using D(2,3,5) by (intro exI [of _ D] exI [of _ ?L]) simp
    then have "accepts fl names (a # acc) added s added' s'"
      using acc fresh unfolding accepts_def by (auto split: if_splits)
    with run show ?thesis by (auto simp: a c None)
  qed
qed

end

text \<open>Choosing the candidates of a round.\<close>

definition settled_row :: "fix_flags \<Rightarrow> fix_state \<Rightarrow> candidate_row \<Rightarrow> bool" where
  "settled_row fl s row = (fst row \<in> f_installed s \<or> fst row \<in> f_rejected s \<or> \<not> set (fst (snd row)) \<subseteq> f_installed s \<or>
     require_new fl \<and> set (fst (snd row)) \<inter> f_newly s = {})"

definition triggered :: "fix_flags \<Rightarrow> fix_state \<Rightarrow> string list \<Rightarrow> bool" where
  "triggered fl s trig = (set trig \<subseteq> f_installed s \<and> (require_new fl \<longrightarrow> set trig \<inter> f_newly s \<noteq> {}))"

definition selects :: "fix_flags \<Rightarrow> candidate_row list \<Rightarrow> fix_state \<Rightarrow> fix_state \<Rightarrow> (string \<times> string list) list \<Rightarrow> bool" where
  "selects fl rows s s' acc \<longleftrightarrow>
     f_memo s' = f_memo s \<and> f_installed s' = f_installed s \<and> f_newly s' = f_newly s \<and> f_rejected s \<subseteq> f_rejected s' \<and>
     (\<not> country_gate fl \<longrightarrow> f_rejected s' = f_rejected s) \<and>
     is_auto (f_result s') = is_auto (f_result s) \<and> is_baseline (f_result s') = is_baseline (f_result s) \<and>
     is_unsatisfiable (f_result s') = is_unsatisfiable (f_result s) \<and>
     distinct (map fst acc) \<and> fst ` set acc \<subseteq> fst ` set rows - f_installed s \<and>
     (\<forall>a \<in> set acc. triggered fl s (snd a)) \<and>
     (\<forall>row \<in> set rows. settled_row fl s' row \<or> fst row \<in> fst ` set acc)"

lemma settled_row_later:
  "settled_row fl s row \<Longrightarrow> f_installed s' = f_installed s \<Longrightarrow> f_newly s' = f_newly s \<Longrightarrow>
     f_rejected s \<subseteq> f_rejected s' \<Longrightarrow> settled_row fl s' row"
  by (auto simp: settled_row_def)

lemma selects_skip: "selects fl rows s s' acc \<Longrightarrow> settled_row fl s' row \<Longrightarrow> selects fl (row # rows) s s' acc"
  unfolding selects_def by (simp add: subset_iff)

lemma select_rows_facts:
  assumes "select_rows fl rows s = (s', acc)" and "distinct (map fst rows)"
  shows "selects fl rows s s' acc"
  using assms
proof (induction rows arbitrary: s s' acc)
  case Nil
  then show ?case by (simp add: selects_def)
next
  case (Cons row rows)
  obtain name triggers countries where row: "row = (name, triggers, countries)" by (cases row)
  let ?cs = "sort (remdups (case countries of None \<Rightarrow> [] | Some c \<Rightarrow> c))"
  let ?s1 = "s\<lparr>f_rejected := insert name (f_rejected s), f_result := (if do_record fl
    then (f_result s)\<lparr>is_country_conditional := (is_country_conditional (f_result s))(name \<mapsto> ?cs)\<rparr> else f_result s)\<rparr>"
  have new: "name \<notin> fst ` set rows" and dist: "distinct (map fst rows)" using Cons.prems(2) row by auto
  consider (skip) "settled_row fl s row" | (country) "\<not> settled_row fl s row" "country_gate fl \<and> ?cs \<noteq> []"
    | (take) "\<not> settled_row fl s row" "\<not> (country_gate fl \<and> ?cs \<noteq> [])" by blast
  then show ?case
  proof cases
    case skip
    then have "select_rows fl rows s = (s', acc)" using Cons.prems(1)
      by (auto simp: row settled_row_def Let_def split: if_splits)
    then have sel: "selects fl rows s s' acc" by (rule Cons.IH [OF _ dist])
    then have "settled_row fl s' row" using skip by (auto simp: selects_def intro: settled_row_later)
    with sel show ?thesis by (rule selects_skip)
  next
    case country
    then have "select_rows fl rows ?s1 = (s', acc)" using Cons.prems(1)
      by (auto simp: row settled_row_def Let_def split: if_splits)
    then have sel: "selects fl rows ?s1 s' acc" by (rule Cons.IH [OF _ dist])
    then have "selects fl rows s s' acc" using country(2) unfolding selects_def triggered_def by (simp split: if_splits)
    moreover have "settled_row fl s' row" using sel by (auto simp: row selects_def settled_row_def)
    ultimately show ?thesis by (rule selects_skip)
  next
    case take
    then obtain acc' where "select_rows fl rows s = (s', acc')" and acc: "acc = (name, sort (remdups triggers)) # acc'"
      using Cons.prems(1) by (auto simp: row settled_row_def Let_def split: if_splits prod.splits)
    from this(1) have "selects fl rows s s' acc'" by (rule Cons.IH [OF _ dist])
    moreover have "name \<notin> f_installed s" "triggered fl s (sort (remdups triggers))"
      using take(1) by (auto simp: row settled_row_def triggered_def)
    ultimately show ?thesis using new unfolding row acc selects_def by auto
  qed
qed

text \<open>A rejection that is recorded has its reason in the result.\<close>

definition logged :: "string set \<Rightarrow> fix_state \<Rightarrow> bool" where
  "logged R s \<longleftrightarrow> f_rejected s \<subseteq> R \<union> dom (is_unsatisfiable (f_result s)) \<union> dom (is_country_conditional (f_result s))"

lemma logged_country:
  "logged R s \<Longrightarrow> logged R (s\<lparr>f_rejected := insert n (f_rejected s),
     f_result := (f_result s)\<lparr>is_country_conditional := (is_country_conditional (f_result s))(n \<mapsto> cs)\<rparr>\<rparr>)"
  by (auto simp: logged_def)

lemma select_logged:
  "select_rows fl rows s = (s', acc) \<Longrightarrow> do_record fl \<Longrightarrow> logged R s \<Longrightarrow> logged R s'"
proof (induction rows arbitrary: s acc)
  case (Cons row rows)
  obtain name triggers countries where row: "row = (name, triggers, countries)" by (cases row)
  from Cons.prems Cons.IH show ?case
    by (auto simp: row Let_def intro: logged_country split: if_splits prod.splits)
qed simp

lemma accept_logged:
  "accept lookup fl rnd ns acc added s = Some (added', s') \<Longrightarrow> do_record fl \<Longrightarrow> logged R s \<Longrightarrow> logged R s'"
proof (induction acc arbitrary: added s)
  case (Cons a acc)
  obtain name trig where a: "a = (name, trig)" by (cases a)
  from Cons.prems obtain info cl miss where c: "depends_closure lookup (f_memo s) [name] (f_installed s \<union> added) = Some (info, cl, miss)"
    by (auto simp: a split: option.splits)
  show ?case
    using Cons.prems Cons.IH by (cases miss) (fastforce simp: a c logged_def)+
qed simp

lemma fixpoint_logged:
  "fixpoint lookup candidates fl k rnd s = Some (t, s') \<Longrightarrow> do_record fl \<Longrightarrow> logged R s \<Longrightarrow> logged R s'"
proof (induction k arbitrary: rnd s)
  case (Suc k)
  obtain s1 acc where sel: "select_rows fl (sort_key fst (candidates (f_installed s) (f_rejected s))) s = (s1, acc)" by fastforce
  have 1: "logged R s1" using select_logged [OF sel Suc.prems(2,3)] .
  show ?case
  proof (cases "acc = []")
    case True
    with Suc.prems(1) sel 1 show ?thesis by simp
  next
    case False
    with Suc.prems(1) sel obtain info added s2 where
      a: "accept lookup fl rnd (fst ` set acc) acc {} (s1\<lparr>f_memo := info\<rparr>) = Some (added, s2)"
      and rest: "(if added = {} then Some (False, s2) else fixpoint lookup candidates fl k (rnd + 1)
        (s2\<lparr>f_installed := f_installed s2 \<union> added, f_newly := f_newly s2 \<union> added\<rparr>)) = Some (t, s')"
      by (auto split: option.splits)
    have "logged R (s1\<lparr>f_memo := info\<rparr>)" using 1 by (simp add: logged_def)
    with a Suc.prems(2) have 2: "logged R s2" by (rule accept_logged)
    then have "logged R (s2\<lparr>f_installed := f_installed s2 \<union> added, f_newly := f_newly s2 \<union> added\<rparr>)" by (simp add: logged_def)
    with 2 rest Suc.IH [OF _ Suc.prems(2)] show ?thesis by (auto split: if_splits)
  qed
qed simp

subsection \<open>The fixpoint\<close>

text \<open>What the resolver relies on besides the lookup: the candidates are the rows of a catalogue that
  are neither installed nor rejected and whose triggers are installed, one per name.\<close>

locale install_catalogue = depends_graph lookup avail deps
  for lookup :: depends_lookup and avail :: "string \<Rightarrow> bool" and deps :: "string \<Rightarrow> string list" +
  fixes candidates :: candidate_lookup and catalogue :: "candidate_row list"
  assumes candidates_answer: "set (candidates I R) =
      {row \<in> set catalogue. fst row \<notin> I \<and> fst row \<notin> R \<and> set (fst (snd row)) \<subseteq> I}"
    and candidates_distinct: "distinct (map fst (candidates I R))"
begin

definition saturated :: "fix_flags \<Rightarrow> fix_state \<Rightarrow> bool" where
  "saturated fl s \<longleftrightarrow> (\<forall>row \<in> set catalogue. settled_row fl s row)"

text \<open>One round, and the whole loop, as a relation of the states before and after.\<close>

definition extends :: "fix_flags \<Rightarrow> fix_state \<Rightarrow> fix_state \<Rightarrow> bool" where
  "extends fl s s' \<longleftrightarrow>
     memo_ok (f_memo s') \<and> f_installed s \<subseteq> f_installed s' \<and> f_rejected s \<subseteq> f_rejected s' \<and>
     (\<not> country_gate fl \<longrightarrow> f_rejected s' \<subseteq> f_rejected s \<union> Collect (doomed {})) \<and>
     complete_over (f_installed s) (f_installed s' - f_installed s) \<and>
     f_newly s' = f_newly s \<union> (f_installed s' - f_installed s) \<and>
     is_baseline (f_result s') = is_baseline (f_result s) \<and>
     (\<forall>x m. is_unsatisfiable (f_result s') x = Some m \<longrightarrow>
        is_unsatisfiable (f_result s) x = Some m \<or> \<not> avail m \<and> m \<in> needed avail deps {} {x}) \<and>
     (\<exists>L. (do_record fl \<longrightarrow> map ai_name (is_auto (f_result s')) = map ai_name (is_auto (f_result s)) @ L \<and> distinct L \<and>
        set L = f_installed s' - f_installed s))"

lemma extends_trans:
  assumes "extends fl s s1" and "extends fl s1 s2"
  shows "extends fl s s2"
proof -
  from assms obtain L1 L2 where L:
    "do_record fl \<longrightarrow> map ai_name (is_auto (f_result s1)) = map ai_name (is_auto (f_result s)) @ L1 \<and> distinct L1 \<and>
       set L1 = f_installed s1 - f_installed s"
    "do_record fl \<longrightarrow> map ai_name (is_auto (f_result s2)) = map ai_name (is_auto (f_result s1)) @ L2 \<and> distinct L2 \<and>
       set L2 = f_installed s2 - f_installed s1"
    unfolding extends_def by (elim exE conjE)
  have sub: "f_installed s \<subseteq> f_installed s1" "f_installed s1 \<subseteq> f_installed s2" using assms by (simp_all add: extends_def)
  have comp: "complete_over (f_installed s) (f_installed s1 - f_installed s)"
    "complete_over (f_installed s1) (f_installed s2 - f_installed s1)" using assms by (simp_all add: extends_def)
  have "avail n \<and> set (deps n) \<subseteq> f_installed s2" if "n \<in> f_installed s2 - f_installed s" for n
    using comp sub that unfolding complete_over_def by (cases "n \<in> f_installed s1") blast+
  then have 1: "complete_over (f_installed s) (f_installed s2 - f_installed s)"
    unfolding complete_over_def by blast
  have 2: "\<exists>L. do_record fl \<longrightarrow> map ai_name (is_auto (f_result s2)) = map ai_name (is_auto (f_result s)) @ L \<and> distinct L \<and>
      set L = f_installed s2 - f_installed s"
  proof (intro exI impI)
    assume "do_record fl"
    with L sub show "map ai_name (is_auto (f_result s2)) = map ai_name (is_auto (f_result s)) @ (L1 @ L2) \<and> distinct (L1 @ L2) \<and>
      set (L1 @ L2) = f_installed s2 - f_installed s" by auto
  qed
  have new: "f_newly s1 = f_newly s \<union> (f_installed s1 - f_installed s)" "f_newly s2 = f_newly s1 \<union> (f_installed s2 - f_installed s1)"
    using assms by (simp_all add: extends_def)
  have 3: "f_newly s2 = f_newly s \<union> (f_installed s2 - f_installed s)" unfolding new(2) unfolding new(1) using sub by blast
  have 4: "\<forall>x m. is_unsatisfiable (f_result s2) x = Some m \<longrightarrow>
        is_unsatisfiable (f_result s) x = Some m \<or> \<not> avail m \<and> m \<in> needed avail deps {} {x}"
    using assms unfolding extends_def by blast
  have 5: "\<not> country_gate fl \<longrightarrow> f_rejected s2 \<subseteq> f_rejected s \<union> Collect (doomed {})"
    using assms unfolding extends_def by blast
  have "memo_ok (f_memo s2)" "f_installed s \<subseteq> f_installed s2" "f_rejected s \<subseteq> f_rejected s2"
    "is_baseline (f_result s2) = is_baseline (f_result s)"
    using assms sub by (auto simp only: extends_def)
  with 1 2 3 4 5 show ?thesis unfolding extends_def by blast
qed

lemma round_extends:
  assumes sel: "selects fl rows s s1 acc" and ok: "memo_ok info"
    and acc: "accepts fl (fst ` set acc) acc {} (s1\<lparr>f_memo := info\<rparr>) added s2"
  shows "extends fl s (s2\<lparr>f_installed := f_installed s2 \<union> added, f_newly := f_newly s2 \<union> added\<rparr>)"
    and "added \<inter> f_installed s = {}" and "added = {} \<Longrightarrow> extends fl s s2"
    and "added = {} \<Longrightarrow> fst ` set acc \<subseteq> f_rejected s2"
proof -
  have same: "f_installed s1 = f_installed s" "is_auto (f_result s1) = is_auto (f_result s)" "f_newly s1 = f_newly s"
    "is_baseline (f_result s1) = is_baseline (f_result s)" "is_unsatisfiable (f_result s1) = is_unsatisfiable (f_result s)"
    and rej: "f_rejected s \<subseteq> f_rejected s1" "\<not> country_gate fl \<longrightarrow> f_rejected s1 = f_rejected s" and sub: "fst ` set acc \<subseteq> fst ` set rows - f_installed s"
    using sel unfolding selects_def by simp_all
  have names: "fst ` set acc \<inter> f_installed s = {}" using sub by blast
  have "\<exists>D L. D \<subseteq> fst ` set acc \<and> D \<subseteq> f_rejected s2 \<and> (\<forall>x \<in> D. doomed (f_installed s) x) \<and>
    fst ` set acc - D \<subseteq> f_installed s \<union> added \<and>
    (do_record fl \<longrightarrow> map ai_name (is_auto (f_result s2)) = map ai_name (is_auto (f_result s)) @ L \<and> distinct L \<and>
       set L = (fst ` set acc - D) \<union> (added - fst ` set acc))"
    using acc unfolding accepts_def by (simp add: same)
  then obtain D L where D: "D \<subseteq> fst ` set acc" "D \<subseteq> f_rejected s2" "\<forall>x \<in> D. doomed (f_installed s) x"
    "fst ` set acc - D \<subseteq> f_installed s \<union> added"
    and L: "do_record fl \<longrightarrow> map ai_name (is_auto (f_result s2)) = map ai_name (is_auto (f_result s)) @ L \<and> distinct L \<and>
       set L = (fst ` set acc - D) \<union> (added - fst ` set acc)"
    by (elim exE conjE) (rule that)
  have comp: "complete_over (f_installed s) added" and fresh: "added \<inter> f_installed s = {}"
    and inst: "f_installed s2 = f_installed s" "f_newly s2 = f_newly s" "memo_ok (f_memo s2)"
    and base: "is_baseline (f_result s2) = is_baseline (f_result s)"
    and unsat: "\<forall>x m. is_unsatisfiable (f_result s2) x = Some m \<longrightarrow>
        is_unsatisfiable (f_result s) x = Some m \<or> \<not> avail m \<and> m \<in> needed avail deps {} {x}"
    and rej2: "f_rejected s1 \<subseteq> f_rejected s2" "f_rejected s2 \<subseteq> f_rejected s1 \<union> Collect (doomed {})"
    using acc unfolding accepts_def by (simp_all add: same)
  have rejected: "f_rejected s \<subseteq> f_rejected s2"
    "\<not> country_gate fl \<longrightarrow> f_rejected s2 \<subseteq> f_rejected s \<union> Collect (doomed {})" using rej rej2 by auto
  have "D \<inter> added = {}" using D(3) complete_not_doomed [OF comp] by blast
  then have "(fst ` set acc - D) \<union> (added - fst ` set acc) = added"
    using D(4) names by blast
  with L have L': "do_record fl \<longrightarrow> map ai_name (is_auto (f_result s2)) = map ai_name (is_auto (f_result s)) @ L \<and> distinct L \<and> set L = added"
    by simp
  have diff: "f_installed s \<union> added - f_installed s = added" using fresh by auto
  have ex: "\<exists>L. do_record fl \<longrightarrow> map ai_name (is_auto (f_result s2)) = map ai_name (is_auto (f_result s)) @ L \<and> distinct L \<and> set L = added"
    using L' by blast
  show "extends fl s (s2\<lparr>f_installed := f_installed s2 \<union> added, f_newly := f_newly s2 \<union> added\<rparr>)"
    unfolding extends_def using inst base comp unsat ex rejected by (simp add: diff)
  show "added \<inter> f_installed s = {}" by (rule fresh)
  show "extends fl s s2" if "added = {}"
    unfolding extends_def using inst base unsat ex rejected by (simp add: that complete_over_def)
  show "fst ` set acc \<subseteq> f_rejected s2" if "added = {}"
    using D(2,4) names that by blast
qed

lemma fixpoint_total:
  assumes "memo_ok (f_memo s)"
  shows "\<exists>t s'. fixpoint lookup candidates fl k rnd s = Some (t, s') \<and> extends fl s s' \<and> (\<not> t \<longrightarrow> saturated fl s') \<and>
    (t \<longrightarrow> finite (f_installed s') \<longrightarrow> card (f_installed s) + k \<le> card (f_installed s'))"
  using assms
proof (induction k arbitrary: rnd s)
  case 0
  then show ?case by (auto simp: extends_def complete_over_def)
next
  case (Suc k)
  let ?rows = "sort_key fst (candidates (f_installed s) (f_rejected s))"
  obtain s1 acc where run: "select_rows fl ?rows s = (s1, acc)" by (cases "select_rows fl ?rows s")
  have "distinct (map fst ?rows)"
    using candidates_distinct [of "f_installed s" "f_rejected s"] by (simp add: distinct_map)
  from select_rows_facts [OF run this] have sel: "selects fl ?rows s s1 acc" .
  have settled: "settled_row fl s1 row \<or> fst row \<in> fst ` set acc" if "row \<in> set catalogue" for row
  proof (cases "row \<in> set ?rows")
    case True
    then show ?thesis using sel by (auto simp: selects_def)
  next
    case False
    with that have "settled_row fl s row" by (auto simp: candidates_answer settled_row_def)
    then show ?thesis using sel by (auto simp: selects_def intro: settled_row_later)
  qed
  have ok1: "memo_ok (f_memo s1)" using sel Suc.prems by (simp add: selects_def)
  show ?case
  proof (cases "acc = []")
    case True
    with settled have "saturated fl s1" by (simp add: saturated_def)
    moreover have "extends fl s s1"
      using sel Suc.prems by (auto simp: selects_def extends_def complete_over_def intro: exI [of _ "[]"])
    ultimately show ?thesis using run True by (auto intro!: exI [of _ False])
  next
    case False
    obtain info order miss where c: "depends_closure lookup (f_memo s1) (map fst acc) (f_installed s1) = Some (info, order, miss)"
      and ok: "memo_ok info" using depends_closure_total [OF ok1] by blast
    have "distinct (map fst acc)" using sel by (simp add: selects_def)
    then obtain added s2 where a: "accept lookup fl rnd (fst ` set acc) acc {} (s1\<lparr>f_memo := info\<rparr>) = Some (added, s2)"
      and acc: "accepts fl (fst ` set acc) acc {} (s1\<lparr>f_memo := info\<rparr>) added s2"
      using accept_total [of "s1\<lparr>f_memo := info\<rparr>" "{}" acc "fst ` set acc" fl rnd] ok by (auto simp: complete_over_def)
    note round = round_extends [OF sel ok acc]
    show ?thesis
    proof (cases "added = {}")
      case True
      have "saturated fl s2"
        unfolding saturated_def
      proof
        fix row assume "row \<in> set catalogue"
        from settled [OF this] round(4) [OF True] acc show "settled_row fl s2 row"
          by (auto simp: accepts_def settled_row_def)
      qed
      with run False c a True round(3) show ?thesis by (auto intro!: exI [of _ False])
    next
      case new: False
      let ?s = "s2\<lparr>f_installed := f_installed s2 \<union> added, f_newly := f_newly s2 \<union> added\<rparr>"
      have "memo_ok (f_memo ?s)" using acc by (simp add: accepts_def)
      from Suc.IH [OF this, of "rnd + 1"] obtain t s' where rest: "fixpoint lookup candidates fl k (rnd + 1) ?s = Some (t, s')"
        "extends fl ?s s'" "\<not> t \<longrightarrow> saturated fl s'"
        "t \<longrightarrow> finite (f_installed s') \<longrightarrow> card (f_installed ?s) + k \<le> card (f_installed s')" by blast
      have ext: "extends fl s s'" using round(1) rest(2) by (rule extends_trans)
      have inst: "f_installed ?s = f_installed s \<union> added" using acc sel by (simp add: accepts_def selects_def)
      have "card (f_installed s) < card (f_installed ?s)" if "finite (f_installed s')"
      proof (rule psubset_card_mono)
        show "finite (f_installed ?s)" using that rest(2) by (auto simp: extends_def intro: finite_subset)
        show "f_installed s \<subset> f_installed ?s" using inst new round(2) by auto
      qed
      with rest ext run False c a new show ?thesis by (auto simp: Suc_le_eq)
    qed
  qed
qed

lemma sound_extends: "sound (f_installed s) \<Longrightarrow> extends fl s s' \<Longrightarrow> sound (f_installed s')"
  using sound_complete [of "f_installed s" "f_installed s' - f_installed s"]
  by (simp add: extends_def Un_absorb1)

lemma compute_baseline_total:
  assumes "memo_ok info"
  shows "\<exists>info' b. compute_baseline lookup candidates info k = Some (info', b) \<and> memo_ok info' \<and> sound (b_installed b) \<and>
    b_rejected b \<subseteq> Collect (doomed {}) \<and> (b_truncated b \<longrightarrow> finite (b_installed b) \<longrightarrow> k \<le> card (b_installed b))"
proof -
  obtain info1 cl miss where c: "depends_closure lookup info [BASELINE_ROOT] {} = Some (info1, cl, miss)" "memo_ok info1"
    and cl: "set cl = {n \<in> needed avail deps {} {BASELINE_ROOT}. avail n}"
    using depends_closure_total [OF assms, of "[BASELINE_ROOT]" "{}"] by auto
  let ?fl = "\<lparr>require_new = False, do_record = False, country_gate = False\<rparr>"
  let ?s = "\<lparr>f_memo = info1, f_installed = set cl, f_newly = set cl, f_rejected = {}, f_result = empty_result []\<rparr>"
  obtain t s' where run: "fixpoint lookup candidates ?fl k 1 ?s = Some (t, s')" and ext: "extends ?fl ?s s'"
    and cap: "t \<longrightarrow> finite (f_installed s') \<longrightarrow> card (f_installed ?s) + k \<le> card (f_installed s')"
    using fixpoint_total [of ?s ?fl k 1] c(2) by auto
  have "sound (f_installed ?s)" using sound_closure [of "{}" "{BASELINE_ROOT}"] cl by simp
  with ext have "sound (f_installed s')" by (rule sound_extends [rotated])
  moreover have "memo_ok (f_memo s')" "f_rejected s' \<subseteq> Collect (doomed {})" using ext by (simp_all add: extends_def)
  ultimately show ?thesis using c(1) run cap by (auto simp: compute_baseline_def)
qed

text \<open>The part of the resolver after the baseline is known.\<close>

definition requested :: "string list \<Rightarrow> string set \<Rightarrow> string set" where
  "requested roots base = {n \<in> needed avail deps base (set roots). avail n}"

lemma resolve_run:
  assumes "\<And>b. given = Some b \<Longrightarrow> sound (b_installed b) \<and> b_rejected b \<subseteq> Collect (doomed {}) \<and>
      (b_truncated b \<longrightarrow> finite (b_installed b) \<longrightarrow> k \<le> card (b_installed b))"
  shows "\<exists>(base :: baseline) s0 s' t fl. resolve_install_set roots lookup candidates k gate given =
      Some ((f_result s')\<lparr>is_truncated := (b_truncated base \<or> t), is_installed := f_installed s'\<rparr>) \<and>
    sound (b_installed base) \<and> b_rejected base \<subseteq> Collect (doomed {}) \<and>
    (b_truncated base \<longrightarrow> finite (b_installed base) \<longrightarrow> k \<le> card (b_installed base)) \<and>
    fl = \<lparr>require_new = (BASELINE_ROOT \<notin> set roots), do_record = True, country_gate = (gate \<and> BASELINE_ROOT \<notin> set roots)\<rparr> \<and>
    f_installed s0 = b_installed base \<union> requested roots (b_installed base) \<and> f_newly s0 = requested roots (b_installed base) \<and>
    f_rejected s0 = b_rejected base \<and> is_auto (f_result s0) = [] \<and> is_baseline (f_result s0) = b_installed base \<and>
    is_unsatisfiable (f_result s0) = Map.empty \<and> is_country_conditional (f_result s0) = Map.empty \<and> fixpoint lookup candidates fl k 1 s0 = Some (t, s') \<and>
    extends fl s0 s' \<and> (\<not> t \<longrightarrow> saturated fl s') \<and>
    (t \<longrightarrow> finite (f_installed s') \<longrightarrow> card (f_installed s0) + k \<le> card (f_installed s'))"
proof -
  let ?r = "rev (remdups (rev roots))"
  have r: "set ?r = set roots" by simp
  obtain info base where b: "(if BASELINE_ROOT \<in> set ?r then Some (Map.empty, \<lparr>b_installed = {}, b_rejected = {}, b_truncated = False\<rparr>)
      else case given of Some b \<Rightarrow> Some (Map.empty, b) | None \<Rightarrow> compute_baseline lookup candidates Map.empty k) = Some (info, base)"
    and ok: "memo_ok info" and snd: "sound (b_installed base)" "b_rejected base \<subseteq> Collect (doomed {})"
      "b_truncated base \<longrightarrow> finite (b_installed base) \<longrightarrow> k \<le> card (b_installed base)"
    using assms compute_baseline_total [OF memo_ok_empty, of k]
    by (cases "BASELINE_ROOT \<in> set roots"; cases given) auto
  obtain info1 cl miss where c: "depends_closure lookup info ?r (b_installed base) = Some (info1, cl, miss)" "memo_ok info1"
    and cl: "set cl = requested roots (b_installed base)"
    using depends_closure_total [OF ok, of ?r "b_installed base"] unfolding requested_def r by blast
  let ?fl = "\<lparr>require_new = (BASELINE_ROOT \<notin> set roots), do_record = True, country_gate = (gate \<and> BASELINE_ROOT \<notin> set roots)\<rparr>"
  let ?s = "\<lparr>f_memo = info1, f_installed = b_installed base \<union> set cl, f_newly = set cl, f_rejected = b_rejected base,
    f_result = (empty_result ?r)\<lparr>is_baseline := b_installed base, is_truncated := b_truncated base\<rparr>\<rparr>"
  obtain t s' where run: "fixpoint lookup candidates ?fl k 1 ?s = Some (t, s')" and facts: "extends ?fl ?s s'"
    "\<not> t \<longrightarrow> saturated ?fl s'" "t \<longrightarrow> finite (f_installed s') \<longrightarrow> card (f_installed ?s) + k \<le> card (f_installed s')"
    using fixpoint_total [of ?s ?fl k 1] c(2) by auto
  have "resolve_install_set roots lookup candidates k gate given =
      Some ((f_result s')\<lparr>is_truncated := (b_truncated base \<or> t), is_installed := f_installed s'\<rparr>)"
    unfolding resolve_install_set_def Let_def b by (simp add: c(1) run [simplified])
  note all = this snd run facts
  show ?thesis
    by (rule exI [of _ base], rule exI [of _ ?s], rule exI [of _ s'], rule exI [of _ t], rule exI [of _ ?fl])
      (use all in \<open>simp add: empty_result_def cl\<close>)
qed


text \<open>What holds of every answer.\<close>

definition install_facts :: "string list \<Rightarrow> nat \<Rightarrow> install_set \<Rightarrow> bool" where
  "install_facts roots k r \<longleftrightarrow>
     sound (is_installed r) \<and> is_baseline r \<union> requested roots (is_baseline r) \<subseteq> is_installed r \<and>
     distinct (map ai_name (is_auto r)) \<and>
     ai_name ` set (is_auto r) = is_installed r - (is_baseline r \<union> requested roots (is_baseline r)) \<and>
     (\<forall>a \<in> set (is_auto r). set (deps (ai_name a)) \<subseteq> is_installed r) \<and>
     (\<forall>x m. is_unsatisfiable r x = Some m \<longrightarrow> \<not> avail m \<and> m \<in> needed avail deps {} {x}) \<and>
     (\<not> is_truncated r \<longrightarrow> (\<forall>row \<in> set catalogue. set (fst (snd row)) \<subseteq> is_installed r \<longrightarrow>
        BASELINE_ROOT \<in> set roots \<or> set (fst (snd row)) \<inter> (is_installed r - is_baseline r) \<noteq> {} \<longrightarrow>
        fst row \<in> is_installed r \<or> fst row \<in> dom (is_country_conditional r) \<or> doomed {} (fst row))) \<and>
     (is_truncated r \<longrightarrow> finite (is_installed r) \<longrightarrow> k \<le> card (is_installed r))"

lemma install_factsD:
  assumes "install_facts roots k r"
  shows "n \<in> is_installed r \<Longrightarrow> avail n"
    and "is_truncated r \<Longrightarrow> finite (is_installed r) \<Longrightarrow> k \<le> card (is_installed r)"
    and "\<not> is_truncated r \<Longrightarrow> row \<in> set catalogue \<Longrightarrow> set (fst (snd row)) \<subseteq> is_installed r \<Longrightarrow>
      BASELINE_ROOT \<in> set roots \<or> set (fst (snd row)) \<inter> (is_installed r - is_baseline r) \<noteq> {} \<Longrightarrow>
      fst row \<in> is_installed r \<or> fst row \<in> dom (is_country_conditional r) \<or> doomed {} (fst row)"
  using assms unfolding install_facts_def sound_def by blast+

lemma resolve_facts:
  assumes "\<And>b. given = Some b \<Longrightarrow> sound (b_installed b) \<and> b_rejected b \<subseteq> Collect (doomed {}) \<and>
      (b_truncated b \<longrightarrow> finite (b_installed b) \<longrightarrow> k \<le> card (b_installed b))"
  shows "\<exists>r. resolve_install_set roots lookup candidates k gate given = Some r \<and> install_facts roots k r"
proof -
  obtain base :: baseline and s0 s' t fl where
    run: "resolve_install_set roots lookup candidates k gate given =
      Some ((f_result s')\<lparr>is_truncated := (b_truncated base \<or> t), is_installed := f_installed s'\<rparr>)"
    and base: "sound (b_installed base)" "b_rejected base \<subseteq> Collect (doomed {})"
      "b_truncated base \<longrightarrow> finite (b_installed base) \<longrightarrow> k \<le> card (b_installed base)"
    and fl: "fl = \<lparr>require_new = (BASELINE_ROOT \<notin> set roots), do_record = True, country_gate = (gate \<and> BASELINE_ROOT \<notin> set roots)\<rparr>"
    and s0: "f_installed s0 = b_installed base \<union> requested roots (b_installed base)" "f_newly s0 = requested roots (b_installed base)"
      "f_rejected s0 = b_rejected base" "is_auto (f_result s0) = []" "is_baseline (f_result s0) = b_installed base"
      "is_unsatisfiable (f_result s0) = Map.empty" "is_country_conditional (f_result s0) = Map.empty"
    and loop: "fixpoint lookup candidates fl k 1 s0 = Some (t, s')" and ext: "extends fl s0 s'"
    and sat: "\<not> t \<longrightarrow> saturated fl s'" and cap: "t \<longrightarrow> finite (f_installed s') \<longrightarrow> card (f_installed s0) + k \<le> card (f_installed s')"
    using resolve_run [where given = given and k = k and roots = roots and gate = gate, OF assms] by blast
  let ?I = "f_installed s'" and ?B = "b_installed base" and ?Q = "requested roots (b_installed base)"
  have "sound (f_installed s0)" unfolding s0(1) requested_def by (rule sound_closure [OF base(1)])
  then have sound: "sound ?I" using ext by (rule sound_extends)
  have sub: "?B \<union> ?Q \<subseteq> ?I" and comp: "complete_over (?B \<union> ?Q) (?I - (?B \<union> ?Q))"
    and newly: "f_newly s' = ?Q \<union> (?I - (?B \<union> ?Q))" and bl: "is_baseline (f_result s') = ?B"
    and unsat: "\<forall>x m. is_unsatisfiable (f_result s') x = Some m \<longrightarrow> \<not> avail m \<and> m \<in> needed avail deps {} {x}"
    and auto: "\<exists>L. map ai_name (is_auto (f_result s')) = L \<and> distinct L \<and> set L = ?I - (?B \<union> ?Q)"
    using ext unfolding extends_def by (simp_all add: s0 fl)
  have names: "distinct (map ai_name (is_auto (f_result s')))" "ai_name ` set (is_auto (f_result s')) = ?I - (?B \<union> ?Q)"
    using auto by auto
  have deps: "\<forall>a \<in> set (is_auto (f_result s')). set (deps (ai_name a)) \<subseteq> ?I"
    using comp names(2) sub unfolding complete_over_def by blast
  have new: "f_newly s' = ?I - ?B"
  proof -
    have "?Q \<inter> ?B = {}" unfolding requested_def using needed_unknown by blast
    with newly sub show ?thesis by blast
  qed
  have "logged (b_rejected base) s0" by (simp add: logged_def s0)
  moreover have "do_record fl" by (simp add: fl)
  ultimately have "logged (b_rejected base) s'" using loop by (auto intro: fixpoint_logged)
  then have reason: "x \<in> dom (is_country_conditional (f_result s')) \<or> doomed {} x" if "x \<in> f_rejected s'" for x
    using that base(2) unsat unfolding logged_def doomed_def by blast
  have max: "fst row \<in> ?I \<or> fst row \<in> dom (is_country_conditional (f_result s')) \<or> doomed {} (fst row)"
    if "\<not> t" "row \<in> set catalogue" "set (fst (snd row)) \<subseteq> ?I" "BASELINE_ROOT \<in> set roots \<or> set (fst (snd row)) \<inter> (?I - ?B) \<noteq> {}" for row
    using sat that reason unfolding saturated_def settled_row_def new by (auto simp: fl)
  have "k \<le> card ?I" if "b_truncated base \<or> t" "finite ?I"
    using that cap base(3) sub card_mono [of ?I ?B] finite_subset [of ?B ?I] by auto
  with run sound sub names deps unsat max show ?thesis
    by (auto simp: install_facts_def bl)
qed

end

subsection \<open>The reads of the indexed graph\<close>

text \<open>The \<open>Module\<close> nodes, identified by name and version, and the \<open>DEPENDS_ON\<close> edges between
  them. \<open>available\<close> is the predicate that scopes the reader.\<close>

record module_node =
  mn_auto_install :: "bool option"
  mn_triggers :: "string list option"
  mn_countries :: "string list option"

record module_graph =
  mg_keys :: "(string \<times> string) list"
  mg_node :: "string \<times> string \<Rightarrow> module_node"
  mg_depends :: "((string \<times> string) \<times> (string \<times> string)) list"

definition depends_on :: "module_graph \<Rightarrow> string \<Rightarrow> string \<Rightarrow> string list" where
  "depends_on g v n = remdups (map (fst \<circ> snd) (filter (\<lambda>(a, d). a = (n, v) \<and> snd d = v) (mg_depends g)))"

definition is_available :: "module_graph \<Rightarrow> string \<Rightarrow> (string \<times> string \<Rightarrow> bool) \<Rightarrow> string \<Rightarrow> bool" where
  "is_available g v available n = ((n, v) \<in> set (mg_keys g) \<and> available (n, v))"

definition visible_depends :: "module_graph \<Rightarrow> string \<Rightarrow> (string \<times> string \<Rightarrow> bool) \<Rightarrow> string \<Rightarrow> string list" where
  "visible_depends g v available n = (if is_available g v available n then sort (depends_on g v n) else [])"

definition depends_of :: "module_graph \<Rightarrow> string \<Rightarrow> (string \<times> string \<Rightarrow> bool) \<Rightarrow> depends_lookup" where
  "depends_of g v available ns =
     (\<lambda>n. if n \<in> set ns then Some (is_available g v available n, visible_depends g v available n) else None)"

definition auto_rows :: "module_graph \<Rightarrow> string \<Rightarrow> (string \<times> string \<Rightarrow> bool) \<Rightarrow> candidate_row list" where
  "auto_rows g v available =
     map (\<lambda>(n, _). let m = mg_node g (n, v) in
            (n, case mn_triggers m of Some t \<Rightarrow> t | None \<Rightarrow> depends_on g v n,
             Some (case mn_countries m of Some c \<Rightarrow> c | None \<Rightarrow> [])))
       (filter (\<lambda>k. snd k = v \<and> available k \<and> (mn_triggers (mg_node g k) \<noteq> None \<or> mn_auto_install (mg_node g k) = Some True))
         (remdups (mg_keys g)))"

definition graph_candidates :: "module_graph \<Rightarrow> string \<Rightarrow> (string \<times> string \<Rightarrow> bool) \<Rightarrow> candidate_lookup" where
  "graph_candidates g v available installed excluded =
     sort_key fst (filter (\<lambda>row. fst row \<notin> installed \<and> fst row \<notin> excluded \<and> set (fst (snd row)) \<subseteq> installed)
       (auto_rows g v available))"

definition odoo_major :: "string \<Rightarrow> int option" where
  "odoo_major version = (case split_on (CHR ''.'') version of [] \<Rightarrow> None | w # _ \<Rightarrow> py_int w)"

text \<open>The baseline cache: a dict from version and scope to the time and the value. The time is read
  before the value is computed.\<close>

definition BASELINE_TTL_SECONDS :: rat where
  "BASELINE_TTL_SECONDS = 120"

definition BASELINE_CACHE_MAX :: nat where
  "BASELINE_CACHE_MAX = 64"

type_synonym 'k baseline_cache = "('k \<times> rat \<times> baseline) list"

definition oldest :: "'k baseline_cache \<Rightarrow> 'k" where
  "oldest cache = fst (hd (sort_key (\<lambda>e. fst (snd e)) cache))"

function drop_oldest :: "'k baseline_cache \<Rightarrow> 'k baseline_cache" where
  "drop_oldest cache =
     (if length cache \<ge> BASELINE_CACHE_MAX then drop_oldest (filter (\<lambda>e. fst e \<noteq> oldest cache) cache) else cache)"
  by pat_completeness auto
termination
proof (relation "measure length", goal_cases)
  case (2 cache)
  then have "cache \<noteq> []" by (auto simp: BASELINE_CACHE_MAX_def)
  then have "hd (sort_key (\<lambda>e. fst (snd e)) cache) \<in> set (sort_key (\<lambda>e. fst (snd e)) cache)"
    by (intro hd_in_set) (metis set_empty set_sort)
  then have "\<exists>e \<in> set cache. fst e = oldest cache" by (auto simp: oldest_def)
  then show ?case by (auto intro!: length_filter_less)
qed simp

declare drop_oldest.simps [simp del]

definition put_baseline :: "'k \<Rightarrow> rat \<Rightarrow> baseline \<Rightarrow> 'k baseline_cache \<Rightarrow> 'k baseline_cache" where
  "put_baseline key now b cache =
     (let cache1 = (if length cache \<ge> BASELINE_CACHE_MAX
                    then drop_oldest (filter (\<lambda>(k, t, _). \<not> now - t \<ge> BASELINE_TTL_SECONDS) cache) else cache)
      in if key \<in> fst ` set cache1 then map (\<lambda>e. if fst e = key then (key, now, b) else e) cache1
         else cache1 @ [(key, now, b)])"

definition cached_baseline ::
  "'k \<Rightarrow> rat \<Rightarrow> baseline option \<Rightarrow> 'k baseline_cache \<Rightarrow> baseline option \<times> 'k baseline_cache" where
  "cached_baseline key now computed cache =
     (case map_of cache key of
        Some (t, b) \<Rightarrow> if now - t < BASELINE_TTL_SECONDS then (Some b, cache)
          else (computed, case computed of None \<Rightarrow> cache | Some c \<Rightarrow> put_baseline key now c cache)
      | None \<Rightarrow> (computed, case computed of None \<Rightarrow> cache | Some c \<Rightarrow> put_baseline key now c cache))"

definition graph_baseline :: "module_graph \<Rightarrow> (string \<times> string \<Rightarrow> bool) \<Rightarrow> string \<Rightarrow> baseline option" where
  "graph_baseline g available v =
     map_option snd (compute_baseline (depends_of g v available) (graph_candidates g v available) Map.empty MAX_AUTO_INSTALL_ROUNDS)"

definition install_of ::
  "module_graph \<Rightarrow> (string \<times> string \<Rightarrow> bool) \<Rightarrow> string \<Rightarrow> string list \<Rightarrow> baseline \<Rightarrow> install_set option" where
  "install_of g available v roots base =
     resolve_install_set roots (depends_of g v available) (graph_candidates g v available) MAX_AUTO_INSTALL_ROUNDS
       (case odoo_major v of None \<Rightarrow> True | Some major \<Rightarrow> major \<ge> COUNTRY_GATE_MIN_MAJOR) (Some base)"

definition install_set_cached ::
  "module_graph \<Rightarrow> (string \<times> string \<Rightarrow> bool) \<Rightarrow> string \<Rightarrow> string list \<Rightarrow> 'k \<Rightarrow> rat \<Rightarrow> string option \<Rightarrow>
     'k baseline_cache \<Rightarrow> install_set option \<times> 'k baseline_cache" where
  "install_set_cached g available v roots key now caveat cache =
     (case cached_baseline key now (graph_baseline g available v) cache of
        (None, cache1) \<Rightarrow> (None, cache1)
      | (Some base, cache1) \<Rightarrow> (map_option (\<lambda>r. r\<lparr>is_caveat := caveat\<rparr>) (install_of g available v roots base), cache1))"

lemma auto_rows_distinct: "distinct (map fst (auto_rows g v available))"
proof -
  have "inj_on fst (set (filter (\<lambda>k. snd k = v \<and> P k) (remdups ks)))" for P and ks :: "(string \<times> string) list"
    by (auto simp: inj_on_def)
  then have "distinct (map fst (filter (\<lambda>k. snd k = v \<and> P k) (remdups ks)))" for P and ks :: "(string \<times> string) list"
    by (simp add: distinct_map)
  then show ?thesis by (simp add: auto_rows_def comp_def case_prod_unfold Let_def)
qed

interpretation graph: install_catalogue "depends_of g v available" "is_available g v available" "visible_depends g v available"
    "graph_candidates g v available" "auto_rows g v available"
  for g v available
proof
  fix n and ns :: "string list" assume "n \<in> set ns"
  then show "(case depends_of g v available ns n of None \<Rightarrow> (False, []) | Some x \<Rightarrow> x) =
      (is_available g v available n, visible_depends g v available n)"
    by (simp add: depends_of_def)
next
  have "(\<Union>n. set (visible_depends g v available n)) \<subseteq> set (map (fst \<circ> snd) (mg_depends g))"
    by (auto simp: visible_depends_def depends_on_def)
  then show "finite (\<Union>n. set (visible_depends g v available n))" by (rule finite_subset) simp
next
  fix I R :: "string set"
  show "set (graph_candidates g v available I R) = {row \<in> set (auto_rows g v available).
      fst row \<notin> I \<and> fst row \<notin> R \<and> set (fst (snd row)) \<subseteq> I}"
    by (auto simp: graph_candidates_def)
  show "distinct (map fst (graph_candidates g v available I R))"
    using auto_rows_distinct [of g v available] by (simp add: graph_candidates_def distinct_map inj_on_def)
qed

subsection \<open>What the resolver promises\<close>

text \<open>C26. The dependency walk always ends, and its answer is exact: it lists, each once, the available
  modules that the start needs beyond the known ones, and it reports a missing module exactly when
  some needed module is not available, naming one that is needed and not available.\<close>

theorem dependency_closure_exact:
  "\<exists>info cl miss. depends_closure (depends_of g v available) Map.empty start known = Some (info, cl, miss) \<and> distinct cl \<and>
     set cl = needed (is_available g v available) (visible_depends g v available) known (set start) \<inter> Collect (is_available g v available) \<and>
     (miss = None \<longleftrightarrow> needed (is_available g v available) (visible_depends g v available) known (set start) \<subseteq> Collect (is_available g v available)) \<and>
     set_option miss \<subseteq> needed (is_available g v available) (visible_depends g v available) known (set start) - Collect (is_available g v available)"
proof -
  obtain info cl miss where c: "depends_closure (depends_of g v available) Map.empty start known = Some (info, cl, miss)" "distinct cl"
    "set cl = {n \<in> needed (is_available g v available) (visible_depends g v available) known (set start). is_available g v available n}"
    "miss = None \<longleftrightarrow> (\<forall>n \<in> needed (is_available g v available) (visible_depends g v available) known (set start). is_available g v available n)"
    "\<forall>m. miss = Some m \<longrightarrow> m \<in> needed (is_available g v available) (visible_depends g v available) known (set start) \<and> \<not> is_available g v available m"
    using graph.depends_closure_total [OF graph.memo_ok_empty, of g v available start known] by blast
  then show ?thesis
    by (intro exI [of _ info] exI [of _ cl] exI [of _ miss] conjI) (auto simp: elem_set)
qed

definition requested_modules :: "module_graph \<Rightarrow> string \<Rightarrow> (string \<times> string \<Rightarrow> bool) \<Rightarrow> string list \<Rightarrow> string set \<Rightarrow> string set" where
  "requested_modules g v available roots base =
     needed (is_available g v available) (visible_depends g v available) base (set roots) \<inter> Collect (is_available g v available)"

lemma requested_modules_eq: "graph.requested g v available roots base = requested_modules g v available roots base"
  by (auto simp: graph.requested_def requested_modules_def)

lemma graph_baseline_total:
  "\<exists>b. graph_baseline g available v = Some b \<and> graph.sound g v available (b_installed b) \<and>
     b_rejected b \<subseteq> Collect (graph.doomed g v available {}) \<and>
     (b_truncated b \<longrightarrow> finite (b_installed b) \<longrightarrow> MAX_AUTO_INSTALL_ROUNDS \<le> card (b_installed b))"
  using graph.compute_baseline_total [OF graph.memo_ok_empty, of g v available MAX_AUTO_INSTALL_ROUNDS]
  by (auto simp: graph_baseline_def)

lemma install_of_facts:
  assumes "graph_baseline g available v = Some base"
  shows "\<exists>r. install_of g available v roots base = Some r \<and> graph.install_facts g v available roots MAX_AUTO_INSTALL_ROUNDS r"
proof -
  have "graph.sound g v available (b_installed base) \<and> b_rejected base \<subseteq> Collect (graph.doomed g v available {}) \<and>
     (b_truncated base \<longrightarrow> finite (b_installed base) \<longrightarrow> MAX_AUTO_INSTALL_ROUNDS \<le> card (b_installed base))"
    using graph_baseline_total [of g available v] assms by auto
  then show ?thesis
    unfolding install_of_def by (intro graph.resolve_facts) auto
qed

text \<open>C24. What installing the roots installs is sound: the baseline and every available module the roots
  need are in it, all its modules are available to the reader, and it has every available dependency of
  its modules. The modules reported as pulled in are, each once, exactly the installed ones beyond the
  baseline and the modules the roots need, and none of them misses a dependency.\<close>

theorem install_set_sound:
  assumes "graph_baseline g available v = Some base"
  shows "\<exists>r. install_of g available v roots base = Some r \<and>
    is_installed r \<subseteq> Collect (is_available g v available) \<and>
    (\<Union>n \<in> is_installed r. set (visible_depends g v available n)) \<inter> Collect (is_available g v available) \<subseteq> is_installed r \<and>
    is_baseline r \<union> requested_modules g v available roots (is_baseline r) \<subseteq> is_installed r \<and>
    distinct (map ai_name (is_auto r)) \<and>
    ai_name ` set (is_auto r) = is_installed r - (is_baseline r \<union> requested_modules g v available roots (is_baseline r)) \<and>
    (\<Union>a \<in> set (is_auto r). set (visible_depends g v available (ai_name a))) \<subseteq> is_installed r"
proof -
  obtain r where run: "install_of g available v roots base = Some r"
    and facts: "graph.install_facts g v available roots MAX_AUTO_INSTALL_ROUNDS r"
    using install_of_facts [OF assms] by blast
  then show ?thesis
    unfolding graph.install_facts_def graph.sound_def requested_modules_eq by auto
qed

text \<open>C25. The fixpoint is maximal: when the answer is not marked truncated, an auto-install module whose
  triggers are all installed, one of them by this request (or on database creation), is installed too,
  unless its country rule keeps it out, which is reported, or it needs a module that is not
  available.\<close>

theorem install_set_maximal:
  assumes "graph_baseline g available v = Some base" and "install_of g available v roots base = Some r" and "\<not> is_truncated r"
    and "(n, triggers, countries) \<in> set (auto_rows g v available)" and "set triggers \<subseteq> is_installed r"
    and "BASELINE_ROOT \<in> set roots \<or> set triggers \<inter> (is_installed r - is_baseline r) \<noteq> {}"
  shows "n \<in> is_installed r \<or> n \<in> dom (is_country_conditional r) \<or>
    \<not> needed (is_available g v available) (visible_depends g v available) {} {n} \<subseteq> Collect (is_available g v available)"
proof -
  have "graph.install_facts g v available roots MAX_AUTO_INSTALL_ROUNDS r"
    using install_of_facts [OF assms(1), of roots] assms(2) by simp
  from graph.install_factsD(3) [OF this assms(3,4)] assms(5,6)
  have "n \<in> is_installed r \<or> n \<in> dom (is_country_conditional r) \<or> graph.doomed g v available {} n" by simp
  then show ?thesis by (auto simp: graph.doomed_def)
qed

text \<open>The round cap only cuts off large answers: an answer with fewer than fifty modules is
  never marked truncated.\<close>

theorem install_set_truncated:
  assumes "graph_baseline g available v = Some base" and "install_of g available v roots base = Some r"
    and "card (is_installed r) < 50"
  shows "\<not> is_truncated r"
proof
  assume trunc: "is_truncated r"
  have facts: "graph.install_facts g v available roots MAX_AUTO_INSTALL_ROUNDS r"
    using install_of_facts [OF assms(1), of roots] assms(2) by simp
  have "is_installed r \<subseteq> fst ` set (mg_keys g)"
    using graph.install_factsD(1) [OF facts] by (force simp: is_available_def)
  then have "finite (is_installed r)" by (rule finite_subset) simp
  with graph.install_factsD(2) [OF facts trunc] assms(3) show False by (simp add: MAX_AUTO_INSTALL_ROUNDS_def)
qed

subsection \<open>The baseline cache\<close>

definition run_cache :: "('k \<times> rat \<times> baseline option) list \<Rightarrow> 'k baseline_cache" where
  "run_cache calls = fold (\<lambda>(key, now, computed) cache. snd (cached_baseline key now computed cache)) calls []"

definition cache_ok :: "('k \<times> rat \<times> baseline option) list \<Rightarrow> 'k baseline_cache \<Rightarrow> bool" where
  "cache_ok calls cache \<longleftrightarrow> length cache \<le> BASELINE_CACHE_MAX \<and> distinct (map fst cache) \<and>
     (\<forall>(key, t, b) \<in> set cache. (key, t, Some b) \<in> set calls)"

lemma drop_oldest_small: "length (drop_oldest cache) < BASELINE_CACHE_MAX"
  by (induction cache rule: drop_oldest.induct) (subst drop_oldest.simps, auto)

lemma drop_oldest_filter: "\<exists>P. drop_oldest cache = filter P cache"
proof (induction cache rule: drop_oldest.induct)
  case (1 cache)
  show ?case
  proof (cases "length cache \<ge> BASELINE_CACHE_MAX")
    case True
    with 1 obtain P where "drop_oldest (filter (\<lambda>e. fst e \<noteq> oldest cache) cache) = filter P (filter (\<lambda>e. fst e \<noteq> oldest cache) cache)"
      by blast
    with True show ?thesis by (subst drop_oldest.simps) (simp, blast)
  next
    case False
    then show ?thesis by (subst drop_oldest.simps) (auto intro: exI [of _ "\<lambda>e. True"])
  qed
qed

lemma make_room:
  fixes now :: rat
  assumes "cache_ok calls cache"
  defines "cache1 \<equiv> (if length cache \<ge> BASELINE_CACHE_MAX
                    then drop_oldest (filter (\<lambda>(k, t, _). \<not> now - t \<ge> BASELINE_TTL_SECONDS) cache) else cache)"
  shows "length cache1 < BASELINE_CACHE_MAX" "distinct (map fst cache1)" "set cache1 \<subseteq> set cache"
proof -
  obtain P where P: "drop_oldest (filter (\<lambda>(k, t, _). \<not> now - t \<ge> BASELINE_TTL_SECONDS) cache) =
      filter P (filter (\<lambda>(k, t, _). \<not> now - t \<ge> BASELINE_TTL_SECONDS) cache)"
    using drop_oldest_filter by blast
  show "length cache1 < BASELINE_CACHE_MAX" by (auto simp: cache1_def drop_oldest_small)
  show "distinct (map fst cache1)" "set cache1 \<subseteq> set cache"
    using assms(1) by (auto simp: cache1_def P cache_ok_def intro!: distinct_map_filter)
qed

lemma put_baseline_ok:
  assumes "cache_ok calls cache"
  shows "cache_ok (calls @ [(key, now, Some b)]) (put_baseline key now b cache)"
proof -
  define cache1 where "cache1 = (if length cache \<ge> BASELINE_CACHE_MAX
                    then drop_oldest (filter (\<lambda>(k, t, _). \<not> now - t \<ge> BASELINE_TTL_SECONDS) cache) else cache)"
  note room = make_room [OF assms, of now, folded cache1_def]
  have put: "put_baseline key now b cache =
      (if key \<in> fst ` set cache1 then map (\<lambda>e. if fst e = key then (key, now, b) else e) cache1 else cache1 @ [(key, now, b)])"
    by (simp add: put_baseline_def cache1_def Let_def)
  have keep: "map fst (map (\<lambda>e. if fst e = key then (key, now, b) else e) cache1) = map fst cache1" by auto
  have "(k, t, Some c) \<in> set calls" if "(k, t, c) \<in> set cache1" for k t c
    using that room(3) assms by (auto simp: cache_ok_def)
  then show ?thesis
    using room(1,2) by (auto simp: cache_ok_def put keep simp del: map_map split: if_splits)
qed

lemma cached_baseline_ok:
  assumes "cache_ok calls cache"
  shows "cache_ok (calls @ [(key, now, computed)]) (snd (cached_baseline key now computed cache))"
proof -
  have "cache_ok (calls @ [call]) cache" for call using assms by (auto simp: cache_ok_def)
  then show ?thesis
    using put_baseline_ok [OF assms] by (auto simp: cached_baseline_def split: option.splits)
qed

lemma run_cache_ok: "cache_ok calls (run_cache calls)"
proof (induction calls rule: rev_induct)
  case Nil
  show ?case by (simp add: run_cache_def cache_ok_def BASELINE_CACHE_MAX_def)
next
  case (snoc call calls)
  obtain key now computed where "call = (key, now, computed)" by (cases call)
  with cached_baseline_ok [OF snoc.IH] show ?case by (simp add: run_cache_def)
qed

text \<open>After any sequence of calls the baseline cache has at most 64 entries, and what it answers is
  never stale or another scope's: the value computed by this very call, or one that an earlier call with the
  same version and scope computed less than 120 seconds before.\<close>

theorem baseline_cache_fresh:
  "length (run_cache calls) \<le> 64 \<and>
   set_option (fst (cached_baseline key now computed (run_cache calls))) \<subseteq>
     set_option computed \<union> {b. \<exists>t. (key, t, Some b) \<in> set calls \<and> now - t < 120}"
proof
  show "length (run_cache calls) \<le> 64"
    using run_cache_ok [of calls] by (simp add: cache_ok_def BASELINE_CACHE_MAX_def)
  have "(key, t, Some b) \<in> set calls" if "map_of (run_cache calls) key = Some (t, b)" for t b
    using map_of_SomeD [OF that] run_cache_ok [of calls] by (auto simp: cache_ok_def)
  then show "set_option (fst (cached_baseline key now computed (run_cache calls))) \<subseteq>
     set_option computed \<union> {b. \<exists>t. (key, t, Some b) \<in> set calls \<and> now - t < 120}"
    by (auto simp: cached_baseline_def BASELINE_TTL_SECONDS_def split: option.splits)
qed

text \<open>Two modules, a bridge between them, and an auto-install module that needs a module nobody has.\<close>

definition sample_graph :: module_graph where
  "sample_graph =
     \<lparr>mg_keys = [(''base'', ''17.0''), (''sale'', ''17.0''), (''crm'', ''17.0''), (''sale_crm'', ''17.0''), (''ghost'', ''17.0'')],
      mg_node = (\<lambda>k. \<lparr>mn_auto_install = (if k \<in> {(''sale_crm'', ''17.0''), (''ghost'', ''17.0'')} then Some True else None),
        mn_triggers = (if k = (''ghost'', ''17.0'') then Some [''crm''] else None), mn_countries = None\<rparr>),
      mg_depends = [((''sale'', ''17.0''), (''base'', ''17.0'')), ((''crm'', ''17.0''), (''base'', ''17.0'')),
        ((''sale_crm'', ''17.0''), (''sale'', ''17.0'')), ((''sale_crm'', ''17.0''), (''crm'', ''17.0'')),
        ((''ghost'', ''17.0''), (''crm'', ''17.0'')), ((''ghost'', ''17.0''), (''nowhere'', ''17.0''))]\<rparr>"

definition sample_base :: baseline where
  "sample_base = \<lparr>b_installed = {''base''}, b_rejected = {}, b_truncated = False\<rparr>"

definition sample_install :: install_set where
  "sample_install = the (install_of sample_graph (\<lambda>k. True) ''17.0'' [''sale'', ''crm''] sample_base)"

lemma sample_baseline: "graph_baseline sample_graph (\<lambda>k. True) ''17.0'' = Some sample_base"
  by code_simp

lemma sample_install_run:
  "install_of sample_graph (\<lambda>k. True) ''17.0'' [''sale'', ''crm''] sample_base = Some sample_install"
proof -
  have "\<not> Option.is_none (install_of sample_graph (\<lambda>k. True) ''17.0'' [''sale'', ''crm''] sample_base)" by code_simp
  then show ?thesis by (cases "install_of sample_graph (\<lambda>k. True) ''17.0'' [''sale'', ''crm''] sample_base") (auto simp: sample_install_def)
qed

lemma sample_install_values:
  "map ai_name (is_auto sample_install) = [''sale_crm'']" "is_installed sample_install = {''base'', ''crm'', ''sale'', ''sale_crm''}"
  "\<not> is_truncated sample_install" "is_baseline sample_install = {''base''}" "Option.is_none (is_country_conditional sample_install ''sale_crm'')"
  "(''sale_crm'', [''sale'', ''crm''], Some []) \<in> set (auto_rows sample_graph ''17.0'' (\<lambda>k. True))"
  by code_simp+

theorem install_set_sound_witness:
  "\<exists>r. install_of sample_graph (\<lambda>k. True) ''17.0'' [''sale'', ''crm''] sample_base = Some r \<and>
    is_installed r \<subseteq> Collect (is_available sample_graph ''17.0'' (\<lambda>k. True)) \<and> ai_name ` set (is_auto r) \<subseteq> is_installed r"
  using install_set_sound [OF sample_baseline, of "[''sale'', ''crm'']"] by auto

theorem install_set_maximal_witness:
  "''sale_crm'' \<in> is_installed sample_install \<or> ''sale_crm'' \<in> dom (is_country_conditional sample_install) \<or>
    \<not> needed (is_available sample_graph ''17.0'' (\<lambda>k. True)) (visible_depends sample_graph ''17.0'' (\<lambda>k. True)) {} {''sale_crm''} \<subseteq>
      Collect (is_available sample_graph ''17.0'' (\<lambda>k. True))"
  by (rule install_set_maximal [OF sample_baseline sample_install_run sample_install_values(3,6)])
    (simp_all add: sample_install_values)

theorem install_set_truncated_witness: "\<not> is_truncated sample_install"
  by (rule install_set_truncated [OF sample_baseline sample_install_run]) (simp add: sample_install_values)

end
