(* ===== verification/Run_Plan.thy ===== *)
theory Run_Plan
  imports Lifecycle
begin

section \<open>Run planning and the retry mark\<close>

text \<open>
  The part of \<^verbatim>\<open>indexer/pipeline_repo.py\<close> that decides how a repository is run: skip, sync, incremental or full
  (\<open>plan_repo_run\<close>), and the text mark through which a run whose cross-repository propagation was not recorded
  tells the next one to repeat it. The mark lives in \<^verbatim>\<open>repos.lifecycle_attention\<close>, a list of operator
  messages joined by \<^verbatim>\<open>"; "\<close>; it carries the names the next run could not find again. The lemmas show that
  the names survive the trip through the text.
\<close>

subsection \<open>Text operations\<close>

fun has_sub :: "string \<Rightarrow> string \<Rightarrow> bool" where
  "has_sub m [] = (m = [])"
| "has_sub m (c # s) = (startswith (c # s) m \<or> has_sub m s)"

text \<open>\<^verbatim>\<open>s.split("; ")\<close> and \<^verbatim>\<open>sep.join(xs)\<close>.\<close>

function split_semi :: "string \<Rightarrow> string list" where
  "split_semi [] = [[]]"
| "split_semi (c # s) =
     (if startswith (c # s) ''; '' then [] # split_semi (tl s)
      else (case split_semi s of [] \<Rightarrow> [[c]] | p # ps \<Rightarrow> (c # p) # ps))"
  by pat_completeness auto
termination by (relation "measure length") auto

fun join_str :: "string \<Rightarrow> string list \<Rightarrow> string" where
  "join_str sep [] = []"
| "join_str sep [x] = x"
| "join_str sep (x # y # xs) = x @ sep @ join_str sep (y # xs)"

text \<open>\<^verbatim>\<open>\[reseed: ([^\]]*)\]\<close> and \<^verbatim>\<open> at HEAD ([0-9a-f]+|none)\<close>, searched from the left.\<close>

fun reseed_re :: "string \<Rightarrow> string option" where
  "reseed_re [] = None"
| "reseed_re (c # s) =
     (if startswith (c # s) ''[reseed: ''
      then (let rest = drop 9 (c # s); g = takeWhile (\<lambda>x. x \<noteq> CHR '']'') rest
            in if length g < length rest then Some g else reseed_re s)
      else reseed_re s)"

definition is_hex :: "char \<Rightarrow> bool" where
  "is_hex c = (c \<in> set ''0123456789abcdef'')"

fun failed_at_re :: "string \<Rightarrow> string option" where
  "failed_at_re [] = None"
| "failed_at_re (c # s) =
     (if startswith (c # s) '' at HEAD ''
      then (let rest = drop 9 (c # s); h = takeWhile is_hex rest
            in if h \<noteq> [] then Some h else if startswith rest ''none'' then Some ''none'' else failed_at_re s)
      else failed_at_re s)"

definition or_text :: "string option \<Rightarrow> string \<Rightarrow> string" where
  "or_text x d = (case x of None \<Rightarrow> d | Some s \<Rightarrow> if s = [] then d else s)"

subsection \<open>The marks\<close>

definition FETCH_FAILED_MARK :: string where
  "FETCH_FAILED_MARK = ''pre-scan fetch failed''"

definition fetch_attention :: "string option \<Rightarrow> string \<Rightarrow> string \<times> bool" where
  "fetch_attention attention cause =
     (let consecutive = has_sub FETCH_FAILED_MARK (or_text attention [])
      in (if consecutive
          then FETCH_FAILED_MARK @ '' in two consecutive runs ('' @ cause @ ''): OSM indexes the last fetched state and no longer follows the remote branch''
          else FETCH_FAILED_MARK @ '' ('' @ cause @ ''): indexed the on-disk state; an alert follows if the next run's fetch fails too'',
          consecutive))"

definition PROPAGATION_UNRECORDED_MARK :: string where
  "PROPAGATION_UNRECORDED_MARK = ''cross-repo propagation not recorded''"

definition PROPAGATION_RESEED_NAMES_MAX :: nat where
  "PROPAGATION_RESEED_NAMES_MAX = 50"

record propagation_retry_info =
  pr_reseed :: "string set"
  pr_reseed_all :: bool
  pr_failed_at :: "string option"

definition mark_segments :: "string option \<Rightarrow> string list" where
  "mark_segments t = filter (has_sub PROPAGATION_UNRECORDED_MARK) (split_semi (or_text t []))"

definition carry_propagation_mark :: "string option \<Rightarrow> string list \<Rightarrow> string list" where
  "carry_propagation_mark previous parts =
     fold (\<lambda>segment out. if segment \<in> set out then out else out @ [segment]) (mark_segments previous) parts"

text \<open>One segment of the mark: the loop body of \<open>propagation_retry\<close>.\<close>

definition read_segment :: "string \<Rightarrow> propagation_retry_info \<Rightarrow> propagation_retry_info" where
  "read_segment segment i =
     (let i1 = (case reseed_re segment of
          None \<Rightarrow> i
        | Some g \<Rightarrow> if strip g = ''all'' then i\<lparr>pr_reseed_all := True\<rparr>
                    else i\<lparr>pr_reseed := pr_reseed i \<union> set (filter (\<lambda>n. n \<noteq> []) (split_on (CHR '','') g))\<rparr>)
      in case failed_at_re segment of
           None \<Rightarrow> i1
         | Some h \<Rightarrow> if pr_failed_at i1 = None then i1\<lparr>pr_failed_at := Some h\<rparr> else i1)"

definition propagation_retry :: "string option \<Rightarrow> bool \<Rightarrow> propagation_retry_info option" where
  "propagation_retry attention ledger =
     (let segments = (if ledger then mark_segments attention else [])
      in if segments = [] then None
         else Some (fold read_segment segments \<lparr>pr_reseed = {}, pr_reseed_all = False, pr_failed_at = None\<rparr>))"

definition retry_all :: "propagation_retry_info option \<Rightarrow> bool" where
  "retry_all r = (case r of None \<Rightarrow> False | Some i \<Rightarrow> pr_reseed_all i)"

text \<open>What the line says about the seed; a list stands for the set of its elements.\<close>

definition seed_text :: "string list \<Rightarrow> propagation_retry_info option \<Rightarrow> string" where
  "seed_text seed retry =
     (if retry_all retry
      then ''all present modules (re-seeded after an unrecorded propagation at HEAD '' @
        or_text (case retry of None \<Rightarrow> None | Some i \<Rightarrow> pr_failed_at i) ''none'' @ '')''
      else
        let names = sort (remdups seed); n = length names;
            shown = join_str '', '' (take 10 names) @ (if n > 10 then '', ... '' @ str_nat (n - 10) @ '' more'' else [])
        in str_nat n @ '' module(s) ('' @ shown @ '')'')"

definition propagation_attention ::
  "string option \<Rightarrow> string list \<Rightarrow> string option \<Rightarrow> string option \<Rightarrow> string list \<Rightarrow> propagation_retry_info option \<Rightarrow> string \<times> bool" where
  "propagation_attention attention seed kept_head head one_shot retry =
     (let consecutive = has_sub PROPAGATION_UNRECORDED_MARK (or_text attention []);
          stuck = take 12 (or_text kept_head ''none'');
          line = PROPAGATION_UNRECORDED_MARK @ (if consecutive then '' in two consecutive runs'' else []) @ '' for '' @ seed_text seed retry @
            '' at HEAD '' @ take 12 (or_text head ''none'') @ '': head_sha kept at '' @ stuck @
            '' and the ledger presence head not advanced, so the next run repeats the propagation'';
          carried = sort (remdups one_shot)
      in (if retry_all retry \<or> length carried > PROPAGATION_RESEED_NAMES_MAX then line @ '' [reseed: all]''
          else if carried \<noteq> [] then line @ '' [reseed: '' @ join_with (CHR '','') carried @ '']''
          else line,
          consecutive))"

subsection \<open>The plan of a run\<close>

datatype run_mode = RUN_SKIP | RUN_SYNC | RUN_INCREMENTAL | RUN_FULL

record run_plan =
  rp_mode :: run_mode
  rp_diff_base :: "string option"
  rp_head_unchanged :: bool
  rp_force_push :: bool

definition plan_repo_run ::
  "(string \<Rightarrow> string \<Rightarrow> bool) \<Rightarrow> string option \<Rightarrow> string option \<Rightarrow> string option \<Rightarrow> string list \<Rightarrow> bool \<Rightarrow> bool \<Rightarrow> bool \<Rightarrow> bool \<Rightarrow> run_plan" where
  "plan_repo_run is_ancestor current_head last_head presence_head rewrite_names full_reindex ledger degraded_changed retry =
     (let head_unchanged = (nonempty current_head \<and> current_head = last_head)
      in if (\<not> full_reindex \<and> head_unchanged \<and> \<not> degraded_changed \<and> \<not> retry) \<and>
            (\<not> ledger \<or> presence_head = current_head \<and> rewrite_names = [])
         then \<lparr>rp_mode = RUN_SKIP, rp_diff_base = last_head, rp_head_unchanged = True, rp_force_push = False\<rparr>
         else
           let base = (if full_reindex then None else last_head);
               force_push = (nonempty base \<and> nonempty current_head \<and> \<not> head_unchanged \<and> \<not> is_ancestor (the base) (the current_head));
               diff_base = (if force_push then None else base)
           in \<lparr>rp_mode = (if \<not> full_reindex \<and> head_unchanged then RUN_SYNC else if diff_base = None then RUN_FULL else RUN_INCREMENTAL),
               rp_diff_base = diff_base, rp_head_unchanged = head_unchanged, rp_force_push = force_push\<rparr>)"

subsection \<open>The text carries the segments\<close>

lemma split_semi_not_Nil [simp]: "split_semi s \<noteq> []"
  by (induction s rule: split_semi.induct) (auto split: list.splits)

lemma startswith_semi: "startswith (c # s) ''; '' \<longleftrightarrow> c = CHR '';'' \<and> (\<exists>t. s = CHR '' '' # t)"
  by (auto simp: startswith_iff)

lemma split_semi_append: "split_semi (a @ ''; '' @ b) = split_semi a @ split_semi b"
proof (induction a rule: split_semi.induct)
  case 1
  then show ?case by (simp add: startswith_semi)
next
  case (2 c s)
  show ?case
  proof (cases "startswith (c # s) ''; ''")
    case True
    then obtain t where "s = CHR '' '' # t" "c = CHR '';''" by (auto simp: startswith_semi)
    with 2(1) [OF True] show ?thesis by (simp add: startswith_semi)
  next
    case False
    then have "\<not> startswith (c # s @ ''; '' @ b) ''; ''" by (cases s) (auto simp: startswith_semi)
    with False 2(2) [OF False] show ?thesis by (simp split: list.splits)
  qed
qed

lemma split_semi_join: "xs \<noteq> [] \<Longrightarrow> split_semi (join_str ''; '' xs) = concat (map split_semi xs)"
  by (induction "''; ''" xs rule: join_str.induct) (simp_all add: split_semi_append [simplified])

lemma split_semi_none: "CHR '';'' \<notin> set s \<Longrightarrow> split_semi s = [s]"
  by (induction s) (auto simp: startswith_semi)

text \<open>A part of a split text is not split again.\<close>

lemma split_semi_part: "p \<in> set (split_semi s) \<Longrightarrow> split_semi p = [p]"
proof (induction s arbitrary: p rule: split_semi.induct)
  case (2 c s)
  show ?case
  proof (cases "startswith (c # s) ''; ''")
    case True
    with 2(1) [OF True] 2(3) show ?thesis by auto
  next
    case False
    obtain q qs where q: "split_semi s = q # qs" by (cases "split_semi s") auto
    have rest: "split_semi p = [p]" if "p \<in> set qs" using 2(2) [OF False] q that by auto
    have "split_semi q = [q]" using 2(2) [OF False] q by auto
    moreover have "\<not> startswith (c # q) ''; ''"
    proof
      assume "startswith (c # q) ''; ''"
      then obtain t where "c = CHR '';''" "q = CHR '' '' # t" by (auto simp: startswith_semi)
      with q False show False by (cases s) (auto simp: startswith_semi split: if_splits list.splits)
    qed
    ultimately show ?thesis using 2(3) False q rest by auto
  qed
qed simp

subsection \<open>The mark is read back\<close>

definition plain :: "string \<Rightarrow> bool" where
  "plain s = (set s \<inter> set '';[],'' = {})"

lemma plain_simps [simp]:
  "plain [] \<longleftrightarrow> True" "plain (c # s) \<longleftrightarrow> c \<notin> set '';[],'' \<and> plain s" "plain (a @ b) \<longleftrightarrow> plain a \<and> plain b"
  by (auto simp: plain_def)

lemma reseed_re_skip: "CHR ''['' \<notin> set pre \<Longrightarrow> reseed_re (pre @ s) = reseed_re s"
  by (induction pre) (auto simp: startswith_iff)

lemma reseed_re_here: "CHR '']'' \<notin> set g \<Longrightarrow> reseed_re (''[reseed: '' @ g @ '']'') = Some g"
proof -
  assume g: "CHR '']'' \<notin> set g"
  have "takeWhile (\<lambda>x. x \<noteq> CHR '']'') (g @ '']'') = g" using g by (induction g) auto
  then show ?thesis by (simp add: startswith_def)
qed

lemma split_join_on:
  assumes "xs \<noteq> []" and "\<forall>x \<in> set xs. sep \<notin> set x"
  shows "split_on sep (join_with sep xs) = xs"
  using assms by (induction sep xs rule: join_with.induct) (simp_all add: split_on_no_sep split_on_append)

lemma set_join_with: "set (join_with sep xs) \<subseteq> insert sep (\<Union> (set ` set xs))"
  by (induction sep xs rule: join_with.induct) auto

lemma set_join_str: "set (join_str sep xs) \<subseteq> set sep \<union> \<Union> (set ` set xs)"
  by (induction sep xs rule: join_str.induct) auto

lemma str_nat_plain [simp]: "plain (str_nat n)"
proof -
  have "\<not> is_digit c" if "c \<in> set '';[],''" for c using that by (auto simp: is_digit_def char_code_def)
  then show ?thesis using str_nat_digits [of n] by (auto simp: plain_def)
qed

lemma plain_take: "plain s \<Longrightarrow> plain (take k s)"
  using set_take_subset [of k s] by (auto simp: plain_def)

lemma plain_or_text: "(\<And>s. x = Some s \<Longrightarrow> plain s) \<Longrightarrow> plain d \<Longrightarrow> plain (or_text x d)"
  by (auto simp: or_text_def split: option.splits)

lemma shown_names_chars:
  assumes "\<forall>n \<in> set seed. plain n"
  shows "set (join_str '', '' (take 10 (sort (remdups seed)))) \<inter> set '';[]'' = {}"
proof -
  have "set (take 10 (sort (remdups seed))) \<subseteq> set seed" using set_take_subset [of 10 "sort (remdups seed)"] by simp
  then have "set (join_str '', '' (take 10 (sort (remdups seed)))) \<subseteq> set '', '' \<union> \<Union> (set ` set seed)"
    using set_join_str [of "'', ''" "take 10 (sort (remdups seed))"] by blast
  then show ?thesis using assms by (auto simp: plain_def)
qed

definition retry_plain :: "propagation_retry_info option \<Rightarrow> bool" where
  "retry_plain r = (case r of None \<Rightarrow> True | Some i \<Rightarrow> (case pr_failed_at i of None \<Rightarrow> True | Some h \<Rightarrow> plain h))"

lemma seed_text_chars:
  assumes "\<forall>n \<in> set seed. plain n" and "retry_plain retry"
  shows "set (seed_text seed retry) \<inter> set '';[]'' = {}"
proof (cases "retry_all retry")
  case True
  have "plain (or_text (case retry of None \<Rightarrow> None | Some i \<Rightarrow> pr_failed_at i) ''none'')"
    using assms(2) by (intro plain_or_text) (auto simp: retry_plain_def split: option.splits)
  with True show ?thesis by (auto simp: seed_text_def plain_def)
next
  case False
  have "plain (str_nat k)" for k by simp
  then have "set (str_nat k) \<inter> set '';[]'' = {}" for k by (auto simp: plain_def)
  then show ?thesis using False shown_names_chars [OF assms(1)] by (auto simp: seed_text_def Let_def)
qed

definition seg_all :: "string \<Rightarrow> bool" where
  "seg_all s = (case reseed_re s of None \<Rightarrow> False | Some g \<Rightarrow> strip g = ''all'')"

definition seg_names :: "string \<Rightarrow> string set" where
  "seg_names s = (case reseed_re s of None \<Rightarrow> {} | Some g \<Rightarrow> if strip g = ''all'' then {} else set (split_on (CHR '','') g) - {[]})"

lemma read_segment_fields:
  "pr_reseed (read_segment s i) = pr_reseed i \<union> seg_names s" "pr_reseed_all (read_segment s i) \<longleftrightarrow> pr_reseed_all i \<or> seg_all s"
  by (auto simp: read_segment_def seg_names_def seg_all_def Let_def split: option.splits)

lemma read_segments:
  "pr_reseed (fold read_segment segs i) = pr_reseed i \<union> \<Union> (seg_names ` set segs)"
  "pr_reseed_all (fold read_segment segs i) \<longleftrightarrow> pr_reseed_all i \<or> (\<exists>s \<in> set segs. seg_all s)"
  by (induction segs arbitrary: i) (auto simp: read_segment_fields)

lemma propagation_retry_iff:
  "propagation_retry a True = None \<longleftrightarrow> mark_segments a = []"
  "propagation_retry a True = Some i \<Longrightarrow> pr_reseed i = \<Union> (seg_names ` set (mark_segments a))"
  "propagation_retry a True = Some i \<Longrightarrow> pr_reseed_all i \<longleftrightarrow> (\<exists>s \<in> set (mark_segments a). seg_all s)"
  by (auto simp: propagation_retry_def Let_def read_segments split: if_splits)

lemma has_sub_prefix: "has_sub m (m @ s)"
  by (cases "m @ s") (simp_all add: startswith_iff, metis)

lemma has_sub_append: "has_sub m s \<Longrightarrow> has_sub m (s @ t)"
proof (induction s)
  case Nil
  then show ?case using has_sub_prefix [of "[]" t] by simp
next
  case (Cons c s)
  then show ?case by (auto simp: startswith_iff) (metis append_Cons append_assoc)
qed

lemma attention_line_shape:
  assumes "\<forall>n \<in> set seed. plain n" and "retry_plain retry" and "\<And>h. kept_head = Some h \<Longrightarrow> plain h" "\<And>h. head = Some h \<Longrightarrow> plain h"
  obtains pre where "fst (propagation_attention attention seed kept_head head one_shot retry) =
      pre @ (if retry_all retry \<or> length (sort (remdups one_shot)) > PROPAGATION_RESEED_NAMES_MAX then '' [reseed: all]''
        else if one_shot \<noteq> [] then '' [reseed: '' @ join_with (CHR '','') (sort (remdups one_shot)) @ '']'' else [])"
    and "set pre \<inter> set '';['' = {}" and "has_sub PROPAGATION_UNRECORDED_MARK pre"
proof -
  let ?pre = "PROPAGATION_UNRECORDED_MARK @ (if has_sub PROPAGATION_UNRECORDED_MARK (or_text attention []) then '' in two consecutive runs'' else []) @
    '' for '' @ seed_text seed retry @ '' at HEAD '' @ take 12 (or_text head ''none'') @ '': head_sha kept at '' @ take 12 (or_text kept_head ''none'') @
    '' and the ledger presence head not advanced, so the next run repeats the propagation''"
  have "plain (take 12 (or_text head ''none''))" "plain (take 12 (or_text kept_head ''none''))"
    using assms(3,4) by (auto intro!: plain_take plain_or_text)
  then have "set ?pre \<inter> set '';['' = {}"
    using seed_text_chars [OF assms(1,2)] by (auto simp: plain_def PROPAGATION_UNRECORDED_MARK_def)
  moreover have "has_sub PROPAGATION_UNRECORDED_MARK ?pre" by (rule has_sub_prefix)
  moreover have "sort (remdups one_shot) = [] \<longleftrightarrow> one_shot = []" by (metis remdups_eq_nil_iff set_empty set_remdups set_sort)
  ultimately show thesis using that [of ?pre] by (simp add: propagation_attention_def Let_def)
qed

lemma attention_segment:
  assumes "\<forall>n \<in> set seed. plain n" and "retry_plain retry" and "\<And>h. kept_head = Some h \<Longrightarrow> plain h" "\<And>h. head = Some h \<Longrightarrow> plain h"
    and "set one_shot \<subseteq> set seed" and "[] \<notin> set one_shot" and line: "fst (propagation_attention attention seed kept_head head one_shot retry) = line"
  shows "split_semi line = [line]" and "has_sub PROPAGATION_UNRECORDED_MARK line"
    and "seg_all line \<or> set one_shot \<subseteq> seg_names line" and "retry_all retry \<Longrightarrow> seg_all line"
proof -
  obtain pre where "fst (propagation_attention attention seed kept_head head one_shot retry) = pre @ (if retry_all retry \<or> length (sort (remdups one_shot)) > PROPAGATION_RESEED_NAMES_MAX then '' [reseed: all]''
        else if one_shot \<noteq> [] then '' [reseed: '' @ join_with (CHR '','') (sort (remdups one_shot)) @ '']'' else [])"
    and chars: "set pre \<inter> set '';['' = {}" and mark: "has_sub PROPAGATION_UNRECORDED_MARK pre"
    by (rule attention_line_shape [OF assms(1-4)])
  then have pre: "line = pre @ (if retry_all retry \<or> length (sort (remdups one_shot)) > PROPAGATION_RESEED_NAMES_MAX then '' [reseed: all]''
        else if one_shot \<noteq> [] then '' [reseed: '' @ join_with (CHR '','') (sort (remdups one_shot)) @ '']'' else [])" using line by simp
  let ?names = "sort (remdups one_shot)"
  have names: "\<forall>n \<in> set ?names. plain n" using assms(1,5) by auto
  then have joined: "set (join_with (CHR '','') ?names) \<inter> set '';[]'' = {}"
    using set_join_with [of "CHR '',''" ?names] by (fastforce simp: plain_def)
  have "CHR '';'' \<notin> set pre" "CHR ''['' \<notin> set pre" "CHR '';'' \<notin> set (join_with (CHR '','') ?names)" "CHR '']'' \<notin> set (join_with (CHR '','') ?names)"
    using chars joined by auto
  note no_sep = this
  have "CHR '';'' \<notin> set line" unfolding pre using no_sep by simp
  then show "split_semi line = [line]" by (rule split_semi_none)
  show "has_sub PROPAGATION_UNRECORDED_MARK line" unfolding pre using mark by (rule has_sub_append)
  have skip: "reseed_re (pre @ '' [reseed: '' @ g @ '']'') = Some g" if "CHR '']'' \<notin> set g" for g
    using reseed_re_skip [of "pre @ '' ''" "''[reseed: '' @ g @ '']''"] reseed_re_here [OF that] no_sep(2) by simp
  have all: "seg_all line" if "retry_all retry \<or> length ?names > PROPAGATION_RESEED_NAMES_MAX"
    using that skip [of "''all''"] by (simp add: pre seg_all_def strip_def is_space_def char_code_def)
  then show "retry_all retry \<Longrightarrow> seg_all line" by simp
  show "seg_all line \<or> set one_shot \<subseteq> seg_names line"
  proof (cases "(retry_all retry \<or> length ?names > PROPAGATION_RESEED_NAMES_MAX) \<or> one_shot = []")
    case True
    with all show ?thesis by auto
  next
    case False
    then have "?names \<noteq> []" by (metis remdups_eq_nil_iff set_empty set_remdups set_sort)
    then have "split_on (CHR '','') (join_with (CHR '','') ?names) = ?names"
      using names by (intro split_join_on) (auto simp: plain_def)
    moreover have "reseed_re line = Some (join_with (CHR '','') ?names)" unfolding pre using False skip [OF no_sep(4)] by simp
    ultimately show ?thesis using assms(6) by (auto simp: seg_all_def seg_names_def)
  qed
qed

text \<open>The retry mark survives its trip through the operator text: whatever other messages stand around the line of
  an unrecorded propagation, the next run reads a retry from it that re-seeds every one-shot name, or all
  present modules. The names, heads and earlier mark must not contain the characters the format uses.\<close>

lemma retry_mark_roundtrip:
  assumes "\<forall>n \<in> set seed. plain n" and "retry_plain retry" and "\<forall>h \<in> set_option kept_head \<union> set_option head. plain h"
    and "set one_shot \<subseteq> set seed" and "[] \<notin> set one_shot"
  shows "\<exists>i. propagation_retry (Some (join_str ''; '' (before @ fst (propagation_attention attention seed kept_head head one_shot retry) # after))) True = Some i \<and>
    (pr_reseed_all i \<or> set one_shot \<subseteq> pr_reseed i) \<and> (retry_all retry \<longrightarrow> pr_reseed_all i)"
proof -
  define line where "line = fst (propagation_attention attention seed kept_head head one_shot retry)"
  have seg: "split_semi line = [line]" "has_sub PROPAGATION_UNRECORDED_MARK line" "seg_all line \<or> set one_shot \<subseteq> seg_names line"
    "retry_all retry \<Longrightarrow> seg_all line"
    using attention_segment [OF assms(1,2) _ _ assms(4,5) line_def [symmetric]] assms(3) by auto
  let ?text = "join_str ''; '' (before @ line # after)"
  have "line \<in> set (split_semi ?text)" using split_semi_join [of "before @ line # after"] seg(1) by simp
  moreover then have "?text \<noteq> []" using seg(2) by (auto simp: PROPAGATION_UNRECORDED_MARK_def)
  ultimately have line: "line \<in> set (mark_segments (Some ?text))" using seg(2) by (simp add: mark_segments_def or_text_def)
  then obtain i where i: "propagation_retry (Some ?text) True = Some i"
    using propagation_retry_iff(1) [of "Some ?text"] by (cases "mark_segments (Some ?text)") auto
  then show ?thesis
    using propagation_retry_iff(2,3) [OF i] line seg(3,4) unfolding line_def [symmetric] by auto
qed

text \<open>A run that skips the repository, or cannot use its checkout, replaces the operator text but keeps the retry:
  what the old text re-seeds, the new one re-seeds too.\<close>

lemma carried_mark_kept:
  assumes "propagation_retry previous True = Some i"
  shows "\<exists>j. propagation_retry (Some (join_str ''; '' (carry_propagation_mark previous parts))) True = Some j \<and>
    pr_reseed i \<subseteq> pr_reseed j \<and> (pr_reseed_all i \<longrightarrow> pr_reseed_all j)"
proof -
  let ?out = "carry_propagation_mark previous parts" and ?segs = "mark_segments previous"
  have fold_set: "set (fold (\<lambda>s out. if s \<in> set out then out else out @ [s]) segs out) = set out \<union> set segs" for segs out :: "string list"
    by (induction segs arbitrary: out) auto
  have out: "set ?segs \<subseteq> set ?out" unfolding carry_propagation_mark_def fold_set by blast
  have ne: "?segs \<noteq> []" using assms propagation_retry_iff(1) [of previous] by auto
  have part: "split_semi s = [s]" "has_sub PROPAGATION_UNRECORDED_MARK s" if "s \<in> set ?segs" for s
    using that split_semi_part by (auto simp: mark_segments_def)
  have "set ?segs \<subseteq> set (split_semi (join_str ''; '' ?out))"
    using split_semi_join [of ?out] out ne part(1) by (cases "?out = []") force+
  moreover have "join_str ''; '' ?out \<noteq> []"
  proof
    assume "join_str ''; '' ?out = []"
    with calculation have "set ?segs \<subseteq> {[]}" by simp
    then show False using ne part(2) [of "hd ?segs"] by (cases ?segs) (auto simp: PROPAGATION_UNRECORDED_MARK_def)
  qed
  ultimately have sub: "set ?segs \<subseteq> set (mark_segments (Some (join_str ''; '' ?out)))"
    using part(2) by (auto simp: mark_segments_def [of "Some _"] or_text_def)
  then have "mark_segments (Some (join_str ''; '' ?out)) \<noteq> []" using ne by (cases ?segs) auto
  then obtain j where j: "propagation_retry (Some (join_str ''; '' ?out)) True = Some j"
    using propagation_retry_iff(1) by blast
  then show ?thesis using propagation_retry_iff(2,3) [OF j] propagation_retry_iff(2,3) [OF assms] sub by auto
qed

end
