(* ===== verification/Manifest.thy ===== *)
theory Manifest
  imports Py_Strings "HOL-Library.Product_Lexorder" Complex_Main
begin

section \<open>Module manifests (src/indexer/registry.py, src/indexer/parser_python.py, src/constants.py)\<close>

text \<open>
  How one manifest is read: the version rule, the auto-install triggers, the license and edition
  of the module, and the \<open>ModuleInfo\<close> built from them. A manifest is the dict that
  \<^verbatim>\<open>ast.literal_eval\<close> returns: an association list from keys to Python
  literals. A float carries its value and its \<^verbatim>\<open>repr\<close>; bytes, complex numbers and the
  ellipsis are left out. A Python exception is the left side of a sum. The conversions of strings and integers
  to binary floats and the guard list of enterprise modules are arguments.
\<close>

subsection \<open>Python literals\<close>

datatype pyfloat = Finite rat string | Infinite bool

datatype pyval =
    PNone
  | PBool bool
  | PInt int
  | PFloat pyfloat
  | PStr string
  | PList "pyval list"
  | PTuple "pyval list"
  | PSet "pyval list"
  | PDict "(pyval \<times> pyval) list"

datatype py_error = TypeError | AttributeError | OverflowError

type_synonym manifest = "(pyval \<times> pyval) list"

definition mget :: "manifest \<Rightarrow> string \<Rightarrow> pyval option" where
  "mget m k = map_of m (PStr k)"

definition mget_default :: "manifest \<Rightarrow> string \<Rightarrow> pyval \<Rightarrow> pyval" where
  "mget_default m k d = (case mget m k of None \<Rightarrow> d | Some v \<Rightarrow> v)"

fun truthy :: "pyval \<Rightarrow> bool" where
  "truthy PNone = False"
| "truthy (PBool b) = b"
| "truthy (PInt i) = (i \<noteq> 0)"
| "truthy (PFloat (Finite r _)) = (r \<noteq> 0)"
| "truthy (PFloat (Infinite _)) = True"
| "truthy (PStr s) = (s \<noteq> [])"
| "truthy (PList xs) = (xs \<noteq> [])"
| "truthy (PTuple xs) = (xs \<noteq> [])"
| "truthy (PSet xs) = (xs \<noteq> [])"
| "truthy (PDict d) = (d \<noteq> [])"

text \<open>\<^verbatim>\<open>m.get(k) or None\<close>\<close>

definition or_none :: "manifest \<Rightarrow> string \<Rightarrow> pyval option" where
  "or_none m k = (case mget m k of None \<Rightarrow> None | Some v \<Rightarrow> if truthy v then Some v else None)"

definition hex_digit :: "nat \<Rightarrow> char" where
  "hex_digit n = (if n < 10 then digit_char n else char_of (87 + n))"

definition repr_char :: "char \<Rightarrow> char \<Rightarrow> string" where
  "repr_char quote c =
     (let n = char_code c
      in if c = quote \<or> n = 92 then [char_of (92::nat), c]
         else if n = 9 then [char_of (92::nat), CHR ''t'']
         else if n = 10 then [char_of (92::nat), CHR ''n'']
         else if n = 13 then [char_of (92::nat), CHR ''r'']
         else if n < 32 \<or> (127 \<le> n \<and> n \<le> 160) \<or> n = 173
         then [char_of (92::nat), CHR ''x'', hex_digit (n div 16), hex_digit (n mod 16)]
         else [c])"

definition repr_str :: "string \<Rightarrow> string" where
  "repr_str s =
     (let quote = (if char_of (39::nat) \<in> set s \<and> CHR 0x22 \<notin> set s then CHR 0x22 else char_of (39::nat))
      in quote # concat (map (repr_char quote) s) @ [quote])"

definition comma :: "string list \<Rightarrow> string" where
  "comma ws = concat (map (\<lambda>w. w @ '', '') (butlast ws)) @ (if ws = [] then [] else last ws)"

definition repr_float :: "pyfloat \<Rightarrow> string" where
  "repr_float f = (case f of Finite _ s \<Rightarrow> s | Infinite neg \<Rightarrow> if neg then ''-inf'' else ''inf'')"

fun py_repr :: "pyval \<Rightarrow> string" where
  "py_repr PNone = ''None''"
| "py_repr (PBool b) = (if b then ''True'' else ''False'')"
| "py_repr (PInt i) = str_int i"
| "py_repr (PFloat f) = repr_float f"
| "py_repr (PStr s) = repr_str s"
| "py_repr (PList xs) = ''['' @ comma (map py_repr xs) @ '']''"
| "py_repr (PTuple xs) = ''('' @ comma (map py_repr xs) @ (if length xs = 1 then '',)'' else '')'')"
| "py_repr (PSet xs) = (if xs = [] then ''set()'' else ''{'' @ comma (map py_repr xs) @ ''}'')"
| "py_repr (PDict d) = ''{'' @ comma (map (\<lambda>(k, v). py_repr k @ '': '' @ py_repr v) d) @ ''}''"

definition py_str :: "pyval \<Rightarrow> string" where
  "py_str v = (case v of PStr s \<Rightarrow> s | _ \<Rightarrow> py_repr v)"

text \<open>The elements a \<^verbatim>\<open>for\<close> loop sees; iterating another value raises
  \<^verbatim>\<open>TypeError\<close>.\<close>

fun iterate :: "pyval \<Rightarrow> py_error + pyval list" where
  "iterate (PStr s) = Inr (map (\<lambda>c. PStr [c]) s)"
| "iterate (PList xs) = Inr xs"
| "iterate (PTuple xs) = Inr xs"
| "iterate (PSet xs) = Inr xs"
| "iterate (PDict d) = Inr (map fst d)"
| "iterate _ = Inl TypeError"

definition strings :: "pyval list \<Rightarrow> string list" where
  "strings vs = concat (map (\<lambda>v. case v of PStr s \<Rightarrow> [s] | _ \<Rightarrow> []) vs)"

fun contains :: "string \<Rightarrow> string \<Rightarrow> bool" where
  "contains [] sub = (sub = [])"
| "contains (c # cs) sub = (startswith (c # cs) sub \<or> contains cs sub)"

definition upper_char :: "char \<Rightarrow> char" where
  "upper_char c = (let n = char_code c in if 97 \<le> n \<and> n \<le> 122 then char_of (n - 32) else c)"

text \<open>\<^verbatim>\<open>s.upper()\<close> on ASCII letters; what it does to other letters does not matter to
  the comparisons made below.\<close>

definition upper :: "string \<Rightarrow> string" where
  "upper s = map upper_char s"

subsection \<open>The version rule\<close>

text \<open>\<open>take_xy\<close> matches \<^verbatim>\<open>(\d+\.\d+)\<close> at the start of a string and returns the
  match and the rest.\<close>

definition digits1 :: "string \<Rightarrow> (string \<times> string) option" where
  "digits1 s = (let d = takeWhile is_digit s in if d = [] then None else Some (d, dropWhile is_digit s))"

definition dot_digits :: "string \<Rightarrow> (string \<times> string) option" where
  "dot_digits s =
     (case s of
        [] \<Rightarrow> None
      | c # cs \<Rightarrow> if c = CHR ''.'' then map_option (\<lambda>(d, r). (c # d, r)) (digits1 cs) else None)"

definition take_xy :: "string \<Rightarrow> (string \<times> string) option" where
  "take_xy s =
     (case digits1 s of
        None \<Rightarrow> None
      | Some (x, r) \<Rightarrow> map_option (\<lambda>(y, r'). (x @ y, r')) (dot_digits r))"

definition branch_version_re :: "string \<Rightarrow> string option" where
  "branch_version_re s =
     (case take_xy (removeprefix s ''saas-'') of
        None \<Rightarrow> None
      | Some (v, r) \<Rightarrow> if r = [] \<or> r = [char_of (10::nat)] then Some v else None)"

definition long_form_version_re :: "string \<Rightarrow> string option" where
  "long_form_version_re s =
     (case take_xy s of
        None \<Rightarrow> None
      | Some (v, r) \<Rightarrow>
          (case dot_digits r of None \<Rightarrow> None | Some (_, r') \<Rightarrow> map_option (\<lambda>_. v) (dot_digits r')))"

definition semver_prefix_re :: "string \<Rightarrow> bool" where
  "semver_prefix_re s = (case take_xy s of None \<Rightarrow> False | Some (_, r) \<Rightarrow> dot_digits r \<noteq> None)"

definition normalize_branch_version :: "string option \<Rightarrow> string option" where
  "normalize_branch_version branch =
     (case branch of
        None \<Rightarrow> None
      | Some b \<Rightarrow> if b = [] then None else branch_version_re (removeprefix (strip b) ''refs/heads/''))"

definition real_version :: "string option \<Rightarrow> string option" where
  "real_version version =
     (case version of None \<Rightarrow> None | Some v \<Rightarrow> if v = [] \<or> v = ''unknown'' then None else Some v)"

datatype attention =
    Branch_differs "string option" string string
  | Branch_not_standard "string option" string

record repo_version =
  rv_odoo_version :: "string option"
  rv_branch :: "string option"
  rv_branch_version :: "string option"
  rv_attention :: "attention list"

definition resolve_repo_version :: "string option \<Rightarrow> string option \<Rightarrow> string option \<Rightarrow> repo_version" where
  "resolve_repo_version checked_out branch profile_version =
     (let b = (case branch of None \<Rightarrow> checked_out | Some _ \<Rightarrow> branch);
          pv = real_version profile_version
      in case normalize_branch_version b of
           Some bv \<Rightarrow>
             \<lparr>rv_odoo_version = Some bv, rv_branch = b, rv_branch_version = Some bv,
              rv_attention = (case pv of None \<Rightarrow> [] | Some p \<Rightarrow> if p \<noteq> bv then [Branch_differs b bv p] else [])\<rparr>
         | None \<Rightarrow>
             (case pv of
                Some p \<Rightarrow> \<lparr>rv_odoo_version = Some p, rv_branch = b, rv_branch_version = None, rv_attention = [Branch_not_standard b p]\<rparr>
              | None \<Rightarrow> \<lparr>rv_odoo_version = None, rv_branch = b, rv_branch_version = None, rv_attention = []\<rparr>))"

definition place_version :: "string \<Rightarrow> string option \<Rightarrow> string" where
  "place_version version_raw repo_version =
     (case repo_version of
        Some v \<Rightarrow> if v = [] then (case long_form_version_re version_raw of Some p \<Rightarrow> p | None \<Rightarrow> ''unknown'') else v
      | None \<Rightarrow> (case long_form_version_re version_raw of Some p \<Rightarrow> p | None \<Rightarrow> ''unknown''))"

definition manifest_version_mismatch :: "string \<Rightarrow> string \<Rightarrow> bool" where
  "manifest_version_mismatch version_raw odoo_version =
     (case long_form_version_re version_raw of None \<Rightarrow> False | Some p \<Rightarrow> p \<noteq> odoo_version)"

definition resolve_odoo_version :: "string \<Rightarrow> string option \<Rightarrow> string option \<Rightarrow> string option \<Rightarrow> string" where
  "resolve_odoo_version manifest_version checked_out branch profile_version =
     place_version manifest_version (rv_odoo_version (resolve_repo_version checked_out branch profile_version))"

subsection \<open>Auto-install triggers\<close>

definition AUTO_INSTALL_LIST_MIN_MAJOR :: int where
  "AUTO_INSTALL_LIST_MIN_MAJOR = 13"

definition ACTIVE_REPLACES_MAX_MAJOR :: int where
  "ACTIVE_REPLACES_MAX_MAJOR = 12"

definition IMPLICIT_BASE_DEPENDS_MIN_MAJOR :: int where
  "IMPLICIT_BASE_DEPENDS_MIN_MAJOR = 19"

definition odoo_major :: "string \<Rightarrow> int option" where
  "odoo_major version = (case split_on (CHR ''.'') version of [] \<Rightarrow> None | w # _ \<Rightarrow> py_int w)"

definition trigger_list :: "pyval \<Rightarrow> pyval list option" where
  "trigger_list v = (case v of PList xs \<Rightarrow> Some xs | PTuple xs \<Rightarrow> Some xs | PSet xs \<Rightarrow> Some xs | _ \<Rightarrow> None)"

definition is_str :: "pyval \<Rightarrow> bool" where
  "is_str v = (case v of PStr _ \<Rightarrow> True | _ \<Rightarrow> False)"

definition effective_depends :: "pyval \<Rightarrow> int option \<Rightarrow> string \<Rightarrow> py_error + string list" where
  "effective_depends depends major module_name =
     (case (if truthy depends then iterate depends else Inr []) of
        Inl e \<Rightarrow> Inl e
      | Inr vs \<Rightarrow>
          Inr (if (case major of None \<Rightarrow> True | Some m \<Rightarrow> m \<ge> IMPLICIT_BASE_DEPENDS_MIN_MAJOR) \<and> strings vs = [] \<and> module_name \<noteq> ''base''
               then [''base''] else strings vs))"

definition auto_install_raw :: "manifest \<Rightarrow> int option \<Rightarrow> pyval" where
  "auto_install_raw m major =
     (case (if (case major of None \<Rightarrow> False | Some n \<Rightarrow> n \<le> ACTIVE_REPLACES_MAX_MAJOR) then mget m ''active'' else None) of
        Some v \<Rightarrow> v
      | None \<Rightarrow> mget_default m ''auto_install'' (PBool False))"

definition triggers_of :: "pyval \<Rightarrow> string list \<Rightarrow> bool \<Rightarrow> string list option" where
  "triggers_of raw deps modern =
     (if \<not> modern then (if truthy raw then Some (sort (remdups deps)) else None)
      else case trigger_list raw of
        Some xs \<Rightarrow> if set (strings xs) - set deps \<noteq> {} then None else Some (sort (remdups (strings xs)))
      | None \<Rightarrow> if is_str raw then None else if truthy raw then Some (sort (remdups deps)) else None)"

definition auto_install_triggers :: "manifest \<Rightarrow> pyval \<Rightarrow> string \<Rightarrow> string \<Rightarrow> py_error + string list option" where
  "auto_install_triggers m depends odoo_version module_name =
     (let major = odoo_major odoo_version;
          modern = (case major of None \<Rightarrow> True | Some n \<Rightarrow> n \<ge> AUTO_INSTALL_LIST_MIN_MAJOR)
      in case effective_depends depends major module_name of
           Inl e \<Rightarrow> Inl e
         | Inr deps \<Rightarrow> Inr (triggers_of (auto_install_raw m major) deps modern))"

subsection \<open>License, author and edition\<close>

definition default_license_for_missing :: "int \<Rightarrow> string" where
  "default_license_for_missing major = (if major \<le> 8 then ''AGPL-3'' else ''LGPL-3'')"

definition LICENSE_POLICY :: "(string \<times> string) list" where
  "LICENSE_POLICY = [(''LGPL-3'', ''serve''), (''AGPL-3'', ''serve''), (''GPL-3'', ''serve''), (''OPL-1'', ''serve''),
     (''unknown'', ''serve''), (''OEEL-1'', ''skip'')]"

definition license_policy_action :: "string \<Rightarrow> string" where
  "license_policy_action license_value = (case map_of LICENSE_POLICY license_value of None \<Rightarrow> ''serve'' | Some a \<Rightarrow> a)"

definition resolve_effective_license :: "manifest \<Rightarrow> int \<Rightarrow> string" where
  "resolve_effective_license m major =
     (case or_none m ''license'' of Some raw \<Rightarrow> strip (py_str raw) | None \<Rightarrow> default_license_for_missing major)"

definition normalize_author :: "manifest \<Rightarrow> string option" where
  "normalize_author m =
     (let s = strip (case mget_default m ''author'' PNone of
                PList xs \<Rightarrow> comma (map py_str xs)
              | PTuple xs \<Rightarrow> comma (map py_str xs)
              | raw \<Rightarrow> if truthy raw then py_str raw else [])
      in if s = [] then None else Some s)"

definition ce_copyleft :: "string list" where
  "ce_copyleft = [''LGPL-3'', ''LGPL-3.0'', ''AGPL-3'', ''AGPL-3.0'', ''GPL-3'', ''GPL-3.0'']"

definition derive_copyright_owner :: "manifest \<Rightarrow> string \<Rightarrow> string option" where
  "derive_copyright_owner m license_value =
     (if license_value = ''OEEL-1'' then Some ''Odoo S.A.''
      else
        let author = (case normalize_author m of None \<Rightarrow> [] | Some a \<Rightarrow> a)
        in if contains author ''Odoo S.A.'' then Some ''Odoo S.A.''
           else if contains author ''Viindoo'' \<or> contains author ''TVTMA'' then Some ''Viindoo''
           else if author \<noteq> [] then Some (take 100 author)
           else if license_value \<in> set ce_copyleft then Some ''Odoo S.A.''
           else None)"

definition detect_module_edition :: "manifest \<Rightarrow> string \<Rightarrow> string \<Rightarrow> py_error + string" where
  "detect_module_edition m module_name module_path =
     (if startswith module_name ''viin_'' \<or> startswith module_name ''to_'' then Inr ''viindoo''
      else case (case or_none m ''license'' of None \<Rightarrow> Inr [] | Some (PStr l) \<Rightarrow> Inr (upper l) | Some _ \<Rightarrow> Inl AttributeError) of
        Inl e \<Rightarrow> Inl e
      | Inr license_v \<Rightarrow>
          let author = (case normalize_author m of None \<Rightarrow> [] | Some a \<Rightarrow> a)
          in Inr (if license_v = ''OEEL-1'' then ''enterprise''
                  else if license_v = ''OPL-1'' \<and> (contains author ''Viindoo'' \<or> contains author ''TVTMA'') then ''viindoo''
                  else if contains license_v ''OCA'' then ''oca''
                  else if license_v \<in> set ce_copyleft \<and> (contains module_path ''/odoo/addons/'' \<or> contains module_path ''/addons/'') then ''community''
                  else ''custom''))"

definition detect_viindoo_equivalent :: "(string \<times> string option) list \<Rightarrow> string \<Rightarrow> string option" where
  "detect_viindoo_equivalent ee_modules module_name =
     (case find (\<lambda>e. fst e = module_name) ee_modules of None \<Rightarrow> None | Some e \<Rightarrow> snd e)"

subsection \<open>The module record\<close>

definition coerce_int :: "pyval option \<Rightarrow> py_error + int option" where
  "coerce_int value =
     (case value of
        Some (PInt i) \<Rightarrow> Inr (Some i)
      | Some (PFloat (Finite r _)) \<Rightarrow> Inr (Some (if r \<ge> 0 then \<lfloor>r\<rfloor> else \<lceil>r\<rceil>))
      | Some (PFloat (Infinite _)) \<Rightarrow> Inl OverflowError
      | Some (PStr s) \<Rightarrow> Inr (py_int s)
      | _ \<Rightarrow> Inr None)"

text \<open>\<^verbatim>\<open>float\<close> of a string may fail with \<^verbatim>\<open>ValueError\<close>, of an
  integer with \<^verbatim>\<open>OverflowError\<close>.\<close>

record float_conversions =
  float_of_str :: "string \<Rightarrow> pyfloat option"
  float_of_int :: "int \<Rightarrow> pyfloat option"

definition coerce_float :: "float_conversions \<Rightarrow> pyval option \<Rightarrow> py_error + pyfloat option" where
  "coerce_float fc value =
     (case value of
        Some (PFloat f) \<Rightarrow> Inr (Some f)
      | Some (PInt i) \<Rightarrow> (case float_of_int fc i of None \<Rightarrow> Inl OverflowError | Some f \<Rightarrow> Inr (Some f))
      | Some (PStr s) \<Rightarrow> Inr (float_of_str fc s)
      | _ \<Rightarrow> Inr None)"

text \<open>\<^verbatim>\<open>list(d.get(k) or [])\<close> on the value of a manifest key.\<close>

definition list_or_empty :: "pyval option \<Rightarrow> py_error + pyval list" where
  "list_or_empty v = (case v of None \<Rightarrow> Inr [] | Some x \<Rightarrow> if truthy x then iterate x else Inr [])"

definition external_deps :: "manifest \<Rightarrow> string \<Rightarrow> py_error + pyval list" where
  "external_deps m k =
     (case or_none m ''external_dependencies'' of
        None \<Rightarrow> Inr []
      | Some (PDict d) \<Rightarrow> list_or_empty (mget d k)
      | Some _ \<Rightarrow> Inl AttributeError)"

record module_record =
  m_name :: string
  m_odoo_version :: string
  m_repo :: string
  m_path :: string
  m_depends :: pyval
  m_version_raw :: string
  m_version_mismatch :: bool
  m_edition :: string
  m_viindoo_equivalent :: "string option"
  m_commit_sha :: "string option"
  m_license :: string
  m_copyright_owner :: "string option"
  m_license_notice :: bool
  m_auto_install :: bool
  m_auto_install_triggers :: "string list option"
  m_application :: bool
  m_texts :: "(string \<times> pyval option) list"
  m_author :: "string option"
  m_sequence :: "int option"
  m_old_technical_name :: "pyval option"
  m_price :: "pyfloat option"
  m_external_python :: "pyval list"
  m_external_bin :: "pyval list"
  m_countries :: "pyval list"
  m_repo_url :: "string option"
  m_repo_id :: "int option"
  m_repo_root :: string

text \<open>The keys that are stored as they are, an empty value as None; \<open>name\<close> is the display name.\<close>

definition text_keys :: "string list" where
  "text_keys = [''category'', ''summary'', ''name'', ''description'', ''website'', ''live_test_url'', ''demo_video_url'',
     ''support'', ''currency'']"

record module_source =
  ms_floats :: float_conversions
  ms_ee_modules :: "(string \<times> string option) list"
  ms_commit_sha :: "string \<Rightarrow> string option"
  ms_repo_root :: string
  ms_repo_url :: "string option"
  ms_repo_id :: "int option"

text \<open>The fields that cannot fail; the rest is filled in by \<open>build_module_info\<close>.\<close>

definition plain_module_info ::
  "module_source \<Rightarrow> manifest \<Rightarrow> string \<Rightarrow> string \<Rightarrow> string \<Rightarrow> string \<Rightarrow> string \<Rightarrow> string \<Rightarrow> bool \<Rightarrow> module_record" where
  "plain_module_info src m module_name module_dir module_relpath odoo_version version_raw effective_license flagged =
     \<lparr>m_name = module_name, m_odoo_version = odoo_version, m_repo = path_name (ms_repo_root src), m_path = module_dir,
      m_depends = mget_default m ''depends'' (PList []), m_version_raw = version_raw,
      m_version_mismatch = manifest_version_mismatch version_raw odoo_version,
      m_edition = ''community'', m_viindoo_equivalent = detect_viindoo_equivalent (ms_ee_modules src) module_name,
      m_commit_sha = ms_commit_sha src module_relpath, m_license = effective_license,
      m_copyright_owner = derive_copyright_owner m effective_license, m_license_notice = flagged,
      m_auto_install = False, m_auto_install_triggers = None,
      m_application = truthy (mget_default m ''application'' (PBool False)),
      m_texts = map (\<lambda>k. (k, or_none m k)) text_keys, m_author = normalize_author m, m_sequence = None,
      m_old_technical_name = or_none m ''old_technical_name'', m_price = None, m_external_python = [], m_external_bin = [],
      m_countries = [], m_repo_url = ms_repo_url src, m_repo_id = ms_repo_id src, m_repo_root = ms_repo_root src\<rparr>"

definition build_module_info ::
  "module_source \<Rightarrow> manifest \<Rightarrow> string \<Rightarrow> string \<Rightarrow> string \<Rightarrow> string \<Rightarrow> string \<Rightarrow> string \<Rightarrow> bool \<Rightarrow>
     py_error + module_record" where
  "build_module_info src m module_name module_dir module_relpath odoo_version version_raw effective_license flagged =
     (case auto_install_triggers m (mget_default m ''depends'' (PList [])) odoo_version module_name of Inl e \<Rightarrow> Inl e | Inr triggers \<Rightarrow>
      case detect_module_edition m module_name module_dir of Inl e \<Rightarrow> Inl e | Inr edition \<Rightarrow>
      case coerce_int (mget m ''sequence'') of Inl e \<Rightarrow> Inl e | Inr seq \<Rightarrow>
      case coerce_float (ms_floats src) (mget m ''price'') of Inl e \<Rightarrow> Inl e | Inr price \<Rightarrow>
      case external_deps m ''python'' of Inl e \<Rightarrow> Inl e | Inr ext_python \<Rightarrow>
      case external_deps m ''bin'' of Inl e \<Rightarrow> Inl e | Inr ext_bin \<Rightarrow>
      case list_or_empty (mget m ''countries'') of Inl e \<Rightarrow> Inl e | Inr countries \<Rightarrow>
        Inr ((plain_module_info src m module_name module_dir module_relpath odoo_version version_raw effective_license flagged)
          \<lparr>m_edition := edition, m_auto_install := triggers \<noteq> None, m_auto_install_triggers := triggers,
           m_sequence := seq, m_price := price, m_external_python := ext_python, m_external_bin := ext_bin,
           m_countries := countries\<rparr>))"

subsection \<open>What the version rule and the triggers promise\<close>

definition all_digits :: "string \<Rightarrow> bool" where
  "all_digits s = (s \<noteq> [] \<and> list_all is_digit s)"

definition is_version :: "string \<Rightarrow> bool" where
  "is_version v = (\<exists>x y. v = x @ CHR ''.'' # y \<and> all_digits x \<and> all_digits y)"

definition stops :: "string \<Rightarrow> bool" where
  "stops r = (r = [] \<or> \<not> is_digit (hd r))"

lemma takeWhile_digits: "list_all P d \<Longrightarrow> r = [] \<or> \<not> P (hd r) \<Longrightarrow> takeWhile P (d @ r) = d \<and> dropWhile P (d @ r) = r"
  by (induction d) (cases r; auto)+

lemma digits1_iff: "digits1 s = Some (d, r) \<longleftrightarrow> all_digits d \<and> s = d @ r \<and> stops r"
proof
  assume "digits1 s = Some (d, r)"
  then have d: "takeWhile is_digit s = d" "dropWhile is_digit s = r" "d \<noteq> []"
    by (auto simp: digits1_def Let_def split: if_splits)
  then have "s = d @ r" by (metis takeWhile_dropWhile_id)
  moreover have "list_all is_digit d" using d(1) by (auto simp: list_all_iff dest: set_takeWhileD)
  moreover have "stops r" using d(2) hd_dropWhile [of is_digit s] by (auto simp: stops_def)
  ultimately show "all_digits d \<and> s = d @ r \<and> stops r" using d(3) by (simp add: all_digits_def)
next
  assume "all_digits d \<and> s = d @ r \<and> stops r"
  then show "digits1 s = Some (d, r)"
    using takeWhile_digits [of is_digit d r] by (simp add: digits1_def Let_def all_digits_def stops_def)
qed

lemma dot_digits_iff: "dot_digits s = Some (d, r) \<longleftrightarrow> (\<exists>y. d = CHR ''.'' # y \<and> all_digits y \<and> s = d @ r \<and> stops r)"
  by (cases s) (auto simp: dot_digits_def digits1_iff)

lemma stops_dot [simp]: "stops (CHR ''.'' # s)"
  by (auto simp: stops_def dest: sign_not_digit)

lemma take_xy_iff: "take_xy s = Some (v, r) \<longleftrightarrow> is_version v \<and> s = v @ r \<and> stops r"
proof
  assume "take_xy s = Some (v, r)"
  then obtain x r1 y where "digits1 s = Some (x, r1)" "dot_digits r1 = Some (y, r)" "v = x @ y"
    by (auto simp: take_xy_def split: option.splits)
  then show "is_version v \<and> s = v @ r \<and> stops r"
    unfolding digits1_iff dot_digits_iff is_version_def by auto
next
  assume "is_version v \<and> s = v @ r \<and> stops r"
  then obtain x y where xy: "v = x @ CHR ''.'' # y" "all_digits x" "all_digits y" "s = v @ r" "stops r"
    by (auto simp: is_version_def)
  then have "digits1 s = Some (x, CHR ''.'' # y @ r)" "dot_digits (CHR ''.'' # y @ r) = Some (CHR ''.'' # y, r)"
    by (simp_all add: digits1_iff dot_digits_iff)
  with xy(1) show "take_xy s = Some (v, r)" by (simp add: take_xy_def)
qed

lemma strip_no_trailing_space: "strip s = t @ [c] \<Longrightarrow> \<not> is_space c"
proof -
  assume "strip s = t @ [c]"
  then have "rev (strip s) = c # rev t" by simp
  then have "dropWhile is_space (rev (dropWhile is_space s)) = c # rev t" by (simp add: strip_def)
  then show ?thesis using hd_dropWhile [of is_space "rev (dropWhile is_space s)"] by (metis list.distinct(1) list.sel(1))
qed

lemma removeprefix_eq: "removeprefix s p = t \<Longrightarrow> s = t \<or> s = p @ t"
  by (auto simp: removeprefix_def startswith_iff)

lemma is_version_head: "is_version v \<Longrightarrow> \<exists>c cs. v = c # cs \<and> is_digit c"
  by (force simp: is_version_def all_digits_def neq_Nil_conv)

lemma digit_not_prefix: "is_digit c \<Longrightarrow> removeprefix (c # cs) ''saas-'' = c # cs \<and> removeprefix (c # cs) ''refs/heads/'' = c # cs"
  by (auto simp: removeprefix_def startswith_def is_digit_def char_code_def)

lemma removeprefix_append [simp]: "removeprefix (p @ t) p = t"
  by (auto simp: removeprefix_def startswith_def)

definition branch_names :: "string \<Rightarrow> string set" where
  "branch_names v = {v, ''saas-'' @ v, ''refs/heads/'' @ v, ''refs/heads/saas-'' @ v}"

lemma branch_version_re_version:
  assumes "is_version v"
  shows "branch_version_re v = Some v" "branch_version_re (''saas-'' @ v) = Some v"
proof -
  have "take_xy v = Some (v, [])" using assms by (simp add: take_xy_iff stops_def)
  moreover have "removeprefix v ''saas-'' = v" using is_version_head [OF assms] digit_not_prefix by auto
  ultimately show "branch_version_re v = Some v" "branch_version_re (''saas-'' @ v) = Some v"
    unfolding branch_version_re_def removeprefix_append by simp_all
qed

lemma refs_saas: "removeprefix (''refs/heads/saas-'' @ v) ''refs/heads/'' = ''saas-'' @ v"
  by (simp add: removeprefix_def startswith_def)

lemma saas_no_refs: "removeprefix (''saas-'' @ v) ''refs/heads/'' = ''saas-'' @ v"
  by (simp add: removeprefix_def startswith_def)

lemma branch_of_name:
  assumes "is_version v" and "s \<in> branch_names v"
  shows "branch_version_re (removeprefix s ''refs/heads/'') = Some v"
proof -
  have plain: "removeprefix v ''refs/heads/'' = v" using is_version_head [OF assms(1)] digit_not_prefix by auto
  from assms(2) consider "s = v" | "s = ''saas-'' @ v" | "s = ''refs/heads/'' @ v" | "s = ''refs/heads/saas-'' @ v"
    unfolding branch_names_def by blast
  then show ?thesis
    by cases (simp_all only: plain saas_no_refs refs_saas removeprefix_append branch_version_re_version [OF assms(1)])
qed

lemma branch_version_re_name:
  assumes "branch_version_re (removeprefix (strip b) ''refs/heads/'') = Some v"
  shows "is_version v \<and> strip b \<in> branch_names v"
proof -
  obtain r where r: "take_xy (removeprefix (removeprefix (strip b) ''refs/heads/'') ''saas-'') = Some (v, r)"
    "r = [] \<or> r = [char_of (10::nat)]"
    using assms by (auto simp: branch_version_re_def split: option.splits if_splits)
  obtain p where p: "strip b = p @ v @ r" "p \<in> {[], ''saas-'', ''refs/heads/'', ''refs/heads/saas-''}"
    using r(1) removeprefix_eq [of "strip b" "''refs/heads/''"] removeprefix_eq [of "removeprefix (strip b) ''refs/heads/''" "''saas-''"]
    unfolding take_xy_iff by force
  have "r = []"
  proof (rule ccontr)
    assume "r \<noteq> []"
    with r(2) p(1) have "strip b = (p @ v) @ [char_of (10::nat)]" by simp
    from strip_no_trailing_space [OF this] show False by (simp add: is_space_def char_code_def Let_def)
  qed
  with p r(1) show ?thesis by (auto simp: take_xy_iff branch_names_def)
qed

lemma normalize_branch_version_iff:
  "normalize_branch_version (Some b) = Some v \<longleftrightarrow> is_version v \<and> strip b \<in> branch_names v"
proof
  assume "normalize_branch_version (Some b) = Some v"
  then show "is_version v \<and> strip b \<in> branch_names v"
    by (intro branch_version_re_name) (simp add: normalize_branch_version_def split: if_splits)
next
  assume *: "is_version v \<and> strip b \<in> branch_names v"
  then have "strip b \<noteq> []" using is_version_head [of v] by (auto simp: branch_names_def)
  then have "b \<noteq> []" by (auto simp: strip_def)
  with * branch_of_name [of v "strip b"] show "normalize_branch_version (Some b) = Some v"
    by (simp add: normalize_branch_version_def)
qed

text \<open>A branch names an Odoo version exactly when it is, up to surrounding white space, \<open>X.Y\<close> or
  \<open>saas-X.Y\<close>, with or without \<open>refs/heads/\<close> in front, and then the version is that
  \<open>X.Y\<close>. A standard branch decides the version of a module, whatever profile and manifest say;
  then a real profile version; only then the first two numbers of a long manifest version.\<close>

theorem version_rule_exact:
  "(normalize_branch_version (Some b) = Some v \<longleftrightarrow> is_version v \<and> strip b \<in> branch_names v) \<and>
   resolve_odoo_version raw checked_out branch profile =
     (case normalize_branch_version (if branch = None then checked_out else branch) of
        Some v \<Rightarrow> v
      | None \<Rightarrow> (case real_version profile of
          Some p \<Rightarrow> p
        | None \<Rightarrow> (case long_form_version_re raw of Some x \<Rightarrow> x | None \<Rightarrow> ''unknown'')))"
proof -
  have "v \<noteq> []" if "normalize_branch_version b = Some v" for b v
    using that normalize_branch_version_iff [of "the b" v] is_version_head [of v]
    by (cases b) (auto simp: normalize_branch_version_def)
  moreover have "p \<noteq> []" if "real_version profile = Some p" for p
    using that by (auto simp: real_version_def split: option.splits if_splits)
  ultimately show ?thesis
    unfolding resolve_odoo_version_def resolve_repo_version_def place_version_def Let_def normalize_branch_version_iff
    by (auto split: option.splits)
qed

text \<open>What a manifest says of its automatic installation: the list of triggers, from the version on that reads lists.\<close>

definition listed_triggers :: "manifest \<Rightarrow> int option \<Rightarrow> string set option" where
  "listed_triggers m major =
     (if (case major of None \<Rightarrow> True | Some n \<Rightarrow> n \<ge> AUTO_INSTALL_LIST_MIN_MAJOR)
      then map_option (\<lambda>xs. set (strings xs)) (trigger_list (auto_install_raw m major)) else None)"

lemma triggers_exact:
  fixes m major deps
  defines "raw \<equiv> auto_install_raw m major"
  shows "case triggers_of raw deps (case major of None \<Rightarrow> True | Some n \<Rightarrow> n \<ge> AUTO_INSTALL_LIST_MIN_MAJOR) of
      Some ts \<Rightarrow> sorted ts \<and> distinct ts \<and>
        (case listed_triggers m major of Some xs \<Rightarrow> xs \<subseteq> set deps \<and> set ts = xs
         | None \<Rightarrow> truthy raw \<and> set ts = set deps \<and> (is_str raw \<longrightarrow> major \<noteq> None \<and> the major < AUTO_INSTALL_LIST_MIN_MAJOR))
    | None \<Rightarrow>
        (case listed_triggers m major of Some xs \<Rightarrow> \<not> xs \<subseteq> set deps
         | None \<Rightarrow> \<not> truthy raw \<or> is_str raw \<and> (major = None \<or> the major \<ge> AUTO_INSTALL_LIST_MIN_MAJOR))"
  by (cases major) (auto simp: triggers_of_def listed_triggers_def raw_def split: option.splits)



text \<open>One odd manifest stops the scan of its repository: an infinite \<open>sequence\<close> (such as the literal
  1e999) makes the coercion to an integer raise \<^verbatim>\<open>OverflowError\<close>, and external dependencies given
  as a list make it raise \<^verbatim>\<open>AttributeError\<close>; nothing on the way catches either.\<close>

theorem odd_manifest_raises:
  "build_module_info src [(PStr ''sequence'', PFloat (Infinite False))] n d rel v raw lic fl = Inl OverflowError \<and>
   build_module_info src [(PStr ''external_dependencies'', PList [PStr ''numpy''])] n d rel v raw lic fl = Inl AttributeError"
proof -
  have triggers: "\<exists>t. auto_install_triggers m (PList []) v n = Inr t" for m
    by (auto simp: auto_install_triggers_def effective_depends_def Let_def strings_def)
  have edition: "\<exists>e. detect_module_edition [(PStr k, x)] n d = Inr e" if "k \<noteq> ''license''" for k x
    using that by (simp add: detect_module_edition_def or_none_def mget_def Let_def)
  obtain t1 e1 where 1: "auto_install_triggers [(PStr ''sequence'', PFloat (Infinite False))] (PList []) v n = Inr t1"
    "detect_module_edition [(PStr ''sequence'', PFloat (Infinite False))] n d = Inr e1"
    using triggers [of "[(PStr ''sequence'', PFloat (Infinite False))]"] edition [of "''sequence''" "PFloat (Infinite False)"] by auto
  obtain t2 e2 where 2: "auto_install_triggers [(PStr ''external_dependencies'', PList [PStr ''numpy''])] (PList []) v n = Inr t2"
    "detect_module_edition [(PStr ''external_dependencies'', PList [PStr ''numpy''])] n d = Inr e2"
    using triggers [of "[(PStr ''external_dependencies'', PList [PStr ''numpy''])]"]
      edition [of "''external_dependencies''" "PList [PStr ''numpy'']"] by auto
  show ?thesis
    by (simp add: build_module_info_def 1 2 mget_default_def mget_def or_none_def coerce_int_def coerce_float_def external_deps_def)
qed

end
