(* ===== verification/Registry.thy ===== *)
theory Registry
  imports Manifest Lifecycle
begin

section \<open>Manifest discovery and the registry scan (src/indexer/registry.py, src/git_utils.py)\<close>

text \<open>
  Which manifests of a checkout count, and what each of them says: the finders, the tracked set,
  the scan of one repository with its winner per module name, and the registry over several
  repositories. A checkout is an argument: the files below its root as the directory walk names
  them, what git answers, what reading a file returns (None is an \<^verbatim>\<open>OSError\<close>) and
  what parsing its text returns (the text is parsed by Python's own parser, with regular expressions as a fallback
  for old syntax). The operator messages are constructors, log lines and
  their counters are left out.
\<close>

subsection \<open>Finders\<close>

definition SKIP_DIRS :: "string set" where
  "SKIP_DIRS = {''.git'', ''node_modules''}"

definition LEGACY_ERA_MAX_MAJOR :: int where
  "LEGACY_ERA_MAX_MAJOR = 9"

datatype era = Legacy | Dual | Modern

definition manifest_era :: "string \<Rightarrow> era" where
  "manifest_era odoo_version =
     (case odoo_major odoo_version of
        None \<Rightarrow> Modern
      | Some major \<Rightarrow> if major \<le> LEGACY_ERA_MAX_MAJOR then Legacy else if major = 10 then Dual else Modern)"

definition skipped_dir :: "string \<Rightarrow> bool" where
  "skipped_dir p = (SKIP_DIRS \<inter> set (butlast (path_parts p)) \<noteq> {})"

definition scan_files :: "string list \<Rightarrow> string \<Rightarrow> string list" where
  "scan_files files filename = filter (\<lambda>p. \<not> skipped_dir p) (filter (\<lambda>p. path_name p = filename) files)"

definition find_manifests :: "string list \<Rightarrow> string \<Rightarrow> string list" where
  "find_manifests files odoo_version =
     (let modern = scan_files files ''__manifest__.py'';
          legacy = scan_files files ''__openerp__.py''
      in case manifest_era odoo_version of
           Legacy \<Rightarrow> legacy
         | Dual \<Rightarrow> modern @ filter (\<lambda>p. path_parent p \<notin> path_parent ` set modern) legacy
         | Modern \<Rightarrow> modern)"

definition filter_manifest_paths :: "string set \<Rightarrow> string \<Rightarrow> string set" where
  "filter_manifest_paths paths odoo_version =
     (let kept = {p \<in> paths. \<not> skipped_dir p};
          modern = {p \<in> kept. path_name p = ''__manifest__.py''};
          legacy = {p \<in> kept. path_name p = ''__openerp__.py''}
      in case manifest_era odoo_version of
           Legacy \<Rightarrow> legacy
         | Modern \<Rightarrow> modern
         | Dual \<Rightarrow> modern \<union> {p \<in> legacy. path_parent p \<notin> path_parent ` modern})"

definition list_tracked_manifests :: "bool \<Rightarrow> string option \<Rightarrow> string set option" where
  "list_tracked_manifests head_resolves ls_files =
     (if \<not> head_resolves then None
      else map_option (\<lambda>out. {p \<in> set (split_on (char_of (0::nat)) out).
             p \<noteq> [] \<and> path_name p \<in> {''__manifest__.py'', ''__openerp__.py''}}) ls_files)"

subsection \<open>One manifest\<close>

record checkout =
  co_root :: string
  co_branch :: "string option"
  co_files :: "string list"
  co_head_resolves :: bool
  co_ls_files :: "string option"
  co_read :: "string \<Rightarrow> string option"
  co_parse :: "string \<Rightarrow> py_error + manifest"
  co_floats :: float_conversions
  co_ee_modules :: "(string \<times> string option) list"
  co_commit_sha :: "string \<Rightarrow> string option"

record excluded_record = excluded_module +
  ex_name :: string
  ex_manifest_file :: string
  ex_version_raw :: string
  ex_version_mismatch :: bool

datatype outcome = Present string module_record | Excluded excluded_record | Unreadable string

definition path_join :: "string \<Rightarrow> string \<Rightarrow> string" where
  "path_join base_dir rel = path_str (path_parts base_dir @ path_parts rel)"

definition module_name_of :: "string \<Rightarrow> string \<Rightarrow> string" where
  "module_name_of base_dir rel = path_name (path_parent (path_join base_dir rel))"

definition exclude :: "string \<Rightarrow> string \<Rightarrow> string \<Rightarrow> string \<Rightarrow> bool \<Rightarrow> excluded_record" where
  "exclude base_dir rel reason version_raw mismatch =
     \<lparr>ex_reason = reason, ex_path = path_parent rel, ex_name = module_name_of base_dir rel, ex_manifest_file = path_name rel,
      ex_version_raw = version_raw, ex_version_mismatch = mismatch\<rparr>"

definition version_text :: "manifest \<Rightarrow> string" where
  "version_text m = (let v = mget_default m ''version'' (PStr []) in if truthy v then py_str v else [])"

definition license_major :: "string \<Rightarrow> int" where
  "license_major odoo_version = (case odoo_major odoo_version of None \<Rightarrow> 10 | Some major \<Rightarrow> major)"

definition judge_manifest ::
  "module_source \<Rightarrow> string \<Rightarrow> string option \<Rightarrow> string \<Rightarrow> manifest \<Rightarrow> py_error + outcome" where
  "judge_manifest src base_dir repo_version rel m =
     (let version_raw = version_text m;
          odoo_version = place_version version_raw repo_version;
          mismatch = (odoo_version \<noteq> ''unknown'' \<and> manifest_version_mismatch version_raw odoo_version);
          effective_license = resolve_effective_license m (license_major odoo_version);
          action = license_policy_action effective_license
      in if m = [] then Inr (Excluded (exclude base_dir rel ''unparseable'' [] False))
         else if \<not> truthy (mget_default m ''installable'' (PBool True))
         then Inr (Excluded (exclude base_dir rel ''installable_false'' version_raw mismatch))
         else if odoo_version = ''unknown'' then Inr (Excluded (exclude base_dir rel ''unparseable'' version_raw False))
         else if action = ''skip'' then Inr (Excluded (exclude base_dir rel ''license_skip'' version_raw mismatch))
         else (case build_module_info src m (module_name_of base_dir rel) (path_parent (path_join base_dir rel)) (path_parent rel)
                      odoo_version version_raw effective_license (action = ''ingest_flagged'') of
                 Inl e \<Rightarrow> Inl e
               | Inr info \<Rightarrow> Inr (Present rel info)))"

definition source_of :: "checkout \<Rightarrow> string option \<Rightarrow> int option \<Rightarrow> module_source" where
  "source_of co url rid =
     \<lparr>ms_floats = co_floats co, ms_ee_modules = co_ee_modules co, ms_commit_sha = co_commit_sha co,
      ms_repo_root = co_root co, ms_repo_url = url, ms_repo_id = rid\<rparr>"

definition scan_manifest ::
  "checkout \<Rightarrow> string option \<Rightarrow> int option \<Rightarrow> string option \<Rightarrow> string \<Rightarrow> py_error + outcome" where
  "scan_manifest co url rid repo_version rel =
     (case co_read co rel of
        None \<Rightarrow> Inr (Unreadable rel)
      | Some text \<Rightarrow>
          (case co_parse co text of
             Inl e \<Rightarrow> Inl e
           | Inr m \<Rightarrow> judge_manifest (source_of co url rid) (co_root co) repo_version rel m))"

fun map_sum_list :: "('a \<Rightarrow> 'e + 'b) \<Rightarrow> 'a list \<Rightarrow> 'e + 'b list" where
  "map_sum_list f [] = Inr []"
| "map_sum_list f (x # xs) =
     (case f x of Inl e \<Rightarrow> Inl e | Inr y \<Rightarrow> (case map_sum_list f xs of Inl e \<Rightarrow> Inl e | Inr ys \<Rightarrow> Inr (y # ys)))"

subsection \<open>One winner per name\<close>

definition presents :: "outcome list \<Rightarrow> string \<Rightarrow> (string \<times> module_record) list" where
  "presents os n = concat (map (\<lambda>o1. case o1 of Present rel i \<Rightarrow> if m_name i = n then [(rel, i)] else [] | _ \<Rightarrow> []) os)"

definition excludeds :: "outcome list \<Rightarrow> string \<Rightarrow> excluded_record list" where
  "excludeds os n = concat (map (\<lambda>o1. case o1 of Excluded e \<Rightarrow> if ex_name e = n then [e] else [] | _ \<Rightarrow> []) os)"

definition outcome_names :: "outcome list \<Rightarrow> string list" where
  "outcome_names os = sort (remdups (concat (map (\<lambda>o1. case o1 of Present _ i \<Rightarrow> [m_name i] | Excluded e \<Rightarrow> [ex_name e] | Unreadable _ \<Rightarrow> []) os)))"

definition present_rank :: "string \<times> module_record \<Rightarrow> bool \<times> nat \<times> string" where
  "present_rank c = (\<not> semver_prefix_re (m_version_raw (snd c)), length (path_parts (fst c)), fst c)"

definition excluded_rank :: "excluded_record \<Rightarrow> nat \<times> string" where
  "excluded_rank e = (length (path_parts (ex_path e)), ex_path e)"

record scan_maps =
  sm_modules :: "(string \<times> (string \<times> module_record) list) list"
  sm_excluded :: "(string \<times> excluded_record) list"
  sm_shadowed :: "(string \<times> string list) list"

definition put_module ::
  "string \<Rightarrow> string \<Rightarrow> module_record \<Rightarrow> (string \<times> (string \<times> module_record) list) list \<Rightarrow> (string \<times> (string \<times> module_record) list) list" where
  "put_module v n i mods =
     (if v \<in> keys mods then map (\<lambda>(w, ms). if w = v then (w, ms @ [(n, i)]) else (w, ms)) mods else mods @ [(v, [(n, i)])])"

definition add_shadowed :: "string \<Rightarrow> string list \<Rightarrow> (string \<times> string list) list \<Rightarrow> (string \<times> string list) list" where
  "add_shadowed n losers shadowed = (if losers = [] then shadowed else shadowed @ [(n, sort losers)])"

definition choose_winner :: "outcome list \<Rightarrow> string \<Rightarrow> scan_maps \<Rightarrow> scan_maps" where
  "choose_winner os n sm =
     (case sort_key present_rank (presents os n) of
        (rel, winner) # rest \<Rightarrow>
          sm\<lparr>sm_modules := put_module (m_odoo_version winner) n winner (sm_modules sm),
             sm_shadowed := add_shadowed n (map ex_path (excludeds os n) @ map (\<lambda>c. path_parent (fst c)) rest) (sm_shadowed sm)\<rparr>
      | [] \<Rightarrow>
          (case sort_key excluded_rank (excludeds os n) of
             e # rest \<Rightarrow>
               sm\<lparr>sm_excluded := sm_excluded sm @ [(n, e)], sm_shadowed := add_shadowed n (map ex_path rest) (sm_shadowed sm)\<rparr>
           | [] \<Rightarrow> sm))"

definition choose_winners :: "outcome list \<Rightarrow> scan_maps" where
  "choose_winners os = fold (choose_winner os) (outcome_names os) \<lparr>sm_modules = [], sm_excluded = [], sm_shadowed = []\<rparr>"

subsection \<open>The scan of a repository\<close>

record repo_scan =
  rs_repo_path :: string
  rs_odoo_version :: string
  rs_branch :: "string option"
  rs_modules :: "(string \<times> (string \<times> module_record) list) list"
  rs_excluded :: "(string \<times> excluded_record) list"
  rs_shadowed :: "(string \<times> string list) list"
  rs_tracked_paths :: "string set option"
  rs_finder_paths :: "string set"
  rs_untracked :: "string set"
  rs_missing :: "string set"
  rs_complete :: bool
  rs_attention :: "attention list"
  rs_unreadable :: "string set"

definition dispatch_version :: "repo_version \<Rightarrow> string option \<Rightarrow> string" where
  "dispatch_version rv profile_version =
     (case rv_odoo_version rv of
        Some v \<Rightarrow> if v = [] then (case real_version profile_version of Some p \<Rightarrow> p | None \<Rightarrow> []) else v
      | None \<Rightarrow> (case real_version profile_version of Some p \<Rightarrow> p | None \<Rightarrow> []))"

definition unreadables :: "outcome list \<Rightarrow> string set" where
  "unreadables os = {rel. Unreadable rel \<in> set os}"

lemma unreadables_code [code]:
  "unreadables os = set (concat (map (\<lambda>o1. case o1 of Unreadable rel \<Rightarrow> [rel] | _ \<Rightarrow> []) os))"
  by (force simp: unreadables_def split: outcome.splits)

definition build_registry_scan ::
  "checkout \<Rightarrow> string option \<Rightarrow> string option \<Rightarrow> string option \<Rightarrow> int option \<Rightarrow> py_error + repo_scan" where
  "build_registry_scan co profile_version branch url rid =
     (let rv = resolve_repo_version (co_branch co) branch profile_version;
          version = dispatch_version rv profile_version;
          finder_paths = set (find_manifests (co_files co) version);
          tracked_paths = map_option (\<lambda>raw. filter_manifest_paths raw version)
            (list_tracked_manifests (co_head_resolves co) (co_ls_files co));
          untracked = (case tracked_paths of None \<Rightarrow> {} | Some t \<Rightarrow> finder_paths - t);
          missing_paths = (case tracked_paths of None \<Rightarrow> {} | Some t \<Rightarrow> t - finder_paths)
      in case map_sum_list (scan_manifest co url rid (rv_odoo_version rv)) (sorted_list_of_set (finder_paths - untracked)) of
           Inl e \<Rightarrow> Inl e
         | Inr os \<Rightarrow>
             let sm = choose_winners os
             in Inr \<lparr>rs_repo_path = co_root co, rs_odoo_version = (if version = [] then ''unknown'' else version),
                  rs_branch = rv_branch rv, rs_modules = sm_modules sm, rs_excluded = sm_excluded sm,
                  rs_shadowed = sm_shadowed sm, rs_tracked_paths = tracked_paths, rs_finder_paths = finder_paths,
                  rs_untracked = untracked, rs_missing = missing_paths,
                  rs_complete = (missing_paths = {} \<and> unreadables os = {}),
                  rs_attention = rv_attention rv, rs_unreadable = unreadables os\<rparr>)"

subsection \<open>The registry over several repositories\<close>

definition put_registry ::
  "string \<Rightarrow> string \<times> module_record \<Rightarrow> (string \<times> (string \<times> module_record) list) list \<Rightarrow> (string \<times> (string \<times> module_record) list) list" where
  "put_registry v c registry =
     map (\<lambda>(w, bucket). (w,
         if w \<noteq> v then bucket
         else if fst c \<notin> keys bucket then bucket @ [c]
         else if semver_prefix_re (m_version_raw (snd c)) then map (\<lambda>d. if fst d = fst c then c else d) bucket
         else bucket)) registry"

definition put_version ::
  "string \<times> (string \<times> module_record) list \<Rightarrow> (string \<times> (string \<times> module_record) list) list \<Rightarrow> (string \<times> (string \<times> module_record) list) list" where
  "put_version vm registry =
     fold (put_registry (fst vm)) (snd vm) (if fst vm \<in> keys registry then registry else registry @ [(fst vm, [])])"

fun build_registry ::
  "(checkout \<times> string) list \<Rightarrow> string option \<Rightarrow> int option \<Rightarrow> string option \<Rightarrow> (string \<times> (string \<times> module_record) list) list \<Rightarrow>
     py_error + (string \<times> (string \<times> module_record) list) list" where
  "build_registry [] url rid branch registry = Inr registry"
| "build_registry ((co, profile_version) # pairs) url rid branch registry =
     (case build_registry_scan co (Some profile_version) branch url rid of
        Inl e \<Rightarrow> Inl e
      | Inr scan \<Rightarrow> build_registry pairs url rid branch (fold put_version (rs_modules scan) registry))"

text \<open>What the lifecycle code reads of a scan.\<close>

definition to_repo_relative :: "string \<Rightarrow> string \<Rightarrow> string" where
  "to_repo_relative abs_path base_dir =
     (if abs_path = [] then abs_path
      else if take (length (path_parts base_dir)) (path_parts abs_path) = path_parts base_dir
      then path_str (drop (length (path_parts base_dir)) (path_parts abs_path))
      else abs_path)"

definition lifecycle_info :: "module_record \<Rightarrow> module_info" where
  "lifecycle_info i = \<lparr>mi_rel_path = Some (to_repo_relative (m_path i) (m_repo_root i)),
     old_technical_name = (case m_old_technical_name i of Some (PStr s) \<Rightarrow> Some s | _ \<Rightarrow> None)\<rparr>"

definition lifecycle_scan :: "repo_scan \<Rightarrow> registry_scan" where
  "lifecycle_scan sc =
     \<lparr>scan_branch = rs_branch sc,
      scan_modules = map (\<lambda>(v, ms). (v, map (\<lambda>(n, i). (n, lifecycle_info i)) ms)) (rs_modules sc),
      scan_excluded = map (\<lambda>(n, e). (n, excluded_module.truncate e)) (rs_excluded sc),
      scan_missing = sorted_list_of_set (rs_missing sc), scan_unreadable = sorted_list_of_set (rs_unreadable sc),
      scan_complete = rs_complete sc\<rparr>"

subsection \<open>The finder and the tracked set follow one rule\<close>

text \<open>The rule that picks the manifests on disk and the one that filters the manifests git tracks are the
  same: on the same paths, for every version, they keep the same manifests.\<close>

theorem finder_agrees_with_filter: "set (find_manifests files v) = filter_manifest_paths (set files) v"
proof -
  have scan: "set (scan_files files f) = {p \<in> {p \<in> set files. \<not> skipped_dir p}. path_name p = f}" for f
    by (auto simp: scan_files_def)
  show ?thesis
    by (cases "manifest_era v") (auto simp: find_manifests_def filter_manifest_paths_def Let_def scan)
qed

subsection \<open>Outcomes\<close>

lemma map_sum_list_all2: "map_sum_list f xs = Inr ys \<Longrightarrow> list_all2 (\<lambda>x y. f x = Inr y) xs ys"
  by (induction xs arbitrary: ys) (auto split: sum.splits)

lemma map_sum_list_set: "map_sum_list f xs = Inr ys \<Longrightarrow> Inr ` set ys = f ` set xs"
proof (induction xs arbitrary: ys)
  case Nil
  then show ?case by simp
next
  case (Cons x xs)
  then obtain y zs where "f x = Inr y" "map_sum_list f xs = Inr zs" "ys = y # zs" by (auto split: sum.splits)
  with Cons.IH [of zs] show ?case by simp
qed

lemma build_module_info_name: "build_module_info src m n d rel v raw lic fl = Inr i \<Longrightarrow> m_name i = n \<and> m_version_raw i = raw"
  by (auto simp: build_module_info_def plain_module_info_def split: sum.splits)

lemma judge_manifest_cases:
  assumes "judge_manifest src home rv rel m = Inr out"
  shows "(\<exists>i. out = Present rel i \<and> m_name i = module_name_of home rel) \<or>
    (\<exists>reason raw mm. out = Excluded (exclude home rel reason raw mm))"
  using assms unfolding judge_manifest_def Let_def
  by (auto dest: build_module_info_name split: if_splits sum.splits)

lemma scan_manifest_cases:
  assumes "scan_manifest co url rid rv rel = Inr out"
  shows "(out = Unreadable rel \<and> co_read co rel = None) \<or> (\<exists>i. out = Present rel i \<and> m_name i = module_name_of (co_root co) rel) \<or>
    (\<exists>reason raw mm. out = Excluded (exclude (co_root co) rel reason raw mm))"
  using assms unfolding scan_manifest_def
  by (auto split: option.splits sum.splits dest: judge_manifest_cases)

lemma exclude_simps [simp]:
  "ex_name (exclude home rel reason raw mm) = module_name_of home rel" "ex_path (exclude home rel reason raw mm) = path_parent rel"
  by (simp_all add: exclude_def)

lemma set_presents: "set (presents os n) = {(rel, i). Present rel i \<in> set os \<and> m_name i = n}"
  by (force simp: presents_def split: outcome.splits if_splits)

lemma set_excludeds: "set (excludeds os n) = {e. Excluded e \<in> set os \<and> ex_name e = n}"
  by (force simp: excludeds_def split: outcome.splits if_splits)

lemma set_outcome_names: "set (outcome_names os) = {n. presents os n \<noteq> [] \<or> excludeds os n \<noteq> []}"
proof -
  have "presents os n \<noteq> [] \<or> excludeds os n \<noteq> [] \<longleftrightarrow> set (presents os n) \<noteq> {} \<or> set (excludeds os n) \<noteq> {}" for n by simp
  then show ?thesis
    unfolding set_presents set_excludeds by (force simp: outcome_names_def split: outcome.splits)
qed

lemma distinct_outcome_names: "distinct (outcome_names os)"
  by (simp add: outcome_names_def)

subsection \<open>The winners\<close>

definition registered :: "(string \<times> (string \<times> module_record) list) list \<Rightarrow> (string \<times> string \<times> module_record) set" where
  "registered mods = {(v, n, i). \<exists>ms. (v, ms) \<in> set mods \<and> (n, i) \<in> set ms}"

lemma registered_put_module [simp]: "registered (put_module v n i mods) = insert (v, n, i) (registered mods)"
proof (cases "v \<in> keys mods")
  case True
  then obtain ms where ms: "(v, ms) \<in> set mods" by (auto simp: keys_def)
  have in_map: "(w, ms') \<in> set (put_module v n i mods) \<longleftrightarrow> (\<exists>ms. (w, ms) \<in> set mods \<and> ms' = (if w = v then ms @ [(n, i)] else ms))" for w ms'
    using True by (force simp: put_module_def split: if_splits)
  have "(w, k, j) \<in> registered (put_module v n i mods) \<longleftrightarrow> (w, k, j) \<in> insert (v, n, i) (registered mods)" for w k j
    using ms unfolding registered_def by (cases "w = v") (auto simp: in_map)
  then show ?thesis by auto
next
  case False
  then show ?thesis by (auto simp: registered_def put_module_def)
qed

definition shadows :: "(string \<times> string list) list \<Rightarrow> string \<Rightarrow> string list" where
  "shadows shadowed n = concat (map snd (filter (\<lambda>s. fst s = n) shadowed))"

lemma shadows_add [simp]: "shadows (add_shadowed n losers shadowed) k = shadows shadowed k @ (if k = n then sort losers else [])"
  by (auto simp: shadows_def add_shadowed_def)

definition winners_ok :: "outcome list \<Rightarrow> string set \<Rightarrow> scan_maps \<Rightarrow> bool" where
  "winners_ok os ns sm \<longleftrightarrow>
     (fst \<circ> snd) ` registered (sm_modules sm) = {n \<in> ns. presents os n \<noteq> []} \<and>
     (\<forall>(v, n, i) \<in> registered (sm_modules sm). v = m_odoo_version i \<and>
        (\<exists>rel. (rel, i) \<in> set (presents os n) \<and> (\<forall>c \<in> set (presents os n). present_rank (rel, i) \<le> present_rank c))) \<and>
     keys (sm_excluded sm) = {n \<in> ns. presents os n = [] \<and> excludeds os n \<noteq> []} \<and>
     (\<forall>(n, e) \<in> set (sm_excluded sm). e \<in> set (excludeds os n) \<and> (\<forall>c \<in> set (excludeds os n). excluded_rank e \<le> excluded_rank c)) \<and>
     (\<forall>n. length (shadows (sm_shadowed sm) n) =
        (if n \<in> ns then length (presents os n) + length (excludeds os n) - 1 else 0))"

lemma sort_key_hd:
  assumes "sort_key f xs = y # ys"
  shows "y \<in> set xs" "\<forall>x \<in> set xs. f y \<le> f x" "length xs = Suc (length ys)"
proof -
  have "set xs = insert y (set ys)" using assms by (metis list.simps(15) set_sort)
  moreover have "sorted (map f (y # ys))" using assms by (metis sorted_sort_key)
  ultimately show "y \<in> set xs" "\<forall>x \<in> set xs. f y \<le> f x" by auto
  show "length xs = Suc (length ys)" using assms by (metis length_Cons length_sort)
qed

lemma sort_key_Nil: "sort_key f xs = [] \<longleftrightarrow> xs = []"
  by (metis set_empty set_sort)

lemma choose_winner_ok:
  assumes "winners_ok os ns sm" and "n \<notin> ns" and "presents os n \<noteq> [] \<or> excludeds os n \<noteq> []"
  shows "winners_ok os (insert n ns) (choose_winner os n sm)"
proof (cases "sort_key present_rank (presents os n)")
  case Nil
  then have none: "presents os n = []" by (simp add: sort_key_Nil)
  with assms(3) obtain e rest where e: "sort_key excluded_rank (excludeds os n) = e # rest"
    by (metis neq_Nil_conv sort_key_Nil)
  have sm: "choose_winner os n sm =
      sm\<lparr>sm_excluded := sm_excluded sm @ [(n, e)], sm_shadowed := add_shadowed n (map ex_path rest) (sm_shadowed sm)\<rparr>"
    by (simp add: choose_winner_def Nil e)
  have old: "keys (sm_excluded sm @ [(n, e)]) = insert n (keys (sm_excluded sm))" by (auto simp: keys_def)
  show ?thesis
    using assms none sort_key_hd [OF e] unfolding winners_ok_def sm
    by (auto simp: old)
next
  case (Cons c rest)
  obtain rel winner where c: "c = (rel, winner)" by (cases c)
  have sm: "choose_winner os n sm =
      sm\<lparr>sm_modules := put_module (m_odoo_version winner) n winner (sm_modules sm),
         sm_shadowed := add_shadowed n (map ex_path (excludeds os n) @ map (\<lambda>c. path_parent (fst c)) rest) (sm_shadowed sm)\<rparr>"
    by (simp add: choose_winner_def Cons c)
  show ?thesis
    using assms sort_key_hd [OF Cons] unfolding winners_ok_def sm c
    by (auto simp: image_Un)
qed

lemma choose_winners_ok: "winners_ok os (set (outcome_names os)) (choose_winners os)"
proof -
  have "winners_ok os (ns \<union> set ks) (fold (choose_winner os) ks sm)"
    if "winners_ok os ns sm" "distinct ks" "set ks \<inter> ns = {}" "set ks \<subseteq> set (outcome_names os)" for ns ks sm
    using that
  proof (induction ks arbitrary: ns sm)
    case Nil
    then show ?case by simp
  next
    case (Cons k ks)
    then have "winners_ok os (insert k ns) (choose_winner os k sm)"
      by (intro choose_winner_ok) (auto simp: set_outcome_names)
    with Cons.IH [of "insert k ns"] Cons.prems show ?case by auto
  qed
  moreover have "winners_ok os {} \<lparr>sm_modules = [], sm_excluded = [], sm_shadowed = []\<rparr>"
    by (simp add: winners_ok_def registered_def shadows_def)
  ultimately show ?thesis
    using distinct_outcome_names [of os] unfolding choose_winners_def by (metis Un_empty_left inf_bot_right order_refl)
qed

subsection \<open>What the scan promises\<close>

definition scan_one :: "checkout \<Rightarrow> string option \<Rightarrow> string option \<Rightarrow> string option \<Rightarrow> int option \<Rightarrow> string \<Rightarrow> py_error + outcome" where
  "scan_one co profile_version branch url rid =
     scan_manifest co url rid (rv_odoo_version (resolve_repo_version (co_branch co) branch profile_version))"

definition scanned_paths :: "repo_scan \<Rightarrow> string set" where
  "scanned_paths sc = rs_finder_paths sc - rs_untracked sc"

definition copies :: "checkout \<Rightarrow> repo_scan \<Rightarrow> string \<Rightarrow> string set" where
  "copies co sc n = {rel \<in> scanned_paths sc. module_name_of (co_root co) rel = n \<and> co_read co rel \<noteq> None}"

lemma outcome_count:
  assumes "list_all2 (\<lambda>rel out. scan_manifest co url rid rv rel = Inr out) rels os"
  shows "length (presents os n) + length (excludeds os n) =
    length (filter (\<lambda>rel. module_name_of (co_root co) rel = n \<and> co_read co rel \<noteq> None) rels)"
  using assms
proof (induction rule: list_all2_induct)
  case Nil
  show ?case by (simp add: presents_def excludeds_def)
next
  case (Cons rel rels out os)
  have "co_read co rel \<noteq> None" if "out \<noteq> Unreadable rel"
    using Cons.hyps(1) that by (auto simp: scan_manifest_def split: option.splits)
  then show ?case
    using scan_manifest_cases [OF Cons.hyps(1)] Cons.IH
    by (auto simp: presents_def excludeds_def)
qed

lemma build_scan_outcomes:
  assumes "build_registry_scan co pv br url rid = Inr sc"
  obtains os where "Inr ` set os = scan_one co pv br url rid ` scanned_paths sc"
    "winners_ok os (set (outcome_names os)) \<lparr>sm_modules = rs_modules sc, sm_excluded = rs_excluded sc, sm_shadowed = rs_shadowed sc\<rparr>"
    "rs_unreadable sc = unreadables os" "rs_complete sc \<longleftrightarrow> rs_missing sc = {} \<and> unreadables os = {}"
    "rs_untracked sc = (case rs_tracked_paths sc of None \<Rightarrow> {} | Some t \<Rightarrow> rs_finder_paths sc - t)"
    "rs_missing sc = (case rs_tracked_paths sc of None \<Rightarrow> {} | Some t \<Rightarrow> t - rs_finder_paths sc)"
    "\<And>n. length (presents os n) + length (excludeds os n) = card (copies co sc n)"
proof -
  define rv where "rv = resolve_repo_version (co_branch co) br pv"
  define version where "version = dispatch_version rv pv"
  define found where "found = set (find_manifests (co_files co) version)"
  define tracked where "tracked = map_option (\<lambda>raw. filter_manifest_paths raw version)
    (list_tracked_manifests (co_head_resolves co) (co_ls_files co))"
  define skip where "skip = (case tracked of None \<Rightarrow> {} | Some t \<Rightarrow> found - t)"
  obtain os where os: "map_sum_list (scan_manifest co url rid (rv_odoo_version rv)) (sorted_list_of_set (found - skip)) = Inr os"
    and sc: "rs_modules sc = sm_modules (choose_winners os)" "rs_excluded sc = sm_excluded (choose_winners os)"
      "rs_shadowed sc = sm_shadowed (choose_winners os)" "rs_unreadable sc = unreadables os"
      "rs_finder_paths sc = found" "rs_untracked sc = skip" "rs_tracked_paths sc = tracked"
      "rs_missing sc = (case tracked of None \<Rightarrow> {} | Some t \<Rightarrow> t - found)"
      "rs_complete sc \<longleftrightarrow> rs_missing sc = {} \<and> unreadables os = {}"
    using assms unfolding build_registry_scan_def Let_def rv_def [symmetric] version_def [symmetric] found_def [symmetric]
      tracked_def [symmetric] skip_def [symmetric]
    by (auto split: sum.splits)
  have paths: "set (sorted_list_of_set (found - skip)) = scanned_paths sc" by (simp add: scanned_paths_def sc found_def)
  have "length (presents os n) + length (excludeds os n) = card (copies co sc n)" for n
    unfolding outcome_count [OF map_sum_list_all2 [OF os]] copies_def paths [symmetric]
    by (subst distinct_card [symmetric]) (auto intro: arg_cong [of _ _ card])
  moreover from paths map_sum_list_set [OF os] have "Inr ` set os = scan_one co pv br url rid ` scanned_paths sc"
    by (simp add: scan_one_def rv_def)
  moreover have "\<lparr>sm_modules = rs_modules sc, sm_excluded = rs_excluded sc, sm_shadowed = rs_shadowed sc\<rparr> = choose_winners os"
    by (simp add: sc)
  then have "winners_ok os (set (outcome_names os)) \<lparr>sm_modules = rs_modules sc, sm_excluded = rs_excluded sc, sm_shadowed = rs_shadowed sc\<rparr>"
    using choose_winners_ok [of os] by (simp only:)
  moreover have "rs_untracked sc = (case rs_tracked_paths sc of None \<Rightarrow> {} | Some t \<Rightarrow> rs_finder_paths sc - t)"
    "rs_missing sc = (case rs_tracked_paths sc of None \<Rightarrow> {} | Some t \<Rightarrow> t - rs_finder_paths sc)"
    by (simp_all only: sc skip_def)
  ultimately show ?thesis using that [of os] sc(4,9) by blast
qed

lemma outcome_in:
  fixes f :: "'a \<Rightarrow> 'e + 'b"
  assumes "Inr ` set os = f ` A"
  shows "out \<in> set os \<longleftrightarrow> (\<exists>rel \<in> A. f rel = Inr out)"
proof -
  have "out \<in> set os \<longleftrightarrow> (Inr out :: 'e + 'b) \<in> Inr ` set os" by auto
  also have "\<dots> \<longleftrightarrow> Inr out \<in> f ` A" by (simp only: assms)
  also have "\<dots> \<longleftrightarrow> (\<exists>rel \<in> A. f rel = Inr out)" by (auto simp: image_iff) metis+
  finally show ?thesis .
qed

lemma scan_one_readable:
  assumes "scan_one co pv br url rid rel = Inr out"
  shows "(\<exists>n i. out = Present rel i \<and> m_name i = module_name_of (co_root co) rel) \<or>
    (\<exists>e. out = Excluded e \<and> ex_name e = module_name_of (co_root co) rel) \<or> out = Unreadable rel"
  using scan_manifest_cases [OF assms [unfolded scan_one_def]] by auto

lemma outcome_names_eq:
  assumes "Inr ` set os = scan_one co pv br url rid ` A" and "unreadables os = {}"
  shows "set (outcome_names os) = module_name_of (co_root co) ` A"
proof -
  have "n \<in> set (outcome_names os) \<longleftrightarrow> (\<exists>rel i. Present rel i \<in> set os \<and> m_name i = n) \<or> (\<exists>e. Excluded e \<in> set os \<and> ex_name e = n)" for n
  proof -
    have "presents os n \<noteq> [] \<or> excludeds os n \<noteq> [] \<longleftrightarrow> set (presents os n) \<noteq> {} \<or> set (excludeds os n) \<noteq> {}" by simp
    then show ?thesis unfolding set_outcome_names set_presents set_excludeds by auto
  qed
  moreover have "(\<exists>rel i. Present rel i \<in> set os \<and> m_name i = n) \<or> (\<exists>e. Excluded e \<in> set os \<and> ex_name e = n) \<longleftrightarrow>
      (\<exists>rel \<in> A. module_name_of (co_root co) rel = n)" (is "?L n \<longleftrightarrow> ?R n") for n
  proof
    show "?L n \<Longrightarrow> ?R n"
      unfolding outcome_in [OF assms(1)] by (elim disjE exE conjE bexE) (drule scan_one_readable, force)+
  next
    assume "?R n"
    then obtain rel where rel: "rel \<in> A" "module_name_of (co_root co) rel = n" by blast
    then have "scan_one co pv br url rid rel \<in> Inr ` set os" using assms(1) by simp
    then obtain out where out: "scan_one co pv br url rid rel = Inr out" "out \<in> set os" by auto
    moreover have "out \<noteq> Unreadable rel" using assms(2) out(2) by (auto simp: unreadables_def)
    ultimately show "?L n" using scan_one_readable [OF out(1)] rel(2) by auto
  qed
  ultimately show ?thesis by auto
qed

lemma lifecycle_scan_present: "set (present_names (lifecycle_scan sc)) = (fst \<circ> snd) ` registered (rs_modules sc)"
  by (force simp: present_names_def lifecycle_scan_def registered_def)

lemma lifecycle_scan_excluded: "fst ` set (scan_excluded (lifecycle_scan sc)) = keys (rs_excluded sc)"
  by (force simp: lifecycle_scan_def keys_def)

lemma scan_names:
  assumes "build_registry_scan co pv br url rid = Inr sc" and "rs_complete sc" and "rs_tracked_paths sc = Some t"
  shows "set (present_names (lifecycle_scan sc)) \<union> fst ` set (scan_excluded (lifecycle_scan sc)) = module_name_of (co_root co) ` t"
    "set (present_names (lifecycle_scan sc)) \<inter> fst ` set (scan_excluded (lifecycle_scan sc)) = {}"
proof -
  obtain os where os: "Inr ` set os = scan_one co pv br url rid ` scanned_paths sc"
    "winners_ok os (set (outcome_names os)) \<lparr>sm_modules = rs_modules sc, sm_excluded = rs_excluded sc, sm_shadowed = rs_shadowed sc\<rparr>"
    "rs_complete sc \<longleftrightarrow> rs_missing sc = {} \<and> unreadables os = {}"
    "rs_untracked sc = (case rs_tracked_paths sc of None \<Rightarrow> {} | Some t \<Rightarrow> rs_finder_paths sc - t)"
    "rs_missing sc = (case rs_tracked_paths sc of None \<Rightarrow> {} | Some t \<Rightarrow> t - rs_finder_paths sc)"
    by (rule build_scan_outcomes [OF assms(1)]) (rule that)
  have "scanned_paths sc = t" using os(3,4,5) assms(2,3) by (auto simp: scanned_paths_def)
  with outcome_names_eq [OF os(1)] os(3) assms(2) have names: "set (outcome_names os) = module_name_of (co_root co) ` t" by simp
  show "set (present_names (lifecycle_scan sc)) \<union> fst ` set (scan_excluded (lifecycle_scan sc)) = module_name_of (co_root co) ` t"
    "set (present_names (lifecycle_scan sc)) \<inter> fst ` set (scan_excluded (lifecycle_scan sc)) = {}"
    using os(2) unfolding lifecycle_scan_present lifecycle_scan_excluded names [symmetric] winners_ok_def
    by (auto simp: set_outcome_names)
qed

text \<open>C11. A complete scan is the truth about what git tracks: the present and the excluded names together are
  exactly the names of the directories of the tracked manifests, and no name is both.\<close>

theorem complete_scan_is_tracked_set:
  assumes "build_registry_scan co pv br url rid = Inr sc" and "rs_complete sc" and "rs_tracked_paths sc = Some t"
  shows "set (present_names (lifecycle_scan sc)) \<union> fst ` set (scan_excluded (lifecycle_scan sc)) = module_name_of (co_root co) ` t \<and>
    set (present_names (lifecycle_scan sc)) \<inter> fst ` set (scan_excluded (lifecycle_scan sc)) = {}"
  using scan_names [OF assms] by simp_all

text \<open>The copy that is registered under a name is a manifest that is on disk and not untracked, and it
  beats every other indexable copy of the name: by a version of three numbers, then by depth, then
  by path. No copy is lost: the shadowed directories of a name are as many as its other copies.\<close>

theorem registry_winner:
  assumes "build_registry_scan co pv br url rid = Inr sc" and "(v, ms) \<in> set (rs_modules sc)" and "(n, i) \<in> set ms"
  shows "length (shadows (rs_shadowed sc) n) + 1 = card (copies co sc n) \<and>
   (\<exists>rel \<in> scanned_paths sc. module_name_of (co_root co) rel = n \<and> v = m_odoo_version i \<and>
    scan_one co pv br url rid rel = Inr (Present rel i) \<and>
    (\<forall>rel' \<in> scanned_paths sc. \<forall>i'. scan_one co pv br url rid rel' = Inr (Present rel' i') \<longrightarrow> m_name i' = n \<longrightarrow>
       present_rank (rel, i) \<le> present_rank (rel', i')))"
proof -
  obtain os where os: "Inr ` set os = scan_one co pv br url rid ` scanned_paths sc"
    "winners_ok os (set (outcome_names os)) \<lparr>sm_modules = rs_modules sc, sm_excluded = rs_excluded sc, sm_shadowed = rs_shadowed sc\<rparr>"
    and count: "\<And>n. length (presents os n) + length (excludeds os n) = card (copies co sc n)"
    by (rule build_scan_outcomes [OF assms(1)]) (rule that)
  have "(v, n, i) \<in> registered (rs_modules sc)" using assms(2,3) by (auto simp: registered_def)
  then obtain rel where rel: "v = m_odoo_version i" "(rel, i) \<in> set (presents os n)"
    "\<forall>c \<in> set (presents os n). present_rank (rel, i) \<le> present_rank c"
    using os(2) unfolding winners_ok_def by auto
  then have "Present rel i \<in> set os" "m_name i = n" by (auto simp: set_presents)
  then obtain p where p: "p \<in> scanned_paths sc" "scan_one co pv br url rid p = Inr (Present rel i)"
    unfolding outcome_in [OF os(1)] by blast
  moreover have "p = rel" "module_name_of (co_root co) rel = n"
    using scan_one_readable [OF p(2)] \<open>m_name i = n\<close> by auto
  moreover have "present_rank (rel, i) \<le> present_rank (rel', i')"
    if "rel' \<in> scanned_paths sc" "scan_one co pv br url rid rel' = Inr (Present rel' i')" "m_name i' = n" for rel' i'
  proof -
    have "Present rel' i' \<in> set os" using that(1,2) outcome_in [OF os(1)] by blast
    with that(3) rel(3) show ?thesis by (auto simp: set_presents)
  qed
  moreover have "n \<in> set (outcome_names os)" "presents os n \<noteq> []" using rel(2) by (auto simp: set_outcome_names)
  then have "length (shadows (rs_shadowed sc) n) + 1 = card (copies co sc n)"
    using os(2) unfolding winners_ok_def count [symmetric] by (auto simp: Suc_leI)
  ultimately show ?thesis using rel(1) by auto
qed

subsection \<open>A sample checkout\<close>

text \<open>Two copies of one module, an uninstallable module and an untracked directory.\<close>

definition sample_checkout :: checkout where
  "sample_checkout =
     \<lparr>co_root = ''/srv/repo'', co_branch = Some ''17.0'',
      co_files = [''sale/__manifest__.py'', ''old/sale/__manifest__.py'', ''crm/__manifest__.py'', ''tmp/__manifest__.py''],
      co_head_resolves = True,
      co_ls_files = Some (''sale/__manifest__.py'' @ char_of (0::nat) # ''old/sale/__manifest__.py'' @ char_of (0::nat) # ''crm/__manifest__.py''),
      co_read = Some,
      co_parse = (\<lambda>text. Inr (if text = ''crm/__manifest__.py'' then [(PStr ''installable'', PBool False)]
        else [(PStr ''name'', PStr ''Sales'')])),
      co_floats = \<lparr>float_of_str = (\<lambda>s. None), float_of_int = (\<lambda>i. None)\<rparr>, co_ee_modules = [], co_commit_sha = (\<lambda>p. None)\<rparr>"

definition sample_tracked :: "string set" where
  "sample_tracked = {''sale/__manifest__.py'', ''old/sale/__manifest__.py'', ''crm/__manifest__.py''}"

definition sample_ok :: "repo_scan \<Rightarrow> bool" where
  "sample_ok sc \<longleftrightarrow> rs_complete sc \<and> rs_tracked_paths sc = Some sample_tracked \<and> rs_untracked sc = {''tmp/__manifest__.py''} \<and>
     map fst (rs_modules sc) = [''17.0''] \<and> map fst (snd (hd (rs_modules sc))) = [''sale''] \<and> rs_shadowed sc = [(''sale'', [''old/sale''])] \<and>
     map fst (rs_excluded sc) = [''crm'']"

definition sample_outcomes :: "outcome list" where
  "sample_outcomes =
     (case map_sum_list (scan_manifest sample_checkout None None (Some ''17.0''))
         [''crm/__manifest__.py'', ''old/sale/__manifest__.py'', ''sale/__manifest__.py''] of Inr os \<Rightarrow> os | Inl _ \<Rightarrow> [])"

lemma sample_version:
  "resolve_repo_version (co_branch sample_checkout) None None =
     \<lparr>rv_odoo_version = Some ''17.0'', rv_branch = Some ''17.0'', rv_branch_version = Some ''17.0'', rv_attention = []\<rparr>"
  by code_simp

lemma sample_found: "set (find_manifests (co_files sample_checkout) ''17.0'') = insert ''tmp/__manifest__.py'' sample_tracked"
  by code_simp

lemma sample_filter:
  "map_option (\<lambda>raw. filter_manifest_paths raw ''17.0'') (list_tracked_manifests (co_head_resolves sample_checkout) (co_ls_files sample_checkout)) =
     Some sample_tracked"
  by code_simp

lemma sample_sets:
  "insert ''tmp/__manifest__.py'' sample_tracked - sample_tracked = {''tmp/__manifest__.py''}"
  "sample_tracked - insert ''tmp/__manifest__.py'' sample_tracked = {}"
  "sorted_list_of_set (insert ''tmp/__manifest__.py'' sample_tracked - {''tmp/__manifest__.py''}) =
     [''crm/__manifest__.py'', ''old/sale/__manifest__.py'', ''sale/__manifest__.py'']"
  by code_simp+

lemma sample_outcomes_eq:
  "map_sum_list (scan_manifest sample_checkout None None (Some ''17.0''))
     [''crm/__manifest__.py'', ''old/sale/__manifest__.py'', ''sale/__manifest__.py''] = Inr sample_outcomes"
proof -
  have "\<not> isl (map_sum_list (scan_manifest sample_checkout None None (Some ''17.0''))
     [''crm/__manifest__.py'', ''old/sale/__manifest__.py'', ''sale/__manifest__.py''])" by code_simp
  then show ?thesis by (auto simp: sample_outcomes_def split: sum.splits)
qed

fun sample_view :: "scan_maps \<Rightarrow> string list \<times> string list \<times> (string \<times> string list) list \<times> string list" where
  "sample_view sm = (map fst (sm_modules sm), map fst (snd (hd (sm_modules sm))), sm_shadowed sm, map fst (sm_excluded sm))"

lemma sample_readable: "unreadables sample_outcomes = {}"
  by code_simp

lemma sample_winners:
  "sample_view (choose_winners sample_outcomes) = ([''17.0''], [''sale''], [(''sale'', [''old/sale''])], [''crm''])"
  by code_simp

lemma sample_scan: "\<exists>sc. build_registry_scan sample_checkout None None None None = Inr sc \<and> sample_ok sc"
proof -
  have version: "dispatch_version \<lparr>rv_odoo_version = Some ''17.0'', rv_branch = Some ''17.0'', rv_branch_version = Some ''17.0'',
      rv_attention = []\<rparr> None = ''17.0''"
    by (simp add: dispatch_version_def)
  show ?thesis
    unfolding build_registry_scan_def Let_def sample_version version sample_found sample_filter option.case sample_sets
      repo_version.select_convs sample_outcomes_eq sum.case sample_readable
    using sample_winners by (simp add: sample_ok_def)
qed

theorem complete_scan_is_tracked_set_witness:
  "\<exists>sc. build_registry_scan sample_checkout None None None None = Inr sc \<and>
    set (present_names (lifecycle_scan sc)) \<union> fst ` set (scan_excluded (lifecycle_scan sc)) =
      module_name_of (co_root sample_checkout) ` sample_tracked"
proof -
  obtain sc where sc: "build_registry_scan sample_checkout None None None None = Inr sc" "sample_ok sc" using sample_scan by blast
  then have "rs_complete sc" "rs_tracked_paths sc = Some sample_tracked" by (simp_all add: sample_ok_def)
  from complete_scan_is_tracked_set [OF sc(1) this] sc(1) show ?thesis by blast
qed

theorem registry_winner_witness:
  "\<exists>sc. build_registry_scan sample_checkout None None None None = Inr sc \<and>
    length (shadows (rs_shadowed sc) ''sale'') + 1 = card (copies sample_checkout sc ''sale'')"
proof -
  obtain sc where sc: "build_registry_scan sample_checkout None None None None = Inr sc" "sample_ok sc" using sample_scan by blast
  obtain ms where ms: "rs_modules sc = [(''17.0'', ms)]" "map fst ms = [''sale'']"
  proof -
    have "map fst (rs_modules sc) = [''17.0'']" "map fst (snd (hd (rs_modules sc))) = [''sale'']"
      using sc(2) unfolding sample_ok_def by simp_all
    then show thesis using that by (cases "rs_modules sc") auto
  qed
  then obtain i where "ms = [(''sale'', i)]" by auto
  with ms(1) have "(''17.0'', ms) \<in> set (rs_modules sc)" "(''sale'', i) \<in> set ms" by simp_all
  from conjunct1 [OF registry_winner [OF sc(1) this]] sc(1) show ?thesis by blast
qed

end
