(* ===== verification/Ledger.thy ===== *)
theory Ledger
  imports Effects Py_Strings "HOL-Library.Product_Lexorder"
begin

section \<open>The module presence ledger (src/db/module_presence.py)\<close>

text \<open>
  The table \<open>module_presence\<close>, the table of pending rewrites, the lifecycle columns of
  \<open>repos\<close>, and every operation of \<open>ModulePresenceStore\<close> that writes them, with the reads
  the indexer decides on. A store method is one transaction under the advisory lock of its
  versions, so it runs alone and commits or leaves the tables as they were (\<open>tx\<close>); waiting
  for the lock, whose timeout raises before anything is read, is left out. The constraints
  are those of migrations/0003, 0006 and 0007; the two flags of the state say whether the latter two are
  applied, which the code probes. A violated constraint is the error \<open>Check_violation\<close>. State,
  reasons and successor sources are the \<^verbatim>\<open>Literal\<close> types of the code, so the checks of
  those values hold by type. Times are integers; \<open>now\<close> is the time of the transaction and
  \<open>clk\<close> the wall clock. The statement that writes pending rewrites reads the wall clock once per
  row it selects, which matters to its \<^verbatim>\<open>DISTINCT\<close>: there \<open>ticks\<close> gives the readings.
\<close>

subsection \<open>Tables\<close>

datatype mstate = St_present | St_excluded | St_retired
datatype exclusion_reason = Installable_false | License_skip | Unparseable
datatype retire_reason = Absent | Repo_removed | Orphan_sweep
datatype successor_source = Git_rename | Git_merge | Old_technical_name
datatype ledger_error = Value_error | Repo_not_found | Check_violation | Cardinality_violation

record presence =
  p_id :: int
  p_repo_id :: "int option"
  p_repo_url :: string
  p_repo_basename :: string
  p_repo_branch :: string
  p_profile_name :: string
  p_odoo_version :: string
  p_name :: string
  p_path :: string
  p_manifest_file :: string
  p_shadowed_paths :: "string list"
  p_state :: mstate
  p_exclusion_reason :: "exclusion_reason option"
  p_retire_reason :: "retire_reason option"
  p_retire_pending :: bool
  p_retire_pending_reason :: "retire_reason option"
  p_retire_pending_at :: "int option"
  p_retire_blocked_by :: "string option"
  p_needs_rewrite :: bool
  p_needs_rewrite_at :: "int option"
  p_version_raw :: "string option"
  p_version_mismatch :: bool
  p_first_seen_sha :: string
  p_first_seen_at :: int
  p_last_seen_sha :: string
  p_last_seen_at :: int
  p_state_changed_sha :: "string option"
  p_state_changed_at :: "int option"
  p_removing_sha :: "string option"
  p_removing_date :: "int option"
  p_removing_subject :: "string option"
  p_successor_names :: "string list option"
  p_successor_source :: "successor_source option"
  p_resurrection_count :: int
  p_updated_at :: int
  p_full_parse_at :: "int option"
  p_full_parse_sha :: "string option"
  p_full_parse_unobserved :: "string list"
  p_full_parse_embedded_at :: "int option"
  p_full_parse_run :: "string option"

record repo =
  r_id :: int
  r_url :: string
  r_branch :: string
  r_local_path :: string
  r_profile_name :: string
  r_profile_version :: string
  r_head_sha :: "string option"
  r_presence_head_sha :: "string option"
  r_attention :: "string option"
  r_attention_at :: "int option"

record ledger =
  l_rows :: "presence list"
  l_next_id :: int
  l_pending :: "((string \<times> int \<times> string) \<times> int) list"
  l_repos :: "repo list"
  l_merge_ok :: bool
  l_stamps_ok :: bool

type_synonym 'a lm = "(ledger, ledger_error, 'a) em"

definition row_ok :: "bool \<Rightarrow> presence \<Rightarrow> bool" where
  "row_ok merge_ok r \<longleftrightarrow>
     (p_state r = St_excluded \<longleftrightarrow> p_exclusion_reason r \<noteq> None) \<and>
     (p_state r = St_retired \<longleftrightarrow> p_retire_reason r \<noteq> None) \<and>
     \<not> (p_retire_pending r \<and> p_state r = St_retired) \<and>
     (p_retire_pending r \<longleftrightarrow> p_retire_pending_reason r \<noteq> None) \<and>
     (p_successor_source r = Some Git_merge \<longrightarrow> merge_ok) \<and>
     (p_successor_names r = None \<longleftrightarrow> p_successor_source r = None) \<and>
     p_resurrection_count r \<ge> 0"

definition row_key :: "presence \<Rightarrow> (int \<times> string) option" where
  "row_key r = map_option (\<lambda>i. (i, p_name r)) (p_repo_id r)"

definition unique_rows :: "presence list \<Rightarrow> bool" where
  "unique_rows rows \<longleftrightarrow> distinct (map p_id rows) \<and> distinct (filter (\<lambda>k. k \<noteq> None) (map row_key rows))"

definition rows_ok :: "bool \<Rightarrow> presence list \<Rightarrow> bool" where
  "rows_ok merge_ok rows \<longleftrightarrow> list_all (row_ok merge_ok) rows \<and> unique_rows rows"

definition tx :: "'a lm \<Rightarrow> 'a lm" where
  "tx op = (\<lambda>l. case op l of (Inl e, _) \<Rightarrow> (Inl e, l) | (Inr a, l') \<Rightarrow> (Inr a, l'))"

definition update_rows :: "(presence \<Rightarrow> bool) \<Rightarrow> (presence \<Rightarrow> presence) \<Rightarrow> presence list lm" where
  "update_rows P f = (\<lambda>l.
     let rows = map (\<lambda>r. if P r then f r else r) (l_rows l)
     in if rows_ok (l_merge_ok l) rows then (Inr (map f (filter P (l_rows l))), l\<lparr>l_rows := rows\<rparr>)
        else (Inl Check_violation, l))"

subsection \<open>Value objects\<close>

record observed_module =
  o_name :: string
  o_path :: string
  o_manifest_file :: string
  o_state :: mstate
  o_exclusion_reason :: "exclusion_reason option"
  o_version_raw :: "string option"
  o_version_mismatch :: bool
  o_shadowed_paths :: "string list"

definition observed_post_init :: "observed_module \<Rightarrow> ledger_error + observed_module" where
  "observed_post_init o1 =
     (if o_name o1 = [] then Inl Value_error
      else case o_state o1 of
        St_present \<Rightarrow> if o_exclusion_reason o1 \<noteq> None then Inl Value_error else Inr o1
      | St_excluded \<Rightarrow> if o_exclusion_reason o1 = None then Inl Value_error else Inr o1
      | St_retired \<Rightarrow> Inl Value_error)"

record retire_evidence =
  ev_sha :: "string option"
  ev_date :: "int option"
  ev_subject :: "string option"

record successor_info =
  su_names :: "string list"
  su_source :: successor_source

definition successor_post_init :: "successor_info \<Rightarrow> ledger_error + successor_info" where
  "successor_post_init su =
     (let names = filter (\<lambda>n. n \<noteq> []) (su_names su)
      in if names = [] then Inl Value_error else Inr (su\<lparr>su_names := names\<rparr>))"

definition storable_successor :: "ledger \<Rightarrow> successor_info option \<Rightarrow> successor_info option" where
  "storable_successor l su =
     (case su of
        None \<Rightarrow> None
      | Some s \<Rightarrow> if su_source s \<noteq> Git_merge \<or> l_merge_ok l then Some s else None)"

definition find_repo :: "ledger \<Rightarrow> int \<Rightarrow> repo option" where
  "find_repo l i = find (\<lambda>r. r_id r = i) (l_repos l)"

text \<open>The last component of the path after its trailing slashes are cut.\<close>

definition local_basename :: "string \<Rightarrow> string" where
  "local_basename p = last (split_on (CHR ''/'') (rev (dropWhile (\<lambda>c. c = CHR ''/'') (rev p))))"

subsection \<open>Observation\<close>

definition index_observed :: "observed_module list \<Rightarrow> observed_module list option" where
  "index_observed obs = (if distinct (map o_name obs) then Some (sort_key o_name obs) else None)"

definition repo_rows :: "ledger \<Rightarrow> int \<Rightarrow> presence list" where
  "repo_rows l i = filter (\<lambda>r. p_repo_id r = Some i) (l_rows l)"

definition row_of :: "ledger \<Rightarrow> int \<Rightarrow> string \<Rightarrow> presence option" where
  "row_of l i n = find (\<lambda>r. p_repo_id r = Some i \<and> p_name r = n) (l_rows l)"

record presence_diff =
  d_never_synced :: bool
  d_n_present_before :: nat
  d_added :: "string list"
  d_resurrected :: "string list"
  d_became_present :: "string list"
  d_became_excluded :: "(string \<times> exclusion_reason option) list"
  d_reason_changed :: "string list"
  d_unchanged :: "string list"
  d_moved :: "(string \<times> string \<times> string) list"
  d_absent :: "(string \<times> mstate) list"
  d_already_pending :: "string list"
  d_pending_cleared :: "string list"

datatype change = Added | Resurrected | Became_present | Became_excluded | Reason_changed | Unchanged

definition change_of :: "ledger \<Rightarrow> int \<Rightarrow> observed_module \<Rightarrow> change" where
  "change_of l i o1 =
     (case row_of l i (o_name o1) of
        None \<Rightarrow> Added
      | Some row \<Rightarrow>
          if p_state row = St_retired then Resurrected
          else if p_state row = St_present \<and> o_state o1 = St_excluded then Became_excluded
          else if p_state row = St_excluded \<and> o_state o1 = St_present then Became_present
          else if p_state row = St_excluded \<and> p_exclusion_reason row \<noteq> o_exclusion_reason o1 then Reason_changed
          else Unchanged)"

definition names_with :: "change \<Rightarrow> ledger \<Rightarrow> int \<Rightarrow> observed_module list \<Rightarrow> string list" where
  "names_with c l i obs = map o_name (filter (\<lambda>o1. change_of l i o1 = c) obs)"

definition pending_cleared_names :: "ledger \<Rightarrow> int \<Rightarrow> observed_module list \<Rightarrow> string list" where
  "pending_cleared_names l i obs =
     map o_name (filter (\<lambda>o1. case row_of l i (o_name o1) of None \<Rightarrow> False | Some r \<Rightarrow> p_retire_pending r) obs)"

definition ledger_diff :: "int \<Rightarrow> observed_module list \<Rightarrow> presence_diff lm" where
  "ledger_diff i observed = (\<lambda>l.
     (case index_observed observed of
        None \<Rightarrow> (Inl Value_error, l)
      | Some obs \<Rightarrow>
          (case find_repo l i of
             None \<Rightarrow> (Inl Repo_not_found, l)
           | Some repo \<Rightarrow>
               let absent_rows = filter (\<lambda>r. p_state r \<noteq> St_retired \<and> p_name r \<notin> o_name ` set obs) (sort_key p_name (repo_rows l i))
               in (Inr \<lparr>d_never_synced = (r_presence_head_sha repo = None \<and> repo_rows l i = []),
                     d_n_present_before = length (filter (\<lambda>r. p_state r = St_present) (repo_rows l i)),
                     d_added = names_with Added l i obs, d_resurrected = names_with Resurrected l i obs,
                     d_became_present = names_with Became_present l i obs,
                     d_became_excluded = map (\<lambda>o1. (o_name o1, o_exclusion_reason o1)) (filter (\<lambda>o1. change_of l i o1 = Became_excluded) obs),
                     d_reason_changed = names_with Reason_changed l i obs, d_unchanged = names_with Unchanged l i obs,
                     d_moved = concat (map (\<lambda>o1. case row_of l i (o_name o1) of None \<Rightarrow> []
                        | Some r \<Rightarrow> if p_path r \<noteq> o_path o1 then [(o_name o1, p_path r, o_path o1)] else []) obs),
                     d_absent = map (\<lambda>r. (p_name r, p_state r)) absent_rows,
                     d_already_pending = map p_name (filter p_retire_pending absent_rows),
                     d_pending_cleared = pending_cleared_names l i obs\<rparr>, l))))"

definition proposed_row :: "int \<Rightarrow> repo \<Rightarrow> string \<Rightarrow> string \<Rightarrow> string \<Rightarrow> int \<Rightarrow> observed_module \<Rightarrow> presence" where
  "proposed_row new_id repo profile version head_sha now o1 =
     \<lparr>p_id = new_id, p_repo_id = Some (r_id repo), p_repo_url = r_url repo, p_repo_basename = local_basename (r_local_path repo),
      p_repo_branch = r_branch repo, p_profile_name = profile, p_odoo_version = version, p_name = o_name o1, p_path = o_path o1,
      p_manifest_file = o_manifest_file o1, p_shadowed_paths = o_shadowed_paths o1, p_state = o_state o1,
      p_exclusion_reason = o_exclusion_reason o1, p_retire_reason = None, p_retire_pending = False, p_retire_pending_reason = None,
      p_retire_pending_at = None, p_retire_blocked_by = None, p_needs_rewrite = False, p_needs_rewrite_at = None,
      p_version_raw = o_version_raw o1, p_version_mismatch = o_version_mismatch o1, p_first_seen_sha = head_sha, p_first_seen_at = now,
      p_last_seen_sha = head_sha, p_last_seen_at = now, p_state_changed_sha = Some head_sha, p_state_changed_at = Some now,
      p_removing_sha = None, p_removing_date = None, p_removing_subject = None, p_successor_names = None, p_successor_source = None,
      p_resurrection_count = 0, p_updated_at = now, p_full_parse_at = None, p_full_parse_sha = None, p_full_parse_unobserved = [],
      p_full_parse_embedded_at = None, p_full_parse_run = None\<rparr>"

definition clear_parse :: "presence \<Rightarrow> presence" where
  "clear_parse r = r\<lparr>p_full_parse_at := None, p_full_parse_sha := None, p_full_parse_unobserved := [],
     p_full_parse_embedded_at := None, p_full_parse_run := None\<rparr>"

definition merge_row :: "presence \<Rightarrow> presence \<Rightarrow> presence" where
  "merge_row new old =
     (let state_moved = (p_state old \<noteq> p_state new \<or> p_exclusion_reason old \<noteq> p_exclusion_reason new);
          parse_stale = (p_state old \<noteq> p_state new \<or> p_path old \<noteq> p_path new);
          base = (if parse_stale then clear_parse old else old)
      in base\<lparr>p_repo_url := p_repo_url new, p_repo_basename := p_repo_basename new, p_repo_branch := p_repo_branch new,
          p_profile_name := p_profile_name new, p_odoo_version := p_odoo_version new, p_path := p_path new,
          p_manifest_file := p_manifest_file new, p_shadowed_paths := p_shadowed_paths new, p_version_raw := p_version_raw new,
          p_version_mismatch := p_version_mismatch new, p_last_seen_sha := p_last_seen_sha new, p_last_seen_at := p_last_seen_at new,
          p_state_changed_sha := (if state_moved then p_state_changed_sha new else p_state_changed_sha old),
          p_state_changed_at := (if state_moved then p_state_changed_at new else p_state_changed_at old),
          p_resurrection_count := p_resurrection_count old + (if p_state old = St_retired then 1 else 0),
          p_state := p_state new, p_exclusion_reason := p_exclusion_reason new, p_retire_reason := None,
          p_retire_pending := False, p_retire_pending_reason := None, p_retire_pending_at := None, p_retire_blocked_by := None,
          p_removing_sha := None, p_removing_date := None, p_removing_subject := None, p_successor_names := None,
          p_successor_source := None, p_needs_rewrite := (if p_state new = St_present then p_needs_rewrite old else False),
          p_updated_at := p_updated_at new\<rparr>)"

text \<open>One row of the \<^verbatim>\<open>INSERT ... ON CONFLICT (repo_id, name) DO UPDATE\<close>: the serial number is
  drawn and the proposed row is checked in either case.\<close>

definition upsert_row :: "(int \<Rightarrow> presence) \<Rightarrow> unit lm" where
  "upsert_row proposed = (\<lambda>l.
     let new = proposed (l_next_id l);
         l1 = l\<lparr>l_next_id := l_next_id l + 1\<rparr>;
         same = (\<lambda>r. p_repo_id r = p_repo_id new \<and> p_repo_id r \<noteq> None \<and> p_name r = p_name new)
     in if \<not> row_ok (l_merge_ok l) new then (Inl Check_violation, l1)
        else if list_ex same (l_rows l)
        then (case update_rows same (merge_row new) l1 of (Inl e, l2) \<Rightarrow> (Inl e, l2) | (Inr _, l2) \<Rightarrow> (Inr (), l2))
        else if rows_ok (l_merge_ok l) (l_rows l @ [new]) then (Inr (), l1\<lparr>l_rows := l_rows l @ [new]\<rparr>)
        else (Inl Check_violation, l1))"

record commit_result =
  c_inserted :: "string list"
  c_resurrected :: "string list"
  c_state_changed :: "string list"
  c_pending_cleared :: "string list"

definition commit_report :: "ledger \<Rightarrow> int \<Rightarrow> observed_module list \<Rightarrow> commit_result" where
  "commit_report l i obs =
     \<lparr>c_inserted = map o_name (filter (\<lambda>o1. row_of l i (o_name o1) = None) obs),
      c_resurrected = map o_name (filter (\<lambda>o1. case row_of l i (o_name o1) of None \<Rightarrow> False | Some r \<Rightarrow> p_state r = St_retired) obs),
      c_state_changed = map o_name (filter (\<lambda>o1. case row_of l i (o_name o1) of None \<Rightarrow> False
         | Some r \<Rightarrow> p_state r \<noteq> St_retired \<and> (p_state r, p_exclusion_reason r) \<noteq> (o_state o1, o_exclusion_reason o1)) obs),
      c_pending_cleared = pending_cleared_names l i obs\<rparr>"

definition commit_observed :: "int \<Rightarrow> string \<Rightarrow> string \<Rightarrow> string \<Rightarrow> observed_module list \<Rightarrow> int \<Rightarrow> commit_result lm" where
  "commit_observed i profile version head_sha observed now = tx (\<lambda>l.
     (case index_observed observed of
        None \<Rightarrow> (Inl Value_error, l)
      | Some obs \<Rightarrow>
          if profile = [] then (Inl Value_error, l)
          else if obs = [] then (Inr \<lparr>c_inserted = [], c_resurrected = [], c_state_changed = [], c_pending_cleared = []\<rparr>, l)
          else (case find_repo l i of
             None \<Rightarrow> (Inl Repo_not_found, l)
           | Some repo \<Rightarrow>
               (case for_each obs () (\<lambda>o1 _. upsert_row (\<lambda>new_id. proposed_row new_id repo profile version head_sha now o1)) l of
                  (Inl e, l') \<Rightarrow> (Inl e, l')
                | (Inr _, l') \<Rightarrow> (Inr (commit_report l i obs), l')))))"

subsection \<open>Retirement\<close>

definition coalesce :: "'a option \<Rightarrow> 'a option \<Rightarrow> 'a option" where
  "coalesce a b = (case a of None \<Rightarrow> b | Some _ \<Rightarrow> a)"

definition set_evidence :: "retire_evidence \<Rightarrow> presence \<Rightarrow> presence" where
  "set_evidence ev r = r\<lparr>p_removing_sha := coalesce (ev_sha ev) (p_removing_sha r),
     p_removing_date := coalesce (ev_date ev) (p_removing_date r),
     p_removing_subject := coalesce (ev_subject ev) (p_removing_subject r)\<rparr>"

definition set_successor :: "successor_info \<Rightarrow> presence \<Rightarrow> presence" where
  "set_successor su r = r\<lparr>p_successor_names := Some (su_names su), p_successor_source := Some (su_source su)\<rparr>"

definition store_evidence :: "(presence \<Rightarrow> bool) \<Rightarrow> retire_evidence option \<Rightarrow> successor_info option \<Rightarrow> unit lm" where
  "store_evidence P ev su =
     seqE (case ev of None \<Rightarrow> ret () | Some e \<Rightarrow> bindE (update_rows P (set_evidence e)) (\<lambda>_. ret ()))
       (case su of None \<Rightarrow> ret () | Some s \<Rightarrow> bindE (update_rows P (set_successor s)) (\<lambda>_. ret ()))"

definition is_row :: "int \<Rightarrow> string \<Rightarrow> presence \<Rightarrow> bool" where
  "is_row i n r \<longleftrightarrow> p_repo_id r = Some i \<and> p_name r = n"

definition flag_pending :: "retire_reason \<Rightarrow> string option \<Rightarrow> int \<Rightarrow> presence \<Rightarrow> presence" where
  "flag_pending reason blocked_by now r =
     r\<lparr>p_retire_pending := True, p_retire_pending_reason := Some reason,
       p_retire_pending_at := coalesce (p_retire_pending_at r) (Some now), p_retire_blocked_by := blocked_by, p_updated_at := now\<rparr>"

definition mark_retire_pending ::
  "int \<Rightarrow> string list \<Rightarrow> retire_reason \<Rightarrow> (string \<rightharpoonup> retire_evidence) \<Rightarrow> (string \<rightharpoonup> successor_info) \<Rightarrow> string option \<Rightarrow> int \<Rightarrow>
     string list lm" where
  "mark_retire_pending i names reason evidence successors blocked_by now =
     (if names = [] then ret []
      else tx (bindE (update_rows (\<lambda>r. p_repo_id r = Some i \<and> p_name r \<in> set names \<and> p_state r \<noteq> St_retired)
                       (flag_pending reason blocked_by now)) (\<lambda>rows.
             let flagged = sort (map p_name rows)
             in seqE (for_each flagged () (\<lambda>n _. bindE (gets (\<lambda>l. storable_successor l (successors n)))
                        (\<lambda>su. store_evidence (is_row i n) (evidence n) su)))
                  (ret flagged))))"

definition mark_retire_blocked :: "int list \<Rightarrow> string option \<Rightarrow> int \<Rightarrow> nat lm" where
  "mark_retire_blocked ids blocked_by now =
     (if ids = [] then ret 0
      else tx (bindE (update_rows (\<lambda>r. p_id r \<in> set ids \<and> p_retire_pending r)
                 (\<lambda>r. r\<lparr>p_retire_blocked_by := blocked_by, p_updated_at := now\<rparr>)) (\<lambda>rows. ret (length rows))))"

definition retire_row :: "retire_reason option \<Rightarrow> string option \<Rightarrow> int \<Rightarrow> presence \<Rightarrow> presence" where
  "retire_row reason head_sha now r =
     r\<lparr>p_state := St_retired, p_retire_reason := coalesce reason (coalesce (p_retire_pending_reason r) (Some Absent)),
       p_exclusion_reason := None, p_retire_pending := False, p_retire_pending_reason := None, p_retire_pending_at := None,
       p_retire_blocked_by := None, p_needs_rewrite := False, p_state_changed_sha := head_sha, p_state_changed_at := Some now,
       p_updated_at := now\<rparr>"

definition commit_retired ::
  "int option \<Rightarrow> string \<Rightarrow> retire_reason option \<Rightarrow> retire_evidence option \<Rightarrow> successor_info option \<Rightarrow> string option \<Rightarrow> int option \<Rightarrow> int \<Rightarrow>
     bool lm" where
  "commit_retired repo_id n reason evidence successor head_sha row_id now =
     (if repo_id = None \<and> row_id = None then raise_exc Value_error
      else bindE (gets (\<lambda>l. find (\<lambda>r. (case repo_id of Some i \<Rightarrow> p_repo_id r = Some i | None \<Rightarrow> Some (p_id r) = row_id) \<and> p_name r = n) (l_rows l)))
        (\<lambda>target. case target of
           None \<Rightarrow> ret False
         | Some t \<Rightarrow>
             tx (bindE (gets (\<lambda>l. storable_successor l successor)) (\<lambda>su.
                 bindE (update_rows (\<lambda>r. p_id r = p_id t \<and> p_state r \<noteq> St_retired) (retire_row reason head_sha now)) (\<lambda>rows.
                   if rows = [] then ret False
                   else seqE (store_evidence (\<lambda>r. p_id r = p_id t) evidence su) (ret True))))))"

definition mark_repo_removed :: "int \<Rightarrow> int \<Rightarrow> (int \<times> string \<times> string) list lm" where
  "mark_repo_removed i now =
     tx (bindE (update_rows (\<lambda>r. p_repo_id r = Some i \<and> p_state r \<noteq> St_retired)
            (\<lambda>r. (flag_pending Repo_removed None now r)\<lparr>p_needs_rewrite := False\<rparr>))
          (\<lambda>rows. ret (map (\<lambda>r. (p_id r, p_name r, p_odoo_version r)) (sort_key (\<lambda>r. (p_odoo_version r, p_name r)) rows))))"

text \<open>\<^verbatim>\<open>DELETE FROM repos\<close>: the foreign keys keep the history and drop the pending rewrites.\<close>

definition delete_repo_row :: "int \<Rightarrow> unit lm" where
  "delete_repo_row i = modify (\<lambda>l. l\<lparr>l_repos := filter (\<lambda>r. r_id r \<noteq> i) (l_repos l),
     l_rows := map (\<lambda>r. if p_repo_id r = Some i then r\<lparr>p_repo_id := None\<rparr> else r) (l_rows l),
     l_pending := filter (\<lambda>e. fst (snd (fst e)) \<noteq> i) (l_pending l)\<rparr>)"

definition orphan_row ::
  "int \<Rightarrow> repo \<Rightarrow> string \<Rightarrow> string \<Rightarrow> string \<Rightarrow> string \<Rightarrow> string \<Rightarrow> string \<Rightarrow> int \<Rightarrow> retire_evidence option \<Rightarrow> successor_info option \<Rightarrow>
     string option \<Rightarrow> int \<Rightarrow> presence" where
  "orphan_row new_id repo n profile version path manifest_file last_seen_sha last_seen_at evidence su head_sha now =
     (proposed_row new_id repo profile version last_seen_sha last_seen_at
        \<lparr>o_name = n, o_path = path, o_manifest_file = manifest_file, o_state = St_retired, o_exclusion_reason = None,
         o_version_raw = None, o_version_mismatch = False, o_shadowed_paths = []\<rparr>)
     \<lparr>p_retire_reason := Some Orphan_sweep, p_state_changed_sha := head_sha, p_state_changed_at := Some now,
      p_removing_sha := (case evidence of None \<Rightarrow> None | Some e \<Rightarrow> ev_sha e),
      p_removing_date := (case evidence of None \<Rightarrow> None | Some e \<Rightarrow> ev_date e),
      p_removing_subject := (case evidence of None \<Rightarrow> None | Some e \<Rightarrow> ev_subject e),
      p_successor_names := map_option su_names su, p_successor_source := map_option su_source su, p_updated_at := now\<rparr>"

definition record_orphan_retired ::
  "int \<Rightarrow> string \<Rightarrow> string \<Rightarrow> string \<Rightarrow> string \<Rightarrow> string \<Rightarrow> string \<Rightarrow> int \<Rightarrow> retire_evidence option \<Rightarrow> successor_info option \<Rightarrow>
     string option \<Rightarrow> int \<Rightarrow> bool lm" where
  "record_orphan_retired i n profile version path manifest_file last_seen_sha last_seen_at evidence successor head_sha now = tx (\<lambda>l.
     if profile = [] then (Inl Value_error, l)
     else case find_repo l i of
       None \<Rightarrow> (Inl Repo_not_found, l)
     | Some repo \<Rightarrow>
         let new = orphan_row (l_next_id l) repo n profile version path manifest_file last_seen_sha last_seen_at evidence
               (storable_successor l successor) head_sha now;
             l1 = l\<lparr>l_next_id := l_next_id l + 1\<rparr>
         in if \<not> row_ok (l_merge_ok l) new then (Inl Check_violation, l1)
            else if row_of l i n \<noteq> None then (Inr False, l1)
            else if rows_ok (l_merge_ok l) (l_rows l @ [new]) then (Inr True, l1\<lparr>l_rows := l_rows l @ [new]\<rparr>)
            else (Inl Check_violation, l1))"

definition record_successor :: "int \<Rightarrow> successor_info \<Rightarrow> int \<Rightarrow> bool lm" where
  "record_successor row_id successor now =
     bindE (gets (\<lambda>l. (find (\<lambda>r. p_id r = row_id) (l_rows l), storable_successor l (Some successor)))) (\<lambda>(target, stored).
       case target of
         None \<Rightarrow> ret False
       | Some t \<Rightarrow>
           (case stored of
              None \<Rightarrow> ret False
            | Some su \<Rightarrow>
                tx (bindE (update_rows (\<lambda>r. p_id r = row_id \<and> p_state r = St_retired \<and> p_successor_names r = None)
                       (\<lambda>r. (set_successor su r)\<lparr>p_updated_at := now\<rparr>)) (\<lambda>rows. ret (length rows = 1)))))"

subsection \<open>Parse records\<close>

record parse_stamp =
  ps_parsed_at :: int
  ps_head_sha :: "string option"
  ps_run_token :: "string option"
  ps_embedded_at :: "int option"
  ps_embedded :: "string list"

definition record_full_parses :: "int \<Rightarrow> string \<Rightarrow> (string \<times> string list) list \<Rightarrow> parse_stamp \<Rightarrow> int \<Rightarrow> nat lm" where
  "record_full_parses i version parses stamp now =
     (if parses = [] then ret 0
      else tx (bindE (update_rows (\<lambda>r. p_repo_id r = Some i \<and> p_odoo_version r = version \<and> p_name r \<in> fst ` set parses \<and> p_state r = St_present)
             (\<lambda>r. r\<lparr>p_full_parse_at := Some (ps_parsed_at stamp), p_full_parse_sha := ps_head_sha stamp,
                    p_full_parse_run := ps_run_token stamp,
                    p_full_parse_unobserved := (case map_of parses (p_name r) of None \<Rightarrow> [] | Some u \<Rightarrow> sort (remdups u)),
                    p_full_parse_embedded_at := (if p_name r \<in> set (ps_embedded stamp) then ps_embedded_at stamp else None),
                    p_updated_at := now\<rparr>)) (\<lambda>rows. ret (length rows))))"

definition clear_full_parses :: "int \<Rightarrow> string \<Rightarrow> string list \<Rightarrow> int \<Rightarrow> nat lm" where
  "clear_full_parses i version names now =
     (if names = [] then ret 0
      else tx (bindE (update_rows (\<lambda>r. p_repo_id r = Some i \<and> p_odoo_version r = version \<and> p_name r \<in> set names \<and> p_full_parse_at r \<noteq> None)
             (\<lambda>r. (clear_parse r)\<lparr>p_updated_at := now\<rparr>)) (\<lambda>rows. ret (length rows))))"

subsection \<open>Rewrite flags\<close>

definition flag_rewrite :: "bool \<Rightarrow> int \<Rightarrow> int \<Rightarrow> presence \<Rightarrow> presence" where
  "flag_rewrite stamps clk now r =
     r\<lparr>p_needs_rewrite := True, p_needs_rewrite_at := (if stamps then Some clk else p_needs_rewrite_at r), p_updated_at := now\<rparr>"

definition mark_needs_rewrite :: "int \<Rightarrow> string \<Rightarrow> int \<Rightarrow> int \<Rightarrow> bool lm" where
  "mark_needs_rewrite i n clk now =
     bindE (gets l_stamps_ok) (\<lambda>stamps.
       tx (bindE (update_rows (\<lambda>r. p_repo_id r = Some i \<and> p_name r = n \<and> p_state r = St_present) (flag_rewrite stamps clk now))
            (\<lambda>rows. ret (rows \<noteq> []))))"

text \<open>The pending table, and the rows that \<^verbatim>\<open>INSERT ... SELECT DISTINCT ... ON CONFLICT DO UPDATE\<close>
  selects for it: one per pair and per ledger row of a repository of that basename, each with its own
  reading of the clock. PostgreSQL raises a cardinality violation when two of the distinct rows have one key.\<close>

definition put_pending :: "(string \<times> int \<times> string) \<times> int \<Rightarrow> ((string \<times> int \<times> string) \<times> int) list \<Rightarrow> ((string \<times> int \<times> string) \<times> int) list" where
  "put_pending e pend =
     (if fst e \<in> keys pend then map (\<lambda>d. if fst d = fst e then e else d) pend else pend @ [e])"

definition pending_keys :: "ledger \<Rightarrow> string \<Rightarrow> (string \<times> string) list \<Rightarrow> int list \<Rightarrow> (string \<times> int \<times> string) list" where
  "pending_keys l version pairs excluded =
     concat (map (\<lambda>(b, n).
       concat (map (\<lambda>owner.
         if p_odoo_version owner = version \<and> p_repo_basename owner = b
         then (case p_repo_id owner of
                 None \<Rightarrow> []
               | Some i \<Rightarrow> if i \<notin> set excluded \<and> \<not> list_ex (\<lambda>r. is_row i n r \<and> p_state r = St_present) (l_rows l) then [(version, i, n)] else [])
         else []) (l_rows l))) pairs)"

definition pending_entries :: "(nat \<Rightarrow> int) \<Rightarrow> (string \<times> int \<times> string) list \<Rightarrow> ((string \<times> int \<times> string) \<times> int) list" where
  "pending_entries ticks ks = remdups (map (\<lambda>(j, k). (k, ticks (Suc j))) (List.enumerate 0 ks))"

definition PENDING_TTL :: int where
  "PENDING_TTL = 30 * 24 * 3600"

definition insert_pending :: "string \<Rightarrow> (string \<times> string) list \<Rightarrow> int list \<Rightarrow> (nat \<Rightarrow> int) \<Rightarrow> int \<Rightarrow> nat lm" where
  "insert_pending version pairs excluded ticks now = (\<lambda>l.
     let kept = filter (\<lambda>e. \<not> snd e < now - PENDING_TTL) (l_pending l);
         es = pending_entries ticks (pending_keys l version pairs excluded)
     in if distinct (map fst es) then (Inr (length es), l\<lparr>l_pending := fold put_pending es kept\<rparr>)
        else (Inl Cardinality_violation, l))"

definition flag_dependents ::
  "string \<Rightarrow> string list \<Rightarrow> (string \<times> string) list \<Rightarrow> int list \<Rightarrow> (nat \<Rightarrow> int) \<Rightarrow> int \<Rightarrow> ((int \<times> string) list \<times> nat) lm" where
  "flag_dependents version names pending excluded ticks now =
     (let pairs = sort (remdups (filter (\<lambda>(b, n). b \<noteq> [] \<and> n \<noteq> []) pending))
      in if names = [] \<and> pairs = [] then ret ([], 0)
         else bindE (gets l_stamps_ok) (\<lambda>stamps.
           tx (bindE (if names = [] then ret []
                 else update_rows (\<lambda>r. p_odoo_version r = version \<and> p_name r \<in> set names \<and> p_state r = St_present \<and>
                        (case p_repo_id r of None \<Rightarrow> False | Some i \<Rightarrow> i \<notin> set excluded)) (flag_rewrite stamps (ticks 0) now)) (\<lambda>rows.
             bindE (if stamps \<and> pairs \<noteq> [] then insert_pending version pairs excluded ticks now else ret 0) (\<lambda>written.
               ret (sort (map (\<lambda>r. (the (p_repo_id r), p_name r)) rows), written))))))"

definition mark_dependents_needs_rewrite :: "string \<Rightarrow> string list \<Rightarrow> int list \<Rightarrow> (nat \<Rightarrow> int) \<Rightarrow> int \<Rightarrow> (int \<times> string) list lm" where
  "mark_dependents_needs_rewrite version names excluded ticks now =
     bindE (flag_dependents version names [] excluded ticks now) (\<lambda>(pairs, _). ret pairs)"

definition record_pending_rewrites :: "string \<Rightarrow> (string \<times> string) list \<Rightarrow> int list \<Rightarrow> (nat \<Rightarrow> int) \<Rightarrow> int \<Rightarrow> nat lm" where
  "record_pending_rewrites version dependents excluded ticks now =
     bindE (flag_dependents version [] dependents excluded ticks now) (\<lambda>(_, written). ret written)"

definition repo_ids_without_rows :: "ledger \<Rightarrow> int list \<Rightarrow> string \<Rightarrow> int list" where
  "repo_ids_without_rows l ids version =
     filter (\<lambda>i. \<not> list_ex (\<lambda>r. p_repo_id r = Some i \<and> p_odoo_version r = version) (l_rows l)) (sort (remdups ids))"

definition needs_rewrite_names :: "ledger \<Rightarrow> int \<Rightarrow> string list" where
  "needs_rewrite_names l i = sort (map p_name (filter p_needs_rewrite (repo_rows l i)))"

definition needs_rewrite_snapshot :: "ledger \<Rightarrow> int \<Rightarrow> int \<Rightarrow> string list \<times> int option" where
  "needs_rewrite_snapshot l i clk = (needs_rewrite_names l i, if l_stamps_ok l then Some clk else None)"

definition clear_needs_rewrite :: "int \<Rightarrow> string list \<Rightarrow> int option \<Rightarrow> int \<Rightarrow> nat lm" where
  "clear_needs_rewrite i names read_at now =
     (if names = [] then ret 0
      else bindE (gets l_stamps_ok) (\<lambda>stamps.
        tx (bindE (update_rows (\<lambda>r. p_repo_id r = Some i \<and> p_name r \<in> set names \<and> p_needs_rewrite r \<and>
                 (case read_at of
                    None \<Rightarrow> True
                  | Some t \<Rightarrow> \<not> stamps \<or> (case p_needs_rewrite_at r of None \<Rightarrow> True | Some at \<Rightarrow> at \<le> t)))
               (\<lambda>r. r\<lparr>p_needs_rewrite := False, p_updated_at := now,
                       p_needs_rewrite_at := (if stamps then None else p_needs_rewrite_at r)\<rparr>)) (\<lambda>rows. ret (length rows)))))"

definition apply_pending_rewrites :: "int \<Rightarrow> string \<Rightarrow> string list \<Rightarrow> string list \<Rightarrow> int option \<Rightarrow> int \<Rightarrow> string list lm" where
  "apply_pending_rewrites i version names written read_at now =
     (case read_at of
        None \<Rightarrow> ret []
      | Some t \<Rightarrow>
          if names = [] then ret []
          else bindE (gets (\<lambda>l. (l_stamps_ok l, l_pending l))) (\<lambda>(stamps, pend).
            if \<not> stamps then ret []
            else tx (
              seqE (modify (\<lambda>l. l\<lparr>l_pending := filter (\<lambda>e. \<not> (fst (fst e) = version \<and> fst (snd (fst e)) = i \<and> snd (snd (fst e)) \<in> set names)) (l_pending l)\<rparr>))
                (bindE (update_rows (\<lambda>r. p_repo_id r = Some i \<and> p_odoo_version r = version \<and> p_name r \<in> set names \<and> p_state r = St_present \<and>
                       (case map_of pend (version, i, p_name r) of None \<Rightarrow> False | Some at \<Rightarrow> at > t \<or> p_name r \<notin> set written))
                     (\<lambda>r. r\<lparr>p_needs_rewrite := True,
                        p_needs_rewrite_at := (case map_of pend (version, i, p_name r) of None \<Rightarrow> p_needs_rewrite_at r
                          | Some at \<Rightarrow> Some (case p_needs_rewrite_at r of None \<Rightarrow> at | Some b \<Rightarrow> max b at)),
                        p_updated_at := now\<rparr>)) (\<lambda>rows. ret (sort (map p_name rows)))))))"

definition consume_needs_rewrite :: "int \<Rightarrow> int \<Rightarrow> string list lm" where
  "consume_needs_rewrite i now =
     tx (bindE (update_rows (\<lambda>r. p_repo_id r = Some i \<and> p_needs_rewrite r) (\<lambda>r. r\<lparr>p_needs_rewrite := False, p_updated_at := now\<rparr>))
          (\<lambda>rows. ret (sort (map p_name rows))))"

subsection \<open>Lifecycle columns of the repositories, and renames\<close>

definition update_repo_row :: "int \<Rightarrow> (repo \<Rightarrow> repo) \<Rightarrow> unit lm" where
  "update_repo_row i f = (\<lambda>l.
     if find_repo l i = None then (Inl Repo_not_found, l)
     else (Inr (), l\<lparr>l_repos := map (\<lambda>r. if r_id r = i then f r else r) (l_repos l)\<rparr>))"

definition mark_presence_synced :: "int \<Rightarrow> string \<Rightarrow> unit lm" where
  "mark_presence_synced i head_sha =
     (if head_sha = [] then raise_exc Value_error else update_repo_row i (\<lambda>r. r\<lparr>r_presence_head_sha := Some head_sha\<rparr>))"

definition set_lifecycle_attention :: "int \<Rightarrow> string \<Rightarrow> int \<Rightarrow> unit lm" where
  "set_lifecycle_attention i text now =
     (if text = [] then raise_exc Value_error
      else update_repo_row i (\<lambda>r. r\<lparr>r_attention := Some text, r_attention_at := Some now\<rparr>))"

definition clear_lifecycle_attention :: "int \<Rightarrow> unit lm" where
  "clear_lifecycle_attention i = update_repo_row i (\<lambda>r. r\<lparr>r_attention := None, r_attention_at := None\<rparr>)"

definition rename_profile :: "string \<Rightarrow> string \<Rightarrow> int \<Rightarrow> nat lm" where
  "rename_profile old_name new_name now =
     (if old_name = [] \<or> new_name = [] then raise_exc Value_error
      else if old_name = new_name then ret 0
      else tx (bindE (update_rows (\<lambda>r. p_profile_name r = old_name) (\<lambda>r. r\<lparr>p_profile_name := new_name, p_updated_at := now\<rparr>))
             (\<lambda>rows. ret (length rows))))"

subsection \<open>Reads\<close>

definition pending_retirements :: "ledger \<Rightarrow> string \<Rightarrow> presence list" where
  "pending_retirements l version =
     sort_key (\<lambda>r. (p_name r, p_repo_basename r, p_id r)) (filter (\<lambda>r. p_odoo_version r = version \<and> p_retire_pending r) (l_rows l))"

definition other_present_owners :: "ledger \<Rightarrow> string \<Rightarrow> string \<Rightarrow> int option \<Rightarrow> presence list" where
  "other_present_owners l n version exclude_id =
     sort_key (\<lambda>r. the (p_repo_id r)) (filter (\<lambda>r. p_name r = n \<and> p_odoo_version r = version \<and> p_state r = St_present \<and>
       (case p_repo_id r of None \<Rightarrow> False | Some i \<Rightarrow> exclude_id \<noteq> Some i)) (l_rows l))"

definition names_owned_elsewhere :: "ledger \<Rightarrow> string \<Rightarrow> string list \<Rightarrow> int \<Rightarrow> string set" where
  "names_owned_elsewhere l version names exclude_id =
     set (map p_name (filter (\<lambda>r. p_odoo_version r = version \<and> p_state r = St_present \<and> p_name r \<in> set names \<and>
       (case p_repo_id r of None \<Rightarrow> False | Some i \<Rightarrow> i \<noteq> exclude_id)) (l_rows l)))"

definition shipped_names :: "ledger \<Rightarrow> string \<Rightarrow> string set" where
  "shipped_names l version = set (map p_name (filter (\<lambda>r. p_odoo_version r = version \<and> p_state r \<noteq> St_retired) (l_rows l)))"

definition ledger_present_names :: "ledger \<Rightarrow> string \<Rightarrow> string set" where
  "ledger_present_names l version = set (map p_name (filter (\<lambda>r. p_odoo_version r = version \<and> p_state r = St_present) (l_rows l)))"

definition ledger_excluded_names :: "ledger \<Rightarrow> string \<Rightarrow> exclusion_reason list \<Rightarrow> string set" where
  "ledger_excluded_names l version reasons =
     set (map p_name (filter (\<lambda>r. p_odoo_version r = version \<and> p_state r = St_excluded \<and>
       (case p_exclusion_reason r of None \<Rightarrow> False | Some x \<Rightarrow> x \<in> set reasons)) (l_rows l)))"

definition present_pairs :: "ledger \<Rightarrow> string \<Rightarrow> (string \<times> string) set" where
  "present_pairs l version = set (map (\<lambda>r. (p_name r, p_profile_name r)) (filter (\<lambda>r. p_odoo_version r = version \<and> p_state r = St_present) (l_rows l)))"

text \<open>Live repositories with a present row of a name that at least two of them ship.\<close>

definition live_present :: "ledger \<Rightarrow> string \<Rightarrow> presence list" where
  "live_present l version = filter (\<lambda>r. p_odoo_version r = version \<and> p_state r = St_present \<and> p_repo_id r \<noteq> None) (l_rows l)"

definition shared_module_owners :: "ledger \<Rightarrow> string \<Rightarrow> (string \<times> presence list) list" where
  "shared_module_owners l version =
     (let live = live_present l version;
          shared = filter (\<lambda>n. length (remdups (map p_repo_id (filter (\<lambda>r. p_name r = n) live))) > 1) (sort (remdups (map p_name live)))
      in map (\<lambda>n. (n, sort_key (\<lambda>r. the (p_repo_id r)) (filter (\<lambda>r. p_name r = n) live))) shared)"

definition shared_parse_backlog :: "ledger \<Rightarrow> int \<Rightarrow> int \<Rightarrow> string list \<Rightarrow> nat \<times> string list" where
  "shared_parse_backlog l i limit skip =
     (let others = (\<lambda>r. filter (\<lambda>x. p_name x = p_name r \<and> p_odoo_version x = p_odoo_version r \<and> p_state x = St_present \<and>
              p_repo_id x \<noteq> None \<and> p_repo_id x \<noteq> Some i) (l_rows l));
          mine = filter (\<lambda>r. p_state r = St_present \<and> p_full_parse_at r = None \<and> \<not> p_needs_rewrite r \<and> p_name r \<notin> set skip \<and>
              others r \<noteq> []) (repo_rows l i);
          ranked = sort_key (\<lambda>r. (\<not> list_all (\<lambda>x. p_full_parse_at x \<noteq> None) (others r), p_name r)) mine
      in (length ranked, take (nat (max limit 0)) (map p_name ranked)))"

definition excluded_co_owner_rows :: "ledger \<Rightarrow> string \<Rightarrow> presence list" where
  "excluded_co_owner_rows l version =
     sort_key (\<lambda>r. (p_name r, the (p_repo_id r))) (filter (\<lambda>r. p_odoo_version r = version \<and> p_state r = St_excluded \<and> p_repo_id r \<noteq> None \<and>
       list_ex (\<lambda>x. p_name x = p_name r \<and> p_repo_id x \<noteq> p_repo_id r) (live_present l version)) (l_rows l))"

definition retired_without_successor :: "ledger \<Rightarrow> string option \<Rightarrow> string option \<Rightarrow> int \<Rightarrow> int option \<Rightarrow> presence list" where
  "retired_without_successor l version profile limit after_id =
     take (nat (max 0 limit)) (sort_key p_id (filter (\<lambda>r. p_state r = St_retired \<and> p_successor_names r = None \<and> p_removing_sha r \<noteq> None \<and>
       (case p_repo_id r of None \<Rightarrow> False | Some i \<Rightarrow> find_repo l i \<noteq> None) \<and>
       (case version of None \<Rightarrow> True | Some v \<Rightarrow> p_odoo_version r = v) \<and>
       (case profile of None \<Rightarrow> True | Some p \<Rightarrow> p_profile_name r = p) \<and>
       (case after_id of None \<Rightarrow> True | Some a \<Rightarrow> p_id r > a)) (l_rows l)))"

text \<open>Whether the ledger may be behind: the repositories that might still ship a name.\<close>

definition unsynced :: "repo \<Rightarrow> bool" where
  "unsynced r = (r_presence_head_sha r = None \<or> r_head_sha r = None \<or> r_presence_head_sha r \<noteq> r_head_sha r)"

definition at_version :: "ledger \<Rightarrow> string \<Rightarrow> repo \<Rightarrow> bool" where
  "at_version l version r = (r_profile_version r = version \<or> list_ex (\<lambda>x. p_repo_id x = Some (r_id r) \<and> p_odoo_version x = version) (l_rows l))"

definition potential_owners_unsynced :: "ledger \<Rightarrow> string \<Rightarrow> string \<Rightarrow> int option \<Rightarrow> (repo \<times> bool) list" where
  "potential_owners_unsynced l n version exclude_id =
     map (\<lambda>r. (r, list_ex (\<lambda>x. is_row (r_id r) n x \<and> p_odoo_version x = version \<and> p_state x \<noteq> St_retired) (l_rows l)))
       (sort_key r_id (filter (\<lambda>r. at_version l version r \<and> unsynced r \<and> exclude_id \<noteq> Some (r_id r) \<and>
         (list_ex (\<lambda>x. is_row (r_id r) n x \<and> p_odoo_version x = version \<and> p_state x \<noteq> St_retired) (l_rows l) \<or>
          r_presence_head_sha r = None \<and> repo_rows l (r_id r) = [])) (l_repos l)))"

definition repo_sync_state :: "ledger \<Rightarrow> string \<Rightarrow> (repo \<times> bool) list" where
  "repo_sync_state l version =
     map (\<lambda>r. (r, r_presence_head_sha r \<noteq> None \<and> r_presence_head_sha r = r_head_sha r))
       (sort_key (\<lambda>r. (r_profile_name r, r_id r)) (filter (at_version l version) (l_repos l)))"

end
