(* ===== verification/Ledger_Laws.thy ===== *)
theory Ledger_Laws
  imports Ledger
begin

section \<open>Laws of the ledger\<close>

text \<open>
  The table constraints are an invariant and no operation runs into them; rows are never deleted
  and their history is kept; only \<open>commit_retired\<close> retires; the diff predicts the commit; a rewrite
  flag set during a run survives that run. The step relation \<open>ledger_step\<close> has one rule per writing operation.
\<close>

subsection \<open>Invariant and history\<close>

definition ledger_inv :: "ledger \<Rightarrow> bool" where
  "ledger_inv l \<longleftrightarrow> rows_ok (l_merge_ok l) (l_rows l) \<and> (\<forall>r \<in> set (l_rows l). p_id r < l_next_id l) \<and> distinct (map fst (l_pending l))"

text \<open>What a row keeps: its identity, when it was first seen, and, until it is resurrected, everything that
  was recorded when it was retired.\<close>

definition retirement_kept :: "presence \<Rightarrow> presence \<Rightarrow> bool" where
  "retirement_kept r r' \<longleftrightarrow>
     p_state r' = St_retired \<and> p_retire_reason r' = p_retire_reason r \<and> p_state_changed_sha r' = p_state_changed_sha r \<and>
     p_state_changed_at r' = p_state_changed_at r \<and> p_removing_sha r' = p_removing_sha r \<and>
     p_removing_date r' = p_removing_date r \<and> p_removing_subject r' = p_removing_subject r \<and>
     (p_successor_names r \<noteq> None \<longrightarrow> p_successor_names r' = p_successor_names r \<and> p_successor_source r' = p_successor_source r)"

definition row_hist :: "presence \<Rightarrow> presence \<Rightarrow> bool" where
  "row_hist r r' \<longleftrightarrow> p_id r' = p_id r \<and> p_name r' = p_name r \<and> p_first_seen_sha r' = p_first_seen_sha r \<and>
     p_first_seen_at r' = p_first_seen_at r \<and> p_resurrection_count r \<le> p_resurrection_count r' \<and>
     (p_state r = St_retired \<and> p_resurrection_count r' = p_resurrection_count r \<longrightarrow> retirement_kept r r')"

definition hist_all :: "ledger \<Rightarrow> ledger \<Rightarrow> bool" where
  "hist_all l l' \<longleftrightarrow> (\<forall>r \<in> set (l_rows l). \<exists>r' \<in> set (l_rows l'). row_hist r r')"

definition good_step :: "ledger \<Rightarrow> ledger \<Rightarrow> bool" where
  "good_step l l' \<longleftrightarrow> (ledger_inv l \<longrightarrow> ledger_inv l' \<and> hist_all l l') \<and> l_merge_ok l' = l_merge_ok l \<and> l_stamps_ok l' = l_stamps_ok l"

lemma retirement_kept_trans: "retirement_kept a b \<Longrightarrow> retirement_kept b c \<Longrightarrow> retirement_kept a c"
  by (auto simp: retirement_kept_def)

lemma row_hist_refl [simp]: "row_hist r r"
  by (simp add: row_hist_def retirement_kept_def)

lemma row_hist_trans:
  assumes "row_hist a b" and "row_hist b c"
  shows "row_hist a c"
proof -
  have "retirement_kept a c" if *: "p_state a = St_retired" "p_resurrection_count c = p_resurrection_count a"
  proof -
    have eq: "p_resurrection_count b = p_resurrection_count a" "p_resurrection_count c = p_resurrection_count b"
      using assms *(2) by (auto simp: row_hist_def)
    with assms(1) *(1) have "retirement_kept a b" by (simp add: row_hist_def)
    moreover from this have "p_state b = St_retired" by (simp add: retirement_kept_def)
    with assms(2) eq(2) have "retirement_kept b c" by (simp add: row_hist_def)
    ultimately show ?thesis by (rule retirement_kept_trans)
  qed
  then show ?thesis using assms by (auto simp: row_hist_def)
qed

lemma hist_all_refl [simp]: "hist_all l l"
  unfolding hist_all_def using row_hist_refl by blast

lemma hist_all_rows: "l_rows l' = map g (l_rows l) \<Longrightarrow> (\<And>r. row_hist r (g r)) \<Longrightarrow> hist_all l l'"
  unfolding hist_all_def by auto

lemma hist_all_map: "(\<And>r. r \<in> set (l_rows l) \<Longrightarrow> row_hist r (g r)) \<Longrightarrow> hist_all l (l\<lparr>l_rows := map g (l_rows l)\<rparr>)"
  unfolding hist_all_def by auto

lemma hist_all_trans: "hist_all a b \<Longrightarrow> hist_all b c \<Longrightarrow> hist_all a c"
  unfolding hist_all_def using row_hist_trans by blast

interpretation ledger_run: stepwise good_step
proof
  fix s t u
  show "good_step s s" by (simp add: good_step_def)
  show "good_step s t \<Longrightarrow> good_step t u \<Longrightarrow> good_step s u"
    unfolding good_step_def using hist_all_trans by auto
qed

lemma steps_tx [pres_intros]:
  assumes "steps good_step op"
  shows "steps good_step (tx op)"
proof (rule stepsI)
  fix l r l' assume run: "tx op l = (r, l')"
  obtain r1 l1 where op: "op l = (r1, l1)" by fastforce
  from stepsD [OF assms op] have "good_step l l1" .
  then show "good_step l l'" using run by (auto simp: tx_def op ledger_run.step_refl split: sum.splits)
qed

subsection \<open>Updates\<close>

lemma rows_okD: "rows_ok m rows \<Longrightarrow> r \<in> set rows \<Longrightarrow> row_ok m r"
  by (simp add: rows_ok_def list_all_iff)

lemma distinct_filter_map_key:
  assumes "\<And>r. r \<in> set rows \<Longrightarrow> row_key (g r) = row_key r"
  shows "filter (\<lambda>k. k \<noteq> None) (map row_key (map g rows)) = filter (\<lambda>k. k \<noteq> None) (map row_key rows)"
  using assms by (induction rows) auto

lemma unique_rows_update:
  assumes "\<And>r. p_id (f r) = p_id r" "\<And>r. row_key (f r) = row_key r"
  shows "unique_rows (map (\<lambda>r. if P r then f r else r) rows) = unique_rows rows"
proof -
  have "map p_id (map (\<lambda>r. if P r then f r else r) rows) = map p_id rows" using assms(1) by auto
  moreover have "filter (\<lambda>k. k \<noteq> None) (map row_key (map (\<lambda>r. if P r then f r else r) rows)) = filter (\<lambda>k. k \<noteq> None) (map row_key rows)"
    using assms(2) by (intro distinct_filter_map_key) auto
  ultimately show ?thesis unfolding unique_rows_def by (simp only:)
qed

text \<open>The updates of the store never change identity, name or repository of a row.\<close>

definition keeps_key :: "(presence \<Rightarrow> presence) \<Rightarrow> bool" where
  "keeps_key f \<longleftrightarrow> (\<forall>r. p_id (f r) = p_id r \<and> p_name (f r) = p_name r \<and> p_repo_id (f r) = p_repo_id r)"

lemma good_update:
  assumes "update_rows P f l = (res, l')" and "\<And>r. r \<in> set (l_rows l) \<Longrightarrow> P r \<Longrightarrow> row_hist r (f r)" and "keeps_key f"
  shows "good_step l l'"
proof (cases "rows_ok (l_merge_ok l) (map (\<lambda>r. if P r then f r else r) (l_rows l))")
  case True
  then have l': "l' = l\<lparr>l_rows := map (\<lambda>r. if P r then f r else r) (l_rows l)\<rparr>"
    using assms(1) by (simp add: update_rows_def Let_def)
  have "hist_all l l'" unfolding l' by (rule hist_all_map) (simp add: assms(2))
  moreover have "p_id (f r) = p_id r" for r using assms(3) by (simp add: keeps_key_def)
  ultimately show ?thesis
    using True by (auto simp: good_step_def ledger_inv_def l')
next
  case False
  then show ?thesis using assms(1) by (simp add: update_rows_def Let_def ledger_run.step_refl)
qed

lemma steps_update [pres_intros]:
  assumes "\<And>r. P r \<Longrightarrow> row_hist r (f r)" and "keeps_key f"
  shows "steps good_step (update_rows P f)"
  by (rule stepsI, erule good_update) (simp_all add: assms)

lemma update_rows_ok:
  assumes "ledger_inv l" and "keeps_key f" and "\<And>r. r \<in> set (l_rows l) \<Longrightarrow> row_ok (l_merge_ok l) r \<Longrightarrow> P r \<Longrightarrow> row_ok (l_merge_ok l) (f r)"
  shows "update_rows P f l = (Inr (map f (filter P (l_rows l))), l\<lparr>l_rows := map (\<lambda>r. if P r then f r else r) (l_rows l)\<rparr>)"
proof -
  have ok: "rows_ok (l_merge_ok l) (l_rows l)" using assms(1) by (simp add: ledger_inv_def)
  have "row_key (f r) = row_key r" for r using assms(2) by (simp add: keeps_key_def row_key_def)
  moreover have "p_id (f r) = p_id r" for r using assms(2) by (simp add: keeps_key_def)
  ultimately have "unique_rows (map (\<lambda>r. if P r then f r else r) (l_rows l))"
    using ok by (simp add: unique_rows_update rows_ok_def)
  moreover have "list_all (row_ok (l_merge_ok l)) (map (\<lambda>r. if P r then f r else r) (l_rows l))"
    using ok assms(3) by (auto simp: rows_ok_def list_all_iff)
  ultimately show ?thesis by (simp add: update_rows_def Let_def rows_ok_def)
qed

lemma row_simps_kept [row_simps]:
  "keeps_key (set_evidence ev)" "keeps_key (set_successor su)" "keeps_key (flag_pending reason b now)"
  "keeps_key (retire_row rr sha now)" "keeps_key (flag_rewrite st clk now)" "keeps_key clear_parse"
  by (simp_all add: keeps_key_def set_evidence_def set_successor_def flag_pending_def retire_row_def flag_rewrite_def clear_parse_def)

lemma live_hist:
  "p_state r \<noteq> St_retired \<Longrightarrow> p_id r' = p_id r \<Longrightarrow> p_name r' = p_name r \<Longrightarrow> p_first_seen_sha r' = p_first_seen_sha r \<Longrightarrow>
     p_first_seen_at r' = p_first_seen_at r \<Longrightarrow> p_resurrection_count r' = p_resurrection_count r \<Longrightarrow> row_hist r r'"
  by (simp add: row_hist_def)

text \<open>Updates of columns that are not part of the history.\<close>

definition side_columns :: "presence \<Rightarrow> presence \<Rightarrow> bool" where
  "side_columns r r' \<longleftrightarrow> p_id r' = p_id r \<and> p_name r' = p_name r \<and> p_repo_id r' = p_repo_id r \<and> p_first_seen_sha r' = p_first_seen_sha r \<and>
     p_first_seen_at r' = p_first_seen_at r \<and> p_resurrection_count r' = p_resurrection_count r \<and> p_state r' = p_state r \<and>
     p_exclusion_reason r' = p_exclusion_reason r \<and> p_retire_reason r' = p_retire_reason r \<and> p_retire_pending r' = p_retire_pending r \<and>
     p_retire_pending_reason r' = p_retire_pending_reason r \<and> p_state_changed_sha r' = p_state_changed_sha r \<and>
     p_state_changed_at r' = p_state_changed_at r \<and> p_removing_sha r' = p_removing_sha r \<and> p_removing_date r' = p_removing_date r \<and>
     p_removing_subject r' = p_removing_subject r \<and> p_successor_names r' = p_successor_names r \<and> p_successor_source r' = p_successor_source r"

lemma side_hist: "side_columns r r' \<Longrightarrow> row_hist r r'"
  by (simp add: side_columns_def row_hist_def retirement_kept_def)

lemma side_row_ok: "side_columns r r' \<Longrightarrow> row_ok m r' = row_ok m r"
  by (simp add: side_columns_def row_ok_def)

lemma side_keeps_key: "(\<And>r. side_columns r (f r)) \<Longrightarrow> keeps_key f"
  by (simp add: side_columns_def keeps_key_def)

lemma steps_side_update: "(\<And>r. side_columns r (f r)) \<Longrightarrow> steps good_step (update_rows P f)"
  by (intro steps_update side_hist side_keeps_key)

lemma side_update_ok:
  assumes "ledger_inv l" and "\<And>r. side_columns r (f r)"
  shows "update_rows P f l = (Inr (map f (filter P (l_rows l))), l\<lparr>l_rows := map (\<lambda>r. if P r then f r else r) (l_rows l)\<rparr>)"
  by (intro update_rows_ok side_keeps_key assms) (use side_row_ok assms(2) in blast)

lemma side_columns_simps [simp]:
  "side_columns r (r\<lparr>p_retire_blocked_by := b, p_updated_at := now\<rparr>)"
  "side_columns r (r\<lparr>p_profile_name := n, p_updated_at := now\<rparr>)"
  "side_columns r (r\<lparr>p_needs_rewrite := False, p_updated_at := now\<rparr>)"
  "side_columns r (r\<lparr>p_needs_rewrite := w, p_updated_at := now, p_needs_rewrite_at := a\<rparr>)"
  "side_columns r (r\<lparr>p_needs_rewrite := w, p_needs_rewrite_at := a, p_updated_at := now\<rparr>)"
  "side_columns r (flag_rewrite st clk now r)"
  "side_columns r ((clear_parse r)\<lparr>p_updated_at := now\<rparr>)"
  "side_columns r (r\<lparr>p_full_parse_at := a1, p_full_parse_sha := a2, p_full_parse_run := a3, p_full_parse_unobserved := a4,
     p_full_parse_embedded_at := a5, p_updated_at := now\<rparr>)"
  by (simp_all add: side_columns_def flag_rewrite_def clear_parse_def)

lemmas side_steps = steps_side_update [pres_intros]

subsection \<open>Every operation is a good step\<close>

text \<open>While a row is live its evidence and successor may change; the rows of \<open>P\<close> have to be live.\<close>

definition live_on :: "(presence \<Rightarrow> bool) \<Rightarrow> ledger \<Rightarrow> bool" where
  "live_on P l \<longleftrightarrow> (\<forall>r \<in> set (l_rows l). P r \<longrightarrow> p_state r \<noteq> St_retired)"

lemma live_on_update:
  assumes "update_rows P f l = (res, l')" and "live_on Q l" and "\<And>r. p_state (f r) = p_state r" and "\<And>r. Q (f r) = Q r"
  shows "live_on Q l'"
  using assms by (auto simp: update_rows_def Let_def live_on_def split: if_splits)

lemma evidence_state [simp]:
  "p_state (set_evidence ev r) = p_state r" "p_state (set_successor su r) = p_state r"
  "is_row i n (set_evidence ev r) = is_row i n r" "is_row i n (set_successor su r) = is_row i n r"
  by (simp_all add: set_evidence_def set_successor_def is_row_def)

lemma evidence_hist:
  "p_state r \<noteq> St_retired \<Longrightarrow> row_hist r (set_evidence ev r)" "p_state r \<noteq> St_retired \<Longrightarrow> row_hist r (set_successor su r)"
  by (simp_all add: live_hist set_evidence_def set_successor_def)

text \<open>Steps from states in which the rows of the names \<open>ns\<close> of a repository are live.\<close>

definition live_step :: "int \<Rightarrow> string set \<Rightarrow> ledger \<Rightarrow> ledger \<Rightarrow> bool" where
  "live_step i ns l l' \<longleftrightarrow> (live_on (\<lambda>r. p_repo_id r = Some i \<and> p_name r \<in> ns) l \<longrightarrow>
     good_step l l' \<and> live_on (\<lambda>r. p_repo_id r = Some i \<and> p_name r \<in> ns) l')"

interpretation live_run: stepwise "live_step i ns" for i ns
  by unfold_locales (auto simp: live_step_def ledger_run.step_refl intro: ledger_run.step_trans)

lemma steps_live_update:
  assumes "\<And>r. p_state r \<noteq> St_retired \<Longrightarrow> row_hist r (f r)" and "keeps_key f" and "\<And>r. p_state (f r) = p_state r" and "n \<in> ns"
  shows "steps (live_step i ns) (update_rows (is_row i n) f)"
proof (rule stepsI, unfold live_step_def, intro impI conjI)
  fix l res l' assume run: "update_rows (is_row i n) f l = (res, l')" and live: "live_on (\<lambda>r. p_repo_id r = Some i \<and> p_name r \<in> ns) l"
  have "p_state r \<noteq> St_retired" if "r \<in> set (l_rows l)" "is_row i n r" for r
    using live assms(4) that by (auto simp: live_on_def is_row_def)
  then show "good_step l l'" by (intro good_update [OF run] assms(1,2))
  show "live_on (\<lambda>r. p_repo_id r = Some i \<and> p_name r \<in> ns) l'"
    using assms(2) by (intro live_on_update [OF run live] assms(3)) (simp add: keeps_key_def)
qed

lemma steps_store_evidence: "n \<in> ns \<Longrightarrow> steps (live_step i ns) (store_evidence (is_row i n) ev su)"
  unfolding store_evidence_def
  by (intro live_run.steps_seq live_run.steps_case_option live_run.steps_bind live_run.steps_ret steps_live_update
      evidence_hist evidence_state row_simps_kept)

lemma unique_key:
  assumes "ledger_inv l" and "r \<in> set (l_rows l)" "r' \<in> set (l_rows l)" and "p_repo_id r = Some i" "p_repo_id r' = Some i" "p_name r = p_name r'"
  shows "r = r'"
proof -
  have "distinct (filter (\<lambda>k. k \<noteq> None) (map row_key (l_rows l)))" using assms(1) by (simp add: ledger_inv_def rows_ok_def unique_rows_def)
  then have "inj_on row_key (set (filter ((\<lambda>k. k \<noteq> None) \<circ> row_key) (l_rows l)))" unfolding filter_map by (simp add: distinct_map)
  then show ?thesis using assms(2-) by (auto simp: inj_on_def row_key_def)
qed

lemma unique_id: "ledger_inv l \<Longrightarrow> r \<in> set (l_rows l) \<Longrightarrow> r' \<in> set (l_rows l) \<Longrightarrow> p_id r = p_id r' \<Longrightarrow> r = r'"
  by (auto simp: ledger_inv_def rows_ok_def unique_rows_def distinct_map inj_on_def)

lemma pending_hist: "p_state r \<noteq> St_retired \<Longrightarrow> row_hist r (flag_pending reason b now r)"
  by (simp add: live_hist flag_pending_def)

text \<open>A run on a state that satisfies the invariant.\<close>

lemma good_stepI: "l_merge_ok l' = l_merge_ok l \<Longrightarrow> l_stamps_ok l' = l_stamps_ok l \<Longrightarrow>
    (ledger_inv l \<Longrightarrow> good_step l l') \<Longrightarrow> good_step l l'"
  by (auto simp: good_step_def)

lemma update_rows_flags: "update_rows P f l = (res, l') \<Longrightarrow> l_merge_ok l' = l_merge_ok l \<and> l_stamps_ok l' = l_stamps_ok l"
  by (auto simp: update_rows_def Let_def split: if_splits)

definition flags_kept :: "ledger \<Rightarrow> ledger \<Rightarrow> bool" where
  "flags_kept l l' \<longleftrightarrow> l_merge_ok l' = l_merge_ok l \<and> l_stamps_ok l' = l_stamps_ok l"

interpretation flags: stepwise flags_kept
  by unfold_locales (auto simp: flags_kept_def)

lemma flags_update [pres_intros]: "steps flags_kept (update_rows P f)"
  by (rule stepsI) (simp add: flags_kept_def update_rows_flags)

lemma flags_tx: "steps flags_kept op \<Longrightarrow> steps flags_kept (tx op)"
  unfolding steps_def tx_def by (auto simp: flags.step_refl split: prod.splits sum.splits) (metis snd_conv)

lemma flags_evidence: "steps flags_kept (store_evidence P ev su)"
  unfolding store_evidence_def
  by (intro flags.steps_seq flags.steps_case_option flags.steps_bind flags.steps_ret flags_update)

lemma live_after_update:
  assumes "ledger_inv l" and f: "\<And>r. p_name (f r) = p_name r" "\<And>r. p_repo_id (f r) = p_repo_id r" "\<And>r. p_state (f r) = p_state r"
    and P: "\<And>r. P r \<Longrightarrow> p_repo_id r = Some i \<and> p_state r \<noteq> St_retired"
  shows "\<forall>r \<in> set (map (\<lambda>r. if P r then f r else r) (l_rows l)).
    p_repo_id r = Some i \<and> p_name r \<in> p_name ` set (map f (filter P (l_rows l))) \<longrightarrow> p_state r \<noteq> St_retired"
proof (intro ballI impI)
  fix r assume in_map: "r \<in> set (map (\<lambda>r. if P r then f r else r) (l_rows l))"
    and r: "p_repo_id r = Some i \<and> p_name r \<in> p_name ` set (map f (filter P (l_rows l)))"
  from in_map obtain r0 where r0: "r = (if P r0 then f r0 else r0)" "r0 \<in> set (l_rows l)" unfolding set_map by (rule imageE)
  from r obtain r2 where r2: "r2 \<in> set (l_rows l)" "P r2" "p_name r = p_name r2" by (auto simp: f)
  have k: "p_repo_id r0 = p_repo_id r" "p_name r0 = p_name r" "p_state r0 = p_state r" by (simp_all add: r0(1) f)
  have "p_repo_id r0 = Some i" "p_repo_id r2 = Some i" "p_name r0 = p_name r2" using k r r2(3) P [OF r2(2)] by simp_all
  from unique_key [OF assms(1) r0(2) r2(1) this] k(3) P [OF r2(2)] show "p_state r \<noteq> St_retired" by simp
qed

lemma good_stepsI: "steps flags_kept m \<Longrightarrow> (\<And>l res l'. m l = (res, l') \<Longrightarrow> ledger_inv l \<Longrightarrow> good_step l l') \<Longrightarrow> steps good_step m"
proof (rule stepsI)
  fix l res l' assume "steps flags_kept m" and "m l = (res, l')" and "\<And>l res l'. m l = (res, l') \<Longrightarrow> ledger_inv l \<Longrightarrow> good_step l l'"
  then show "good_step l l'" using stepsD [of flags_kept m l res l'] good_stepI [of l' l] unfolding flags_kept_def by blast
qed

lemma steps_mark_retire_pending: "steps good_step (mark_retire_pending i names reason evidence successors b now)"
proof (cases "names = []")
  case True
  then show ?thesis by (simp add: mark_retire_pending_def ledger_run.steps_ret)
next
  case False
  let ?P = "\<lambda>r. p_repo_id r = Some i \<and> p_name r \<in> set names \<and> p_state r \<noteq> St_retired"
  define body where "body = (\<lambda>rows :: presence list. let flagged = sort (map p_name rows)
     in seqE (for_each flagged () (\<lambda>n _. bindE (gets (\<lambda>l. storable_successor l (successors n)))
                (\<lambda>su. store_evidence (is_row i n) (evidence n) su))) (ret flagged))"
  have body_steps: "steps (live_step i (p_name ` set rows)) (body rows)" for rows
    unfolding body_def Let_def
    by (intro live_run.steps_seq live_run.steps_for_each_in live_run.steps_bind live_run.steps_gets live_run.steps_ret steps_store_evidence) simp
  have "good_step l l2" if run: "bindE (update_rows ?P (flag_pending reason b now)) body l = (res, l2)" and inv: "ledger_inv l" for l l2 res
  proof -
    obtain r1 l1 where u: "update_rows ?P (flag_pending reason b now) l = (r1, l1)" by fastforce
    have g1: "good_step l l1" by (rule good_update [OF u]) (simp_all add: pending_hist row_simps_kept)
    show ?thesis
    proof (cases r1)
      case (Inl e)
      with run u g1 show ?thesis by (simp add: bindE_def)
    next
      case (Inr rows)
      with run u have b: "body rows l1 = (res, l2)" by (simp add: bindE_def)
      have rows: "rows = map (flag_pending reason b now) (filter ?P (l_rows l))"
        and l1: "l_rows l1 = map (\<lambda>r. if ?P r then flag_pending reason b now r else r) (l_rows l)"
        using u Inr by (auto simp: update_rows_def Let_def split: if_splits)
      have key: "p_name (flag_pending reason b now r) = p_name r" "p_repo_id (flag_pending reason b now r) = p_repo_id r"
        "p_state (flag_pending reason b now r) = p_state r" for r
        by (simp_all add: flag_pending_def)
      have "live_on (\<lambda>r. p_repo_id r = Some i \<and> p_name r \<in> p_name ` set rows) l1"
        unfolding live_on_def l1 rows by (rule live_after_update [OF inv]) (simp_all add: key)
      with stepsD [OF body_steps b] g1 show ?thesis unfolding live_step_def using ledger_run.step_trans by blast
    qed
  qed
  moreover have "steps flags_kept (bindE (update_rows ?P (flag_pending reason b now)) body)"
    unfolding body_def Let_def
    by (intro flags.steps_bind flags.steps_seq flags.steps_for_each flags.steps_gets flags.steps_ret flags_update flags_evidence)
  ultimately have "steps good_step (bindE (update_rows ?P (flag_pending reason b now)) body)"
    by (rule good_stepsI [rotated])
  then show ?thesis using False unfolding mark_retire_pending_def body_def by (simp add: steps_tx)
qed

text \<open>Steps that change one row only and keep its identity.\<close>

definition same_ident :: "presence \<Rightarrow> presence \<Rightarrow> bool" where
  "same_ident r r' \<longleftrightarrow> p_id r' = p_id r \<and> p_name r' = p_name r \<and> p_first_seen_sha r' = p_first_seen_sha r \<and>
     p_first_seen_at r' = p_first_seen_at r \<and> p_resurrection_count r' = p_resurrection_count r"

definition only_row :: "int \<Rightarrow> ledger \<Rightarrow> ledger \<Rightarrow> bool" where
  "only_row t l l' \<longleftrightarrow>
     (\<exists>g. l_rows l' = map g (l_rows l) \<and> (\<forall>r. (p_id r \<noteq> t \<longrightarrow> g r = r) \<and> same_ident r (g r))) \<and>
     (ledger_inv l \<longrightarrow> ledger_inv l') \<and> flags_kept l l'"

lemma only_row_trans:
  assumes "only_row t a b" and "only_row t b c"
  shows "only_row t a c"
proof -
  obtain g h where g: "l_rows b = map g (l_rows a)" "\<forall>r. (p_id r \<noteq> t \<longrightarrow> g r = r) \<and> same_ident r (g r)"
    and h: "l_rows c = map h (l_rows b)" "\<forall>r. (p_id r \<noteq> t \<longrightarrow> h r = r) \<and> same_ident r (h r)"
    using assms unfolding only_row_def by blast
  have "l_rows c = map (h \<circ> g) (l_rows a)" by (simp add: g(1) h(1))
  moreover have "(p_id r \<noteq> t \<longrightarrow> (h \<circ> g) r = r) \<and> same_ident r ((h \<circ> g) r)" for r
    using g(2) [rule_format, of r] h(2) [rule_format, of "g r"] by (simp add: same_ident_def)
  moreover have "ledger_inv a \<longrightarrow> ledger_inv c" "flags_kept a c" using assms by (simp_all add: only_row_def flags_kept_def)
  ultimately show ?thesis unfolding only_row_def by blast
qed

interpretation one_row: stepwise "only_row t" for t
proof
  show "only_row t s s" for t s unfolding only_row_def flags_kept_def by (auto intro: exI [of _ "\<lambda>r. r"] simp: same_ident_def)
qed (rule only_row_trans)

lemma steps_one_row_update:
  assumes "\<And>r. P r \<Longrightarrow> p_id r = t" and "\<And>r. same_ident r (f r)"
  shows "steps (only_row t) (update_rows P f)"
proof (rule stepsI)
  fix l res l' assume run: "update_rows P f l = (res, l')"
  show "only_row t l l'"
  proof (cases "rows_ok (l_merge_ok l) (map (\<lambda>r. if P r then f r else r) (l_rows l))")
    case True
    then have l': "l' = l\<lparr>l_rows := map (\<lambda>r. if P r then f r else r) (l_rows l)\<rparr>"
      using run by (simp add: update_rows_def Let_def)
    have "\<forall>r. (p_id r \<noteq> t \<longrightarrow> (if P r then f r else r) = r) \<and> same_ident r (if P r then f r else r)"
      using assms by (auto simp: same_ident_def)
    moreover have "ledger_inv l \<longrightarrow> ledger_inv l'"
      using True assms(2) by (auto simp: ledger_inv_def l' same_ident_def)
    moreover have "l_rows l' = map (\<lambda>r. if P r then f r else r) (l_rows l)" "flags_kept l l'" by (simp_all add: l' flags_kept_def)
    ultimately show ?thesis unfolding only_row_def by blast
  next
    case False
    then show ?thesis using run by (simp add: update_rows_def Let_def one_row.step_refl)
  qed
qed

lemma only_row_good:
  assumes "only_row t l l'" and "\<And>r. r \<in> set (l_rows l) \<Longrightarrow> p_id r = t \<Longrightarrow> p_state r \<noteq> St_retired"
  shows "good_step l l'"
proof -
  obtain g where g: "l_rows l' = map g (l_rows l)" "\<And>r. p_id r \<noteq> t \<Longrightarrow> g r = r" "\<And>r. same_ident r (g r)"
    using assms(1) unfolding only_row_def by blast
  have "row_hist r (g r)" if "r \<in> set (l_rows l)" for r
  proof (cases "p_id r = t")
    case True
    with assms(2) [OF that] g(3) [of r] show ?thesis by (simp add: live_hist same_ident_def)
  next
    case False
    then show ?thesis by (simp add: g(2))
  qed
  then have "hist_all l l'" unfolding hist_all_def g(1) by auto
  with assms(1) show ?thesis by (simp add: only_row_def good_step_def flags_kept_def)
qed

lemma ident_simps [simp]:
  "same_ident r (retire_row reason sha now r)" "same_ident r (set_evidence ev r)" "same_ident r (set_successor su r)"
  by (simp_all add: same_ident_def retire_row_def set_evidence_def set_successor_def)

lemma one_row_evidence: "steps (only_row t) (store_evidence (\<lambda>r. p_id r = t) ev su)"
  unfolding store_evidence_def
  by (intro one_row.steps_seq one_row.steps_case_option one_row.steps_bind one_row.steps_ret steps_one_row_update ident_simps)

lemma steps_commit_retired: "steps good_step (commit_retired repo_id n reason evidence successor head_sha row_id now)"
proof -
  define body where "body t = bindE (gets (\<lambda>l. storable_successor l successor)) (\<lambda>su.
      bindE (update_rows (\<lambda>r. p_id r = t \<and> p_state r \<noteq> St_retired) (retire_row reason head_sha now)) (\<lambda>rows.
        if rows = [] then ret False else seqE (store_evidence (\<lambda>r. p_id r = t) evidence su) (ret True)))" for t
  have one: "steps (only_row t) (body t)" for t
    unfolding body_def
    by (intro one_row.steps_bind one_row.steps_gets one_row.steps_if one_row.steps_ret one_row.steps_seq one_row_evidence
        steps_one_row_update ident_simps) simp
  have good: "steps good_step (body t)" for t
  proof (rule good_stepsI)
    show "steps flags_kept (body t)"
      unfolding body_def
      by (intro flags.steps_bind flags.steps_gets flags.steps_if flags.steps_ret flags.steps_seq flags_evidence flags_update)
    fix l res l' assume run: "body t l = (res, l')" and inv: "ledger_inv l"
    show "good_step l l'"
    proof (cases "\<exists>r \<in> set (l_rows l). p_id r = t \<and> p_state r = St_retired")
      case False
      with stepsD [OF one run] show ?thesis by (intro only_row_good) auto
    next
      case True
      then have "p_state r = St_retired" if "r \<in> set (l_rows l)" "p_id r = t" for r using unique_id [OF inv] that by metis
      then have none: "filter (\<lambda>r. p_id r = t \<and> p_state r \<noteq> St_retired) (l_rows l) = []"
        "map (\<lambda>r. if p_id r = t \<and> p_state r \<noteq> St_retired then retire_row reason head_sha now r else r) (l_rows l) = l_rows l"
        by (auto simp: filter_empty_conv intro!: map_idI)
      have "l' = l" using run by (auto simp: body_def em_simps update_rows_def Let_def none split: if_splits)
      then show ?thesis by (simp add: ledger_run.step_refl)
    qed
  qed
  show ?thesis
    unfolding commit_retired_def body_def [symmetric]
    by (intro ledger_run.steps_if ledger_run.steps_bind ledger_run.steps_gets ledger_run.steps_raise ledger_run.steps_case_option
        ledger_run.steps_ret steps_tx good)
qed

lemma steps_record_successor: "steps good_step (record_successor row_id su now)"
proof -
  have "row_hist r ((set_successor s r)\<lparr>p_updated_at := now\<rparr>)" if "p_successor_names r = None" for r s
    using that by (simp add: row_hist_def retirement_kept_def set_successor_def)
  moreover have "keeps_key (\<lambda>r. (set_successor s r)\<lparr>p_updated_at := now\<rparr>)" for s by (simp add: keeps_key_def set_successor_def)
  ultimately show ?thesis
    unfolding record_successor_def
    by (intro ledger_run.steps_bind ledger_run.steps_gets ledger_run.steps_case_prod ledger_run.steps_case_option ledger_run.steps_ret
        steps_tx steps_update) auto
qed

lemma steps_mark_repo_removed: "steps good_step (mark_repo_removed i now)"
  unfolding mark_repo_removed_def
  by (intro steps_tx ledger_run.steps_bind steps_update ledger_run.steps_ret)
    (auto intro!: live_hist simp: flag_pending_def keeps_key_def)

lemma merge_hist: "row_hist r (merge_row new r)" if "p_state new \<noteq> St_retired"
proof -
  have "p_resurrection_count (merge_row new r) = p_resurrection_count r + (if p_state r = St_retired then 1 else 0)"
    by (simp add: merge_row_def clear_parse_def Let_def)
  moreover have "p_id (merge_row new r) = p_id r" "p_name (merge_row new r) = p_name r"
    "p_first_seen_sha (merge_row new r) = p_first_seen_sha r" "p_first_seen_at (merge_row new r) = p_first_seen_at r"
    by (simp_all add: merge_row_def clear_parse_def Let_def)
  ultimately show ?thesis by (simp add: row_hist_def)
qed

lemma merge_keeps_key: "keeps_key (merge_row new)"
  by (simp add: keeps_key_def merge_row_def clear_parse_def Let_def)

lemma good_insert:
  assumes "rows_ok (l_merge_ok l) (l_rows l @ [new])" and "p_id new = l_next_id l"
  shows "good_step l (l\<lparr>l_next_id := l_next_id l + 1, l_rows := l_rows l @ [new]\<rparr>)"
proof -
  have "hist_all l (l\<lparr>l_next_id := l_next_id l + 1, l_rows := l_rows l @ [new]\<rparr>)"
    unfolding hist_all_def using row_hist_refl by fastforce
  then show ?thesis using assms by (auto simp: good_step_def ledger_inv_def)
qed

lemma good_next_id: "good_step l (l\<lparr>l_next_id := l_next_id l + 1\<rparr>)"
proof -
  have "hist_all l (l\<lparr>l_next_id := l_next_id l + 1\<rparr>)" unfolding hist_all_def by (auto intro: row_hist_refl bexI)
  then show ?thesis by (auto simp: good_step_def ledger_inv_def)
qed

lemma steps_upsert:
  assumes "\<And>k. p_id (proposed k) = k" and "\<And>k. p_state (proposed k) \<noteq> St_retired"
  shows "steps good_step (upsert_row proposed)"
proof (rule stepsI)
  fix l res l' assume run: "upsert_row proposed l = (res, l')"
  let ?new = "proposed (l_next_id l)" and ?l1 = "l\<lparr>l_next_id := l_next_id l + 1\<rparr>"
  let ?same = "\<lambda>r. p_repo_id r = p_repo_id ?new \<and> p_repo_id r \<noteq> None \<and> p_name r = p_name ?new"
  obtain res2 l2 where u: "update_rows ?same (merge_row ?new) ?l1 = (res2, l2)" by fastforce
  have "good_step ?l1 l2" by (rule good_update [OF u merge_hist [OF assms(2)] merge_keeps_key])
  with good_next_id have g: "good_step l l2" by (rule ledger_run.step_trans)
  show "good_step l l'"
  proof (cases "\<not> row_ok (l_merge_ok l) ?new")
    case True
    with run have "l' = ?l1" by (auto simp: upsert_row_def Let_def)
    then show ?thesis by (simp add: good_next_id)
  next
    case ok: False
    show ?thesis
    proof (cases "list_ex ?same (l_rows l)")
      case True
      with ok run u have "l' = l2" by (auto simp: upsert_row_def Let_def split: sum.splits)
      with g show ?thesis by simp
    next
      case False
      with ok run have "rows_ok (l_merge_ok l) (l_rows l @ [?new]) \<and> l' = ?l1\<lparr>l_rows := l_rows l @ [?new]\<rparr> \<or> l' = ?l1"
        by (auto simp: upsert_row_def Let_def split: if_splits)
      then show ?thesis using good_insert [of l ?new] good_next_id [of l] assms(1) by auto
    qed
  qed
qed

lemma steps_commit_observed:
  assumes "\<And>x. x \<in> set observed \<Longrightarrow> o_state x \<noteq> St_retired"
  shows "steps good_step (commit_observed i profile version head_sha observed now)"
proof -
  have each: "steps good_step (for_each obs () (\<lambda>o1 _. upsert_row (\<lambda>k. proposed_row k repo profile version head_sha now o1)))"
    if "set obs \<subseteq> set observed" for obs repo
    using that assms by (intro ledger_run.steps_for_each_in steps_upsert) (auto simp: proposed_row_def)
  have "good_step l l'" if run: "commit_observed i profile version head_sha observed now l = (res, l')" for l res l'
  proof (cases "find_repo l i")
    case None
    with run show ?thesis by (auto simp: commit_observed_def tx_def ledger_run.step_refl split: option.splits if_splits)
  next
    case (Some repo)
    let ?obs = "sort_key o_name observed"
    obtain r1 l1 where f: "for_each ?obs () (\<lambda>o1 _. upsert_row (\<lambda>k. proposed_row k repo profile version head_sha now o1)) l = (r1, l1)"
      by fastforce
    have "good_step l l1" using stepsD [OF each f] by simp
    moreover have "l' = l1 \<or> l' = l"
      using run Some f by (cases r1) (auto simp: commit_observed_def tx_def index_observed_def split: if_splits)
    ultimately show ?thesis by (auto simp: ledger_run.step_refl)
  qed
  then show ?thesis by (rule stepsI)
qed

lemma orphan_row_id [simp]: "p_id (orphan_row k repo n profile version path file sha at ev su head_sha now) = k"
  by (simp add: orphan_row_def proposed_row_def)

lemma steps_record_orphan_retired:
  "steps good_step (record_orphan_retired i n profile version path file sha at ev su head_sha now)"
proof (rule stepsI)
  fix l res l' assume run: "record_orphan_retired i n profile version path file sha at ev su head_sha now l = (res, l')"
  show "good_step l l'"
  proof (cases "profile = [] \<or> find_repo l i = None")
    case True
    with run have "l' = l" by (auto simp: record_orphan_retired_def tx_def split: option.splits if_splits)
    then show ?thesis by (simp add: ledger_run.step_refl)
  next
    case False
    then obtain repo where repo: "find_repo l i = Some repo" and "profile \<noteq> []" by auto
    let ?new = "orphan_row (l_next_id l) repo n profile version path file sha at ev (storable_successor l su) head_sha now"
    from repo \<open>profile \<noteq> []\<close> run have "l' = l \<or> l' = l\<lparr>l_next_id := l_next_id l + 1\<rparr> \<or>
        rows_ok (l_merge_ok l) (l_rows l @ [?new]) \<and> l' = l\<lparr>l_next_id := l_next_id l + 1, l_rows := l_rows l @ [?new]\<rparr>"
      unfolding record_orphan_retired_def tx_def Let_def by (auto split: if_splits)
    then show ?thesis using good_insert [of l ?new] good_next_id [of l] ledger_run.step_refl by auto
  qed
qed

lemma steps_delete_repo_row: "steps good_step (delete_repo_row i)"
proof (unfold delete_repo_row_def, rule ledger_run.steps_modify)
  fix l :: ledger
  let ?g = "\<lambda>r. if p_repo_id r = Some i then r\<lparr>p_repo_id := None\<rparr> else r"
  let ?l' = "l\<lparr>l_repos := filter (\<lambda>r. r_id r \<noteq> i) (l_repos l), l_rows := map ?g (l_rows l),
    l_pending := filter (\<lambda>e. fst (snd (fst e)) \<noteq> i) (l_pending l)\<rparr>"
  have ids: "map p_id (map ?g rows) = map p_id rows" for rows by (simp add: comp_def)
  have keys: "filter (\<lambda>k. k \<noteq> None) (map row_key (map ?g rows)) =
      filter (\<lambda>k. fst (the k) \<noteq> i) (filter (\<lambda>k. k \<noteq> None) (map row_key rows))" for rows
    by (induction rows) (auto simp: row_key_def split: option.splits)
  have ok: "row_ok m (?g r) = row_ok m r" for m r by (simp add: row_ok_def)
  have all_ok: "list_all (row_ok m) (map ?g rows) = list_all (row_ok m) rows" for m rows by (simp only: list.pred_map comp_def ok)
  have "rows_ok m (map ?g rows)" if "rows_ok m rows" for m rows
    using that unfolding rows_ok_def unique_rows_def ids keys all_ok by (blast intro: distinct_filter)
  moreover have "row_hist r (?g r)" for r by (simp add: row_hist_def retirement_kept_def)
  then have "hist_all l ?l'" by (intro hist_all_rows [of _ ?g]) simp_all
  moreover have "p_id (?g r) = p_id r" for r by simp
  ultimately show "good_step l ?l'"
    unfolding good_step_def ledger_inv_def by (auto intro!: distinct_map_filter)
qed

lemma put_pending_distinct: "distinct (map fst pend) \<Longrightarrow> distinct (map fst (put_pending e pend))"
proof -
  assume d: "distinct (map fst pend)"
  have "map fst (map (\<lambda>d. if fst d = fst e then e else d) pend) = map fst pend" by (simp add: comp_def)
  with d show ?thesis unfolding put_pending_def by (auto simp: keys_def simp del: map_map)
qed

lemma fold_put_pending_distinct: "distinct (map fst pend) \<Longrightarrow> distinct (map fst (fold put_pending es pend))"
  by (induction es arbitrary: pend) (simp_all add: put_pending_distinct)

lemma steps_insert_pending: "steps good_step (insert_pending version pairs excluded ticks now)"
proof (rule stepsI)
  fix l res l' assume run: "insert_pending version pairs excluded ticks now l = (res, l')"
  then have "l' = l \<or> (\<exists>es. l' = l\<lparr>l_pending := fold put_pending es (filter (\<lambda>e. \<not> snd e < now - PENDING_TTL) (l_pending l))\<rparr>)"
    by (auto simp: insert_pending_def Let_def split: if_splits)
  moreover have "good_step l (l\<lparr>l_pending := fold put_pending es (filter (\<lambda>e. \<not> snd e < now - PENDING_TTL) (l_pending l))\<rparr>)" for es
  proof -
    have "hist_all l (l\<lparr>l_pending := p\<rparr>)" for p unfolding hist_all_def by (auto intro: row_hist_refl bexI)
    then show ?thesis
      by (auto simp: good_step_def ledger_inv_def intro!: fold_put_pending_distinct distinct_map_filter)
  qed
  ultimately show "good_step l l'" using ledger_run.step_refl by auto
qed

lemma steps_drop_pending: "steps good_step (modify (\<lambda>l. l\<lparr>l_pending := filter P (l_pending l)\<rparr>))"
proof (rule ledger_run.steps_modify)
  fix l
  have "hist_all l (l\<lparr>l_pending := p\<rparr>)" for p unfolding hist_all_def by (auto intro: row_hist_refl bexI)
  then show "good_step l (l\<lparr>l_pending := filter P (l_pending l)\<rparr>)"
    by (auto simp: good_step_def ledger_inv_def intro!: distinct_map_filter)
qed

lemmas run_intros = ledger_run.steps_if ledger_run.steps_bind ledger_run.steps_seq ledger_run.steps_gets ledger_run.steps_ret
  ledger_run.steps_raise ledger_run.steps_let ledger_run.steps_case_prod ledger_run.steps_case_option
  steps_tx steps_side_update side_columns_simps steps_insert_pending steps_drop_pending

lemma steps_flag_dependents: "steps good_step (flag_dependents version names pending excluded ticks now)"
  unfolding flag_dependents_def by (intro run_intros)

lemma steps_rewrite_flags:
  "steps good_step (mark_needs_rewrite i n clk now)" "steps good_step (clear_needs_rewrite i names read_at now)"
  "steps good_step (apply_pending_rewrites i version names written read_at now)" "steps good_step (consume_needs_rewrite i now)"
  "steps good_step (mark_dependents_needs_rewrite version names excluded ticks now)"
  "steps good_step (record_pending_rewrites version pairs excluded ticks now)"
  unfolding mark_needs_rewrite_def clear_needs_rewrite_def apply_pending_rewrites_def consume_needs_rewrite_def
    mark_dependents_needs_rewrite_def record_pending_rewrites_def
  by (intro run_intros steps_flag_dependents)+

lemma steps_other:
  "steps good_step (mark_retire_blocked ids b now)" "steps good_step (record_full_parses i version parses stamp now)"
  "steps good_step (clear_full_parses i version names now)" "steps good_step (rename_profile old_name new_name now)"
  unfolding mark_retire_blocked_def record_full_parses_def clear_full_parses_def rename_profile_def
  by (intro run_intros)+

lemma steps_update_repo_row: "steps good_step (update_repo_row i f)"
proof (rule stepsI)
  fix l res l' assume "update_repo_row i f l = (res, l')"
  then have "l' = l \<or> (\<exists>rs. l' = l\<lparr>l_repos := rs\<rparr>)" by (auto simp: update_repo_row_def split: if_splits)
  moreover have "good_step l (l\<lparr>l_repos := rs\<rparr>)" for rs
  proof -
    have "hist_all l (l\<lparr>l_repos := rs\<rparr>)" unfolding hist_all_def by (auto intro: row_hist_refl bexI)
    then show ?thesis by (auto simp: good_step_def ledger_inv_def)
  qed
  ultimately show "good_step l l'" using ledger_run.step_refl by auto
qed

lemma steps_repo_columns:
  "steps good_step (mark_presence_synced i sha)" "steps good_step (set_lifecycle_attention i text now)"
  "steps good_step (clear_lifecycle_attention i)"
  unfolding mark_presence_synced_def set_lifecycle_attention_def clear_lifecycle_attention_def
  by (intro run_intros steps_update_repo_row)+

subsection \<open>Runs of the store\<close>

text \<open>One rule per operation that writes; the observations come out of the constructor, so their state is
  present or excluded.\<close>

inductive ledger_step :: "ledger \<Rightarrow> ledger \<Rightarrow> bool" where
  observe: "list_all (\<lambda>x. observed_post_init x = Inr x) observed \<Longrightarrow>
     ledger_step l (snd (commit_observed i profile version sha observed now l))"
| pending: "ledger_step l (snd (mark_retire_pending i names reason evidence successors b now l))"
| blocked: "ledger_step l (snd (mark_retire_blocked ids b now l))"
| retired: "ledger_step l (snd (commit_retired repo_id n reason ev su sha row_id now l))"
| repo_removed: "ledger_step l (snd (mark_repo_removed i now l))"
| repo_deleted: "ledger_step l (snd (delete_repo_row i l))"
| orphan: "ledger_step l (snd (record_orphan_retired i n profile version path file sha at ev su head_sha now l))"
| successor: "ledger_step l (snd (record_successor row_id s now l))"
| parsed: "ledger_step l (snd (record_full_parses i version parses stamp now l))"
| unparsed: "ledger_step l (snd (clear_full_parses i version names now l))"
| rewrite: "ledger_step l (snd (mark_needs_rewrite i n clk now l))"
| dependents: "ledger_step l (snd (flag_dependents version names pend excluded ticks now l))"
| rewritten: "ledger_step l (snd (clear_needs_rewrite i names read_at now l))"
| apply_pending: "ledger_step l (snd (apply_pending_rewrites i version names written read_at now l))"
| consumed: "ledger_step l (snd (consume_needs_rewrite i now l))"
| synced: "ledger_step l (snd (mark_presence_synced i sha l))"
| attention: "ledger_step l (snd (set_lifecycle_attention i text now l))"
| no_attention: "ledger_step l (snd (clear_lifecycle_attention i l))"
| renamed: "ledger_step l (snd (rename_profile old_name new_name now l))"

lemma observed_states: "list_all (\<lambda>x. observed_post_init x = Inr x) observed \<Longrightarrow> x \<in> set observed \<Longrightarrow> o_state x \<noteq> St_retired"
  by (auto simp: list_all_iff observed_post_init_def split: if_splits mstate.splits)

lemma ledger_step_good: "ledger_step l l' \<Longrightarrow> good_step l l'"
proof (induction rule: ledger_step.induct)
  case (observe observed l i profile version sha now)
  then show ?case using steps_commit_observed [OF observed_states] by (simp add: steps_def)
qed (use steps_mark_retire_pending steps_other steps_commit_retired steps_mark_repo_removed steps_delete_repo_row
      steps_record_orphan_retired steps_record_successor steps_rewrite_flags steps_flag_dependents steps_repo_columns in
      \<open>simp_all add: steps_def\<close>)

lemma ledger_steps_good: "ledger_step\<^sup>*\<^sup>* l l' \<Longrightarrow> good_step l l'"
  by (induction rule: rtranclp_induct) (auto intro: ledger_run.step_refl ledger_run.step_trans ledger_step_good)

text \<open>C12. The ledger is history: from a table that satisfies the constraints, any sequence of store
  operations keeps them, deletes no row, and keeps of every row its name, when it was first seen and,
  until it is observed again (the resurrection count grows), the state, reason, time, removing
  commit and successor it was retired with.\<close>

theorem ledger_history_kept:
  assumes "ledger_inv l" and "ledger_step\<^sup>*\<^sup>* l l'"
  shows "ledger_inv l' \<and> (\<forall>r \<in> set (l_rows l). \<exists>r' \<in> set (l_rows l'). p_id r' = p_id r \<and> p_name r' = p_name r \<and>
    p_first_seen_sha r' = p_first_seen_sha r \<and> p_first_seen_at r' = p_first_seen_at r \<and>
    p_resurrection_count r \<le> p_resurrection_count r' \<and>
    (p_state r = St_retired \<and> p_resurrection_count r' = p_resurrection_count r \<longrightarrow> retirement_kept r r'))"
  using ledger_steps_good [OF assms(2)] assms(1) unfolding good_step_def hist_all_def row_hist_def by blast

subsection \<open>The diff predicts the commit\<close>

definition diff_names :: "presence_diff \<Rightarrow> string list" where
  "diff_names d = d_added d @ d_resurrected d @ d_became_present d @ map fst (d_became_excluded d) @ d_reason_changed d @ d_unchanged d"

lemma mset_names_with:
  "mset (names_with Added l i obs @ names_with Resurrected l i obs @ names_with Became_present l i obs @ names_with Became_excluded l i obs @
     names_with Reason_changed l i obs @ names_with Unchanged l i obs) = mset (map o_name obs)"
proof (induction obs)
  case Nil
  then show ?case by (simp add: names_with_def)
next
  case (Cons x obs)
  then show ?case by (cases "change_of l i x") (auto simp: names_with_def)
qed

lemma change_of_inserted: "change_of l i x = Added \<longleftrightarrow> row_of l i (o_name x) = None"
  "change_of l i x = Resurrected \<longleftrightarrow> (case row_of l i (o_name x) of None \<Rightarrow> False | Some r \<Rightarrow> p_state r = St_retired)"
  by (auto simp: change_of_def split: option.splits if_splits)

lemma row_of_in: "row_of l i n = Some r \<Longrightarrow> r \<in> set (l_rows l) \<and> p_repo_id r = Some i \<and> p_name r = n"
  by (auto simp: row_of_def find_Some_iff)

lemma change_of_changed:
  assumes "ledger_inv l" and "observed_post_init x = Inr x"
  shows "change_of l i x \<in> {Became_present, Became_excluded, Reason_changed} \<longleftrightarrow>
    (case row_of l i (o_name x) of None \<Rightarrow> False
     | Some r \<Rightarrow> p_state r \<noteq> St_retired \<and> (p_state r, p_exclusion_reason r) \<noteq> (o_state x, o_exclusion_reason x))"
proof (cases "row_of l i (o_name x)")
  case None
  then show ?thesis by (simp add: change_of_def)
next
  case (Some r)
  then have "row_ok (l_merge_ok l) r" using assms(1) row_of_in [OF Some] by (auto simp: ledger_inv_def dest: rows_okD)
  then have r: "p_state r = St_excluded \<longleftrightarrow> p_exclusion_reason r \<noteq> None" by (simp add: row_ok_def)
  have x: "o_state x \<noteq> St_retired" "o_state x = St_present \<longleftrightarrow> o_exclusion_reason x = None"
    using assms(2) by (auto simp: observed_post_init_def split: if_splits mstate.splits)
  show ?thesis
    using r x by (cases "p_state r"; cases "o_state x") (auto simp: change_of_def Some)
qed

lemma filter_disj_mset: "(\<And>x. x \<in> set xs \<Longrightarrow> \<not> (P x \<and> Q x)) \<Longrightarrow> mset (filter P xs) + mset (filter Q xs) = mset (filter (\<lambda>x. P x \<or> Q x) xs)"
  by (induction xs) auto

text \<open>C22. The read-only diff and the commit agree: the diff puts every observed name in exactly one class, and what
  the commit of the same scan then reports as inserted, resurrected, changed and no longer pending are
  the classes of the diff.\<close>

theorem diff_predicts_commit:
  assumes "ledger_inv l" and "list_all (\<lambda>x. observed_post_init x = Inr x) observed"
    and "ledger_diff i observed l = (Inr d, l)" and "commit_observed i profile version sha observed now l = (Inr c, l')"
  shows "mset (diff_names d) = mset (map o_name observed) \<and> c_inserted c = d_added d \<and> c_resurrected c = d_resurrected d \<and>
    set (c_state_changed c) = set (d_became_present d) \<union> fst ` set (d_became_excluded d) \<union> set (d_reason_changed d) \<and>
    c_pending_cleared c = d_pending_cleared d"
proof -
  let ?obs = "sort_key o_name observed"
  have d: "d_added d = names_with Added l i ?obs" "d_resurrected d = names_with Resurrected l i ?obs"
    "d_became_present d = names_with Became_present l i ?obs" "map fst (d_became_excluded d) = names_with Became_excluded l i ?obs"
    "d_reason_changed d = names_with Reason_changed l i ?obs" "d_unchanged d = names_with Unchanged l i ?obs"
    "d_pending_cleared d = pending_cleared_names l i ?obs"
    using assms(3) by (auto simp: ledger_diff_def index_observed_def Let_def names_with_def comp_def split: if_splits option.splits)
  have "c = commit_report l i ?obs"
  proof (cases "observed = []")
    case True
    then show ?thesis using assms(4)
      by (auto simp: commit_observed_def tx_def index_observed_def commit_report_def pending_cleared_names_def split: if_splits)
  next
    case False
    then have "?obs \<noteq> []" by (metis set_empty set_sort)
    then show ?thesis using assms(4)
      by (auto simp: commit_observed_def tx_def index_observed_def split: if_splits option.splits prod.splits sum.splits)
  qed
  note c = this [unfolded commit_report_def]
  have "set (map o_name (filter (\<lambda>x. change_of l i x \<in> {Became_present, Became_excluded, Reason_changed}) ?obs)) =
      set (names_with Became_present l i ?obs) \<union> set (names_with Became_excluded l i ?obs) \<union> set (names_with Reason_changed l i ?obs)"
    by (auto simp: names_with_def)
  moreover have "filter (\<lambda>x. change_of l i x \<in> {Became_present, Became_excluded, Reason_changed}) ?obs =
      filter (\<lambda>o1. case row_of l i (o_name o1) of None \<Rightarrow> False
         | Some r \<Rightarrow> p_state r \<noteq> St_retired \<and> (p_state r, p_exclusion_reason r) \<noteq> (o_state o1, o_exclusion_reason o1)) ?obs"
    using assms(2) by (intro filter_cong refl change_of_changed [OF assms(1)]) (simp add: list_all_iff)
  ultimately have "set (c_state_changed c) =
      set (names_with Became_present l i ?obs) \<union> set (names_with Became_excluded l i ?obs) \<union> set (names_with Reason_changed l i ?obs)"
    unfolding c commit_result.select_convs by (simp only:)
  moreover have "c_inserted c = d_added d" "c_resurrected c = d_resurrected d" "c_pending_cleared c = d_pending_cleared d"
    by (simp_all add: c d names_with_def change_of_inserted)
  moreover have "mset (diff_names d) = mset (map o_name observed)"
    using mset_names_with [of l i ?obs] by (simp add: diff_names_def d)
  moreover have "fst ` set (d_became_excluded d) = set (names_with Became_excluded l i ?obs)" by (metis d(4) list.set_map)
  ultimately show ?thesis by (simp add: d)
qed

subsection \<open>Rewrite flags\<close>

lemma count_concat_one: "a \<in> set xs \<Longrightarrow> m \<le> count_list (f a) k \<Longrightarrow> m \<le> count_list (concat (map f xs)) k"
  by (induction xs) auto

lemma count_concat_two:
  "a \<in> set xs \<Longrightarrow> b \<in> set xs \<Longrightarrow> a \<noteq> b \<Longrightarrow> 1 \<le> count_list (f a) k \<Longrightarrow> 1 \<le> count_list (f b) k \<Longrightarrow>
     2 \<le> count_list (concat (map f xs)) k"
proof (induction xs)
  case Nil
  then show ?case by simp
next
  case (Cons x xs)
  consider "x = a" "b \<in> set xs" | "x = b" "a \<in> set xs" | "a \<in> set xs" "b \<in> set xs" using Cons.prems by auto
  then show ?case
  proof cases
    case 1
    with count_concat_one [of b xs 1 f k] Cons.prems show ?thesis by simp
  next
    case 2
    with count_concat_one [of a xs 1 f k] Cons.prems show ?thesis by simp
  next
    case 3
    with Cons show ?thesis by simp
  qed
qed

lemma pending_keys_two:
  assumes "(b, n) \<in> set pairs" and "r1 \<in> set (l_rows l)" "r2 \<in> set (l_rows l)" "p_id r1 \<noteq> p_id r2"
    and "\<forall>r \<in> {r1, r2}. p_repo_id r = Some i \<and> p_odoo_version r = version \<and> p_repo_basename r = b"
    and "i \<notin> set excluded" and "\<not> list_ex (\<lambda>r. is_row i n r \<and> p_state r = St_present) (l_rows l)"
  shows "2 \<le> count_list (pending_keys l version pairs excluded) (version, i, n)"
  unfolding pending_keys_def
proof (rule count_concat_one [OF assms(1)], unfold prod.case, rule count_concat_two [OF assms(2,3)])
  show "r1 \<noteq> r2" using assms(4) by auto
qed (use assms(5-7) in auto)

lemma enumerate_two:
  "2 \<le> count_list ks k \<Longrightarrow> \<exists>a b. a < b \<and> b < length ks \<and> ks ! a = k \<and> ks ! b = k"
proof (induction ks)
  case Nil
  then show ?case by simp
next
  case (Cons x ks)
  show ?case
  proof (cases "x = k \<and> count_list ks k < 2")
    case True
    then have "count_list ks k \<noteq> 0" using Cons.prems by auto
    then obtain b where "b < length ks" "ks ! b = k" by (metis count_list_0_iff in_set_conv_nth)
    then show ?thesis using True by (intro exI [of _ 0] exI [of _ "Suc b"]) simp
  next
    case False
    then have "2 \<le> count_list ks k" using Cons.prems by (cases "x = k") auto
    then obtain a b where "a < b" "b < length ks" "ks ! a = k" "ks ! b = k" using Cons.IH by blast
    then show ?thesis by (intro exI [of _ "Suc a"] exI [of _ "Suc b"]) simp
  qed
qed

lemma pending_entries_clash:
  assumes "2 \<le> count_list ks k" and "strict_mono ticks"
  shows "\<not> distinct (map fst (pending_entries ticks ks))"
proof
  assume d: "distinct (map fst (pending_entries ticks ks))"
  obtain a b where ab: "a < b" "b < length ks" "ks ! a = k" "ks ! b = k" using enumerate_two [OF assms(1)] by blast
  have in_set: "(k, ticks (Suc j)) \<in> set (pending_entries ticks ks)" if "j < length ks" "ks ! j = k" for j
    using that by (force simp: pending_entries_def enumerate_eq_zip set_zip)
  have "(k, ticks (Suc a)) = (k, ticks (Suc b))"
    using d in_set [of a] in_set [of b] ab by (metis eq_key_imp_eq_value order_less_trans)
  with ab(1) assms(2) show False by (metis Suc_less_eq less_irrefl prod.inject strict_mono_less)
qed

lemma list_ex_map_eq: "list_ex Q (map h rows) = list_ex (\<lambda>r. Q (h r)) rows"
  by (induction rows) simp_all

lemma pending_keys_update:
  assumes "\<And>r. side_columns r (f r)" and "\<And>r. p_odoo_version (f r) = p_odoo_version r" and "\<And>r. p_repo_basename (f r) = p_repo_basename r"
  shows "pending_keys (l\<lparr>l_rows := map (\<lambda>r. if P r then f r else r) (l_rows l)\<rparr>) version pairs excluded = pending_keys l version pairs excluded"
proof -
  let ?g = "\<lambda>r. if P r then f r else r"
  have g: "p_odoo_version (?g r) = p_odoo_version r" "p_repo_basename (?g r) = p_repo_basename r" "p_repo_id (?g r) = p_repo_id r"
    "p_name (?g r) = p_name r" "p_state (?g r) = p_state r" for r
    using assms [of r] by (simp_all add: side_columns_def)
  have "list_ex (\<lambda>r. is_row i n r \<and> p_state r = St_present) (map ?g rows) = list_ex (\<lambda>r. is_row i n r \<and> p_state r = St_present) rows" for i n rows
    by (simp only: list_ex_map_eq is_row_def g)
  then show ?thesis unfolding pending_keys_def by (simp add: comp_def g cong: if_cong option.case_cong)
qed

lemma flag_rewrite_columns [simp]:
  "p_odoo_version (flag_rewrite st clk now r) = p_odoo_version r" "p_repo_basename (flag_rewrite st clk now r) = p_repo_basename r"
  "p_name (flag_rewrite st clk now r) = p_name r" "p_repo_id (flag_rewrite st clk now r) = p_repo_id r"
  "p_state (flag_rewrite st clk now r) = p_state r" "p_needs_rewrite (flag_rewrite st clk now r)"
  "p_needs_rewrite_at (flag_rewrite True clk now r) = Some clk"
  by (simp_all add: flag_rewrite_def)

text \<open>What \<open>flag_dependents\<close> does to a table that satisfies the constraints.\<close>

definition dependents_pred :: "string \<Rightarrow> string list \<Rightarrow> int list \<Rightarrow> presence \<Rightarrow> bool" where
  "dependents_pred version names excluded r \<longleftrightarrow> p_odoo_version r = version \<and> p_name r \<in> set names \<and> p_state r = St_present \<and>
     (case p_repo_id r of None \<Rightarrow> False | Some i \<Rightarrow> i \<notin> set excluded)"

definition clean_pairs :: "(string \<times> string) list \<Rightarrow> (string \<times> string) list" where
  "clean_pairs pending = sort (remdups (filter (\<lambda>(b, n). b \<noteq> [] \<and> n \<noteq> []) pending))"

lemma flag_dependents_run:
  assumes "ledger_inv l" and "l_stamps_ok l" and "clean_pairs pending \<noteq> []"
  shows "flag_dependents version names pending excluded ticks now l =
    (let l1 = l\<lparr>l_rows := map (\<lambda>r. if dependents_pred version names excluded r then flag_rewrite True (ticks 0) now r else r) (l_rows l)\<rparr>;
         es = pending_entries ticks (pending_keys l version (clean_pairs pending) excluded)
     in if distinct (map fst es)
        then (Inr (sort (map (\<lambda>r. (the (p_repo_id r), p_name r)) (filter (dependents_pred version names excluded) (l_rows l))), length es),
              l1\<lparr>l_pending := fold put_pending es (filter (\<lambda>e. \<not> snd e < now - PENDING_TTL) (l_pending l))\<rparr>)
        else (Inl Cardinality_violation, l))"
proof -
  define l1 where "l1 = l\<lparr>l_rows := map (\<lambda>r. if dependents_pred version names excluded r then flag_rewrite True (ticks 0) now r else r) (l_rows l)\<rparr>"
  define upd where "upd = (if names = [] then ret [] else update_rows (dependents_pred version names excluded) (flag_rewrite True (ticks 0) now))"
  have upd_run: "upd l = (Inr (map (flag_rewrite True (ticks 0) now) (filter (dependents_pred version names excluded) (l_rows l))), l1)"
  proof (cases "names = []")
    case True
    have "dependents_pred version [] excluded r = False" for r by (simp add: dependents_pred_def)
    with True show ?thesis by (simp add: upd_def l1_def ret_def)
  next
    case False
    then show ?thesis unfolding upd_def l1_def by (simp add: side_update_ok [OF assms(1)])
  qed
  have keys: "pending_keys l1 version pairs excluded = pending_keys l version pairs excluded" for pairs
    unfolding l1_def by (rule pending_keys_update) simp_all
  have pred: "(\<lambda>r. p_odoo_version r = version \<and> p_name r \<in> set names \<and> p_state r = St_present \<and>
      (case p_repo_id r of None \<Rightarrow> False | Some i \<Rightarrow> i \<notin> set excluded)) = dependents_pred version names excluded"
    by (simp add: fun_eq_iff dependents_pred_def)
  have "flag_dependents version names pending excluded ticks now l =
      tx (bindE upd (\<lambda>rows. bindE (insert_pending version (clean_pairs pending) excluded ticks now)
        (\<lambda>written. ret (sort (map (\<lambda>r. (the (p_repo_id r), p_name r)) rows), written)))) l"
    unfolding flag_dependents_def clean_pairs_def [symmetric] pred upd_def using assms(2,3) by (simp add: Let_def bindE_def gets_def)
  also have "\<dots> = (let es = pending_entries ticks (pending_keys l version (clean_pairs pending) excluded)
     in if distinct (map fst es)
        then (Inr (sort (map (\<lambda>r. (the (p_repo_id r), p_name r)) (filter (dependents_pred version names excluded) (l_rows l))), length es),
              l1\<lparr>l_pending := fold put_pending es (filter (\<lambda>e. \<not> snd e < now - PENDING_TTL) (l_pending l))\<rparr>)
        else (Inl Cardinality_violation, l))"
    by (simp add: tx_def bindE_def upd_run insert_pending_def keys Let_def ret_def comp_def) (simp add: l1_def)
  finally show ?thesis by (simp add: l1_def Let_def)
qed

text \<open>The statement that records pending rewrites fails as soon as it has work in a real repository: its
  \<^verbatim>\<open>SELECT DISTINCT\<close> has the clock among its columns, so a repository with two ledger rows at the version
  gives the same key twice, and \<^verbatim>\<open>ON CONFLICT DO UPDATE\<close> raises. Nothing is flagged.\<close>

theorem pending_rewrite_raises:
  assumes "ledger_inv l" and "l_stamps_ok l" and "(b, n) \<in> set pending" "b \<noteq> []" "n \<noteq> []"
    and "r1 \<in> set (l_rows l)" "r2 \<in> set (l_rows l)" "p_id r1 \<noteq> p_id r2"
    and "\<forall>r \<in> {r1, r2}. p_repo_id r = Some i \<and> p_odoo_version r = version \<and> p_repo_basename r = b"
    and "i \<notin> set excluded" and "\<not> list_ex (\<lambda>r. is_row i n r \<and> p_state r = St_present) (l_rows l)" and "strict_mono ticks"
  shows "flag_dependents version names pending excluded ticks now l = (Inl Cardinality_violation, l)"
proof -
  have "(b, n) \<in> set (clean_pairs pending)" using assms(3-5) by (simp add: clean_pairs_def)
  then have "clean_pairs pending \<noteq> []" "2 \<le> count_list (pending_keys l version (clean_pairs pending) excluded) (version, i, n)"
    using pending_keys_two [OF _ assms(6-11)] by auto
  then show ?thesis
    using flag_dependents_run [OF assms(1,2)] pending_entries_clash [OF _ assms(12)] by (simp add: Let_def)
qed

subsection \<open>A sample ledger\<close>

definition sample_repo :: repo where
  "sample_repo = \<lparr>r_id = 7, r_url = ''git@host:addons.git'', r_branch = ''17.0'', r_local_path = ''/srv/addons/'', r_profile_name = ''std'',
     r_profile_version = ''17.0'', r_head_sha = Some ''h1'', r_presence_head_sha = Some ''h1'', r_attention = None, r_attention_at = None\<rparr>"

definition sample_observed :: "string \<Rightarrow> mstate \<Rightarrow> exclusion_reason option \<Rightarrow> observed_module" where
  "sample_observed n st reason = \<lparr>o_name = n, o_path = n, o_manifest_file = ''__manifest__.py'', o_state = st, o_exclusion_reason = reason,
     o_version_raw = None, o_version_mismatch = False, o_shadowed_paths = []\<rparr>"

definition sample_ledger :: ledger where
  "sample_ledger = \<lparr>l_rows =
      [proposed_row 1 sample_repo ''std'' ''17.0'' ''h0'' 10 (sample_observed ''sale'' St_present None),
       (proposed_row 2 sample_repo ''std'' ''17.0'' ''h0'' 10 (sample_observed ''crm'' St_retired None))\<lparr>p_retire_reason := Some Absent\<rparr>],
     l_next_id = 3, l_pending = [], l_repos = [sample_repo], l_merge_ok = True, l_stamps_ok = True\<rparr>"

definition sample_scan_result :: "observed_module list" where
  "sample_scan_result = [sample_observed ''sale'' St_excluded (Some License_skip), sample_observed ''crm'' St_present None,
     sample_observed ''stock'' St_present None]"

lemma sample_inv: "ledger_inv sample_ledger"
  by code_simp

lemma sample_valid: "list_all (\<lambda>x. observed_post_init x = Inr x) sample_scan_result"
  by code_simp

theorem ledger_history_kept_witness:
  "ledger_inv (snd (commit_observed 7 ''std'' ''17.0'' ''h2'' sample_scan_result 20 sample_ledger))"
proof -
  have "ledger_step\<^sup>*\<^sup>* sample_ledger (snd (commit_observed 7 ''std'' ''17.0'' ''h2'' sample_scan_result 20 sample_ledger))"
    using sample_valid by (intro r_into_rtranclp ledger_step.observe)
  from ledger_history_kept [OF sample_inv this] show ?thesis by blast
qed

theorem diff_predicts_commit_witness:
  "\<exists>d c l'. ledger_diff 7 sample_scan_result sample_ledger = (Inr d, sample_ledger) \<and>
     commit_observed 7 ''std'' ''17.0'' ''h2'' sample_scan_result 20 sample_ledger = (Inr c, l') \<and>
     c_resurrected c = d_resurrected d \<and> c_inserted c = d_added d"
proof -
  obtain rd l1 where d: "ledger_diff 7 sample_scan_result sample_ledger = (rd, l1)" by fastforce
  obtain rc l2 where c: "commit_observed 7 ''std'' ''17.0'' ''h2'' sample_scan_result 20 sample_ledger = (rc, l2)" by fastforce
  have "\<not> isl (fst (ledger_diff 7 sample_scan_result sample_ledger))"
    "\<not> isl (fst (commit_observed 7 ''std'' ''17.0'' ''h2'' sample_scan_result 20 sample_ledger))"
    "snd (ledger_diff 7 sample_scan_result sample_ledger) = sample_ledger" by code_simp+
  then obtain d' c' where "rd = Inr d'" "rc = Inr c'" "l1 = sample_ledger" using d c by (cases rd; cases rc) auto
  then show ?thesis using diff_predicts_commit [OF sample_inv sample_valid] d c by blast
qed

theorem pending_rewrite_raises_witness:
  "flag_dependents ''17.0'' [''stock''] [(''addons'', ''stock'')] [] int 20 sample_ledger = (Inl Cardinality_violation, sample_ledger)"
proof -
  let ?r1 = "l_rows sample_ledger ! 0" and ?r2 = "l_rows sample_ledger ! 1"
  have "?r1 \<in> set (l_rows sample_ledger)" "?r2 \<in> set (l_rows sample_ledger)" "p_id ?r1 \<noteq> p_id ?r2"
    "\<forall>r \<in> {?r1, ?r2}. p_repo_id r = Some 7 \<and> p_odoo_version r = ''17.0'' \<and> p_repo_basename r = ''addons''"
    "\<not> list_ex (\<lambda>r. is_row 7 ''stock'' r \<and> p_state r = St_present) (l_rows sample_ledger)" "l_stamps_ok sample_ledger"
    by code_simp+
  moreover have "strict_mono int" by (simp add: strict_mono_def)
  ultimately show ?thesis
    by (intro pending_rewrite_raises [OF sample_inv, where b = "''addons''" and n = "''stock''" and i = 7]) auto
qed

end
