(* ===== verification/Cross_Repo.thy ===== *)
theory Cross_Repo
  imports Ledger_Laws
begin

section \<open>Cross-repository propagation\<close>

text \<open>
  \<^verbatim>\<open>indexer/cross_repo.py\<close>, with the two methods of \<^verbatim>\<open>db/repo_registry.py\<close> it calls. When a run rewrote
  modules, the modules of other repositories that depend on them are flagged in the ledger. The graph
  is the list of its \<^verbatim>\<open>DEPENDS_ON\<close> edges between Module nodes; the rows a query returns are in the order of that
  list. A record of flags says which calls to the databases fail in the run. The walk is shown to be
  a breadth-first search that finds exactly the transitive dependents at their shortest distance, and
  a propagation that reports itself complete to have reached every one of them.
\<close>

subsection \<open>The graph and its queries\<close>

record module_node =
  n_name :: string
  n_version :: string
  n_repo :: "string option"

type_synonym dep_graph = "(module_node \<times> module_node) list"

definition dependent_rows :: "dep_graph \<Rightarrow> string \<Rightarrow> string list \<Rightarrow> string list \<Rightarrow> (string \<times> string option) list" where
  "dependent_rows g version frontier seen =
     remdups (map (\<lambda>(d, _). (n_name d, n_repo d))
       (filter (\<lambda>(d, c). n_version d = version \<and> n_version c = version \<and> n_name c \<in> set frontier \<and> n_name d \<notin> set seen) g))"

definition find_dependent_repos :: "bool \<Rightarrow> dep_graph \<Rightarrow> string \<Rightarrow> string list \<Rightarrow> string list option" where
  "find_dependent_repos fails g version changed =
     (if changed = [] then Some []
      else if fails then None
      else Some (concat (map (\<lambda>r. case r of None \<Rightarrow> [] | Some b \<Rightarrow> [b]) (remdups (map snd (dependent_rows g version changed changed))))))"

subsection \<open>The walk\<close>

text \<open>One hop: the rows are taken in order, the first row of a name counts. The state is what was found, the
  names seen and the next frontier.\<close>

fun take_rows ::
  "nat \<Rightarrow> (string \<times> string option) list \<Rightarrow> (string \<times> string option \<times> nat) list \<times> string list \<times> string list \<Rightarrow>
     (string \<times> string option \<times> nat) list \<times> string list \<times> string list" where
  "take_rows depth [] s = s"
| "take_rows depth ((name, repo) # rows) (found, seen, frontier) =
     take_rows depth rows
       (if name \<in> set seen then (found, seen, frontier)
        else (found @ [(name, repo, depth)], name # seen, name # frontier))"

definition hop ::
  "dep_graph \<Rightarrow> string \<Rightarrow> nat \<Rightarrow> (string \<times> string option \<times> nat) list \<Rightarrow> string list \<Rightarrow> string list \<Rightarrow>
     (string \<times> string option \<times> nat) list \<times> string list \<times> string list" where
  "hop g version depth found seen frontier =
     take_rows (Suc depth) (dependent_rows g version frontier seen) (found, seen, [])"

lemma take_rows_sets:
  assumes "take_rows d rows (found, seen, fr) = (found', seen', fr')"
  shows "set seen' = set seen \<union> fst ` set rows"
    and "set fr' = set fr \<union> (fst ` set rows - set seen)"
    and "keys found' = keys found \<union> (fst ` set rows - set seen)"
  using assms by (induction d rows "(found, seen, fr)" arbitrary: found seen fr rule: take_rows.induct)
    (auto simp: keys_def split: if_splits)

lemma fresh_names_measure:
  assumes "R \<subseteq> N - A" and "finite N" and "A' = A \<union> R" and "F' = R - A"
  shows "card (N - A') + (if F' = {} then 0 else 1) < card (N - A) + 1"
proof (cases "F' = {}")
  case True
  have "card (N - A') \<le> card (N - A)" using assms by (intro card_mono) auto
  with True show ?thesis by simp
next
  case False
  then have "N - A' \<subset> N - A" using assms by blast
  then have "card (N - A') < card (N - A)" using assms(2) by (intro psubset_card_mono) auto
  with False show ?thesis by simp
qed

function walk ::
  "(nat \<Rightarrow> bool) \<Rightarrow> dep_graph \<Rightarrow> string \<Rightarrow> nat \<Rightarrow> (string \<times> string option \<times> nat) list \<Rightarrow> string list \<Rightarrow> string list \<Rightarrow>
     (string \<times> string option \<times> nat) list option" where
  "walk fails g version depth found seen frontier =
     (if frontier = [] then Some found
      else if fails (Suc depth) then None
      else case hop g version depth found seen frontier of
        (found', seen', frontier') \<Rightarrow> walk fails g version (Suc depth) found' seen' frontier')"
  by pat_completeness auto
termination
proof (relation "measure (\<lambda>(_, g, _, _, _, seen, frontier).
    card (n_name ` fst ` set g - set seen) + (if frontier = [] then 0 else 1))")
  fix fails :: "nat \<Rightarrow> bool" and g :: dep_graph and v d found seen frontier found' y seen' frontier'
  assume fr: "frontier \<noteq> []" and "(found', y) = hop g v d found seen frontier" "(seen', frontier') = y"
  then have h: "hop g v d found seen frontier = (found', seen', frontier')" by simp
  let ?rows = "dependent_rows g v frontier seen" and ?names = "n_name ` fst ` set g"
  have rows: "fst ` set ?rows \<subseteq> ?names - set seen" by (force simp: dependent_rows_def)
  have s1: "set seen' = set seen \<union> fst ` set ?rows" by (rule take_rows_sets(1) [OF h [unfolded hop_def]])
  have s2: "set frontier' = fst ` set ?rows - set seen" using take_rows_sets(2) [OF h [unfolded hop_def]] by simp
  have "card (?names - set seen') + (if set frontier' = {} then 0 else 1) < card (?names - set seen) + 1"
    by (rule fresh_names_measure [OF rows _ s1 s2]) simp
  with fr show "((fails, g, v, Suc d, found', seen', frontier'), (fails, g, v, d, found, seen, frontier)) \<in> measure (\<lambda>(_, g, _, _, _, seen, frontier).
    card (n_name ` fst ` set g - set seen) + (if frontier = [] then 0 else 1))"
    by simp
qed simp

declare walk.simps [simp del]

definition find_dependent_modules ::
  "(nat \<Rightarrow> bool) \<Rightarrow> dep_graph \<Rightarrow> string \<Rightarrow> string list \<Rightarrow> (string \<times> string option \<times> nat) list option" where
  "find_dependent_modules fails g version changed =
     (if changed = [] then Some [] else walk fails g version 0 [] changed changed)"

subsection \<open>The repositories\<close>

text \<open>\<^verbatim>\<open>regexp_replace(local_path, '^.*/', '')\<close>: what follows the last slash.\<close>

definition path_tail :: "string \<Rightarrow> string" where
  "path_tail p = rev (takeWhile (\<lambda>c. c \<noteq> CHR ''/'') (rev p))"

definition get_repo_ids_by_local_path_basenames :: "ledger \<Rightarrow> string list \<Rightarrow> string \<Rightarrow> int list" where
  "get_repo_ids_by_local_path_basenames l basenames version =
     (if basenames = [] then []
      else map r_id (filter (\<lambda>r. path_tail (r_local_path r) \<in> set basenames \<and> r_profile_version r = version) (l_repos l)))"

definition reset_head_sha :: "int list \<Rightarrow> nat lm" where
  "reset_head_sha ids =
     (if ids = [] then ret 0
      else (\<lambda>l. (Inr (length (filter (\<lambda>r. r_id r \<in> set ids) (l_repos l))),
                 l\<lparr>l_repos := map (\<lambda>r. if r_id r \<in> set ids then r\<lparr>r_head_sha := None\<rparr> else r) (l_repos l)\<rparr>)))"

subsection \<open>The propagation\<close>

record propagation_result =
  pr_dependents :: nat
  pr_marked :: "(int \<times> string list) list"
  pr_reset_repo_ids :: "int list"
  pr_walk_failed :: bool
  pr_complete :: bool
  pr_pending :: nat

definition start_result :: propagation_result where
  "start_result = \<lparr>pr_dependents = 0, pr_marked = [], pr_reset_repo_ids = [], pr_walk_failed = False, pr_complete = True, pr_pending = 0\<rparr>"

definition add_marked :: "int \<times> string \<Rightarrow> (int \<times> string list) list \<Rightarrow> (int \<times> string list) list" where
  "add_marked p marked =
     (if fst p \<in> keys marked then map (\<lambda>(i, ns). (i, if i = fst p then ns @ [snd p] else ns)) marked else marked @ [(fst p, [snd p])])"

text \<open>The calls of one propagation that fail: the hops of the walk, the one-hop query, the lookup of
  the repositories, the ledger write, the ledger read and the reset.\<close>

record outage =
  hop_fails :: "nat \<Rightarrow> bool"
  direct_fails :: bool
  lookup_fails :: bool
  flag_fails :: bool
  rows_fail :: bool
  reset_fails :: bool

datatype prop_error = Graph_error | Db_error

type_synonym 'a pm = "(ledger, prop_error, 'a) em"

definition lookup_repos :: "outage \<Rightarrow> string list \<Rightarrow> string \<Rightarrow> int list pm" where
  "lookup_repos o1 basenames version =
     (if basenames \<noteq> [] \<and> lookup_fails o1 then raise_exc Db_error
      else gets (\<lambda>l. get_repo_ids_by_local_path_basenames l basenames version))"

definition reset_repos :: "outage \<Rightarrow> int list \<Rightarrow> nat pm" where
  "reset_repos o1 ids =
     (if ids \<noteq> [] \<and> reset_fails o1 then raise_exc Db_error
      else (\<lambda>l. case reset_head_sha ids l of (Inl _, l') \<Rightarrow> (Inl Db_error, l') | (Inr k, l') \<Rightarrow> (Inr k, l')))"

definition reset_direct_dependent_repos :: "outage \<Rightarrow> dep_graph \<Rightarrow> string \<Rightarrow> string list \<Rightarrow> string list \<Rightarrow> int list pm" where
  "reset_direct_dependent_repos o1 g version changed exclude_basenames =
     (case find_dependent_repos (direct_fails o1) g version changed of
        None \<Rightarrow> raise_exc Graph_error
      | Some bs \<Rightarrow>
          let basenames = sort (remdups (filter (\<lambda>b. b \<notin> set exclude_basenames) bs))
          in if basenames = [] then ret []
             else bindE (lookup_repos o1 basenames version) (\<lambda>ids.
               if ids = [] then ret []
               else seqE (reset_repos o1 ids) (ret (sort ids))))"

text \<open>The ledger half: the flags and pending entries, then which of the repositories have no ledger rows.
  The first component of the result is \<open>None\<close> when the flags could not be written.\<close>

definition try_flag ::
  "outage \<Rightarrow> string \<Rightarrow> string list \<Rightarrow> (string \<times> string) list \<Rightarrow> int list \<Rightarrow> (nat \<Rightarrow> int) \<Rightarrow> int \<Rightarrow>
     ((int \<times> string) list \<times> nat) option pm" where
  "try_flag o1 version names pending excluded ticks now = (\<lambda>l.
     if flag_fails o1 then (Inr None, l)
     else case flag_dependents version names pending excluded ticks now l of
       (Inl _, l') \<Rightarrow> (Inr None, l')
     | (Inr x, l') \<Rightarrow> (Inr (Some x), l'))"

definition dependent_basenames :: "(string \<times> string option \<times> nat) list \<Rightarrow> string list \<Rightarrow> string list" where
  "dependent_basenames found exclude_basenames =
     sort (remdups (concat (map (\<lambda>(_, r, _). case r of None \<Rightarrow> [] | Some b \<Rightarrow> if b \<in> set exclude_basenames then [] else [b]) found)))"

definition dependent_pairs :: "(string \<times> string option \<times> nat) list \<Rightarrow> string list \<Rightarrow> (string \<times> string) list" where
  "dependent_pairs found exclude_basenames =
     sort (remdups (concat (map (\<lambda>(n, r, _). case r of None \<Rightarrow> [] | Some b \<Rightarrow> if b \<in> set exclude_basenames then [] else [(b, n)]) found)))"

definition propagate_found ::
  "outage \<Rightarrow> (string \<times> string option \<times> nat) list \<Rightarrow> string \<Rightarrow> int option \<Rightarrow> string list \<Rightarrow> bool \<Rightarrow> (nat \<Rightarrow> int) \<Rightarrow> int \<Rightarrow>
     propagation_result pm" where
  "propagate_found o1 found version exclude_repo_id exclude_basenames ledger ticks now =
     bindE (lookup_repos o1 (dependent_basenames found exclude_basenames) version) (\<lambda>fallback_ids.
     bindE (if ledger
            then try_flag o1 version (sort (map fst found)) (dependent_pairs found exclude_basenames)
                   (case exclude_repo_id of None \<Rightarrow> [] | Some i \<Rightarrow> [i]) ticks now
            else ret None) (\<lambda>flagged.
     bindE (case flagged of
              Some _ \<Rightarrow> if fallback_ids = [] \<or> rows_fail o1 then ret fallback_ids else gets (\<lambda>l. repo_ids_without_rows l fallback_ids version)
            | None \<Rightarrow> ret fallback_ids) (\<lambda>ids.
     bindE (if ids = [] then ret 0 else reset_repos o1 ids) (\<lambda>n.
       ret \<lparr>pr_dependents = length found,
            pr_marked = (case flagged of None \<Rightarrow> [] | Some (pairs, _) \<Rightarrow> fold add_marked pairs []),
            pr_reset_repo_ids = (if n = 0 then [] else sort ids),
            pr_walk_failed = False,
            pr_complete = (\<not> (ledger \<and> flagged = None)),
            pr_pending = (case flagged of None \<Rightarrow> 0 | Some (_, w) \<Rightarrow> w)\<rparr>))))"

definition propagate_to_dependents ::
  "outage \<Rightarrow> dep_graph \<Rightarrow> string \<Rightarrow> string list \<Rightarrow> int option \<Rightarrow> string list \<Rightarrow> bool \<Rightarrow> (nat \<Rightarrow> int) \<Rightarrow> int \<Rightarrow>
     propagation_result pm" where
  "propagate_to_dependents o1 g version changed exclude_repo_id exclude_basenames ledger ticks now =
     (case find_dependent_modules (hop_fails o1) g version changed of
        None \<Rightarrow>
          bindE (try_except (reset_direct_dependent_repos o1 g version changed exclude_basenames) (\<lambda>_. Some (ret []))) (\<lambda>ids.
            ret (start_result\<lparr>pr_walk_failed := True, pr_complete := False, pr_reset_repo_ids := ids\<rparr>))
      | Some found \<Rightarrow>
          if found = [] then ret start_result
          else propagate_found o1 found version exclude_repo_id exclude_basenames ledger ticks now)"

subsection \<open>The walk is a breadth-first search\<close>

text \<open>\<open>ball g v S k\<close> are the names at distance at most \<open>k\<close> from \<open>S\<close>.\<close>

definition dep_rel :: "dep_graph \<Rightarrow> string \<Rightarrow> (string \<times> string) set" where
  "dep_rel g v = (\<lambda>(d, c). (n_name d, n_name c)) ` {e \<in> set g. n_version (fst e) = v \<and> n_version (snd e) = v}"

definition ball :: "dep_graph \<Rightarrow> string \<Rightarrow> string set \<Rightarrow> nat \<Rightarrow> string set" where
  "ball g v S k = {n. \<exists>j \<le> k. \<exists>c \<in> S. (n, c) \<in> dep_rel g v ^^ j}"

lemma ball_0 [simp]: "ball g v S 0 = S"
  by (auto simp: ball_def)

lemma ball_mono: "j \<le> k \<Longrightarrow> ball g v S j \<subseteq> ball g v S k"
  unfolding ball_def by (auto intro: le_trans)

lemma ball_Suc: "ball g v S (Suc k) = S \<union> {n. \<exists>m \<in> ball g v S k. (n, m) \<in> dep_rel g v}"
proof (intro set_eqI iffI)
  fix n assume "n \<in> ball g v S (Suc k)"
  then obtain j c where jc: "j \<le> Suc k" "c \<in> S" "(n, c) \<in> dep_rel g v ^^ j" by (auto simp: ball_def)
  show "n \<in> S \<union> {n. \<exists>m \<in> ball g v S k. (n, m) \<in> dep_rel g v}"
  proof (cases j)
    case 0
    with jc show ?thesis by simp
  next
    case (Suc i)
    then obtain m where "(n, m) \<in> dep_rel g v" "(m, c) \<in> dep_rel g v ^^ i" using jc(3) by (metis relpow_Suc_E2)
    then show ?thesis using jc(1,2) Suc by (auto simp: ball_def)
  qed
next
  fix n assume "n \<in> S \<union> {n. \<exists>m \<in> ball g v S k. (n, m) \<in> dep_rel g v}"
  then show "n \<in> ball g v S (Suc k)"
  proof
    assume "n \<in> S"
    then show ?thesis using ball_mono [of 0 "Suc k"] by auto
  next
    assume "n \<in> {n. \<exists>m \<in> ball g v S k. (n, m) \<in> dep_rel g v}"
    then obtain m j c where "(n, m) \<in> dep_rel g v" "j \<le> k" "c \<in> S" "(m, c) \<in> dep_rel g v ^^ j" by (auto simp: ball_def)
    then show ?thesis unfolding ball_def by (auto intro!: exI [of _ "Suc j"] relpow_Suc_I2)
  qed
qed

lemma ball_closed:
  assumes "ball g v S (Suc k) = ball g v S k"
  shows "ball g v S (k + j) = ball g v S k"
  by (induction j) (use assms in \<open>simp_all add: ball_Suc\<close>)

lemma take_rows_found:
  assumes "take_rows d rows (found, seen, fr) = (found', seen', fr')" and "keys found \<subseteq> set seen" and "distinct (map fst found)"
  shows "distinct (map fst found') \<and> keys found' \<subseteq> set seen' \<and>
    (\<forall>e \<in> set found'. e \<in> set found \<or> fst e \<notin> set seen \<and> snd (snd e) = d \<and> (fst e, fst (snd e)) \<in> set rows) \<and>
    set found \<subseteq> set found'"
  using assms
proof (induction d rows "(found, seen, fr)" arbitrary: found seen fr rule: take_rows.induct)
  case (2 d n r rows found seen fr)
  show ?case
  proof (cases "n \<in> set seen")
    case True
    with 2(1) [of found seen fr] 2(2-4) show ?thesis by simp blast
  next
    case False
    have "keys (found @ [(n, r, d)]) \<subseteq> set (n # seen)" "distinct (map fst (found @ [(n, r, d)]))"
      using 2(3,4) False by (auto simp: keys_def)
    with 2(1) [of "found @ [(n, r, d)]" "n # seen" "n # fr"] 2(2) False
    have IH: "distinct (map fst found')" "keys found' \<subseteq> set seen'" "set (found @ [(n, r, d)]) \<subseteq> set found'"
      "\<forall>e \<in> set found'. e \<in> set (found @ [(n, r, d)]) \<or> fst e \<notin> set (n # seen) \<and> snd (snd e) = d \<and> (fst e, fst (snd e)) \<in> set rows"
      by simp_all
    have "e \<in> set found \<or> fst e \<notin> set seen \<and> snd (snd e) = d \<and> (fst e, fst (snd e)) \<in> set ((n, r) # rows)" if "e \<in> set found'" for e
      using bspec [OF IH(4) that] False by auto
    then show ?thesis using IH(1-3) by simp
  qed
qed simp

definition walk_inv ::
  "dep_graph \<Rightarrow> string \<Rightarrow> string set \<Rightarrow> nat \<Rightarrow> (string \<times> string option \<times> nat) list \<Rightarrow> string list \<Rightarrow> string list \<Rightarrow> bool" where
  "walk_inv g v S d found seen frontier \<longleftrightarrow>
     set seen = ball g v S d \<and> set frontier = ball g v S d - (if d = 0 then {} else ball g v S (d - 1)) \<and>
     keys found = ball g v S d - S \<and> distinct (map fst found) \<and>
     (\<forall>(n, r, k) \<in> set found. 0 < k \<and> n \<in> ball g v S k - ball g v S (k - 1) \<and>
        (\<exists>e \<in> set g. n_name (fst e) = n \<and> n_version (fst e) = v \<and> n_repo (fst e) = r))"

lemma dep_rel_iff:
  "(n, m) \<in> dep_rel g v \<longleftrightarrow> (\<exists>d c. (d, c) \<in> set g \<and> n_version d = v \<and> n_version c = v \<and> n_name d = n \<and> n_name c = m)"
  by (auto simp: dep_rel_def image_iff)

lemma dependent_rows_iff:
  "(n, r) \<in> set (dependent_rows g v frontier seen) \<longleftrightarrow>
    (\<exists>d c. (d, c) \<in> set g \<and> n_version d = v \<and> n_version c = v \<and> n_name c \<in> set frontier \<and> n_name d \<notin> set seen \<and>
       n_name d = n \<and> n_repo d = r)"
  by (auto simp: dependent_rows_def image_iff)

lemma dependent_rows_names:
  "n \<in> fst ` set (dependent_rows g v frontier seen) \<longleftrightarrow> (\<exists>m \<in> set frontier. (n, m) \<in> dep_rel g v) \<and> n \<notin> set seen"
proof -
  have "n \<in> fst ` set (dependent_rows g v frontier seen) \<longleftrightarrow> (\<exists>r. (n, r) \<in> set (dependent_rows g v frontier seen))" by force
  then show ?thesis unfolding dependent_rows_iff dep_rel_iff by auto
qed

lemma hop_inv:
  assumes "walk_inv g v S d found seen frontier" and h: "hop g v d found seen frontier = (found', seen', frontier')"
  shows "walk_inv g v S (Suc d) found' seen' frontier'"
proof -
  let ?rows = "dependent_rows g v frontier seen"
  note inv = assms(1) [unfolded walk_inv_def]
  have seen: "set seen = ball g v S d" using inv by blast
  have run: "take_rows (Suc d) ?rows (found, seen, []) = (found', seen', frontier')" using h by (simp add: hop_def)
  have new: "fst ` set ?rows = ball g v S (Suc d) - ball g v S d"
  proof -
    have near: "(\<exists>m \<in> ball g v S d. (n, m) \<in> dep_rel g v) \<longleftrightarrow> (\<exists>m \<in> set frontier. (n, m) \<in> dep_rel g v)" if "n \<notin> ball g v S d" for n
    proof (cases d)
      case 0
      then show ?thesis using inv by simp
    next
      case (Suc i)
      then have "\<not> (\<exists>m \<in> ball g v S i. (n, m) \<in> dep_rel g v)" using that by (auto simp: ball_Suc)
      then show ?thesis using inv Suc ball_mono [of i d] by auto
    qed
    have "S \<subseteq> ball g v S d" using ball_mono [of 0 d] by simp
    then have "n \<in> fst ` set ?rows \<longleftrightarrow> n \<in> ball g v S (Suc d) - ball g v S d" for n
      using near [of n] seen unfolding dependent_rows_names by (cases "n \<in> ball g v S d") (auto simp: ball_Suc)
    then show ?thesis by blast
  qed
  have sub: "ball g v S d \<subseteq> ball g v S (Suc d)" "S \<subseteq> ball g v S d" using ball_mono [of d "Suc d"] ball_mono [of 0 d] by simp_all
  note sets = take_rows_sets [OF run, unfolded new]
  have "keys found \<subseteq> set seen" "distinct (map fst found)" using inv by auto
  note tf = take_rows_found [OF run this]
  have "set seen' = ball g v S (Suc d)" "set frontier' = ball g v S (Suc d) - ball g v S d" "keys found' = ball g v S (Suc d) - S"
    using sets inv sub by auto
  moreover have "0 < k \<and> n \<in> ball g v S k - ball g v S (k - 1) \<and>
      (\<exists>e \<in> set g. n_name (fst e) = n \<and> n_version (fst e) = v \<and> n_repo (fst e) = r)" if e: "(n, r, k) \<in> set found'" for n r k
  proof (cases "(n, r, k) \<in> set found")
    case True
    with inv show ?thesis by blast
  next
    case False
    then have "k = Suc d" "(n, r) \<in> set ?rows" using tf e by force+
    moreover then have "n \<in> ball g v S (Suc d) - ball g v S d" using new by force
    ultimately show ?thesis by (force simp: dependent_rows_def)
  qed
  ultimately show ?thesis unfolding walk_inv_def using tf by auto
qed

lemma walk_run:
  assumes "walk_inv g v S d found seen frontier" and "\<forall>k. \<not> fails k"
  shows "\<exists>found' seen' d'. walk fails g v d found seen frontier = Some found' \<and> walk_inv g v S d' found' seen' []"
  using assms
proof (induction fails g v d found seen frontier rule: walk.induct)
  case (1 fails g v d found seen frontier)
  show ?case
  proof (cases "frontier = []")
    case True
    with 1(2) show ?thesis by (auto simp: walk.simps)
  next
    case False
    obtain found' seen' frontier' where h: "hop g v d found seen frontier = (found', seen', frontier')" by (metis prod_cases3)
    have "walk fails g v d found seen frontier = walk fails g v (Suc d) found' seen' frontier'"
      using False 1(3) h by (simp add: walk.simps [of fails g v d])
    moreover have "\<not> fails (Suc d)" using 1(3) by blast
    ultimately show ?thesis using 1(1) [OF False _ h [symmetric] refl hop_inv [OF 1(2) h] 1(3)] by simp
  qed
qed

lemma walk_ends_closed:
  assumes "walk_inv g v S d found seen []"
  shows "ball g v S k \<subseteq> ball g v S d"
proof (cases "k \<le> d")
  case True
  then show ?thesis by (rule ball_mono)
next
  case False
  show ?thesis
  proof (cases d)
    case 0
    then have "S = {}" using assms by (simp add: walk_inv_def)
    then show ?thesis by (simp add: ball_def)
  next
    case (Suc i)
    then have "ball g v S (Suc i) = ball g v S i" using assms ball_mono [of i "Suc i"] by (auto simp: walk_inv_def)
    from ball_closed [OF this, of "k - i"] False Suc show ?thesis using ball_mono [of i d] by simp
  qed
qed

lemma walk_answer:
  assumes "\<forall>k. \<not> fails k"
  shows "\<exists>found. find_dependent_modules fails g v changed = Some found \<and> distinct (map fst found) \<and>
    keys found = {n. \<exists>c \<in> set changed. (n, c) \<in> (dep_rel g v)\<^sup>+} - set changed \<and>
    (\<forall>(n, r, k) \<in> set found. (\<exists>c \<in> set changed. (n, c) \<in> dep_rel g v ^^ k) \<and>
      (\<forall>j < k. \<forall>c \<in> set changed. (n, c) \<notin> dep_rel g v ^^ j) \<and>
      (\<exists>e \<in> set g. n_name (fst e) = n \<and> n_version (fst e) = v \<and> n_repo (fst e) = r))"
proof (cases "changed = []")
  case True
  then show ?thesis by (simp add: find_dependent_modules_def)
next
  case False
  have "walk_inv g v (set changed) 0 [] changed changed" by (simp add: walk_inv_def)
  from walk_run [OF this assms] obtain found seen d where
    run: "walk fails g v 0 [] changed changed = Some found" and inv: "walk_inv g v (set changed) d found seen []" by blast
  have keys: "keys found = ball g v (set changed) d - set changed" and distinct: "distinct (map fst found)"
    and each: "\<forall>(n, r, k) \<in> set found. 0 < k \<and> n \<in> ball g v (set changed) k - ball g v (set changed) (k - 1) \<and>
        (\<exists>e \<in> set g. n_name (fst e) = n \<and> n_version (fst e) = v \<and> n_repo (fst e) = r)"
    using inv unfolding walk_inv_def by (simp_all only: conj_imp_eq_imp_imp)
  have "n \<in> ball g v (set changed) d \<longleftrightarrow> (\<exists>c \<in> set changed. (n, c) \<in> (dep_rel g v)\<^sup>*)" for n
  proof
    assume "n \<in> ball g v (set changed) d"
    then show "\<exists>c \<in> set changed. (n, c) \<in> (dep_rel g v)\<^sup>*" by (auto simp: ball_def rtrancl_power)
  next
    assume "\<exists>c \<in> set changed. (n, c) \<in> (dep_rel g v)\<^sup>*"
    then obtain c k where "c \<in> set changed" "(n, c) \<in> dep_rel g v ^^ k" by (auto simp: rtrancl_power)
    then have "n \<in> ball g v (set changed) k" by (auto simp: ball_def)
    then show "n \<in> ball g v (set changed) d" using walk_ends_closed [OF inv] by blast
  qed
  then have "keys found = {n. \<exists>c \<in> set changed. (n, c) \<in> (dep_rel g v)\<^sup>+} - set changed"
    unfolding keys by (auto simp: rtrancl_eq_or_trancl)
  moreover have near: "(\<exists>c \<in> set changed. (n, c) \<in> dep_rel g v ^^ k) \<and> (\<forall>j < k. \<forall>c \<in> set changed. (n, c) \<notin> dep_rel g v ^^ j)"
    if k: "0 < k" and n: "n \<in> ball g v (set changed) k - ball g v (set changed) (k - 1)" for n k
  proof -
    have far: "\<forall>j < k. \<forall>c \<in> set changed. (n, c) \<notin> dep_rel g v ^^ j" using k n by (auto simp: ball_def)
    obtain j c where "j \<le> k" "c \<in> set changed" "(n, c) \<in> dep_rel g v ^^ j" using n by (auto simp: ball_def)
    with far show ?thesis by (metis le_neq_implies_less)
  qed
  moreover have "find_dependent_modules fails g v changed = Some found" using run False by (simp add: find_dependent_modules_def)
  moreover have "\<forall>(n, r, k) \<in> set found. (\<exists>c \<in> set changed. (n, c) \<in> dep_rel g v ^^ k) \<and>
      (\<forall>j < k. \<forall>c \<in> set changed. (n, c) \<notin> dep_rel g v ^^ j) \<and>
      (\<exists>e \<in> set g. n_name (fst e) = n \<and> n_version (fst e) = v \<and> n_repo (fst e) = r)"
  proof (rule ballI, clarify)
    fix n r k assume "(n, r, k) \<in> set found"
    with each have e: "0 < k" "n \<in> ball g v (set changed) k - ball g v (set changed) (k - 1)"
      "\<exists>e \<in> set g. n_name (fst e) = n \<and> n_version (fst e) = v \<and> n_repo (fst e) = r" by (blast+)
    with near [OF e(1,2)] show "(\<exists>c \<in> set changed. (n, c) \<in> dep_rel g v ^^ k) \<and>
      (\<forall>j < k. \<forall>c \<in> set changed. (n, c) \<notin> dep_rel g v ^^ j) \<and>
      (\<exists>e \<in> set g. n_name (fst e) = n \<and> n_version (fst e) = v \<and> n_repo (fst e) = r)" by simp
  qed
  ultimately show ?thesis using distinct by (intro exI [of _ found]) simp
qed

lemma walk_ignores_late_faults:
  "walk fails g v d found seen frontier = Some r \<Longrightarrow> walk (\<lambda>_. False) g v d found seen frontier = Some r"
proof (induction fails g v d found seen frontier rule: walk.induct)
  case (1 fails g v d found seen frontier)
  then show ?case
    by (cases "hop g v d found seen frontier") (auto simp: walk.simps [of _ g v d found seen frontier] split: if_splits)
qed

lemma found_without_faults:
  "find_dependent_modules fails g v changed = Some r \<Longrightarrow> find_dependent_modules (\<lambda>_. False) g v changed = Some r"
  by (auto simp: find_dependent_modules_def walk_ignores_late_faults split: if_splits)

text \<open>C21. The dependency walk is exact: it ends, also on a cyclic graph, and unless a query failed it returns
  exactly the modules that reach a changed module over dependencies at the version and are not changed
  themselves, each once, with the length of its shortest path as depth and the repository of a
  node of that name.\<close>

theorem dependent_walk_exact:
  "case find_dependent_modules fails g v changed of
     None \<Rightarrow> \<exists>k. fails k
   | Some found \<Rightarrow> distinct (map fst found) \<and>
       keys found = {n. \<exists>c \<in> set changed. (n, c) \<in> (dep_rel g v)\<^sup>+} - set changed \<and>
       (\<forall>(n, r, k) \<in> set found. (\<exists>c \<in> set changed. (n, c) \<in> dep_rel g v ^^ k) \<and>
         (\<forall>j < k. \<forall>c \<in> set changed. (n, c) \<notin> dep_rel g v ^^ j) \<and>
         (\<exists>e \<in> set g. n_name (fst e) = n \<and> n_version (fst e) = v \<and> n_repo (fst e) = r))"
proof (cases "find_dependent_modules fails g v changed")
  case None
  then have "\<exists>k. fails k" using walk_answer [of fails g v changed] by fastforce
  with None show ?thesis by simp
next
  case (Some found)
  then show ?thesis using walk_answer [of "\<lambda>_. False" g v changed] found_without_faults [OF Some] by simp
qed

subsection \<open>What a complete propagation has done\<close>

lemma keys_put_pending: "keys (put_pending e pend) = insert (fst e) (keys pend)"
proof -
  have "map fst (map (\<lambda>d. if fst d = fst e then e else d) pend) = map fst pend" by (induction pend) simp_all
  then have "keys (map (\<lambda>d. if fst d = fst e then e else d) pend) = keys pend" unfolding keys_def by (metis set_map)
  moreover have "keys (pend @ [e]) = insert (fst e) (keys pend)" by (simp add: keys_def)
  ultimately show ?thesis by (simp add: put_pending_def insert_absorb)
qed

lemma keys_fold_put_pending: "keys (fold put_pending es pend) = keys es \<union> keys pend"
  by (induction es arbitrary: pend) (auto simp: keys_put_pending)

lemma keys_pending_entries: "keys (pending_entries ticks ks) = set ks"
proof -
  have "fst ` set (map (\<lambda>(j, k). (k, ticks (Suc j))) (List.enumerate 0 ks)) = snd ` set (List.enumerate 0 ks)"
    by (simp add: image_image case_prod_unfold)
  also have "\<dots> = set ks" by (metis map_snd_enumerate set_map)
  finally show ?thesis by (simp add: pending_entries_def keys_def)
qed

lemma flag_dependents_no_pairs:
  assumes "ledger_inv l" and "clean_pairs pending = []"
  shows "snd (flag_dependents version names pending excluded ticks now l) =
    l\<lparr>l_rows := map (\<lambda>r. if dependents_pred version names excluded r then flag_rewrite (l_stamps_ok l) (ticks 0) now r else r) (l_rows l)\<rparr>"
proof (cases "names = []")
  case True
  have "dependents_pred version [] excluded r = False" for r by (simp add: dependents_pred_def)
  with True assms(2) show ?thesis by (simp add: flag_dependents_def clean_pairs_def [symmetric] ret_def)
next
  case False
  have pred: "(\<lambda>r. p_odoo_version r = version \<and> p_name r \<in> set names \<and> p_state r = St_present \<and>
      (case p_repo_id r of None \<Rightarrow> False | Some i \<Rightarrow> i \<notin> set excluded)) = dependents_pred version names excluded"
    by (simp add: fun_eq_iff dependents_pred_def)
  have "\<And>r. side_columns r (flag_rewrite st clk now r)" for st clk by simp
  note upd = side_update_ok [OF assms(1) this]
  show ?thesis
    unfolding flag_dependents_def clean_pairs_def [symmetric] pred using False assms(2)
    by (simp add: Let_def bindE_def gets_def tx_def upd ret_def)
qed

lemma flag_dependents_done:
  assumes "ledger_inv l" and "l_stamps_ok l" and run: "flag_dependents version names pending excluded ticks now l = (Inr x, l')"
  shows "l_rows l' = map (\<lambda>r. if dependents_pred version names excluded r then flag_rewrite True (ticks 0) now r else r) (l_rows l)"
    and "set (pending_keys l version (clean_pairs pending) excluded) \<subseteq> keys (l_pending l')"
    and "l_repos l' = l_repos l"
proof (atomize (full), goal_cases)
  case 1
  show ?case
  proof (cases "clean_pairs pending = []")
    case True
    then show ?thesis using flag_dependents_no_pairs [OF assms(1) True, of version names excluded ticks now] run assms(2)
      by (simp add: pending_keys_def)
  next
    case False
    then show ?thesis
      using flag_dependents_run [OF assms(1,2) False, of version names excluded ticks now] run
      by (auto simp: Let_def keys_fold_put_pending keys_pending_entries split: if_splits)
  qed
qed

lemma pending_keys_covers:
  assumes "(b, n) \<in> set pairs" and "r \<in> set (l_rows l)" and "p_odoo_version r = v" "p_repo_basename r = b" "p_repo_id r = Some i"
    and "i \<notin> set excluded" and "\<not> (\<exists>r \<in> set (l_rows l). is_row i n r \<and> p_state r = St_present)"
  shows "(v, i, n) \<in> set (pending_keys l v pairs excluded)"
  unfolding pending_keys_def set_concat set_map
  by (rule UN_I [OF imageI [OF assms(1)]], unfold prod.case set_concat set_map, rule UN_I [OF imageI [OF assms(2)]])
    (use assms(3-7) in \<open>simp add: list_ex_iff\<close>)

lemma reset_repos_run:
  assumes "reset_repos o1 ids l = (Inr k, l')"
  shows "l_rows l' = l_rows l \<and> l_pending l' = l_pending l \<and>
    l_repos l' = map (\<lambda>r. if r_id r \<in> set ids then r\<lparr>r_head_sha := None\<rparr> else r) (l_repos l)"
  using assms by (cases "ids = []") (auto simp: reset_repos_def reset_head_sha_def ret_def raise_exc_def split: if_splits)

lemma try_flag_run:
  "try_flag o1 v names pairs excl ticks now l = (Inr (Some x), l') \<Longrightarrow> flag_dependents v names pairs excl ticks now l = (Inr x, l')"
  by (auto simp: try_flag_def split: if_splits sum.splits prod.splits)

lemma propagate_found_run:
  assumes run: "propagate_found o1 found v exclude_repo_id exclude_basenames True ticks now l = (Inr res, l')" and "pr_complete res"
  obtains ids l1 x where "flag_dependents v (sort (map fst found)) (dependent_pairs found exclude_basenames)
      (case exclude_repo_id of None \<Rightarrow> [] | Some i \<Rightarrow> [i]) ticks now l = (Inr x, l1)"
    and "ids = get_repo_ids_by_local_path_basenames l (dependent_basenames found exclude_basenames) v \<or>
      ids = repo_ids_without_rows l1 (get_repo_ids_by_local_path_basenames l (dependent_basenames found exclude_basenames) v) v"
    and "l_rows l' = l_rows l1" "l_pending l' = l_pending l1"
      "l_repos l' = map (\<lambda>r. if r_id r \<in> set ids then r\<lparr>r_head_sha := None\<rparr> else r) (l_repos l1)"
proof -
  let ?fb = "get_repo_ids_by_local_path_basenames l (dependent_basenames found exclude_basenames) v"
  let ?flag = "try_flag o1 v (sort (map fst found)) (dependent_pairs found exclude_basenames) (case exclude_repo_id of None \<Rightarrow> [] | Some i \<Rightarrow> [i]) ticks now"
  have look: "lookup_repos o1 (dependent_basenames found exclude_basenames) v l = (Inr ?fb, l)"
    using run by (cases "lookup_repos o1 (dependent_basenames found exclude_basenames) v l")
      (auto simp: propagate_found_def bindE_def lookup_repos_def raise_exc_def gets_def split: if_splits)
  obtain y l1 where y: "?flag l = (y, l1)" by fastforce
  have "\<exists>x. y = Inr (Some x)"
    using run assms(2) look y unfolding propagate_found_def
    by (cases y) (auto simp: bindE_def ret_def try_flag_def split: sum.splits prod.splits option.splits if_splits)
  then obtain x where x: "y = Inr (Some x)" by blast
  let ?ids = "if ?fb = [] \<or> rows_fail o1 then ?fb else repo_ids_without_rows l1 ?fb v"
  obtain k where "(if ?ids = [] then ret 0 else reset_repos o1 ?ids) l1 = (Inr k, l')"
    using run look y x unfolding propagate_found_def
    by (auto simp: bindE_def ret_def gets_def split: sum.splits prod.splits option.splits if_splits)
  then have "l_rows l' = l_rows l1 \<and> l_pending l' = l_pending l1 \<and>
    l_repos l' = map (\<lambda>r. if r_id r \<in> set ?ids then r\<lparr>r_head_sha := None\<rparr> else r) (l_repos l1)"
    using reset_repos_run [of o1 ?ids l1 k l'] by (cases "?ids = []") (auto simp: ret_def)
  then show thesis using that [of x l1 ?ids] try_flag_run [OF y [unfolded x]] by (auto split: if_splits)
qed

definition unique_nodes :: "dep_graph \<Rightarrow> string \<Rightarrow> bool" where
  "unique_nodes g v \<longleftrightarrow> list_all (\<lambda>(d, _). list_all (\<lambda>(d', _).
     n_name d = n_name d' \<and> n_version d = v \<and> n_version d' = v \<longrightarrow> n_repo d = n_repo d') g) g"

lemma found_of_dependent:
  assumes "find_dependent_modules fails g v changed = Some found" and "unique_nodes g v"
    and "(d, e) \<in> set g" "n_version d = v" "n_name d \<notin> set changed" and "c \<in> set changed" "(n_name d, c) \<in> (dep_rel g v)\<^sup>+"
  shows "\<exists>k. (n_name d, n_repo d, k) \<in> set found"
proof -
  from found_without_faults [OF assms(1)] walk_answer [of "\<lambda>_. False" g v changed]
  have keys: "keys found = {n. \<exists>c \<in> set changed. (n, c) \<in> (dep_rel g v)\<^sup>+} - set changed"
    and each: "\<forall>(n, r, k) \<in> set found. \<exists>e \<in> set g. n_name (fst e) = n \<and> n_version (fst e) = v \<and> n_repo (fst e) = r"
    by (auto simp: Ball_def)
  have "n_name d \<in> keys found" unfolding keys using assms(5-7) by blast
  then obtain r k where f: "(n_name d, r, k) \<in> set found" by (auto simp: keys_def)
  with each obtain e' where "e' \<in> set g" "n_name (fst e') = n_name d" "n_version (fst e') = v" "n_repo (fst e') = r" by blast
  then have "r = n_repo d" using assms(2-4) by (force simp: unique_nodes_def list_all_iff)
  with f show ?thesis by blast
qed

lemma owner_pending:
  assumes "(n, Some b, k) \<in> set found" and "b \<notin> set exb" "b \<noteq> []" "n \<noteq> []"
    and q: "q \<in> set (l_rows l)" "p_odoo_version q = v" "p_repo_basename q = b" "p_repo_id q = Some i" and "Some i \<noteq> ex"
    and none: "\<not> (\<exists>r \<in> set (l_rows l). is_row i n r \<and> p_state r = St_present)"
  shows "(v, i, n) \<in> set (pending_keys l v (clean_pairs (dependent_pairs found exb)) (case ex of None \<Rightarrow> [] | Some i \<Rightarrow> [i]))"
proof (rule pending_keys_covers [OF _ q _ none])
  show "(b, n) \<in> set (clean_pairs (dependent_pairs found exb))"
    using assms(1-4) by (force simp: clean_pairs_def dependent_pairs_def)
  show "i \<notin> set (case ex of None \<Rightarrow> [] | Some i \<Rightarrow> [i])" using assms(9) by (cases ex) auto
qed

lemma owner_reset:
  assumes "(n, Some b, k) \<in> set found" and "b \<notin> set exb"
    and r: "r \<in> set (l_repos l)" "path_tail (r_local_path r) = b" "r_profile_version r = v"
    and none: "\<forall>q \<in> set (l_rows l1). p_repo_id q = Some (r_id r) \<longrightarrow> p_odoo_version q \<noteq> v"
    and ids: "ids = get_repo_ids_by_local_path_basenames l (dependent_basenames found exb) v \<or>
      ids = repo_ids_without_rows l1 (get_repo_ids_by_local_path_basenames l (dependent_basenames found exb) v) v"
  shows "r_id r \<in> set ids"
proof -
  have "path_tail (r_local_path r) \<in> set (dependent_basenames found exb)"
    using assms(1,2) r(2) by (force simp: dependent_basenames_def)
  then have "r_id r \<in> set (get_repo_ids_by_local_path_basenames l (dependent_basenames found exb) v)"
    using r(1,3) by (auto simp: get_repo_ids_by_local_path_basenames_def)
  then show ?thesis using ids none by (auto simp: repo_ids_without_rows_def list_ex_iff)
qed

lemma complete_propagation_run:
  assumes "propagate_to_dependents o1 g v changed ex exb True ticks now l = (Inr res, l')" and "pr_complete res" and "unique_nodes g v"
    and dep: "(d, e) \<in> set g" "n_version d = v" "n_name d \<notin> set changed" "c \<in> set changed" "(n_name d, c) \<in> (dep_rel g v)\<^sup>+"
  obtains found k ids l1 x where "(n_name d, n_repo d, k) \<in> set found"
    and "flag_dependents v (sort (map fst found)) (dependent_pairs found exb) (case ex of None \<Rightarrow> [] | Some i \<Rightarrow> [i]) ticks now l = (Inr x, l1)"
    and "ids = get_repo_ids_by_local_path_basenames l (dependent_basenames found exb) v \<or>
      ids = repo_ids_without_rows l1 (get_repo_ids_by_local_path_basenames l (dependent_basenames found exb) v) v"
    and "l_rows l' = l_rows l1" "l_pending l' = l_pending l1"
      "l_repos l' = map (\<lambda>r. if r_id r \<in> set ids then r\<lparr>r_head_sha := None\<rparr> else r) (l_repos l1)"
proof -
  obtain found where found: "find_dependent_modules (hop_fails o1) g v changed = Some found"
    using assms(1,2) by (auto simp: propagate_to_dependents_def bindE_def ret_def split: option.splits sum.splits prod.splits)
  obtain k where k: "(n_name d, n_repo d, k) \<in> set found" using found_of_dependent [OF found assms(3) dep] by blast
  then have "propagate_found o1 found v ex exb True ticks now l = (Inr res, l')"
    using assms(1) found by (cases found) (auto simp: propagate_to_dependents_def)
  then show thesis by (rule propagate_found_run [OF _ assms(2)]) (rule that [OF k])
qed

text \<open>C14. A propagation with the ledger in use that reports itself complete has reached every transitive dependent that the indexed
  repository neither has changed itself nor owns: each present ledger row of it in another repository is flagged for a rewrite; another
  repository with ledger rows at the version that the graph names as its owner, unless its basename is excluded, has such a row or a
  pending entry its next commit applies; and one without any ledger row at the version has lost its head, so its next run is a full one.
  It is assumed that migration 0007 has run (\<open>l_stamps_ok\<close>), since without its columns nothing is queued though the propagation may
  report itself complete, and that the graph has one Module node per name, which is its constraint.\<close>

theorem complete_propagation_reaches_all:
  assumes "ledger_inv l" and "l_stamps_ok l" and "unique_nodes g v"
    and run: "propagate_to_dependents o1 g v changed ex exb True ticks now l = (Inr res, l')" and "pr_complete res"
    and dep: "(d, e) \<in> set g" "n_version d = v" "n_name d \<notin> set changed" "c \<in> set changed" "(n_name d, c) \<in> (dep_rel g v)\<^sup>+"
  shows "(\<forall>r \<in> set (l_rows l'). p_name r = n_name d \<and> p_odoo_version r = v \<and> p_state r = St_present \<and> p_repo_id r \<notin> {None, ex} \<longrightarrow>
      p_needs_rewrite r) \<and>
    (n_repo d \<in> Some ` (- (set exb \<union> {[]})) \<and> n_name d \<noteq> [] \<longrightarrow>
      (\<forall>q \<in> set (l_rows l'). p_odoo_version q = v \<and> Some (p_repo_basename q) = n_repo d \<and> p_repo_id q \<notin> {None, ex} \<longrightarrow>
        (\<exists>r \<in> set (l_rows l'). p_repo_id r = p_repo_id q \<and> p_name r = n_name d \<and> p_state r = St_present) \<or>
        (v, the (p_repo_id q), n_name d) \<in> keys (l_pending l')) \<and>
      (\<forall>r \<in> set (l_repos l'). Some (path_tail (r_local_path r)) = n_repo d \<and> r_profile_version r = v \<and>
        (\<forall>q \<in> set (l_rows l'). p_repo_id q = Some (r_id r) \<longrightarrow> p_odoo_version q \<noteq> v) \<longrightarrow> r_head_sha r = None))"
proof -
  obtain found k ids l1 x where k: "(n_name d, n_repo d, k) \<in> set found"
    and flag: "flag_dependents v (sort (map fst found)) (dependent_pairs found exb) (case ex of None \<Rightarrow> [] | Some i \<Rightarrow> [i]) ticks now l = (Inr x, l1)"
    and ids: "ids = get_repo_ids_by_local_path_basenames l (dependent_basenames found exb) v \<or>
      ids = repo_ids_without_rows l1 (get_repo_ids_by_local_path_basenames l (dependent_basenames found exb) v) v"
    and l': "l_rows l' = l_rows l1" "l_pending l' = l_pending l1"
      "l_repos l' = map (\<lambda>r. if r_id r \<in> set ids then r\<lparr>r_head_sha := None\<rparr> else r) (l_repos l1)"
    by (rule complete_propagation_run [OF run assms(5,3) dep])
  let ?ex = "case ex of None \<Rightarrow> [] | Some i \<Rightarrow> [i]"
  let ?names = "sort (map fst found)" and ?flag = "flag_rewrite True (ticks 0) now"
  note fl = flag_dependents_done [OF assms(1,2) flag]
  define h where "h = (\<lambda>r. if dependents_pred v ?names ?ex r then ?flag r else r)"
  have rows: "l_rows l' = map h (l_rows l)" using l'(1) fl(1) by (simp add: h_def)
  have h: "p_name (h r) = p_name r" "p_odoo_version (h r) = p_odoo_version r" "p_state (h r) = p_state r"
    "p_repo_id (h r) = p_repo_id r" "p_repo_basename (h r) = p_repo_basename r" for r by (simp_all add: h_def)
  have name: "n_name d \<in> set ?names" using k by force
  have flagged: "p_needs_rewrite (h r)"
    if "p_name r = n_name d" "p_odoo_version r = v" "p_state r = St_present" "p_repo_id r \<notin> {None, ex}" for r
    using that name by (auto simp: h_def dependents_pred_def split: option.splits)
  show ?thesis
  proof (intro conjI impI ballI)
    fix r assume "r \<in> set (l_rows l')" and r: "p_name r = n_name d \<and> p_odoo_version r = v \<and> p_state r = St_present \<and> p_repo_id r \<notin> {None, ex}"
    then obtain r0 where "r = h r0" unfolding rows by auto
    with r flagged [of r0] show "p_needs_rewrite r" by (simp add: h)
  next
    fix q assume b: "n_repo d \<in> Some ` (- (set exb \<union> {[]})) \<and> n_name d \<noteq> []" and "q \<in> set (l_rows l')"
      and q: "p_odoo_version q = v \<and> Some (p_repo_basename q) = n_repo d \<and> p_repo_id q \<notin> {None, ex}"
    then obtain q0 i where q0: "q = h q0" "q0 \<in> set (l_rows l)" and i: "p_repo_id q = Some i" unfolding rows by auto
    show "(\<exists>r \<in> set (l_rows l'). p_repo_id r = p_repo_id q \<and> p_name r = n_name d \<and> p_state r = St_present) \<or>
        (v, the (p_repo_id q), n_name d) \<in> keys (l_pending l')"
    proof (cases "\<exists>r \<in> set (l_rows l). is_row i (n_name d) r \<and> p_state r = St_present")
      case True
      then show ?thesis using i unfolding rows by (auto simp: is_row_def h)
    next
      case False
      obtain b' where b': "n_repo d = Some b'" "b' \<notin> set exb" "b' \<noteq> []" using b by auto
      have "(v, i, n_name d) \<in> set (pending_keys l v (clean_pairs (dependent_pairs found exb)) ?ex)"
        by (rule owner_pending [OF k [unfolded b'] b'(2,3) _ q0(2) _ _ _ _ False]) (use b q q0(1) i b'(1) in \<open>simp_all add: h\<close>)
      then show ?thesis using fl(2) l'(2) i by auto
    qed
  next
    fix r assume b: "n_repo d \<in> Some ` (- (set exb \<union> {[]})) \<and> n_name d \<noteq> []" and "r \<in> set (l_repos l')"
      and r: "Some (path_tail (r_local_path r)) = n_repo d \<and> r_profile_version r = v \<and>
        (\<forall>q \<in> set (l_rows l'). p_repo_id q = Some (r_id r) \<longrightarrow> p_odoo_version q \<noteq> v)"
    then have "r \<in> (\<lambda>r. if r_id r \<in> set ids then r\<lparr>r_head_sha := None\<rparr> else r) ` set (l_repos l)" using l'(3) fl(3) by simp
    then obtain r0 where r0: "r0 \<in> set (l_repos l)" "r = (if r_id r0 \<in> set ids then r0\<lparr>r_head_sha := None\<rparr> else r0)" by (rule imageE)
    obtain b' where b': "n_repo d = Some b'" "b' \<notin> set exb" using b by auto
    have "r_id r0 \<in> set ids"
      by (rule owner_reset [OF k [unfolded b'] b'(2) r0(1) _ _ _ ids]) (use r r0(2) b'(1) l'(1) in \<open>auto split: if_splits\<close>)
    with r0(2) show "r_head_sha r = None" by simp
  qed
qed

text \<open>With a ledger in real use the propagation does not complete: as soon as a dependent has no present row yet
  in its repository, that repository has two ledger rows at the version, and the clock advances between two rows of a
  statement, a propagation that returns is incomplete, and neither a flag nor a pending entry was written, whatever the databases do. The caller
  then keeps its head and repeats the run.\<close>

theorem propagation_blocked:
  assumes "ledger_inv l" and "l_stamps_ok l" and "unique_nodes g v"
    and run: "propagate_to_dependents o1 g v changed ex exb True ticks now l = (Inr res, l')"
    and dep: "(d, e) \<in> set g" "n_version d = v" "n_name d \<notin> set changed" "c \<in> set changed" "(n_name d, c) \<in> (dep_rel g v)\<^sup>+"
    and b: "n_repo d = Some b" "b \<notin> set exb" "b \<noteq> []" "n_name d \<noteq> []"
    and rows: "r1 \<in> set (l_rows l)" "r2 \<in> set (l_rows l)" "p_id r1 \<noteq> p_id r2"
      "\<forall>r \<in> {r1, r2}. p_repo_id r = Some i \<and> p_odoo_version r = v \<and> p_repo_basename r = b"
    and "Some i \<noteq> ex" and none: "\<not> list_ex (\<lambda>r. is_row i (n_name d) r \<and> p_state r = St_present) (l_rows l)" and mono: "strict_mono ticks"
  shows "\<not> pr_complete res \<and> l_rows l' = l_rows l \<and> l_pending l' = l_pending l"
proof (cases "find_dependent_modules (hop_fails o1) g v changed")
  case None
  have st: "steps (\<lambda>l l'. l_rows l' = l_rows l \<and> l_pending l' = l_pending l) (reset_direct_dependent_repos o1 g v changed exb)"
    unfolding reset_direct_dependent_repos_def lookup_repos_def reset_repos_def reset_head_sha_def Let_def
    by (auto simp: steps_def em_simps split: option.splits)
  have kept: "l_rows l1 = l_rows l" "l_pending l1 = l_pending l" if "reset_direct_dependent_repos o1 g v changed exb l = (z, l1)" for z l1
    using stepsD [OF st that] by simp_all
  show ?thesis using None run unfolding propagate_to_dependents_def
    by (auto simp: bindE_def try_except_def ret_def start_result_def dest: kept split: sum.splits prod.splits)
next
  case (Some found)
  let ?ex = "case ex of None \<Rightarrow> [] | Some i \<Rightarrow> [i]"
  obtain k where k: "(n_name d, Some b, k) \<in> set found" using found_of_dependent [OF Some assms(3) dep] b(1) by auto
  then have pf: "propagate_found o1 found v ex exb True ticks now l = (Inr res, l')"
    using run Some by (cases found) (auto simp: propagate_to_dependents_def)
  have "(b, n_name d) \<in> set (dependent_pairs found exb)" using k b(2) by (force simp: dependent_pairs_def)
  moreover have "i \<notin> set ?ex" using assms(18) by (cases ex) auto
  ultimately have "flag_dependents v names (dependent_pairs found exb) ?ex ticks now l = (Inl Cardinality_violation, l)" for names
    using pending_rewrite_raises [OF assms(1,2) _ b(3,4) rows _ none mono] by blast
  then have flag: "try_flag o1 v names (dependent_pairs found exb) ?ex ticks now l = (Inr None, l)" for names by (simp add: try_flag_def)
  show ?thesis using pf unfolding propagate_found_def
    by (auto simp: bindE_def lookup_repos_def flag ret_def gets_def raise_exc_def dest: reset_repos_run split: if_splits sum.splits prod.splits)
qed

subsection \<open>A sample propagation\<close>

definition sample_node :: "string \<Rightarrow> string \<Rightarrow> module_node" where
  "sample_node n repo = \<lparr>n_name = n, n_version = ''17.0'', n_repo = Some repo\<rparr>"

definition sample_deps :: dep_graph where
  "sample_deps = [(sample_node ''sale'' ''addons'', sample_node ''core'' ''odoo''), (sample_node ''sale'' ''addons'', sample_node ''mail'' ''odoo''),
     (sample_node ''mail'' ''odoo'', sample_node ''core'' ''odoo''), (sample_node ''core'' ''odoo'', sample_node ''sale'' ''addons'')]"

definition no_outage :: outage where
  "no_outage = \<lparr>hop_fails = (\<lambda>_. False), direct_fails = False, lookup_fails = False, flag_fails = False, rows_fail = False, reset_fails = False\<rparr>"

theorem dependent_walk_exact_witness:
  "keys [(''sale'', Some ''addons'', 1)] = {n. \<exists>c \<in> set [''core'', ''mail'']. (n, c) \<in> (dep_rel sample_deps ''17.0'')\<^sup>+} - set [''core'', ''mail'']"
proof -
  have "find_dependent_modules (\<lambda>_. False) sample_deps ''17.0'' [''core'', ''mail''] = Some [(''sale'', Some ''addons'', 1)]" by code_simp
  then show ?thesis using dependent_walk_exact [where fails = "\<lambda>_. False" and g = sample_deps and v = "''17.0''" and changed = "[''core'', ''mail'']"] by simp
qed

theorem complete_propagation_reaches_all_witness:
  "\<exists>r \<in> set (l_rows (snd (propagate_to_dependents no_outage sample_deps ''17.0'' [''core'', ''mail''] (Some 3) [''odoo''] True int 20 sample_ledger))).
     p_name r = ''sale'' \<and> p_needs_rewrite r"
proof -
  let ?run = "propagate_to_dependents no_outage sample_deps ''17.0'' [''core'', ''mail''] (Some 3) [''odoo''] True int 20 sample_ledger"
  obtain y l' where run: "?run = (y, l')" by fastforce
  have "case fst ?run of Inl _ \<Rightarrow> False | Inr res \<Rightarrow> pr_complete res" by code_simp
  then obtain res where res: "y = Inr res" "pr_complete res" using run by (cases y) auto
  have facts: "l_stamps_ok sample_ledger" "unique_nodes sample_deps ''17.0''"
    "(sample_node ''sale'' ''addons'', sample_node ''core'' ''odoo'') \<in> set sample_deps"
    "list_ex (\<lambda>r. p_name r = ''sale'' \<and> p_odoo_version r = ''17.0'' \<and> p_state r = St_present \<and> p_repo_id r = Some 7) (l_rows (snd ?run))"
    by code_simp+
  have "(''sale'', ''core'') \<in> dep_rel sample_deps ''17.0''" by code_simp
  then have "(''sale'', ''core'') \<in> (dep_rel sample_deps ''17.0'')\<^sup>+" ..
  then have "\<forall>r \<in> set (l_rows l'). p_name r = ''sale'' \<and> p_odoo_version r = ''17.0'' \<and> p_state r = St_present \<and> p_repo_id r \<notin> {None, Some 3} \<longrightarrow> p_needs_rewrite r"
    using complete_propagation_reaches_all [OF sample_inv facts(1,2) run [unfolded res(1)] res(2) facts(3), of "''core''"]
    by (simp add: sample_node_def)
  then show ?thesis using facts(4) run by (auto simp: list_ex_iff)
qed

theorem propagation_blocked_witness:
  "\<exists>res l'. propagate_to_dependents no_outage ((sample_node ''stock'' ''addons'', sample_node ''core'' ''odoo'') # sample_deps) ''17.0'' [''core''] (Some 3)
     [''odoo''] True int 20 sample_ledger = (Inr res, l') \<and> \<not> pr_complete res"
proof -
  let ?g = "(sample_node ''stock'' ''addons'', sample_node ''core'' ''odoo'') # sample_deps"
  let ?run = "propagate_to_dependents no_outage ?g ''17.0'' [''core''] (Some 3) [''odoo''] True int 20 sample_ledger"
  let ?r1 = "l_rows sample_ledger ! 0" and ?r2 = "l_rows sample_ledger ! 1"
  obtain y l' where run: "?run = (y, l')" by fastforce
  have "\<not> isl (fst ?run)" by code_simp
  then obtain res where res: "y = Inr res" using run by (cases y) auto
  have facts: "l_stamps_ok sample_ledger" "unique_nodes ?g ''17.0''" "(sample_node ''stock'' ''addons'', sample_node ''core'' ''odoo'') \<in> set ?g"
    "(''stock'', ''core'') \<in> dep_rel ?g ''17.0''" by code_simp+
  have rows: "?r1 \<in> set (l_rows sample_ledger)" "?r2 \<in> set (l_rows sample_ledger)" "p_id ?r1 \<noteq> p_id ?r2"
    "\<forall>r \<in> {?r1, ?r2}. p_repo_id r = Some 7 \<and> p_odoo_version r = ''17.0'' \<and> p_repo_basename r = ''addons''"
    "\<not> list_ex (\<lambda>r. is_row 7 ''stock'' r \<and> p_state r = St_present) (l_rows sample_ledger)" by code_simp+
  have "strict_mono int" by (simp add: strict_mono_def)
  with facts rows have "\<not> pr_complete res"
    using propagation_blocked [OF sample_inv facts(1,2) run [unfolded res] facts(3), of "''core''" "''addons''" ?r1 ?r2 7]
    by (simp add: sample_node_def trancl.r_into_trancl)
  then show ?thesis using run res by blast
qed

end
