(* ===== verification/Index_Run.thy ===== *)
theory Index_Run
  imports Run_Plan Registry Cross_Repo
begin

section \<open>The lifecycle half of an index run\<close>

text \<open>
  From \<^verbatim>\<open>indexer/pipeline_repo.py\<close> (and \<^verbatim>\<open>git_utils.py\<close>): what a run observes of a checkout, the verdict on it,
  the modules it writes besides the changed ones, the seed of the propagation, the ledger commit, and
  the end of \<open>_index_repo\<close> that joins propagation, ledger and heads. The parsers and the graph writer are not
  modelled: what the run learns from them (health of the parses, nodes of the graph, how many nodes
  a stamp matched) is given as arguments, as are the answers of git. The ledger rows that the observation read are an argument of the
  commit as well, which may find the ledger changed since.
\<close>

subsection \<open>Git\<close>

text \<open>The raw output of a git command (\<^verbatim>\<open>_git_out\<close>), by directory and arguments.\<close>

type_synonym git_out = "string \<Rightarrow> string list \<Rightarrow> string option"

definition remote_ref :: "string \<Rightarrow> string" where
  "remote_ref branch = ''refs/remotes/origin/'' @ branch @ ''^{commit}''"

definition remote_branch_ref_exists :: "git_out \<Rightarrow> string \<Rightarrow> string option \<Rightarrow> bool" where
  "remote_branch_ref_exists git repo branch =
     (nonempty branch \<and> git repo [''rev-parse'', ''--verify'', ''--quiet'', remote_ref (the branch)] \<noteq> None)"

definition head_matches_remote_branch :: "git_out \<Rightarrow> string \<Rightarrow> string option \<Rightarrow> bool" where
  "head_matches_remote_branch git repo branch =
     (if \<not> nonempty branch then False
      else case git repo [''rev-parse'', ''--verify'', ''--quiet'', ''HEAD^{commit}''] of
        None \<Rightarrow> False
      | Some head \<Rightarrow>
          (case git repo [''rev-parse'', ''--verify'', ''--quiet'', remote_ref (the branch)] of
             Some remote \<Rightarrow> strip head = strip remote
           | None \<Rightarrow>
               (case git repo [''symbolic-ref'', ''--quiet'', ''--short'', ''HEAD''] of
                  None \<Rightarrow> False
                | Some current \<Rightarrow> strip current = the branch)))"

text \<open>\<^verbatim>\<open>str.split()\<close> and \<^verbatim>\<open>str.partition\<close> on the lines of \<^verbatim>\<open>git ls-tree\<close>.\<close>

function py_split :: "string \<Rightarrow> string list" where
  "py_split [] = []"
| "py_split (c # s) =
     (if is_space c then py_split s
      else takeWhile (\<lambda>x. \<not> is_space x) (c # s) # py_split (dropWhile (\<lambda>x. \<not> is_space x) s))"
  by pat_completeness auto
termination by (relation "measure length") (auto simp: le_imp_less_Suc length_dropWhile_le)

definition HEAD_TREE_MAX_DEPTH :: nat where
  "HEAD_TREE_MAX_DEPTH = 4"

definition cut_slashes :: "string \<Rightarrow> string" where
  "cut_slashes p = rev (dropWhile (\<lambda>c. c = CHR ''/'') (rev p))"

text \<open>One entry of the listing: \<open>None\<close> when it cannot be read, the directory of a manifest, or a submodule
  with its path and commit. The first argument counts the levels of submodules still allowed.\<close>

datatype tree_entry = Skip_entry | Manifest_dir string | Gitlink string string

definition tree_entry_of :: "string \<Rightarrow> tree_entry option" where
  "tree_entry_of entry =
     (let meta = takeWhile (\<lambda>c. c \<noteq> CHR 0x09) entry; path = drop 1 (dropWhile (\<lambda>c. c \<noteq> CHR 0x09) entry)
      in case py_split meta of
           [mode, knd, oid] \<Rightarrow>
             Some (if mode = ''160000'' \<or> knd = ''commit'' then Gitlink path oid
               else if knd = ''blob'' \<and> path_name path \<in> set MANIFEST_FILENAMES
               then Manifest_dir (if path_parent path = ''.'' then [] else path_parent path)
               else Skip_entry)
         | _ \<Rightarrow> None)"

fun collect_dirs :: "(string \<Rightarrow> string \<Rightarrow> string list option) \<Rightarrow> string \<Rightarrow> string list \<Rightarrow> string list option" where
  "collect_dirs sub prefix [] = Some []"
| "collect_dirs sub prefix (entry # entries) =
     (if entry = [] then collect_dirs sub prefix entries
      else case tree_entry_of entry of
        None \<Rightarrow> None
      | Some Skip_entry \<Rightarrow> collect_dirs sub prefix entries
      | Some (Manifest_dir d) \<Rightarrow> map_option (\<lambda>ds. (prefix @ d) # ds) (collect_dirs sub prefix entries)
      | Some (Gitlink path oid) \<Rightarrow>
          (case sub path oid of None \<Rightarrow> None | Some ds \<Rightarrow> map_option (\<lambda>es. ds @ es) (collect_dirs sub prefix entries)))"

definition list_tree :: "(string \<Rightarrow> string \<Rightarrow> string list option) \<Rightarrow> git_out \<Rightarrow> string \<Rightarrow> string \<Rightarrow> string \<Rightarrow> string list option" where
  "list_tree sub git repo rv prefix =
     (case git repo [''ls-tree'', ''-r'', ''-z'', ''--full-tree'', rv] of
        None \<Rightarrow> None
      | Some out \<Rightarrow> map_option (map cut_slashes) (collect_dirs sub prefix (split_on (CHR 0x00) out)))"

primrec head_tree_dirs :: "nat \<Rightarrow> git_out \<Rightarrow> string \<Rightarrow> string \<Rightarrow> string \<Rightarrow> string list option" where
  "head_tree_dirs 0 git repo rv prefix = list_tree (\<lambda>_ _. None) git repo rv prefix"
| "head_tree_dirs (Suc k) git repo rv prefix =
     list_tree (\<lambda>path oid. head_tree_dirs k git (path_join repo path) oid (prefix @ path @ ''/'')) git repo rv prefix"

definition head_tree_manifest_dirs :: "git_out \<Rightarrow> string \<Rightarrow> string list option" where
  "head_tree_manifest_dirs git repo =
     (if git repo [''rev-parse'', ''--verify'', ''--quiet'', ''HEAD^{commit}''] = None then None
      else head_tree_dirs HEAD_TREE_MAX_DEPTH git repo ''HEAD'' [])"

definition head_tree_module_names :: "git_out \<Rightarrow> string \<Rightarrow> string list option" where
  "head_tree_module_names git local_path =
     map_option (map (\<lambda>d. if d = [] then path_name (cut_slashes local_path) else path_name d)) (head_tree_manifest_dirs git local_path)"

subsection \<open>The observation\<close>

definition manifest_file_for :: "repo_scan \<Rightarrow> string \<Rightarrow> string" where
  "manifest_file_for scan rel_dir =
     (case find (\<lambda>n. path_str (path_parts rel_dir @ [n]) \<in> rs_finder_paths scan - rs_untracked scan) MANIFEST_FILENAMES of
        Some n \<Rightarrow> n
      | None \<Rightarrow> hd MANIFEST_FILENAMES)"

definition record_names :: "repo_scan \<Rightarrow> string list" where
  "record_names scan = sort (remdups (concat (map (\<lambda>(v, ms). map fst ms) (rs_modules scan))))"

fun record_in :: "(string \<times> (string \<times> module_record) list) list \<Rightarrow> string \<Rightarrow> module_record option" where
  "record_in [] n = None"
| "record_in ((v, ms) # rest) n = (case map_of ms n of Some i \<Rightarrow> Some i | None \<Rightarrow> record_in rest n)"

definition shadowed_of :: "repo_scan \<Rightarrow> string \<Rightarrow> string list" where
  "shadowed_of scan n = (case map_of (rs_shadowed scan) n of None \<Rightarrow> [] | Some ds \<Rightarrow> ds)"

definition raw_or_none :: "string \<Rightarrow> string option" where
  "raw_or_none s = (if s = [] then None else Some s)"

definition exclusion_of :: "string \<Rightarrow> exclusion_reason option" where
  "exclusion_of s = map_of [(''installable_false'', Installable_false), (''license_skip'', License_skip), (''unparseable'', Unparseable)] s"

definition observe_present :: "repo_scan \<Rightarrow> string \<Rightarrow> module_record \<Rightarrow> observed_module" where
  "observe_present scan n i =
     (let rel = to_repo_relative (m_path i) (m_repo_root i)
      in \<lparr>o_name = n, o_path = rel, o_manifest_file = manifest_file_for scan rel, o_state = St_present, o_exclusion_reason = None,
          o_version_raw = raw_or_none (m_version_raw i), o_version_mismatch = m_version_mismatch i, o_shadowed_paths = shadowed_of scan n\<rparr>)"

definition observe_excluded :: "repo_scan \<Rightarrow> string \<Rightarrow> excluded_record \<Rightarrow> observed_module" where
  "observe_excluded scan n ex =
     \<lparr>o_name = n, o_path = ex_path ex, o_manifest_file = ex_manifest_file ex, o_state = St_excluded, o_exclusion_reason = exclusion_of (ex_reason ex),
      o_version_raw = raw_or_none (ex_version_raw ex), o_version_mismatch = ex_version_mismatch ex, o_shadowed_paths = shadowed_of scan n\<rparr>"

text \<open>Every constructed value passes its \<^verbatim>\<open>__post_init__\<close>, which raises on an empty name or an unknown reason.\<close>

definition observed_modules :: "repo_scan \<Rightarrow> ledger_error + observed_module list" where
  "observed_modules scan =
     map_sum_list observed_post_init
       (map (\<lambda>n. observe_present scan n (the (record_in (rs_modules scan) n))) (record_names scan) @
        map (\<lambda>n. observe_excluded scan n (the (map_of (rs_excluded scan) n)))
          (filter (\<lambda>n. record_in (rs_modules scan) n = None) (sort (map fst (rs_excluded scan)))))"

subsection \<open>The verdict\<close>

definition state_text :: "mstate \<Rightarrow> string" where
  "state_text s = (case s of St_present \<Rightarrow> ''present'' | St_excluded \<Rightarrow> ''excluded'' | St_retired \<Rightarrow> ''retired'')"

definition reason_text :: "exclusion_reason \<Rightarrow> string" where
  "reason_text x = (case x of Installable_false \<Rightarrow> ''installable_false'' | License_skip \<Rightarrow> ''license_skip'' | Unparseable \<Rightarrow> ''unparseable'')"

definition lifecycle_row :: "presence \<Rightarrow> presence_row" where
  "lifecycle_row r = \<lparr>row_name = p_name r, row_state = Some (state_text (p_state r)),
     row_reason = map_option reason_text (p_exclusion_reason r), row_path = Some (p_path r)\<rparr>"

definition rows_for_repo :: "ledger \<Rightarrow> int \<Rightarrow> presence list" where
  "rows_for_repo l i = sort_key p_name (repo_rows l i)"

definition presence_head_sha :: "ledger \<Rightarrow> int \<Rightarrow> ledger_error + string option" where
  "presence_head_sha l i = (case find_repo l i of None \<Rightarrow> Inl Repo_not_found | Some r \<Rightarrow> Inr (r_presence_head_sha r))"

definition present_owner_basenames :: "ledger \<Rightarrow> string \<Rightarrow> string \<Rightarrow> string list" where
  "present_owner_basenames l version n = sort (remdups (map p_repo_basename (filter (\<lambda>r. p_name r = n) (live_present l version))))"

datatype run_attention =
    Scan_attention attention
  | Tracking_unavailable
  | No_remote_ref string
  | No_git_head
  | No_branch
  | Gate_attention gate_reason

definition git_trust_attention :: "git_out \<Rightarrow> string \<Rightarrow> string option \<Rightarrow> bool \<Rightarrow> run_attention list" where
  "git_trust_attention git repo branch tracked =
     (if \<not> tracked then [Tracking_unavailable]
      else if nonempty branch \<and> \<not> remote_branch_ref_exists git repo branch then [No_remote_ref (the branch)] else [])"

record observation =
  lo_trusted :: bool
  lo_lifecycle_on :: bool
  lo_rows :: "presence list"
  lo_transitions :: transitions
  lo_gates :: gate_result
  lo_attention :: "run_attention list"
  lo_unparseable_kept :: "string list"

text \<open>What the run can ask of git and of the graph: ancestry, the last commit that removed a path, the parent of a commit,
  whether a commit exists, the changed files between two commits and the files of the checkout; the node of a module, the
  modules the graph has for the repository and profile, and how many nodes a presence stamp matches.\<close>

record git_view =
  gv_out :: git_out
  gv_fields :: git_oracle
  gv_ancestor :: "string \<Rightarrow> string \<Rightarrow> bool"
  gv_removing :: "string \<Rightarrow> commit_hit option"
  gv_rev_parse :: "string \<Rightarrow> string option"
  gv_commit_exists :: "string \<Rightarrow> bool"
  gv_changed_files :: "string \<Rightarrow> string option \<Rightarrow> string list option"
  gv_is_file :: "string \<Rightarrow> bool"

record node_identity =
  ni_profile :: "string list"
  ni_repo :: "string option"
  ni_repo_id :: "int option"
  ni_path :: "string option"

record graph_view =
  gw_identity :: "string \<Rightarrow> string \<Rightarrow> node_identity option"
  gw_baseline :: "(string \<times> string) list"
  gw_stamped :: "string list \<Rightarrow> nat"

definition observe_lifecycle ::
  "git_view \<Rightarrow> graph_view option \<Rightarrow> repo \<Rightarrow> string option \<Rightarrow> repo_scan \<Rightarrow> ledger option \<Rightarrow> string option \<Rightarrow> bool \<Rightarrow> string option \<Rightarrow>
     ledger_error + observation" where
  "observe_lifecycle gv writer repo branch scan ledger current_head allow_mass_retire last_head =
     (let path = r_local_path repo;
          trusted = head_matches_remote_branch (gv_out gv) path branch;
          on = (ledger \<noteq> None \<and> nonempty current_head \<and> nonempty branch);
          attention = map Scan_attention (rs_attention scan) @
            git_trust_attention (gv_out gv) path branch (rs_tracked_paths scan \<noteq> None) @
            (if ledger \<noteq> None \<and> \<not> on then [if \<not> nonempty current_head then No_git_head else No_branch] else []);
          rows = (case ledger of Some l \<Rightarrow> if on then rows_for_repo l (r_id repo) else [] | None \<Rightarrow> []);
          lscan = lifecycle_scan scan;
          transitions = classify (map lifecycle_row rows) lscan
      in case (case ledger of Some l \<Rightarrow> if on then presence_head_sha l (r_id repo) else Inr None | None \<Rightarrow> Inr None) of
           Inl e \<Rightarrow> Inl e
         | Inr presence_head \<Rightarrow>
             let graph_baseline = (case writer of None \<Rightarrow> None | Some w \<Rightarrow> if on \<and> presence_head = None then Some (gw_baseline w) else None);
                 unparseable = sort (map fst (filter (\<lambda>(n, ex). ex_reason ex = ''unparseable'') (rs_excluded scan)));
                 indexed = (case writer of
                     None \<Rightarrow> []
                   | Some w \<Rightarrow> if on then filter (\<lambda>n. gw_identity w (rs_odoo_version scan) n \<noteq> None) unparseable else []);
                 shipped = (if soft_drops transitions \<noteq> [] \<or> (case graph_baseline of None \<Rightarrow> False | Some b \<Rightarrow> b \<noteq> [])
                   then head_tree_module_names (gv_out gv) path else None);
                 wipe_base = (if nonempty presence_head then presence_head else last_head);
                 in_history = (if nonempty wipe_base \<and> nonempty current_head
                   then Some (gv_ancestor gv (the wipe_base) (the current_head)) else None);
                 gates = apply_gates transitions lscan trusted allow_mass_retire graph_baseline (Some indexed) shipped in_history
             in Inr \<lparr>lo_trusted = trusted, lo_lifecycle_on = on, lo_rows = rows, lo_transitions = transitions, lo_gates = gates,
                  lo_attention = attention @ map Gate_attention (reasons gates),
                  lo_unparseable_kept = unparseable_kept transitions lscan (Some indexed)\<rparr>)"

subsection \<open>What the run writes\<close>

datatype drift_kind = Shadowed_copy | Untracked_copy | Stale_copy

datatype rewrite_reason =
    REWRITE_NO_NODE bool
  | REWRITE_REPO_DRIFT "string option"
  | REWRITE_PATH_DRIFT drift_kind string string

definition repo_relative :: "string option \<Rightarrow> string \<Rightarrow> string option" where
  "repo_relative path local_path =
     (case path of
        None \<Rightarrow> None
      | Some p \<Rightarrow>
          if p = [] then Some []
          else if startswith p ''/'' \<and> take (length (path_parts local_path)) (path_parts p) = path_parts local_path
          then Some (path_str (drop (length (path_parts local_path)) (path_parts p)))
          else Some (path_norm p))"

definition rewrite_of ::
  "graph_view \<Rightarrow> ledger option \<Rightarrow> repo \<Rightarrow> repo_scan \<Rightarrow> string \<Rightarrow> string \<Rightarrow> rewrite_reason option" where
  "rewrite_of w ledger repo scan owning_profile n =
     (case gw_identity w (rs_odoo_version scan) n of
        None \<Rightarrow> Some (REWRITE_NO_NODE False)
      | Some node \<Rightarrow>
          if owning_profile \<notin> set (ni_profile node) then Some (REWRITE_NO_NODE True)
          else
            let ours = (ni_repo node = Some (path_name (r_local_path repo)) \<and> (ni_repo_id node = None \<or> ni_repo_id node = Some (r_id repo)));
                owners = (case ledger of None \<Rightarrow> [] | Some l \<Rightarrow> present_owner_basenames l (rs_odoo_version scan) n)
            in if \<not> ours
               then (if ni_profile node = [owning_profile] \<and> length owners \<le> 1 then Some (REWRITE_REPO_DRIFT (ni_repo node)) else None)
               else
                 let i = the (record_in (rs_modules scan) n);
                     winner = to_repo_relative (m_path i) (m_repo_root i)
                 in case repo_relative (ni_path node) (r_local_path repo) of
                      None \<Rightarrow> None
                    | Some indexed \<Rightarrow>
                        if indexed = [] \<or> indexed = winner then None
                        else Some (REWRITE_PATH_DRIFT
                          (if indexed \<in> set (shadowed_of scan n) then Shadowed_copy
                           else if indexed \<in> path_parent ` rs_untracked scan then Untracked_copy else Stale_copy) indexed winner))"

definition modules_needing_rewrite :: "graph_view \<Rightarrow> ledger option \<Rightarrow> repo \<Rightarrow> repo_scan \<Rightarrow> string \<Rightarrow> (string \<times> rewrite_reason) list" where
  "modules_needing_rewrite w ledger repo scan owning_profile =
     List.map_filter (\<lambda>n. map_option (\<lambda>why. (n, why)) (rewrite_of w ledger repo scan owning_profile n)) (record_names scan)"

definition self_heal_rewrites ::
  "graph_view \<Rightarrow> ledger option \<Rightarrow> repo \<Rightarrow> repo_scan \<Rightarrow> string \<Rightarrow> run_plan \<Rightarrow> bool \<Rightarrow> (string \<times> rewrite_reason) list" where
  "self_heal_rewrites w ledger repo scan owning_profile plan on =
     (if rp_mode plan = RUN_SKIP \<or> \<not> on \<or> record_names scan = [] then []
      else modules_needing_rewrite w ledger repo scan owning_profile)"

definition modules_changed_between :: "git_view \<Rightarrow> repo \<Rightarrow> repo_scan \<Rightarrow> string \<Rightarrow> string option \<Rightarrow> string set" where
  "modules_changed_between gv repo scan base head =
     (let rel = compute_changed_module_paths (gv_is_file gv) (gv_changed_files gv base head);
          paths = (\<lambda>d. path_join (r_local_path repo) d) ` rel
      in set (concat (map (\<lambda>(v, ms). map fst (filter_modules_by_changed m_path ms paths)) (rs_modules scan))))"

definition regular_write_names :: "git_view \<Rightarrow> repo \<Rightarrow> repo_scan \<Rightarrow> run_plan \<Rightarrow> string option \<Rightarrow> string set" where
  "regular_write_names gv repo scan plan current_head =
     (if rp_mode plan \<in> {RUN_SKIP, RUN_SYNC} then {}
      else case rp_diff_base plan of
        None \<Rightarrow> set (record_names scan)
      | Some base \<Rightarrow> modules_changed_between gv repo scan base current_head)"

definition source_changed_names :: "run_mode \<Rightarrow> string set \<Rightarrow> bool \<Rightarrow> string set option \<Rightarrow> string set" where
  "source_changed_names mode regular ledger since =
     (case mode of
        RUN_INCREMENTAL \<Rightarrow> regular
      | RUN_FULL \<Rightarrow> (case since of Some s \<Rightarrow> s | None \<Rightarrow> if ledger then regular else {})
      | _ \<Rightarrow> {})"

fun full_run_changed_names :: "git_view \<Rightarrow> repo \<Rightarrow> repo_scan \<Rightarrow> string option \<Rightarrow> string option list \<Rightarrow> string set option" where
  "full_run_changed_names gv repo scan current_head [] = None"
| "full_run_changed_names gv repo scan current_head (base # bases) =
     (if \<not> nonempty base then full_run_changed_names gv repo scan current_head bases
      else if base = current_head then Some {}
      else if gv_commit_exists gv (the base) then Some (modules_changed_between gv repo scan (the base) current_head)
      else full_run_changed_names gv repo scan current_head bases)"

definition propagation_seed ::
  "string set \<Rightarrow> (string \<times> rewrite_reason) list \<Rightarrow> string set \<Rightarrow> string set \<Rightarrow> string set \<Rightarrow> string set" where
  "propagation_seed diff heal degraded_changed gap_changed written =
     (diff \<union> fst ` {h \<in> set heal. (case snd h of REWRITE_NO_NODE _ \<Rightarrow> True | REWRITE_PATH_DRIFT _ _ _ \<Rightarrow> True | REWRITE_REPO_DRIFT _ \<Rightarrow> False)} \<union>
      degraded_changed \<union> gap_changed) \<inter> written"

subsection \<open>The ledger commit\<close>

definition successor_source_of :: "string \<Rightarrow> successor_source" where
  "successor_source_of s = (if s = ''git_rename'' then Git_rename else if s = ''git_merge'' then Git_merge else Old_technical_name)"

text \<open>Evidence and successor of one absent name; the time of a commit is cast to a timestamp by the database.\<close>

definition absent_facts ::
  "git_view \<Rightarrow> (string \<Rightarrow> int) \<Rightarrow> presence list \<Rightarrow> string list \<Rightarrow> (string \<times> successor) list \<Rightarrow> transition \<Rightarrow>
     ledger_error + retire_evidence option \<times> successor_info option" where
  "absent_facts gv timestamp rows observed successors t =
     (let row = find (\<lambda>r. p_name r = t_name t) (rev rows);
          path = (if nonempty (t_path t) then the (t_path t)
            else case row of Some r \<Rightarrow> if p_path r = [] then t_name t else p_path r | None \<Rightarrow> t_name t);
          manifest = (case row of Some r \<Rightarrow> if p_manifest_file r = [] then hd MANIFEST_FILENAMES else p_manifest_file r | None \<Rightarrow> hd MANIFEST_FILENAMES)
      in case removal_evidence (gv_fields gv) (gv_removing gv) (gv_rev_parse gv) path [manifest] observed of
           (found, git_successor) \<Rightarrow>
             let evidence = map_option (\<lambda>f. \<lparr>ev_sha = Some (rev_sha f), ev_date = Some (timestamp (rev_date f)), ev_subject = Some (rev_subject f)\<rparr>) found
             in case (case map_of successors (t_name t) of Some s \<Rightarrow> Some s | None \<Rightarrow> git_successor) of
                  None \<Rightarrow> Inr (evidence, None)
                | Some s \<Rightarrow>
                    (case successor_post_init \<lparr>su_names = succ_names s, su_source = successor_source_of (succ_source s)\<rparr> of
                       Inl e \<Rightarrow> Inl e
                     | Inr su \<Rightarrow> Inr (evidence, Some su)))"

definition retire_block :: "gate_result \<Rightarrow> bool \<Rightarrow> string option" where
  "retire_block gates retire =
     (if \<not> retire_allowed gates then Some (''gate:'' @ join_with (CHR '','') (tripped gates))
      else if \<not> retire then Some ''no_retire'' else None)"

definition flag_absent ::
  "git_view \<Rightarrow> (string \<Rightarrow> int) \<Rightarrow> int \<Rightarrow> repo_scan \<Rightarrow> presence list \<Rightarrow> transitions \<Rightarrow> gate_result \<Rightarrow> string \<Rightarrow> string option \<Rightarrow> bool \<Rightarrow>
     string list \<Rightarrow> int \<Rightarrow> string list lm" where
  "flag_absent gv timestamp i scan rows ts gates current_head diff_base retire observed now =
     (let absent = filter (\<lambda>t. t_name t \<notin> set (kept_names gates)) (retired ts)
      in if absent = [] then ret []
         else
           let changes = (if nonempty diff_base \<and> diff_base \<noteq> Some current_head
                 then compute_manifest_changes (gv_fields gv) (the diff_base) current_head else []);
               successors = pick_successors ts changes (lifecycle_scan scan)
           in case map_sum_list (absent_facts gv timestamp rows observed successors) absent of
                Inl e \<Rightarrow> raise_exc e
              | Inr facts \<Rightarrow>
                  let per_name = zip (map t_name absent) facts
                  in mark_retire_pending i (map t_name absent) Absent
                       (\<lambda>n. Option.bind (map_of per_name n) fst) (\<lambda>n. Option.bind (map_of per_name n) snd)
                       (retire_block gates retire) now)"

record lifecycle_counters =
  lc_gates_tripped :: "string list"
  lc_pending :: "string list"
  lc_synced :: bool
  lc_deferred_head :: "string option"
  lc_held_head :: "string option"
  lc_stamp_short :: nat

definition commit_lifecycle ::
  "git_view \<Rightarrow> graph_view \<Rightarrow> (string \<Rightarrow> int) \<Rightarrow> int \<Rightarrow> repo_scan \<Rightarrow> presence list \<Rightarrow> transitions \<Rightarrow> gate_result \<Rightarrow> string \<Rightarrow> string option \<Rightarrow>
     string \<Rightarrow> bool \<Rightarrow> string list \<Rightarrow> string list \<Rightarrow> bool \<Rightarrow> int option \<Rightarrow> int \<Rightarrow> lifecycle_counters lm" where
  "commit_lifecycle gv w timestamp i scan rows ts gates current_head diff_base owning_profile retire written rewrite_names hold read_at now =
     (case observed_modules scan of
        Inl e \<Rightarrow> raise_exc e
      | Inr observed \<Rightarrow>
          let version = rs_odoo_version scan; present = record_names scan
          in
          seqE (commit_observed i owning_profile version current_head observed now)
          (seqE (clear_needs_rewrite i (sort (filter (\<lambda>n. n \<in> set written) (remdups rewrite_names))) read_at now)
          (seqE (apply_pending_rewrites i version present written read_at now)
          (bindE (flag_absent gv timestamp i scan rows ts gates current_head diff_base retire (map o_name observed) now) (\<lambda>pending.
             let short = length present - (if present = [] then 0 else gw_stamped w present);
                 held = (\<not> retire_allowed gates \<or> short > 0 \<or> pending \<noteq> [] \<and> \<not> retire \<or> hold);
                 synced = (\<not> held \<and> pending = [])
             in seqE (if synced then mark_presence_synced i current_head else ret ())
                  (ret \<lparr>lc_gates_tripped = tripped gates, lc_pending = pending, lc_synced = synced,
                     lc_deferred_head = (if \<not> held \<and> pending \<noteq> [] then Some current_head else None),
                     lc_held_head = (if hold then Some current_head else None), lc_stamp_short = short\<rparr>))))))"

subsection \<open>The end of the run\<close>

record parse_health =
  ph_degraded :: bool
  ph_unobserved :: "string list"
  ph_embedded :: bool
  ph_embeddings_incomplete :: bool

type_synonym module_health = "((string \<times> string) \<times> parse_health option) list"

definition embedding_retry_names :: "module_health \<Rightarrow> string list \<Rightarrow> string list" where
  "embedding_retry_names health present =
     sort (remdups (map (\<lambda>((_, n), _). n) (filter (\<lambda>((_, n), h). (case h of None \<Rightarrow> False | Some x \<Rightarrow> ph_embeddings_incomplete x) \<and> n \<in> set present) health)))"

definition parsed_fully :: "bool \<Rightarrow> (string \<times> string) \<times> parse_health option \<Rightarrow> bool" where
  "parsed_fully complete_run h = (complete_run \<and> (case snd h of None \<Rightarrow> False | Some x \<Rightarrow> \<not> ph_degraded x))"

definition by_version :: "((string \<times> string) \<times> parse_health option) list \<Rightarrow> (string \<times> ((string \<times> string) \<times> parse_health option) list) list" where
  "by_version hs = map (\<lambda>v. (v, filter (\<lambda>((w, _), _). w = v) hs)) (sort (remdups (map (\<lambda>((v, _), _). v) hs)))"

definition record_parses ::
  "int \<Rightarrow> module_health \<Rightarrow> string option \<Rightarrow> bool \<Rightarrow> string option \<Rightarrow> string list \<Rightarrow> int option \<Rightarrow> int option \<Rightarrow> int \<Rightarrow> unit lm" where
  "record_parses i health run_id ok head present started embedded_at now =
     (if health = [] then ret ()
      else
        let complete_run = (nonempty run_id \<and> ok \<and> started \<noteq> None);
            hs = filter (\<lambda>((_, n), _). n \<in> set present) (sort_key fst health);
            full = filter (parsed_fully complete_run) hs;
            part = filter (\<lambda>h. \<not> parsed_fully complete_run h) hs
        in seqE (for_each (by_version part) () (\<lambda>(v, xs) _. seqE (clear_full_parses i v (map (snd \<circ> fst) xs) now) (ret ())))
             (for_each (by_version full) () (\<lambda>(v, xs) _.
                seqE (record_full_parses i v (map (\<lambda>((_, n), h). (n, sort (ph_unobserved (the h)))) xs)
                  \<lparr>ps_parsed_at = the started, ps_head_sha = head, ps_run_token = run_id, ps_embedded_at = embedded_at,
                   ps_embedded = map (snd \<circ> fst) (filter (\<lambda>(_, h). ph_embedded (the h) \<and> \<not> ph_embeddings_incomplete (the h)) xs)\<rparr> now) (ret ()))))"

text \<open>Run the propagation; \<open>True\<close> when it was recorded. An exception counts as not recorded.\<close>

definition propagate_run ::
  "outage \<Rightarrow> dep_graph \<Rightarrow> string \<Rightarrow> string list \<Rightarrow> int \<Rightarrow> string \<Rightarrow> bool \<Rightarrow> (nat \<Rightarrow> int) \<Rightarrow> int \<Rightarrow> bool lm" where
  "propagate_run o1 g version seed i repo_root_name ledger ticks now = (\<lambda>l.
     case propagate_to_dependents o1 g version seed (Some i) [repo_root_name] ledger ticks now l of
       (Inl _, l') \<Rightarrow> (Inr False, l')
     | (Inr res, l') \<Rightarrow> (Inr (pr_complete res), l'))"

text \<open>Replace the operator text; \<open>known\<close> is the text the run has read or written before. A failure of the write
  is only logged.\<close>

definition write_attention :: "bool \<Rightarrow> int \<Rightarrow> string option \<Rightarrow> string list \<Rightarrow> int \<Rightarrow> unit lm" where
  "write_attention fails i known attention now =
     (let joined = join_str ''; '' attention; text = (if joined = [] then None else Some joined)
      in if known = text \<or> fails then ret ()
         else try_except (case text of Some s \<Rightarrow> set_lifecycle_attention i s now | None \<Rightarrow> clear_lifecycle_attention i) (\<lambda>_. Some (ret ())))"

definition update_repo_head_sha :: "int \<Rightarrow> string \<Rightarrow> unit lm" where
  "update_repo_head_sha i sha = update_repo_row i (\<lambda>r. r\<lparr>r_head_sha := Some sha\<rparr>)"

text \<open>What the run knows when its graph writes are done.\<close>

record run_facts =
  rf_repo :: int
  rf_root_name :: string
  rf_version :: string
  rf_current_head :: "string option"
  rf_last_head :: "string option"
  rf_diff_base :: "string option"
  rf_profile :: string
  rf_retire :: bool
  rf_on :: bool
  rf_scan :: repo_scan
  rf_rows :: "presence list"
  rf_transitions :: transitions
  rf_gates :: gate_result
  rf_attention :: "string list"
  rf_known :: "string option"
  rf_retry :: "propagation_retry_info option"
  rf_diff :: "string list"
  rf_seed :: "string list"
  rf_written :: "string list"
  rf_rewrite_names :: "string list"
  rf_read_at :: "int option"
  rf_prune_retry :: "string list"
  rf_health :: module_health
  rf_run_id :: "string option"
  rf_started :: "int option"
  rf_embedded_at :: "int option"

definition full_seed :: "run_facts \<Rightarrow> string list" where
  "full_seed f =
     rf_seed f @ (case rf_retry f of
        None \<Rightarrow> []
      | Some i \<Rightarrow> if pr_reseed_all i then record_names (rf_scan f) else filter (\<lambda>n. n \<in> pr_reseed i) (record_names (rf_scan f)))"

definition stamp_short_text :: "nat \<Rightarrow> string" where
  "stamp_short_text n = str_nat n @ '' present module(s) have no graph node after the write (concurrent retire?); ledger not marked synced, the next run re-writes them''"

text \<open>The ledger part: commit, flags of the modules to redo, parse records. The result is how many stamps missed.\<close>

definition finish_ledger :: "git_view \<Rightarrow> graph_view \<Rightarrow> (string \<Rightarrow> int) \<Rightarrow> run_facts \<Rightarrow> bool \<Rightarrow> (nat \<Rightarrow> int) \<Rightarrow> int \<Rightarrow> nat lm" where
  "finish_ledger gv w timestamp f recorded ticks now =
     (let present = record_names (rf_scan f);
          redo = rf_prune_retry f @ embedding_retry_names (rf_health f) present
      in if \<not> rf_on f then ret 0
         else bindE (commit_lifecycle gv w timestamp (rf_repo f) (rf_scan f) (rf_rows f) (rf_transitions f) (rf_gates f) (the (rf_current_head f))
                (rf_diff_base f) (rf_profile f) (rf_retire f) (filter (\<lambda>n. n \<notin> set redo) (rf_written f)) (rf_rewrite_names f) (\<not> recorded)
                (rf_read_at f) now) (\<lambda>counters.
              seqE (for_each (sort (remdups (filter (\<lambda>n. n \<in> set present) redo))) () (\<lambda>n _. seqE (mark_needs_rewrite (rf_repo f) n (ticks 0) now) (ret ())))
              (seqE (record_parses (rf_repo f) (rf_health f) (rf_run_id f) (scan_ok (rf_gates f)) (rf_current_head f) present (rf_started f) (rf_embedded_at f) now)
                (ret (lc_stamp_short counters)))))"

definition finish_run ::
  "outage \<Rightarrow> bool \<Rightarrow> dep_graph \<Rightarrow> git_view \<Rightarrow> graph_view \<Rightarrow> (string \<Rightarrow> int) \<Rightarrow> run_facts \<Rightarrow> (nat \<Rightarrow> int) \<Rightarrow> int \<Rightarrow> bool lm" where
  "finish_run o1 text_fails g gv w timestamp f ticks now =
     (let seed = full_seed f
      in bindE (if seed = [] then ret True else propagate_run o1 g (rf_version f) seed (rf_repo f) (rf_root_name f) True ticks now) (\<lambda>recorded.
           let line = fst (propagation_attention (rf_known f) seed (rf_last_head f) (rf_current_head f) (filter (\<lambda>n. n \<notin> set (rf_diff f)) seed) (rf_retry f));
               attention = rf_attention f @ (if recorded then [] else [line]);
               known = (if recorded then rf_known f else Some (join_str ''; '' attention))
           in seqE (if recorded then ret () else write_attention text_fails (rf_repo f) (rf_known f) attention now)
              (bindE (finish_ledger gv w timestamp f recorded ticks now) (\<lambda>short.
                 seqE (write_attention text_fails (rf_repo f) known (attention @ (if short = 0 then [] else [stamp_short_text short])) now)
                 (seqE (if nonempty (rf_current_head f) \<and> recorded then update_repo_head_sha (rf_repo f) (the (rf_current_head f)) else ret ())
                   (ret recorded))))))"

end
