(* ===== verification/Index_Laws.thy ===== *)
theory Index_Laws
  imports Index_Run
begin

section \<open>Laws of the end of an index run\<close>

text \<open>
  Which tables the steps at the end of a run touch, as interpretations of the locale of stepwise relations: the ledger commit
  of a run that holds its presence head leaves the repositories alone, the propagation only clears heads. From
  that: an unrecorded propagation is repeated by the next run, and a run never retires a module by itself.
\<close>

subsection \<open>The repositories\<close>

definition repos_kept :: "ledger \<Rightarrow> ledger \<Rightarrow> bool" where
  "repos_kept l l' \<longleftrightarrow> l_repos l' = l_repos l"

interpretation repos: stepwise repos_kept
  by unfold_locales (auto simp: repos_kept_def)

lemma repos_update: "steps repos_kept (update_rows P f)"
  by (rule stepsI) (auto simp: repos_kept_def update_rows_def Let_def split: if_splits)

lemma repos_tx: "steps repos_kept op \<Longrightarrow> steps repos_kept (tx op)"
  unfolding steps_def tx_def by (auto simp: repos.step_refl split: prod.splits sum.splits) (metis snd_conv)

lemma repos_upsert: "steps repos_kept (upsert_row proposed)"
proof (rule stepsI)
  fix l res l' assume run: "upsert_row proposed l = (res, l')"
  have "repos_kept l1 l2" if "update_rows P f l1 = (z, l2)" for P f l1 z l2 using stepsD [OF repos_update that] .
  then show "repos_kept l l'" using run
    by (auto simp: upsert_row_def Let_def repos_kept_def split: if_splits prod.splits sum.splits)
qed

lemma repos_commit_observed: "steps repos_kept (commit_observed i profile version sha observed now)"
proof -
  have each: "steps repos_kept (for_each obs () (\<lambda>o1 _. upsert_row (\<lambda>k. proposed_row k repo profile version sha now o1)))" for obs repo
    by (intro repos.steps_for_each repos_upsert)
  show ?thesis unfolding commit_observed_def
    by (rule repos_tx, rule stepsI) (auto simp: repos.step_refl split: option.splits if_splits prod.splits sum.splits dest: stepsD [OF each])
qed

lemma repos_store_evidence: "steps repos_kept (store_evidence P ev su)"
  unfolding store_evidence_def
  by (intro repos.steps_seq repos.steps_case_option repos.steps_bind repos.steps_ret repos_update)

lemmas repos_intros = repos.steps_if repos.steps_bind repos.steps_seq repos.steps_gets repos.steps_ret repos.steps_raise repos.steps_for_each
  repos.steps_case_option repos.steps_case_prod repos_update repos_tx repos_store_evidence repos_commit_observed

lemma repos_modify_pending: "steps repos_kept (modify (\<lambda>l. l\<lparr>l_pending := p l\<rparr>))"
  by (simp add: repos.steps_modify repos_kept_def)

lemma repos_mark_retire_pending: "steps repos_kept (mark_retire_pending i names reason ev su b now)"
  unfolding mark_retire_pending_def Let_def by (intro repos_intros)

lemma repos_rewrites:
  "steps repos_kept (clear_needs_rewrite i names read_at now)"
  "steps repos_kept (apply_pending_rewrites i version names written read_at now)"
  "steps repos_kept (mark_needs_rewrite i n clk now)"
  unfolding clear_needs_rewrite_def apply_pending_rewrites_def mark_needs_rewrite_def
  by (intro repos_intros repos_modify_pending)+

lemma repos_parses:
  "steps repos_kept (clear_full_parses i version names now)" "steps repos_kept (record_full_parses i version parses stamp now)"
  "steps repos_kept (record_parses i health run_id ok head present started embedded_at now)"
proof -
  show *: "steps repos_kept (clear_full_parses i version names now)" "steps repos_kept (record_full_parses i version parses stamp now)"
    for i version names parses stamp now unfolding clear_full_parses_def record_full_parses_def by (intro repos_intros)+
  show "steps repos_kept (record_parses i health run_id ok head present started embedded_at now)"
    unfolding record_parses_def Let_def
    by (intro repos.steps_if repos.steps_seq repos.steps_for_each repos.steps_ret) (auto intro!: repos.steps_seq repos.steps_ret * split: prod.splits)
qed

lemma repos_flag_absent: "steps repos_kept (flag_absent gv ts i scan rows tr gates head base retire obs now)"
  unfolding flag_absent_def Let_def
  by (intro repos.steps_if repos.steps_ret) (auto simp: repos.steps_raise repos_mark_retire_pending split: sum.splits)

lemma repos_commit_lifecycle:
  "steps repos_kept (commit_lifecycle gv w ts i scan rows tr gates head base profile retire written rewrites True read_at now)"
  unfolding commit_lifecycle_def Let_def
  by (cases "observed_modules scan") (auto intro!: repos_intros repos_rewrites repos_flag_absent)

lemma repos_finish_ledger: "steps repos_kept (finish_ledger gv w ts f False ticks now)"
  unfolding finish_ledger_def Let_def by (auto intro!: repos_intros repos_rewrites repos_parses repos_commit_lifecycle)

subsection \<open>The propagation only clears heads\<close>

definition heads_cleared :: "ledger \<Rightarrow> ledger \<Rightarrow> bool" where
  "heads_cleared l l' \<longleftrightarrow> list_all2 (\<lambda>r r'. r' = r \<or> r' = r\<lparr>r_head_sha := None\<rparr>) (l_repos l) (l_repos l')"

interpretation heads: stepwise heads_cleared
proof
  show "heads_cleared s s" for s by (simp add: heads_cleared_def list_all2_refl)
  show "heads_cleared s u" if "heads_cleared s t" "heads_cleared t u" for s t u
    using that unfolding heads_cleared_def by (rule list_all2_trans [rotated]) auto
qed

lemma heads_of_repos: "steps repos_kept m \<Longrightarrow> steps heads_cleared m"
  by (auto simp: steps_def repos_kept_def heads_cleared_def list_all2_refl)

lemma repos_flag_dependents: "steps repos_kept (flag_dependents version names pending excluded ticks now)"
proof -
  have "steps repos_kept (insert_pending version pairs excluded ticks now)" for pairs
    by (rule stepsI) (auto simp: insert_pending_def Let_def repos_kept_def split: if_splits)
  then show ?thesis unfolding flag_dependents_def Let_def by (intro repos_intros)
qed

lemma heads_reset: "steps heads_cleared (reset_repos o1 ids)"
  by (rule stepsI) (auto simp: reset_repos_def reset_head_sha_def raise_exc_def ret_def heads_cleared_def list_all2_conv_all_nth split: if_splits)

lemma heads_lookup: "steps heads_cleared (lookup_repos o1 bs v)"
  unfolding lookup_repos_def by (intro heads.steps_if heads.steps_raise heads.steps_gets)

lemma heads_try_flag: "steps heads_cleared (try_flag o1 v names pairs ex ticks now)"
proof (rule stepsI)
  fix l res l' assume "try_flag o1 v names pairs ex ticks now l = (res, l')"
  then show "heads_cleared l l'"
    using stepsD [OF heads_of_repos [OF repos_flag_dependents], of v names pairs ex ticks now l]
    by (auto simp: try_flag_def heads.step_refl split: if_splits prod.splits sum.splits)
qed

lemmas heads_intros = heads.steps_if heads.steps_bind heads.steps_seq heads.steps_gets heads.steps_ret heads.steps_raise heads.steps_case_option
  heads_reset heads_lookup heads_try_flag

lemma heads_propagate: "steps heads_cleared (propagate_to_dependents o1 g v names ex exb ledger ticks now)"
proof -
  have "steps heads_cleared (reset_direct_dependent_repos o1 g v names exb)"
    unfolding reset_direct_dependent_repos_def Let_def by (intro heads_intros)
  then have "steps heads_cleared (try_except (reset_direct_dependent_repos o1 g v names exb) (\<lambda>_. Some (ret [])))"
    by (rule heads.steps_try) (auto intro: heads.steps_ret)
  moreover have "steps heads_cleared (propagate_found o1 found v ex exb ledger ticks now)" for found
    unfolding propagate_found_def by (intro heads_intros)
  ultimately show ?thesis unfolding propagate_to_dependents_def by (intro heads_intros)
qed

lemma find_cleared:
  assumes "heads_cleared l l'" and "find_repo l i = Some r"
  shows "\<exists>r'. find_repo l' i = Some r' \<and> (r' = r \<or> r' = r\<lparr>r_head_sha := None\<rparr>)"
proof -
  have "\<exists>r'. find (\<lambda>r. r_id r = i) ys = Some r' \<and> (r' = r \<or> r' = r\<lparr>r_head_sha := None\<rparr>)"
    if "list_all2 (\<lambda>r r'. r' = r \<or> r' = r\<lparr>r_head_sha := None\<rparr>) xs ys" "find (\<lambda>r. r_id r = i) xs = Some r" for xs ys
    using that by (induction rule: list_all2_induct) (auto split: if_splits)
  then show ?thesis using assms by (auto simp: heads_cleared_def find_repo_def)
qed

subsection \<open>An unrecorded propagation is repeated\<close>

lemma find_update_repo:
  assumes "find_repo l i = Some r" and "\<And>r. r_id (f r) = r_id r"
  shows "update_repo_row i f l = (Inr (), l\<lparr>l_repos := map (\<lambda>r. if r_id r = i then f r else r) (l_repos l)\<rparr>)"
    and "find_repo (l\<lparr>l_repos := map (\<lambda>r. if r_id r = i then f r else r) (l_repos l)\<rparr>) i = Some (f r)"
proof -
  show "update_repo_row i f l = (Inr (), l\<lparr>l_repos := map (\<lambda>r. if r_id r = i then f r else r) (l_repos l)\<rparr>)"
    using assms(1) by (simp add: update_repo_row_def)
  have "find (\<lambda>r. r_id r = i) (map (\<lambda>r. if r_id r = i then f r else r) rs) = Some (f r)" if "find (\<lambda>r. r_id r = i) rs = Some r" for rs
    using that by (induction rs) (auto simp: assms(2) split: if_splits)
  then show "find_repo (l\<lparr>l_repos := map (\<lambda>r. if r_id r = i then f r else r) (l_repos l)\<rparr>) i = Some (f r)"
    using assms(1) by (simp add: find_repo_def)
qed

text \<open>After a write of the operator text, the repository has it: either it was known and stored, or it is written.\<close>

lemma write_attention_run:
  assumes "find_repo l i = Some r" and "join_str ''; '' attention \<noteq> []" and "r_attention r = known"
  shows "\<exists>l' t. write_attention False i known attention now l = (Inr (), l') \<and>
    find_repo l' i = Some (r\<lparr>r_attention := Some (join_str ''; '' attention), r_attention_at := t\<rparr>)"
proof (cases "known = Some (join_str ''; '' attention)")
  case True
  then show ?thesis using assms by (intro exI [of _ l] exI [of _ "r_attention_at r"]) (simp add: write_attention_def Let_def ret_def)
next
  case False
  let ?f = "\<lambda>r. r\<lparr>r_attention := Some (join_str ''; '' attention), r_attention_at := Some now\<rparr>"
  show ?thesis
    using False assms(2) find_update_repo [OF assms(1), of ?f]
    by (intro exI [of _ "l\<lparr>l_repos := map (\<lambda>r. if r_id r = i then ?f r else r) (l_repos l)\<rparr>"] exI [of _ "Some now"])
      (simp add: write_attention_def Let_def try_except_def set_lifecycle_attention_def ret_def)
qed

lemma join_not_Nil: "x \<in> set xs \<Longrightarrow> x \<noteq> [] \<Longrightarrow> join_str sep xs \<noteq> []"
  by (induction sep xs rule: join_str.induct) auto

text \<open>What a failed propagation leaves behind in the row of its repository, whatever happens afterwards: the heads have not
  moved and the text holds the line.\<close>

lemma finish_unrecorded:
  assumes repo: "find_repo l (rf_repo f) = Some r" "r_attention r = rf_known f" and seed: "full_seed f \<noteq> []"
    and unrec: "propagate_run o1 g (rf_version f) (full_seed f) (rf_repo f) (rf_root_name f) True ticks now l = (Inr False, l1)"
    and run: "finish_run o1 False g gv w ts f ticks now l = (res, l')"
    and line: "line = fst (propagation_attention (rf_known f) (full_seed f) (rf_last_head f) (rf_current_head f)
      (filter (\<lambda>n. n \<notin> set (rf_diff f)) (full_seed f)) (rf_retry f))" "line \<noteq> []"
  obtains r' after where "find_repo l' (rf_repo f) = Some r'" "r_head_sha r' \<in> {r_head_sha r, None}" "r_presence_head_sha r' = r_presence_head_sha r"
    "r_attention r' = Some (join_str ''; '' (rf_attention f @ line # after))" "res \<noteq> Inr True"
proof -
  let ?att = "rf_attention f @ [line]"
  have "heads_cleared l l1"
    using unrec stepsD [OF heads_propagate, of o1 g "rf_version f" "full_seed f" "Some (rf_repo f)" "[rf_root_name f]" True ticks now l]
    by (auto simp: propagate_run_def split: prod.splits sum.splits)
  from find_cleared [OF this repo(1)] obtain r1 where r1: "find_repo l1 (rf_repo f) = Some r1" "r_head_sha r1 \<in> {r_head_sha r, None}"
    "r_presence_head_sha r1 = r_presence_head_sha r" "r_attention r1 = rf_known f" using repo(2) by auto
  have ne: "join_str ''; '' ?att \<noteq> []" using line(2) by (intro join_not_Nil) auto
  from write_attention_run [OF r1(1) ne r1(4)] obtain l2 t where w1: "write_attention False (rf_repo f) (rf_known f) ?att now l1 = (Inr (), l2)"
    and r2: "find_repo l2 (rf_repo f) = Some (r1\<lparr>r_attention := Some (join_str ''; '' ?att), r_attention_at := t\<rparr>)" by blast
  obtain y l3 where fl: "finish_ledger gv w ts f False ticks now l2 = (y, l3)" by fastforce
  then have "l_repos l3 = l_repos l2" using stepsD [OF repos_finish_ledger fl] by (simp add: repos_kept_def)
  then have r3: "find_repo l3 (rf_repo f) = Some (r1\<lparr>r_attention := Some (join_str ''; '' ?att), r_attention_at := t\<rparr>)"
    using r2 by (simp add: find_repo_def)
  show thesis
  proof (cases y)
    case (Inl e)
    then have "l' = l3" "res = Inl e" using run seed unrec w1 fl line(1) by (auto simp: finish_run_def Let_def bindE_def seqE_def)
    with r3 r1 show thesis by (intro that [of "r1\<lparr>r_attention := Some (join_str ''; '' ?att), r_attention_at := t\<rparr>" "[]"]) auto
  next
    case (Inr short)
    let ?after = "if short = 0 then [] else [stamp_short_text short]"
    have ne2: "join_str ''; '' (?att @ ?after) \<noteq> []" using line(2) by (intro join_not_Nil) auto
    from write_attention_run [OF r3 ne2] obtain l4 t' where
      w2: "write_attention False (rf_repo f) (Some (join_str ''; '' ?att)) (?att @ ?after) now l3 = (Inr (), l4)"
      and r4: "find_repo l4 (rf_repo f) = Some (r1\<lparr>r_attention := Some (join_str ''; '' (?att @ ?after)), r_attention_at := t'\<rparr>)" by fastforce
    then have "l' = l4" "res = Inr False"
      using run seed unrec w1 fl line(1) Inr by (auto simp: finish_run_def Let_def bindE_def seqE_def ret_def)
    with r4 r1 show thesis by (intro that [of "r1\<lparr>r_attention := Some (join_str ''; '' (?att @ ?after)), r_attention_at := t'\<rparr>" ?after]) auto
  qed
qed

lemma attention_line_not_Nil: "fst (propagation_attention a seed kept head one_shot retry) \<noteq> []"
  by (simp add: propagation_attention_def Let_def PROPAGATION_UNRECORDED_MARK_def)


subsection \<open>A run only flags what is gone\<close>

definition judged_row :: "int \<Rightarrow> string set \<Rightarrow> presence \<Rightarrow> presence \<Rightarrow> bool" where
  "judged_row i A r r' \<longleftrightarrow> p_id r' = p_id r \<and> p_repo_id r' = p_repo_id r \<and> p_name r' = p_name r \<and>
     (p_state r' = St_retired \<longrightarrow> p_state r = St_retired) \<and>
     (p_retire_pending r' \<longrightarrow> p_retire_pending r \<or> p_repo_id r' = Some i \<and> p_name r' \<in> A)"

definition fresh_row :: "int \<Rightarrow> string set \<Rightarrow> presence \<Rightarrow> bool" where
  "fresh_row i A r \<longleftrightarrow> p_state r \<noteq> St_retired \<and> (p_retire_pending r \<longrightarrow> p_repo_id r = Some i \<and> p_name r \<in> A)"

definition judged :: "int \<Rightarrow> string set \<Rightarrow> ledger \<Rightarrow> ledger \<Rightarrow> bool" where
  "judged i A l l' \<longleftrightarrow> (\<forall>r' \<in> set (l_rows l'). (\<exists>r \<in> set (l_rows l). judged_row i A r r') \<or> fresh_row i A r')"

lemma judged_row_refl: "judged_row i A r r"
  by (simp add: judged_row_def)

lemma judged_row_trans: "judged_row i A a b \<Longrightarrow> judged_row i A b c \<Longrightarrow> judged_row i A a c"
  by (auto simp: judged_row_def)

lemma fresh_row_step: "fresh_row i A a \<Longrightarrow> judged_row i A a b \<Longrightarrow> fresh_row i A b"
  by (auto simp: judged_row_def fresh_row_def)

interpretation judge: stepwise "judged i A" for i A
proof
  show "judged i A s s" for s unfolding judged_def using judged_row_refl by blast
  show "judged i A s u" if 1: "judged i A s t" and 2: "judged i A t u" for s t u
    unfolding judged_def
  proof
    fix r assume "r \<in> set (l_rows u)"
    with 2 consider (old) r1 where "r1 \<in> set (l_rows t)" "judged_row i A r1 r" | (new) "fresh_row i A r" unfolding judged_def by blast
    then show "(\<exists>r0 \<in> set (l_rows s). judged_row i A r0 r) \<or> fresh_row i A r"
    proof cases
      case old
      with 1 have "(\<exists>r0 \<in> set (l_rows s). judged_row i A r0 r1) \<or> fresh_row i A r1" unfolding judged_def by blast
      with old(2) show ?thesis using judged_row_trans fresh_row_step by blast
    qed simp
  qed
qed

lemma judged_rows: "l_rows l' = map h (l_rows l) \<Longrightarrow> (\<And>r. judged_row i A r (h r)) \<Longrightarrow> judged i A l l'"
  unfolding judged_def by auto

lemma judged_same_rows: "l_rows l' = l_rows l \<Longrightarrow> judged i A l l'"
  using judged_rows [of l' "\<lambda>r. r" l] by (simp add: judged_row_refl)

lemma judge_update:
  assumes "\<And>r. P r \<Longrightarrow> judged_row i A r (f r)"
  shows "steps (judged i A) (update_rows P f)"
proof (rule stepsI)
  fix l res l' assume "update_rows P f l = (res, l')"
  then consider "l' = l" | "l_rows l' = map (\<lambda>r. if P r then f r else r) (l_rows l)" by (auto simp: update_rows_def Let_def split: if_splits)
  then show "judged i A l l'"
  proof cases
    case 2
    then show ?thesis by (rule judged_rows) (simp add: assms judged_row_refl)
  qed (simp add: judge.step_refl)
qed

lemma judge_tx: "steps (judged i A) op \<Longrightarrow> steps (judged i A) (tx op)"
  unfolding steps_def tx_def by (auto simp: judge.step_refl split: prod.splits sum.splits) (metis snd_conv)

lemma judge_upsert:
  assumes "\<And>k. fresh_row i A (proposed k)"
  shows "steps (judged i A) (upsert_row proposed)"
proof (rule stepsI)
  fix l res l' assume run: "upsert_row proposed l = (res, l')"
  let ?new = "proposed (l_next_id l)" and ?l1 = "l\<lparr>l_next_id := l_next_id l + 1\<rparr>"
  let ?same = "\<lambda>r. p_repo_id r = p_repo_id ?new \<and> p_repo_id r \<noteq> None \<and> p_name r = p_name ?new"
  have merge: "judged_row i A r (merge_row ?new r)" if "?same r" for r
    using assms [of "l_next_id l"] by (simp add: judged_row_def fresh_row_def merge_row_def Let_def clear_parse_def)
  have l1: "judged i A l ?l1" by (rule judged_same_rows) simp
  have ins: "judged i A l (?l1\<lparr>l_rows := l_rows l @ [?new]\<rparr>)"
    unfolding judged_def using assms [of "l_next_id l"] judged_row_refl by auto
  show "judged i A l l'"
  proof (cases "\<not> row_ok (l_merge_ok l) ?new \<or> \<not> list_ex ?same (l_rows l)")
    case True
    then show ?thesis using run l1 ins by (auto simp: upsert_row_def Let_def split: if_splits)
  next
    case False
    obtain z l2 where u: "update_rows ?same (merge_row ?new) ?l1 = (z, l2)" by fastforce
    with False run have "l' = l2" by (auto simp: upsert_row_def Let_def split: sum.splits)
    moreover have "judged i A ?l1 l2" by (rule stepsD [OF judge_update u]) (rule merge)
    ultimately show ?thesis using judge.step_trans [OF l1] by simp
  qed
qed

lemma judge_commit_observed:
  assumes "list_all (\<lambda>x. observed_post_init x = Inr x) observed"
  shows "steps (judged i A) (commit_observed k profile version sha observed now)"
proof -
  have "fresh_row i A (proposed_row m repo profile version sha now o1)" if "o1 \<in> set observed" for m repo o1
    using observed_states [OF assms that] by (simp add: fresh_row_def proposed_row_def)
  then have each: "steps (judged i A) (for_each (sort_key o_name observed) () (\<lambda>o1 _. upsert_row (\<lambda>m. proposed_row m repo profile version sha now o1)))" for repo
    by (intro judge.steps_for_each_in judge_upsert) simp
  show ?thesis unfolding commit_observed_def
    by (rule judge_tx, rule stepsI)
      (auto simp: judge.step_refl index_observed_def split: option.splits if_splits prod.splits sum.splits dest: stepsD [OF each])
qed

lemma judged_row_side: "p_id r' = p_id r \<Longrightarrow> p_repo_id r' = p_repo_id r \<Longrightarrow> p_name r' = p_name r \<Longrightarrow> p_state r' = p_state r \<Longrightarrow>
    p_retire_pending r' = p_retire_pending r \<Longrightarrow> judged_row i A r r'"
  by (simp add: judged_row_def)

lemmas judge_intros = judge.steps_if judge.steps_bind judge.steps_seq judge.steps_gets judge.steps_ret judge.steps_raise judge.steps_for_each
  judge.steps_case_option judge.steps_case_prod judge_tx

lemma judge_store_evidence: "steps (judged i A) (store_evidence P ev su)"
  unfolding store_evidence_def
  by (intro judge_intros judge_update judged_row_side) (simp_all add: set_evidence_def set_successor_def)

lemma judge_mark_retire_pending:
  "set names \<subseteq> A \<Longrightarrow> steps (judged i A) (mark_retire_pending i names reason ev su b now)"
  unfolding mark_retire_pending_def Let_def
  by (intro judge_intros judge_store_evidence judge_update) (auto simp: judged_row_def flag_pending_def)

lemma judge_pending: "steps (judged i A) (modify (\<lambda>l. l\<lparr>l_pending := p l\<rparr>))"
  by (rule judge.steps_modify) (simp add: judged_same_rows)

lemma judge_rewrites:
  "steps (judged i A) (clear_needs_rewrite k names read_at now)"
  "steps (judged i A) (apply_pending_rewrites k version names written read_at now)"
  "steps (judged i A) (mark_needs_rewrite k n clk now)"
  unfolding clear_needs_rewrite_def apply_pending_rewrites_def mark_needs_rewrite_def
  by (intro judge_intros judge_update judge_pending judged_row_side; simp add: flag_rewrite_def)+

lemma judge_parses:
  "steps (judged i A) (clear_full_parses k version names now)" "steps (judged i A) (record_full_parses k version parses stamp now)"
  unfolding clear_full_parses_def record_full_parses_def
  by (intro judge_intros judge_update judged_row_side; simp add: clear_parse_def)+

lemma judge_record_parses: "steps (judged i A) (record_parses k health run_id ok head present started embedded_at now)"
  unfolding record_parses_def Let_def
  by (intro judge.steps_if judge.steps_seq judge.steps_for_each judge.steps_ret)
    (auto intro!: judge.steps_seq judge.steps_ret judge_parses split: prod.splits)

lemma judge_update_repo: "steps (judged i A) (update_repo_row k f)"
  by (rule stepsI) (auto simp: update_repo_row_def judged_same_rows judge.step_refl split: if_splits)

lemma judge_repo_columns:
  "steps (judged i A) (mark_presence_synced k sha)" "steps (judged i A) (update_repo_head_sha k sha)"
  "steps (judged i A) (write_attention fails k known att now)"
proof -
  show "steps (judged i A) (mark_presence_synced k sha)" "steps (judged i A) (update_repo_head_sha k sha)"
    unfolding mark_presence_synced_def update_repo_head_sha_def by (intro judge_intros judge_update_repo)+
  have "steps (judged i A) (case t of Some s \<Rightarrow> set_lifecycle_attention k s now | None \<Rightarrow> clear_lifecycle_attention k)" for t
    unfolding set_lifecycle_attention_def clear_lifecycle_attention_def by (intro judge_intros judge_update_repo)
  then show "steps (judged i A) (write_attention fails k known att now)"
    unfolding write_attention_def Let_def by (intro judge.steps_if judge.steps_ret judge.steps_try) (auto intro: judge.steps_ret)
qed

lemma judge_propagate_run: "steps (judged i A) (propagate_run o1 g v seed k root1 ledger ticks now)"
proof -
  have flag: "steps (judged i A) (flag_dependents version names pending excluded ticks now)" for version names pending excluded
  proof -
    have "steps (judged i A) (insert_pending version pairs excluded ticks now)" for pairs
      by (rule stepsI) (auto simp: insert_pending_def Let_def judged_same_rows judge.step_refl split: if_splits)
    then show ?thesis unfolding flag_dependents_def Let_def
      by (intro judge_intros judge_update judged_row_side) (simp_all add: flag_rewrite_def)
  qed
  have reset: "steps (judged i A) (reset_repos o1 ids)" for ids
    by (rule stepsI) (auto simp: reset_repos_def reset_head_sha_def raise_exc_def ret_def judged_same_rows judge.step_refl split: if_splits)
  have look: "steps (judged i A) (lookup_repos o1 bs v)" for bs unfolding lookup_repos_def by (intro judge_intros)
  have try_fl: "steps (judged i A) (try_flag o1 v names pairs ex ticks now)" for names pairs ex
    by (rule stepsI) (auto simp: try_flag_def judge.step_refl split: if_splits prod.splits sum.splits dest: stepsD [OF flag])
  have direct: "steps (judged i A) (reset_direct_dependent_repos o1 g v seed exb)" for exb
    unfolding reset_direct_dependent_repos_def Let_def by (intro judge_intros reset look)
  have found: "steps (judged i A) (propagate_found o1 fd v ex exb ledger ticks now)" for fd ex exb
    unfolding propagate_found_def by (intro judge_intros reset look try_fl)
  have "steps (judged i A) (propagate_to_dependents o1 g v seed ex exb ledger ticks now)" for ex exb
    unfolding propagate_to_dependents_def by (intro judge_intros found judge.steps_try direct) (auto intro: judge.steps_ret)
  from stepsD [OF this] show ?thesis
    by (intro stepsI) (auto simp: propagate_run_def split: prod.splits sum.splits)
qed

lemma post_init_same: "observed_post_init x = Inr y \<Longrightarrow> y = x"
  by (auto simp: observed_post_init_def split: if_splits mstate.splits)

lemma map_sum_list_post_init: "map_sum_list observed_post_init xs = Inr ys \<Longrightarrow> list_all (\<lambda>x. observed_post_init x = Inr x) ys"
proof (induction xs arbitrary: ys)
  case (Cons x xs)
  then show ?case using post_init_same [of x] by (auto split: sum.splits)
qed simp

lemma observed_modules_valid: "observed_modules scan = Inr obs \<Longrightarrow> list_all (\<lambda>x. observed_post_init x = Inr x) obs"
  unfolding observed_modules_def by (rule map_sum_list_post_init)

definition gone_names :: "transitions \<Rightarrow> gate_result \<Rightarrow> string set" where
  "gone_names ts gates = t_name ` set (retired ts) - set (kept_names gates)"

lemma judge_flag_absent: "steps (judged i (gone_names tr gates)) (flag_absent gv ts i scan rows tr gates head base retire obs now)"
  unfolding flag_absent_def Let_def
  by (intro judge.steps_if judge.steps_ret)
    (auto simp: judge.steps_raise gone_names_def intro!: judge_mark_retire_pending split: sum.splits)

lemma judge_commit_lifecycle:
  "steps (judged i (gone_names tr gates)) (commit_lifecycle gv w ts i scan rows tr gates head base profile retire written rewrites hold read_at now)"
proof (cases "observed_modules scan")
  case (Inl e)
  then show ?thesis by (simp add: commit_lifecycle_def judge.steps_raise)
next
  case (Inr obs)
  show ?thesis unfolding commit_lifecycle_def Inr sum.case Let_def
    by (intro judge_intros judge_rewrites judge_flag_absent judge_repo_columns judge_commit_observed observed_modules_valid [OF Inr])
qed

text \<open>The end of an index run judges nothing beyond its repository and never retires: over any outcome of it, faults and
  exceptions included, no ledger row becomes retired, and a row becomes pending retirement only
  in the run's own repository, for a name the scan classified as retired and the gates do not keep.\<close>

theorem run_only_flags_gone:
  assumes "finish_run o1 text_fails g gv w ts f ticks now l = (res, l')" and "r' \<in> set (l_rows l')"
  shows "(p_state r' = St_retired \<longrightarrow> (\<exists>r \<in> set (l_rows l). p_id r = p_id r' \<and> p_name r = p_name r' \<and> p_state r = St_retired)) \<and>
    (p_retire_pending r' \<longrightarrow> (\<exists>r \<in> set (l_rows l). p_id r = p_id r' \<and> p_name r = p_name r' \<and> p_retire_pending r) \<or>
      p_repo_id r' = Some (rf_repo f) \<and> p_name r' \<in> gone_names (rf_transitions f) (rf_gates f))"
proof -
  let ?J = "judged (rf_repo f) (gone_names (rf_transitions f) (rf_gates f))"
  have "steps ?J (finish_ledger gv w ts f rec ticks now)" for rec
    unfolding finish_ledger_def Let_def
    by (rule judge.steps_if, rule judge.steps_ret, rule judge.steps_bind [OF judge_commit_lifecycle], intro judge.steps_seq judge.steps_for_each
        judge.steps_ret judge_rewrites judge_record_parses)
  then have "steps ?J (finish_run o1 text_fails g gv w ts f ticks now)"
    unfolding finish_run_def Let_def
    by (intro judge.steps_bind judge.steps_seq judge.steps_if judge.steps_ret judge_propagate_run judge_repo_columns)
  from stepsD [OF this assms(1)] have "(\<exists>r \<in> set (l_rows l). judged_row (rf_repo f) (gone_names (rf_transitions f) (rf_gates f)) r r') \<or>
      fresh_row (rf_repo f) (gone_names (rf_transitions f) (rf_gates f)) r'"
    using assms(2) unfolding judged_def by blast
  then show ?thesis
  proof (elim disjE bexE)
    fix r assume "r \<in> set (l_rows l)" and "judged_row (rf_repo f) (gone_names (rf_transitions f) (rf_gates f)) r r'"
    then show ?thesis unfolding judged_row_def by (intro conjI impI) (auto intro!: bexI [of _ r])
  qed (simp add: fresh_row_def)
qed

end
