(* ===== verification/Index_Sync.thy ===== *)
theory Index_Sync
  imports Index_Laws
begin

section \<open>What a synced ledger says\<close>

text \<open>
  The presence head of a repository claims that the ledger reflects that commit. This theory shows what the claim is worth
  when the ledger commit of a run (\<open>commit_lifecycle\<close>) makes it: every module of the scan has a row with its
  state, and every other row of the repository is retired, or is a name git still ships. The argument follows the
  names and states of the repository's rows through the statements of the commit.
\<close>

subsection \<open>Names and states of the rows of a repository\<close>

definition states :: "int \<Rightarrow> string set \<Rightarrow> ledger \<Rightarrow> (string \<times> mstate) set" where
  "states i N l = set (map (\<lambda>r. (p_name r, p_state r)) (filter (\<lambda>r. p_repo_id r = Some i \<and> p_name r \<notin> N) (l_rows l)))"

definition same_states :: "int \<Rightarrow> string set \<Rightarrow> ledger \<Rightarrow> ledger \<Rightarrow> bool" where
  "same_states i N l l' \<longleftrightarrow> states i N l' = states i N l"

interpretation st: stepwise "same_states i N" for i N
  by unfold_locales (auto simp: same_states_def)

lemma states_iff: "(n, s) \<in> states i N l \<longleftrightarrow> n \<notin> N \<and> (\<exists>r \<in> set (l_rows l). p_repo_id r = Some i \<and> p_name r = n \<and> p_state r = s)"
  by (force simp: states_def)

lemma states_Un: "states i (N \<union> M) l = {p \<in> states i N l. fst p \<notin> M}"
  by (auto simp: states_iff)

lemma same_states_rows:
  assumes "l_rows l' = map h (l_rows l)"
    and "\<And>r. r \<in> set (l_rows l) \<Longrightarrow> p_repo_id r = Some i \<Longrightarrow> p_name r \<notin> N \<Longrightarrow> p_state (h r) = p_state r"
    and "\<And>r. p_repo_id (h r) = p_repo_id r" "\<And>r. p_name (h r) = p_name r"
  shows "same_states i N l l'"
proof -
  have "filter (\<lambda>r. p_repo_id r = Some i \<and> p_name r \<notin> N) (l_rows l') = map h (filter (\<lambda>r. p_repo_id r = Some i \<and> p_name r \<notin> N) (l_rows l))"
    using assms(1,3,4) by (simp add: filter_map comp_def)
  then show ?thesis using assms(2,4) by (auto simp: same_states_def states_def)
qed

lemma same_rows_states: "l_rows l' = l_rows l \<Longrightarrow> same_states i N l l'"
  by (simp add: same_states_def states_def)

definition keeps_state :: "(presence \<Rightarrow> presence) \<Rightarrow> bool" where
  "keeps_state f \<longleftrightarrow> (\<forall>r. p_repo_id (f r) = p_repo_id r \<and> p_name (f r) = p_name r \<and> p_state (f r) = p_state r)"

lemma st_update:
  assumes "keeps_state f"
  shows "steps (same_states i N) (update_rows P f)"
proof (rule stepsI)
  fix l res l' assume "update_rows P f l = (res, l')"
  then consider "l' = l" | "l_rows l' = map (\<lambda>r. if P r then f r else r) (l_rows l)" by (auto simp: update_rows_def Let_def split: if_splits)
  then show "same_states i N l l'"
  proof cases
    case 2
    then show ?thesis by (rule same_states_rows) (use assms in \<open>simp_all add: keeps_state_def\<close>)
  qed (simp add: st.step_refl)
qed

lemma st_tx: "steps (same_states i N) op \<Longrightarrow> steps (same_states i N) (tx op)"
  unfolding steps_def tx_def by (auto simp: st.step_refl split: prod.splits sum.splits) (metis snd_conv)

lemmas st_intros = st.steps_if st.steps_bind st.steps_seq st.steps_gets st.steps_ret st.steps_raise st.steps_for_each
  st.steps_case_option st.steps_case_prod st_tx st_update

lemma keeps_state_simps [simp]:
  "keeps_state (set_evidence ev)" "keeps_state (set_successor su)" "keeps_state (flag_pending reason b now)" "keeps_state (flag_rewrite st clk now)"
  by (simp_all add: keeps_state_def set_evidence_def set_successor_def flag_pending_def flag_rewrite_def)

lemma st_rewrites:
  "steps (same_states i N) (clear_needs_rewrite k names read_at now)"
  "steps (same_states i N) (apply_pending_rewrites k version names written read_at now)"
  unfolding clear_needs_rewrite_def apply_pending_rewrites_def
  by (intro st_intros st.steps_modify same_rows_states; simp add: keeps_state_def)+

lemma st_mark_retire_pending: "steps (same_states i N) (mark_retire_pending k names reason ev su b now)"
  unfolding mark_retire_pending_def store_evidence_def Let_def by (intro st_intros) simp_all

lemma st_flag_absent: "steps (same_states i N) (flag_absent gv ts k scan rows tr gates head base retire obs now)"
  unfolding flag_absent_def Let_def
  by (intro st.steps_if st.steps_ret) (auto simp: st.steps_raise st_mark_retire_pending split: sum.splits)

subsection \<open>The observation is stored\<close>

lemma upsert_states:
  assumes run: "upsert_row proposed l = (Inr u, l')" and new: "\<And>k. p_repo_id (proposed k) = Some i \<and> p_name (proposed k) = n \<and> p_state (proposed k) = s"
  shows "same_states i {n} l l'" and "(n, s) \<in> states i {} l'"
proof (atomize (full), goal_cases)
  case 1
  let ?new = "proposed (l_next_id l)" and ?same = "\<lambda>r. p_repo_id r = Some i \<and> p_name r = n"
  have same: "(\<lambda>r. p_repo_id r = p_repo_id ?new \<and> p_repo_id r \<noteq> None \<and> p_name r = p_name ?new) = ?same" using new by auto
  note run = run [unfolded upsert_row_def Let_def same]
  show ?case
  proof (cases "list_ex ?same (l_rows l)")
    case False
    then have l': "l_rows l' = l_rows l @ [?new]" using run by (auto split: if_splits)
    then show ?thesis using new [of "l_next_id l"] by (auto simp: same_states_def states_iff)
  next
    case True
    let ?g = "\<lambda>r. if ?same r then merge_row ?new r else r"
    have l': "l_rows l' = map ?g (l_rows l)"
      using run True by (auto simp: update_rows_def Let_def split: if_splits)
    have m: "p_repo_id (merge_row ?new r) = p_repo_id r" "p_name (merge_row ?new r) = p_name r" "p_state (merge_row ?new r) = s" for r
      using new [of "l_next_id l"] by (simp_all add: merge_row_def Let_def clear_parse_def)
    have "same_states i {n} l l'" by (rule same_states_rows [OF l']) (auto simp: m)
    moreover obtain r where "r \<in> set (l_rows l)" "?same r" using True by (auto simp: list_ex_iff)
    then have "?g r \<in> set (l_rows l')" "p_repo_id (?g r) = Some i" "p_name (?g r) = n" "p_state (?g r) = s" unfolding l' set_map by (auto simp: m)
    then have "(n, s) \<in> states i {} l'" by (auto simp: states_iff)
    ultimately show ?thesis by blast
  qed
qed

lemma upserts_states:
  assumes "for_each obs () (\<lambda>x _. upsert_row (\<lambda>k. proposed_row k repo profile version sha now x)) l = (Inr u, l')"
    and "distinct (map o_name obs)"
  shows "same_states (r_id repo) (o_name ` set obs) l l' \<and> (\<forall>x \<in> set obs. (o_name x, o_state x) \<in> states (r_id repo) {} l')"
  using assms
proof (induction obs arbitrary: l)
  case Nil
  then show ?case by (simp add: ret_def same_states_def)
next
  case (Cons x obs)
  obtain l1 where x: "upsert_row (\<lambda>k. proposed_row k repo profile version sha now x) l = (Inr (), l1)"
    and rest: "for_each obs () (\<lambda>x _. upsert_row (\<lambda>k. proposed_row k repo profile version sha now x)) l1 = (Inr u, l')"
    using Cons.prems(1) by (auto simp: bindE_def split: prod.splits sum.splits)
  note x = upsert_states [OF x, of "r_id repo" "o_name x" "o_state x", unfolded same_states_def]
  have x: "states (r_id repo) {o_name x} l1 = states (r_id repo) {o_name x} l" "(o_name x, o_state x) \<in> states (r_id repo) {} l1"
    using x by (simp_all add: proposed_row_def)
  have IH: "states (r_id repo) (o_name ` set obs) l' = states (r_id repo) (o_name ` set obs) l1"
    "\<forall>x \<in> set obs. (o_name x, o_state x) \<in> states (r_id repo) {} l'"
    using Cons.IH [OF rest] Cons.prems(2) by (simp_all add: same_states_def)
  have a: "states (r_id repo) (insert (o_name x) (o_name ` set obs)) l = {p \<in> states (r_id repo) (o_name ` set obs) l. fst p \<notin> {o_name x}}" for l
    using states_Un [of "r_id repo" "o_name ` set obs" "{o_name x}"] by simp
  have b: "states (r_id repo) (insert (o_name x) (o_name ` set obs)) l = {p \<in> states (r_id repo) {o_name x} l. fst p \<notin> o_name ` set obs}" for l
    using states_Un [of "r_id repo" "{o_name x}" "o_name ` set obs"] by simp
  have "states (r_id repo) (insert (o_name x) (o_name ` set obs)) l' = states (r_id repo) (insert (o_name x) (o_name ` set obs)) l1"
    unfolding a IH(1) ..
  also have "\<dots> = states (r_id repo) (insert (o_name x) (o_name ` set obs)) l" unfolding b x(1) ..
  finally have "states (r_id repo) (insert (o_name x) (o_name ` set obs)) l' = states (r_id repo) (insert (o_name x) (o_name ` set obs)) l" .
  moreover have "(o_name x, o_state x) \<in> states (r_id repo) (o_name ` set obs) l1" using x(2) Cons.prems(2) by (auto simp: states_iff)
  then have "(o_name x, o_state x) \<in> states (r_id repo) (o_name ` set obs) l'" using IH(1) by simp
  then have "(o_name x, o_state x) \<in> states (r_id repo) {} l'" by (simp add: states_iff)
  ultimately show ?case using IH(2) by (simp add: same_states_def)
qed

lemma commit_observed_states:
  assumes "commit_observed i profile version sha obs now l = (Inr c, l')"
  shows "same_states i (o_name ` set obs) l l' \<and> (\<forall>x \<in> set obs. (o_name x, o_state x) \<in> states i {} l')"
proof (cases "obs = []")
  case True
  then show ?thesis using assms by (auto simp: commit_observed_def tx_def index_observed_def same_states_def split: if_splits)
next
  case False
  then have "sort_key o_name obs \<noteq> []" by (metis set_empty set_sort)
  then obtain repo where repo: "find_repo l i = Some repo" and d: "distinct (map o_name obs)"
    and run: "for_each (sort_key o_name obs) () (\<lambda>x _. upsert_row (\<lambda>k. proposed_row k repo profile version sha now x)) l = (Inr (), l')"
    using assms by (auto simp: commit_observed_def tx_def index_observed_def split: if_splits option.splits prod.splits sum.splits)
  have "r_id repo = i" using repo by (auto simp: find_repo_def find_Some_iff)
  moreover have "distinct (map o_name (sort_key o_name obs))"
    using d by (metis distinct_map distinct_sort set_sort)
  ultimately show ?thesis using upserts_states [OF run] by simp
qed

lemma seq_ret_result: "seqE m (ret a) s = (Inr b, s') \<Longrightarrow> b = a"
  by (auto simp: seqE_def bindE_def ret_def split: prod.splits sum.splits)

lemma pending_names:
  assumes run: "mark_retire_pending i names reason ev su b now l = (Inr flagged, l')" and "names \<noteq> []"
  shows "flagged = sort (map p_name (filter (\<lambda>r. p_repo_id r = Some i \<and> p_name r \<in> set names \<and> p_state r \<noteq> St_retired) (l_rows l)))"
proof -
  let ?P = "\<lambda>r. p_repo_id r = Some i \<and> p_name r \<in> set names \<and> p_state r \<noteq> St_retired" and ?f = "flag_pending reason b now"
  obtain z l2 where u: "update_rows ?P ?f l = (z, l2)" by fastforce
  obtain rows where z: "z = Inr rows"
    using run assms(2) u by (cases z) (auto simp: mark_retire_pending_def tx_def bindE_def)
  have rows: "rows = map ?f (filter ?P (l_rows l))" using u z by (auto simp: update_rows_def Let_def split: if_splits)
  have "flagged = sort (map p_name rows)"
    using run assms(2) u z by (auto simp: mark_retire_pending_def tx_def bindE_def Let_def split: prod.splits sum.splits dest!: seq_ret_result)
  moreover have "map p_name rows = map p_name (filter ?P (l_rows l))" unfolding rows by (simp add: comp_def flag_pending_def)
  ultimately show ?thesis by simp
qed

lemma sort_Nil_iff: "sort xs = [] \<longleftrightarrow> xs = []"
  by (metis length_0_conv length_sort)

lemma flag_absent_pending:
  assumes run: "flag_absent gv ts i scan rows tr gates head base retire obs now l = (Inr pending, l')"
    and ne: "filter (\<lambda>t. t_name t \<notin> set (kept_names gates)) (retired tr) \<noteq> []"
  obtains ev su b where
    "mark_retire_pending i (map t_name (filter (\<lambda>t. t_name t \<notin> set (kept_names gates)) (retired tr))) Absent ev su b now l = (Inr pending, l')"
proof -
  define absent where "absent = filter (\<lambda>t. t_name t \<notin> set (kept_names gates)) (retired tr)"
  have run: "flag_absent gv ts i scan rows tr gates head base retire obs now l = (Inr pending, l')" "absent \<noteq> []"
    using assms by (simp_all add: absent_def)
  then show thesis using that unfolding flag_absent_def absent_def [symmetric] Let_def
    by (cases "map_sum_list (absent_facts gv ts rows obs (pick_successors tr
        (if nonempty base \<and> base \<noteq> Some head then compute_manifest_changes (gv_fields gv) (the base) head else []) (lifecycle_scan scan))) absent")
      (simp_all add: raise_exc_def)
qed

lemma flag_absent_none:
  assumes run: "flag_absent gv ts i scan rows tr gates head base retire obs now l = (Inr [], l')"
    and "n \<in> gone_names tr gates" and "(n, s) \<in> states i {} l"
  shows "s = St_retired"
proof -
  define absent where "absent = filter (\<lambda>t. t_name t \<notin> set (kept_names gates)) (retired tr)"
  have n: "n \<in> set (map t_name absent)" using assms(2) by (auto simp: gone_names_def absent_def)
  then have ne: "map t_name absent \<noteq> []" "absent \<noteq> []" by (cases absent; simp)+
  obtain ev su b where "mark_retire_pending i (map t_name absent) Absent ev su b now l = (Inr [], l')"
    using ne(2) unfolding absent_def by (rule flag_absent_pending [OF run])
  note pending = pending_names [OF this ne(1), symmetric]
  have none: "filter (\<lambda>r. p_repo_id r = Some i \<and> p_name r \<in> set (map t_name absent) \<and> p_state r \<noteq> St_retired) (l_rows l) = []"
    using pending [unfolded sort_Nil_iff] by (simp only: map_is_Nil_conv)
  obtain r where "r \<in> set (l_rows l)" "p_repo_id r = Some i" "p_name r = n" "p_state r = s" using assms(3) by (auto simp: states_iff)
  then show ?thesis using none n unfolding filter_empty_conv by blast
qed

subsection \<open>The classification of the repository's own rows\<close>

lemma before_state_row:
  assumes "ledger_inv l" and r: "r \<in> set (l_rows l)" "p_repo_id r = Some i" and "p_name r \<noteq> []"
  shows "before_state (map lifecycle_row (rows_for_repo l i)) (p_name r) = Some (state_text (p_state r))"
proof -
  let ?rows = "rows_for_repo l i"
  have in_rows: "r \<in> set ?rows" using r by (simp add: rows_for_repo_def repo_rows_def)
  have unique: "r' = r" if "r' \<in> set ?rows" "p_name r' = p_name r" for r'
    using that r by (auto simp: rows_for_repo_def repo_rows_def intro: unique_key [OF assms(1)])
  obtain x where x: "find (\<lambda>q. row_name q = p_name r) (rev (map lifecycle_row ?rows)) = Some x"
    using in_rows by (cases "find (\<lambda>q. row_name q = p_name r) (rev (map lifecycle_row ?rows))") (auto simp: find_None_iff lifecycle_row_def)
  then have "x \<in> set (map lifecycle_row ?rows)" "row_name x = p_name r"
    by (auto simp: find_Some_iff) (metis length_map length_rev nth_mem rev_map set_map set_rev)
  then obtain r' where "r' \<in> set ?rows" "x = lifecycle_row r'" "p_name r' = p_name r" by (auto simp: lifecycle_row_def)
  with unique have "x = lifecycle_row r" by blast
  then show ?thesis using x assms(4) by (simp add: before_state_def prev_row_def lifecycle_row_def)
qed

lemma gone_row:
  assumes "ledger_inv l" and r: "r \<in> set (l_rows l)" "p_repo_id r = Some i" and "p_name r \<noteq> []" "p_state r \<noteq> St_retired"
    and "p_name r \<notin> set (present_names scan) \<union> fst ` set (scan_excluded scan)"
  shows "p_name r \<in> t_name ` set (retired (classify (map lifecycle_row (rows_for_repo l i)) scan))"
proof -
  let ?rows = "map lifecycle_row (rows_for_repo l i)"
  have before: "before_state ?rows (p_name r) = Some (state_text (p_state r))" by (rule before_state_row [OF assms(1-4)])
  then have "map_option t_after (transition_of ?rows scan (p_name r)) = Some ''retired''"
    using assms(5,6) by (cases "p_state r") (auto simp: after_state state_text_def)
  then obtain t where t: "transition_of ?rows scan (p_name r) = Some t" "t_after t = ''retired''" by auto
  then have "t_name t = p_name r" "t_before t = Some (state_text (p_state r))"
    using transition_of_name transition_of_before before by auto
  moreover have "t \<in> set (t_items (classify ?rows scan))" using t(1) calculation by (simp add: classify_items)
  ultimately show ?thesis using t(2) assms(5)
    by (intro image_eqI [of _ _ t]) (cases "p_state r"; simp add: retired_def of_kind_def kind_def state_text_def)+
qed

lemma map_sum_list_same: "map_sum_list observed_post_init xs = Inr ys \<Longrightarrow> ys = xs"
proof (induction xs arbitrary: ys)
  case (Cons x xs)
  then show ?case using post_init_same [of x] by (auto split: sum.splits)
qed simp

lemma record_in_None: "record_in mods n = None \<longleftrightarrow> n \<notin> fst ` set (concat (map snd mods))"
proof (induction mods n rule: record_in.induct)
  case (2 v ms rest n)
  show ?case
  proof (cases "map_of ms n")
    case None
    then have "n \<notin> fst ` set ms" by (simp add: map_of_eq_None_iff)
    then show ?thesis using 2 [OF None] None by (simp add: image_Un)
  next
    case (Some x)
    then show ?thesis using map_of_SomeD [OF Some] by force
  qed
qed simp

lemma observed_names:
  assumes "observed_modules scan = Inr obs"
  shows "o_name ` set obs = set (present_names (lifecycle_scan scan)) \<union> fst ` set (scan_excluded (lifecycle_scan scan))"
proof -
  have names: "set (present_names (lifecycle_scan scan)) = set (record_names scan)"
    by (force simp: present_names_def lifecycle_scan_def record_names_def)
  have "record_in (rs_modules scan) n = None \<longleftrightarrow> n \<notin> set (record_names scan)" for n
    unfolding record_in_None by (force simp: record_names_def)
  moreover have "map o_name obs = record_names scan @ filter (\<lambda>n. record_in (rs_modules scan) n = None) (sort (map fst (rs_excluded scan)))"
    unfolding map_sum_list_same [OF assms [unfolded observed_modules_def]] by (simp add: comp_def observe_present_def observe_excluded_def Let_def)
  ultimately have "set (map o_name obs) = set (record_names scan) \<union> {n \<in> fst ` set (rs_excluded scan). n \<notin> set (record_names scan)}"
    by simp
  moreover have "fst ` set (scan_excluded (lifecycle_scan scan)) = fst ` set (rs_excluded scan)" by (force simp: lifecycle_scan_def)
  ultimately show ?thesis unfolding names by auto
qed

text \<open>The names of a repository with a row that is not retired.\<close>

definition alive_names :: "ledger \<Rightarrow> int \<Rightarrow> string set" where
  "alive_names l i = p_name ` {r \<in> set (l_rows l). p_repo_id r = Some i \<and> p_state r \<noteq> St_retired}"

lemma mark_synced_run:
  assumes "mark_presence_synced i head l = (Inr (), l')"
  shows "l_rows l' = l_rows l" and "\<exists>r. find_repo l' i = Some r \<and> r_presence_head_sha r = Some head"
proof -
  obtain r where "find_repo l i = Some r" "head \<noteq> []"
    using assms by (auto simp: mark_presence_synced_def update_repo_row_def raise_exc_def split: if_splits)
  from find_update_repo [OF this(1), of "\<lambda>r. r\<lparr>r_presence_head_sha := Some head\<rparr>"] this(2) assms
  show "l_rows l' = l_rows l" "\<exists>r. find_repo l' i = Some r \<and> r_presence_head_sha r = Some head"
    by (auto simp: mark_presence_synced_def)
qed

text \<open>C13. A presence head is worth its claim. When the ledger commit of a run marks the repository synced at a commit, then retirement
  was allowed, the propagation recorded and that commit is the presence head, and the states agree with the scan: every module of the
  scan has a row in the state the scan gave it, and every other row of the repository is retired or has one of the names the gates keep
  although the scan did not find them; of those rows nothing is said. Only states are compared, so a row may still be pending or flagged
  for a rewrite. The rows the run compares the scan with were read before, from a ledger \<open>l0\<close> that other runs may have written since; it is
  assumed that they brought no row of this repository to life.\<close>

theorem synced_ledger_reflects_scan:
  assumes "ledger_inv l0" and alive: "alive_names l i \<subseteq> alive_names l0 i" and obs: "observed_modules scan = Inr obs"
    and run: "commit_lifecycle gv w ts i scan (rows_for_repo l0 i) (classify (map lifecycle_row (rows_for_repo l0 i)) (lifecycle_scan scan)) gates head
      base profile retire written rewrites hold read_at now l = (Inr c, l')" and synced: "lc_synced c"
  shows "retire_allowed gates \<and> \<not> hold \<and> (\<exists>r. find_repo l' i = Some r \<and> r_presence_head_sha r = Some head) \<and>
    (\<forall>x \<in> set obs. \<exists>r \<in> set (l_rows l'). p_repo_id r = Some i \<and> p_name r = o_name x \<and> p_state r = o_state x) \<and>
    (\<forall>r \<in> set (l_rows l'). p_repo_id r = Some i \<and> p_name r \<noteq> [] \<longrightarrow>
       p_state r = St_retired \<or> p_name r \<in> o_name ` set obs \<union> set (kept_names gates))"
proof -
  let ?tr = "classify (map lifecycle_row (rows_for_repo l0 i)) (lifecycle_scan scan)"
  let ?N = "o_name ` set obs"
  obtain c1 l1 x1 l2 x2 l3 l4 where
    1: "commit_observed i profile (rs_odoo_version scan) head obs now l = (Inr c1, l1)" and
    2: "clear_needs_rewrite i (sort (filter (\<lambda>n. n \<in> set written) (remdups rewrites))) read_at now l1 = (Inr x1, l2)" and
    3: "apply_pending_rewrites i (rs_odoo_version scan) (record_names scan) written read_at now l2 = (Inr x2, l3)" and
    4: "flag_absent gv ts i scan (rows_for_repo l0 i) ?tr gates head base retire (map o_name obs) now l3 = (Inr [], l4)" and
    5: "mark_presence_synced i head l4 = (Inr (), l')" and ok: "retire_allowed gates" "\<not> hold"
    using run synced unfolding commit_lifecycle_def obs
    by (auto simp: bindE_def seqE_def ret_def Let_def split: prod.splits sum.splits if_splits)
  note l' = mark_synced_run [OF 5]
  have later: "states i M l3 = states i M l1" "states i M l' = states i M l3" for M
    using stepsD [OF st_rewrites(1) 2, of i M] stepsD [OF st_rewrites(2) 3, of i M] stepsD [OF st_flag_absent 4, of i M] l'(1)
    by (simp_all add: same_states_def states_def)
  have first: "states i ?N l1 = states i ?N l" "\<forall>x \<in> set obs. (o_name x, o_state x) \<in> states i {} l1"
    using commit_observed_states [OF 1] by (simp_all add: same_states_def)
  have stored: "\<exists>r \<in> set (l_rows l'). p_repo_id r = Some i \<and> p_name r = o_name x \<and> p_state r = o_state x" if "x \<in> set obs" for x
  proof -
    have "(o_name x, o_state x) \<in> states i {} l'" using first(2) later [of "{}"] that by simp
    then show ?thesis by (auto simp: states_iff)
  qed
  have gone: "p_state r = St_retired \<or> p_name r \<in> ?N \<union> set (kept_names gates)"
    if r: "r \<in> set (l_rows l')" "p_repo_id r = Some i" "p_name r \<noteq> []" for r
  proof (rule ccontr)
    assume live: "\<not> (p_state r = St_retired \<or> p_name r \<in> ?N \<union> set (kept_names gates))"
    then have "(p_name r, p_state r) \<in> states i ?N l'" using r by (auto simp: states_iff)
    then have old: "(p_name r, p_state r) \<in> states i ?N l" "(p_name r, p_state r) \<in> states i ?N l3" using later [of ?N] first(1) by simp_all
    from old(2) have live3: "(p_name r, p_state r) \<in> states i {} l3" by (simp add: states_iff)
    from old(1) obtain r0 where "r0 \<in> set (l_rows l)" "p_repo_id r0 = Some i" "p_name r0 = p_name r" "p_state r0 = p_state r" by (auto simp: states_iff)
    then have "p_name r \<in> alive_names l i" using live unfolding alive_names_def by (intro image_eqI [of _ _ r0]) auto
    with alive obtain q where q: "q \<in> set (l_rows l0)" "p_repo_id q = Some i" "p_name q = p_name r" "p_state q \<noteq> St_retired" by (auto simp: alive_names_def)
    have "p_name q \<in> t_name ` set (retired ?tr)"
      using q r(3) live observed_names [OF obs] by (intro gone_row [OF assms(1)]) auto
    then have "p_name r \<in> gone_names ?tr gates" using live q(3) by (auto simp: gone_names_def)
    with flag_absent_none [OF 4 _ live3] live show False by blast
  qed
  show ?thesis using ok l'(2) stored gone by blast
qed

subsection \<open>A sample run\<close>

definition sample_module :: "string \<Rightarrow> module_record" where
  "sample_module n = \<lparr>m_name = n, m_odoo_version = ''17.0'', m_repo = ''addons'', m_path = ''/srv/addons/'' @ n, m_depends = PList [], m_version_raw = ''17.0.1.0'',
     m_version_mismatch = False, m_edition = ''community'', m_viindoo_equivalent = None, m_commit_sha = None, m_license = ''LGPL-3'', m_copyright_owner = None,
     m_license_notice = False, m_auto_install = False, m_auto_install_triggers = None, m_application = False, m_texts = [], m_author = None, m_sequence = None,
     m_old_technical_name = None, m_price = None, m_external_python = [], m_external_bin = [], m_countries = [], m_repo_url = None, m_repo_id = Some 7,
     m_repo_root = ''/srv/addons''\<rparr>"

definition sample_repo_scan :: repo_scan where
  "sample_repo_scan = \<lparr>rs_repo_path = ''/srv/addons'', rs_odoo_version = ''17.0'', rs_branch = Some ''17.0'',
     rs_modules = [(''17.0'', [(''sale'', sample_module ''sale''), (''stock'', sample_module ''stock'')])],
     rs_excluded = [(''hr'', \<lparr>ex_reason = ''license_skip'', ex_path = ''hr'', ex_name = ''hr'', ex_manifest_file = ''__manifest__.py'', ex_version_raw = [], ex_version_mismatch = False\<rparr>)],
     rs_shadowed = [], rs_tracked_paths = None, rs_finder_paths = {''sale/__manifest__.py'', ''stock/__manifest__.py'', ''hr/__manifest__.py''}, rs_untracked = {},
     rs_missing = {}, rs_complete = True, rs_attention = [], rs_unreadable = {}\<rparr>"

definition sample_git :: git_view where
  "sample_git = \<lparr>gv_out = (\<lambda>_ _. None), gv_fields = (\<lambda>_. None), gv_ancestor = (\<lambda>_ _. True), gv_removing = (\<lambda>_. None), gv_rev_parse = (\<lambda>_. None),
     gv_commit_exists = (\<lambda>_. True), gv_changed_files = (\<lambda>_ _. None), gv_is_file = (\<lambda>_. False)\<rparr>"

definition sample_graph_view :: graph_view where
  "sample_graph_view = \<lparr>gw_identity = (\<lambda>_ _. None), gw_baseline = [], gw_stamped = length\<rparr>"

definition sample_gates :: gate_result where
  "sample_gates = \<lparr>scan_ok = True, mass_ok = True, n_soft_drop = 0, g_present_before = 1, tripped = [], bypassed = [], reasons = [], baseline_kind = ''ledger'',
     unproven = [], allow_unproven = False\<rparr>"

definition sample_transitions :: transitions where
  "sample_transitions = classify (map lifecycle_row (rows_for_repo sample_ledger 7)) (lifecycle_scan sample_repo_scan)"

lemma sample_observed_modules: "\<exists>obs. observed_modules sample_repo_scan = Inr obs \<and> map o_name obs = [''sale'', ''stock'', ''hr'']"
proof -
  have "case observed_modules sample_repo_scan of Inl _ \<Rightarrow> False | Inr obs \<Rightarrow> map o_name obs = [''sale'', ''stock'', ''hr'']" by code_simp
  then show ?thesis by (simp split: sum.splits)
qed

lemma sample_names: "record_names sample_repo_scan = [''sale'', ''stock'']" "retired sample_transitions = []" "retire_allowed sample_gates"
  by code_simp+

lemma sample_commit:
  assumes "observed_modules sample_repo_scan = Inr obs"
  shows "\<exists>c l1. commit_observed 7 ''std'' ''17.0'' ''h2'' obs 30 sample_ledger = (Inr c, l1) \<and> find_repo l1 7 = Some sample_repo"
proof -
  have "\<not> isl (fst (commit_observed 7 ''std'' ''17.0'' ''h2'' (case observed_modules sample_repo_scan of Inl _ \<Rightarrow> [] | Inr x \<Rightarrow> x) 30 sample_ledger))"
    by code_simp
  then obtain c l1 where run: "commit_observed 7 ''std'' ''17.0'' ''h2'' obs 30 sample_ledger = (Inr c, l1)"
    using assms by (cases "commit_observed 7 ''std'' ''17.0'' ''h2'' obs 30 sample_ledger"; cases "fst (commit_observed 7 ''std'' ''17.0'' ''h2'' obs 30 sample_ledger)") auto
  then have "l_repos l1 = l_repos sample_ledger" using stepsD [OF repos_commit_observed] by (simp add: repos_kept_def)
  moreover have "find_repo sample_ledger 7 = Some sample_repo" by code_simp
  ultimately show ?thesis using run by (simp add: find_repo_def)
qed

lemma quiet_commit:
  assumes "observed_modules scan = Inr obs" and "commit_observed i profile (rs_odoo_version scan) head obs now l = (Inr c1, l1)" and "find_repo l1 i = Some r"
    and "retired tr = []" "retire_allowed gates" "head \<noteq> []" "gw_stamped w = length"
  shows "\<exists>c l'. commit_lifecycle gv w ts i scan rows tr gates head base profile retire written [] False None now l = (Inr c, l') \<and> lc_synced c"
proof -
  have quiet: "clear_needs_rewrite i [] None now = ret 0" "apply_pending_rewrites i v names wr None now = ret []"
    "flag_absent gv ts i scan rows tr gates head base retire ns now = ret []" for v names wr ns
    using assms(4) by (simp_all add: clear_needs_rewrite_def apply_pending_rewrites_def flag_absent_def)
  show ?thesis
    using assms by (simp add: commit_lifecycle_def quiet seqE_def bindE_def ret_def mark_presence_synced_def update_repo_row_def)
qed

theorem synced_ledger_reflects_scan_witness:
  "\<exists>c l'. commit_lifecycle sample_git sample_graph_view (\<lambda>_. 0) 7 sample_repo_scan (rows_for_repo sample_ledger 7) sample_transitions sample_gates ''h2'' None ''std'' True
     [] [] False None 30 sample_ledger = (Inr c, l') \<and> (\<exists>r \<in> set (l_rows l'). p_name r = ''stock'' \<and> p_repo_id r = Some 7)"
proof -
  let ?run = "commit_lifecycle sample_git sample_graph_view (\<lambda>_. 0) 7 sample_repo_scan (rows_for_repo sample_ledger 7) sample_transitions sample_gates ''h2'' None ''std'' True
     [] [] False None 30 sample_ledger"
  obtain obs where obs: "observed_modules sample_repo_scan = Inr obs" "map o_name obs = [''sale'', ''stock'', ''hr'']" using sample_observed_modules by (elim exE conjE)
  obtain c1 l1 where c1: "commit_observed 7 ''std'' ''17.0'' ''h2'' obs 30 sample_ledger = (Inr c1, l1)" "find_repo l1 7 = Some sample_repo"
    using sample_commit [OF obs(1)] by (elim exE conjE)
  have v: "rs_odoo_version sample_repo_scan = ''17.0''" "gw_stamped sample_graph_view = length" by (simp_all add: sample_repo_scan_def sample_graph_view_def)
  have "\<exists>c l'. ?run = (Inr c, l') \<and> lc_synced c"
    by (rule quiet_commit [OF obs(1) _ c1(2) sample_names(2,3) _ v(2)]) (simp_all only: v(1) c1(1), simp)
  then obtain c l' where run: "?run = (Inr c, l')" and c: "lc_synced c" by blast
  have stored: "\<forall>x \<in> set obs. \<exists>r \<in> set (l_rows l'). p_repo_id r = Some 7 \<and> p_name r = o_name x \<and> p_state r = o_state x"
    by (rule synced_ledger_reflects_scan [OF sample_inv order_refl obs(1) run [unfolded sample_transitions_def] c, THEN conjunct2, THEN conjunct2, THEN conjunct2, THEN conjunct1])
  have "''stock'' \<in> set (map o_name obs)" unfolding obs(2) by simp
  then obtain x where x: "x \<in> set obs" "o_name x = ''stock''" by auto
  from bspec [OF stored x(1)] obtain r where "r \<in> set (l_rows l')" "p_repo_id r = Some 7" "p_name r = ''stock''" unfolding x(2) by blast
  then have "\<exists>r \<in> set (l_rows l'). p_name r = ''stock'' \<and> p_repo_id r = Some 7" by blast
  with run show ?thesis by (intro exI conjI)
qed

definition sample_facts :: run_facts where
  "sample_facts = \<lparr>rf_repo = 7, rf_root_name = ''addons'', rf_version = ''17.0'', rf_current_head = Some ''h2'', rf_last_head = Some ''h1'', rf_diff_base = Some ''h1'',
     rf_profile = ''std'', rf_retire = True, rf_on = True, rf_scan = sample_repo_scan, rf_rows = rows_for_repo sample_ledger 7, rf_transitions = sample_transitions,
     rf_gates = sample_gates, rf_attention = [''version differs; check''], rf_known = None, rf_retry = None, rf_diff = [''stock''], rf_seed = [''sale'', ''stock''],
     rf_written = [''sale'', ''stock''], rf_rewrite_names = [], rf_read_at = None, rf_prune_retry = [], rf_health = [], rf_run_id = None, rf_started = None,
     rf_embedded_at = None\<rparr>"

definition graph_down :: outage where
  "graph_down = no_outage\<lparr>hop_fails := (\<lambda>_. True), direct_fails := True\<rparr>"


theorem run_only_flags_gone_witness:
  "p_id ` {r' \<in> set (l_rows (snd (finish_run no_outage False sample_deps sample_git sample_graph_view (\<lambda>_. 0) sample_facts int 30 sample_ledger))).
     p_state r' = St_retired} \<subseteq> p_id ` set (l_rows sample_ledger)"
proof -
  obtain res l' where run: "finish_run no_outage False sample_deps sample_git sample_graph_view (\<lambda>_. 0) sample_facts int 30 sample_ledger = (res, l')" by fastforce
  show ?thesis unfolding run snd_conv
  proof (intro image_subsetI, elim CollectE conjE)
    fix r' assume r': "r' \<in> set (l_rows l')" "p_state r' = St_retired"
    from run_only_flags_gone [OF run r'(1), THEN conjunct1] r'(2) obtain r where "r \<in> set (l_rows sample_ledger)" "p_id r = p_id r'" by metis
    then show "p_id r' \<in> p_id ` set (l_rows sample_ledger)" by (metis imageI)
  qed
qed

end
