(* ===== verification/Graph_Store.thy ===== *)
theory Graph_Store
  imports Py_Strings "HOL-Library.Product_Lexorder" "HOL-Library.AList"
begin

section \<open>The module part of the graph and of the embeddings table\<close>

text \<open>
  From \<^verbatim>\<open>indexer/writer_neo4j.py\<close> the statements that delete, re-own and read Module nodes and the nodes a
  module owns, and from \<^verbatim>\<open>indexer/writer_pgvector.py\<close> the delete and the listing of embeddings. A graph is
  the list of its Module nodes, the list of the nodes of the fourteen child labels, and the edges the statements
  look at; a deleted node takes its edges with it. A method is a list of statements, each committed on its
  own, so a call that raises has done a prefix of them. Instants are epoch milliseconds.
\<close>

subsection \<open>Nodes\<close>

text \<open>What an entity prune kept although no parse produced it any more (the \<^verbatim>\<open>parser_gap_*\<close> properties of a Module node).\<close>

record parser_gap =
  pg_repo_id :: "int option"
  pg_fingerprint :: string
  pg_paths :: "string list"
  pg_counts :: "nat list"
  pg_sample :: "string list"
  pg_reason :: "string option"

record mnode =
  g_name :: string
  g_version :: string
  g_profile :: "string list"
  g_repos :: "string list"
  g_repo :: "string option"
  g_repo_id :: "int option"
  g_repo_url :: "string option"
  g_path :: "string option"
  g_last_seen_at :: "int option"
  g_last_seen_sha :: "string option"
  g_old_technical_name :: "string option"
  g_deferred :: "(int \<times> int list) option"
  g_gap :: "parser_gap option"
  g_shared_prune_state :: "string option"

record cnode =
  c_id :: int
  c_label :: string
  c_version :: string
  c_module :: "string option"
  c_repo :: "string option"
  c_xmlid :: "string option"
  c_view_xmlid :: "string option"
  c_profile :: "string list"
  c_written_at :: "int option"
  c_written_run :: "string option"
  c_name :: "string option"
  c_model :: "string option"
  c_file_path :: "string option"
  c_test_class :: "string option"

text \<open>\<^verbatim>\<open>PostPassState\<close>: whether the edges derived from the whole version are those of the graph as it is.\<close>

record post_pass =
  pp_dirty :: bool
  pp_dirty_at :: "int option"
  pp_token :: "string option"

record graph =
  gr_modules :: "mnode list"
  gr_children :: "cnode list"
  gr_violations :: "(int \<times> int) list"
  gr_depends :: "((string \<times> string) \<times> string \<times> string) list"
  gr_defined_in :: "(int \<times> string \<times> string) list"
  gr_post_pass :: "(string \<times> post_pass) list"
  gr_dirtied :: "string list"

definition MODULE_CHILD_LABELS :: "string list" where
  "MODULE_CHILD_LABELS = [''LintViolation'', ''Method'', ''Field'', ''Model'', ''View'', ''QWebTmpl'', ''Report'', ''JSPatch'', ''OWLComp'',
     ''Stylesheet'', ''JsTestSuite'', ''TestMethod'', ''TestClass'', ''TestHelper'']"

definition NON_RETIRABLE_MODULE_NAMES :: "string list" where
  "NON_RETIRABLE_MODULE_NAMES = [''@framework'', ''__unresolved__'']"

definition node_key :: "mnode \<Rightarrow> string \<times> string" where
  "node_key m = (g_name m, g_version m)"

definition module_node_of :: "graph \<Rightarrow> string \<Rightarrow> string \<Rightarrow> mnode option" where
  "module_node_of g v n = find (\<lambda>m. node_key m = (n, v)) (rev (gr_modules g))"

text \<open>\<^verbatim>\<open>DETACH DELETE\<close>: the edges of a deleted node go with it.\<close>

definition cut_edges :: "graph \<Rightarrow> graph" where
  "cut_edges g =
     (let mods = set (map node_key (gr_modules g)); kids = set (map c_id (gr_children g))
      in g\<lparr>gr_violations := filter (\<lambda>(a, b). a \<in> kids \<and> b \<in> kids) (gr_violations g),
           gr_depends := filter (\<lambda>(a, b). a \<in> mods \<and> b \<in> mods) (gr_depends g),
           gr_defined_in := filter (\<lambda>(c, m). c \<in> kids \<and> m \<in> mods) (gr_defined_in g)\<rparr>)"

definition delete_modules_where :: "(mnode \<Rightarrow> bool) \<Rightarrow> graph \<Rightarrow> graph" where
  "delete_modules_where P g = cut_edges (g\<lparr>gr_modules := filter (\<lambda>m. \<not> P m) (gr_modules g)\<rparr>)"

definition delete_children_where :: "(cnode \<Rightarrow> bool) \<Rightarrow> graph \<Rightarrow> graph" where
  "delete_children_where P g = cut_edges (g\<lparr>gr_children := filter (\<lambda>c. \<not> P c) (gr_children g)\<rparr>)"

text \<open>The \<^verbatim>\<open>MERGE\<close> of an index run that works beside the statements below.\<close>

definition merge_module :: "mnode \<Rightarrow> mnode list \<Rightarrow> mnode list" where
  "merge_module m ms = (if node_key m \<in> node_key ` set ms then map (\<lambda>x. if node_key x = node_key m then m else x) ms else ms @ [m])"

definition merge_child :: "cnode \<Rightarrow> cnode list \<Rightarrow> cnode list" where
  "merge_child c cs = (if c_id c \<in> c_id ` set cs then map (\<lambda>x. if c_id x = c_id c then c else x) cs else cs @ [c])"

definition merge_writes :: "mnode list \<times> cnode list \<Rightarrow> graph \<Rightarrow> graph" where
  "merge_writes w g = g\<lparr>gr_modules := fold merge_module (fst w) (gr_modules g), gr_children := fold merge_child (snd w) (gr_children g)\<rparr>"

subsection \<open>The stamp of the post-pass\<close>

text \<open>The versions a writer has dirtied itself (\<^verbatim>\<open>_post_pass_dirtied\<close>) are kept beside the nodes.\<close>

definition mark_post_pass_dirty :: "string \<Rightarrow> int \<Rightarrow> graph \<Rightarrow> graph" where
  "mark_post_pass_dirty v now g =
     g\<lparr>gr_dirtied := v # gr_dirtied g,
       gr_post_pass := AList.update v \<lparr>pp_dirty = True, pp_dirty_at = Some now, pp_token = Option.bind (map_of (gr_post_pass g) v) pp_token\<rparr> (gr_post_pass g)\<rparr>"

definition post_pass_current :: "string \<Rightarrow> string \<Rightarrow> graph \<Rightarrow> bool" where
  "post_pass_current v token g =
     (v \<notin> set (gr_dirtied g) \<and> (case map_of (gr_post_pass g) v of None \<Rightarrow> False | Some p \<Rightarrow> \<not> pp_dirty p \<and> pp_token p = Some token))"

definition record_post_pass :: "string \<Rightarrow> string \<Rightarrow> int \<Rightarrow> graph \<Rightarrow> bool \<times> graph" where
  "record_post_pass v token started g =
     (let old = map_of (gr_post_pass g) v; stamp = Option.bind old pp_dirty_at; late = (case stamp of None \<Rightarrow> False | Some t \<Rightarrow> t \<ge> started)
      in (\<not> late, g\<lparr>gr_dirtied := removeAll v (gr_dirtied g),
            gr_post_pass := AList.update v \<lparr>pp_dirty = late, pp_dirty_at = stamp, pp_token = (if late then Option.bind old pp_token else Some token)\<rparr> (gr_post_pass g)\<rparr>))"

subsection \<open>Retiring modules\<close>

definition written_before_run :: "int \<Rightarrow> cnode \<Rightarrow> bool" where
  "written_before_run run_at c = (case c_written_at c of None \<Rightarrow> True | Some t \<Rightarrow> t < run_at)"

definition seen_since :: "int \<Rightarrow> mnode \<Rightarrow> bool" where
  "seen_since run_at m = (case g_last_seen_at m of None \<Rightarrow> False | Some t \<Rightarrow> t \<ge> run_at)"

definition module_view_xmlids :: "graph \<Rightarrow> string \<Rightarrow> string list \<Rightarrow> string list" where
  "module_view_xmlids g v names =
     List.map_filter c_xmlid (filter (\<lambda>c. c_label c = ''View'' \<and> c_version c = v \<and> (\<exists>n \<in> set names. c_module c = Some n)) (gr_children g))"

definition xmlid_module :: "string option \<Rightarrow> string" where
  "xmlid_module x = hd (split_on (CHR ''.'') (case x of None \<Rightarrow> [] | Some s \<Rightarrow> s))"

text \<open>\<^verbatim>\<open>_MODULE_LINT_VIOLATION_PREDICATE\<close>: the violation belongs to a view of the modules, by its identifier, by the
  edge from the view, or, when there is no such view, by the prefix of the identifier.\<close>

definition violation_of :: "graph \<Rightarrow> string \<Rightarrow> string list \<Rightarrow> string list \<Rightarrow> cnode \<Rightarrow> bool" where
  "violation_of g v names xmlids lv \<longleftrightarrow>
     c_label lv = ''LintViolation'' \<and> c_version lv = v \<and>
     ((\<exists>x \<in> set xmlids. c_view_xmlid lv = Some x) \<or>
      list_ex (\<lambda>(a, b). b = c_id lv \<and> list_ex (\<lambda>w. c_id w = a \<and> c_label w = ''View'' \<and> (\<exists>n \<in> set names. c_module w = Some n)) (gr_children g))
        (gr_violations g) \<or>
      xmlid_module (c_view_xmlid lv) \<in> set names \<and>
        \<not> list_ex (\<lambda>w. c_label w = ''View'' \<and> c_version w = v \<and> c_xmlid w \<noteq> None \<and> c_xmlid w = c_view_xmlid lv) (gr_children g))"

definition owned_child :: "string \<Rightarrow> string list \<Rightarrow> string \<Rightarrow> cnode \<Rightarrow> bool" where
  "owned_child v names label c \<longleftrightarrow> c_label c = label \<and> c_version c = v \<and> (\<exists>n \<in> set names. c_module c = Some n)"

definition selected_child :: "graph \<Rightarrow> string \<Rightarrow> string list \<Rightarrow> string list \<Rightarrow> string \<Rightarrow> cnode \<Rightarrow> bool" where
  "selected_child g v names xmlids label =
     (if label = ''LintViolation'' then violation_of g v names xmlids else owned_child v names label)"

text \<open>The identifiers of the views are read before the first delete.\<close>

definition delete_label :: "string \<Rightarrow> string list \<Rightarrow> int \<Rightarrow> string list \<Rightarrow> string \<Rightarrow> graph \<Rightarrow> graph" where
  "delete_label v names run_at xmlids label g =
     delete_children_where (\<lambda>c. selected_child g v names xmlids label c \<and> written_before_run run_at c) g"

definition delete_stale_modules :: "string \<Rightarrow> string list \<Rightarrow> int \<Rightarrow> graph \<Rightarrow> graph" where
  "delete_stale_modules v names run_at g =
     delete_modules_where (\<lambda>m. g_name m \<in> set names \<and> g_version m = v \<and> \<not> seen_since run_at m) g"

definition delete_children :: "string \<Rightarrow> string list \<Rightarrow> int \<Rightarrow> string list \<Rightarrow> (graph \<Rightarrow> graph) list" where
  "delete_children v names run_at xmlids = map (delete_label v names run_at xmlids) MODULE_CHILD_LABELS"

record retire_result =
  rr_modules :: nat
  rr_children :: nat
  rr_retired :: "string list"
  rr_skipped_recent :: "string list"

definition retirable :: "string list \<Rightarrow> string list" where
  "retirable names = sort (remdups (filter (\<lambda>n. n \<noteq> [] \<and> n \<notin> set NON_RETIRABLE_MODULE_NAMES) names))"

definition recent_names :: "graph \<Rightarrow> string \<Rightarrow> string list \<Rightarrow> int \<Rightarrow> string list" where
  "recent_names g v names run_at =
     filter (\<lambda>n. list_ex (\<lambda>m. node_key m = (n, v) \<and> seen_since run_at m) (gr_modules g)) names"

definition retire_targets :: "graph \<Rightarrow> string \<Rightarrow> string list \<Rightarrow> int \<Rightarrow> string list" where
  "retire_targets g v names run_at = filter (\<lambda>n. n \<notin> set (recent_names g v (retirable names) run_at)) (retirable names)"

text \<open>Other runs may write before every statement of a call: \<open>conc 0\<close> falls between the guard and the read of the view identifiers,
  \<open>conc (Suc k)\<close> before the delete of the \<open>k\<close>-th child label and of the Module nodes, which is the last, and \<open>conc 16\<close> before the late guard.\<close>

type_synonym concurrent = "nat \<Rightarrow> mnode list \<times> cnode list"

fun interleave :: "concurrent \<Rightarrow> nat \<Rightarrow> (graph \<Rightarrow> graph) list \<Rightarrow> (graph \<Rightarrow> graph) list" where
  "interleave conc k [] = []"
| "interleave conc k (s # ss) = merge_writes (conc k) # s # interleave conc (Suc k) ss"

definition run_stmts :: "(graph \<Rightarrow> graph) list \<Rightarrow> graph \<Rightarrow> graph" where
  "run_stmts ss g = fold (\<lambda>s g. s g) ss g"

text \<open>The statements that follow the read, with the writes between them.\<close>

definition cascade :: "concurrent \<Rightarrow> string \<Rightarrow> string list \<Rightarrow> int \<Rightarrow> string list \<Rightarrow> (graph \<Rightarrow> graph) list" where
  "cascade conc v targets run_at xmlids =
     interleave conc 1 (delete_children v targets run_at xmlids @ [delete_stale_modules v targets run_at]) @ [merge_writes (conc 16)]"

text \<open>The deletes of the child labels, with the number of nodes they deleted.\<close>

fun run_counted :: "concurrent \<Rightarrow> nat \<Rightarrow> (graph \<Rightarrow> graph) list \<Rightarrow> graph \<Rightarrow> nat \<times> graph" where
  "run_counted conc k [] g = (0, g)"
| "run_counted conc k (s # ss) g =
     (let g1 = merge_writes (conc k) g; g2 = s g1; (n, g3) = run_counted conc (Suc k) ss g2
      in (length (gr_children g1) - length (gr_children g2) + n, g3))"

definition retire_modules :: "concurrent \<Rightarrow> string \<Rightarrow> string list \<Rightarrow> int \<Rightarrow> int \<Rightarrow> graph \<Rightarrow> retire_result \<times> graph" where
  "retire_modules conc v names run_at now g =
     (let recent = recent_names g v (retirable names) run_at; targets = retire_targets g v names run_at
      in if targets = [] then (\<lparr>rr_modules = 0, rr_children = 0, rr_retired = [], rr_skipped_recent = recent\<rparr>, g)
         else
           let g0 = merge_writes (conc 0) g; xmlids = module_view_xmlids g0 v targets;
               (children, g2) = run_counted conc 1 (delete_children v targets run_at xmlids) g0;
               g3 = merge_writes (conc 15) g2; g4 = delete_stale_modules v targets run_at g3;
               modules = length (gr_modules g3) - length (gr_modules g4); g5 = merge_writes (conc 16) g4;
               late = filter (\<lambda>n. module_node_of g5 v n \<noteq> None) targets
           in (\<lparr>rr_modules = modules, rr_children = children, rr_retired = filter (\<lambda>n. n \<notin> set late) targets,
                rr_skipped_recent = sort (remdups (recent @ late))\<rparr>,
               if modules > 0 \<or> children > 0 then mark_post_pass_dirty v now g5 else g5))"

text \<open>A call that raises has run a prefix of its statements.\<close>

definition retire_modules_partly :: "concurrent \<Rightarrow> nat \<Rightarrow> string \<Rightarrow> string list \<Rightarrow> int \<Rightarrow> graph \<Rightarrow> graph" where
  "retire_modules_partly conc k v names run_at g =
     (let targets = retire_targets g v names run_at; g0 = merge_writes (conc 0) g
      in run_stmts (take k (cascade conc v targets run_at (module_view_xmlids g0 v targets))) g0)"

subsection \<open>Dropping an owner\<close>

record module_owner =
  ow_profile_name :: string
  ow_repo_basename :: string
  ow_path :: string
  ow_repo_id :: "int option"
  ow_repo_url :: "string option"

definition owner_key :: "module_owner \<Rightarrow> string \<times> string" where
  "owner_key o1 = (ow_profile_name o1, ow_repo_basename o1)"

text \<open>A dictionary by key keeps the last value of a key.\<close>

fun last_per_key :: "('a \<Rightarrow> 'k) \<Rightarrow> 'a list \<Rightarrow> 'a list" where
  "last_per_key f [] = []"
| "last_per_key f (x # xs) = (if f x \<in> f ` set xs then last_per_key f xs else x # last_per_key f xs)"

definition owner_list :: "module_owner list \<Rightarrow> module_owner list" where
  "owner_list owners = sort_key owner_key (last_per_key owner_key owners)"

definition reset_node :: "module_owner list \<Rightarrow> mnode \<Rightarrow> mnode" where
  "reset_node owners m =
     (let primary = hd owners
      in m\<lparr>g_profile := sort (remdups (map ow_profile_name owners)), g_repos := sort (remdups (map ow_repo_basename owners)),
           g_repo := Some (ow_repo_basename primary), g_path := Some (ow_path primary),
           g_repo_id := (case ow_repo_id primary of None \<Rightarrow> g_repo_id m | Some i \<Rightarrow> Some i),
           g_repo_url := (case ow_repo_url primary of None \<Rightarrow> g_repo_url m | Some u \<Rightarrow> Some u)\<rparr>)"

definition reset_module :: "string \<Rightarrow> string \<Rightarrow> module_owner list \<Rightarrow> graph \<Rightarrow> graph" where
  "reset_module v n owners g = g\<lparr>gr_modules := map (\<lambda>m. if node_key m = (n, v) then reset_node owners m else m) (gr_modules g)\<rparr>"

definition delete_foreign_tests :: "string \<Rightarrow> string \<Rightarrow> string list \<Rightarrow> string \<Rightarrow> graph \<Rightarrow> graph" where
  "delete_foreign_tests v n repos label g =
     delete_children_where (\<lambda>c. owned_child v [n] label c \<and> (case c_repo c of None \<Rightarrow> [] | Some r \<Rightarrow> r) \<notin> set repos) g"

definition reset_label :: "string \<Rightarrow> string \<Rightarrow> string list \<Rightarrow> string \<Rightarrow> graph \<Rightarrow> graph" where
  "reset_label v n profiles label g =
     g\<lparr>gr_children := map (\<lambda>c. if selected_child g v [n] (module_view_xmlids g v [n]) label c then c\<lparr>c_profile := profiles\<rparr> else c) (gr_children g)\<rparr>"

definition drop_owner_stmts :: "string \<Rightarrow> string \<Rightarrow> module_owner list \<Rightarrow> (graph \<Rightarrow> graph) list" where
  "drop_owner_stmts v n owners =
     (let os = owner_list owners; profiles = sort (remdups (map ow_profile_name os)); repos = sort (remdups (map ow_repo_basename os))
      in if n \<in> set NON_RETIRABLE_MODULE_NAMES then []
         else reset_module v n os # map (delete_foreign_tests v n repos) [''TestMethod'', ''TestClass''] @ map (reset_label v n profiles) MODULE_CHILD_LABELS)"

text \<open>\<open>None\<close> is the \<^verbatim>\<open>ValueError\<close> of an empty list of owners.\<close>

definition tests_of :: "string \<Rightarrow> string \<Rightarrow> graph \<Rightarrow> nat" where
  "tests_of v n g = length (filter (\<lambda>c. owned_child v [n] ''TestMethod'' c \<or> owned_child v [n] ''TestClass'' c) (gr_children g))"

definition drop_module_owner :: "string \<Rightarrow> string \<Rightarrow> module_owner list \<Rightarrow> int \<Rightarrow> graph \<Rightarrow> graph option" where
  "drop_module_owner v n owners now g =
     (if owners = [] then None
      else if n \<in> set NON_RETIRABLE_MODULE_NAMES then Some g
      else
        let g' = run_stmts (drop_owner_stmts v n owners) g
        in Some (if module_node_of g v n \<noteq> None \<or> tests_of v n g' < tests_of v n g then mark_post_pass_dirty v now g' else g'))"

subsection \<open>Reads and small writes\<close>

definition orphan_module_names :: "graph \<Rightarrow> string \<Rightarrow> string set \<Rightarrow> string option \<Rightarrow> string list" where
  "orphan_module_names g v present repo =
     sort (remdups (map g_name (filter (\<lambda>m. g_version m = v \<and> g_name m \<notin> present \<and> g_name m \<notin> set NON_RETIRABLE_MODULE_NAMES \<and>
       (g_profile m \<noteq> [] \<or> g_repo_id m \<noteq> None) \<and> (case repo of None \<Rightarrow> True | Some b \<Rightarrow> g_repo m = Some b)) (gr_modules g))))"

definition module_profiles :: "graph \<Rightarrow> string \<Rightarrow> string \<Rightarrow> string list" where
  "module_profiles g v n = (case module_node_of g v n of None \<Rightarrow> [] | Some m \<Rightarrow> sort (remdups (g_profile m)))"

definition profile_pairs :: "graph \<Rightarrow> string \<Rightarrow> (string \<times> string) list" where
  "profile_pairs g v = concat (map (\<lambda>m. map (\<lambda>p. (g_name m, p)) (g_profile m)) (filter (\<lambda>m. g_version m = v) (gr_modules g)))"

definition modules_by_old_technical_name :: "graph \<Rightarrow> string \<Rightarrow> string \<Rightarrow> string list \<Rightarrow> string list" where
  "modules_by_old_technical_name g v old profiles =
     (let allowed = filter (\<lambda>p. p \<noteq> []) profiles
      in if allowed = [] then []
         else sort (map g_name (filter (\<lambda>m. g_version m = v \<and> g_old_technical_name m = Some old \<and> old \<noteq> g_name m \<and>
           (\<exists>p \<in> set (g_profile m). p \<in> set allowed)) (gr_modules g))))"

definition child_module :: "graph \<Rightarrow> string \<Rightarrow> cnode \<Rightarrow> string option" where
  "child_module g v c =
     (if c_label c = ''LintViolation''
      then case find (\<lambda>w. c_label w = ''View'' \<and> c_version w = v \<and> c_xmlid w \<noteq> None \<and> c_xmlid w = c_view_xmlid c) (gr_children g) of
             Some w \<Rightarrow> (case c_module w of Some n \<Rightarrow> Some n | None \<Rightarrow> Some (xmlid_module (c_view_xmlid c)))
           | None \<Rightarrow> Some (xmlid_module (c_view_xmlid c))
      else c_module c)"

definition orphan_child_keys :: "graph \<Rightarrow> string \<Rightarrow> string list" where
  "orphan_child_keys g v =
     sort (remdups (filter (\<lambda>n. n \<noteq> [] \<and> n \<notin> set NON_RETIRABLE_MODULE_NAMES \<and> module_node_of g v n = None)
       (List.map_filter (child_module g v) (filter (\<lambda>c. c_version c = v \<and> c_label c \<in> set MODULE_CHILD_LABELS) (gr_children g)))))"

definition prune_deferred_modules :: "graph \<Rightarrow> string \<Rightarrow> (string \<times> int \<times> int list) list" where
  "prune_deferred_modules g v =
     sort_key fst (List.map_filter (\<lambda>m. map_option (\<lambda>(i, ws). (g_name m, i, ws)) (g_deferred m)) (filter (\<lambda>m. g_version m = v) (gr_modules g)))"

definition clear_module_prune_deferred :: "string \<Rightarrow> string list \<Rightarrow> graph \<Rightarrow> graph" where
  "clear_module_prune_deferred v names g =
     g\<lparr>gr_modules := map (\<lambda>m. if g_version m = v \<and> g_name m \<in> set names then m\<lparr>g_deferred := None\<rparr> else m) (gr_modules g)\<rparr>"

definition gc_null_repo_dep_stubs :: "string \<Rightarrow> graph \<Rightarrow> graph" where
  "gc_null_repo_dep_stubs v g =
     delete_modules_where (\<lambda>m. g_version m = v \<and> g_repo_id m = None \<and> \<not> list_ex (\<lambda>(c, k). k = node_key m) (gr_defined_in g)) g"

subsection \<open>Embeddings\<close>

record embedding =
  e_module :: string
  e_version :: string
  e_profile :: string
  e_chunk_type :: string
  e_entity_name :: "string option"
  e_file_path :: "string option"
  e_chunk_idx :: int
  e_indexed_at :: int

definition GLOBAL_PROFILE :: string where
  "GLOBAL_PROFILE = ''__global__''"

definition delete_module_embeddings :: "string \<Rightarrow> string \<Rightarrow> string list \<Rightarrow> embedding list \<Rightarrow> nat \<times> embedding list" where
  "delete_module_embeddings n v profiles es =
     (let ps = filter (\<lambda>p. p \<noteq> [] \<and> p \<noteq> GLOBAL_PROFILE) profiles;
          gone = (\<lambda>e. e_module e = n \<and> e_version e = v \<and> e_profile e \<in> set ps)
      in (length (filter gone es), filter (\<lambda>e. \<not> gone e) es))"

definition embedding_groups :: "string \<Rightarrow> embedding list \<Rightarrow> (string \<times> string \<times> nat) list" where
  "embedding_groups v es =
     (let rows = filter (\<lambda>e. e_version e = v \<and> e_profile e \<noteq> GLOBAL_PROFILE) es; pairs = map (\<lambda>e. (e_module e, e_profile e)) rows
      in map (\<lambda>(m, p). (m, p, count_list pairs (m, p))) (sort (remdups pairs)))"

end
