(* ===== verification/Reconcile.thy ===== *)
theory Reconcile
  imports Index_Run Graph_Store "HOL-Library.AList"
begin

section \<open>The reconcile of one Odoo version\<close>

text \<open>
  \<^verbatim>\<open>indexer/reconcile.py\<close>: the only place where a module is retired. The state is the ledger, the graph, the
  embeddings, the report being built and the operator messages. What the code asks of the world outside is a record
  \<open>world\<close>: the checkouts as git shows them, the text of an exception, which attempt of which call to a
  database raises (with the number of its statements that were committed before, and whether the error is
  transient), and what index runs of other processes write while modules are being deleted. The reads of checkouts
  are functions of the path, so the caches of the code that keep them for the time of one reconcile are left out.
\<close>

subsection \<open>World, state and report\<close>

datatype rec_error = Call_failed bool | Ledger_failed ledger_error | No_owner

datatype rcall =
    Read_pending | Read_owners string | Read_blockers string | Read_sync | Read_names
  | Drop_owner string | Drop_excluded string | Embeddings string | Rewrite int string | Retired int | Block int
  | Profiles | Dependents | Lookup_repos | Reset_heads | Retire | Retire_orphans | Retire_residue
  | Synced int | Deferrals | Clear_deferrals | Identity | Orphans | Record_orphan string | Groups | Gc nat | Attention int | Excluded_rows
  | Shared_owners | Shared_states | Shared_census string | Shared_stale string | Shared_embeddings string | Shared_prune string
  | Shared_gap string | Shared_latest string | Shared_state string

record world =
  w_is_dir :: "string \<Rightarrow> bool"
  w_out :: git_out
  w_head_resolves :: "string \<Rightarrow> bool"
  w_ls_files :: "string \<Rightarrow> string option"
  w_checked_out :: "string \<Rightarrow> string option"
  w_fields :: "string \<Rightarrow> git_oracle"
  w_removing :: "string \<Rightarrow> string \<Rightarrow> commit_hit option"
  w_rev_parse :: "string \<Rightarrow> string \<Rightarrow> string option"
  w_time :: "string \<Rightarrow> int"
  w_message :: "rec_error \<Rightarrow> string"
  w_fault :: "rcall \<Rightarrow> nat \<Rightarrow> (nat \<times> bool) option"
  w_conc :: "rcall \<Rightarrow> nat \<Rightarrow> concurrent"
  w_now :: int
  w_clk :: int

record rconf =
  rc_v :: string
  rc_run_at :: int
  rc_retire :: bool
  rc_mass :: bool
  rc_dry :: bool
  rc_observed_heads :: "(int \<times> string) list"
  rc_assume_written :: "string list"

definition execute :: "rconf \<Rightarrow> bool" where
  "execute c = (rc_retire c \<and> \<not> rc_dry c)"

record report =
  rep_retired :: "string list"
  rep_owner_dropped :: "string list"
  rep_undecidable :: "(string \<times> string list) list"
  rep_blocked :: "(string \<times> string) list"
  rep_skipped_recent :: "string list"
  rep_orphans_swept :: "string list"
  rep_orphans_deferred :: "(string \<times> string list) list"
  rep_child_orphans_swept :: "string list"
  rep_child_orphans_deferred :: "string list"
  rep_embedding_orphans :: "(string \<times> string \<times> nat) list"
  rep_embedding_orphans_held :: "(string \<times> string \<times> nat) list"
  rep_embedding_orphans_kept :: "(string \<times> string \<times> nat) list"
  rep_embedding_sweep_run_profile :: "string option"
  rep_orphans_kept :: "(string \<times> string) list"
  rep_child_orphans_kept :: "(string \<times> string) list"
  rep_embeddings_deleted :: nat
  rep_modules_deleted :: nat
  rep_children_deleted :: nat
  rep_dependents_reset :: nat
  rep_ledger_orphan_rows :: nat
  rep_gates_tripped :: "string list"
  rep_errors :: "(string \<times> rec_error) list"
  rep_presence_advanced :: "int list"
  rep_owners_kept :: "(string \<times> string list) list"
  rep_orphan_candidates :: "string list"
  rep_child_orphan_candidates :: "string list"
  rep_prune_rewrites :: "string list"
  rep_excluded_owner_dropped :: "(string \<times> string list) list"
  rep_excluded_owner_waiting :: "(string \<times> string list) list"
  rep_orphans_unparseable :: "string list"
  rep_shared_pruned :: "string list"
  rep_shared_prune_waiting :: "(string \<times> string list) list"
  rep_shared_prune_rewrites :: "(string \<times> string list) list"
  rep_orphan_evidence :: "(string \<times> int \<times> removal_evidence_info \<times> successor_info option) list"

definition empty_report :: report where
  "empty_report = \<lparr>rep_retired = [], rep_owner_dropped = [], rep_undecidable = [], rep_blocked = [], rep_skipped_recent = [], rep_orphans_swept = [],
     rep_orphans_deferred = [], rep_child_orphans_swept = [], rep_child_orphans_deferred = [], rep_embedding_orphans = [], rep_embedding_orphans_held = [],
     rep_embedding_orphans_kept = [], rep_embedding_sweep_run_profile = None, rep_orphans_kept = [], rep_child_orphans_kept = [],
     rep_embeddings_deleted = 0, rep_modules_deleted = 0, rep_children_deleted = 0, rep_dependents_reset = 0, rep_ledger_orphan_rows = 0,
     rep_gates_tripped = [], rep_errors = [], rep_presence_advanced = [], rep_owners_kept = [], rep_orphan_candidates = [],
     rep_child_orphan_candidates = [], rep_prune_rewrites = [], rep_excluded_owner_dropped = [], rep_excluded_owner_waiting = [],
     rep_orphans_unparseable = [], rep_shared_pruned = [], rep_shared_prune_waiting = [], rep_shared_prune_rewrites = [], rep_orphan_evidence = []\<rparr>"

definition needs_attention :: "report \<Rightarrow> bool" where
  "needs_attention r = (rep_gates_tripped r \<noteq> [] \<or> rep_undecidable r \<noteq> [] \<or> rep_errors r \<noteq> [])"

record rstate =
  x_ledger :: ledger
  x_graph :: graph
  x_embeddings :: "embedding list"
  x_report :: report
  x_attention :: "(int \<times> string list) list"
  x_assumed_synced :: "int list"
  x_heads :: "(int \<times> string option) list option"

type_synonym 'a rm = "(rstate, rec_error, 'a) em"

subsection \<open>Calls\<close>

definition transient :: "rec_error \<Rightarrow> bool" where
  "transient e = (case e of Call_failed t \<Rightarrow> t | _ \<Rightarrow> False)"

text \<open>\<^verbatim>\<open>_retrying\<close>: three attempts, numbered from one; only a transient error is tried again.\<close>

fun retry_from :: "nat \<Rightarrow> nat \<Rightarrow> (nat \<Rightarrow> 'a rm) \<Rightarrow> 'a rm" where
  "retry_from 0 k fn = fn k"
| "retry_from (Suc j) k fn = try_except (fn k) (\<lambda>e. if transient e then Some (retry_from j (Suc k) fn) else None)"

definition retrying :: "(nat \<Rightarrow> 'a rm) \<Rightarrow> 'a rm" where
  "retrying fn = retry_from 2 1 fn"

text \<open>A call is answered by \<open>full\<close>, or raises in the state \<open>part\<close> gives for the statements done.\<close>

definition gcall :: "world \<Rightarrow> rcall \<Rightarrow> nat \<Rightarrow> (rstate \<Rightarrow> 'a \<times> rstate) \<Rightarrow> (nat \<Rightarrow> rstate \<Rightarrow> rstate) \<Rightarrow> 'a rm" where
  "gcall w cl k full part = (\<lambda>s. case w_fault w cl k of
     None \<Rightarrow> (Inr (fst (full s)), snd (full s))
   | Some (j, t) \<Rightarrow> (Inl (Call_failed t), part j s))"

definition lcall :: "world \<Rightarrow> rcall \<Rightarrow> 'a lm \<Rightarrow> 'a rm" where
  "lcall w cl m = (\<lambda>s. case w_fault w cl 1 of
     Some (_, t) \<Rightarrow> (Inl (Call_failed t), s)
   | None \<Rightarrow> (case m (x_ledger s) of
        (Inl e, l) \<Rightarrow> (Inl (Ledger_failed e), s\<lparr>x_ledger := l\<rparr>)
      | (Inr a, l) \<Rightarrow> (Inr a, s\<lparr>x_ledger := l\<rparr>)))"

definition sread :: "world \<Rightarrow> rcall \<Rightarrow> (rstate \<Rightarrow> 'a) \<Rightarrow> 'a rm" where
  "sread w cl f = (\<lambda>s. case w_fault w cl 1 of Some (_, t) \<Rightarrow> (Inl (Call_failed t), s) | None \<Rightarrow> (Inr (f s), s))"

definition upd_report :: "(report \<Rightarrow> report) \<Rightarrow> unit rm" where
  "upd_report f = modify (\<lambda>s. s\<lparr>x_report := f (x_report s)\<rparr>)"

text \<open>\<^verbatim>\<open>try: body except Exception: handler\<close>, then the rest only when the body did not raise.\<close>

definition try_else :: "'a rm \<Rightarrow> (rec_error \<Rightarrow> unit rm) \<Rightarrow> ('a \<Rightarrow> unit rm) \<Rightarrow> unit rm" where
  "try_else body handler rest =
     bindE (try_except (bindE body (\<lambda>a. ret (Some a))) (\<lambda>e. Some (seqE (handler e) (ret None)))) (\<lambda>r.
       case r of None \<Rightarrow> ret () | Some a \<Rightarrow> rest a)"

subsection \<open>Who may still ship a name\<close>

definition label_text :: "string \<Rightarrow> int option \<Rightarrow> string" where
  "label_text basename i =
     (if basename = [] then ''?'' else basename) @ '' (repo id='' @ (case i of None \<Rightarrow> ''None'' | Some j \<Rightarrow> str_int j) @ '')''"

definition row_label :: "presence \<Rightarrow> string" where
  "row_label r = label_text (p_repo_basename r) (p_repo_id r)"

definition repo_label :: "repo \<Rightarrow> string" where
  "repo_label r = label_text (local_basename (r_local_path r)) (Some (r_id r))"

definition rule_version :: "world \<Rightarrow> string \<Rightarrow> repo \<Rightarrow> string option" where
  "rule_version w v r =
     rv_odoo_version (resolve_repo_version (w_checked_out w (r_local_path r)) (Some (r_branch r))
       (Some (if r_profile_version r = [] then v else r_profile_version r)))"

definition tracked_module_names :: "world \<Rightarrow> string \<Rightarrow> repo \<Rightarrow> string set option" where
  "tracked_module_names w v r =
     (let path = r_local_path r
      in case list_tracked_manifests (w_head_resolves w path) (w_ls_files w path) of
           None \<Rightarrow> None
         | Some tracked \<Rightarrow>
             let rv = rule_version w v r; dispatch = (if nonempty rv then the rv else v)
             in if rv \<noteq> None \<and> rv \<noteq> Some v then Some {}
                else Some ((\<lambda>p. let n = path_name (path_parent p) in if n = [] then path_name (cut_slashes path) else n) ` filter_manifest_paths tracked dispatch))"

definition head_shipped_names :: "world \<Rightarrow> string \<Rightarrow> repo \<Rightarrow> string list option" where
  "head_shipped_names w v r =
     (let path = r_local_path r; rv = rule_version w v r
      in if path = [] \<or> \<not> w_is_dir w path then None
         else if rv \<noteq> None \<and> rv \<noteq> Some v then Some []
         else head_tree_module_names (w_out w) path)"

datatype why = Had_name | Ships_name | Checkout_unreadable

definition why_text :: "why \<Rightarrow> string" where
  "why_text y = (case y of Had_name \<Rightarrow> ''had_name'' | Ships_name \<Rightarrow> ''ships_name'' | Checkout_unreadable \<Rightarrow> ''checkout_unreadable'')"

definition checkout_verdict :: "world \<Rightarrow> string \<Rightarrow> string \<Rightarrow> repo \<Rightarrow> why option" where
  "checkout_verdict w v n r =
     (if r_local_path r = [] \<or> \<not> w_is_dir w (r_local_path r) then None
      else case tracked_module_names w v r of
        None \<Rightarrow> Some Checkout_unreadable
      | Some names \<Rightarrow> if n \<in> names then Some Ships_name else None)"

definition blockers :: "world \<Rightarrow> ledger \<Rightarrow> string \<Rightarrow> string \<Rightarrow> int list \<Rightarrow> (repo \<times> why) list" where
  "blockers w l v n excluded =
     List.map_filter (\<lambda>(r, had_name).
       if r_id r \<in> set excluded then None
       else if had_name then Some (r, Had_name)
       else map_option (\<lambda>y. (r, y)) (checkout_verdict w v n r)) (potential_owners_unsynced l n v None)"

definition blocker_label :: "repo \<times> why \<Rightarrow> string" where
  "blocker_label b = repo_label (fst b) @ '' ['' @ why_text (snd b) @ '']''"

definition checkout_claim :: "world \<Rightarrow> string \<Rightarrow> repo list \<Rightarrow> string \<Rightarrow> string option" where
  "checkout_claim w v rows n =
     Option.bind (find (\<lambda>r. case head_shipped_names w v r of None \<Rightarrow> True | Some ns \<Rightarrow> n \<in> set ns) rows)
       (\<lambda>r. Some (repo_label r @ (if head_shipped_names w v r = None then '': checkout missing or unreadable'' else '': manifest in the HEAD tree'')))"

subsection \<open>Helpers of the reconciler\<close>

definition add_message :: "int \<Rightarrow> string \<Rightarrow> (int \<times> string list) list \<Rightarrow> (int \<times> string list) list" where
  "add_message i text as =
     (let bucket = (case map_of as i of None \<Rightarrow> [] | Some b \<Rightarrow> b) in AList.update i (if text \<in> set bucket then bucket else bucket @ [text]) as)"

definition attend :: "int option \<Rightarrow> string \<Rightarrow> unit rm" where
  "attend i text = (case i of None \<Rightarrow> ret () | Some j \<Rightarrow> modify (\<lambda>s. s\<lparr>x_attention := add_message j text (x_attention s)\<rparr>))"

definition flush_attention :: "world \<Rightarrow> rconf \<Rightarrow> unit rm" where
  "flush_attention w c =
     (if rc_dry c then ret ()
      else bindE (gets x_attention) (\<lambda>as.
        for_each (sort_key fst as) () (\<lambda>(i, messages) _.
          try_except
            (bindE (gets (\<lambda>s. case find_repo (x_ledger s) i of None \<Rightarrow> [] | Some r \<Rightarrow> filter (\<lambda>p. p \<noteq> []) (split_semi (or_text (r_attention r) [])))) (\<lambda>parts.
               lcall w (Attention i) (set_lifecycle_attention i (join_str ''; '' (fold (\<lambda>m ps. if m \<in> set ps then ps else ps @ [m]) messages parts)) (w_now w))))
            (\<lambda>_. Some (ret ())))))"

definition block :: "world \<Rightarrow> rconf \<Rightarrow> presence list \<Rightarrow> string \<Rightarrow> unit rm" where
  "block w c rows reason =
     (if \<not> execute c \<or> rows = [] then ret ()
      else seqE (lcall w (Block (p_id (hd rows))) (mark_retire_blocked (map p_id rows) (Some reason) (w_now w))) (ret ()))"

definition repo_head :: "world \<Rightarrow> rconf \<Rightarrow> int option \<Rightarrow> string option rm" where
  "repo_head w c i =
     (case i of
        None \<Rightarrow> ret None
      | Some j \<Rightarrow>
          (case map_of (rc_observed_heads c) j of
             Some h \<Rightarrow> ret (Some h)
           | None \<Rightarrow>
               bindE (gets x_heads) (\<lambda>cached.
               bindE (case cached of
                   Some hs \<Rightarrow> ret hs
                 | None \<Rightarrow>
                     bindE (sread w Read_sync (\<lambda>s. map (\<lambda>(r, _). (r_id r, r_head_sha r)) (repo_sync_state (x_ledger s) (rc_v c)))) (\<lambda>hs.
                       seqE (modify (\<lambda>s. s\<lparr>x_heads := Some hs\<rparr>)) (ret hs))) (\<lambda>hs.
                 ret (Option.bind (map_of hs j) (\<lambda>h. h))))))"

definition commit_retired_rows :: "world \<Rightarrow> rconf \<Rightarrow> presence list \<Rightarrow> unit rm" where
  "commit_retired_rows w c rows =
     for_each rows () (\<lambda>r _.
       bindE (repo_head w c (p_repo_id r)) (\<lambda>head.
         seqE (lcall w (Retired (p_id r)) (commit_retired (p_repo_id r) (p_name r) None None None head
                 (if p_repo_id r = None then Some (p_id r) else None) (w_now w))) (ret ())))"

definition delete_embeddings :: "world \<Rightarrow> rconf \<Rightarrow> string \<Rightarrow> string list \<Rightarrow> unit rm" where
  "delete_embeddings w c n profiles =
     bindE (retrying (\<lambda>k. gcall w (Embeddings n) k
       (\<lambda>s. case delete_module_embeddings n (rc_v c) profiles (x_embeddings s) of (d, es) \<Rightarrow> (d, s\<lparr>x_embeddings := es\<rparr>))
       (\<lambda>j s. if j = 0 then s else s\<lparr>x_embeddings := snd (delete_module_embeddings n (rc_v c) profiles (x_embeddings s))\<rparr>))) (\<lambda>d.
     upd_report (\<lambda>r. r\<lparr>rep_embeddings_deleted := rep_embeddings_deleted r + d\<rparr>))"

text \<open>The graph of \<^verbatim>\<open>DEPENDS_ON\<close> edges between existing nodes, for \<^verbatim>\<open>find_dependent_repos\<close>.\<close>

definition dep_edges :: "graph \<Rightarrow> dep_graph" where
  "dep_edges g =
     (let node = (\<lambda>(n, v). map_option (\<lambda>m. \<lparr>n_name = n, n_version = v, n_repo = g_repo m\<rparr>) (module_node_of g v n))
      in List.map_filter (\<lambda>(a, b). Option.bind (node a) (\<lambda>x. map_option (\<lambda>y. (x, y)) (node b))) (gr_depends g))"

definition reset_dependents :: "world \<Rightarrow> rconf \<Rightarrow> string list \<Rightarrow> string list \<Rightarrow> unit rm" where
  "reset_dependents w c names exclude_basenames =
     (if names = [] then ret ()
      else bindE (sread w Dependents (\<lambda>s. filter (\<lambda>b. b \<notin> set exclude_basenames) (the (find_dependent_repos False (dep_edges (x_graph s)) (rc_v c) names)))) (\<lambda>basenames.
        if basenames = [] \<or> \<not> execute c then ret ()
        else bindE (sread w Lookup_repos (\<lambda>s. get_repo_ids_by_local_path_basenames (x_ledger s) basenames (rc_v c))) (\<lambda>ids.
          if ids = [] then ret ()
          else bindE (lcall w Reset_heads (reset_head_sha ids)) (\<lambda>n.
            upd_report (\<lambda>r. r\<lparr>rep_dependents_reset := rep_dependents_reset r + n\<rparr>)))))"

definition call_retire :: "world \<Rightarrow> rconf \<Rightarrow> rcall \<Rightarrow> string list \<Rightarrow> retire_result rm" where
  "call_retire w c cl names =
     retrying (\<lambda>k. gcall w cl k
       (\<lambda>s. case retire_modules (w_conc w cl k) (rc_v c) names (rc_run_at c) (w_now w) (x_graph s) of (res, g) \<Rightarrow> (res, s\<lparr>x_graph := g\<rparr>))
       (\<lambda>j s. s\<lparr>x_graph := retire_modules_partly (w_conc w cl k) j (rc_v c) names (rc_run_at c) (x_graph s)\<rparr>))"

definition count_deleted :: "retire_result \<Rightarrow> unit rm" where
  "count_deleted res = upd_report (\<lambda>r. r\<lparr>rep_modules_deleted := rep_modules_deleted r + rr_modules res,
     rep_children_deleted := rep_children_deleted r + rr_children res\<rparr>)"

definition record_error :: "world \<Rightarrow> rconf \<Rightarrow> string \<Rightarrow> presence list \<Rightarrow> rec_error \<Rightarrow> unit rm" where
  "record_error w c n rows e =
     (let text = ''error: '' @ n @ ''@'' @ rc_v c @ '' not retired ('' @ take 300 (w_message w e) @ '')''
      in seqE (upd_report (\<lambda>r. r\<lparr>rep_errors := AList.update n e (rep_errors r)\<rparr>))
         (seqE (try_except (block w c rows text) (\<lambda>_. Some (ret ())))
           (for_each rows () (\<lambda>r _. attend (p_repo_id r) text))))"

subsection \<open>Pending names\<close>

definition owner_of_row :: "presence \<Rightarrow> module_owner" where
  "owner_of_row o1 = \<lparr>ow_profile_name = p_profile_name o1, ow_repo_basename = p_repo_basename o1, ow_path = p_path o1,
     ow_repo_id = p_repo_id o1, ow_repo_url = Some (p_repo_url o1)\<rparr>"

text \<open>\<^verbatim>\<open>drop_module_owner\<close> with the surviving owners, the embeddings of the profiles that left, and a rewrite flag
  for every survivor.\<close>

definition call_drop_owner :: "world \<Rightarrow> rconf \<Rightarrow> rcall \<Rightarrow> string \<Rightarrow> presence list \<Rightarrow> unit rm" where
  "call_drop_owner w c cl n owners =
     (let os = map owner_of_row owners
      in retrying (\<lambda>k. if os = [] then raise_exc No_owner
           else gcall w cl k (\<lambda>s. ((), s\<lparr>x_graph := the (drop_module_owner (rc_v c) n os (w_now w) (x_graph s))\<rparr>))
             (\<lambda>j s. s\<lparr>x_graph := run_stmts (take j (drop_owner_stmts (rc_v c) n os)) (x_graph s)\<rparr>)))"

definition hand_over :: "world \<Rightarrow> rconf \<Rightarrow> rcall \<Rightarrow> string \<Rightarrow> presence list \<Rightarrow> string list \<Rightarrow> unit rm" where
  "hand_over w c cl n owners gone_profiles =
     seqE (call_drop_owner w c cl n owners)
     (seqE (if gone_profiles = [] then ret () else delete_embeddings w c n gone_profiles)
       (for_each (sort (remdups (map (\<lambda>o1. the (p_repo_id o1)) owners))) () (\<lambda>i _.
          seqE (lcall w (Rewrite i n) (mark_needs_rewrite i n (w_clk w) (w_now w))) (ret ()))))"

definition gone_profiles :: "presence list \<Rightarrow> presence list \<Rightarrow> string list" where
  "gone_profiles rows owners = filter (\<lambda>p. p \<notin> p_profile_name ` set owners) (remdups (map p_profile_name rows))"

definition drop_owner :: "world \<Rightarrow> rconf \<Rightarrow> string \<Rightarrow> presence list \<Rightarrow> presence list \<Rightarrow> unit rm" where
  "drop_owner w c n rows owners =
     (let dropped = upd_report (\<lambda>r. r\<lparr>rep_owner_dropped := rep_owner_dropped r @ [n]\<rparr>)
      in seqE (upd_report (\<lambda>r. r\<lparr>rep_owners_kept := AList.update n (sort (remdups (map row_label owners))) (rep_owners_kept r)\<rparr>))
         (if \<not> execute c then dropped
          else try_else (seqE (hand_over w c (Drop_owner n) n owners (gone_profiles rows owners)) (commit_retired_rows w c rows))
                 (record_error w c n rows) (\<lambda>_. dropped)))"

definition retire :: "world \<Rightarrow> rconf \<Rightarrow> (string \<times> presence list) list \<Rightarrow> unit rm" where
  "retire w c to_retire =
     (let names = map fst to_retire
      in if \<not> execute c then upd_report (\<lambda>r. r\<lparr>rep_retired := rep_retired r @ names\<rparr>)
         else try_else
           (bindE (sread w Profiles (\<lambda>s. map (\<lambda>n. (n, module_profiles (x_graph s) (rc_v c) n)) names)) (\<lambda>profiles_before.
              seqE (reset_dependents w c names (map p_repo_basename (concat (map snd to_retire))))
              (bindE (call_retire w c Retire names) (\<lambda>res. ret (profiles_before, res)))))
           (\<lambda>e. for_each to_retire () (\<lambda>(n, rows) _. record_error w c n rows e))
           (\<lambda>(profiles_before, res).
              seqE (count_deleted res)
              (for_each to_retire () (\<lambda>(n, rows) _.
                 if n \<in> set (rr_skipped_recent res)
                 then seqE (upd_report (\<lambda>r. r\<lparr>rep_skipped_recent := rep_skipped_recent r @ [n]\<rparr>)) (block w c rows ''skipped_recent'')
                 else try_else
                   (seqE (delete_embeddings w c n (the (map_of profiles_before n) @ map p_profile_name rows)) (commit_retired_rows w c rows))
                   (record_error w c n rows)
                   (\<lambda>_. upd_report (\<lambda>r. r\<lparr>rep_retired := rep_retired r @ [n]\<rparr>))))))"

definition undecided :: "world \<Rightarrow> rconf \<Rightarrow> string \<Rightarrow> presence list \<Rightarrow> (repo \<times> why) list \<Rightarrow> unit rm" where
  "undecided w c n rows bs =
     (let labels = map blocker_label bs;
          text = ''undecidable: '' @ n @ ''@'' @ rc_v c @ '' kept: repo(s) '' @ join_str '', '' labels @ '' not synced''
      in seqE (upd_report (\<lambda>r. r\<lparr>rep_undecidable := AList.update n labels (rep_undecidable r)\<rparr>))
         (seqE (block w c rows text) (for_each rows () (\<lambda>r _. attend (p_repo_id r) text))))"

definition eligible :: "presence list \<Rightarrow> presence list" where
  "eligible rows = filter (\<lambda>r. reconcile_may_retry (p_retire_blocked_by r)) rows"

definition held_by :: "presence list \<Rightarrow> string list" where
  "held_by rows = sort (remdups (List.map_filter p_retire_blocked_by (filter (\<lambda>r. \<not> reconcile_may_retry (p_retire_blocked_by r)) rows)))"

definition surviving_owners :: "ledger \<Rightarrow> string \<Rightarrow> string \<Rightarrow> int list \<Rightarrow> presence list" where
  "surviving_owners l v n leaving = filter (\<lambda>o1. the (p_repo_id o1) \<notin> set leaving) (other_present_owners l n v None)"

definition decide_name :: "world \<Rightarrow> rconf \<Rightarrow> string \<Rightarrow> presence list \<Rightarrow> (string \<times> presence list) list \<Rightarrow> (string \<times> presence list) list rm" where
  "decide_name w c n rows to_retire =
     seqE (if held_by rows = [] then ret () else upd_report (\<lambda>r. r\<lparr>rep_blocked := AList.update n (join_str '', '' (held_by rows)) (rep_blocked r)\<rparr>))
     (if eligible rows = [] then ret to_retire
      else if \<not> rc_retire c
      then seqE (upd_report (\<lambda>r. if n \<in> keys (rep_blocked r) then r else r\<lparr>rep_blocked := AList.update n ''no_retire'' (rep_blocked r)\<rparr>)) (ret to_retire)
      else
        let retiring = List.map_filter p_repo_id (eligible rows)
        in bindE (sread w (Read_owners n) (\<lambda>s. surviving_owners (x_ledger s) (rc_v c) n retiring)) (\<lambda>owners.
           bindE (sread w (Read_blockers n) (\<lambda>s. blockers w (x_ledger s) (rc_v c) n (retiring @ map (\<lambda>o1. the (p_repo_id o1)) owners))) (\<lambda>bs.
             if owners \<noteq> [] \<and> bs = [] then seqE (drop_owner w c n (eligible rows) owners) (ret to_retire)
             else if bs \<noteq> [] then seqE (undecided w c n (eligible rows) bs) (ret to_retire)
             else ret (to_retire @ [(n, eligible rows)]))))"

definition pending :: "world \<Rightarrow> rconf \<Rightarrow> string list option \<Rightarrow> unit rm" where
  "pending w c only_names =
     bindE (sread w Read_pending (\<lambda>s. filter (\<lambda>r. case only_names of None \<Rightarrow> True | Some ns \<Rightarrow> p_name r \<in> set ns)
         (pending_retirements (x_ledger s) (rc_v c)))) (\<lambda>rows.
     bindE (for_each (sort (remdups (map p_name rows))) [] (\<lambda>n. decide_name w c n (filter (\<lambda>r. p_name r = n) rows))) (\<lambda>to_retire.
       if to_retire = [] then ret () else retire w c to_retire))"

subsection \<open>Excluding co-owners, presence heads, deferred prunes\<close>

definition excluded_waits :: "string \<Rightarrow> (repo \<times> why) list \<Rightarrow> report \<Rightarrow> report" where
  "excluded_waits n bs r = r\<lparr>rep_excluded_owner_waiting := AList.update n (sort (map blocker_label bs)) (rep_excluded_owner_waiting r)\<rparr>"

definition excluded_leaves :: "string \<Rightarrow> presence list \<Rightarrow> presence list \<Rightarrow> report \<Rightarrow> report" where
  "excluded_leaves n rows owners r =
     r\<lparr>rep_excluded_owner_dropped := AList.update n (sort (map row_label rows)) (rep_excluded_owner_dropped r),
       rep_owners_kept := AList.update n (sort (remdups (map row_label owners))) (rep_owners_kept r)\<rparr>"

text \<open>Whether the node still carries an excluded owner: its profile that no survivor has, or its basename.\<close>

definition still_owned :: "mnode \<Rightarrow> presence list \<Rightarrow> presence list \<Rightarrow> bool" where
  "still_owned node rows owners \<longleftrightarrow>
     (\<exists>p \<in> set (gone_profiles rows owners). p \<in> set (g_profile node)) \<or>
     (\<exists>b \<in> p_repo_basename ` set rows - p_repo_basename ` set owners. b \<in> set (g_repos node))"

definition drop_excluded_name :: "world \<Rightarrow> rconf \<Rightarrow> mnode option \<Rightarrow> string \<Rightarrow> presence list \<Rightarrow> unit rm" where
  "drop_excluded_name w c node n rows =
     (case node of
        None \<Rightarrow> ret ()
      | Some m \<Rightarrow>
          let leaving = List.map_filter p_repo_id rows
          in bindE (sread w (Read_owners n) (\<lambda>s. surviving_owners (x_ledger s) (rc_v c) n leaving)) (\<lambda>owners.
             if owners = [] then ret ()
             else bindE (sread w (Read_blockers n) (\<lambda>s. blockers w (x_ledger s) (rc_v c) n (leaving @ map (\<lambda>o1. the (p_repo_id o1)) owners))) (\<lambda>bs.
               if bs \<noteq> [] then upd_report (excluded_waits n bs)
               else if \<not> still_owned m rows owners then ret ()
               else seqE (upd_report (excluded_leaves n rows owners))
                 (if \<not> execute c then ret ()
                  else try_else (hand_over w c (Drop_excluded n) n owners (gone_profiles rows owners))
                    (\<lambda>e. upd_report (\<lambda>r. r\<lparr>rep_errors := AList.update (''excluded_owner:'' @ n) e (rep_errors r),
                         rep_excluded_owner_dropped := AList.delete n (rep_excluded_owner_dropped r)\<rparr>))
                    (\<lambda>_. ret ())))))"

definition drop_excluded_owners :: "world \<Rightarrow> rconf \<Rightarrow> unit rm" where
  "drop_excluded_owners w c =
     bindE (sread w Excluded_rows (\<lambda>s. filter (\<lambda>r. p_exclusion_reason r \<noteq> Some Unparseable) (excluded_co_owner_rows (x_ledger s) (rc_v c)))) (\<lambda>rows.
       let names = sort (remdups (map p_name rows))
       in if names = [] then ret ()
          else bindE (sread w Identity (\<lambda>s. map (\<lambda>n. (n, module_node_of (x_graph s) (rc_v c) n)) names)) (\<lambda>identity.
            for_each identity () (\<lambda>(n, node) _. drop_excluded_name w c node n (filter (\<lambda>r. p_name r = n) rows))))"

definition advance_presence :: "world \<Rightarrow> rconf \<Rightarrow> (int \<times> string) list \<Rightarrow> unit rm" where
  "advance_presence w c advance =
     (if advance = [] \<or> \<not> (execute c \<or> rc_dry c) then ret ()
      else bindE (sread w Read_pending (\<lambda>s. (pending_retirements (x_ledger s) (rc_v c), rep_retired (x_report s) @ rep_owner_dropped (x_report s)))) (\<lambda>(rows, resolved).
        let still_pending = map p_repo_id (if execute c then rows else filter (\<lambda>r. p_name r \<notin> set resolved) rows)
        in for_each (sort advance) () (\<lambda>(i, head) _.
             if Some i \<in> set still_pending \<or> head = [] then ret ()
             else seqE (if execute c then lcall w (Synced i) (mark_presence_synced i head)
                        else modify (\<lambda>s. s\<lparr>x_assumed_synced := i # x_assumed_synced s\<rparr>))
               (upd_report (\<lambda>r. r\<lparr>rep_presence_advanced := rep_presence_advanced r @ [i]\<rparr>)))))"

definition resolve_prune_deferrals :: "world \<Rightarrow> rconf \<Rightarrow> unit rm" where
  "resolve_prune_deferrals w c =
     bindE (sread w Deferrals (\<lambda>s. prune_deferred_modules (x_graph s) (rc_v c))) (\<lambda>rows.
       if rows = [] then ret ()
       else bindE (sread w Read_sync (\<lambda>s. (repo_sync_state (x_ledger s) (rc_v c), x_assumed_synced s))) (\<lambda>(sync, assumed).
         let synced = (\<lambda>i. list_all (\<lambda>(r, ok). r_id r = i \<longrightarrow> ok) sync \<or> i \<in> set assumed);
             settled = filter (\<lambda>(n, owner, waits_for). list_all synced waits_for) rows
         in seqE (for_each settled () (\<lambda>(n, owner, waits_for) _.
              bindE (sread w (Read_owners n) (\<lambda>s. other_present_owners (x_ledger s) n (rc_v c) (Some owner))) (\<lambda>others.
                if others \<noteq> [] then ret ()
                else seqE (upd_report (\<lambda>r. r\<lparr>rep_prune_rewrites := rep_prune_rewrites r @ [n]\<rparr>))
                  (if execute c then seqE (lcall w (Rewrite owner n) (mark_needs_rewrite owner n (w_clk w) (w_now w))) (ret ()) else ret ()))))
            (if settled = [] \<or> \<not> execute c then ret ()
             else gcall w Clear_deferrals 1 (\<lambda>s. ((), s\<lparr>x_graph := clear_module_prune_deferred (rc_v c) (map fst settled) (x_graph s)\<rparr>))
               (\<lambda>j s. if j = 0 then s else s\<lparr>x_graph := clear_module_prune_deferred (rc_v c) (map fst settled) (x_graph s)\<rparr>))))"

subsection \<open>The orphan sweep\<close>

definition present_list :: "ledger \<Rightarrow> string \<Rightarrow> string list" where
  "present_list l v = sort (remdups (map p_name (filter (\<lambda>r. p_odoo_version r = v \<and> p_state r = St_present) (l_rows l))))"

definition blocking_repos :: "(repo \<times> bool) list \<Rightarrow> int list \<Rightarrow> repo list" where
  "blocking_repos sync skip = map fst (filter (\<lambda>(r, ok). \<not> ok \<and> r_id r \<notin> set skip) sync)"

text \<open>The unsynced profiles that still claim a node: its own, or that of the repository it was written from.\<close>

definition unsynced_claims :: "repo list \<Rightarrow> mnode option \<Rightarrow> string list" where
  "unsynced_claims blocking node =
     (case node of
        None \<Rightarrow> []
      | Some m \<Rightarrow> sort (remdups (filter (\<lambda>p. p \<in> r_profile_name ` set blocking) (g_profile m) @
          map r_profile_name (filter (\<lambda>r. g_repo_id m = Some (r_id r)) blocking))))"

definition owning_checkouts :: "repo list \<Rightarrow> mnode option \<Rightarrow> repo list" where
  "owning_checkouts repos node =
     (case node of
        None \<Rightarrow> []
      | Some m \<Rightarrow>
          let rows = concat (map (\<lambda>p. filter (\<lambda>r. r_profile_name r = p) repos) (sort (remdups (g_profile m))))
          in rows @ filter (\<lambda>r. g_repo_id m = Some (r_id r) \<and> r \<notin> set rows) repos)"

definition relative_path :: "string \<Rightarrow> string \<Rightarrow> string option" where
  "relative_path path local_path =
     (if \<not> startswith path ''/'' then Some path
      else if take (length (path_parts local_path)) (path_parts path) = path_parts local_path
      then Some (path_str (drop (length (path_parts local_path)) (path_parts path))) else None)"

text \<open>How an orphan left the repository that wrote it: repository, path, evidence and successor.\<close>

definition orphan_evidence ::
  "world \<Rightarrow> graph \<Rightarrow> string \<Rightarrow> repo list \<Rightarrow> string list \<Rightarrow> string \<Rightarrow> mnode option \<Rightarrow>
     rec_error + (repo \<times> string \<times> removal_evidence_info \<times> successor_info option) option" where
  "orphan_evidence w g v repos present n node =
     (case Option.bind node (\<lambda>m. find (\<lambda>r. g_repo_id m = Some (r_id r)) repos) of
        None \<Rightarrow> Inr None
      | Some r \<Rightarrow>
          let lp = r_local_path r; path = or_text (g_path (the node)) []
          in if path = [] \<or> lp = [] then Inr None
             else case relative_path path lp of
               None \<Rightarrow> Inr None
             | Some rel \<Rightarrow>
                 (case removal_evidence (w_fields w lp) (w_removing w lp) (w_rev_parse w lp) rel MANIFEST_FILENAMES present of
                    (None, _) \<Rightarrow> Inr None
                  | (Some ev, su) \<Rightarrow>
                      if rev_parent_sha ev = None then Inr None
                      else
                        let declared = modules_by_old_technical_name g v n [r_profile_name r];
                            proposed = (case su of
                                Some x \<Rightarrow> Some \<lparr>su_names = succ_names x, su_source = successor_source_of (succ_source x)\<rparr>
                              | None \<Rightarrow> if declared = [] then None else Some \<lparr>su_names = declared, su_source = Old_technical_name\<rparr>)
                        in case proposed of
                             None \<Rightarrow> Inr (Some (r, rel, ev, None))
                           | Some p \<Rightarrow>
                               (case successor_post_init p of Inl e \<Rightarrow> Inl (Ledger_failed e) | Inr q \<Rightarrow> Inr (Some (r, rel, ev, Some q)))))"

definition record_orphan :: "world \<Rightarrow> rconf \<Rightarrow> repo list \<Rightarrow> string list \<Rightarrow> string \<Rightarrow> mnode option \<Rightarrow> unit rm" where
  "record_orphan w c repos present n node =
     bindE (gets x_graph) (\<lambda>g. case orphan_evidence w g (rc_v c) repos present n node of
       Inl e \<Rightarrow> raise_exc e
     | Inr None \<Rightarrow> ret ()
     | Inr (Some (r, rel, ev, su)) \<Rightarrow>
         bindE (lcall w (Record_orphan n) (record_orphan_retired (r_id r) n (r_profile_name r) (rc_v c) rel (rev_manifest_file ev) (the (rev_parent_sha ev))
             (w_time w (rev_date ev)) (Some \<lparr>ev_sha = Some (rev_sha ev), ev_date = Some (w_time w (rev_date ev)), ev_subject = Some (rev_subject ev)\<rparr>)
             su (r_head_sha r) (w_now w))) (\<lambda>inserted.
           if inserted then upd_report (\<lambda>x. x\<lparr>rep_ledger_orphan_rows := rep_ledger_orphan_rows x + 1\<rparr>) else ret ()))"

subsection \<open>Orphan embeddings\<close>

definition embedding_sweep_hint :: "string \<Rightarrow> string option \<Rightarrow> string" where
  "embedding_sweep_hint version run_profile =
     (case run_profile of
        None \<Rightarrow> '' (no repo is registered at '' @ version @ '': no index run reconciles it)''
      | Some p \<Rightarrow> ''; re-write the missing modules (`index-repo --profile '' @ p @ '' --full` '' @
          ''for the profile that ships them) and the next run judges the orphans by git'')"

definition pair_list :: "ledger \<Rightarrow> string \<Rightarrow> (string \<times> string) list" where
  "pair_list l v = remdups (map (\<lambda>r. (p_name r, p_profile_name r)) (filter (\<lambda>r. p_odoo_version r = v \<and> p_state r = St_present) (l_rows l)))"

definition orphan_groups :: "rstate \<Rightarrow> string \<Rightarrow> string list \<Rightarrow> (string \<times> string \<times> nat) list" where
  "orphan_groups s v unsynced_profiles =
     filter (\<lambda>(m, p, _). (m, p) \<notin> set (profile_pairs (x_graph s) v) \<and> (m, p) \<notin> set (pair_list (x_ledger s) v) \<and> p \<notin> set unsynced_profiles)
       (embedding_groups v (x_embeddings s))"

text \<open>Modules a synced profile has present in the ledger, with no node in the graph.\<close>

definition lost_modules :: "rstate \<Rightarrow> rconf \<Rightarrow> string list \<Rightarrow> string list" where
  "lost_modules s c synced_profiles =
     sort (remdups (map fst (filter (\<lambda>(m, p). p \<in> set synced_profiles \<and> m \<notin> fst ` set (profile_pairs (x_graph s) (rc_v c)) \<and>
       m \<notin> set (rep_retired (x_report s)) \<and> m \<notin> set (rc_assume_written c) \<and> module_node_of (x_graph s) (rc_v c) m = None)
       (pair_list (x_ledger s) (rc_v c)))))"

definition join_max :: "nat \<Rightarrow> string list \<Rightarrow> string" where
  "join_max k xs = join_str '', '' (take k xs) @ (if length xs > k then '', ... '' @ str_nat (length xs - k) @ '' more'' else [])"

definition hold_groups ::
  "rconf \<Rightarrow> repo list \<Rightarrow> string list \<Rightarrow> (string \<times> string) list \<Rightarrow> (string \<times> string \<times> nat) list \<Rightarrow> string list \<Rightarrow> unit rm" where
  "hold_groups c repos synced_profiles pairs groups lost =
     (let profiles = sort (remdups (map (\<lambda>(m, p, _). p) groups));
          lost_profiles = sort (remdups (map snd (filter (\<lambda>(m, p). m \<in> set lost \<and> p \<in> set synced_profiles) pairs)));
          named = filter (\<lambda>r. r_profile_name r \<in> set profiles \<or> r_profile_name r \<in> set lost_profiles) repos;
          targets = (if named = [] then repos else named);
          choices = (if lost_profiles = [] then sort (map r_profile_name targets) else lost_profiles);
          run_profile = (case choices of [] \<Rightarrow> None | p # _ \<Rightarrow> Some p);
          text = ''embedding sweep at '' @ rc_v c @ '': '' @ str_nat (length groups) @ '' orphan embedding group(s) ('' @
            str_nat (sum_list (map (\<lambda>(_, _, n). n) groups)) @ '' rows) of profile(s) '' @ join_str '', '' profiles @ '' kept: '' @ str_nat (length lost) @
            '' module(s) present in the ledger have no graph node ('' @ join_max 5 lost @ ''), so orphans cannot be told from live modules'' @
            embedding_sweep_hint (rc_v c) run_profile
      in seqE (upd_report (\<lambda>r. r\<lparr>rep_gates_tripped := rep_gates_tripped r @ [''embedding_sweep:graph_unhealthy''],
           rep_embedding_orphans_held := groups, rep_embedding_sweep_run_profile := run_profile\<rparr>))
         (for_each targets () (\<lambda>r _. attend (Some (r_id r)) text)))"

definition embedding_orphans :: "world \<Rightarrow> rconf \<Rightarrow> string list \<Rightarrow> repo list \<Rightarrow> bool \<Rightarrow> unit rm" where
  "embedding_orphans w c unsynced_profiles repos delete =
     bindE (sread w Groups (\<lambda>s. (orphan_groups s (rc_v c) unsynced_profiles, pair_list (x_ledger s) (rc_v c),
         lost_modules s c (filter (\<lambda>p. p \<notin> set unsynced_profiles) (map r_profile_name repos)),
         ledger_excluded_names (x_ledger s) (rc_v c) [Installable_false, License_skip]))) (\<lambda>(groups, pairs, lost, exempt).
       if groups = [] then ret ()
       else if lost \<noteq> [] \<and> \<not> rc_mass c
       then hold_groups c repos (filter (\<lambda>p. p \<notin> set unsynced_profiles) (map r_profile_name repos)) pairs groups lost
       else
         let goes = (\<lambda>(m, p, _ :: nat). rc_mass c \<or> m \<in> exempt \<or> checkout_claim w (rc_v c) (filter (\<lambda>r. r_profile_name r = p) repos) m = None);
             doomed = filter goes groups; kept = filter (\<lambda>g. \<not> goes g) groups
         in seqE (upd_report (\<lambda>r. r\<lparr>rep_embedding_orphans_kept := (if kept = [] then rep_embedding_orphans_kept r else kept),
                  rep_embedding_orphans := doomed\<rparr>))
            (if \<not> delete then ret ()
             else for_each doomed () (\<lambda>(m, p, _) _.
               try_else (delete_embeddings w c m [p])
                 (\<lambda>e. upd_report (\<lambda>r. r\<lparr>rep_errors := AList.update (''embeddings:'' @ m @ '':'' @ p) e (rep_errors r)\<rparr>)) ret)))"

subsection \<open>The sweep\<close>

text \<open>What the sweep decides from one reading of ledger and graph: the orphans that wait for a repository, the module-less names, and
  for both which of them no checkout claims.\<close>

record sweep_view =
  sv_repos :: "repo list"
  sv_blocking :: "repo list"
  sv_present :: "string list"
  sv_exempt :: "string set"
  sv_unparseable :: "string list"
  sv_orphans :: "(string \<times> mnode option) list"
  sv_child_keys :: "string list"

definition read_sweep :: "rconf \<Rightarrow> rstate \<Rightarrow> sweep_view" where
  "read_sweep c s =
     (let v = rc_v c; l = x_ledger s; g = x_graph s; sync = repo_sync_state l v;
          retired = rep_retired (x_report s);
          present = filter (\<lambda>n. n \<notin> set retired) (present_list l v);
          unparseable = ledger_excluded_names l v [Unparseable];
          found = filter (\<lambda>n. n \<notin> set retired) (orphan_module_names g v (set present) None);
          orphans = filter (\<lambda>n. n \<notin> unparseable) found
      in \<lparr>sv_repos = map fst sync, sv_blocking = blocking_repos sync (x_assumed_synced s), sv_present = present,
          sv_exempt = ledger_excluded_names l v [Installable_false, License_skip],
          sv_unparseable = filter (\<lambda>n. n \<in> unparseable) found,
          sv_orphans = map (\<lambda>n. (n, module_node_of g v n)) orphans,
          sv_child_keys = filter (\<lambda>n. n \<notin> set present \<and> n \<notin> set orphans \<and> n \<notin> unparseable) (orphan_child_keys g v)\<rparr>)"

definition deferred_orphans :: "sweep_view \<Rightarrow> (string \<times> string list) list" where
  "deferred_orphans sv = filter (\<lambda>(_, claims). claims \<noteq> []) (map (\<lambda>(n, node). (n, unsynced_claims (sv_blocking sv) node)) (sv_orphans sv))"

definition decidable_orphans :: "sweep_view \<Rightarrow> (string \<times> mnode option) list" where
  "decidable_orphans sv = filter (\<lambda>(_, node). unsynced_claims (sv_blocking sv) node = []) (sv_orphans sv)"

definition orphan_claim :: "world \<Rightarrow> rconf \<Rightarrow> sweep_view \<Rightarrow> string \<times> mnode option \<Rightarrow> string option" where
  "orphan_claim w c sv o1 =
     (if fst o1 \<in> sv_exempt sv then None else checkout_claim w (rc_v c) (owning_checkouts (sv_repos sv) (snd o1)) (fst o1))"

definition child_claim :: "world \<Rightarrow> rconf \<Rightarrow> sweep_view \<Rightarrow> string \<Rightarrow> string option" where
  "child_claim w c sv n = (if n \<in> sv_exempt sv then None else checkout_claim w (rc_v c) (sv_repos sv) n)"

definition swept_orphans :: "world \<Rightarrow> rconf \<Rightarrow> sweep_view \<Rightarrow> string list" where
  "swept_orphans w c sv = sort (map fst (filter (\<lambda>o1. rc_mass c \<or> orphan_claim w c sv o1 = None) (decidable_orphans sv)))"

definition swept_children :: "world \<Rightarrow> rconf \<Rightarrow> sweep_view \<Rightarrow> string list" where
  "swept_children w c sv = sort (filter (\<lambda>n. rc_mass c \<or> child_claim w c sv n = None) (if sv_blocking sv = [] then sv_child_keys sv else []))"

definition attend_blocking :: "rconf \<Rightarrow> sweep_view \<Rightarrow> unit rm" where
  "attend_blocking c sv =
     (let deferred = deferred_orphans sv
      in seqE (for_each (sv_blocking sv) () (\<lambda>r _.
             let n = length (filter (\<lambda>(_, claims). r_profile_name r \<in> set claims) deferred)
             in if n = 0 then ret ()
                else attend (Some (r_id r)) (''orphan sweep at '' @ rc_v c @ '': '' @ str_nat n @ '' orphan module(s) of profile '' @ r_profile_name r @
                  '' kept until this repo is synced'')))
           (if sv_child_keys sv = [] then ret ()
            else for_each (sv_blocking sv) () (\<lambda>r _. attend (Some (r_id r)) (''orphan sweep at '' @ rc_v c @ '': the children of '' @
              str_nat (length (sv_child_keys sv)) @ '' module-less name(s) kept until every repo at this version is synced''))))"

definition sweep_report :: "world \<Rightarrow> rconf \<Rightarrow> sweep_view \<Rightarrow> report \<Rightarrow> report" where
  "sweep_report w c sv r =
     (let kept = List.map_filter (\<lambda>o1. map_option (\<lambda>y. (fst o1, y)) (orphan_claim w c sv o1)) (decidable_orphans sv);
          child_kept = List.map_filter (\<lambda>n. map_option (\<lambda>y. (n, y)) (child_claim w c sv n)) (if sv_blocking sv = [] then sv_child_keys sv else [])
      in r\<lparr>rep_orphans_unparseable := sort (sv_unparseable sv),
           rep_orphans_deferred := fold (\<lambda>(n, cs). AList.update n cs) (deferred_orphans sv) (rep_orphans_deferred r),
           rep_child_orphans_deferred := (if sv_blocking sv \<noteq> [] \<and> sv_child_keys sv \<noteq> [] then sort (sv_child_keys sv) else rep_child_orphans_deferred r),
           rep_orphans_kept := (if rc_mass c \<or> kept = [] \<and> child_kept = [] then rep_orphans_kept r else sort kept),
           rep_child_orphans_kept := (if rc_mass c \<or> kept = [] \<and> child_kept = [] then rep_child_orphans_kept r else sort child_kept),
           rep_orphan_candidates := swept_orphans w c sv, rep_child_orphan_candidates := swept_children w c sv\<rparr>)"

definition report_evidence :: "world \<Rightarrow> rconf \<Rightarrow> sweep_view \<Rightarrow> unit rm" where
  "report_evidence w c sv =
     for_each (sv_orphans sv) () (\<lambda>(n, node) _.
       bindE (gets x_graph) (\<lambda>g. case orphan_evidence w g (rc_v c) (sv_repos sv) (sv_present sv) n node of
         Inl e \<Rightarrow> raise_exc e
       | Inr None \<Rightarrow> ret ()
       | Inr (Some (r, _, ev, su)) \<Rightarrow> upd_report (\<lambda>x. x\<lparr>rep_orphan_evidence := AList.update n (r_id r, ev, su) (rep_orphan_evidence x)\<rparr>)))"

definition sweep_orphan :: "world \<Rightarrow> rconf \<Rightarrow> sweep_view \<Rightarrow> string \<Rightarrow> unit rm" where
  "sweep_orphan w c sv n =
     (let node = Option.bind (map_of (sv_orphans sv) n) (\<lambda>m. m); profiles = (case node of None \<Rightarrow> [] | Some m \<Rightarrow> g_profile m)
      in try_else (seqE (if profiles = [] then ret () else delete_embeddings w c n profiles) (record_orphan w c (sv_repos sv) (sv_present sv) n node))
           (\<lambda>e. upd_report (\<lambda>r. r\<lparr>rep_errors := AList.update n e (rep_errors r)\<rparr>))
           (\<lambda>_. upd_report (\<lambda>r. r\<lparr>rep_orphans_swept := rep_orphans_swept r @ [n]\<rparr>)))"

text \<open>Delete the proven orphans; the result says whether the rest of the sweep runs.\<close>

definition execute_sweep :: "world \<Rightarrow> rconf \<Rightarrow> sweep_view \<Rightarrow> bool rm" where
  "execute_sweep w c sv =
     (let decidable = swept_orphans w c sv; children = swept_children w c sv; targets = sort (remdups (decidable @ children))
      in if targets = [] then ret True
         else bindE (try_except (bindE (seqE (reset_dependents w c decidable []) (call_retire w c Retire_orphans targets)) (\<lambda>res. ret (Some res)))
                (\<lambda>e. Some (seqE (upd_report (\<lambda>r. r\<lparr>rep_errors := AList.update ''orphan_sweep'' e (rep_errors r)\<rparr>)) (ret None)))) (\<lambda>out.
           case out of
             None \<Rightarrow> ret False
           | Some res \<Rightarrow>
               seqE (count_deleted res)
               (seqE (for_each decidable () (\<lambda>n _. if n \<in> set (rr_skipped_recent res) then ret () else sweep_orphan w c sv n))
               (seqE (upd_report (\<lambda>r. r\<lparr>rep_child_orphans_swept := rep_child_orphans_swept r @ filter (\<lambda>n. n \<notin> set (rr_skipped_recent res)) children\<rparr>))
                 (ret True)))))"

definition sweep_on :: "world \<Rightarrow> rconf \<Rightarrow> sweep_view \<Rightarrow> bool rm" where
  "sweep_on w c sv =
     seqE (attend_blocking c sv)
     (seqE (upd_report (sweep_report w c sv))
     (seqE (if rc_dry c then report_evidence w c sv else ret ())
       (if \<not> execute c
        then seqE (upd_report (\<lambda>r. r\<lparr>rep_orphans_swept := rep_orphans_swept r @ swept_orphans w c sv,
                     rep_child_orphans_swept := rep_child_orphans_swept r @ swept_children w c sv\<rparr>))
             (seqE (embedding_orphans w c (map r_profile_name (sv_blocking sv)) (sv_repos sv) False) (ret (sv_blocking sv = [])))
        else bindE (execute_sweep w c sv) (\<lambda>go.
          seqE (if go then embedding_orphans w c (map r_profile_name (sv_blocking sv)) (sv_repos sv) True else ret ()) (ret (sv_blocking sv = []))))))"

definition sweep :: "world \<Rightarrow> rconf \<Rightarrow> bool rm" where
  "sweep w c = bindE (sread w Orphans (read_sweep c)) (sweep_on w c)"

subsection \<open>Residue of removed repositories\<close>

definition belongs_to_removed :: "int list \<Rightarrow> string list \<Rightarrow> mnode option \<Rightarrow> bool" where
  "belongs_to_removed removed_repo_ids removed_profiles node =
     (case node of
        None \<Rightarrow> False
      | Some m \<Rightarrow>
          if g_profile m \<noteq> [] then \<exists>p \<in> set (g_profile m). p \<in> set removed_profiles
          else case g_repo_id m of None \<Rightarrow> False | Some i \<Rightarrow> i \<in> set removed_repo_ids)"

record residue_view =
  rd_blocking :: "repo list"
  rd_orphans :: "(string \<times> mnode option) list"

definition read_residue :: "rconf \<Rightarrow> string list \<Rightarrow> int list \<Rightarrow> string list \<Rightarrow> rstate \<Rightarrow> residue_view" where
  "read_residue c basenames removed_repo_ids removed_profiles s =
     (let v = rc_v c; present = set (present_list (x_ledger s) v);
          names = sort (remdups (concat (map (\<lambda>b. orphan_module_names (x_graph s) v present (Some b)) basenames)))
      in \<lparr>rd_blocking = blocking_repos (repo_sync_state (x_ledger s) v) removed_repo_ids,
          rd_orphans = filter (\<lambda>(_, node). belongs_to_removed removed_repo_ids removed_profiles node) (map (\<lambda>n. (n, module_node_of (x_graph s) v n)) names)\<rparr>)"

definition residue_names :: "residue_view \<Rightarrow> string list" where
  "residue_names rv = map fst (filter (\<lambda>(_, node). unsynced_claims (rd_blocking rv) node = []) (rd_orphans rv))"

definition sweep_removed_repo_residue :: "world \<Rightarrow> rconf \<Rightarrow> string list \<Rightarrow> int list \<Rightarrow> string list \<Rightarrow> unit rm" where
  "sweep_removed_repo_residue w c basenames removed_repo_ids removed_profiles =
     (if basenames = [] \<or> removed_profiles = [] \<and> removed_repo_ids = [] then ret ()
      else bindE (sread w Orphans (read_residue c basenames removed_repo_ids removed_profiles)) (\<lambda>rv.
        let decidable = residue_names rv;
            waiting = filter (\<lambda>(_, cs). cs \<noteq> []) (map (\<lambda>(n, node). (n, unsynced_claims (rd_blocking rv) node)) (rd_orphans rv))
        in seqE (upd_report (\<lambda>r. r\<lparr>rep_orphans_deferred := fold (\<lambda>(n, cs). AList.update n cs) waiting (rep_orphans_deferred r)\<rparr>))
           (if \<not> execute c \<or> decidable = [] then upd_report (\<lambda>r. r\<lparr>rep_orphans_swept := rep_orphans_swept r @ decidable\<rparr>)
            else try_else (seqE (reset_dependents w c decidable []) (call_retire w c Retire_residue decidable))
              (\<lambda>e. upd_report (\<lambda>r. r\<lparr>rep_errors := AList.update ''removed_repo_residue'' e (rep_errors r)\<rparr>))
              (\<lambda>res. seqE (count_deleted res)
                (for_each decidable () (\<lambda>n _.
                   if n \<in> set (rr_skipped_recent res) then upd_report (\<lambda>r. r\<lparr>rep_skipped_recent := rep_skipped_recent r @ [n]\<rparr>)
                   else try_else (delete_embeddings w c n (case Option.bind (map_of (rd_orphans rv) n) (\<lambda>m. m) of None \<Rightarrow> [] | Some m \<Rightarrow> g_profile m))
                     (\<lambda>e. upd_report (\<lambda>r. r\<lparr>rep_errors := AList.update n e (rep_errors r)\<rparr>))
                     (\<lambda>_. upd_report (\<lambda>r. r\<lparr>rep_orphans_swept := rep_orphans_swept r @ [n]\<rparr>))))))))"

subsection \<open>Garbage collection and the two entry points\<close>

text \<open>Of the version-wide collections only that of dependency stubs deletes Module nodes; the others concern asset bundles,
  placeholders and \<^verbatim>\<open>INHERITS\<close> edges, which are not part of the state: they are calls that may raise.\<close>

definition global_gcs :: "world \<Rightarrow> rconf \<Rightarrow> bool \<Rightarrow> unit rm" where
  "global_gcs w c run_dep_stub_gc =
     (let other = (\<lambda>i. retrying (\<lambda>k. gcall w (Gc i) k (\<lambda>s. ((), s)) (\<lambda>_ s. s)));
          failed = (\<lambda>n e. upd_report (\<lambda>r. r\<lparr>rep_errors := AList.update n e (rep_errors r)\<rparr>))
      in if \<not> execute c then ret ()
         else seqE (other 0)
           (seqE (try_else (other 1) (failed ''reconcile_asset_bundle_owners'') ret)
           (seqE (try_else (other 2) (failed ''relink_unresolved_placeholders'') (\<lambda>_. other 3))
             (if \<not> run_dep_stub_gc then ret ()
              else retrying (\<lambda>k. gcall w (Gc 4) k (\<lambda>s. ((), s\<lparr>x_graph := gc_null_repo_dep_stubs (rc_v c) (x_graph s)\<rparr>))
                (\<lambda>j s. if j = 0 then s else s\<lparr>x_graph := gc_null_repo_dep_stubs (rc_v c) (x_graph s)\<rparr>))))))"

definition deleted_anything :: "rconf \<Rightarrow> report \<Rightarrow> bool" where
  "deleted_anything c r = (rep_retired r \<noteq> [] \<or> rep_owner_dropped r \<noteq> [] \<or> rep_orphans_swept r \<noteq> [] \<or> rep_child_orphans_swept r \<noteq> [] \<or>
     rep_embedding_orphans r \<noteq> [] \<or> rep_shared_pruned r \<noteq> [] \<and> \<not> rc_dry c \<or> rep_excluded_owner_dropped r \<noteq> [] \<and> \<not> rc_dry c)"

definition relink_inherits :: "world \<Rightarrow> rconf \<Rightarrow> unit rm" where
  "relink_inherits w c =
     bindE (gets x_report) (\<lambda>r.
       if \<not> execute c \<or> \<not> deleted_anything c r then ret () else retrying (\<lambda>k. gcall w (Gc 5) k (\<lambda>s. ((), s)) (\<lambda>_ s. s)))"

definition sort_report :: "report \<Rightarrow> report" where
  "sort_report r = r\<lparr>rep_retired := sort (remdups (rep_retired r)), rep_owner_dropped := sort (remdups (rep_owner_dropped r)),
     rep_skipped_recent := sort (remdups (rep_skipped_recent r)), rep_orphans_swept := sort (remdups (rep_orphans_swept r)),
     rep_child_orphans_swept := sort (remdups (rep_child_orphans_swept r)), rep_prune_rewrites := sort (remdups (rep_prune_rewrites r))\<rparr>"

text \<open>The stores at the start of a call; report, messages and caches are its own.\<close>

definition start_state :: "ledger \<Rightarrow> graph \<Rightarrow> embedding list \<Rightarrow> rstate" where
  "start_state l g es = \<lparr>x_ledger = l, x_graph = g, x_embeddings = es, x_report = empty_report, x_attention = [], x_assumed_synced = [], x_heads = None\<rparr>"

definition sort_removed_report :: "report \<Rightarrow> report" where
  "sort_removed_report r = r\<lparr>rep_retired := sort (remdups (rep_retired r)), rep_owner_dropped := sort (remdups (rep_owner_dropped r)),
     rep_skipped_recent := sort (remdups (rep_skipped_recent r)), rep_orphans_swept := sort (remdups (rep_orphans_swept r))\<rparr>"

definition removal_conf :: "string \<Rightarrow> int \<Rightarrow> rconf" where
  "removal_conf v run_at = \<lparr>rc_v = v, rc_run_at = run_at, rc_retire = True, rc_mass = False, rc_dry = False, rc_observed_heads = [], rc_assume_written = []\<rparr>"

definition reconcile_removed_repos ::
  "world \<Rightarrow> string \<Rightarrow> int \<Rightarrow> string list \<Rightarrow> string list \<Rightarrow> int list \<Rightarrow> string list \<Rightarrow> report rm" where
  "reconcile_removed_repos w v run_at names basenames removed_repo_ids removed_profiles =
     (let c = removal_conf v run_at
      in seqE (pending w c (Some names))
         (seqE (resolve_prune_deferrals w c)
         (seqE (sweep_removed_repo_residue w c basenames removed_repo_ids removed_profiles)
         (seqE (relink_inherits w c)
         (seqE (flush_attention w c) (gets (\<lambda>s. sort_removed_report (x_report s))))))))"

end
