(* ===== verification/Shared_Prune.thy ===== *)
theory Shared_Prune
  imports Reconcile
begin

section \<open>The prune of modules several repositories ship\<close>

text \<open>
  \<^verbatim>\<open>_Reconciler.prune_shared\<close> (\<^verbatim>\<open>indexer/reconcile.py\<close>) with its helpers, the statements of
  \<^verbatim>\<open>indexer/writer_neo4j.py\<close> it calls in their \<^verbatim>\<open>written_before\<close> mode, and
  \<^verbatim>\<open>shared_module_stale_embeddings\<close> and \<^verbatim>\<open>kept_entity_chunk_filters\<close> of \<^verbatim>\<open>indexer/writer_pgvector.py\<close>; at the end the
  reconcile of a version, which runs it. The record \<open>shared_world\<close> is what the phase asks of the outside: the \<^verbatim>\<open>HEAD\<close> of a checkout,
  the token of the indexer's code, the relationships that leave the Module node and the nodes below it (of these only three kinds of edges are
  part of a graph here), and the source oracle \<^verbatim>\<open>prune_evidence\<close>, whose verdicts rest on the Python parser.
\<close>

subsection \<open>The outside\<close>

datatype edge = Depends_edge "(string \<times> string) \<times> string \<times> string" | Violation_edge "int \<times> int" | Defined_in_edge "int \<times> string \<times> string" | Other_edge

record rel =
  sr_id :: int
  sr_type :: string
  sr_label :: string
  sr_start :: int
  sr_same_name :: bool
  sr_start_file :: "string option"
  sr_end_file :: "string option"
  sr_written_at :: "int option"
  sr_written_run :: "string option"
  sr_edge :: edge

text \<open>The source an owner's copy is judged by.\<close>

datatype module_source = Path_unknown | Not_reflected | Head_source string string string

record shared_world =
  sw_head :: "string \<Rightarrow> string option"
  sw_token :: string
  sw_rels :: "graph \<Rightarrow> string \<Rightarrow> rel list"
  sw_classify :: "graph \<Rightarrow> module_source \<Rightarrow> cnode list \<Rightarrow> rel list \<Rightarrow> int list \<times> int list"
  sw_reason :: "module_source \<Rightarrow> string option"
  sw_fingerprint :: "module_source \<Rightarrow> string"
  sw_describe_node :: "cnode \<Rightarrow> string"
  sw_describe_rel :: "rel \<Rightarrow> string"

subsection \<open>Owners\<close>

type_synonym owner = "presence \<times> repo option"

text \<open>The names two or more repositories have present, each with its rows in the order of the repositories.\<close>

definition shared_module_owners :: "ledger \<Rightarrow> string \<Rightarrow> (string \<times> owner list) list" where
  "shared_module_owners l v =
     (let rows = sort_key (\<lambda>r. the (p_repo_id r)) (filter (\<lambda>r. p_odoo_version r = v \<and> p_state r = St_present \<and> p_repo_id r \<noteq> None) (l_rows l));
          owners = (\<lambda>n. filter (\<lambda>r. p_name r = n) rows)
      in map (\<lambda>n. (n, map (\<lambda>r. (r, find_repo l (the (p_repo_id r)))) (owners n)))
           (filter (\<lambda>n. length (remdups (map p_repo_id (owners n))) > 1) (sort (remdups (map p_name rows)))))"

definition owner_id :: "owner \<Rightarrow> int" where
  "owner_id o1 = the (p_repo_id (fst o1))"

definition owner_local :: "owner \<Rightarrow> string" where
  "owner_local o1 = (case snd o1 of None \<Rightarrow> [] | Some r \<Rightarrow> r_local_path r)"

definition owner_dir :: "owner \<Rightarrow> string" where
  "owner_dir o1 = dropWhile (\<lambda>c. c = CHR ''/'') (cut_slashes (p_path (fst o1)))"

definition owner_label :: "owner \<Rightarrow> string" where
  "owner_label o1 = row_label (fst o1)"

definition joined_dir :: "owner \<Rightarrow> string" where
  "joined_dir o1 = path_str (path_parts (owner_local o1) @ path_parts (owner_dir o1))"

definition owner_file_prefixes :: "owner list \<Rightarrow> string list" where
  "owner_file_prefixes owners =
     sort (map (\<lambda>d. cut_slashes d @ ''/'') (remdups (concat (map (\<lambda>o1.
       if owner_dir o1 = [] then [] else owner_dir o1 # (if owner_local o1 = [] then [] else [joined_dir o1])) owners))))"

text \<open>Longest first; two prefixes of one length never start the same path.\<close>

definition owner_anchors :: "owner list \<Rightarrow> string list" where
  "owner_anchors owners =
     sort_key (\<lambda>d. - int (length d)) (sort (remdups (concat (map (\<lambda>o1. (if owner_dir o1 = [] then [] else [owner_dir o1 @ ''/'']) @
       (if owner_local o1 = [] then [] else [cut_slashes (joined_dir o1) @ ''/''])) owners))))"

definition reanchor :: "owner \<Rightarrow> string list \<Rightarrow> string option \<Rightarrow> string option" where
  "reanchor o1 anchors path =
     (case path of
        None \<Rightarrow> None
      | Some p0 \<Rightarrow>
          if p0 = [] then Some p0
          else let p = map (\<lambda>c. if c = CHR 0x5C then CHR ''/'' else c) p0
          in case find (startswith p) anchors of
               None \<Rightarrow> Some p0
             | Some prefix \<Rightarrow> Some (if owner_dir o1 = [] then drop (length prefix) p else owner_dir o1 @ ''/'' @ drop (length prefix) p))"

text \<open>Instants stand for their text, as only equality of the recorded states matters.\<close>

definition owner_record_state :: "owner list \<Rightarrow> string" where
  "owner_record_state owners =
     join_str '';'' (sort (map (\<lambda>o1. str_int (owner_id o1) @ ''@'' @ str_int (the (p_full_parse_at (fst o1))) @ ''#'' @ or_text (p_full_parse_run (fst o1)) []) owners))"

definition owner_checkout_untrusted :: "world \<Rightarrow> shared_world \<Rightarrow> owner \<Rightarrow> bool" where
  "owner_checkout_untrusted w sw o1 =
     (if owner_local o1 = [] then False
      else let head = (if w_is_dir w (owner_local o1) then sw_head sw (owner_local o1) else None)
           in head = None \<or> head \<noteq> Option.bind (snd o1) r_presence_head_sha)"

definition owner_embedding_marks :: "owner list \<Rightarrow> (string \<times> int) list option" where
  "owner_embedding_marks owners =
     (if list_ex (\<lambda>o1. p_full_parse_embedded_at (fst o1) = None \<or> p_profile_name (fst o1) = []) owners then None
      else Some (map (\<lambda>o1. (p_profile_name (fst o1), the (p_full_parse_embedded_at (fst o1)))) owners))"

subsection \<open>What a module's nodes and relationships are\<close>

text \<open>A cutoff, the directory prefixes and the labels left out; the view identifiers are read first, as the writer does.\<close>

record prune_mode =
  pm_version :: string
  pm_name :: string
  pm_cutoff :: int
  pm_prefixes :: "string list"
  pm_skip :: "string list"

definition CUTOFF_RUN :: string where
  "CUTOFF_RUN = ''__written_before__''"

definition stale_stamp :: "int \<Rightarrow> string option \<Rightarrow> int option \<Rightarrow> bool" where
  "stale_stamp cutoff run written =
     ((case run of None \<Rightarrow> [] | Some r \<Rightarrow> r) \<noteq> CUTOFF_RUN \<and> (case written of None \<Rightarrow> True | Some t \<Rightarrow> t < cutoff))"

text \<open>\<^verbatim>\<open>_prune_selector\<close>: the nodes of one label the prune may touch. A violation counts by the file it was raised in.\<close>

definition own_file :: "prune_mode \<Rightarrow> string list \<Rightarrow> cnode \<Rightarrow> bool" where
  "own_file m xmlids lv =
     (case c_file_path lv of
        None \<Rightarrow> False
      | Some f \<Rightarrow>
          list_ex (startswith f) (pm_prefixes m) \<or>
          (\<exists>x \<in> set xmlids. c_view_xmlid lv = Some x) \<and> (startswith f (pm_name m @ ''/'') \<or> contains f (''/'' @ pm_name m @ ''/'')))"

definition selects :: "prune_mode \<Rightarrow> graph \<Rightarrow> string list \<Rightarrow> string \<Rightarrow> cnode \<Rightarrow> bool" where
  "selects m g xmlids label c =
     (if label = ''LintViolation''
      then violation_of g (pm_version m) [pm_name m] xmlids c \<and> own_file m xmlids c
      else owned_child (pm_version m) [pm_name m] label c \<and>
        (label \<in> {''View'', ''QWebTmpl'', ''Report''} \<longrightarrow> xmlid_module (c_xmlid c) = pm_name m))"

text \<open>A helper is a projection of test classes and stale when none of its name is fresh.\<close>

definition stale_node :: "prune_mode \<Rightarrow> graph \<Rightarrow> cnode \<Rightarrow> bool" where
  "stale_node m g c =
     (if c_label c = ''TestHelper''
      then \<not> list_ex (\<lambda>t. owned_child (pm_version m) [pm_name m] ''TestClass'' t \<and> c_name t \<noteq> None \<and> c_name t = c_name c \<and>
             (c_written_run t = Some CUTOFF_RUN \<or> (case c_written_at t of None \<Rightarrow> False | Some x \<Rightarrow> x \<ge> pm_cutoff m))) (gr_children g)
      else stale_stamp (pm_cutoff m) (c_written_run c) (c_written_at c))"

definition mode_labels :: "prune_mode \<Rightarrow> string list" where
  "mode_labels m = filter (\<lambda>lb. lb \<notin> set (pm_skip m)) MODULE_CHILD_LABELS"

definition module_nodes :: "prune_mode \<Rightarrow> graph \<Rightarrow> string list \<Rightarrow> cnode list" where
  "module_nodes m g xmlids = concat (map (\<lambda>lb. filter (selects m g xmlids lb) (gr_children g)) (mode_labels m))"

definition MODULE_CHILD_REL_TYPES :: "string \<Rightarrow> string list" where
  "MODULE_CHILD_REL_TYPES label =
     (if label = ''Module'' then [''DEPENDS_ON'', ''CONTRIBUTES_TO'']
      else if label = ''Model'' then [''DEFINED_IN'', ''INHERITS'', ''DELEGATES_TO'']
      else if label = ''Field'' then [''BELONGS_TO'']
      else if label = ''Method'' then [''BELONGS_TO'', ''USES_CORE_SYMBOL'', ''USES_FIELD'', ''DEPENDS_ON_FIELD'']
      else if label = ''View'' then [''DEFINED_IN'', ''TARGETS_MODEL'', ''INHERITS_VIEW'', ''HAS_VIOLATION'']
      else if label = ''QWebTmpl'' then [''DEFINED_IN'', ''EXTENDS_TMPL'', ''EXTENDS_ASSET_BUNDLE'']
      else if label = ''Report'' then [''DEFINED_IN'', ''REPORTS_ON'', ''USES_TEMPLATE'']
      else if label = ''JSPatch'' then [''DEFINED_IN'', ''PATCHES'']
      else if label = ''Stylesheet'' then [''DEFINED_IN'', ''IMPORTS'']
      else if label = ''TestMethod'' then [''BELONGS_TO_TEST'']
      else if label \<in> {''OWLComp'', ''JsTestSuite'', ''TestClass''} then [''DEFINED_IN'']
      else [])"

text \<open>\<^verbatim>\<open>_rel_selector\<close>: the relationships that leave the Module node or a node of the module that stays.\<close>

definition leaves_module :: "prune_mode \<Rightarrow> graph \<Rightarrow> string list \<Rightarrow> rel \<Rightarrow> bool" where
  "leaves_module m g xmlids r =
     (sr_type r \<in> set (MODULE_CHILD_REL_TYPES (sr_label r)) \<and>
      (sr_label r = ''Module'' \<or>
       list_ex (\<lambda>c. c_id c = sr_start r \<and> selects m g xmlids (sr_label r) c \<and> \<not> stale_node m g c) (gr_children g)))"

definition stale_rel :: "prune_mode \<Rightarrow> rel \<Rightarrow> bool" where
  "stale_rel m r = (stale_stamp (pm_cutoff m) (sr_written_run r) (sr_written_at r) \<and> \<not> (sr_type r = ''INHERITS'' \<and> sr_same_name r))"

definition module_rels :: "prune_mode \<Rightarrow> shared_world \<Rightarrow> graph \<Rightarrow> string list \<Rightarrow> rel list" where
  "module_rels m sw g xmlids =
     concat (map (\<lambda>lb. filter (\<lambda>r. sr_label r = lb \<and> leaves_module m g xmlids r) (sw_rels sw g (pm_name m))) (''Module'' # mode_labels m))"

definition no_module :: "prune_mode \<Rightarrow> bool" where
  "no_module m = (pm_name m = [] \<or> pm_name m \<in> set NON_RETIRABLE_MODULE_NAMES)"

record census =
  cs_exists :: bool
  cs_total :: nat
  cs_stale :: nat
  cs_rels_total :: nat
  cs_rels_stale :: nat

definition module_children_census :: "prune_mode \<Rightarrow> shared_world \<Rightarrow> graph \<Rightarrow> census" where
  "module_children_census m sw g =
     (if no_module m then \<lparr>cs_exists = False, cs_total = 0, cs_stale = 0, cs_rels_total = 0, cs_rels_stale = 0\<rparr>
      else
        let xmlids = module_view_xmlids g (pm_version m) [pm_name m]; ns = module_nodes m g xmlids; rs = module_rels m sw g xmlids
        in \<lparr>cs_exists = (module_node_of g (pm_version m) (pm_name m) \<noteq> None), cs_total = length ns, cs_stale = length (filter (stale_node m g) ns),
            cs_rels_total = length rs, cs_rels_stale = length (filter (stale_rel m) rs)\<rparr>)"

definition module_stale_children :: "prune_mode \<Rightarrow> shared_world \<Rightarrow> graph \<Rightarrow> cnode list \<times> rel list" where
  "module_stale_children m sw g =
     (if no_module m then ([], [])
      else
        let xmlids = module_view_xmlids g (pm_version m) [pm_name m]
        in (filter (stale_node m g) (module_nodes m g xmlids), filter (stale_rel m) (module_rels m sw g xmlids)))"

text \<open>The latest stamp at or after the cutoff that no owner's latest parse accounts for.\<close>

definition unattributed :: "prune_mode \<Rightarrow> string list \<Rightarrow> string option \<Rightarrow> int option \<Rightarrow> int list" where
  "unattributed m tokens run written =
     (case written of None \<Rightarrow> [] | Some t \<Rightarrow> if t \<ge> pm_cutoff m \<and> (case run of None \<Rightarrow> [] | Some r \<Rightarrow> r) \<notin> set tokens then [t] else [])"

definition module_unattributed_latest :: "prune_mode \<Rightarrow> string list \<Rightarrow> shared_world \<Rightarrow> graph \<Rightarrow> int option" where
  "module_unattributed_latest m tokens sw g =
     (if no_module m then None
      else
        let xmlids = module_view_xmlids g (pm_version m) [pm_name m]; m' = m\<lparr>pm_skip := ''TestHelper'' # pm_skip m\<rparr>;
            ts = concat (map (\<lambda>c. unattributed m tokens (c_written_run c) (c_written_at c)) (module_nodes m' g xmlids)) @
              concat (map (\<lambda>r. unattributed m tokens (sr_written_run r) (sr_written_at r)) (module_rels m' sw g xmlids))
        in if ts = [] then None else Some (Max (set ts)))"

subsection \<open>Statements of the prune\<close>

text \<open>Every statement selects again on the graph it finds; \<open>ids\<close> are those the oracle let go.\<close>

definition prune_label :: "prune_mode \<Rightarrow> string list \<Rightarrow> int list \<Rightarrow> string \<Rightarrow> graph \<Rightarrow> graph" where
  "prune_label m xmlids ids label g =
     delete_children_where (\<lambda>c. selects m g xmlids label c \<and> stale_node m g c \<and> c_id c \<in> set ids) g"

definition cut_rels :: "edge list \<Rightarrow> graph \<Rightarrow> graph" where
  "cut_rels es g =
     g\<lparr>gr_depends := filter (\<lambda>e. Depends_edge e \<notin> set es) (gr_depends g), gr_violations := filter (\<lambda>e. Violation_edge e \<notin> set es) (gr_violations g),
       gr_defined_in := filter (\<lambda>e. Defined_in_edge e \<notin> set es) (gr_defined_in g)\<rparr>"

definition gone_rels :: "prune_mode \<Rightarrow> shared_world \<Rightarrow> string list \<Rightarrow> int list \<Rightarrow> string \<Rightarrow> graph \<Rightarrow> rel list" where
  "gone_rels m sw xmlids ids label g =
     filter (\<lambda>r. sr_label r = label \<and> leaves_module m g xmlids r \<and> stale_rel m r \<and> sr_id r \<in> set ids) (sw_rels sw g (pm_name m))"

definition prune_rels :: "prune_mode \<Rightarrow> shared_world \<Rightarrow> string list \<Rightarrow> int list \<Rightarrow> string \<Rightarrow> graph \<Rightarrow> graph" where
  "prune_rels m sw xmlids ids label g = cut_rels (map sr_edge (gone_rels m sw xmlids ids label g)) g"

definition prune_node_stmts :: "prune_mode \<Rightarrow> string list \<Rightarrow> int list \<Rightarrow> (graph \<Rightarrow> graph) list" where
  "prune_node_stmts m xmlids ids = (if ids = [] then [] else map (prune_label m xmlids ids) (mode_labels m))"

definition prune_rel_stmts :: "prune_mode \<Rightarrow> shared_world \<Rightarrow> string list \<Rightarrow> int list \<Rightarrow> (graph \<Rightarrow> graph) list" where
  "prune_rel_stmts m sw xmlids ids =
     (if ids = [] then [] else map (prune_rels m sw xmlids ids) (filter (\<lambda>lb. lb \<notin> set (pm_skip m)) (''Module'' # MODULE_CHILD_LABELS)))"

text \<open>The number of relationships the statements delete, read as each of them runs.\<close>

fun count_rels :: "prune_mode \<Rightarrow> shared_world \<Rightarrow> string list \<Rightarrow> int list \<Rightarrow> string list \<Rightarrow> graph \<Rightarrow> nat" where
  "count_rels m sw xmlids ids [] g = 0"
| "count_rels m sw xmlids ids (lb # lbs) g =
     length (gone_rels m sw xmlids ids lb g) + count_rels m sw xmlids ids lbs (prune_rels m sw xmlids ids lb g)"

definition prune_stmts :: "prune_mode \<Rightarrow> shared_world \<Rightarrow> int list \<Rightarrow> int list \<Rightarrow> graph \<Rightarrow> (graph \<Rightarrow> graph) list" where
  "prune_stmts m sw ids rel_ids g =
     (let xmlids = module_view_xmlids g (pm_version m) [pm_name m]
      in if no_module m then [] else prune_node_stmts m xmlids ids @ prune_rel_stmts m sw xmlids rel_ids)"

definition prune_module_children :: "prune_mode \<Rightarrow> shared_world \<Rightarrow> int list \<Rightarrow> int list \<Rightarrow> int \<Rightarrow> graph \<Rightarrow> nat \<times> graph" where
  "prune_module_children m sw ids rel_ids now g =
     (let xmlids = module_view_xmlids g (pm_version m) [pm_name m]
      in if no_module m then (0, g)
         else
           let g1 = run_stmts (prune_node_stmts m xmlids ids) g;
               total = length (gr_children g) - length (gr_children g1);
               rels_total = (if rel_ids = [] then 0 else count_rels m sw xmlids rel_ids (filter (\<lambda>lb. lb \<notin> set (pm_skip m)) (''Module'' # MODULE_CHILD_LABELS)) g1);
               g2 = run_stmts (prune_rel_stmts m sw xmlids rel_ids) g1
           in (total, if total > 0 \<or> rels_total > 0 then mark_post_pass_dirty (pm_version m) now g2 else g2))"

text \<open>What is remembered on the Module node.\<close>

definition set_module :: "string \<Rightarrow> string \<Rightarrow> (mnode \<Rightarrow> mnode) \<Rightarrow> graph \<Rightarrow> graph" where
  "set_module v n f g = g\<lparr>gr_modules := map (\<lambda>x. if node_key x = (n, v) then f x else x) (gr_modules g)\<rparr>"

definition shared_prune_state :: "string \<Rightarrow> graph \<Rightarrow> string \<Rightarrow> string option" where
  "shared_prune_state v g n = Option.bind (module_node_of g v n) g_shared_prune_state"

definition record_shared_prune :: "string \<Rightarrow> string \<Rightarrow> string \<Rightarrow> graph \<Rightarrow> graph" where
  "record_shared_prune v n state = set_module v n (\<lambda>x. x\<lparr>g_shared_prune_state := Some state\<rparr>)"

definition record_module_parser_gap :: "string \<Rightarrow> string \<Rightarrow> parser_gap \<Rightarrow> graph \<Rightarrow> graph" where
  "record_module_parser_gap v n gap = set_module v n (\<lambda>x. x\<lparr>g_gap := Some gap\<rparr>)"

definition clear_module_parser_gap :: "string \<Rightarrow> string \<Rightarrow> graph \<Rightarrow> graph" where
  "clear_module_parser_gap v n = set_module v n (\<lambda>x. x\<lparr>g_gap := None\<rparr>)"

subsection \<open>Embeddings\<close>

type_synonym chunk_filter = "string \<times> string option \<times> string option"

text \<open>Which rows describe a node that stays (\<^verbatim>\<open>kept_entity_chunk_filters\<close>).\<close>

definition kept_entity_chunk_filters :: "cnode \<Rightarrow> chunk_filter list" where
  "kept_entity_chunk_filters c =
     (let lb = c_label c; name = or_text (c_name c) []; model = or_text (c_model c) []; xmlid = or_text (c_xmlid c) [];
          fp = or_text (c_file_path c) []; cls = or_text (c_test_class c) []
      in if lb = ''Field'' \<and> name \<noteq> [] \<and> model \<noteq> [] then [(''field'', Some (model @ ''.'' @ name), None)]
         else if lb = ''Method'' \<and> name \<noteq> [] \<and> model \<noteq> [] then [(''method'', Some (model @ ''.'' @ name), None)]
         else if lb = ''View'' \<and> xmlid \<noteq> [] then [(''view'', Some xmlid, None)]
         else if lb = ''QWebTmpl'' \<and> xmlid \<noteq> [] then [(''qweb'', Some xmlid, None)]
         else if lb = ''TestClass'' \<and> name \<noteq> [] then [(''test_class'', Some (name @ ''.__class__''), None)]
         else if lb = ''TestMethod'' \<and> name \<noteq> [] \<and> cls \<noteq> [] then [(''test_method'', Some (cls @ ''.'' @ name), None)]
         else if lb = ''JsTestSuite'' \<and> fp \<noteq> [] then [(''js_test'', None, Some fp)]
         else if lb = ''Stylesheet'' \<and> fp \<noteq> [] then map (\<lambda>t. (t, None, Some fp)) [''css'', ''scss'', ''less'']
         else if lb \<in> {''JSPatch'', ''OWLComp''} \<and> fp \<noteq> [] then map (\<lambda>t. (t, None, Some fp)) [''js_era1'', ''js_era2'', ''js_era3'']
         else [])"

definition same_chunk :: "embedding \<Rightarrow> embedding \<Rightarrow> bool" where
  "same_chunk a b \<longleftrightarrow> e_module a = e_module b \<and> e_version a = e_version b \<and> e_chunk_type a = e_chunk_type b \<and> e_entity_name a = e_entity_name b \<and>
     e_file_path a = e_file_path b \<and> e_chunk_idx a = e_chunk_idx b"

definition described_by :: "embedding \<Rightarrow> chunk_filter \<Rightarrow> bool" where
  "described_by e f =
     (case f of (t, n, p) \<Rightarrow> (n \<noteq> None \<or> p \<noteq> None) \<and> t = e_chunk_type e \<and> (n = None \<or> n = e_entity_name e) \<and> (p = None \<or> p = e_file_path e))"

definition stale_embedding :: "string \<Rightarrow> string \<Rightarrow> (string \<times> int) list \<Rightarrow> chunk_filter list \<Rightarrow> embedding list \<Rightarrow> embedding \<Rightarrow> bool" where
  "stale_embedding n v owners also_keep es e \<longleftrightarrow>
     (let pairs = filter (\<lambda>(p, _). p \<noteq> [] \<and> p \<noteq> GLOBAL_PROFILE) owners
      in e_module e = n \<and> e_version e = v \<and> e_profile e \<in> fst ` set pairs \<and>
         \<not> list_ex (\<lambda>l. same_chunk l e \<and> list_ex (\<lambda>(p, since). e_profile l = p \<and> e_indexed_at l \<ge> since) pairs) es \<and>
         \<not> list_ex (described_by e) also_keep)"

definition shared_module_stale_embeddings ::
  "string \<Rightarrow> string \<Rightarrow> (string \<times> int) list \<Rightarrow> chunk_filter list \<Rightarrow> embedding list \<Rightarrow> nat \<times> embedding list" where
  "shared_module_stale_embeddings n v owners also_keep es =
     (let stale = stale_embedding n v owners also_keep es in (length (filter stale es), filter (\<lambda>e. \<not> stale e) es))"

subsection \<open>The judgement\<close>

record judged =
  jd_node_ids :: "int list"
  jd_rel_ids :: "int list"
  jd_kept :: nat
  jd_rels_kept :: nat
  jd_sample :: "string list"
  jd_reason :: "string option"
  jd_fingerprint :: string
  jd_paths :: "string list"
  jd_filters :: "chunk_filter list"

definition owner_source :: "world \<Rightarrow> shared_world \<Rightarrow> string \<Rightarrow> owner \<Rightarrow> module_source" where
  "owner_source w sw n o1 =
     (if owner_local o1 = [] then Path_unknown
      else if owner_checkout_untrusted w sw o1 then Not_reflected
      else Head_source (owner_local o1) n (owner_dir o1))"

text \<open>A source that is not available calls everything present.\<close>

definition deletable :: "shared_world \<Rightarrow> graph \<Rightarrow> module_source \<Rightarrow> cnode list \<Rightarrow> rel list \<Rightarrow> int list \<times> int list" where
  "deletable sw g src nodes rels = (case src of Head_source _ _ _ \<Rightarrow> sw_classify sw g src nodes rels | _ \<Rightarrow> ([], []))"

definition source_reason :: "shared_world \<Rightarrow> module_source \<Rightarrow> string option" where
  "source_reason sw src =
     (case src of
        Path_unknown \<Rightarrow> Some ''owner checkout path unknown''
      | Not_reflected \<Rightarrow> Some ''owner checkout HEAD is not the commit its ledger last reflected''
      | Head_source _ _ _ \<Rightarrow> sw_reason sw src)"

definition to_repo_relative :: "string \<Rightarrow> string option \<Rightarrow> string option" where
  "to_repo_relative base path =
     (case path of
        None \<Rightarrow> None
      | Some p \<Rightarrow>
          if p \<noteq> [] \<and> take (length (path_parts base)) (path_parts p) = path_parts base
          then Some (path_str (drop (length (path_parts base)) (path_parts p))) else Some p)"

definition anchored_node :: "owner \<Rightarrow> string list \<Rightarrow> cnode \<Rightarrow> cnode" where
  "anchored_node o1 anchors c = c\<lparr>c_file_path := reanchor o1 anchors (c_file_path c)\<rparr>"

definition anchored_rel :: "owner \<Rightarrow> string list \<Rightarrow> rel \<Rightarrow> rel" where
  "anchored_rel o1 anchors r = r\<lparr>sr_start_file := reanchor o1 anchors (sr_start_file r), sr_end_file := reanchor o1 anchors (sr_end_file r)\<rparr>"

definition in_all :: "int list list \<Rightarrow> int list" where
  "in_all iss = (case iss of [] \<Rightarrow> [] | is # rest \<Rightarrow> filter (\<lambda>i. list_all (\<lambda>js. i \<in> set js) rest) is)"

definition judge_shared :: "world \<Rightarrow> shared_world \<Rightarrow> rconf \<Rightarrow> string \<Rightarrow> owner list \<Rightarrow> graph \<Rightarrow> cnode list \<Rightarrow> rel list \<Rightarrow> judged" where
  "judge_shared w sw c n owners g nodes rels =
     (let anchors = owner_anchors owners; src = owner_source w sw n;
          verdicts = map (\<lambda>o1. deletable sw g (src o1) (map (anchored_node o1 anchors) nodes) (map (anchored_rel o1 anchors) rels)) owners;
          node_ok = (if rc_mass c then map c_id nodes else in_all (map fst verdicts));
          rel_ok = (if rc_mass c then map sr_id rels else in_all (map snd verdicts));
          kept = filter (\<lambda>x. c_id x \<notin> set node_ok) nodes; rels_kept = filter (\<lambda>r. sr_id r \<notin> set rel_ok) rels;
          reasons = List.map_filter (\<lambda>o1. map_option (\<lambda>t. owner_label o1 @ '': '' @ t) (source_reason sw (src o1))) owners;
          rows = concat (map (\<lambda>o1. map (\<lambda>x. let y = anchored_node o1 anchors x
             in if owner_local o1 = [] then y else y\<lparr>c_file_path := to_repo_relative (owner_local o1) (c_file_path y)\<rparr>) kept) owners)
      in \<lparr>jd_node_ids = sort (remdups node_ok), jd_rel_ids = sort (remdups rel_ok), jd_kept = length kept, jd_rels_kept = length rels_kept,
          jd_sample = take 10 (map (sw_describe_node sw) kept @ map (sw_describe_rel sw) rels_kept),
          jd_reason = (if reasons = [] then None else Some (join_str ''; '' reasons)),
          jd_fingerprint = sw_fingerprint sw (src (hd owners)) @ ''|'' @ sw_token sw, jd_paths = [owner_dir (hd owners)],
          jd_filters = remdups (concat (map kept_entity_chunk_filters rows))\<rparr>)"

subsection \<open>The phase\<close>

definition shared_stale_embeddings :: "world \<Rightarrow> rconf \<Rightarrow> string \<Rightarrow> (string \<times> int) list \<Rightarrow> chunk_filter list \<Rightarrow> bool \<Rightarrow> nat rm" where
  "shared_stale_embeddings w c n embedded also_keep delete =
     (let run = (\<lambda>s. shared_module_stale_embeddings n (rc_v c) embedded also_keep (x_embeddings s));
          done = (\<lambda>s. if delete then s\<lparr>x_embeddings := snd (run s)\<rparr> else s)
      in retrying (\<lambda>k. gcall w (Shared_embeddings n) k (\<lambda>s. (fst (run s), done s)) (\<lambda>j s. if j = 0 then s else done s)))"

definition set_call :: "world \<Rightarrow> rcall \<Rightarrow> (graph \<Rightarrow> graph) \<Rightarrow> unit rm" where
  "set_call w cl f = gcall w cl 1 (\<lambda>s. ((), s\<lparr>x_graph := f (x_graph s)\<rparr>)) (\<lambda>j s. if j = 0 then s else s\<lparr>x_graph := f (x_graph s)\<rparr>)"

definition record_shared_gap :: "world \<Rightarrow> rconf \<Rightarrow> string \<Rightarrow> owner list \<Rightarrow> census \<Rightarrow> judged option \<Rightarrow> unit rm" where
  "record_shared_gap w c n owners cs judged =
     (if \<not> execute c then ret ()
      else case judged of
        None \<Rightarrow> set_call w (Shared_gap n) (clear_module_parser_gap (rc_v c) n)
      | Some j \<Rightarrow>
          if jd_kept j = 0 \<and> jd_rels_kept j = 0 then set_call w (Shared_gap n) (clear_module_parser_gap (rc_v c) n)
          else set_call w (Shared_gap n) (record_module_parser_gap (rc_v c) n
            \<lparr>pg_repo_id = p_repo_id (fst (hd owners)), pg_fingerprint = jd_fingerprint j, pg_paths = jd_paths j,
              pg_counts = [jd_kept j, cs_total cs, jd_rels_kept j, cs_rels_total cs], pg_sample = jd_sample j, pg_reason = jd_reason j\<rparr>))"

text \<open>Owners whose latest parse began before the latest stamp nobody accounts for are sent back; then the state is remembered.\<close>

definition settle_shared :: "world \<Rightarrow> shared_world \<Rightarrow> rconf \<Rightarrow> string \<Rightarrow> owner list \<Rightarrow> prune_mode \<Rightarrow> string \<Rightarrow> unit rm" where
  "settle_shared w sw c n owners m state =
     bindE (sread w (Shared_latest n) (\<lambda>s. module_unattributed_latest m
         (filter (\<lambda>t. t \<noteq> []) (List.map_filter (\<lambda>o1. p_full_parse_run (fst o1)) owners)) sw (x_graph s))) (\<lambda>latest.
       let late = (case latest of None \<Rightarrow> [] | Some t \<Rightarrow> filter (\<lambda>o1. the (p_full_parse_at (fst o1)) \<le> t) owners)
       in seqE (if late = [] then ret ()
                else seqE (upd_report (\<lambda>r. r\<lparr>rep_shared_prune_rewrites := AList.update n (sort (map owner_label late)) (rep_shared_prune_rewrites r)\<rparr>))
                  (if \<not> execute c then ret ()
                   else for_each late () (\<lambda>o1 _. seqE (lcall w (Rewrite (owner_id o1) n) (mark_needs_rewrite (owner_id o1) n (w_clk w) (w_now w))) (ret ()))))
            (if \<not> execute c then ret () else set_call w (Shared_state n) (record_shared_prune (rc_v c) n state)))"

definition prune_shared_module ::
  "world \<Rightarrow> shared_world \<Rightarrow> rconf \<Rightarrow> string \<Rightarrow> prune_mode \<Rightarrow> (string \<times> int) list option \<Rightarrow> nat option \<Rightarrow> judged option \<Rightarrow> chunk_filter list \<Rightarrow> unit rm" where
  "prune_shared_module w sw c n m embedded expected judged keep =
     bindE (case embedded of
         None \<Rightarrow> ret 0
       | Some marks \<Rightarrow> if expected = None \<or> expected = Some 0 then ret 0 else shared_stale_embeddings w c n marks keep True) (\<lambda>es.
     bindE (case judged of
         None \<Rightarrow> ret 0
       | Some j \<Rightarrow>
           if jd_node_ids j = [] \<and> jd_rel_ids j = [] then ret 0
           else retrying (\<lambda>k. gcall w (Shared_prune n) k
             (\<lambda>s. case prune_module_children m sw (jd_node_ids j) (jd_rel_ids j) (w_now w) (x_graph s) of (d, g) \<Rightarrow> (d, s\<lparr>x_graph := g\<rparr>))
             (\<lambda>i s. s\<lparr>x_graph := run_stmts (take i (prune_stmts m sw (jd_node_ids j) (jd_rel_ids j) (x_graph s))) (x_graph s)\<rparr>))) (\<lambda>ds.
       upd_report (\<lambda>r. r\<lparr>rep_embeddings_deleted := rep_embeddings_deleted r + es, rep_children_deleted := rep_children_deleted r + ds\<rparr>)))"

text \<open>What is left of one module once it is judged: nothing to delete, a prediction, or the prune, whose failure is noted under its name.\<close>

definition act_shared ::
  "world \<Rightarrow> shared_world \<Rightarrow> rconf \<Rightarrow> string \<Rightarrow> owner list \<Rightarrow> prune_mode \<Rightarrow> string \<Rightarrow> census \<Rightarrow> judged option \<Rightarrow> nat option \<Rightarrow> unit rm" where
  "act_shared w sw c n owners m state cs judged stale_rows =
     (let deletes = (case judged of None \<Rightarrow> False | Some j \<Rightarrow> jd_node_ids j \<noteq> [] \<or> jd_rel_ids j \<noteq> []);
          keep = (case judged of None \<Rightarrow> [] | Some j \<Rightarrow> jd_filters j);
          pruned = upd_report (\<lambda>r. r\<lparr>rep_shared_pruned := rep_shared_pruned r @ [n]\<rparr>);
          settle = settle_shared w sw c n owners m state
      in if \<not> deletes \<and> (stale_rows = None \<or> stale_rows = Some 0) then seqE (record_shared_gap w c n owners cs judged) settle
         else if \<not> execute c then seqE pruned settle
         else try_except
           (seqE (prune_shared_module w sw c n m (owner_embedding_marks owners) stale_rows judged keep)
              (seqE pruned (seqE (record_shared_gap w c n owners cs judged) settle)))
           (\<lambda>e. Some (upd_report (\<lambda>r. r\<lparr>rep_errors := AList.update (''shared_prune:'' @ n) e (rep_errors r)\<rparr>))))"

definition judge_and_act :: "world \<Rightarrow> shared_world \<Rightarrow> rconf \<Rightarrow> string \<Rightarrow> owner list \<Rightarrow> prune_mode \<Rightarrow> string \<Rightarrow> unit rm" where
  "judge_and_act w sw c n owners m state =
     bindE (sread w (Shared_census n) (\<lambda>s. module_children_census m sw (x_graph s))) (\<lambda>cs.
       if \<not> cs_exists cs then ret ()
       else bindE (if cs_stale cs = 0 \<and> cs_rels_stale cs = 0 then ret None
                   else sread w (Shared_stale n) (\<lambda>s. case module_stale_children m sw (x_graph s) of (nodes, rels) \<Rightarrow>
                     Some (judge_shared w sw c n owners (x_graph s) nodes rels))) (\<lambda>judged.
            bindE (case owner_embedding_marks owners of
                None \<Rightarrow> ret None
              | Some marks \<Rightarrow> bindE (shared_stale_embeddings w c n marks (case judged of None \<Rightarrow> [] | Some j \<Rightarrow> jd_filters j) False) (\<lambda>k. ret (Some k)))
              (act_shared w sw c n owners m state cs judged)))"

definition evaluated_state :: "world \<Rightarrow> shared_world \<Rightarrow> owner list \<Rightarrow> string" where
  "evaluated_state w sw owners =
     owner_record_state owners @ ''|untrusted=['' @ join_str '', '' (map str_int (sort (map owner_id (filter (owner_checkout_untrusted w sw) owners)))) @ '']|'' @
       sw_token sw"

definition shared_mode :: "rconf \<Rightarrow> string \<Rightarrow> owner list \<Rightarrow> prune_mode" where
  "shared_mode c n owners =
     \<lparr>pm_version = rc_v c, pm_name = n, pm_cutoff = Min (set (map (\<lambda>o1. the (p_full_parse_at (fst o1))) owners)),
       pm_prefixes = owner_file_prefixes owners, pm_skip = sort (remdups (concat (map (\<lambda>o1. p_full_parse_unobserved (fst o1)) owners)))\<rparr>"

definition prune_shared_name :: "world \<Rightarrow> shared_world \<Rightarrow> rconf \<Rightarrow> (string \<times> string option) list \<Rightarrow> string \<times> owner list \<Rightarrow> unit rm" where
  "prune_shared_name w sw c applied p =
     (let (n, owners) = p; state = evaluated_state w sw owners; ids = map owner_id owners
      in if map_of applied n = Some (Some state) then ret ()
         else bindE (sread w (Read_blockers n) (\<lambda>s. blockers w (x_ledger s) (rc_v c) n ids)) (\<lambda>bs.
           if bs = [] then judge_and_act w sw c n owners (shared_mode c n owners) state
           else
             let labels = map blocker_label bs;
                 text = ''entity prune of shared module '' @ n @ ''@'' @ rc_v c @ '' deferred: repo(s) '' @ join_str '', '' labels @ '' not synced may still ship it''
             in seqE (upd_report (\<lambda>r. r\<lparr>rep_shared_prune_waiting := AList.update n labels (rep_shared_prune_waiting r)\<rparr>))
                (if list_ex (\<lambda>(_, y). y \<noteq> Ships_name) bs then for_each ids () (\<lambda>i _. attend (Some i) text) else ret ())))"

text \<open>A module waits as long as one of its owners is up for retirement or a rewrite, or has no complete parse.\<close>

definition shared_ready :: "owner list \<Rightarrow> bool" where
  "shared_ready owners = list_all (\<lambda>(r, _). \<not> p_retire_pending r \<and> \<not> p_needs_rewrite r \<and> p_full_parse_at r \<noteq> None) owners"

definition prune_shared :: "world \<Rightarrow> shared_world \<Rightarrow> rconf \<Rightarrow> unit rm" where
  "prune_shared w sw c =
     (if \<not> rc_retire c then ret ()
      else bindE (sread w Shared_owners (\<lambda>s. filter (\<lambda>(_, owners). shared_ready owners) (shared_module_owners (x_ledger s) (rc_v c)))) (\<lambda>candidates.
        if candidates = [] then ret ()
        else bindE (sread w Shared_states (\<lambda>s. map (\<lambda>(n, _). (n, shared_prune_state (rc_v c) (x_graph s) n)) candidates)) (\<lambda>applied.
          for_each candidates () (\<lambda>p _. prune_shared_name w sw c applied p))))"

subsection \<open>The reconcile of a version\<close>

definition reconcile_version ::
  "world \<Rightarrow> shared_world \<Rightarrow> rconf \<Rightarrow> (int \<times> string) list \<Rightarrow> bool option \<Rightarrow> bool \<Rightarrow> report rm" where
  "reconcile_version w sw c advance global_gc run_sweep =
     seqE (pending w c None)
     (seqE (drop_excluded_owners w c)
     (seqE (advance_presence w c advance)
     (seqE (resolve_prune_deferrals w c)
     (seqE (prune_shared w sw c)
     (seqE (if rc_retire c \<and> run_sweep
            then bindE (sweep w c) (\<lambda>all_synced. global_gcs w c (case global_gc of None \<Rightarrow> all_synced | Some b \<Rightarrow> b))
            else ret ())
     (seqE (relink_inherits w c)
     (seqE (flush_attention w c) (gets (\<lambda>s. sort_report (x_report s))))))))))"

end
