(* ===== verification/Graph_Laws.thy ===== *)
theory Graph_Laws
  imports Graph_Store
begin

section \<open>What the graph statements keep\<close>

text \<open>
  Every statement of the graph store but the delete of stale modules and the collection of stubs keeps the
  keys of the Module nodes and that a node names its repository. The locale \<open>graph_op\<close> is that contract; runs of
  statements inherit it, and the delete of modules is shown to remove exactly the names it reports.
\<close>

definition node_keys :: "graph \<Rightarrow> (string \<times> string) set" where
  "node_keys g = node_key ` set (gr_modules g)"

text \<open>The keys of the nodes with a repository; only these are modules an index run has written.\<close>

definition owned_keys :: "graph \<Rightarrow> (string \<times> string) set" where
  "owned_keys g = node_key ` {m \<in> set (gr_modules g). g_repo_id m \<noteq> None}"

lemma owned_node_keys: "owned_keys g \<subseteq> node_keys g"
  by (auto simp: owned_keys_def node_keys_def)

locale graph_op =
  fixes f :: "graph \<Rightarrow> graph"
  assumes keeps_nodes: "node_keys g \<subseteq> node_keys (f g)"
    and keeps_owned: "owned_keys g \<subseteq> owned_keys (f g)"
begin

lemma keeps_owned_trans: "K \<subseteq> owned_keys g \<Longrightarrow> K \<subseteq> owned_keys (f g)"
  using keeps_owned by blast

lemma keeps_nodes_trans: "K \<subseteq> node_keys g \<Longrightarrow> K \<subseteq> node_keys (f g)"
  using keeps_nodes by blast

end

lemma cut_edges_modules [simp]: "gr_modules (cut_edges g) = gr_modules g" "gr_children (cut_edges g) = gr_children g"
  by (simp_all add: cut_edges_def Let_def)

lemma map_key_image:
  assumes "\<And>x. k (f x) = k x"
  shows "k ` set (map f xs) = k ` set xs"
  using assms by (simp only: set_map image_image)

lemma map_key_filter:
  assumes "\<And>x. k (f x) = k x" and "\<And>x. P x \<Longrightarrow> P (f x)"
  shows "k ` {x \<in> set xs. P x} \<subseteq> k ` {x \<in> set (map f xs). P x}"
proof
  fix y assume "y \<in> k ` {x \<in> set xs. P x}"
  then obtain x where "x \<in> set xs" "P x" "y = k (f x)" using assms(1) by auto
  then show "y \<in> k ` {x \<in> set (map f xs). P x}" using assms(2) by (intro image_eqI [of _ _ "f x"]) auto
qed

lemma keys_of_modules:
  assumes "gr_modules g' = gr_modules g"
  shows "node_keys g' = node_keys g" and "owned_keys g' = owned_keys g"
  using assms by (simp_all add: node_keys_def owned_keys_def)

interpretation delete_children_op: graph_op "delete_children_where P"
  for P :: "cnode \<Rightarrow> bool"
  by unfold_locales (simp_all add: delete_children_where_def keys_of_modules node_keys_def owned_keys_def)

interpretation delete_label_op: graph_op "delete_label v names run_at xmlids label"
  for v names run_at xmlids label
  by unfold_locales (simp_all add: delete_label_def delete_children_where_def node_keys_def owned_keys_def)

interpretation foreign_tests_op: graph_op "delete_foreign_tests v n repos label"
  for v n repos label
  by unfold_locales (simp_all add: delete_foreign_tests_def delete_children_where_def node_keys_def owned_keys_def)

interpretation reset_label_op: graph_op "reset_label v n profiles label"
  for v n profiles label
  by unfold_locales (simp_all add: reset_label_def node_keys_def owned_keys_def)

lemma reset_node_simps [simp]: "node_key (reset_node owners m) = node_key m" "\<exists>i. g_repo_id m = Some i \<Longrightarrow> \<exists>i. g_repo_id (reset_node owners m) = Some i"
  by (auto simp: reset_node_def node_key_def Let_def split: option.splits)

interpretation reset_module_op: graph_op "reset_module v n owners"
  for v n owners
proof
  fix g
  let ?f = "\<lambda>m. if node_key m = (n, v) then reset_node owners m else m"
  have f: "node_key (?f m) = node_key m" "g_repo_id m \<noteq> None \<Longrightarrow> g_repo_id (?f m) \<noteq> None" for m
    by (simp, cases "node_key m = (n, v)") simp_all
  have g: "gr_modules (reset_module v n owners g) = map ?f (gr_modules g)" by (simp add: reset_module_def)
  show "node_keys g \<subseteq> node_keys (reset_module v n owners g)" unfolding node_keys_def g by (simp only: map_key_image [of node_key ?f, OF f(1)] order_refl)
  show "owned_keys g \<subseteq> owned_keys (reset_module v n owners g)" unfolding owned_keys_def g by (rule map_key_filter [where k = node_key and f = ?f and P = "\<lambda>m. g_repo_id m \<noteq> None", OF f])
qed

interpretation clear_deferred_op: graph_op "clear_module_prune_deferred v names"
  for v names
proof
  fix g
  let ?f = "\<lambda>m. if g_version m = v \<and> g_name m \<in> set names then m\<lparr>g_deferred := None\<rparr> else m"
  have f: "node_key (?f m) = node_key m" "g_repo_id m \<noteq> None \<Longrightarrow> g_repo_id (?f m) \<noteq> None" for m by (simp_all add: node_key_def)
  have g: "gr_modules (clear_module_prune_deferred v names g) = map ?f (gr_modules g)" by (simp add: clear_module_prune_deferred_def)
  show "node_keys g \<subseteq> node_keys (clear_module_prune_deferred v names g)" unfolding node_keys_def g
    by (simp only: map_key_image [of node_key ?f, OF f(1)] order_refl)
  show "owned_keys g \<subseteq> owned_keys (clear_module_prune_deferred v names g)" unfolding owned_keys_def g by (rule map_key_filter [where k = node_key and f = ?f and P = "\<lambda>m. g_repo_id m \<noteq> None", OF f])
qed

subsection \<open>Writes of other runs\<close>

lemma merge_module_keys: "node_key ` set (merge_module m ms) = insert (node_key m) (node_key ` set ms)"
proof (cases "node_key m \<in> node_key ` set ms")
  case True
  have "node_key ` set (map (\<lambda>x. if node_key x = node_key m then m else x) ms) = node_key ` set ms" by (rule map_key_image) simp
  with True show ?thesis by (simp add: merge_module_def insert_absorb)
qed (simp add: merge_module_def)

lemma fold_merge_keys: "node_key ` set (fold merge_module ws ms) = node_key ` set ws \<union> node_key ` set ms"
  by (induction ws arbitrary: ms) (auto simp: merge_module_keys)

lemma fold_merge_owned:
  assumes "list_all (\<lambda>m. g_repo_id m \<noteq> None) ws"
  shows "node_key ` {m \<in> set ms. g_repo_id m \<noteq> None} \<subseteq> node_key ` {m \<in> set (fold merge_module ws ms). g_repo_id m \<noteq> None}"
  using assms
proof (induction ws arbitrary: ms)
  case (Cons w ws)
  have "node_key ` {m \<in> set ms. g_repo_id m \<noteq> None} \<subseteq> node_key ` {m \<in> set (merge_module w ms). g_repo_id m \<noteq> None}"
  proof
    fix k assume "k \<in> node_key ` {m \<in> set ms. g_repo_id m \<noteq> None}"
    then obtain m where m: "m \<in> set ms" "g_repo_id m \<noteq> None" "k = node_key m" by auto
    show "k \<in> node_key ` {m \<in> set (merge_module w ms). g_repo_id m \<noteq> None}"
    proof (cases "node_key m = node_key w")
      case True
      then have "w \<in> set (merge_module w ms)" using m(1) by (force simp: merge_module_def)
      then show ?thesis using Cons.prems m(3) True by (intro image_eqI [of _ _ w]) auto
    next
      case False
      then have "m \<in> set (merge_module w ms)" using m(1) by (auto simp: merge_module_def image_iff)
      then show ?thesis using m by blast
    qed
  qed
  also have "\<dots> \<subseteq> node_key ` {m \<in> set (fold merge_module ws (merge_module w ms)). g_repo_id m \<noteq> None}" using Cons by simp
  finally show ?case by simp
qed simp

definition writes_owned :: "mnode list \<times> cnode list \<Rightarrow> bool" where
  "writes_owned ws = list_all (\<lambda>m. g_repo_id m \<noteq> None) (fst ws)"

lemma merge_writes_keys: "node_keys (merge_writes ws g) = node_key ` set (fst ws) \<union> node_keys g"
  by (simp add: node_keys_def merge_writes_def fold_merge_keys)

lemma merge_writes_owned: "writes_owned ws \<Longrightarrow> owned_keys g \<subseteq> owned_keys (merge_writes ws g)"
  using fold_merge_owned by (simp add: owned_keys_def merge_writes_def writes_owned_def)

subsection \<open>Runs of statements\<close>

lemma run_stmts_simps [simp]: "run_stmts [] g = g" "run_stmts (s # ss) g = run_stmts ss (s g)" "run_stmts (ss @ ts) g = run_stmts ts (run_stmts ss g)"
  by (simp_all add: run_stmts_def)

lemma run_stmts_op: "list_all graph_op ss \<Longrightarrow> graph_op (run_stmts ss)"
proof (induction ss)
  case (Cons s ss)
  then have "graph_op s" "graph_op (run_stmts ss)" by simp_all
  then show ?case unfolding graph_op_def by fastforce
qed (simp add: graph_op_def)

lemma list_all_take: "list_all P xs \<Longrightarrow> list_all P (take k xs)"
  by (auto simp: list_all_iff dest: in_set_takeD)

lemma drop_owner_stmts_ops: "list_all graph_op (drop_owner_stmts v n owners)"
  by (simp add: drop_owner_stmts_def Let_def list_all_iff reset_module_op.graph_op_axioms foreign_tests_op.graph_op_axioms reset_label_op.graph_op_axioms)

lemma mark_dirty_nodes [simp]: "gr_modules (mark_post_pass_dirty v now g) = gr_modules g" "gr_children (mark_post_pass_dirty v now g) = gr_children g"
  by (simp_all add: mark_post_pass_dirty_def)

lemma mark_dirty_keys [simp]: "node_keys (mark_post_pass_dirty v now g) = node_keys g" "owned_keys (mark_post_pass_dirty v now g) = owned_keys g"
  by (simp_all only: keys_of_modules [OF mark_dirty_nodes(1)])

lemma mark_dirty_node_of [simp]: "module_node_of (mark_post_pass_dirty v now g) u n = module_node_of g u n"
  by (simp add: module_node_of_def)

lemma drop_module_owner_op:
  assumes "drop_module_owner v n owners now g = Some g'" and "K \<subseteq> owned_keys g"
  shows "K \<subseteq> owned_keys g'"
proof -
  have "owned_keys g' = owned_keys (run_stmts (drop_owner_stmts v n owners) g) \<or> g' = g"
    using assms(1) by (auto simp: drop_module_owner_def Let_def split: if_splits)
  then show ?thesis using graph_op.keeps_owned_trans [OF run_stmts_op [OF drop_owner_stmts_ops [of v n owners]] assms(2)] assms(2) by metis
qed

lemma delete_children_ops: "list_all graph_op (delete_children v names run_at xmlids)"
  by (simp add: delete_children_def list_all_iff delete_label_op.graph_op_axioms)

subsection \<open>Retiring\<close>

lemma node_of_keys: "module_node_of g v n \<noteq> None \<longleftrightarrow> (n, v) \<in> node_keys g"
  by (simp add: module_node_of_def find_None_iff node_keys_def image_iff) metis

lemma delete_stale_iff:
  "m \<in> set (gr_modules (delete_stale_modules v names run_at g)) \<longleftrightarrow>
     m \<in> set (gr_modules g) \<and> \<not> (g_name m \<in> set names \<and> g_version m = v \<and> \<not> seen_since run_at m)"
  by (auto simp: delete_stale_modules_def delete_modules_where_def)

lemma delete_stale_keys: "node_keys g - (\<lambda>n. (n, v)) ` set names \<subseteq> node_keys (delete_stale_modules v names run_at g)"
proof
  fix k assume "k \<in> node_keys g - (\<lambda>n. (n, v)) ` set names"
  then obtain m where "m \<in> set (gr_modules g)" "node_key m = k" "\<not> (g_name m \<in> set names \<and> g_version m = v)"
    by (auto simp: node_keys_def node_key_def)
  then show "k \<in> node_keys (delete_stale_modules v names run_at g)" by (auto simp: node_keys_def delete_stale_iff)
qed

lemma delete_stale_owned:
  assumes "K \<subseteq> owned_keys g" and "K \<inter> (\<lambda>n. (n, v)) ` set names = {}"
  shows "K \<subseteq> owned_keys (delete_stale_modules v names run_at g)"
proof
  fix k assume k: "k \<in> K"
  then obtain m where m: "m \<in> set (gr_modules g)" "node_key m = k" "g_repo_id m \<noteq> None" using assms(1) by (auto simp: owned_keys_def)
  have "\<not> (g_name m \<in> set names \<and> g_version m = v)" using k m(2) assms(2) by (auto simp: node_key_def)
  with m show "k \<in> owned_keys (delete_stale_modules v names run_at g)" by (auto simp: owned_keys_def delete_stale_iff)
qed

text \<open>Other runs write between any two statements; what they write carries a repository.\<close>

definition conc_owned :: "concurrent \<Rightarrow> bool" where
  "conc_owned conc \<longleftrightarrow> (\<forall>k. writes_owned (conc k))"

lemma interleave_append: "interleave conc k (ss @ ts) = interleave conc k ss @ interleave conc (k + length ss) ts"
  by (induction ss arbitrary: k) simp_all

lemma list_all_interleave: "(\<And>k. P (merge_writes (conc k))) \<Longrightarrow> list_all P ss \<Longrightarrow> list_all P (interleave conc k ss)"
  by (induction ss arbitrary: k) simp_all

lemma run_counted_graph: "snd (run_counted conc k ss g) = run_stmts (interleave conc k ss) g"
  by (induction ss arbitrary: k g) (simp_all add: Let_def case_prod_beta)

lemma length_delete_children [simp]: "length (delete_children v names run_at xmlids) = 14"
  by (simp add: delete_children_def MODULE_CHILD_LABELS_def)

text \<open>The graph after all statements of a call that has targets.\<close>

definition cascaded :: "concurrent \<Rightarrow> string \<Rightarrow> string list \<Rightarrow> int \<Rightarrow> graph \<Rightarrow> graph" where
  "cascaded conc v targets run_at g =
     (let g0 = merge_writes (conc 0) g in run_stmts (cascade conc v targets run_at (module_view_xmlids g0 v targets)) g0)"

lemma cascade_run:
  "run_stmts (cascade conc v targets run_at xmlids) g =
     merge_writes (conc 16) (delete_stale_modules v targets run_at (merge_writes (conc 15)
       (run_stmts (interleave conc 1 (delete_children v targets run_at xmlids)) g)))"
  by (simp add: cascade_def interleave_append numeral_eq_Suc)

lemma cascade_owned:
  assumes "conc_owned conc" and "K \<subseteq> owned_keys g" and "K \<inter> (\<lambda>n. (n, v)) ` set targets = {}"
  shows "K \<subseteq> owned_keys (run_stmts (take k (cascade conc v targets run_at xmlids)) (merge_writes (conc 0) g))"
proof -
  define ok where "ok = (\<lambda>f :: graph \<Rightarrow> graph. \<forall>g. K \<subseteq> owned_keys g \<longrightarrow> K \<subseteq> owned_keys (f g))"
  have run: "list_all ok ss \<Longrightarrow> K \<subseteq> owned_keys g \<Longrightarrow> K \<subseteq> owned_keys (run_stmts ss g)" for ss g
    by (induction ss arbitrary: g) (auto simp: ok_def)
  have "list_all ok (delete_children v targets run_at xmlids)"
    using delete_children_ops graph_op.keeps_owned_trans unfolding ok_def list_all_iff by blast
  moreover have merge: "ok (merge_writes (conc k))" for k using assms(1) merge_writes_owned by (fastforce simp: ok_def conc_owned_def)
  moreover have "ok (delete_stale_modules v targets run_at)" using delete_stale_owned [OF _ assms(3)] by (auto simp: ok_def)
  ultimately have "list_all ok (cascade conc v targets run_at xmlids)"
    unfolding cascade_def by (simp add: list_all_interleave)
  then show ?thesis using merge [of 0] assms(2) by (intro run list_all_take) (simp_all add: ok_def)
qed

lemma targets_subset: "set (retire_targets g v names run_at) \<subseteq> set names"
  by (auto simp: retire_targets_def retirable_def)

text \<open>The nodes after the call; the stamp of the post-pass is apart from them.\<close>

lemma retire_modules_graph:
  fixes conc v names run_at now g
  defines "g' \<equiv> snd (retire_modules conc v names run_at now g)"
    and "g5 \<equiv> (let ts = retire_targets g v names run_at in if ts = [] then g else cascaded conc v ts run_at g)"
  shows "gr_modules g' = gr_modules g5" and "gr_children g' = gr_children g5"
  unfolding g'_def g5_def by (simp_all add: retire_modules_def cascaded_def cascade_run run_counted_graph [symmetric] Let_def split: prod.splits)

lemmas retire_modules_keys = keys_of_modules [OF retire_modules_graph(1)]

lemma retire_modules_owned:
  assumes "conc_owned conc" and "K \<subseteq> owned_keys g" and "K \<inter> (\<lambda>n. (n, v)) ` set names = {}"
  shows "K \<subseteq> owned_keys (snd (retire_modules conc v names run_at now g))" and "K \<subseteq> owned_keys (retire_modules_partly conc k v names run_at g)"
proof -
  have K: "K \<inter> (\<lambda>n. (n, v)) ` set (retire_targets g v names run_at) = {}" using assms(3) targets_subset [of g v names run_at] by blast
  show "K \<subseteq> owned_keys (retire_modules_partly conc k v names run_at g)"
    unfolding retire_modules_partly_def Let_def by (rule cascade_owned [OF assms(1,2) K])
  have "K \<subseteq> owned_keys (cascaded conc v (retire_targets g v names run_at) run_at g)"
    using cascade_owned [OF assms(1,2) K, of "length (cascade conc v (retire_targets g v names run_at) run_at xs)" for xs]
    unfolding cascaded_def Let_def by (metis take_all_iff order_refl)
  then show "K \<subseteq> owned_keys (snd (retire_modules conc v names run_at now g))" using assms(2) by (simp add: retire_modules_keys Let_def)
qed

text \<open>The Module nodes, and the nodes below them, as the other runs alone would leave them: their writes at the first \<open>n\<close> points.\<close>

definition modules_written :: "concurrent \<Rightarrow> nat \<Rightarrow> mnode list \<Rightarrow> mnode list" where
  "modules_written conc n ms = fold (\<lambda>k. fold merge_module (fst (conc k))) [0..<n] ms"

definition children_written :: "concurrent \<Rightarrow> nat \<Rightarrow> cnode list \<Rightarrow> cnode list" where
  "children_written conc n cs = fold (\<lambda>k. fold merge_child (snd (conc k))) [0..<n] cs"

lemma merge_writes_fields [simp]:
  "gr_modules (merge_writes w g) = fold merge_module (fst w) (gr_modules g)" "gr_children (merge_writes w g) = fold merge_child (snd w) (gr_children g)"
  by (simp_all add: merge_writes_def)

lemma written_simps [simp]:
  "modules_written conc 0 ms = ms" "modules_written conc (Suc n) ms = fold merge_module (fst (conc n)) (modules_written conc n ms)"
  "children_written conc 0 cs = cs" "children_written conc (Suc n) cs = fold merge_child (snd (conc n)) (children_written conc n cs)"
  by (simp_all add: modules_written_def children_written_def)

lemma written_keys: "node_key ` set ms \<subseteq> node_key ` set (modules_written conc n ms)"
  by (induction n) (auto simp: fold_merge_keys)

lemma interleaved_modules:
  assumes "list_all (\<lambda>f. \<forall>g. gr_modules (f g) = gr_modules g) ss" and "gr_modules g = modules_written conc k ms"
  shows "gr_modules (run_stmts (interleave conc k ss) g) = modules_written conc (k + length ss) ms"
  using assms by (induction ss arbitrary: k g) fastforce+

lemma cascaded_modules:
  "gr_modules (cascaded conc v ts run_at g) =
     fold merge_module (fst (conc 16)) (filter (\<lambda>m. \<not> (g_name m \<in> set ts \<and> g_version m = v \<and> \<not> seen_since run_at m)) (modules_written conc 16 (gr_modules g)))"
proof -
  let ?g0 = "merge_writes (conc 0) g"
  let ?ds = "delete_children v ts run_at (module_view_xmlids ?g0 v ts)"
  have "list_all (\<lambda>f. \<forall>g. gr_modules (f g) = gr_modules g) ?ds"
    by (simp add: delete_children_def delete_label_def delete_children_where_def list_all_iff)
  from interleaved_modules [OF this, of ?g0 conc 1 "gr_modules g"]
  have "gr_modules (run_stmts (interleave conc 1 ?ds) ?g0) = modules_written conc 15 (gr_modules g)" by simp
  moreover have "modules_written conc 16 ms = fold merge_module (fst (conc 15)) (modules_written conc 15 ms)" for ms
    using written_simps(2) [of conc 15 ms] by simp
  ultimately show ?thesis by (simp add: cascaded_def cascade_run delete_stale_modules_def delete_modules_where_def Let_def)
qed

lemma retire_modules_result:
  assumes "retire_modules conc v names run_at now g = (res, g')"
  shows "rr_retired res = filter (\<lambda>n. (n, v) \<notin> node_keys g') (retirable names)"
    and "set (rr_skipped_recent res) = {n \<in> set (retirable names). (n, v) \<in> node_keys g'}"
proof -
  define ts where "ts = retire_targets g v names run_at"
  define recent where "recent = recent_names g v (retirable names) run_at"
  have ts: "ts = filter (\<lambda>n. n \<notin> set recent) (retirable names)" by (simp add: ts_def recent_def retire_targets_def)
  have recent: "set recent \<subseteq> set (retirable names)" "n \<in> set recent \<Longrightarrow> (n, v) \<in> node_keys g" for n
    by (auto simp: recent_def recent_names_def list_ex_iff node_keys_def image_iff) metis
  define g5 where "g5 = (if ts = [] then g else cascaded conc v ts run_at g)"
  have g': "gr_modules g' = gr_modules g5" using retire_modules_graph(1) [of conc v names run_at now g] assms by (simp add: ts_def g5_def Let_def)
  have rec: "(n, v) \<in> node_keys g'" if "n \<in> set recent" for n
  proof (cases "ts = []")
    case False
    have "(n, v) \<in> node_key ` set (modules_written conc 16 (gr_modules g))"
      using recent(2) [OF that] written_keys [of "gr_modules g" conc 16] by (auto simp: node_keys_def)
    then obtain m where "m \<in> set (modules_written conc 16 (gr_modules g))" "node_key m = (n, v)" by auto
    moreover have "n \<notin> set ts" using that by (simp add: ts)
    ultimately have "(n, v) \<in> node_key ` set (filter (\<lambda>m. \<not> (g_name m \<in> set ts \<and> g_version m = v \<and> \<not> seen_since run_at m)) (modules_written conc 16 (gr_modules g)))"
      by (intro image_eqI [of _ _ m]) (auto simp: node_key_def)
    with False show ?thesis unfolding keys_of_modules(1) [OF g'] by (simp add: g5_def node_keys_def cascaded_modules fold_merge_keys)
  qed (use recent(2) [OF that] in \<open>simp add: keys_of_modules(1) [OF g'] g5_def\<close>)
  have late: "filter (\<lambda>n. module_node_of g' v n \<noteq> None) ts = filter (\<lambda>n. (n, v) \<in> node_keys g') ts" by (simp only: node_of_keys)
  have fields: "rr_retired res = (if ts = [] then [] else filter (\<lambda>n. n \<notin> set (filter (\<lambda>n. module_node_of g' v n \<noteq> None) ts)) ts)"
    "rr_skipped_recent res = (if ts = [] then recent else sort (remdups (recent @ filter (\<lambda>n. module_node_of g' v n \<noteq> None) ts)))"
    using assms by (auto simp: retire_modules_def ts_def [symmetric] recent_def [symmetric] Let_def split: if_splits prod.splits)
  have res: "rr_retired res = filter (\<lambda>n. (n, v) \<notin> node_keys g') ts" "set (rr_skipped_recent res) = set recent \<union> {n \<in> set ts. (n, v) \<in> node_keys g'}"
    unfolding fields late by (auto intro: filter_cong)
  show "rr_retired res = filter (\<lambda>n. (n, v) \<notin> node_keys g') (retirable names)" unfolding res(1) ts filter_filter by (rule filter_cong) (auto dest: rec)
  show "set (rr_skipped_recent res) = {n \<in> set (retirable names). (n, v) \<in> node_keys g'}" unfolding res(2) using recent(1) rec by (auto simp: ts)
qed

text \<open>Of the nodes below the modules, those a property \<open>P\<close> protects from every delete.\<close>

definition spared :: "(cnode \<Rightarrow> bool) \<Rightarrow> cnode list \<Rightarrow> cnode list \<Rightarrow> bool" where
  "spared P full cs \<longleftrightarrow> set cs \<subseteq> set full \<and> {c \<in> set full. P c} \<subseteq> set cs"

definition deletes_unspared :: "(cnode \<Rightarrow> bool) \<Rightarrow> (graph \<Rightarrow> graph) \<Rightarrow> bool" where
  "deletes_unspared P f \<longleftrightarrow> (\<forall>g. set (gr_children (f g)) \<subseteq> set (gr_children g) \<and> {c \<in> set (gr_children g). P c} \<subseteq> set (gr_children (f g)))"

lemma merge_child_mem: "c \<in> set (merge_child w cs) \<longleftrightarrow> c = w \<or> c \<in> set cs \<and> c_id c \<noteq> c_id w"
  by (auto simp: merge_child_def image_iff)

lemma fold_merge_child_new: "c \<in> set (fold merge_child ws cs) \<Longrightarrow> c \<in> set cs \<or> c \<in> set ws"
proof (induction ws arbitrary: cs)
  case (Cons w ws)
  from Cons.IH [of "merge_child w cs"] Cons.prems show ?case by (auto simp: merge_child_mem)
qed simp

lemma spared_merge1: "spared P full cs \<Longrightarrow> spared P (merge_child w full) (merge_child w cs)"
  by (auto simp: spared_def merge_child_mem)

lemma spared_merge: "spared P full cs \<Longrightarrow> spared P (fold merge_child ws full) (fold merge_child ws cs)"
  by (induction ws arbitrary: full cs) (simp_all add: spared_merge1)

lemma spared_delete: "deletes_unspared P f \<Longrightarrow> spared P full (gr_children g) \<Longrightarrow> spared P full (gr_children (f g))"
  unfolding spared_def deletes_unspared_def by blast

lemma interleaved_children:
  assumes "list_all (deletes_unspared P) ss" and "spared P (children_written conc k cs) (gr_children g)"
  shows "spared P (children_written conc (k + length ss) cs) (gr_children (run_stmts (interleave conc k ss) g))"
  using assms
proof (induction ss arbitrary: k g)
  case (Cons s ss)
  have "spared P (children_written conc (Suc k) cs) (gr_children (merge_writes (conc k) g))" using Cons.prems(2) by (simp add: spared_merge)
  from Cons.IH [OF _ spared_delete [OF _ this, of s]] Cons.prems(1) show ?case by simp
qed simp

text \<open>A node that a statement of the run deletes is there at the end only if another run has written it.\<close>

lemma interleaved_origin:
  assumes "list_all (deletes_unspared P) ss" and "c \<in> set (gr_children (run_stmts (interleave conc k ss) g))"
  shows "c \<in> set (gr_children g) \<or> (\<exists>j < k + length ss. c \<in> set (snd (conc j)))"
  using assms
proof (induction ss arbitrary: k g)
  case (Cons s ss)
  from Cons.IH [of "Suc k" "s (merge_writes (conc k) g)"] Cons.prems
  consider "c \<in> set (gr_children (s (merge_writes (conc k) g)))" | j where "j < Suc k + length ss" "c \<in> set (snd (conc j))" by auto
  then show ?case
  proof cases
    case 1
    moreover have "deletes_unspared P s" using Cons.prems(1) by simp
    ultimately have "c \<in> set (gr_children (merge_writes (conc k) g))" unfolding deletes_unspared_def by blast
    then show ?thesis using fold_merge_child_new [of c "snd (conc k)" "gr_children g"] by auto
  qed auto
qed simp

lemma interleaved_gone:
  assumes "list_all (deletes_unspared P) ss" and "f \<in> set ss" "\<And>g. c \<notin> set (gr_children (f g))"
    and "c \<in> set (gr_children (run_stmts (interleave conc k ss) g))"
  shows "\<exists>j < k + length ss. c \<in> set (snd (conc j))"
  using assms
proof (induction ss arbitrary: k g)
  case (Cons s ss)
  show ?case
  proof (cases "f = s")
    case True
    then show ?thesis using interleaved_origin [of P ss c conc "Suc k"] Cons.prems by fastforce
  qed (use Cons.IH [of "Suc k" "s (merge_writes (conc k) g)"] Cons.prems in auto)
qed simp

definition protected_child :: "string \<Rightarrow> string list \<Rightarrow> int \<Rightarrow> cnode \<Rightarrow> bool" where
  "protected_child v ts run_at c \<longleftrightarrow> \<not> written_before_run run_at c \<or> c_label c \<noteq> ''LintViolation'' \<and> \<not> owned_child v ts (c_label c) c"

lemma delete_children_unspared: "list_all (deletes_unspared (protected_child v ts run_at)) (delete_children v ts run_at xmlids)"
  by (auto simp: list_all_iff delete_children_def deletes_unspared_def delete_label_def delete_children_where_def protected_child_def selected_child_def
      violation_of_def owned_child_def split: if_splits)

lemma cascaded_children:
  fixes conc v ts run_at g
  defines "cs \<equiv> gr_children (cascaded conc v ts run_at g)"
  shows "spared (protected_child v ts run_at) (children_written conc 17 (gr_children g)) cs"
    and "c \<in> set cs \<Longrightarrow> c_label c \<in> set MODULE_CHILD_LABELS - {''LintViolation''} \<Longrightarrow> owned_child v ts (c_label c) c \<Longrightarrow> written_before_run run_at c \<Longrightarrow>
      c \<in> (\<Union>k\<le>16. set (snd (conc k)))"
proof -
  let ?g0 = "merge_writes (conc 0) g"
  let ?ds = "delete_children v ts run_at (module_view_xmlids ?g0 v ts)"
  let ?g1 = "run_stmts (interleave conc 1 ?ds) ?g0"
  have cs: "cs = fold merge_child (snd (conc 16)) (fold merge_child (snd (conc 15)) (gr_children ?g1))"
    by (simp add: cs_def cascaded_def cascade_run delete_stale_modules_def delete_modules_where_def Let_def)
  have 17: "children_written conc 17 xs = fold merge_child (snd (conc 16)) (fold merge_child (snd (conc 15)) (children_written conc 15 xs))" for xs
    using written_simps(4) [of conc 16 xs] written_simps(4) [of conc 15 xs] by simp
  have "spared (protected_child v ts run_at) (children_written conc 1 (gr_children g)) (gr_children ?g0)" by (auto simp: spared_def)
  from interleaved_children [OF delete_children_unspared this]
  show "spared (protected_child v ts run_at) (children_written conc 17 (gr_children g)) cs" by (simp add: cs 17 spared_merge)
  assume c: "c \<in> set cs" "c_label c \<in> set MODULE_CHILD_LABELS - {''LintViolation''}" "owned_child v ts (c_label c) c" "written_before_run run_at c"
  from c(1) fold_merge_child_new consider "c \<in> set (gr_children ?g1)" | "c \<in> set (snd (conc 15))" | "c \<in> set (snd (conc 16))" unfolding cs by blast
  then show "c \<in> (\<Union>k\<le>16. set (snd (conc k)))"
  proof cases
    case 1
    let ?f = "delete_label v ts run_at (module_view_xmlids ?g0 v ts) (c_label c)"
    have "?f \<in> set ?ds" using c(2) by (simp add: delete_children_def)
    moreover have "c \<notin> set (gr_children (?f h))" for h using c by (simp add: delete_label_def delete_children_where_def selected_child_def)
    ultimately obtain j where "j < 1 + length ?ds" "c \<in> set (snd (conc j))" using interleaved_gone [OF delete_children_unspared _ _ 1] by blast
    then show ?thesis by (intro UN_I [of j]) simp_all
  qed auto
qed

text \<open>C18. The delete of modules while other runs write, before, between and after any of its statements. The names reported as retired and as
  skipped split the names asked for: a retired name has no node left, a skipped one has. The Module nodes are afterwards exactly those the other
  runs alone would leave, less the nodes of the targets that were not stamped since the run began when the last delete looked, so a node that
  another run has stamped meanwhile stays. Of the nodes below them no fresh one is lost and, violations apart, none of another module or version;
  none appears that nobody wrote; and a stale node of a target is left only if another run wrote it during the call. (A call without a target does nothing.)\<close>

theorem retire_modules_exact:
  assumes "retire_modules conc v names run_at now g = (res, g')"
  shows "set (rr_retired res) = {n \<in> set (retirable names). (n, v) \<notin> node_keys g'} \<and>
    set (rr_skipped_recent res) = {n \<in> set (retirable names). (n, v) \<in> node_keys g'} \<and>
    (let ts = retire_targets g v names run_at; cs = set (gr_children g') in
     if ts = [] then g' = g
     else gr_modules g' = fold merge_module (fst (conc 16))
            (filter (\<lambda>m. \<not> (g_name m \<in> set ts \<and> g_version m = v \<and> \<not> seen_since run_at m)) (modules_written conc 16 (gr_modules g))) \<and>
          {c \<in> set (children_written conc 17 (gr_children g)). protected_child v ts run_at c} \<subseteq> cs \<and> cs \<subseteq> set (children_written conc 17 (gr_children g)) \<and>
          {c \<in> cs. c_label c \<in> set MODULE_CHILD_LABELS - {''LintViolation''} \<and> owned_child v ts (c_label c) c \<and> written_before_run run_at c}
            \<subseteq> (\<Union>k\<le>16. set (snd (conc k))))"
proof (cases "retire_targets g v names run_at = []")
  case True
  with assms have "g' = g" by (simp add: retire_modules_def)
  with True retire_modules_result [OF assms] show ?thesis by auto
next
  case False
  let ?ts = "retire_targets g v names run_at"
  have g': "gr_modules g' = gr_modules (cascaded conc v ?ts run_at g)" "gr_children g' = gr_children (cascaded conc v ?ts run_at g)"
    using retire_modules_graph [of conc v names run_at now g] False by (simp_all add: assms Let_def)
  have "{c \<in> set (gr_children g'). c_label c \<in> set MODULE_CHILD_LABELS - {''LintViolation''} \<and> owned_child v ?ts (c_label c) c \<and> written_before_run run_at c}
      \<subseteq> (\<Union>k\<le>16. set (snd (conc k)))" unfolding g'(2)
    using cascaded_children(2) [of _ conc v ?ts run_at g] by (intro subsetI) (simp only: mem_Collect_eq)
  with False g' cascaded_modules cascaded_children(1) [of v ?ts run_at conc g] retire_modules_result [OF assms] show ?thesis
    unfolding Let_def spared_def by (simp only: if_False) auto
qed

subsection \<open>The stamp after a call that raised\<close>

text \<open>Only the end of the call marks the version; the statements before it leave the stamp alone.\<close>

definition stamp_of :: "graph \<Rightarrow> (string \<times> post_pass) list \<times> string list" where
  "stamp_of g = (gr_post_pass g, gr_dirtied g)"

lemma delete_stamp [simp]: "stamp_of (delete_children_where P g) = stamp_of g" "stamp_of (delete_modules_where Q g) = stamp_of g" "stamp_of (merge_writes ws g) = stamp_of g"
  by (simp_all add: stamp_of_def delete_children_where_def delete_modules_where_def cut_edges_def merge_writes_def Let_def)

lemma stamp_current: "stamp_of g = stamp_of g' \<Longrightarrow> post_pass_current v token g = post_pass_current v token g'"
  by (simp add: stamp_of_def post_pass_current_def)

lemma run_stmts_stamp: "list_all (\<lambda>f. \<forall>g. stamp_of (f g) = stamp_of g) fs \<Longrightarrow> stamp_of (run_stmts fs g) = stamp_of g"
  by (induction fs arbitrary: g) simp_all

lemma list_all_single_appendI: "list_all P xs \<Longrightarrow> P x \<Longrightarrow> list_all P (xs @ [x])"
  by simp

lemma cascade_stamp: "stamp_of (run_stmts (take k (cascade conc v ts run_at xmlids)) g) = stamp_of g"
  unfolding cascade_def
  by (intro run_stmts_stamp list_all_take list_all_single_appendI list_all_interleave)
    (simp_all add: delete_children_def delete_label_def delete_stale_modules_def list_all_iff)

text \<open>No other run writes.\<close>

definition alone :: concurrent where
  "alone = (\<lambda>_. ([], []))"

lemma alone_simps [simp]: "alone k = ([], [])" "merge_writes ([], []) h = h" "modules_written alone n ms = ms" "children_written alone n cs = cs"
proof -
  show "alone k = ([], [])" "merge_writes ([], []) h = h" for k by (simp_all add: alone_def merge_writes_def)
  show "modules_written alone n ms = ms" "children_written alone n cs = cs" by (induction n) (simp_all add: alone_def)
qed

lemma childless: "gr_children g = [] \<Longrightarrow> gr_children (cascaded alone v ts run_at g) = []"
  using cascaded_children(1) [of v ts run_at alone g] by (simp add: spared_def)

text \<open>The mark that the version has to be derived again is lost: a module without children is deleted by a call that then fails before it marks the
  version (its 31 steps include those of the other runs, which write nothing here); the call that follows finds nothing to delete, and the version
  passes for unchanged although its node is gone.\<close>

theorem lost_mark_passes_for_clean:
  assumes "post_pass_current v token g" and "gr_children g = []" and "retire_targets g v names run_at = ts" "ts \<noteq> []"
    and g1: "g1 = retire_modules_partly alone 31 v names run_at g"
    and run: "retire_modules alone v names run_at now g1 = (res, g2)"
  shows "post_pass_current v token g2 \<and> {m \<in> set (gr_modules g2). g_name m \<in> set ts \<and> g_version m = v} = {}"
proof -
  have len: "length (interleave conc k xs) = 2 * length xs" for conc k xs by (induction xs arbitrary: k) simp_all
  have "take 31 (cascade alone v ts run_at xmlids) = cascade alone v ts run_at xmlids" for xmlids by (simp add: cascade_def len)
  then have g1': "g1 = cascaded alone v ts run_at g" using assms(3) by (simp add: g1 retire_modules_partly_def cascaded_def Let_def)
  have stamp1: "stamp_of g1 = stamp_of g" using g1 cascade_stamp by (simp add: retire_modules_partly_def Let_def)
  have kids: "gr_children g1 = []" using childless [OF assms(2)] by (simp add: g1')
  have mods: "gr_modules g1 = filter (\<lambda>m. \<not> (g_name m \<in> set ts \<and> g_version m = v \<and> \<not> seen_since run_at m)) (gr_modules g)"
    by (simp add: g1' cascaded_modules)
  have stale: "\<not> seen_since run_at m" if "m \<in> set (gr_modules g)" "g_name m \<in> set ts" "g_version m = v" for m
    using assms(3) that by (auto simp: retire_targets_def recent_names_def list_ex_iff node_key_def)
  have gone: "{m \<in> set (gr_modules g1). g_name m \<in> set ts \<and> g_version m = v} = {}" using stale by (auto simp: mods)
  define us where "us = retire_targets g1 v names run_at"
  have "recent_names g1 v (retirable names) run_at = recent_names g v (retirable names) run_at"
    unfolding recent_names_def by (intro filter_cong refl) (auto simp: list_ex_iff mods)
  then have us: "us = ts" using assms(3) by (simp add: us_def retire_targets_def)
  let ?xs = "module_view_xmlids g1 v ts"
  let ?g = "run_stmts (interleave alone (Suc 0) (delete_children v ts run_at ?xs)) g1"
  have all: "list_all (\<lambda>f. \<forall>g. gr_modules (f g) = gr_modules g) (delete_children v ts run_at ?xs)"
    by (simp add: delete_children_def delete_label_def delete_children_where_def list_all_iff)
  have same: "gr_modules ?g = gr_modules g1" using interleaved_modules [OF all, of g1 alone "Suc 0" "gr_modules g1"] by (simp only: alone_simps)
  have "spared (protected_child v ts run_at) (children_written alone (Suc 0) []) (gr_children g1)" using kids by (simp add: spared_def)
  from interleaved_children [OF delete_children_unspared this] have none: "gr_children ?g = []" by (simp add: spared_def)
  have count: "fst (run_counted conc k ss h) = 0" if "gr_children h = []" "conc = alone" "list_all (deletes_unspared P) ss" for conc k ss h P
    using that
  proof (induction ss arbitrary: k h)
    case (Cons s ss)
    have "set (gr_children (s h)) \<subseteq> set (gr_children h)" using Cons.prems(3) by (simp add: deletes_unspared_def)
    then have "gr_children (s h) = []" using Cons.prems(1) by simp
    with Cons show ?case by (simp add: Let_def case_prod_beta)
  qed simp
  have zero: "run_counted alone (Suc 0) (delete_children v ts run_at ?xs) g1 = (0, ?g)"
    using count [OF kids refl delete_children_unspared, of "Suc 0" v ts run_at ?xs] run_counted_graph [of alone "Suc 0" "delete_children v ts run_at ?xs" g1]
    by (simp add: prod_eq_iff)
  have kept: "gr_modules (delete_stale_modules v ts run_at ?g) = gr_modules g1"
    using gone by (simp only: delete_stale_modules_def delete_modules_where_def cut_edges_modules same graph.simps) (use gone in \<open>auto simp: filter_id_conv\<close>)
  have g2: "g2 = delete_stale_modules v ts run_at ?g"
    using run assms(4) by (simp add: retire_modules_def us_def [symmetric] us Let_def zero kept same)
  have "stamp_of ?g = stamp_of g1"
    by (intro run_stmts_stamp list_all_interleave) (simp_all add: delete_children_def delete_label_def list_all_iff)
  then have "stamp_of g2 = stamp_of g1" by (simp add: g2 delete_stale_modules_def)
  moreover have "gr_modules g2 = gr_modules g1" using kept by (simp add: g2)
  ultimately show ?thesis using gone stamp1 assms(1) stamp_current by metis
qed

subsection \<open>Witness\<close>

definition sample_node :: "string \<Rightarrow> mnode" where
  "sample_node n = \<lparr>g_name = n, g_version = ''17.0'', g_profile = [''std''], g_repos = [''addons''], g_repo = Some ''addons'', g_repo_id = Some 7,
     g_repo_url = None, g_path = Some n, g_last_seen_at = Some 10, g_last_seen_sha = None, g_old_technical_name = None, g_deferred = None,
     g_gap = None, g_shared_prune_state = None\<rparr>"

definition sample_child :: "int \<Rightarrow> string \<Rightarrow> int \<Rightarrow> cnode" where
  "sample_child i n t = \<lparr>c_id = i, c_label = ''Model'', c_version = ''17.0'', c_module = Some n, c_repo = None, c_xmlid = None, c_view_xmlid = None,
     c_profile = [''std''], c_written_at = Some t, c_written_run = Some ''run-0'', c_name = Some n, c_model = None, c_file_path = None, c_test_class = None\<rparr>"

definition sample_store :: graph where
  "sample_store = \<lparr>gr_modules = [sample_node ''sale'', sample_node ''stock'', (sample_node ''web'')\<lparr>g_last_seen_at := Some 40\<rparr>],
     gr_children = [sample_child 1 ''sale'' 10, sample_child 2 ''web'' 20, sample_child 3 ''sale'' 35], gr_violations = [], gr_depends = [], gr_defined_in = [], gr_post_pass = [], gr_dirtied = []\<rparr>"

text \<open>\<open>web\<close> was seen by a later run; \<open>stock\<close> is written by another run while the views are read, so it stays too; \<open>sale\<close> goes.\<close>

definition sample_conc :: concurrent where
  "sample_conc = (\<lambda>k. if k = 9 then ([(sample_node ''stock'')\<lparr>g_last_seen_at := Some 36\<rparr>], []) else ([], []))"

theorem retire_modules_exact_witness:
  "set (rr_retired (fst (retire_modules sample_conc ''17.0'' [''web'', ''stock'', ''sale''] 30 40 sample_store))) = {''sale''} \<and>
   map g_name (gr_modules (snd (retire_modules sample_conc ''17.0'' [''web'', ''stock'', ''sale''] 30 40 sample_store))) = [''stock'', ''web'']"
proof -
  let ?call = "retire_modules sample_conc ''17.0'' [''web'', ''stock'', ''sale''] 30 40 sample_store"
  have "retire_targets sample_store ''17.0'' [''web'', ''stock'', ''sale''] 30 = [''sale'', ''stock'']" by code_simp
  moreover have "modules_written sample_conc 16 (gr_modules sample_store) =
      [sample_node ''sale'', (sample_node ''stock'')\<lparr>g_last_seen_at := Some 36\<rparr>, (sample_node ''web'')\<lparr>g_last_seen_at := Some 40\<rparr>]" by code_simp
  moreover have "fst (sample_conc 16) = []" by (simp add: sample_conc_def)
  moreover have "?call = (fst ?call, snd ?call)" by simp
  note exact = retire_modules_exact [OF this]
  ultimately have mods: "gr_modules (snd ?call) = [(sample_node ''stock'')\<lparr>g_last_seen_at := Some 36\<rparr>, (sample_node ''web'')\<lparr>g_last_seen_at := Some 40\<rparr>]"
    by (simp add: Let_def sample_node_def seen_since_def)
  moreover have "retirable [''web'', ''stock'', ''sale''] = [''sale'', ''stock'', ''web'']" by code_simp
  ultimately have "set (rr_retired (fst ?call)) = {''sale''}" using exact by (auto simp: node_keys_def node_key_def sample_node_def)
  with mods show ?thesis by (simp add: sample_node_def)
qed

definition sample_stamped :: graph where
  "sample_stamped = sample_store\<lparr>gr_children := [], gr_post_pass := [(''17.0'', \<lparr>pp_dirty = False, pp_dirty_at = Some 5, pp_token = Some ''src-1''\<rparr>)]\<rparr>"

theorem lost_mark_passes_for_clean_witness:
  "post_pass_current ''17.0'' ''src-1'' (snd (retire_modules alone ''17.0'' [''sale''] 30 40
     (retire_modules_partly alone 31 ''17.0'' [''sale''] 30 sample_stamped)))"
proof -
  let ?g1 = "retire_modules_partly alone 31 ''17.0'' [''sale''] 30 sample_stamped"
  obtain res g2 where run: "retire_modules alone ''17.0'' [''sale''] 30 40 ?g1 = (res, g2)" by fastforce
  have "post_pass_current ''17.0'' ''src-1'' sample_stamped" "gr_children sample_stamped = []" by code_simp+
  moreover have "retire_targets sample_stamped ''17.0'' [''sale''] 30 = [''sale'']" by code_simp
  ultimately show ?thesis using lost_mark_passes_for_clean [OF _ _ _ _ refl run] run by simp
qed

end
