(* ===== verification/Triples.thy ===== *)
theory Triples
  imports Effects
begin

section \<open>Invariants with results\<close>

text \<open>
  \<open>post I m Q\<close>: from every state in \<open>I\<close> the run of \<open>m\<close> ends in a state in \<open>I\<close>, also when it
  raises, and what it returns satisfies \<open>Q\<close>. This adds to the relations of \<open>stepwise\<close> what a step knows of a value that
  an earlier step has read.
\<close>

definition post :: "('s \<Rightarrow> bool) \<Rightarrow> ('s, 'e, 'a) em \<Rightarrow> ('a \<Rightarrow> bool) \<Rightarrow> bool" where
  "post I m Q \<longleftrightarrow> (\<forall>s. I s \<longrightarrow> I (snd (m s)) \<and> (\<forall>a. fst (m s) = Inr a \<longrightarrow> Q a))"

lemma postI:
  assumes "\<And>s r s'. I s \<Longrightarrow> m s = (r, s') \<Longrightarrow> I s' \<and> (\<forall>a. r = Inr a \<longrightarrow> Q a)"
  shows "post I m Q"
  unfolding post_def using assms by (metis prod.collapse)

lemma postD: "post I m Q \<Longrightarrow> I s \<Longrightarrow> m s = (r, s') \<Longrightarrow> I s'"
  unfolding post_def by (metis snd_conv)

lemma post_result: "post I m Q \<Longrightarrow> I s \<Longrightarrow> m s = (Inr a, s') \<Longrightarrow> Q a"
  unfolding post_def by (metis fst_conv)

lemma post_weaken: "post I m Q \<Longrightarrow> (\<And>a. Q a \<Longrightarrow> R a) \<Longrightarrow> post I m R"
  unfolding post_def by blast

lemma post_ret: "Q a \<Longrightarrow> post I (ret a) Q"
  by (simp add: post_def ret_def)

lemma post_raise: "post I (raise_exc e) Q"
  by (simp add: post_def raise_exc_def)

lemma post_gets: "(\<And>s. I s \<Longrightarrow> Q (f s)) \<Longrightarrow> post I (gets f) Q"
  by (simp add: post_def gets_def)

lemma post_modify: "(\<And>s. I s \<Longrightarrow> I (f s)) \<Longrightarrow> Q () \<Longrightarrow> post I (modify f) Q"
  by (simp add: post_def modify_def)

lemma post_bind:
  assumes "post I m Q" and "\<And>a. Q a \<Longrightarrow> post I (k a) R"
  shows "post I (bindE m k) R"
proof (rule postI)
  fix s r s' assume s: "I s" and run: "bindE m k s = (r, s')"
  obtain r1 s1 where m: "m s = (r1, s1)" by fastforce
  from postD [OF assms(1) s m] have s1: "I s1" .
  show "I s' \<and> (\<forall>a. r = Inr a \<longrightarrow> R a)"
  proof (cases r1)
    case (Inl e)
    with run m s1 show ?thesis by (auto simp: bindE_def)
  next
    case (Inr a)
    with run m have k: "k a s1 = (r, s')" by (simp add: bindE_def)
    have p: "post I (k a) R" by (rule assms(2)) (rule post_result [OF assms(1) s m [unfolded Inr]])
    show ?thesis using postD [OF p s1 k] post_result [OF p s1] k by simp
  qed
qed

lemma post_seq: "post I m (\<lambda>_. True) \<Longrightarrow> post I n R \<Longrightarrow> post I (seqE m n) R"
  unfolding seqE_def by (rule post_bind)

lemma post_try:
  assumes "post I m Q" and "\<And>e k. h e = Some k \<Longrightarrow> post I k Q"
  shows "post I (try_except m h) Q"
proof (rule postI)
  fix s r s' assume s: "I s" and run: "try_except m h s = (r, s')"
  obtain r1 s1 where m: "m s = (r1, s1)" by fastforce
  from postD [OF assms(1) s m] have s1: "I s1" .
  show "I s' \<and> (\<forall>a. r = Inr a \<longrightarrow> Q a)"
  proof (cases r1)
    case (Inl e)
    show ?thesis
    proof (cases "h e")
      case None
      with run m s1 Inl show ?thesis by (auto simp: try_except_def)
    next
      case (Some k)
      with run m Inl have k: "k s1 = (r, s')" by (simp add: try_except_def)
      note p = assms(2) [OF Some]
      show ?thesis using postD [OF p s1 k] post_result [OF p s1] k by simp
    qed
  next
    case (Inr a)
    with run m s1 post_result [OF assms(1) s, of a s1] show ?thesis by (auto simp: try_except_def)
  qed
qed

lemma post_if: "(b \<Longrightarrow> post I m Q) \<Longrightarrow> (\<not> b \<Longrightarrow> post I n Q) \<Longrightarrow> post I (if b then m else n) Q"
  by simp

lemma post_case_option:
  "(x = None \<Longrightarrow> post I m Q) \<Longrightarrow> (\<And>a. x = Some a \<Longrightarrow> post I (k a) Q) \<Longrightarrow> post I (case x of None \<Rightarrow> m | Some a \<Rightarrow> k a) Q"
  by (cases x) simp_all

lemma post_case_prod: "(\<And>a b. p = (a, b) \<Longrightarrow> post I (k a b) Q) \<Longrightarrow> post I (case p of (a, b) \<Rightarrow> k a b) Q"
  by (cases p) simp

lemma post_case_prod_arg: "(\<And>a b. p = (a, b) \<Longrightarrow> post I (k a b u) Q) \<Longrightarrow> post I ((case p of (a, b) \<Rightarrow> k a b) u) Q"
  by (cases p) simp

lemma post_let: "(\<And>y. y = x \<Longrightarrow> post I (k y) Q) \<Longrightarrow> post I (let y = x in k y) Q"
  by simp

lemma post_for_each:
  assumes "\<And>x acc. x \<in> set xs \<Longrightarrow> A acc \<Longrightarrow> post I (body x acc) A" and "A acc"
  shows "post I (for_each xs acc body) A"
  using assms
proof (induction xs arbitrary: acc)
  case (Cons x xs)
  have 1: "post I (body x acc) A" using Cons.prems by simp
  have 2: "\<And>acc. A acc \<Longrightarrow> post I (for_each xs acc body) A" using Cons.IH Cons.prems(1) by simp
  show ?case unfolding for_each.simps by (rule post_bind [OF 1 2])
qed (simp add: post_ret)

lemma post_each:
  "(\<And>x. x \<in> set xs \<Longrightarrow> post I (body x ()) (\<lambda>_. True)) \<Longrightarrow> post I (for_each xs () body) (\<lambda>_. True)"
  by (rule post_for_each) simp_all

lemmas post_intros = post_ret post_raise post_bind post_seq post_try post_if post_case_option post_case_prod post_let post_each

end
