(* ===== verification/Reconcile_Laws.thy ===== *)
theory Reconcile_Laws
  imports Shared_Prune Graph_Laws Triples Ledger_Laws
begin

section \<open>What a reconcile leaves alone\<close>

text \<open>
  The invariant \<open>safe\<close> of a reconcile: the ledger keeps its constraints, the rows that are not up for retirement keep
  their state, and the modules they stand for keep their Module node. Every operation of the reconciler keeps it, also when
  one of its calls raises half way.
\<close>

subsection \<open>Rules for calls\<close>

lemma post_gcall:
  assumes "\<And>s. I s \<Longrightarrow> I (snd (full s)) \<and> Q (fst (full s))" and "\<And>j s. I s \<Longrightarrow> I (part j s)"
  shows "post I (gcall w cl k full part) Q"
  using assms by (auto simp: post_def gcall_def split: option.splits)

lemma post_sread: "(\<And>s. I s \<Longrightarrow> Q (f s)) \<Longrightarrow> post I (sread w cl f) Q"
  by (auto simp: post_def sread_def split: option.splits)

lemma post_lcall:
  assumes "\<And>s res l'. I s \<Longrightarrow> m (x_ledger s) = (res, l') \<Longrightarrow> I (s\<lparr>x_ledger := l'\<rparr>)"
  shows "post I (lcall w cl m) (\<lambda>_. True)"
proof (rule postI)
  fix s r s' assume s: "I s" and run: "lcall w cl m s = (r, s')"
  obtain res l' where m: "m (x_ledger s) = (res, l')" by fastforce
  from run m have "s' = s \<or> s' = s\<lparr>x_ledger := l'\<rparr>" by (auto simp: lcall_def split: option.splits sum.splits)
  with s assms [OF s m] show "I s' \<and> (\<forall>a. r = Inr a \<longrightarrow> True)" by auto
qed

lemma post_upd_report: "(\<And>s. I s \<Longrightarrow> I (s\<lparr>x_report := f (x_report s)\<rparr>)) \<Longrightarrow> post I (upd_report f) (\<lambda>_. True)"
  unfolding upd_report_def by (rule post_modify) simp_all

lemma post_retry_from: "(\<And>k. post I (fn k) Q) \<Longrightarrow> post I (retry_from j k fn) Q"
  by (induction j arbitrary: k) (auto intro!: post_try split: if_splits)

lemma post_retrying: "(\<And>k. post I (fn k) Q) \<Longrightarrow> post I (retrying fn) Q"
  unfolding retrying_def by (rule post_retry_from)

lemma post_try_else:
  assumes "post I body Q" and "\<And>e. post I (handler e) (\<lambda>_. True)" and "\<And>a. Q a \<Longrightarrow> post I (rest a) (\<lambda>_. True)"
  shows "post I (try_else body handler rest) (\<lambda>_. True)"
proof -
  let ?Q = "\<lambda>r. case r of None \<Rightarrow> True | Some a \<Rightarrow> Q a"
  have "post I (bindE body (\<lambda>a. ret (Some a))) ?Q" by (rule post_bind [OF assms(1)]) (simp add: post_ret)
  then have 1: "post I (try_except (bindE body (\<lambda>a. ret (Some a))) (\<lambda>e. Some (seqE (handler e) (ret None)))) ?Q"
    by (rule post_try) (auto intro!: post_seq post_ret assms(2))
  show ?thesis unfolding try_else_def by (rule post_bind [OF 1]) (auto intro!: post_ret assms(3) split: option.splits)
qed

subsection \<open>Rows that keep their state\<close>

definition may_retire :: "string \<Rightarrow> presence \<Rightarrow> bool" where
  "may_retire v r \<longleftrightarrow> p_odoo_version r = v \<and> p_retire_pending r \<and> reconcile_may_retry (p_retire_blocked_by r)"

definition same_row :: "presence \<Rightarrow> presence \<Rightarrow> bool" where
  "same_row r r' \<longleftrightarrow> p_id r' = p_id r \<and> p_repo_id r' = p_repo_id r \<and> p_name r' = p_name r \<and> p_odoo_version r' = p_odoo_version r \<and>
     p_state r' = p_state r \<and> p_retire_pending r' = p_retire_pending r \<and> p_retire_blocked_by r' = p_retire_blocked_by r"

definition rows_kept :: "presence set \<Rightarrow> ledger \<Rightarrow> ledger \<Rightarrow> bool" where
  "rows_kept R l l' \<longleftrightarrow> (ledger_inv l \<and> (\<forall>r0 \<in> R. \<exists>r \<in> set (l_rows l). same_row r0 r) \<longrightarrow>
     ledger_inv l' \<and> (\<forall>r0 \<in> R. \<exists>r \<in> set (l_rows l'). same_row r0 r))"

lemma same_row_refl [simp]: "same_row r r"
  by (simp add: same_row_def)

lemma same_row_trans: "same_row a b \<Longrightarrow> same_row b c \<Longrightarrow> same_row a c"
  by (simp add: same_row_def)

interpretation kept_rows: stepwise "rows_kept R"
  for R
  by unfold_locales (auto simp: rows_kept_def)

lemma kept_tx: "steps (rows_kept R) op \<Longrightarrow> steps (rows_kept R) (tx op)"
proof (rule stepsI)
  fix l r l' assume op: "steps (rows_kept R) op" and run: "tx op l = (r, l')"
  obtain r1 l1 where r1: "op l = (r1, l1)" by fastforce
  from stepsD [OF op r1] run show "rows_kept R l l'" by (auto simp: tx_def r1 kept_rows.step_refl split: sum.splits)
qed

text \<open>A good step whose rows are the old ones, mapped, and possibly new ones.\<close>

lemma rows_keptI:
  assumes "good_step l l'" and "l_rows l' = map g (l_rows l) @ new"
    and "\<And>r r0. r \<in> set (l_rows l) \<Longrightarrow> r0 \<in> R \<Longrightarrow> same_row r0 r \<Longrightarrow> same_row r (g r)"
  shows "rows_kept R l l'"
  unfolding rows_kept_def
proof (intro impI conjI ballI)
  assume l: "ledger_inv l \<and> (\<forall>r0 \<in> R. \<exists>r \<in> set (l_rows l). same_row r0 r)"
  then show "ledger_inv l'" using assms(1) by (simp add: good_step_def)
  fix r0 assume r0: "r0 \<in> R"
  then obtain r where r: "r \<in> set (l_rows l)" "same_row r0 r" using l by blast
  have "same_row r0 (g r)" using same_row_trans [OF r(2) assms(3) [OF r(1) r0 r(2)]] .
  then show "\<exists>r \<in> set (l_rows l'). same_row r0 r" using r(1) assms(2) by auto
qed

lemma kept_update:
  assumes "steps good_step (update_rows P f)" and "\<And>r r0. P r \<Longrightarrow> r0 \<in> R \<Longrightarrow> same_row r0 r \<Longrightarrow> same_row r (f r)"
  shows "steps (rows_kept R) (update_rows P f)"
proof (rule stepsI)
  fix l res l' assume run: "update_rows P f l = (res, l')"
  have "l_rows l' = map (\<lambda>r. r) (l_rows l) @ [] \<or> l_rows l' = map (\<lambda>r. if P r then f r else r) (l_rows l) @ []"
    using run by (auto simp: update_rows_def Let_def split: if_splits)
  then show "rows_kept R l l'"
  proof
    assume "l_rows l' = map (\<lambda>r. r) (l_rows l) @ []"
    then show ?thesis by (rule rows_keptI [OF stepsD [OF assms(1) run]]) simp
  next
    assume "l_rows l' = map (\<lambda>r. if P r then f r else r) (l_rows l) @ []"
    then show ?thesis by (rule rows_keptI [OF stepsD [OF assms(1) run]]) (simp add: assms(2))
  qed
qed

lemma kept_repos: "steps good_step m \<Longrightarrow> (\<And>l. l_rows (snd (m l)) = l_rows l) \<Longrightarrow> steps (rows_kept R) m"
proof (rule stepsI)
  fix l r l' assume m: "steps good_step m" "\<And>l. l_rows (snd (m l)) = l_rows l" and run: "m l = (r, l')"
  have "l_rows l' = map (\<lambda>r. r) (l_rows l) @ []" using m(2) [of l] by (simp add: run)
  then show "rows_kept R l l'" by (rule rows_keptI [OF stepsD [OF m(1) run]]) simp
qed

lemma kept_rewrite: "steps (rows_kept R) (mark_needs_rewrite i n clk now)"
  unfolding mark_needs_rewrite_def
  by (intro kept_rows.steps_bind kept_rows.steps_gets kept_tx kept_rows.steps_ret kept_update steps_side_update side_columns_simps)
    (simp add: same_row_def flag_rewrite_def)

lemma kept_columns: "steps (rows_kept R) (mark_presence_synced i sha)" "steps (rows_kept R) (set_lifecycle_attention i text now)"
  by (intro kept_repos steps_repo_columns; simp add: mark_presence_synced_def set_lifecycle_attention_def update_repo_row_def raise_exc_def)+

lemma kept_reset: "steps (rows_kept R) (reset_head_sha ids)"
proof (rule kept_repos)
  have "good_step l (l\<lparr>l_repos := rs\<rparr>)" for l rs by (auto simp: good_step_def ledger_inv_def hist_all_def intro: row_hist_refl bexI)
  then show "steps good_step (reset_head_sha ids)" by (auto simp: steps_def reset_head_sha_def ret_def ledger_run.step_refl)
qed (simp add: reset_head_sha_def ret_def)

lemma kept_orphan: "steps (rows_kept R) (record_orphan_retired i n profile version path file sha seen ev su head_sha now)"
proof (rule stepsI)
  fix l res l' assume run: "record_orphan_retired i n profile version path file sha seen ev su head_sha now l = (res, l')"
  then have "\<exists>new. l_rows l' = map (\<lambda>r. r) (l_rows l) @ new"
    by (auto simp: record_orphan_retired_def tx_def Let_def split: if_splits option.splits)
  then obtain new where "l_rows l' = map (\<lambda>r. r) (l_rows l) @ new" ..
  then show "rows_kept R l l'" by (rule rows_keptI [OF stepsD [OF steps_record_orphan_retired run]]) simp
qed

lemma kept_blocked:
  assumes "\<And>r0. r0 \<in> R \<Longrightarrow> p_id r0 \<notin> set ids"
  shows "steps (rows_kept R) (mark_retire_blocked ids b now)"
  unfolding mark_retire_blocked_def
proof (intro kept_rows.steps_if kept_rows.steps_bind kept_rows.steps_ret kept_tx kept_update steps_side_update side_columns_simps)
  fix r r0 assume "p_id r \<in> set ids \<and> p_retire_pending r" "r0 \<in> R" "same_row r0 r"
  with assms [of r0] show "same_row r (r\<lparr>p_retire_blocked_by := b, p_updated_at := now\<rparr>)" by (simp add: same_row_def)
qed

text \<open>A row that stands apart from the kept ones, by its number and by repository and name.\<close>

definition apart :: "presence set \<Rightarrow> presence \<Rightarrow> bool" where
  "apart R r \<longleftrightarrow> (\<forall>r0 \<in> R. p_id r \<noteq> p_id r0 \<and> (p_repo_id r \<noteq> None \<longrightarrow> \<not> (p_repo_id r = p_repo_id r0 \<and> p_name r = p_name r0)))"

lemma only_row_tx: "steps (only_row t) op \<Longrightarrow> steps (only_row t) (tx op)"
  by (auto simp: steps_def tx_def one_row.step_refl split: prod.splits sum.splits) (metis snd_conv)

text \<open>\<open>commit_retired\<close> changes no row but the one it finds.\<close>

lemma commit_retired_only:
  assumes "commit_retired i n reason ev su sha d now l = (res, l')"
  shows "l' = l \<or> (\<exists>t. find (\<lambda>r. (case i of Some j \<Rightarrow> p_repo_id r = Some j | None \<Rightarrow> Some (p_id r) = d) \<and> p_name r = n) (l_rows l) = Some t \<and>
    only_row (p_id t) l l')"
proof -
  have one: "steps (only_row t) (tx (bindE (gets (\<lambda>l. storable_successor l su)) (\<lambda>su.
      bindE (update_rows (\<lambda>r. p_id r = t \<and> p_state r \<noteq> St_retired) (retire_row reason sha now)) (\<lambda>rows.
        if rows = [] then ret False else seqE (store_evidence (\<lambda>r. p_id r = t) ev su) (ret True)))))" for t
    by (intro only_row_tx one_row.steps_bind one_row.steps_gets one_row.steps_if one_row.steps_ret one_row.steps_seq one_row_evidence
        steps_one_row_update ident_simps) simp
  show ?thesis
  proof (cases "find (\<lambda>r. (case i of Some j \<Rightarrow> p_repo_id r = Some j | None \<Rightarrow> Some (p_id r) = d) \<and> p_name r = n) (l_rows l)")
    case None
    with assms show ?thesis by (simp add: commit_retired_def bindE_def gets_def ret_def raise_exc_def split: if_splits)
  next
    case (Some t)
    show ?thesis
    proof (cases "i = None \<and> d = None")
      case False
      from assms stepsD [OF one [of "p_id t"], of l res l'] False have "only_row (p_id t) l l'"
        unfolding commit_retired_def by (subst (asm) bindE_def) (auto simp: gets_def Some split: if_splits)
      with Some show ?thesis by simp
    qed (use assms in \<open>simp add: commit_retired_def raise_exc_def\<close>)
  qed
qed

lemma kept_commit_retired:
  assumes "apart R r"
  shows "steps (rows_kept R) (commit_retired (p_repo_id r) (p_name r) reason ev su sha (if p_repo_id r = None then Some (p_id r) else None) now)"
proof (rule stepsI)
  fix l res l'
  assume run: "commit_retired (p_repo_id r) (p_name r) reason ev su sha (if p_repo_id r = None then Some (p_id r) else None) now l = (res, l')"
  show "rows_kept R l l'"
  proof (cases "l' = l \<or> \<not> (ledger_inv l \<and> (\<forall>r0 \<in> R. \<exists>r \<in> set (l_rows l). same_row r0 r))")
    case True
    then show ?thesis using kept_rows.step_refl by (auto simp: rows_kept_def)
  next
    case False
    then have inv: "ledger_inv l" and rows: "\<And>r0. r0 \<in> R \<Longrightarrow> \<exists>r \<in> set (l_rows l). same_row r0 r" and "l' \<noteq> l" by auto
    then obtain t where find: "find (\<lambda>x. (case p_repo_id r of Some j \<Rightarrow> p_repo_id x = Some j | None \<Rightarrow> Some (p_id x) = (if p_repo_id r = None then Some (p_id r) else None)) \<and>
        p_name x = p_name r) (l_rows l) = Some t" and one: "only_row (p_id t) l l'"
      using commit_retired_only [OF run] by blast
    then have t: "t \<in> set (l_rows l)" "p_name t = p_name r" "p_repo_id r = None \<Longrightarrow> p_id t = p_id r" "p_repo_id r \<noteq> None \<Longrightarrow> p_repo_id t = p_repo_id r"
      by (auto simp: find_Some_iff split: option.splits)
    obtain g where g: "l_rows l' = map g (l_rows l)" "\<And>x. p_id x \<noteq> p_id t \<Longrightarrow> g x = x" using one by (auto simp: only_row_def)
    have other: "p_id t \<noteq> p_id r0" if r0: "r0 \<in> R" for r0
    proof
      assume eq: "p_id t = p_id r0"
      obtain r1 where r1: "r1 \<in> set (l_rows l)" "same_row r0 r1" using rows [OF r0] by blast
      then have "t = r1" using unique_id [OF inv t(1) r1(1)] eq by (simp add: same_row_def)
      with r1(2) t assms r0 eq show False by (cases "p_repo_id r") (auto simp: apart_def same_row_def)
    qed
    have "g x = x" if "r0 \<in> R" "same_row r0 x" for x r0 using other [OF that(1)] that(2) by (intro g(2)) (auto simp: same_row_def)
    then show ?thesis using g(1) by (intro rows_keptI [OF stepsD [OF steps_commit_retired run], of g "[]"]) simp_all
  qed
qed

subsection \<open>The invariant\<close>

definition safe :: "string set \<Rightarrow> presence set \<Rightarrow> (string \<times> string) set \<Rightarrow> rstate \<Rightarrow> bool" where
  "safe N R K s \<longleftrightarrow> ledger_inv (x_ledger s) \<and> (\<forall>r0 \<in> R. \<exists>r \<in> set (l_rows (x_ledger s)). same_row r0 r) \<and>
     K \<subseteq> owned_keys (x_graph s) \<and> (\<forall>n \<in> set (rep_retired (x_report s)). n \<notin> N)"

text \<open>The rows \<open>R\<close> are not up for retirement, every module of the version in \<open>K\<close> has a present one among them, and what other runs
  write while modules are deleted carries a repository.\<close>

definition owned_writes :: "world \<Rightarrow> bool" where
  "owned_writes w \<longleftrightarrow> (\<forall>cl k. conc_owned (w_conc w cl k))"

definition spares :: "world \<Rightarrow> rconf \<Rightarrow> presence set \<Rightarrow> (string \<times> string) set \<Rightarrow> bool" where
  "spares w c R K \<longleftrightarrow> (\<forall>r \<in> R. \<not> may_retire (rc_v c) r) \<and>
     (\<forall>n. (n, rc_v c) \<in> K \<longrightarrow> (\<exists>r \<in> R. p_name r = n \<and> p_odoo_version r = rc_v c \<and> p_state r = St_present \<and> p_repo_id r \<noteq> None)) \<and>
     owned_writes w"

lemma safe_ledger: "safe N R K s \<Longrightarrow> rows_kept R (x_ledger s) l' \<Longrightarrow> safe N R K (s\<lparr>x_ledger := l'\<rparr>)"
  by (auto simp: safe_def rows_kept_def)

lemma safe_graph: "safe N R K s \<Longrightarrow> K \<subseteq> owned_keys g \<Longrightarrow> safe N R K (s\<lparr>x_graph := g\<rparr>)"
  by (simp add: safe_def)

lemma safe_owned: "safe N R K s \<Longrightarrow> K \<subseteq> owned_keys (x_graph s)"
  by (simp add: safe_def)

lemma safe_other [simp]:
  "safe N R K (s\<lparr>x_embeddings := es\<rparr>) = safe N R K s" "safe N R K (s\<lparr>x_attention := ms\<rparr>) = safe N R K s"
  "safe N R K (s\<lparr>x_assumed_synced := i\<rparr>) = safe N R K s" "safe N R K (s\<lparr>x_heads := h\<rparr>) = safe N R K s"
  by (simp_all add: safe_def)

lemma safe_lcall: "steps (rows_kept R) m \<Longrightarrow> post (safe N R K) (lcall w cl m) (\<lambda>_. True)"
  by (rule post_lcall) (rule safe_ledger, assumption, rule stepsD)

lemma safe_report: "(\<And>r. rep_retired (f r) = rep_retired r) \<Longrightarrow> post (safe N R K) (upd_report f) (\<lambda>_. True)"
  by (rule post_upd_report) (simp add: safe_def)

lemma safe_retired:
  "(\<And>n r. n \<in> set (rep_retired (f r)) \<Longrightarrow> n \<in> set (rep_retired r) \<or> n \<notin> N) \<Longrightarrow> post (safe N R K) (upd_report f) (\<lambda>_. True)"
  by (rule post_upd_report) (fastforce simp: safe_def)

lemma safe_attend: "post (safe N R K) (attend i text) (\<lambda>_. True)"
  by (cases i) (auto simp: attend_def intro!: post_ret post_modify)

lemma safe_gcall_graph:
  assumes "\<And>g. K \<subseteq> owned_keys g \<Longrightarrow> K \<subseteq> owned_keys (f g)" and "\<And>j g. K \<subseteq> owned_keys g \<Longrightarrow> K \<subseteq> owned_keys (h j g)"
  shows "post (safe N R K) (gcall w cl k (\<lambda>s. ((), s\<lparr>x_graph := f (x_graph s)\<rparr>)) (\<lambda>j s. s\<lparr>x_graph := h j (x_graph s)\<rparr>)) (\<lambda>_. True)"
  by (rule post_gcall) (auto intro!: safe_graph assms safe_owned)

lemmas safe_intros = post_intros safe_attend post_retrying

lemma safe_flush: "post (safe N R K) (flush_attention w c) (\<lambda>_. True)"
proof -
  have each: "post (safe N R K) (try_except (bindE (gets f) (\<lambda>parts. lcall w (Attention i) (set_lifecycle_attention i (g parts) now))) (\<lambda>_. Some (ret ()))) (\<lambda>_. True)"
    for f :: "rstate \<Rightarrow> 'b" and g i now
    by (rule post_try, rule post_bind [where Q = "\<lambda>_. True"], rule post_gets, simp, rule safe_lcall, rule kept_columns) (auto intro: post_ret)
  show ?thesis unfolding flush_attention_def
    by (rule post_if, simp add: post_ret, rule post_bind [where Q = "\<lambda>_. True"], simp add: post_gets, rule post_each, rule post_case_prod_arg, rule each)
qed

lemma safe_block: "(\<And>r. r \<in> set rows \<Longrightarrow> apart R r) \<Longrightarrow> post (safe N R K) (block w c rows reason) (\<lambda>_. True)"
  unfolding block_def apart_def by (intro post_if post_seq post_ret safe_lcall kept_blocked) fastforce+

lemma safe_error: "(\<And>r. r \<in> set rows \<Longrightarrow> apart R r) \<Longrightarrow> post (safe N R K) (record_error w c n rows e) (\<lambda>_. True)"
  unfolding record_error_def Let_def by (intro post_seq safe_report post_try safe_block post_each safe_attend) (auto intro: post_ret)

lemma safe_repo_head: "post (safe N R K) (repo_head w c i) (\<lambda>_. True)"
  unfolding repo_head_def
  by (intro post_case_option post_ret TrueI post_bind [where Q = "\<lambda>_. True"] post_gets post_sread post_seq post_modify) simp_all

lemma safe_commit_rows: "(\<And>r. r \<in> set rows \<Longrightarrow> apart R r) \<Longrightarrow> post (safe N R K) (commit_retired_rows w c rows) (\<lambda>_. True)"
  unfolding commit_retired_rows_def
  by (intro post_each post_bind [OF safe_repo_head] post_seq safe_lcall kept_commit_retired post_ret) simp_all

lemma safe_embeddings: "post (safe N R K) (delete_embeddings w c n profiles) (\<lambda>_. True)"
  unfolding delete_embeddings_def
  by (intro post_bind [where Q = "\<lambda>_. True"] post_retrying post_gcall safe_report) (auto split: prod.splits)

lemma safe_dependents: "post (safe N R K) (reset_dependents w c names excl) (\<lambda>_. True)"
  unfolding reset_dependents_def
  by (intro post_if post_ret TrueI post_bind [where Q = "\<lambda>_. True"] post_sread safe_lcall kept_reset safe_report) simp_all

lemma spares_writes: "spares w c R K \<Longrightarrow> owned_writes w"
  by (simp add: spares_def)

lemma safe_call_retire:
  assumes "owned_writes w" and "\<And>n. n \<in> set names \<Longrightarrow> (n, rc_v c) \<notin> K"
  shows "post (safe N R K) (call_retire w c cl names) (\<lambda>_. True)"
  unfolding call_retire_def
proof (intro post_retrying post_gcall)
  fix k j s assume s: "safe N R K s"
  have conc: "conc_owned (w_conc w cl k)" using assms(1) by (simp add: owned_writes_def)
  have K: "K \<inter> (\<lambda>n. (n, rc_v c)) ` set names = {}" using assms(2) by auto
  note kept = retire_modules_owned [OF conc safe_owned [OF s] K]
  show "safe N R K (s\<lparr>x_graph := retire_modules_partly (w_conc w cl k) j (rc_v c) names (rc_run_at c) (x_graph s)\<rparr>)" by (rule safe_graph [OF s kept(2)])
  obtain res g where r: "retire_modules (w_conc w cl k) (rc_v c) names (rc_run_at c) (w_now w) (x_graph s) = (res, g)" by fastforce
  show "safe N R K (snd (case retire_modules (w_conc w cl k) (rc_v c) names (rc_run_at c) (w_now w) (x_graph s) of (res, g) \<Rightarrow> (res, s\<lparr>x_graph := g\<rparr>))) \<and> True"
    using safe_graph [OF s kept(1), of "rc_run_at c" "w_now w"] by (simp add: r)
qed

lemma safe_count: "post (safe N R K) (count_deleted res) (\<lambda>_. True)"
  unfolding count_deleted_def by (rule safe_report) simp

lemma safe_call_drop: "post (safe N R K) (call_drop_owner w c cl n owners) (\<lambda>_. True)"
proof -
  let ?os = "map owner_of_row owners"
  have full: "K \<subseteq> owned_keys (the (drop_module_owner (rc_v c) n ?os (w_now w) g))" if "?os \<noteq> []" "K \<subseteq> owned_keys g" for g
    using that drop_module_owner_op [of "rc_v c" n ?os "w_now w" g _ K] by (simp add: drop_module_owner_def Let_def)
  have part: "K \<subseteq> owned_keys (run_stmts (take j (drop_owner_stmts (rc_v c) n ?os)) g)" if "K \<subseteq> owned_keys g" for j g
    by (rule graph_op.keeps_owned_trans [OF run_stmts_op [OF list_all_take [OF drop_owner_stmts_ops]] that])
  show ?thesis unfolding call_drop_owner_def Let_def by (intro post_retrying post_if post_raise safe_gcall_graph full part)
qed

lemma safe_hand_over: "post (safe N R K) (hand_over w c cl n owners gone) (\<lambda>_. True)"
  unfolding hand_over_def
  by (intro post_seq safe_call_drop post_if safe_embeddings post_ret TrueI post_each safe_lcall kept_rewrite)

lemma safe_drop_owner: "(\<And>r. r \<in> set rows \<Longrightarrow> apart R r) \<Longrightarrow> post (safe N R K) (drop_owner w c n rows owners) (\<lambda>_. True)"
  unfolding drop_owner_def Let_def
  by (intro post_seq post_if post_try_else [where Q = "\<lambda>_. True"] safe_report safe_hand_over safe_commit_rows safe_error) simp_all

lemma safe_undecided: "(\<And>r. r \<in> set rows \<Longrightarrow> apart R r) \<Longrightarrow> post (safe N R K) (undecided w c n rows bs) (\<lambda>_. True)"
  unfolding undecided_def Let_def by (intro post_seq safe_report safe_block post_each safe_attend) simp_all

text \<open>Names that may be retired: their rows are apart from the kept ones, and none of the kept modules has the name.\<close>

definition retirable_names :: "string \<Rightarrow> presence set \<Rightarrow> (string \<times> string) set \<Rightarrow> (string \<times> presence list) list \<Rightarrow> bool" where
  "retirable_names v R K ps \<longleftrightarrow> (\<forall>(n, rows) \<in> set ps. (n, v) \<notin> K \<and> (\<forall>r \<in> set rows. apart R r))"

lemma safe_retire:
  assumes sp: "spares w c R K" and ok: "retirable_names (rc_v c) R K ps"
  shows "post (safe {n. (n, rc_v c) \<in> K} R K) (retire w c ps) (\<lambda>_. True)"
proof -
  have names: "(n, rc_v c) \<notin> K" if "n \<in> set (map fst ps)" for n using ok that by (auto simp: retirable_names_def)
  have rows: "(n, rc_v c) \<notin> K \<and> (\<forall>r \<in> set rows. apart R r)" if "(n, rows) \<in> set ps" for n rows using ok that by (auto simp: retirable_names_def)
  have retired: "post (safe {n. (n, rc_v c) \<in> K} R K) (upd_report (\<lambda>r. r\<lparr>rep_retired := rep_retired r @ ns\<rparr>)) (\<lambda>_. True)"
    if "\<And>n. n \<in> set ns \<Longrightarrow> (n, rc_v c) \<notin> K" for ns
    by (rule safe_retired) (use that in auto)
  have one: "post (safe {n. (n, rc_v c) \<in> K} R K) (try_else (seqE (delete_embeddings w c n profiles) (commit_retired_rows w c rs)) (record_error w c n rs)
      (\<lambda>_. upd_report (\<lambda>r. r\<lparr>rep_retired := rep_retired r @ [n]\<rparr>))) (\<lambda>_. True)" if "(n, rs) \<in> set ps" for n rs profiles
    using rows [OF that] by (intro post_try_else [where Q = "\<lambda>_. True"] post_seq safe_embeddings safe_commit_rows safe_error retired) auto
  have skip: "post (safe {n. (n, rc_v c) \<in> K} R K) (seqE (upd_report (\<lambda>r. r\<lparr>rep_skipped_recent := rep_skipped_recent r @ [n]\<rparr>)) (block w c rs reason)) (\<lambda>_. True)"
    if "(n, rs) \<in> set ps" for n rs reason
    using rows [OF that] by (intro post_seq safe_report safe_block) auto
  have fail: "post (safe {n. (n, rc_v c) \<in> K} R K) (for_each ps () (\<lambda>(n, rs) _. record_error w c n rs e)) (\<lambda>_. True)" for e
    by (rule post_each, rule post_case_prod_arg, rule safe_error) (use rows in blast)
  have rest: "post (safe {n. (n, rc_v c) \<in> K} R K) (seqE (count_deleted res) (for_each ps () (\<lambda>(n, rs) _. if n \<in> set (rr_skipped_recent res)
       then seqE (upd_report (\<lambda>r. r\<lparr>rep_skipped_recent := rep_skipped_recent r @ [n]\<rparr>)) (block w c rs ''skipped_recent'')
       else try_else (seqE (delete_embeddings w c n (f n @ map p_profile_name rs)) (commit_retired_rows w c rs)) (record_error w c n rs)
         (\<lambda>_. upd_report (\<lambda>r. r\<lparr>rep_retired := rep_retired r @ [n]\<rparr>))))) (\<lambda>_. True)" for res f
    by (rule post_seq [OF safe_count], rule post_each, rule post_case_prod_arg, rule post_if, rule skip, blast, rule one, blast)
  show ?thesis unfolding retire_def Let_def
    by (rule post_if, rule retired, erule names, rule post_try_else [where Q = "\<lambda>_. True"], rule post_bind [where Q = "\<lambda>_. True"],
        simp add: post_sread, rule post_seq [OF safe_dependents], rule post_bind [OF safe_call_retire [OF spares_writes [OF sp] names]], assumption, simp add: post_ret,
        rule fail, rule post_case_prod, rule rest)
qed

subsection \<open>Pending names\<close>

lemma pending_apart:
  assumes sp: "spares w c R K" and s: "safe {n. (n, rc_v c) \<in> K} R K s" and r: "r \<in> set (l_rows (x_ledger s))" "may_retire (rc_v c) r"
  shows "apart R r"
  unfolding apart_def
proof (intro ballI conjI impI notI)
  fix r0 assume r0: "r0 \<in> R"
  then obtain r1 where r1: "r1 \<in> set (l_rows (x_ledger s))" "same_row r0 r1" using s by (auto simp: safe_def)
  have inv: "ledger_inv (x_ledger s)" using s by (simp add: safe_def)
  have ne: "r \<noteq> r1" using sp r0 r1(2) r(2) by (auto simp: spares_def may_retire_def same_row_def)
  { assume "p_id r = p_id r0"
    with unique_id [OF inv r(1) r1(1)] r1(2) ne show False by (simp add: same_row_def) }
  assume "p_repo_id r \<noteq> None" "p_repo_id r = p_repo_id r0 \<and> p_name r = p_name r0"
  with unique_key [OF inv r(1) r1(1)] r1(2) ne show False by (auto simp: same_row_def)
qed

lemma live_owner:
  assumes sp: "spares w c R K" and s: "safe {n. (n, rc_v c) \<in> K} R K s" and n: "(n, rc_v c) \<in> K"
    and rows: "\<And>r. r \<in> set rows \<Longrightarrow> p_name r = n \<and> apart R r"
  shows "surviving_owners (x_ledger s) (rc_v c) n (List.map_filter p_repo_id rows) \<noteq> []"
proof -
  obtain r0 where r0: "r0 \<in> R" "p_name r0 = n" "p_odoo_version r0 = rc_v c" "p_state r0 = St_present" "p_repo_id r0 \<noteq> None"
    using sp n by (auto simp: spares_def)
  obtain i where i: "p_repo_id r0 = Some i" using r0(5) by blast
  obtain r1 where r1: "r1 \<in> set (l_rows (x_ledger s))" "same_row r0 r1" using s r0(1) by (auto simp: safe_def)
  have "i \<notin> set (List.map_filter p_repo_id rows)"
  proof
    assume "i \<in> set (List.map_filter p_repo_id rows)"
    then obtain r where "r \<in> set rows" "p_repo_id r = Some i" by (auto simp: List.map_filter_def)
    with rows [of r] r0 i show False by (auto simp: apart_def)
  qed
  then have "r1 \<in> set (surviving_owners (x_ledger s) (rc_v c) n (List.map_filter p_repo_id rows))"
    using r1 r0 i by (auto simp: surviving_owners_def other_present_owners_def same_row_def)
  then show ?thesis by auto
qed

lemma safe_decide:
  assumes sp: "spares w c R K" and acc: "retirable_names (rc_v c) R K acc"
    and rows: "\<And>r. r \<in> set (eligible rows) \<Longrightarrow> p_name r = n \<and> apart R r"
  shows "post (safe {n. (n, rc_v c) \<in> K} R K) (decide_name w c n rows acc) (retirable_names (rc_v c) R K)"
proof -
  let ?I = "safe {n. (n, rc_v c) \<in> K} R K" and ?Q = "retirable_names (rc_v c) R K"
  have ap: "apart R r" if "r \<in> set (eligible rows)" for r using rows [OF that] by simp
  have held: "post ?I (if held_by rows = [] then ret () else upd_report (\<lambda>r. r\<lparr>rep_blocked := f r\<rparr>)) (\<lambda>_. True)" for f
    by (intro post_if post_ret safe_report) simp_all
  have no: "post ?I (upd_report (\<lambda>r. if n \<in> keys (rep_blocked r) then r else r\<lparr>rep_blocked := f r\<rparr>)) (\<lambda>_. True)" for f
    by (rule safe_report) simp
  have owners: "post ?I (sread w (Read_owners n) (\<lambda>s. surviving_owners (x_ledger s) (rc_v c) n (List.map_filter p_repo_id (eligible rows))))
      (\<lambda>owners. (n, rc_v c) \<in> K \<longrightarrow> owners \<noteq> [])"
    by (rule post_sread) (use live_owner [OF sp _ _ rows] in blast)
  have decided: "post ?I (if owners \<noteq> [] \<and> bs = [] then seqE (drop_owner w c n (eligible rows) owners) (ret acc)
      else if bs \<noteq> [] then seqE (undecided w c n (eligible rows) bs) (ret acc) else ret (acc @ [(n, eligible rows)])) ?Q"
    if "(n, rc_v c) \<in> K \<longrightarrow> owners \<noteq> []" for owners bs
  proof (intro post_if post_seq safe_drop_owner safe_undecided ap post_ret acc)
    assume "\<not> (owners \<noteq> [] \<and> bs = [])" "\<not> bs \<noteq> []"
    with that acc ap show "?Q (acc @ [(n, eligible rows)])" by (auto simp: retirable_names_def)
  qed
  show ?thesis unfolding decide_name_def Let_def
    by (rule post_seq [OF held], rule post_if, rule post_ret, rule acc, rule post_if, rule post_seq [OF no], rule post_ret, rule acc,
        rule post_bind [OF owners], rule post_bind [where Q = "\<lambda>_. True"], simp add: post_sread, rule decided)
qed

lemma safe_pending:
  assumes sp: "spares w c R K"
  shows "post (safe {n. (n, rc_v c) \<in> K} R K) (pending w c only) (\<lambda>_. True)"
proof -
  let ?Q = "\<lambda>rows. \<forall>r \<in> set rows. reconcile_may_retry (p_retire_blocked_by r) \<longrightarrow> apart R r"
  have read: "post (safe {n. (n, rc_v c) \<in> K} R K) (sread w Read_pending (\<lambda>s. filter P (pending_retirements (x_ledger s) (rc_v c)))) ?Q" for P
  proof (rule post_sread, intro ballI impI)
    fix s r assume s: "safe {n. (n, rc_v c) \<in> K} R K s" and r: "r \<in> set (filter P (pending_retirements (x_ledger s) (rc_v c)))"
      and may: "reconcile_may_retry (p_retire_blocked_by r)"
    from r have "r \<in> set (l_rows (x_ledger s))" "may_retire (rc_v c) r" using may by (auto simp: pending_retirements_def may_retire_def)
    then show "apart R r" by (rule pending_apart [OF sp s])
  qed
  have loop: "post (safe {n. (n, rc_v c) \<in> K} R K) (for_each ns [] (\<lambda>n. decide_name w c n (filter (\<lambda>r. p_name r = n) rows))) (retirable_names (rc_v c) R K)"
    if "?Q rows" for ns rows
    by (rule post_for_each, rule safe_decide [OF sp]) (use that in \<open>auto simp: eligible_def retirable_names_def\<close>)
  show ?thesis unfolding pending_def
    by (rule post_bind [OF read], rule post_bind, erule loop, rule post_if, simp add: post_ret, rule safe_retire [OF sp])
qed

subsection \<open>The other passes\<close>

lemma safe_excluded_name: "post (safe N R K) (drop_excluded_name w c node n rows) (\<lambda>_. True)"
  unfolding drop_excluded_name_def Let_def
  by (intro post_case_option post_ret TrueI post_bind [where Q = "\<lambda>_. True"] post_sread post_if post_seq safe_report post_try_else [where Q = "\<lambda>_. True"] safe_hand_over)
    (simp_all add: excluded_waits_def excluded_leaves_def)

lemma safe_excluded: "post (safe N R K) (drop_excluded_owners w c) (\<lambda>_. True)"
proof -
  have loop: "post (safe N R K) (for_each xs () (\<lambda>(n, node) _. drop_excluded_name w c node n (f n))) (\<lambda>_. True)" for xs f
    by (rule post_each, rule post_case_prod_arg, rule safe_excluded_name)
  show ?thesis unfolding drop_excluded_owners_def Let_def
    by (rule post_bind [where Q = "\<lambda>_. True"], simp add: post_sread, rule post_if, simp add: post_ret,
        rule post_bind [where Q = "\<lambda>_. True"], simp add: post_sread, rule loop)
qed

lemma safe_advance: "post (safe N R K) (advance_presence w c advance) (\<lambda>_. True)"
proof -
  have loop: "post (safe N R K) (for_each xs () (\<lambda>(i, head) _. if Some i \<in> set still \<or> head = [] then ret ()
      else seqE (if execute c then lcall w (Synced i) (mark_presence_synced i head) else modify (\<lambda>s. s\<lparr>x_assumed_synced := i # x_assumed_synced s\<rparr>))
        (upd_report (\<lambda>r. r\<lparr>rep_presence_advanced := rep_presence_advanced r @ [i]\<rparr>)))) (\<lambda>_. True)" for xs still
    by (rule post_each, rule post_case_prod_arg, intro post_if post_seq post_ret TrueI safe_lcall kept_columns safe_report post_modify) simp_all
  show ?thesis unfolding advance_presence_def Let_def
    by (rule post_if, simp add: post_ret, rule post_bind [where Q = "\<lambda>_. True"], simp add: post_sread, rule post_case_prod, rule loop)
qed

lemma safe_deferrals: "post (safe N R K) (resolve_prune_deferrals w c) (\<lambda>_. True)"
proof -
  let ?step = "\<lambda>(n, owner, waits_for) _. bindE (sread w (Read_owners n) (\<lambda>s. other_present_owners (x_ledger s) n (rc_v c) (Some owner))) (\<lambda>others.
      if others \<noteq> [] then ret () else seqE (upd_report (\<lambda>r. r\<lparr>rep_prune_rewrites := rep_prune_rewrites r @ [n]\<rparr>))
        (if execute c then seqE (lcall w (Rewrite owner n) (mark_needs_rewrite owner n (w_clk w) (w_now w))) (ret ()) else ret ()))"
  have loop: "post (safe N R K) (for_each (xs :: (string \<times> int \<times> int list) list) () ?step) (\<lambda>_. True)" for xs
    by (rule post_each, rule post_case_prod_arg, rule post_case_prod_arg, rule post_bind [where Q = "\<lambda>_. True"], simp add: post_sread,
        intro post_if post_seq post_ret TrueI safe_report safe_lcall kept_rewrite) simp
  have clear: "post (safe N R K) (gcall w Clear_deferrals 1 (\<lambda>s. ((), s\<lparr>x_graph := clear_module_prune_deferred u ns (x_graph s)\<rparr>))
      (\<lambda>j s. if j = 0 then s else s\<lparr>x_graph := clear_module_prune_deferred u ns (x_graph s)\<rparr>)) (\<lambda>_. True)" for u ns
    by (rule post_gcall) (auto intro!: safe_graph clear_deferred_op.keeps_owned_trans safe_owned)
  show ?thesis unfolding resolve_prune_deferrals_def Let_def
    by (rule post_bind [where Q = "\<lambda>_. True"], simp add: post_sread, rule post_if, simp add: post_ret,
        rule post_bind [where Q = "\<lambda>_. True"], simp add: post_sread, rule post_case_prod, rule post_seq, rule loop, rule post_if, simp add: post_ret, rule clear)
qed

subsection \<open>The sweep\<close>

lemma live_is_present:
  assumes sp: "spares w c R K" and s: "safe {n. (n, rc_v c) \<in> K} R K s" and n: "(n, rc_v c) \<in> K"
  shows "n \<in> set (present_list (x_ledger s) (rc_v c))" and "n \<notin> set (rep_retired (x_report s))"
proof -
  obtain r0 where r0: "r0 \<in> R" "p_name r0 = n" "p_odoo_version r0 = rc_v c" "p_state r0 = St_present" using sp n by (auto simp: spares_def)
  obtain r1 where r1: "r1 \<in> set (l_rows (x_ledger s))" "same_row r0 r1" using s r0(1) by (auto simp: safe_def)
  have "p_name r1 = n" "p_odoo_version r1 = rc_v c" "p_state r1 = St_present" using r1(2) r0 by (simp_all add: same_row_def)
  with r1(1) show "n \<in> set (present_list (x_ledger s) (rc_v c))" by (auto simp: present_list_def)
  show "n \<notin> set (rep_retired (x_report s))" using s n by (auto simp: safe_def)
qed

definition sweeps_no_live :: "string \<Rightarrow> (string \<times> string) set \<Rightarrow> sweep_view \<Rightarrow> bool" where
  "sweeps_no_live v K sv \<longleftrightarrow> (\<forall>n. (n, v) \<in> K \<longrightarrow> n \<notin> fst ` set (sv_orphans sv) \<and> n \<notin> set (sv_child_keys sv))"

lemma orphan_names_absent: "n \<in> set (orphan_module_names g v present repo) \<Longrightarrow> n \<notin> present"
  by (auto simp: orphan_module_names_def)

lemma read_sweep_live:
  assumes sp: "spares w c R K" and s: "safe {n. (n, rc_v c) \<in> K} R K s"
  shows "sweeps_no_live (rc_v c) K (read_sweep c s)"
  unfolding sweeps_no_live_def
proof (intro allI impI)
  fix n assume n: "(n, rc_v c) \<in> K"
  note present = live_is_present [OF sp s n]
  let ?present = "filter (\<lambda>m. m \<notin> set (rep_retired (x_report s))) (present_list (x_ledger s) (rc_v c))"
  have p: "n \<in> set ?present" using present by simp
  then have "n \<notin> set (orphan_module_names (x_graph s) (rc_v c) (set ?present) None)" using orphan_names_absent by blast
  with p show "n \<notin> fst ` set (sv_orphans (read_sweep c s)) \<and> n \<notin> set (sv_child_keys (read_sweep c s))"
    by (simp only: read_sweep_def Let_def sweep_view.simps set_map image_image fst_conv image_ident set_filter mem_Collect_eq) simp
qed

lemma swept_targets:
  assumes "sweeps_no_live v K sv"
  shows "n \<in> set (swept_orphans w c sv) \<Longrightarrow> (n, v) \<notin> K" and "n \<in> set (swept_children w c sv) \<Longrightarrow> (n, v) \<notin> K"
  using assms by (force simp: sweeps_no_live_def swept_orphans_def decidable_orphans_def, auto simp: sweeps_no_live_def swept_children_def split: if_splits)

lemma safe_hold: "post (safe N R K) (hold_groups c repos ps pairs groups lost) (\<lambda>_. True)"
  unfolding hold_groups_def Let_def by (intro post_seq safe_report post_each safe_attend) simp

lemma safe_embedding_orphans: "post (safe N R K) (embedding_orphans w c ps repos del) (\<lambda>_. True)"
proof -
  have loop: "post (safe N R K) (for_each (xs :: (string \<times> string \<times> nat) list) () (\<lambda>(m, p, _) _. try_else (delete_embeddings w c m [p])
      (\<lambda>e. upd_report (\<lambda>r. r\<lparr>rep_errors := f m p e r\<rparr>)) ret)) (\<lambda>_. True)" for xs f
    by (rule post_each, rule post_case_prod_arg, rule post_case_prod_arg, intro post_try_else [where Q = "\<lambda>_. True"] safe_embeddings safe_report post_ret) simp_all
  show ?thesis unfolding embedding_orphans_def Let_def
    by (rule post_bind [where Q = "\<lambda>_. True"], simp add: post_sread, rule post_case_prod, rule post_case_prod, rule post_case_prod,
        rule post_if, simp add: post_ret, rule post_if, rule safe_hold, rule post_seq, rule safe_report, simp, rule post_if, simp add: post_ret, rule loop)
qed

lemma safe_record_orphan: "post (safe N R K) (record_orphan w c repos present n node) (\<lambda>_. True)"
  unfolding record_orphan_def
  by (rule post_bind [where Q = "\<lambda>_. True"], simp add: post_gets)
    (auto split: sum.splits option.splits prod.splits intro!: post_raise post_ret post_bind [where Q = "\<lambda>_. True"] safe_lcall kept_orphan post_if safe_report)

lemma safe_sweep_orphan: "post (safe N R K) (sweep_orphan w c sv n) (\<lambda>_. True)"
  unfolding sweep_orphan_def Let_def
  by (intro post_try_else [where Q = "\<lambda>_. True"] post_seq post_if post_ret TrueI safe_embeddings safe_record_orphan safe_report) simp_all

lemma safe_evidence: "post (safe N R K) (report_evidence w c sv) (\<lambda>_. True)"
  unfolding report_evidence_def
  by (rule post_each, rule post_case_prod_arg, rule post_bind [where Q = "\<lambda>_. True"], simp add: post_gets)
    (auto split: sum.splits option.splits prod.splits intro!: post_raise post_ret safe_report)

lemma safe_attend_blocking: "post (safe N R K) (attend_blocking c sv) (\<lambda>_. True)"
  unfolding attend_blocking_def Let_def by (intro post_seq post_each post_if post_ret TrueI safe_attend)

lemma safe_execute_sweep:
  assumes sp: "owned_writes w" and sv: "\<And>n. n \<in> set (swept_orphans w c sv) \<union> set (swept_children w c sv) \<Longrightarrow> (n, rc_v c) \<notin> K"
  shows "post (safe N R K) (execute_sweep w c sv) (\<lambda>_. True)"
proof -
  let ?targets = "sort (remdups (swept_orphans w c sv @ swept_children w c sv))"
  have call: "post (safe N R K) (seqE (reset_dependents w c (swept_orphans w c sv) []) (call_retire w c Retire_orphans ?targets)) (\<lambda>_. True)"
    by (rule post_seq [OF safe_dependents safe_call_retire [OF sp]]) (use sv in auto)
  have tried: "post (safe N R K) (try_except (bindE (seqE (reset_dependents w c (swept_orphans w c sv) []) (call_retire w c Retire_orphans ?targets)) (\<lambda>res. ret (Some res)))
      (\<lambda>e. Some (seqE (upd_report (\<lambda>r. r\<lparr>rep_errors := f e r\<rparr>)) (ret None)))) (\<lambda>_. True)" for f
    by (rule post_try, rule post_bind [OF call], simp add: post_ret) (auto intro!: post_seq safe_report post_ret)
  show ?thesis unfolding execute_sweep_def Let_def
    by (rule post_if, simp add: post_ret, rule post_bind [OF tried], rule post_case_option, simp add: post_ret,
        intro post_seq safe_count post_each post_if post_ret TrueI safe_sweep_orphan safe_report) simp
qed

lemma safe_sweep_view:
  assumes "owned_writes w" and "\<And>n. n \<in> set (swept_orphans w c sv) \<union> set (swept_children w c sv) \<Longrightarrow> (n, rc_v c) \<notin> K"
  shows "post (safe N R K) (sweep_on w c sv) (\<lambda>_. True)"
proof -
  have report: "rep_retired (sweep_report w c sv r) = rep_retired r" for r by (simp add: sweep_report_def Let_def)
  show ?thesis unfolding sweep_on_def
    by (intro post_seq safe_attend_blocking safe_report report post_if safe_evidence post_ret TrueI safe_embedding_orphans
        post_bind [where Q = "\<lambda>_. True"] safe_execute_sweep assms) simp_all
qed

lemma safe_sweep:
  assumes sp: "spares w c R K"
  shows "post (safe {n. (n, rc_v c) \<in> K} R K) (sweep w c) (\<lambda>_. True)"
proof -
  have read: "post (safe {n. (n, rc_v c) \<in> K} R K) (sread w Orphans (read_sweep c)) (sweeps_no_live (rc_v c) K)"
    by (rule post_sread) (rule read_sweep_live [OF sp])
  show ?thesis unfolding sweep_def
    by (rule post_bind [OF read], rule safe_sweep_view [OF spares_writes [OF sp]]) (use swept_targets in blast)
qed

lemma safe_residue:
  assumes sp: "spares w c R K"
  shows "post (safe {n. (n, rc_v c) \<in> K} R K) (sweep_removed_repo_residue w c basenames ids profiles) (\<lambda>_. True)"
proof -
  let ?ok = "\<lambda>rv. \<forall>n \<in> set (residue_names rv). (n, rc_v c) \<notin> K"
  have ok: "?ok (read_residue c basenames ids profiles s)" if s: "safe {n. (n, rc_v c) \<in> K} R K s" for s
  proof
    fix n assume "n \<in> set (residue_names (read_residue c basenames ids profiles s))"
    then obtain b where "n \<in> set (orphan_module_names (x_graph s) (rc_v c) (set (present_list (x_ledger s) (rc_v c))) (Some b))"
      by (auto simp: residue_names_def read_residue_def Let_def)
    then have "n \<notin> set (present_list (x_ledger s) (rc_v c))" by (rule orphan_names_absent)
    with live_is_present(1) [OF sp s] show "(n, rc_v c) \<notin> K" by blast
  qed
  have read: "post (safe {n. (n, rc_v c) \<in> K} R K) (sread w Orphans (read_residue c basenames ids profiles)) ?ok"
    by (rule post_sread) (rule ok)
  have call: "post (safe {n. (n, rc_v c) \<in> K} R K) (seqE (reset_dependents w c (residue_names rv) []) (call_retire w c Retire_residue (residue_names rv))) (\<lambda>_. True)"
    if "?ok rv" for rv
    by (rule post_seq [OF safe_dependents safe_call_retire [OF spares_writes [OF sp]]]) (use that in blast)
  have rest: "post (safe {n. (n, rc_v c) \<in> K} R K) (seqE (count_deleted res) (for_each ns () (\<lambda>n _.
      if n \<in> set (rr_skipped_recent res) then upd_report (\<lambda>r. r\<lparr>rep_skipped_recent := rep_skipped_recent r @ [n]\<rparr>)
      else try_else (delete_embeddings w c n (p n)) (\<lambda>e. upd_report (\<lambda>r. r\<lparr>rep_errors := f n e r\<rparr>))
        (\<lambda>_. upd_report (\<lambda>r. r\<lparr>rep_orphans_swept := rep_orphans_swept r @ [n]\<rparr>))))) (\<lambda>_. True)" for res ns p f
    by (intro post_seq safe_count post_each post_if safe_report post_try_else [where Q = "\<lambda>_. True"] safe_embeddings) simp_all
  show ?thesis unfolding sweep_removed_repo_residue_def Let_def
    by (rule post_if, simp add: post_ret, rule post_bind [OF read], rule post_seq, rule safe_report, simp, rule post_if, rule safe_report, simp,
        rule post_try_else [where Q = "\<lambda>_. True"], erule call, rule safe_report, simp, rule rest)
qed

lemma gc_stubs_owned: "owned_keys (gc_null_repo_dep_stubs v g) = owned_keys g"
  by (auto simp: owned_keys_def gc_null_repo_dep_stubs_def delete_modules_where_def)

lemma safe_gcs: "post (safe N R K) (global_gcs w c b) (\<lambda>_. True)"
proof -
  have other: "post (safe N R K) (retrying (\<lambda>k. gcall w (Gc i) k (\<lambda>s. ((), s)) (\<lambda>_ s. s))) (\<lambda>_. True)" for i
    by (intro post_retrying post_gcall) simp_all
  have stubs: "post (safe N R K) (retrying (\<lambda>k. gcall w (Gc i) k (\<lambda>s. ((), s\<lparr>x_graph := gc_null_repo_dep_stubs u (x_graph s)\<rparr>))
      (\<lambda>j s. if j = 0 then s else s\<lparr>x_graph := gc_null_repo_dep_stubs u (x_graph s)\<rparr>))) (\<lambda>_. True)" for i u
    by (intro post_retrying post_gcall) (simp_all add: safe_graph gc_stubs_owned safe_owned)
  show ?thesis unfolding global_gcs_def Let_def
    by (intro post_if post_ret TrueI post_seq other post_try_else [where Q = "\<lambda>_. True"] safe_report stubs) simp_all
qed

lemma safe_relink: "post (safe N R K) (relink_inherits w c) (\<lambda>_. True)"
  unfolding relink_inherits_def
  by (rule post_bind [where Q = "\<lambda>_. True"], simp add: post_gets, intro post_if post_ret TrueI post_retrying post_gcall) simp_all

subsection \<open>Swept means proven gone\<close>

text \<open>What git has to prove of a name: no present row and no unparseable one, and every repository of the version that may have
  written it is synced and, unless a scan has excluded the module, readable with no manifest of the name in its HEAD tree.\<close>

definition proven_gone :: "world \<Rightarrow> rconf \<Rightarrow> rstate \<Rightarrow> string \<Rightarrow> bool" where
  "proven_gone w c s n \<longleftrightarrow>
     (let v = rc_v c; l = x_ledger s in
      n \<notin> ledger_present_names l v - set (rep_retired (x_report s)) \<and> n \<notin> ledger_excluded_names l v [Unparseable] \<and>
      (\<forall>(r, ok) \<in> set (repo_sync_state l v).
         (case module_node_of (x_graph s) v n of None \<Rightarrow> True | Some m \<Rightarrow> r_profile_name r \<in> set (g_profile m) \<or> g_repo_id m = Some (r_id r)) \<longrightarrow>
         (ok \<or> r_id r \<in> set (x_assumed_synced s)) \<and>
         (n \<in> ledger_excluded_names l v [Installable_false, License_skip] \<or> (\<exists>ns. head_shipped_names w v r = Some ns \<and> n \<notin> set ns))))"

lemma no_claim:
  assumes "checkout_claim w v rows n = None" and "r \<in> set rows"
  shows "\<exists>ns. head_shipped_names w v r = Some ns \<and> n \<notin> set ns"
proof -
  have "find (\<lambda>r. case head_shipped_names w v r of None \<Rightarrow> True | Some ns \<Rightarrow> n \<in> set ns) rows = None"
    using assms(1) by (cases "find (\<lambda>r. case head_shipped_names w v r of None \<Rightarrow> True | Some ns \<Rightarrow> n \<in> set ns) rows") (simp_all add: checkout_claim_def)
  then show ?thesis using assms(2) by (auto simp: find_None_iff split: option.splits)
qed

lemma present_list_names: "set (present_list l v) = ledger_present_names l v"
  by (simp add: present_list_def ledger_present_names_def)

lemma orphan_has_node: "n \<in> set (orphan_module_names g v present repo) \<Longrightarrow> module_node_of g v n \<noteq> None"
  unfolding node_of_keys by (auto simp: orphan_module_names_def node_keys_def node_key_def image_iff)

lemma orphan_proven:
  assumes "n \<in> set (swept_orphans w c (read_sweep c s))" and "\<not> rc_mass c"
  shows "proven_gone w c s n"
proof -
  let ?v = "rc_v c" and ?l = "x_ledger s" and ?g = "x_graph s" and ?sv = "read_sweep c s"
  let ?present = "filter (\<lambda>m. m \<notin> set (rep_retired (x_report s))) (present_list ?l ?v)"
  obtain node where o1: "(n, node) \<in> set (sv_orphans ?sv)" "unsynced_claims (sv_blocking ?sv) node = []" "orphan_claim w c ?sv (n, node) = None"
    using assms by (auto simp: swept_orphans_def decidable_orphans_def)
  have orphan: "node = module_node_of ?g ?v n" "n \<in> set (orphan_module_names ?g ?v (set ?present) None)" "n \<notin> ledger_excluded_names ?l ?v [Unparseable]"
    using o1(1) by (auto simp: read_sweep_def Let_def)
  obtain m where m: "node = Some m" using orphan_has_node [OF orphan(2)] orphan(1) by auto
  have fields: "sv_repos ?sv = map fst (repo_sync_state ?l ?v)" "sv_blocking ?sv = blocking_repos (repo_sync_state ?l ?v) (x_assumed_synced s)"
    "sv_exempt ?sv = ledger_excluded_names ?l ?v [Installable_false, License_skip]"
    by (simp_all add: read_sweep_def Let_def)
  have "(ok \<or> r_id r \<in> set (x_assumed_synced s)) \<and> (n \<in> sv_exempt ?sv \<or> (\<exists>ns. head_shipped_names w ?v r = Some ns \<and> n \<notin> set ns))"
    if r: "(r, ok) \<in> set (repo_sync_state ?l ?v)" and owns: "r_profile_name r \<in> set (g_profile m) \<or> g_repo_id m = Some (r_id r)" for r ok
  proof
    show "ok \<or> r_id r \<in> set (x_assumed_synced s)"
    proof (rule ccontr)
      assume "\<not> (ok \<or> r_id r \<in> set (x_assumed_synced s))"
      then have "r \<in> set (sv_blocking ?sv)" using r by (force simp: fields blocking_repos_def)
      then have "r_profile_name r \<in> set (unsynced_claims (sv_blocking ?sv) node)" using owns by (auto simp: unsynced_claims_def m)
      then show False using o1(2) by simp
    qed
    have "r \<in> set (owning_checkouts (sv_repos ?sv) (Some m))" using r owns by (force simp: owning_checkouts_def fields Let_def)
    then show "n \<in> sv_exempt ?sv \<or> (\<exists>ns. head_shipped_names w ?v r = Some ns \<and> n \<notin> set ns)"
      using o1(3) no_claim [of w ?v "owning_checkouts (sv_repos ?sv) (Some m)" n r] by (auto simp: orphan_claim_def m split: if_splits)
  qed
  then show ?thesis
    using orphan_names_absent [OF orphan(2)] orphan(3)
    by (auto simp: proven_gone_def Let_def orphan(1) [symmetric] m fields present_list_names)
qed

lemma child_proven:
  assumes "n \<in> set (swept_children w c (read_sweep c s))" and "\<not> rc_mass c"
  shows "proven_gone w c s n"
proof -
  let ?v = "rc_v c" and ?l = "x_ledger s" and ?sv = "read_sweep c s"
  have n: "n \<in> set (sv_child_keys ?sv)" "child_claim w c ?sv n = None" "sv_blocking ?sv = []"
    using assms by (auto simp: swept_children_def split: if_splits)
  have keys: "n \<in> set (orphan_child_keys (x_graph s) ?v)" "n \<notin> ledger_present_names ?l ?v - set (rep_retired (x_report s))" "n \<notin> ledger_excluded_names ?l ?v [Unparseable]"
    using n(1) by (auto simp: read_sweep_def Let_def present_list_names)
  have fields: "sv_repos ?sv = map fst (repo_sync_state ?l ?v)" "sv_blocking ?sv = blocking_repos (repo_sync_state ?l ?v) (x_assumed_synced s)"
    "sv_exempt ?sv = ledger_excluded_names ?l ?v [Installable_false, License_skip]"
    by (simp_all add: read_sweep_def Let_def)
  have "ok \<or> r_id r \<in> set (x_assumed_synced s)" if "(r, ok) \<in> set (repo_sync_state ?l ?v)" for r ok
    using n(3) that by (auto simp: fields blocking_repos_def filter_empty_conv)
  moreover have "n \<in> sv_exempt ?sv \<or> (\<exists>ns. head_shipped_names w ?v r = Some ns \<and> n \<notin> set ns)" if "(r, ok) \<in> set (repo_sync_state ?l ?v)" for r ok
  proof -
    have "r \<in> set (sv_repos ?sv)" using that by (force simp: fields)
    then show ?thesis using n(2) no_claim [of w ?v "sv_repos ?sv" n r] by (auto simp: child_claim_def split: if_splits)
  qed
  ultimately show ?thesis using keys by (auto simp: proven_gone_def Let_def fields(3))
qed

text \<open>C16. The orphan sweep, without the mass override: a Module node that carries a repository and is gone after the sweep, whether it returned or
  raised half way and whatever other runs wrote meanwhile, is of the version being reconciled and was proven gone by ledger and git:
  the ledger had it neither present nor unparseable, and every repository that may have written it was synced and readable and ships no
  manifest of the name, unless a scan had excluded the module. Module nodes that carry profiles but no repository, from before the ledger,
  and the nodes below a module are not covered; with the override the sweep also deletes what git cannot prove gone.\<close>

theorem sweep_only_proven:
  assumes "ledger_inv (x_ledger s)" and "owned_writes w" and "\<not> rc_mass c" and "sweep w c s = (res, s')"
  shows "owned_keys (x_graph s) - owned_keys (x_graph s') \<subseteq> {(n, rc_v c) | n. proven_gone w c s n}"
proof -
  define K where "K = owned_keys (x_graph s) - {(n, rc_v c) | n. proven_gone w c s n}"
  have safe: "safe {} {} K s" using assms(1) by (auto simp: safe_def K_def)
  have gone: "(n, rc_v c) \<notin> K" if "n \<in> set (swept_orphans w c (read_sweep c s)) \<union> set (swept_children w c (read_sweep c s))" for n
    using that orphan_proven [OF _ assms(3)] child_proven [OF _ assms(3)] by (auto simp: K_def)
  have "safe {} {} K s'"
  proof (cases "w_fault w Orphans 1")
    case None
    then have "sweep_on w c (read_sweep c s) s = (res, s')" using assms(4) by (simp add: sweep_def bindE_def sread_def)
    moreover have "post (safe {} {} K) (sweep_on w c (read_sweep c s)) (\<lambda>_. True)" by (rule safe_sweep_view [OF assms(2)]) (rule gone)
    ultimately show ?thesis using safe postD by metis
  next
    case (Some e)
    then show ?thesis using assms(4) safe by (auto simp: sweep_def bindE_def sread_def split: prod.splits)
  qed
  then show ?thesis using safe_owned [of "{}" "{}" K s'] by (auto simp: K_def)
qed

subsection \<open>The two entry points\<close>

text \<open>The prune of shared modules deletes below the Module nodes, notes on them what it did, and flags rows for a rewrite.\<close>

interpretation prune_label_op: graph_op "prune_label m xmlids ids label"
  for m xmlids ids label
  by unfold_locales (simp_all add: prune_label_def delete_children_where_def node_keys_def owned_keys_def)

interpretation prune_rels_op: graph_op "prune_rels m sw xmlids ids label"
  for m sw xmlids ids label
  by unfold_locales (simp_all add: prune_rels_def cut_rels_def node_keys_def owned_keys_def)

lemma prune_stmts_ops: "list_all graph_op (prune_node_stmts m xmlids ids)" "list_all graph_op (prune_rel_stmts m sw xmlids rel_ids)"
    "list_all graph_op (prune_stmts m sw ids rel_ids g)"
proof -
  show *: "list_all graph_op (prune_node_stmts m xmlids ids)" "list_all graph_op (prune_rel_stmts m sw xmlids rel_ids)" for xmlids
    by (auto simp: prune_node_stmts_def prune_rel_stmts_def list_all_iff prune_label_op.graph_op_axioms prune_rels_op.graph_op_axioms)
  show "list_all graph_op (prune_stmts m sw ids rel_ids g)" by (simp add: prune_stmts_def Let_def *)
qed

lemma prune_module_owned: "K \<subseteq> owned_keys g \<Longrightarrow> K \<subseteq> owned_keys (snd (prune_module_children m sw ids rel_ids now g))"
  using graph_op.keeps_owned_trans [OF run_stmts_op [OF prune_stmts_ops(2)] graph_op.keeps_owned_trans [OF run_stmts_op [OF prune_stmts_ops(1)]]]
  by (simp add: prune_module_children_def Let_def)

lemma set_module_owned:
  assumes "\<And>x. node_key (f x) = node_key x \<and> g_repo_id (f x) = g_repo_id x" and "K \<subseteq> owned_keys g"
  shows "K \<subseteq> owned_keys (set_module v n f g)"
proof -
  let ?f = "\<lambda>x. if node_key x = (n, v) then f x else x"
  have "owned_keys g \<subseteq> owned_keys (set_module v n f g)"
    unfolding owned_keys_def set_module_def using assms(1)
    by simp (rule map_key_filter [where k = node_key and f = ?f and P = "\<lambda>m. \<exists>y. g_repo_id m = Some y", simplified], simp_all)
  with assms(2) show ?thesis by blast
qed

lemma safe_set_call: "(\<And>g. K \<subseteq> owned_keys g \<Longrightarrow> K \<subseteq> owned_keys (f g)) \<Longrightarrow> post (safe N R K) (set_call w cl f) (\<lambda>_. True)"
  unfolding set_call_def by (rule post_gcall) (simp_all add: safe_graph safe_owned)

lemma safe_gap: "post (safe N R K) (record_shared_gap w c n owners cs judged) (\<lambda>_. True)"
  unfolding record_shared_gap_def record_module_parser_gap_def clear_module_parser_gap_def
  by (intro post_if post_ret TrueI post_case_option safe_set_call set_module_owned) (simp_all add: node_key_def)

lemma safe_settle: "post (safe N R K) (settle_shared w sw c n owners m state) (\<lambda>_. True)"
  unfolding settle_shared_def Let_def record_shared_prune_def
  by (intro post_bind [where Q = "\<lambda>_. True"] post_sread post_seq post_if post_ret TrueI safe_report post_each safe_lcall kept_rewrite safe_set_call set_module_owned)
    (simp_all add: node_key_def)

lemma safe_shared_embeddings: "post (safe N R K) (shared_stale_embeddings w c n marks keep delete) (\<lambda>_. True)"
  unfolding shared_stale_embeddings_def Let_def by (intro post_retrying post_gcall) simp_all

lemma safe_shared_module: "post (safe N R K) (prune_shared_module w sw c n m embedded expected judged keep) (\<lambda>_. True)"
proof -
  have nodes: "post (safe N R K) (retrying (\<lambda>k. gcall w cl k
      (\<lambda>s. case prune_module_children m sw ids rel_ids (w_now w) (x_graph s) of (d, g) \<Rightarrow> (d, s\<lparr>x_graph := g\<rparr>))
      (\<lambda>i s. s\<lparr>x_graph := run_stmts (take i (prune_stmts m sw ids rel_ids (x_graph s))) (x_graph s)\<rparr>))) (\<lambda>_. True)" for cl ids rel_ids
  proof (intro post_retrying post_gcall)
    fix i s assume s: "safe N R K s"
    show "safe N R K (s\<lparr>x_graph := run_stmts (take i (prune_stmts m sw ids rel_ids (x_graph s))) (x_graph s)\<rparr>)"
      by (rule safe_graph [OF s graph_op.keeps_owned_trans [OF run_stmts_op [OF list_all_take [OF prune_stmts_ops(3)]] safe_owned [OF s]]])
    show "safe N R K (snd (case prune_module_children m sw ids rel_ids (w_now w) (x_graph s) of (d, g) \<Rightarrow> (d, s\<lparr>x_graph := g\<rparr>))) \<and> True"
      using safe_graph [OF s prune_module_owned [OF safe_owned [OF s], of m sw ids rel_ids "w_now w"]] by (simp add: case_prod_beta)
  qed
  show ?thesis unfolding prune_shared_module_def
    by (intro post_bind [where Q = "\<lambda>_. True"] post_case_option post_ret TrueI post_if safe_shared_embeddings nodes safe_report) simp_all
qed

lemma safe_act: "post (safe N R K) (act_shared w sw c n owners m state cs judged k) (\<lambda>_. True)"
  unfolding act_shared_def Let_def
  by (intro post_if post_seq safe_gap safe_settle safe_report post_try safe_shared_module) (auto intro!: safe_report)

lemma safe_judge: "post (safe N R K) (judge_and_act w sw c n owners m state) (\<lambda>_. True)"
  unfolding judge_and_act_def
  by (intro post_bind [where Q = "\<lambda>_. True"] post_sread post_if post_ret TrueI post_case_option safe_shared_embeddings safe_act)

lemma safe_shared_name: "post (safe N R K) (prune_shared_name w sw c applied p) (\<lambda>_. True)"
  unfolding prune_shared_name_def Let_def case_prod_beta
  by (intro post_bind [where Q = "\<lambda>_. True"] post_sread post_if post_ret TrueI safe_judge post_seq safe_report post_each safe_attend) simp_all

lemma safe_prune_shared: "post (safe N R K) (prune_shared w sw c) (\<lambda>_. True)"
  unfolding prune_shared_def by (intro post_bind [where Q = "\<lambda>_. True"] post_sread post_if post_ret TrueI post_each safe_shared_name)

lemma safe_version:
  assumes sp: "spares w c R K"
  shows "post (safe {n. (n, rc_v c) \<in> K} R K) (reconcile_version w sw c advance gc run_sweep) (\<lambda>_. True)"
  unfolding reconcile_version_def
  by (intro post_seq safe_pending [OF sp] safe_excluded safe_advance safe_deferrals safe_prune_shared post_if post_bind [OF safe_sweep [OF sp]] safe_gcs
      post_ret TrueI safe_relink safe_flush post_gets)

lemma safe_removed:
  assumes "spares w (removal_conf v run_at) R K"
  shows "post (safe {n. (n, v) \<in> K} R K) (reconcile_removed_repos w v run_at names basenames ids profiles) (\<lambda>_. True)"
proof -
  have v: "rc_v (removal_conf v run_at) = v" by (simp add: removal_conf_def)
  show ?thesis unfolding reconcile_removed_repos_def Let_def
    by (intro post_seq safe_pending [OF assms, unfolded v] safe_deferrals safe_residue [OF assms, unfolded v] safe_relink safe_flush post_gets TrueI)
qed

text \<open>The modules a reconcile has to leave alone: those with a present row of a repository that is not up for retirement, because it is not
  flagged or because its flag is held by a gate; and everything of another version.\<close>

definition live_modules :: "ledger \<Rightarrow> graph \<Rightarrow> string \<Rightarrow> (string \<times> string) set" where
  "live_modules l g v = {(n, u) \<in> owned_keys g. u \<noteq> v \<or>
     (\<exists>r \<in> set (l_rows l). \<not> may_retire v r \<and> p_name r = n \<and> p_odoo_version r = v \<and> p_state r = St_present \<and> p_repo_id r \<noteq> None)}"

lemma live_modules_spared:
  fixes c :: rconf and l :: ledger and g :: graph
  assumes "ledger_inv l" and "owned_writes w"
  defines "R \<equiv> {r \<in> set (l_rows l). \<not> may_retire (rc_v c) r}" and "K \<equiv> live_modules l g (rc_v c)"
  shows "spares w c R K" and "safe {n. (n, rc_v c) \<in> K} R K (start_state l g es)"
proof -
  show "spares w c R K" using assms(2) by (auto simp: spares_def R_def K_def live_modules_def)
  have "K \<subseteq> owned_keys g" by (auto simp: K_def live_modules_def)
  then show "safe {n. (n, rc_v c) \<in> K} R K (start_state l g es)"
    using assms(1) by (auto simp: safe_def start_state_def empty_report_def R_def intro: same_row_refl bexI)
qed

lemma safe_rows:
  assumes "safe N {r \<in> set (l_rows l). \<not> may_retire v r} K s"
  shows "list_all (\<lambda>r. may_retire v r \<or> list_ex (same_row r) (l_rows (x_ledger s))) (l_rows l)"
  using assms by (auto simp: safe_def list_all_iff list_ex_iff)

text \<open>C15. A reconcile of a version, in every mode, with any failures and any answers of git, of the source oracle and of the graph relationships,
  from any ledger that satisfies its constraints: whether it returns or raises, the constraints hold again; every ledger row that was not
  pending or whose retirement is held by a gate is there with its state, its pending flag and its block (it may be flagged for a rewrite
  and its other columns may change); and every Module node that carries a repository, of a module with such a present row or of another
  version, is still there with a repository. Nodes without a repository are not covered. Other runs may write any nodes before every statement
  of a delete of modules, provided that a Module node they write names its repository; elsewhere the call is taken as alone, under its lock.\<close>

theorem reconcile_version_keeps_live:
  assumes "ledger_inv l" and "owned_writes w"
    and "reconcile_version w sw c advance gc run_sweep (start_state l g es) = (res, s')"
  shows "ledger_inv (x_ledger s') \<and>
    list_all (\<lambda>r. may_retire (rc_v c) r \<or> list_ex (same_row r) (l_rows (x_ledger s'))) (l_rows l) \<and>
    live_modules l g (rc_v c) \<subseteq> owned_keys (x_graph s')"
proof -
  note sp = live_modules_spared [OF assms(1,2), of c g]
  note s' = postD [OF safe_version [OF sp(1)] sp(2) assms(3)]
  show ?thesis using s' safe_rows [OF s'] safe_owned [OF s'] by (simp add: safe_def)
qed

text \<open>The same of the reconcile that follows the removal of repositories: it retires only rows that are pending and free to go, and
  the modules other repositories still have keep their node.\<close>

theorem reconcile_removed_keeps_live:
  assumes "ledger_inv l" and "owned_writes w"
    and "reconcile_removed_repos w v run_at names basenames ids profiles (start_state l g es) = (res, s')"
  shows "ledger_inv (x_ledger s') \<and>
    list_all (\<lambda>r. may_retire v r \<or> list_ex (same_row r) (l_rows (x_ledger s'))) (l_rows l) \<and>
    live_modules l g v \<subseteq> owned_keys (x_graph s')"
proof -
  have v: "rc_v (removal_conf v run_at) = v" by (simp add: removal_conf_def)
  note sp = live_modules_spared [OF assms(1,2), of "removal_conf v run_at" g, unfolded v]
  note s' = postD [OF safe_removed [OF sp(1)] sp(2) assms(3)]
  show ?thesis using s' safe_rows [OF s'] safe_owned [OF s'] by (simp add: safe_def)
qed

subsection \<open>A dry run\<close>

definition untouched :: "ledger \<Rightarrow> graph \<Rightarrow> embedding list \<Rightarrow> rstate \<Rightarrow> bool" where
  "untouched l g es s \<longleftrightarrow> x_ledger s = l \<and> x_graph s = g \<and> x_embeddings s = es"

lemma dry_report: "post (untouched l g es) (upd_report f) (\<lambda>_. True)"
  by (rule post_upd_report) (simp add: untouched_def)

lemma dry_attend: "post (untouched l g es) (attend i text) (\<lambda>_. True)"
  by (cases i) (auto simp: attend_def untouched_def intro!: post_ret post_modify)

lemma dry_sread: "post (untouched l g es) (sread w cl f) (\<lambda>_. True)"
  by (rule post_sread) simp

text \<open>Outside an executing run the branches that write are gone.\<close>

lemma not_executing: "\<not> execute c \<Longrightarrow> execute c = False"
  by simp

lemmas not_run = not_False_eq_True if_True if_False HOL.simp_thms

lemmas dry_intros = post_if post_ret TrueI post_seq dry_report dry_attend post_bind [OF dry_sread] post_each

lemma dry_pending:
  assumes "\<not> execute c"
  shows "post (untouched l g es) (pending w c only) (\<lambda>_. True)"
proof -
  have drop: "post (untouched l g es) (drop_owner w c n rows owners) (\<lambda>_. True)" for n rows owners
    unfolding drop_owner_def Let_def using assms by (simp, intro dry_intros)
  have undecided: "post (untouched l g es) (undecided w c n rows bs) (\<lambda>_. True)" for n rows bs
    unfolding undecided_def Let_def block_def using assms by (simp, intro dry_intros)
  have decide: "post (untouched l g es) (decide_name w c n rows acc) (\<lambda>_. True)" for n rows acc
    unfolding decide_name_def Let_def by (intro dry_intros drop undecided)
  have loop: "post (untouched l g es) (for_each ns acc (\<lambda>n. decide_name w c n (f n))) (\<lambda>_. True)" for ns acc f
    by (rule post_for_each [OF decide TrueI])
  have retire: "post (untouched l g es) (retire w c ps) (\<lambda>_. True)" for ps
    unfolding retire_def Let_def using assms by (simp add: dry_report)
  show ?thesis unfolding pending_def by (intro dry_intros post_bind [OF loop] retire)
qed

lemma dry_excluded: "\<not> execute c \<Longrightarrow> post (untouched l g es) (drop_excluded_owners w c) (\<lambda>_. True)"
proof -
  assume c: "\<not> execute c"
  have one: "post (untouched l g es) (drop_excluded_name w c node n rows) (\<lambda>_. True)" for node n rows
    unfolding drop_excluded_name_def Let_def not_executing [OF c] not_run by (intro post_case_option dry_intros)
  have loop: "post (untouched l g es) (for_each xs () (\<lambda>(n, node) _. drop_excluded_name w c node n (f n))) (\<lambda>_. True)" for xs f
    by (rule post_each, rule post_case_prod_arg, rule one)
  show ?thesis unfolding drop_excluded_owners_def Let_def by (intro dry_intros loop)
qed

lemma dry_advance: "\<not> execute c \<Longrightarrow> post (untouched l g es) (advance_presence w c advance) (\<lambda>_. True)"
proof -
  assume c: "\<not> execute c"
  have loop: "post (untouched l g es) (for_each xs () (\<lambda>(i, head) _. if Some i \<in> set still \<or> head = [] then ret ()
      else seqE (modify (\<lambda>s. s\<lparr>x_assumed_synced := i # x_assumed_synced s\<rparr>)) (upd_report (f i)))) (\<lambda>_. True)" for xs :: "(int \<times> string) list" and still f
    by (rule post_each, rule post_case_prod_arg, intro dry_intros post_modify) (simp_all add: untouched_def)
  show ?thesis unfolding advance_presence_def Let_def not_executing [OF c] not_run by (intro dry_intros post_case_prod loop)
qed

lemma dry_deferrals: "\<not> execute c \<Longrightarrow> post (untouched l g es) (resolve_prune_deferrals w c) (\<lambda>_. True)"
proof -
  assume c: "\<not> execute c"
  have loop: "post (untouched l g es) (for_each (xs :: (string \<times> int \<times> int list) list) () (\<lambda>(n, owner, waits_for) _. bindE (sread w (Read_owners n) (h n owner)) (\<lambda>others.
      if others \<noteq> [] then ret () else seqE (upd_report (f n)) (ret ())))) (\<lambda>_. True)" for xs f and h :: "string \<Rightarrow> int \<Rightarrow> rstate \<Rightarrow> presence list"
    by (rule post_each, rule post_case_prod_arg, rule post_case_prod_arg, intro dry_intros)
  show ?thesis unfolding resolve_prune_deferrals_def Let_def not_executing [OF c] not_run by (intro dry_intros post_case_prod loop)
qed

lemma dry_sweep: "\<not> execute c \<Longrightarrow> post (untouched l g es) (sweep w c) (\<lambda>_. True)"
proof -
  assume c: "\<not> execute c"
  have hold: "post (untouched l g es) (hold_groups c repos ps pairs groups lost) (\<lambda>_. True)" for repos ps pairs groups lost
    unfolding hold_groups_def Let_def by (intro dry_intros)
  have orphans: "post (untouched l g es) (embedding_orphans w c ps repos False) (\<lambda>_. True)" for ps repos
    unfolding embedding_orphans_def Let_def not_run by (intro dry_intros post_case_prod hold)
  have evidence: "post (untouched l g es) (report_evidence w c sv) (\<lambda>_. True)" for sv
    unfolding report_evidence_def
    by (rule post_each, rule post_case_prod_arg, rule post_bind [where Q = "\<lambda>_. True"], simp add: post_gets)
      (auto split: sum.splits option.splits prod.splits intro!: post_raise post_ret dry_report)
  have blocking: "post (untouched l g es) (attend_blocking c sv) (\<lambda>_. True)" for sv
    unfolding attend_blocking_def Let_def by (intro dry_intros)
  show ?thesis unfolding sweep_def sweep_on_def not_executing [OF c] not_run by (intro dry_intros blocking evidence orphans)
qed

lemma dry_count: "post (untouched l g es) (shared_stale_embeddings w c n marks keep False) (\<lambda>_. True)"
  unfolding shared_stale_embeddings_def Let_def not_run by (intro post_retrying post_gcall) simp_all

lemma dry_shared_name: "\<not> execute c \<Longrightarrow> post (untouched l g es) (prune_shared_name w sw c applied p) (\<lambda>_. True)"
proof -
  assume c: "\<not> execute c"
  have gap: "post (untouched l g es) (record_shared_gap w c n owners cs judged) (\<lambda>_. True)" for n owners cs judged
    unfolding record_shared_gap_def using c by (simp add: post_ret)
  have settle: "post (untouched l g es) (settle_shared w sw c n owners m state) (\<lambda>_. True)" for n owners m state
    unfolding settle_shared_def Let_def not_executing [OF c] not_run by (intro dry_intros)
  have act: "post (untouched l g es) (act_shared w sw c n owners m state cs judged k) (\<lambda>_. True)" for n owners m state cs judged k
    unfolding act_shared_def Let_def not_executing [OF c] not_run by (intro dry_intros gap settle)
  have judge: "post (untouched l g es) (judge_and_act w sw c n owners m state) (\<lambda>_. True)" for n owners m state
    unfolding judge_and_act_def by (intro dry_intros post_bind [where Q = "\<lambda>_. True"] dry_sread post_case_option dry_count act)
  show ?thesis unfolding prune_shared_name_def Let_def case_prod_beta by (intro dry_intros judge)
qed

lemma dry_shared: "\<not> execute c \<Longrightarrow> post (untouched l g es) (prune_shared w sw c) (\<lambda>_. True)"
  unfolding prune_shared_def by (intro dry_intros dry_shared_name)

text \<open>C19. A dry run reads and reports only: when \<^verbatim>\<open>dry_run\<close> is set, ledger, graph and embeddings are after the reconcile what they were
  before, with the notes on the Module nodes, whatever the checkouts and the source oracle say and whichever calls fail.\<close>

theorem dry_run_touches_nothing:
  assumes "rc_dry c" and "reconcile_version w sw c advance gc run_sweep (start_state l g es) = (res, s')"
  shows "x_ledger s' = l \<and> x_graph s' = g \<and> x_embeddings s' = es"
proof -
  have c: "\<not> execute c" using assms(1) by (simp add: execute_def)
  have gcs: "post (untouched l g es) (global_gcs w c b) (\<lambda>_. True)" for b using c by (simp add: global_gcs_def Let_def post_ret)
  have relink: "post (untouched l g es) (relink_inherits w c) (\<lambda>_. True)"
    unfolding relink_inherits_def using c by (simp, intro post_bind [where Q = "\<lambda>_. True"] post_gets post_ret TrueI)
  have flush: "post (untouched l g es) (flush_attention w c) (\<lambda>_. True)" using assms(1) by (simp add: flush_attention_def post_ret)
  have "post (untouched l g es) (reconcile_version w sw c advance gc run_sweep) (\<lambda>_. True)"
    unfolding reconcile_version_def
    by (intro dry_intros dry_pending [OF c] dry_excluded [OF c] dry_advance [OF c] dry_deferrals [OF c] dry_shared [OF c] post_bind [OF dry_sweep [OF c]]
        gcs relink flush post_gets)
  from postD [OF this _ assms(2)] show ?thesis by (simp add: untouched_def start_state_def)
qed

subsection \<open>Witnesses\<close>

text \<open>\<open>stock\<close> is flagged and free to go, \<open>sale\<close> is present.\<close>

definition sample_pending :: ledger where
  "sample_pending = sample_ledger\<lparr>l_rows := l_rows sample_ledger @
     [flag_pending Absent None 15 (proposed_row 3 sample_repo ''std'' ''17.0'' ''h0'' 10 (sample_observed ''stock'' St_present None))], l_next_id := 4\<rparr>"

definition sample_world :: world where
  "sample_world = \<lparr>w_is_dir = (\<lambda>_. True), w_out = (\<lambda>_ _. None), w_head_resolves = (\<lambda>_. True), w_ls_files = (\<lambda>_. Some []), w_checked_out = (\<lambda>_. None),
     w_fields = (\<lambda>_ _. None), w_removing = (\<lambda>_ _. None), w_rev_parse = (\<lambda>_ _. None), w_time = (\<lambda>_. 0), w_message = (\<lambda>_. []), w_fault = (\<lambda>_ _. None),
     w_conc = (\<lambda>_ _. alone), w_now = 50, w_clk = 50\<rparr>"

definition sample_conf :: "bool \<Rightarrow> rconf" where
  "sample_conf dry = \<lparr>rc_v = ''17.0'', rc_run_at = 30, rc_retire = True, rc_mass = False, rc_dry = dry, rc_observed_heads = [], rc_assume_written = []\<rparr>"

lemma sample_pending_inv: "ledger_inv sample_pending"
  by code_simp

lemma sample_world_writes: "owned_writes sample_world"
  by (simp add: owned_writes_def conc_owned_def sample_world_def writes_owned_def)

definition sample_shared :: shared_world where
  "sample_shared = \<lparr>sw_head = (\<lambda>_. Some ''h0''), sw_token = ''code-1'', sw_rels = (\<lambda>_ _. []), sw_classify = (\<lambda>_ _ nodes _. (map c_id nodes, [])),
     sw_reason = (\<lambda>_. None), sw_fingerprint = (\<lambda>_. ''tree-1''), sw_describe_node = c_label, sw_describe_rel = sr_type\<rparr>"

lemma sample_live: "(''sale'', ''17.0'') \<in> live_modules sample_pending sample_store ''17.0''"
proof -
  have "list_ex (\<lambda>r. \<not> may_retire ''17.0'' r \<and> p_name r = ''sale'' \<and> p_odoo_version r = ''17.0'' \<and> p_state r = St_present \<and> p_repo_id r \<noteq> None) (l_rows sample_pending)"
    "(''sale'', ''17.0'') \<in> owned_keys sample_store" by code_simp+
  then show ?thesis by (simp add: live_modules_def list_ex_iff)
qed

lemma sample_conf_simps: "rc_v (sample_conf dry) = ''17.0''" "rc_dry (sample_conf dry) = dry" "rc_mass (sample_conf dry) = False"
  by (simp_all add: sample_conf_def)

theorem reconcile_version_keeps_live_witness:
  "(''sale'', ''17.0'') \<in> owned_keys (x_graph (snd (reconcile_version sample_world sample_shared (sample_conf False) [] None True
     (start_state sample_pending sample_store []))))"
proof -
  obtain res s' where run: "reconcile_version sample_world sample_shared (sample_conf False) [] None True (start_state sample_pending sample_store []) = (res, s')"
    by fastforce
  from reconcile_version_keeps_live [OF sample_pending_inv sample_world_writes run] sample_live show ?thesis
    by (simp only: run snd_conv sample_conf_simps) blast
qed

theorem reconcile_removed_keeps_live_witness:
  "(''sale'', ''17.0'') \<in> owned_keys (x_graph (snd (reconcile_removed_repos sample_world ''17.0'' 30 [''stock''] [''addons''] [7] [''std'']
     (start_state sample_pending sample_store []))))"
proof -
  obtain res s' where run: "reconcile_removed_repos sample_world ''17.0'' 30 [''stock''] [''addons''] [7] [''std'']
      (start_state sample_pending sample_store []) = (res, s')" by fastforce
  from reconcile_removed_keeps_live [OF sample_pending_inv sample_world_writes run] sample_live show ?thesis by (simp only: run snd_conv) blast
qed

theorem sweep_only_proven_witness:
  "(''sale'', ''17.0'') \<in> owned_keys (x_graph (snd (sweep sample_world (sample_conf False) (start_state sample_pending sample_store []))))"
proof -
  let ?s = "start_state sample_pending sample_store []"
  obtain res s' where run: "sweep sample_world (sample_conf False) ?s = (res, s')" by fastforce
  have "(''sale'', ''17.0'') \<in> owned_keys sample_store" "''sale'' \<in> ledger_present_names sample_pending ''17.0''" by code_simp+
  then have "(''sale'', ''17.0'') \<in> owned_keys (x_graph ?s)" "\<not> proven_gone sample_world (sample_conf False) ?s ''sale''"
    by (simp_all add: proven_gone_def start_state_def empty_report_def sample_conf_simps Let_def)
  moreover have "ledger_inv (x_ledger ?s)" "\<not> rc_mass (sample_conf False)" by (simp_all add: start_state_def sample_pending_inv sample_conf_simps)
  ultimately show ?thesis using sweep_only_proven [OF _ sample_world_writes _ run] by (auto simp only: run snd_conv sample_conf_simps)
qed

theorem dry_run_touches_nothing_witness:
  "x_ledger (snd (reconcile_version sample_world sample_shared (sample_conf True) [] None True (start_state sample_pending sample_store []))) = sample_pending"
proof -
  obtain res s' where run: "reconcile_version sample_world sample_shared (sample_conf True) [] None True (start_state sample_pending sample_store []) = (res, s')"
    by fastforce
  have "rc_dry (sample_conf True)" by (simp add: sample_conf_simps)
  then have "x_ledger s' = sample_pending" using dry_run_touches_nothing [OF _ run] by simp
  then show ?thesis by (simp only: run snd_conv)
qed

end
