(* ===== verification/Shared_Laws.thy ===== *)
theory Shared_Laws
  imports Reconcile_Laws
begin

section \<open>What the prune of shared modules may delete\<close>

text \<open>
  A node below a module that several repositories ship goes only when the sources of all of them say so. The judgement is read
  from the graph that the phase finds; the statements that delete run later, select again, and are repeated when a call fails.
\<close>

subsection \<open>Reads before a write\<close>

text \<open>\<open>ends I m J\<close>: from \<open>I\<close> the run of \<open>m\<close> ends in \<open>J\<close>, whether it returns or raises.\<close>

definition ends :: "('s \<Rightarrow> bool) \<Rightarrow> ('s, 'e, 'a) em \<Rightarrow> ('s \<Rightarrow> bool) \<Rightarrow> bool" where
  "ends I m J \<longleftrightarrow> (\<forall>s. I s \<longrightarrow> J (snd (m s)))"

lemma ends_post: "post J m Q \<Longrightarrow> (\<And>s. I s \<Longrightarrow> J s) \<Longrightarrow> ends I m J"
  by (simp add: ends_def post_def)

lemma ends_same: "post I m Q \<Longrightarrow> (\<And>s. I s \<Longrightarrow> J s) \<Longrightarrow> ends I m J"
  by (simp add: ends_def post_def)

lemma endsD: "ends I m J \<Longrightarrow> I s \<Longrightarrow> m s = (r, s') \<Longrightarrow> J s'"
  unfolding ends_def by (metis snd_conv)

lemma ends_bind:
  assumes "post I m Q" and "\<And>s. I s \<Longrightarrow> J s" and "\<And>a. Q a \<Longrightarrow> ends I (k a) J"
  shows "ends I (bindE m k) J"
  unfolding ends_def
proof (intro allI impI)
  fix s assume s: "I s"
  obtain r s1 where m: "m s = (r, s1)" by fastforce
  have s1: "I s1" by (rule postD [OF assms(1) s m])
  show "J (snd (bindE m k s))"
  proof (cases r)
    case (Inl e)
    with m s1 assms(2) show ?thesis by (simp add: bindE_def)
  next
    case (Inr a)
    have "Q a" by (rule post_result [OF assms(1) s m [unfolded Inr]])
    with assms(3) s1 m Inr show ?thesis by (simp add: bindE_def ends_def)
  qed
qed

lemma ends_if: "(b \<Longrightarrow> ends I m J) \<Longrightarrow> (\<not> b \<Longrightarrow> ends I n J) \<Longrightarrow> ends I (if b then m else n) J"
  by simp

subsection \<open>Which nodes the statements reach\<close>

definition in_reach :: "prune_mode \<Rightarrow> cnode \<Rightarrow> bool" where
  "in_reach m x \<longleftrightarrow> c_label x \<in> set (mode_labels m) \<and> c_version x = pm_version m \<and> (c_label x \<noteq> ''LintViolation'' \<longrightarrow> c_module x = Some (pm_name m)) \<and>
     (c_label x \<noteq> ''TestHelper'' \<longrightarrow> stale_stamp (pm_cutoff m) (c_written_run x) (c_written_at x))"

lemma selected_in_reach: "label \<in> set (mode_labels m) \<Longrightarrow> selects m g xmlids label x \<Longrightarrow> stale_node m g x \<Longrightarrow> in_reach m x"
  by (auto simp: in_reach_def selects_def stale_node_def violation_of_def owned_child_def split: if_splits)

definition on_nodes :: "(cnode list \<Rightarrow> bool) \<Rightarrow> rstate \<Rightarrow> bool" where
  "on_nodes P s \<longleftrightarrow> P (gr_children (x_graph s))"

abbreviation kept_nodes :: "cnode set \<Rightarrow> rstate \<Rightarrow> bool" where
  "kept_nodes K \<equiv> on_nodes (\<lambda>cs. K \<subseteq> set cs)"

lemma prune_stmt_keeps:
  assumes "f \<in> set (prune_node_stmts m xmlids ids) \<union> set (prune_rel_stmts m sw xmlids rel_ids)" and "\<forall>x \<in> K. \<not> (in_reach m x \<and> c_id x \<in> set ids)"
    and "K \<subseteq> set (gr_children g)"
  shows "K \<subseteq> set (gr_children (f g))"
  using assms selected_in_reach
  by (fastforce simp: prune_node_stmts_def prune_rel_stmts_def prune_label_def prune_rels_def cut_rels_def delete_children_where_def cut_edges_def Let_def
      split: if_splits)

lemma prune_run_keeps:
  assumes "\<forall>x \<in> K. \<not> (in_reach m x \<and> c_id x \<in> set ids)"
  shows "set fs \<subseteq> set (prune_node_stmts m xmlids ids) \<union> set (prune_rel_stmts m sw xmlids rel_ids) \<Longrightarrow> K \<subseteq> set (gr_children g) \<Longrightarrow>
    K \<subseteq> set (gr_children (run_stmts fs g))"
  unfolding run_stmts_def
proof (induction fs arbitrary: g)
  case (Cons f fs)
  then have "K \<subseteq> set (gr_children (f g))" using prune_stmt_keeps [OF _ assms] by (metis insert_subset list.simps(15))
  with Cons show ?case by simp
qed simp

subsection \<open>The calls around them\<close>

lemma keep_report: "post (on_nodes P) (upd_report f) (\<lambda>_. True)"
  by (rule post_upd_report) (simp add: on_nodes_def)

lemma keep_set_module: "post (on_nodes P) (set_call w cl (set_module v n f)) (\<lambda>_. True)"
  unfolding set_call_def by (rule post_gcall) (auto simp: on_nodes_def set_module_def)

lemma keep_lcall: "post (on_nodes P) (lcall w cl m) (\<lambda>_. True)"
  by (rule post_lcall) (simp add: on_nodes_def)

lemma keep_gap: "post (on_nodes P) (record_shared_gap w c n owners cs judged) (\<lambda>_. True)"
  unfolding record_shared_gap_def record_module_parser_gap_def clear_module_parser_gap_def
  by (intro post_if post_ret TrueI post_case_option keep_set_module)

lemma keep_settle: "post (on_nodes P) (settle_shared w sw c n owners m state) (\<lambda>_. True)"
  unfolding settle_shared_def Let_def record_shared_prune_def
  by (intro post_bind [where Q = "\<lambda>_. True"] post_sread post_seq post_if post_ret TrueI keep_report post_each keep_lcall keep_set_module)

lemma keep_embeddings: "post (on_nodes P) (shared_stale_embeddings w c n marks keep delete) (\<lambda>_. True)"
  unfolding shared_stale_embeddings_def Let_def by (intro post_retrying post_gcall) (simp_all add: on_nodes_def)

lemma keep_shared_module:
  assumes "\<And>j x. judged = Some j \<Longrightarrow> x \<in> K \<Longrightarrow> \<not> (in_reach m x \<and> c_id x \<in> set (jd_node_ids j))"
  shows "post (kept_nodes K) (prune_shared_module w sw c n m embedded expected judged keep) (\<lambda>_. True)"
proof -
  have nodes: "post (kept_nodes K) (retrying (\<lambda>k. gcall w cl k
      (\<lambda>s. case prune_module_children m sw ids rel_ids (w_now w) (x_graph s) of (d, g) \<Rightarrow> (d, s\<lparr>x_graph := g\<rparr>))
      (\<lambda>i s. s\<lparr>x_graph := run_stmts (take i (prune_stmts m sw ids rel_ids (x_graph s))) (x_graph s)\<rparr>))) (\<lambda>_. True)"
    if K: "\<forall>x \<in> K. \<not> (in_reach m x \<and> c_id x \<in> set ids)" for cl ids rel_ids
  proof (intro post_retrying post_gcall)
    fix i s assume s: "kept_nodes K s"
    show "kept_nodes K (s\<lparr>x_graph := run_stmts (take i (prune_stmts m sw ids rel_ids (x_graph s))) (x_graph s)\<rparr>)"
      using s set_take_subset [of i "prune_stmts m sw ids rel_ids (x_graph s)"] unfolding on_nodes_def
      by (simp, intro prune_run_keeps [OF K, where xmlids = "module_view_xmlids (x_graph s) (pm_version m) [pm_name m]" and sw = sw and rel_ids = rel_ids])
        (auto simp: prune_stmts_def Let_def split: if_splits)
    show "kept_nodes K (snd (case prune_module_children m sw ids rel_ids (w_now w) (x_graph s) of (d, g) \<Rightarrow> (d, s\<lparr>x_graph := g\<rparr>))) \<and> True"
    proof -
      let ?x = "module_view_xmlids (x_graph s) (pm_version m) [pm_name m]"
      have "K \<subseteq> set (gr_children (run_stmts (prune_rel_stmts m sw ?x rel_ids) (run_stmts (prune_node_stmts m ?x ids) (x_graph s))))"
        using s by (intro prune_run_keeps [OF K, where xmlids = ?x and rel_ids = rel_ids and sw = sw]) (auto simp: on_nodes_def)
      with s show ?thesis by (auto simp: prune_module_children_def Let_def on_nodes_def mark_post_pass_dirty_def)
    qed
  qed
  show ?thesis unfolding prune_shared_module_def
    by (intro post_bind [where Q = "\<lambda>_. True"] post_case_option post_ret TrueI post_if keep_embeddings nodes keep_report) (use assms in blast)
qed

lemma keep_act:
  assumes "\<And>j x. judged = Some j \<Longrightarrow> x \<in> K \<Longrightarrow> \<not> (in_reach m x \<and> c_id x \<in> set (jd_node_ids j))"
  shows "post (kept_nodes K) (act_shared w sw c n owners m state cs judged k) (\<lambda>_. True)"
  unfolding act_shared_def Let_def
  by (intro post_if post_seq keep_gap keep_settle keep_report post_try keep_shared_module [OF assms]) (auto intro!: keep_report)

subsection \<open>The judgement\<close>

text \<open>The checkout of every owner is known and stands at the commit its ledger reflects, and the oracle lets the node go on the source there.\<close>

definition judged_gone :: "world \<Rightarrow> shared_world \<Rightarrow> graph \<Rightarrow> string \<Rightarrow> owner list \<Rightarrow> prune_mode \<Rightarrow> cnode \<Rightarrow> bool" where
  "judged_gone w sw g n owners m x \<longleftrightarrow>
     owners \<noteq> [] \<and> list_all (\<lambda>o1. owner_local o1 \<noteq> [] \<and> \<not> owner_checkout_untrusted w sw o1 \<and>
       c_id x \<in> set (fst (sw_classify sw g (Head_source (owner_local o1) n (owner_dir o1))
         (map (anchored_node o1 (owner_anchors owners)) (fst (module_stale_children m sw g)))
         (map (anchored_rel o1 (owner_anchors owners)) (snd (module_stale_children m sw g)))))) owners"

lemma in_all_iff: "i \<in> set (in_all xss) \<longleftrightarrow> xss \<noteq> [] \<and> (\<forall>xs \<in> set xss. i \<in> set xs)"
  by (cases xss) (auto simp: in_all_def list_all_iff)

lemma judged_ids_gone:
  assumes "\<not> rc_mass c" and "module_stale_children m sw g = (nodes, rels)" and "c_id x \<in> set (jd_node_ids (judge_shared w sw c n owners g nodes rels))"
  shows "judged_gone w sw g n owners m x"
  using assms by (auto simp: judge_shared_def Let_def in_all_iff judged_gone_def list_all_iff deletable_def owner_source_def
      split: if_splits module_source.splits)

lemma judge_and_act_keeps:
  assumes "\<not> rc_mass c" and K: "K = {x \<in> set (gr_children g). \<not> (in_reach m x \<and> judged_gone w sw g n owners m x)}"
  shows "ends (untouched l g es) (judge_and_act w sw c n owners m state) (kept_nodes K)"
  unfolding judge_and_act_def
proof (rule ends_bind [OF dry_sread])
  show start: "kept_nodes K s" if "untouched l g es s" for s using that by (auto simp: untouched_def on_nodes_def K)
  fix cs
  show "ends (untouched l g es) (if \<not> cs_exists cs then ret () else
      bindE (if cs_stale cs = 0 \<and> cs_rels_stale cs = 0 then ret None
        else sread w (Shared_stale n) (\<lambda>s. case module_stale_children m sw (x_graph s) of (nodes, rels) \<Rightarrow> Some (judge_shared w sw c n owners (x_graph s) nodes rels)))
      (\<lambda>judged. bindE (case owner_embedding_marks owners of None \<Rightarrow> ret None
          | Some marks \<Rightarrow> bindE (shared_stale_embeddings w c n marks (case judged of None \<Rightarrow> [] | Some j \<Rightarrow> jd_filters j) False) (\<lambda>k. ret (Some k)))
        (act_shared w sw c n owners m state cs judged))) (kept_nodes K)"
  proof (rule ends_if)
    show "ends (untouched l g es) (ret ()) (kept_nodes K)" by (rule ends_post [OF post_ret [of "\<lambda>_. True"]]) (simp_all add: start)
  next
    let ?Q = "\<lambda>judged :: judged option. \<forall>j x. judged = Some j \<longrightarrow> x \<in> K \<longrightarrow> \<not> (in_reach m x \<and> c_id x \<in> set (jd_node_ids j))"
    have Q: "post (untouched l g es) (if cs_stale cs = 0 \<and> cs_rels_stale cs = 0 then ret None
        else sread w (Shared_stale n) (\<lambda>s. case module_stale_children m sw (x_graph s) of (nodes, rels) \<Rightarrow> Some (judge_shared w sw c n owners (x_graph s) nodes rels))) ?Q"
      using judged_ids_gone [OF assms(1)]
      by (intro post_if post_ret post_sread) (auto simp: untouched_def K split: prod.splits)
    show "ends (untouched l g es) (bindE (if cs_stale cs = 0 \<and> cs_rels_stale cs = 0 then ret None
        else sread w (Shared_stale n) (\<lambda>s. case module_stale_children m sw (x_graph s) of (nodes, rels) \<Rightarrow> Some (judge_shared w sw c n owners (x_graph s) nodes rels)))
      (\<lambda>judged. bindE (case owner_embedding_marks owners of None \<Rightarrow> ret None
          | Some marks \<Rightarrow> bindE (shared_stale_embeddings w c n marks (case judged of None \<Rightarrow> [] | Some j \<Rightarrow> jd_filters j) False) (\<lambda>k. ret (Some k)))
        (act_shared w sw c n owners m state cs judged))) (kept_nodes K)"
    proof (rule ends_bind [OF Q start])
      fix judged assume "?Q judged"
      then have act: "post (kept_nodes K) (act_shared w sw c n owners m state cs judged k) (\<lambda>_. True)" for k by (intro keep_act) blast
      show "ends (untouched l g es) (bindE (case owner_embedding_marks owners of None \<Rightarrow> ret None
          | Some marks \<Rightarrow> bindE (shared_stale_embeddings w c n marks (case judged of None \<Rightarrow> [] | Some j \<Rightarrow> jd_filters j) False) (\<lambda>k. ret (Some k)))
        (act_shared w sw c n owners m state cs judged)) (kept_nodes K)"
        by (rule ends_post [OF post_bind [where Q = "\<lambda>_. True", OF _ act] start])
          (intro post_case_option post_ret TrueI post_bind [where Q = "\<lambda>_. True"] keep_embeddings)
    qed
  qed
qed

lemma prune_name_ends:
  assumes "\<And>s. untouched l g es s \<Longrightarrow> J s"
    and "blockers w l (rc_v c) n (map owner_id owners) = [] \<Longrightarrow>
      ends (untouched l g es) (judge_and_act w sw c n owners (shared_mode c n owners) (evaluated_state w sw owners)) J"
  shows "ends (untouched l g es) (prune_shared_name w sw c applied (n, owners)) J"
  unfolding prune_shared_name_def Let_def prod.case
proof (rule ends_if)
  show "ends (untouched l g es) (ret ()) J" by (rule ends_post [OF post_ret [of "\<lambda>_. True"] assms(1)]) simp
  let ?bs = "blockers w l (rc_v c) n (map owner_id owners)"
  have waits: "ends (untouched l g es) (seqE (upd_report f) (if b then for_each ids () (\<lambda>i _. attend (Some i) msg) else ret ())) J" for f b ids msg
    by (rule ends_same [where Q = "\<lambda>_. True", OF _ assms(1)]) (intro dry_intros)
  show "ends (untouched l g es) (bindE (sread w (Read_blockers n) (\<lambda>s. blockers w (x_ledger s) (rc_v c) n (map owner_id owners)))
      (\<lambda>bs. if bs = [] then judge_and_act w sw c n owners (shared_mode c n owners) (evaluated_state w sw owners)
        else seqE (upd_report (\<lambda>r. r\<lparr>rep_shared_prune_waiting := AList.update n (map blocker_label bs) (rep_shared_prune_waiting r)\<rparr>))
          (if list_ex (\<lambda>(_, y). y \<noteq> Ships_name) bs then for_each (map owner_id owners) () (\<lambda>i _. attend (Some i)
             (''entity prune of shared module '' @ n @ ''@'' @ rc_v c @ '' deferred: repo(s) '' @ join_str '', '' (map blocker_label bs) @
              '' not synced may still ship it'')) else ret ()))) J"
  proof (rule ends_bind [where Q = "\<lambda>bs. bs = ?bs", OF post_sread assms(1)], simp add: untouched_def, assumption, intro ends_if waits)
    fix a assume "a = ?bs" "a = []"
    then show "ends (untouched l g es) (judge_and_act w sw c n owners (shared_mode c n owners) (evaluated_state w sw owners)) J" by (intro assms(2)) simp
  qed
qed

text \<open>C17. What several repositories ship is pruned only by agreement. Without the mass override, when the phase comes to a module \<open>n\<close> with its
  owners, a node below it that is gone afterwards, whatever calls failed and were repeated, is one that in an executing run, with no other
  repository left that may still ship the module, the source of every owner lets go: the checkout of the owner is known and stands at the
  commit the ledger last reflected, and the oracle, asked with the stale nodes and relationships the graph had then, says that the source there
  does not define it. The node belongs to the module and the version, its label is one every owner's last complete parse observed, and
  it was last written before each of these parses; a test helper is judged by its test classes and a lint violation by its view or file.
  The verdicts of the oracle are an argument; no other run writes while the phase is at the module.\<close>

theorem shared_prune_unanimous:
  assumes "\<not> rc_mass c" and "prune_shared_name w sw c applied (n, owners) s = (res, s')"
    and "x \<in> set (gr_children (x_graph s))" and "x \<notin> set (gr_children (x_graph s'))"
  shows "execute c \<and> blockers w (x_ledger s) (rc_v c) n (map owner_id owners) = [] \<and>
    judged_gone w sw (x_graph s) n owners (shared_mode c n owners) x \<and>
    c_version x = rc_v c \<and> (c_label x \<noteq> ''LintViolation'' \<longrightarrow> c_module x = Some n) \<and>
    (\<forall>o1 \<in> set owners. c_label x \<notin> set (p_full_parse_unobserved (fst o1)) \<and>
      (c_label x = ''TestHelper'' \<or> c_written_at x = None \<or> the (c_written_at x) < the (p_full_parse_at (fst o1))))"
proof -
  let ?g = "x_graph s" and ?l = "x_ledger s" and ?m = "shared_mode c n owners"
  let ?K = "{x \<in> set (gr_children ?g). \<not> (in_reach ?m x \<and> judged_gone w sw ?g n owners ?m x)}"
  let ?U = "untouched ?l ?g (x_embeddings s)" and ?bs = "blockers w ?l (rc_v c) n (map owner_id owners)"
  have U: "?U s" by (simp add: untouched_def)
  have ex: "execute c"
  proof (rule ccontr)
    assume "\<not> execute c"
    from postD [OF dry_shared_name [OF this] U assms(2)] assms(3,4) show False by (simp add: untouched_def)
  qed
  have none: "?bs = []"
  proof (rule ccontr)
    assume "?bs \<noteq> []"
    then have "ends ?U (prune_shared_name w sw c applied (n, owners)) (kept_nodes (set (gr_children ?g)))"
      by (intro prune_name_ends) (auto simp: untouched_def on_nodes_def)
    from endsD [OF this U assms(2)] have "kept_nodes (set (gr_children ?g)) s'" .
    with assms(3,4) show False by (auto simp: on_nodes_def)
  qed
  have "ends ?U (prune_shared_name w sw c applied (n, owners)) (kept_nodes ?K)"
    by (intro prune_name_ends judge_and_act_keeps [OF assms(1) refl]) (auto simp: untouched_def on_nodes_def)
  from endsD [OF this U assms(2)] have "kept_nodes ?K s'" .
  then have reach: "in_reach ?m x" "judged_gone w sw ?g n owners ?m x" using assms(3,4) by (auto simp: on_nodes_def)
  have label: "c_label x \<notin> set (p_full_parse_unobserved (fst o1))" if "o1 \<in> set owners" for o1
    using reach(1) that by (auto simp: in_reach_def mode_labels_def shared_mode_def)
  have older: "t < the (p_full_parse_at (fst o1))" if o1: "o1 \<in> set owners" and t: "c_label x \<noteq> ''TestHelper''" "c_written_at x = Some t" for o1 t
  proof -
    have "pm_cutoff ?m \<le> the (p_full_parse_at (fst o1))" using o1 by (auto simp: shared_mode_def)
    then show ?thesis using reach(1) t by (auto simp: in_reach_def stale_stamp_def)
  qed
  have "c_version x = rc_v c" "c_label x \<noteq> ''LintViolation'' \<Longrightarrow> c_module x = Some n" using reach(1) by (auto simp: in_reach_def shared_mode_def)
  with ex none reach(2) label older show ?thesis by (cases "c_written_at x") auto
qed

subsection \<open>Witness\<close>

text \<open>Two repositories ship \<open>sale\<close>, parsed at 20 and 25: the node written at 10 goes, the one of 35 stays.\<close>

definition parsed_row :: "int \<Rightarrow> int \<Rightarrow> repo \<Rightarrow> presence" where
  "parsed_row i t r = (proposed_row i r ''std'' ''17.0'' ''h1'' t (sample_observed ''sale'' St_present None))\<lparr>p_full_parse_at := Some t, p_full_parse_run := Some ''run-1''\<rparr>"

definition second_repo :: repo where
  "second_repo = sample_repo\<lparr>r_id := 8, r_url := ''git@host:fork.git'', r_local_path := ''/srv/fork''\<rparr>"

definition shared_ledger :: ledger where
  "shared_ledger = sample_ledger\<lparr>l_rows := [parsed_row 1 20 sample_repo, parsed_row 2 25 second_repo], l_repos := [sample_repo, second_repo]\<rparr>"

definition agreeing :: shared_world where
  "agreeing = sample_shared\<lparr>sw_head := (\<lambda>_. Some ''h1'')\<rparr>"

definition sample_owners :: "owner list" where
  "sample_owners = [(parsed_row 1 20 sample_repo, Some sample_repo), (parsed_row 2 25 second_repo, Some second_repo)]"

definition sample_mode :: prune_mode where
  "sample_mode = shared_mode (sample_conf False) ''sale'' sample_owners"

definition sample_judged :: judged where
  "sample_judged = judge_shared sample_world agreeing (sample_conf False) ''sale'' sample_owners sample_store [sample_child 1 ''sale'' 10] []"

lemma sample_shared_owners: "shared_module_owners shared_ledger ''17.0'' = [(''sale'', sample_owners)]"
  by code_simp

lemma sample_no_blockers: "blockers sample_world shared_ledger ''17.0'' ''sale'' (map owner_id sample_owners) = []"
  by code_simp

lemma sample_census:
  "module_children_census sample_mode agreeing sample_store = \<lparr>cs_exists = True, cs_total = 2, cs_stale = 1, cs_rels_total = 0, cs_rels_stale = 0\<rparr>"
  "module_stale_children sample_mode agreeing sample_store = ([sample_child 1 ''sale'' 10], [])"
  by code_simp+

lemma sample_verdict: "jd_node_ids sample_judged = [1]" "jd_rel_ids sample_judged = []" "owner_embedding_marks sample_owners = None"
  by code_simp+

lemma sample_pruned: "gr_children (snd (prune_module_children sample_mode agreeing [1] [] 50 sample_store)) = [sample_child 2 ''web'' 20, sample_child 3 ''sale'' 35]"
  by code_simp

lemma sample_calls: "sread sample_world cl f = gets f" "gcall sample_world cl k full part = (\<lambda>s. (Inr (fst (full s)), snd (full s)))"
  by (simp_all add: sread_def gcall_def gets_def sample_world_def)

lemma sample_read: "bindE (sread sample_world cl f) k s = k (f s) s"
  by (simp add: sample_calls bindE_def gets_def)

lemma bind_ret: "bindE (ret a) k = k a"
  by (simp add: bindE_def ret_def)

lemma try_seq_run: "m s = (Inr a, s1) \<Longrightarrow> try_except (seqE m k) h s = try_except k h s1"
  by (simp add: try_except_def seqE_def bindE_def)

lemma retrying_first: "fn 1 s = (Inr a, s') \<Longrightarrow> retrying fn s = (Inr a, s')"
  by (simp add: retrying_def numeral_2_eq_2 try_except_def)

lemma sample_prune_run:
  "\<exists>r s'. prune_shared_name sample_world agreeing (sample_conf False) [] (''sale'', sample_owners) (start_state shared_ledger sample_store []) = (r, s') \<and>
     gr_children (x_graph s') = [sample_child 2 ''web'' 20, sample_child 3 ''sale'' 35]"
proof -
  let ?c = "sample_conf False" and ?s = "start_state shared_ledger sample_store []" and ?st = "evaluated_state sample_world agreeing sample_owners"
  let ?P = "on_nodes (\<lambda>cs. cs = [sample_child 2 ''web'' 20, sample_child 3 ''sale'' 35])"
  let ?cs = "module_children_census sample_mode agreeing sample_store"
  have c: "execute ?c" "rc_v ?c = ''17.0''" "w_now sample_world = 50" by (simp_all add: execute_def sample_conf_def sample_world_def)
  have s: "x_ledger ?s = shared_ledger" "x_graph ?s = sample_store" by (simp_all add: start_state_def)
  let ?fn = "\<lambda>k. gcall sample_world (Shared_prune ''sale'') k
      (\<lambda>s. case prune_module_children sample_mode agreeing [1] [] 50 (x_graph s) of (d, g) \<Rightarrow> (d, s\<lparr>x_graph := g\<rparr>))
      (\<lambda>i s. s\<lparr>x_graph := run_stmts (take i (prune_stmts sample_mode agreeing [1] [] (x_graph s))) (x_graph s)\<rparr>)"
  let ?prune = "prune_shared_module sample_world agreeing ?c ''sale'' sample_mode None None (Some sample_judged) (jd_filters sample_judged)"
  obtain d g where dg: "prune_module_children sample_mode agreeing [1] [] 50 sample_store = (d, g)" by fastforce
  have "retrying ?fn ?s = (Inr d, ?s\<lparr>x_graph := g\<rparr>)" by (rule retrying_first) (simp add: sample_calls s dg)
  then have p: "?prune ?s = upd_report (\<lambda>r. r\<lparr>rep_embeddings_deleted := rep_embeddings_deleted r + 0, rep_children_deleted := rep_children_deleted r + d\<rparr>) (?s\<lparr>x_graph := g\<rparr>)"
    by (simp add: prune_shared_module_def sample_verdict c bindE_def ret_def)
  then obtain s1 where s1: "?prune ?s = (Inr (), s1)" "?P s1"
    using sample_pruned by (simp add: upd_report_def modify_def on_nodes_def dg)
  let ?rest = "seqE (upd_report (\<lambda>r. r\<lparr>rep_shared_pruned := rep_shared_pruned r @ [''sale'']\<rparr>))
      (seqE (record_shared_gap sample_world ?c ''sale'' sample_owners ?cs (Some sample_judged)) (settle_shared sample_world agreeing ?c ''sale'' sample_owners sample_mode ?st))"
  let ?handler = "\<lambda>e. Some (upd_report (\<lambda>r. r\<lparr>rep_errors := AList.update ''shared_prune:sale'' e (rep_errors r)\<rparr>))"
  have rest: "post ?P (try_except ?rest ?handler) (\<lambda>_. True)" by (intro post_try post_seq keep_report keep_gap keep_settle) (auto intro!: keep_report)
  have act: "act_shared sample_world agreeing ?c ''sale'' sample_owners sample_mode ?st ?cs (Some sample_judged) None ?s = try_except ?rest ?handler s1"
    unfolding act_shared_def Let_def option.case sample_verdict using c(1) s1(1) by (simp add: try_seq_run)
  have judge: "judge_and_act sample_world agreeing ?c ''sale'' sample_owners sample_mode ?st ?s = try_except ?rest ?handler s1"
    unfolding judge_and_act_def sample_read s act [symmetric] by (simp add: sample_census sample_verdict sample_read s bind_ret sample_judged_def)
  have "prune_shared_name sample_world agreeing ?c [] (''sale'', sample_owners) ?s =
      judge_and_act sample_world agreeing ?c ''sale'' sample_owners sample_mode ?st ?s"
    unfolding prune_shared_name_def Let_def prod.case sample_mode_def
    by (simp only: map_of.simps option.distinct if_False sample_read s c sample_no_blockers if_True refl)
  also note judge
  finally have "prune_shared_name sample_world agreeing ?c [] (''sale'', sample_owners) ?s = try_except ?rest ?handler s1" .
  note run = this
  obtain r s' where fin: "try_except ?rest ?handler s1 = (r, s')" by fastforce
  have "?P s'" by (rule postD [OF rest s1(2) fin])
  then have "gr_children (x_graph s') = [sample_child 2 ''web'' 20, sample_child 3 ''sale'' 35]" unfolding on_nodes_def .
  with run [unfolded fin] show ?thesis by (intro exI conjI)
qed

theorem shared_prune_unanimous_witness:
  "\<exists>s'. snd (prune_shared_name sample_world agreeing (sample_conf False) [] (hd (shared_module_owners shared_ledger ''17.0'')) (start_state shared_ledger sample_store [])) = s' \<and>
     sample_child 1 ''sale'' 10 \<notin> set (gr_children (x_graph s')) \<and> sample_child 3 ''sale'' 35 \<in> set (gr_children (x_graph s')) \<and>
     judged_gone sample_world agreeing sample_store ''sale'' sample_owners sample_mode (sample_child 1 ''sale'' 10)"
proof -
  obtain r s' where run: "prune_shared_name sample_world agreeing (sample_conf False) [] (''sale'', sample_owners) (start_state shared_ledger sample_store []) = (r, s')"
    and left: "gr_children (x_graph s') = [sample_child 2 ''web'' 20, sample_child 3 ''sale'' 35]" using sample_prune_run by blast
  have gone: "sample_child 1 ''sale'' 10 \<notin> set (gr_children (x_graph s'))" "sample_child 3 ''sale'' 35 \<in> set (gr_children (x_graph s'))"
    by (simp_all add: left sample_child_def)
  have was: "sample_child 1 ''sale'' 10 \<in> set (gr_children (x_graph (start_state shared_ledger sample_store [])))" by (simp add: start_state_def sample_store_def)
  have "\<not> rc_mass (sample_conf False)" by (simp add: sample_conf_simps)
  from shared_prune_unanimous [OF this run was gone(1)]
  have "judged_gone sample_world agreeing sample_store ''sale'' sample_owners sample_mode (sample_child 1 ''sale'' 10)"
    by (simp add: start_state_def sample_mode_def)
  with gone show ?thesis by (simp add: sample_shared_owners run)
qed

end
