(* ===== verification/Jobs.thy ===== *)
theory Jobs
  imports Py_Strings Complex_Main
begin

section \<open>Indexer jobs (src/db/job_registry.py)\<close>

text \<open>
  The table \<open>indexer_jobs\<close>, its operations, the rule that tells whether the process of an unfinished job is gone, the sweep at
  start-up and the reset route of \<^verbatim>\<open>routes/jobs.py\<close>. What the operating system answers is a record: the files of
  \<^verbatim>\<open>/proc\<close>, \<^verbatim>\<open>kill(pid, 0)\<close>, the clock ticks per second and Python's reading of a decimal. Instants are seconds as
  rationals; the rows keep them as such, so the text form of \<^verbatim>\<open>get_job\<close>, which \<^verbatim>\<open>_as_datetime\<close> reads back, is left out.
  The sweep updates one row at a time, each in a transaction of its own: \<open>others k\<close> is what other processes
  write before the \<open>k\<close>-th row is looked at, and \<open>os k\<close> what the system answers then.
\<close>

subsection \<open>Process identity\<close>

text \<open>\<^verbatim>\<open>str.split()\<close>: the words between runs of white space.\<close>

fun split_words :: "string \<Rightarrow> string \<Rightarrow> string list" where
  "split_words w [] = (if w = [] then [] else [w])"
| "split_words w (c # cs) = (if is_space c then (if w = [] then split_words [] cs else w # split_words [] cs) else split_words (w @ [c]) cs)"

definition words_of :: "string \<Rightarrow> string list" where
  "words_of s = split_words [] s"

text \<open>What follows the last closing parenthesis, without the blank after it.\<close>

definition after_comm :: "string \<Rightarrow> string option" where
  "after_comm raw = (if CHR '')'' \<in> set raw then Some (drop 1 (rev (takeWhile (\<lambda>c. c \<noteq> CHR '')'') (rev raw)))) else None)"

definition parse_starttime :: "string \<Rightarrow> int option" where
  "parse_starttime raw =
     Option.bind (after_comm raw) (\<lambda>s. let fields = words_of s in if length fields \<le> 22 - 3 then None else py_int (fields ! (22 - 3)))"

datatype kill_answer = Exists | Other_user | No_process

record os_view =
  os_stat :: "string list option"
  os_pid_stat :: "int \<Rightarrow> string option"
  os_boot_id :: "string option"
  os_float :: "string \<Rightarrow> rat option"
  os_clk_tck :: "rat option"
  os_kill :: "int \<Rightarrow> kill_answer"

definition boot_time :: "os_view \<Rightarrow> rat option" where
  "boot_time os =
     Option.bind (os_stat os) (\<lambda>ls. Option.bind (find (\<lambda>l. startswith l ''btime '') ls) (\<lambda>l.
       case words_of l of _ # x # _ \<Rightarrow> os_float os x | _ \<Rightarrow> None))"

definition start_ticks :: "os_view \<Rightarrow> int \<Rightarrow> int option" where
  "start_ticks os pid = Option.bind (os_pid_stat os pid) parse_starttime"

definition start_time :: "os_view \<Rightarrow> int \<Rightarrow> rat option" where
  "start_time os pid =
     Option.bind (boot_time os) (\<lambda>boot. Option.bind (start_ticks os pid) (\<lambda>ticks. map_option (\<lambda>hz. boot + of_int ticks / hz) (os_clk_tck os)))"

definition boot_id :: "os_view \<Rightarrow> string option" where
  "boot_id os = Option.bind (os_boot_id os) (\<lambda>raw. if strip raw = [] then None else Some (strip raw))"

definition own_process_identity :: "os_view \<Rightarrow> int \<Rightarrow> int option \<times> string option" where
  "own_process_identity os pid = (start_ticks os pid, boot_id os)"

subsection \<open>The table\<close>

definition VALID_STATUSES :: "string list" where
  "VALID_STATUSES = [''queued'', ''running'', ''done'', ''error'']"

record job =
  j_id :: int
  j_profile_name :: string
  j_status :: string
  j_pid :: "int option"
  j_started_at :: "rat option"
  j_finished_at :: "rat option"
  j_error_msg :: "string option"
  j_created_at :: rat
  j_proc_start_ticks :: "int option"
  j_boot_id :: "string option"

text \<open>\<open>jt_identity\<close> says whether migration 0004 has added the identity columns.\<close>

record job_table =
  jt_rows :: "job list"
  jt_next_id :: int
  jt_identity :: bool

datatype job_error = Invalid_status | Job_not_found

record job_update =
  u_status :: "string option"
  u_pid :: "int option"
  u_started_at :: "rat option"
  u_finished_at :: "rat option"
  u_error_msg :: "string option"
  u_proc_start_ticks :: "int option"
  u_boot_id :: "string option"

definition no_update :: job_update where
  "no_update = \<lparr>u_status = None, u_pid = None, u_started_at = None, u_finished_at = None, u_error_msg = None, u_proc_start_ticks = None, u_boot_id = None\<rparr>"

definition written :: "'a option \<Rightarrow> 'a option \<Rightarrow> 'a option" where
  "written u old = (case u of None \<Rightarrow> old | Some _ \<Rightarrow> u)"

definition set_columns :: "job_update \<Rightarrow> job \<Rightarrow> job" where
  "set_columns u r = r\<lparr>j_status := (case u_status u of None \<Rightarrow> j_status r | Some s \<Rightarrow> s), j_pid := written (u_pid u) (j_pid r),
     j_started_at := written (u_started_at u) (j_started_at r), j_finished_at := written (u_finished_at u) (j_finished_at r),
     j_error_msg := written (u_error_msg u) (j_error_msg r), j_proc_start_ticks := written (u_proc_start_ticks u) (j_proc_start_ticks r),
     j_boot_id := written (u_boot_id u) (j_boot_id r)\<rparr>"

definition execute_update :: "int \<Rightarrow> job_update \<Rightarrow> job_table \<Rightarrow> (job_error + unit) \<times> job_table" where
  "execute_update i u t =
     (if list_ex (\<lambda>r. j_id r = i) (jt_rows t) then (Inr (), t\<lparr>jt_rows := map (\<lambda>r. if j_id r = i then set_columns u r else r) (jt_rows t)\<rparr>)
      else (Inl Job_not_found, t))"

text \<open>Without the identity columns the statement is repeated without them.\<close>

definition update_job :: "int \<Rightarrow> job_update \<Rightarrow> job_table \<Rightarrow> (job_error + unit) \<times> job_table" where
  "update_job i u t =
     (if (case u_status u of None \<Rightarrow> False | Some s \<Rightarrow> s \<notin> set VALID_STATUSES) then (Inl Invalid_status, t)
      else if u = no_update then (Inr (), t)
      else if jt_identity t \<or> u_proc_start_ticks u = None \<and> u_boot_id u = None then execute_update i u t
      else
        let rest = u\<lparr>u_proc_start_ticks := None, u_boot_id := None\<rparr>
        in execute_update i rest t)"

definition create_job :: "string \<Rightarrow> rat \<Rightarrow> job_table \<Rightarrow> int \<times> job_table" where
  "create_job profile now t =
     (jt_next_id t, t\<lparr>jt_next_id := jt_next_id t + 1, jt_rows := jt_rows t @
        [\<lparr>j_id = jt_next_id t, j_profile_name = profile, j_status = ''queued'', j_pid = None, j_started_at = None, j_finished_at = None,
          j_error_msg = None, j_created_at = now, j_proc_start_ticks = None, j_boot_id = None\<rparr>]\<rparr>)"

definition get_job :: "int \<Rightarrow> job_table \<Rightarrow> job option" where
  "get_job i t = find (\<lambda>r. j_id r = i) (jt_rows t)"

definition list_running_jobs :: "job_table \<Rightarrow> job list" where
  "list_running_jobs t = sort_key j_created_at (filter (\<lambda>r. j_status r = ''running'') (jt_rows t))"

definition get_last_job :: "string \<Rightarrow> job_table \<Rightarrow> job option" where
  "get_last_job profile t =
     (case sort_key (\<lambda>r. - j_created_at r) (filter (\<lambda>r. j_profile_name r = profile) (jt_rows t)) of [] \<Rightarrow> None | r # _ \<Rightarrow> Some r)"

definition list_all_jobs :: "job_table \<Rightarrow> job list" where
  "list_all_jobs t = sort_key (\<lambda>r. - j_created_at r) (jt_rows t)"

subsection \<open>Whether the process is gone\<close>

definition START_SLACK_S :: rat where
  "START_SLACK_S = 120"

text \<open>Python's \<^verbatim>\<open>int()\<close> of a number cuts towards zero.\<close>

definition int_of_rat :: "rat \<Rightarrow> int" where
  "int_of_rat x = (if x < 0 then \<lceil>x\<rceil> else \<lfloor>x\<rfloor>)"

definition job_staleness :: "os_view \<Rightarrow> rat \<Rightarrow> rat \<Rightarrow> job \<Rightarrow> string option" where
  "job_staleness os ttl now row =
     (let age = now - j_created_at row;
          pid_text = (case j_pid row of None \<Rightarrow> ''none'' | Some p \<Rightarrow> str_int p)
      in if j_status row = ''queued'' \<and> j_started_at row = None \<and> age > ttl
         then Some (''Job stayed queued for '' @ str_int (int_of_rat age) @ ''s (limit '' @ str_int (int_of_rat ttl) @ ''s, pid '' @ pid_text @
           ''): the indexer process never started or died before reporting'')
         else case j_pid row of
           None \<Rightarrow> None
         | Some pid \<Rightarrow>
             if os_kill os pid = No_process then Some (''Process died unexpectedly (PID '' @ pid_text @ '' not found)'')
             else case (j_proc_start_ticks row, j_boot_id row) of
               (Some ticks, Some b) \<Rightarrow>
                 if boot_id os \<noteq> None \<and> boot_id os \<noteq> Some b
                 then Some (''PID '' @ pid_text @ '' is not the job's process: the machine rebooted after the job started (boot id differs)'')
                 else if start_ticks os pid \<noteq> None \<and> start_ticks os pid \<noteq> Some ticks
                 then Some (''PID '' @ pid_text @ '' is not the job's process: its start ticks differ from the job's (pid reused)'')
                 else None
             | _ \<Rightarrow>
                 (case j_started_at row of
                    None \<Rightarrow> None
                  | Some ref \<Rightarrow>
                      if (case boot_time os of None \<Rightarrow> False | Some b \<Rightarrow> b > ref + START_SLACK_S)
                      then Some (''PID '' @ pid_text @ '' is not the job's process: the machine booted after the job started'')
                      else if (case start_time os pid of None \<Rightarrow> False | Some b \<Rightarrow> b > ref + START_SLACK_S)
                      then Some (''PID '' @ pid_text @ '' is not the job's process: it started after the job did (pid reused)'')
                      else None))"

definition unfinished :: "job \<Rightarrow> bool" where
  "unfinished r = (j_status r = ''running'' \<or> j_status r = ''queued'')"

definition dead_update :: "rat \<Rightarrow> string \<Rightarrow> job_update" where
  "dead_update now msg = no_update\<lparr>u_status := Some ''error'', u_finished_at := Some now, u_error_msg := Some msg\<rparr>"

fun mark_rows ::
  "(nat \<Rightarrow> os_view) \<Rightarrow> (nat \<Rightarrow> job_table \<Rightarrow> job_table) \<Rightarrow> rat \<Rightarrow> rat \<Rightarrow> nat \<Rightarrow> job list \<Rightarrow> nat \<Rightarrow> job_table \<Rightarrow> (job_error + nat) \<times> job_table" where
  "mark_rows os others ttl now k [] marked t = (Inr marked, t)"
| "mark_rows os others ttl now k (row # rows) marked t =
     (let t1 = others k t
      in case job_staleness (os k) ttl now row of
           None \<Rightarrow> mark_rows os others ttl now (Suc k) rows marked t1
         | Some reason \<Rightarrow>
             (case update_job (j_id row) (dead_update now (reason @ '' (found at Web UI startup)'')) t1 of
                (Inl e, t2) \<Rightarrow> (Inl e, t2)
              | (Inr _, t2) \<Rightarrow> mark_rows os others ttl now (Suc k) rows (Suc marked) t2))"

definition mark_dead_jobs ::
  "(nat \<Rightarrow> os_view) \<Rightarrow> (nat \<Rightarrow> job_table \<Rightarrow> job_table) \<Rightarrow> rat \<Rightarrow> rat \<Rightarrow> job_table \<Rightarrow> (job_error + nat) \<times> job_table" where
  "mark_dead_jobs os others ttl now t = mark_rows os others ttl now 0 (sort_key j_created_at (filter unfinished (jt_rows t))) 0 t"

text \<open>The reset route: HTTP status and table; \<open>others\<close> is what is written between its read and its update.\<close>

definition reset_stuck_job :: "os_view \<Rightarrow> (job_table \<Rightarrow> job_table) \<Rightarrow> rat \<Rightarrow> rat \<Rightarrow> int \<Rightarrow> job_table \<Rightarrow> nat \<times> job_table" where
  "reset_stuck_job os others ttl now i t =
     (case get_job i t of
        None \<Rightarrow> (404, t)
      | Some job \<Rightarrow>
          if \<not> unfinished job then (409, t)
          else
            let reason = job_staleness os ttl now job
            in if reason = None \<and> j_pid job \<noteq> None then (409, t)
               else case update_job i (dead_update now (''Reset by admin: '' @ (case reason of None \<Rightarrow> ''process not found'' | Some x \<Rightarrow> x))) (others t) of
                 (Inl _, t') \<Rightarrow> (500, t')
               | (Inr _, t') \<Rightarrow> (200, t'))"

subsection \<open>What the sweep does\<close>

definition stale :: "os_view \<Rightarrow> rat \<Rightarrow> rat \<Rightarrow> job \<Rightarrow> bool" where
  "stale os ttl now r \<longleftrightarrow> job_staleness os ttl now r \<noteq> None"

definition mark_dead :: "os_view \<Rightarrow> rat \<Rightarrow> rat \<Rightarrow> job \<Rightarrow> job \<Rightarrow> job" where
  "mark_dead os ttl now row r = r\<lparr>j_status := ''error'', j_finished_at := Some now,
     j_error_msg := Some (the (job_staleness os ttl now row) @ '' (found at Web UI startup)'')\<rparr>"

lemma dead_columns:
  "set_columns (dead_update now (the (job_staleness os ttl now row) @ '' (found at Web UI startup)'')) = mark_dead os ttl now row"
  by (rule ext) (simp add: set_columns_def dead_update_def no_update_def mark_dead_def written_def)

lemma dead_valid [simp]: "u_status (dead_update now msg) = Some ''error''" "''error'' \<in> set VALID_STATUSES" "dead_update now msg \<noteq> no_update"
  "u_proc_start_ticks (dead_update now msg) = None" "u_boot_id (dead_update now msg) = None"
  by (simp_all add: dead_update_def no_update_def VALID_STATUSES_def)

lemma update_dead:
  assumes "row \<in> set (jt_rows t)"
  shows "update_job (j_id row) (dead_update now msg) t =
    (Inr (), t\<lparr>jt_rows := map (\<lambda>r. if j_id r = j_id row then set_columns (dead_update now msg) r else r) (jt_rows t)\<rparr>)"
  using assms by (auto simp: update_job_def execute_update_def list_ex_iff)

text \<open>The rows the sweep has seen, and what it makes of a row of the table.\<close>

definition swept :: "os_view \<Rightarrow> rat \<Rightarrow> rat \<Rightarrow> job list \<Rightarrow> job \<Rightarrow> job" where
  "swept os ttl now rows r = (case find (\<lambda>x. j_id x = j_id r \<and> stale os ttl now x) rows of None \<Rightarrow> r | Some row \<Rightarrow> mark_dead os ttl now row r)"

lemma mark_dead_id [simp]: "j_id (mark_dead os ttl now row r) = j_id r"
  by (simp add: mark_dead_def)

lemma mark_rows_quiet:
  assumes "distinct (map j_id rows)" and "j_id ` set rows \<subseteq> j_id ` set (jt_rows t)"
  shows "mark_rows (\<lambda>_. os) (\<lambda>_ t. t) ttl now k rows n t =
    (Inr (n + length (filter (stale os ttl now) rows)), t\<lparr>jt_rows := map (swept os ttl now rows) (jt_rows t)\<rparr>)"
  using assms
proof (induction rows arbitrary: k n t)
  case Nil
  have "swept os ttl now [] = (\<lambda>r. r)" by (rule ext) (simp add: swept_def)
  then show ?case by simp
next
  case (Cons row rows)
  show ?case
  proof (cases "job_staleness os ttl now row")
    case None
    then have "\<not> stale os ttl now row" by (simp add: stale_def)
    moreover from this have "swept os ttl now (row # rows) = swept os ttl now rows" by (intro ext) (simp add: swept_def)
    ultimately show ?thesis using None Cons by simp
  next
    case (Some reason)
    then have st: "stale os ttl now row" by (simp add: stale_def)
    let ?g = "\<lambda>r. if j_id r = j_id row then mark_dead os ttl now row r else r"
    let ?t = "t\<lparr>jt_rows := map ?g (jt_rows t)\<rparr>"
    obtain x where x: "x \<in> set (jt_rows t)" "j_id x = j_id row" using Cons.prems(2) by auto
    have upd: "update_job (j_id row) (dead_update now (reason @ '' (found at Web UI startup)'')) t = (Inr (), ?t)"
      using update_dead [OF x(1), of now "reason @ '' (found at Web UI startup)''"] dead_columns [of now os ttl row] Some x(2) by (simp cong: map_cong)
    have "map j_id (jt_rows ?t) = map j_id (jt_rows t)" by simp
    then have ids: "j_id ` set (jt_rows ?t) = j_id ` set (jt_rows t)" by (metis set_map)
    have IH: "mark_rows (\<lambda>_. os) (\<lambda>_ t. t) ttl now (Suc k) rows (Suc n) ?t =
        (Inr (Suc n + length (filter (stale os ttl now) rows)), ?t\<lparr>jt_rows := map (swept os ttl now rows) (jt_rows ?t)\<rparr>)"
      by (rule Cons.IH) (use Cons.prems ids in auto)
    have other: "find (\<lambda>y. j_id y = j_id row \<and> stale os ttl now y) rows = None" using Cons.prems(1) by (simp add: find_None_iff) (metis image_eqI)
    have "swept os ttl now rows (?g r) = swept os ttl now (row # rows) r" for r
      using st other by (cases "j_id r = j_id row") (simp_all add: swept_def)
    then have "map (swept os ttl now rows) (jt_rows ?t) = map (swept os ttl now (row # rows)) (jt_rows t)" by simp
    with IH upd Some st show ?thesis by simp
  qed
qed

text \<open>C40. The start-up sweep, when no other process writes meanwhile: it raises nothing, turns exactly the unfinished jobs whose process is
  gone by the staleness rule into errors that carry the reason and the time, leaves every other job and every other column as
  they were, and returns their number.\<close>

theorem mark_dead_jobs_exact:
  assumes "distinct (map j_id (jt_rows t))"
  shows "mark_dead_jobs (\<lambda>_. os) (\<lambda>_ t. t) ttl now t =
    (Inr (length (filter (\<lambda>r. unfinished r \<and> stale os ttl now r) (jt_rows t))),
     t\<lparr>jt_rows := map (\<lambda>r. if unfinished r \<and> stale os ttl now r then mark_dead os ttl now r r else r) (jt_rows t)\<rparr>)"
proof -
  let ?rows = "sort_key j_created_at (filter unfinished (jt_rows t))"
  have inj: "r = x" if "r \<in> set (jt_rows t)" "x \<in> set (jt_rows t)" "j_id r = j_id x" for r x
    using assms that by (auto simp: distinct_map inj_on_def)
  have "mset (map j_id ?rows) = mset (map j_id (filter unfinished (jt_rows t)))" by simp
  then have dist: "distinct (map j_id ?rows)" using assms distinct_map_filter mset_eq_imp_distinct_iff by metis
  have "swept os ttl now ?rows r = (if unfinished r \<and> stale os ttl now r then mark_dead os ttl now r r else r)" if r: "r \<in> set (jt_rows t)" for r
  proof (cases "find (\<lambda>x. j_id x = j_id r \<and> stale os ttl now x) ?rows")
    case None
    then have "\<not> (unfinished r \<and> stale os ttl now r)" using r by (auto simp: find_None_iff)
    with None show ?thesis by (auto simp: swept_def)
  next
    case (Some x)
    then have x: "x \<in> set ?rows" "j_id x = j_id r" "stale os ttl now x" unfolding find_Some_iff by (metis nth_mem)+
    then have "x = r" using inj [of x r] r by simp
    with x Some show ?thesis by (simp add: swept_def)
  qed
  then have rows: "map (swept os ttl now ?rows) (jt_rows t) = map (\<lambda>r. if unfinished r \<and> stale os ttl now r then mark_dead os ttl now r r else r) (jt_rows t)"
    by simp
  have "mset (filter (stale os ttl now) ?rows) = mset (filter (\<lambda>r. unfinished r \<and> stale os ttl now r) (jt_rows t))"
    by (simp add: mset_filter filter_filter_mset conj_commute)
  then have len: "length (filter (stale os ttl now) ?rows) = length (filter (\<lambda>r. unfinished r \<and> stale os ttl now r) (jt_rows t))"
    by (rule mset_eq_length)
  show ?thesis unfolding mark_dead_jobs_def using mark_rows_quiet [OF dist, of t os ttl now 0 0] rows len by auto
qed

text \<open>A job that reports its end between the read of the sweep and its update, and whose process is gone by then, is turned
  from done into an error: the update does not look at the status again.\<close>

theorem sweep_overwrites_done:
  assumes "jt_rows t = [row]" and "j_status row = ''running''" and "j_pid row = Some p" and "os_kill (os 0) p = No_process"
    and others: "others 0 t = snd (update_job (j_id row) (no_update\<lparr>u_status := Some ''done'', u_finished_at := Some f\<rparr>) t)"
  shows "map j_status (jt_rows (others 0 t)) = [''done''] \<and> fst (mark_dead_jobs os others ttl now t) = Inr 1 \<and>
    map j_status (jt_rows (snd (mark_dead_jobs os others ttl now t))) = [''error'']"
proof -
  let ?u = "no_update\<lparr>u_status := Some ''done'', u_finished_at := Some f\<rparr>"
  have t1: "jt_rows (others 0 t) = [set_columns ?u row]"
    using assms(1) by (simp add: others update_job_def execute_update_def no_update_def VALID_STATUSES_def)
  have id: "j_id (set_columns u r) = j_id r" for u r by (simp add: set_columns_def)
  obtain reason where reason: "job_staleness (os 0) ttl now row = Some reason" using assms(2-4) by (simp add: job_staleness_def Let_def)
  have upd: "update_job (j_id row) (dead_update now msg) (others 0 t) =
      (Inr (), (others 0 t)\<lparr>jt_rows := [set_columns (dead_update now msg) (set_columns ?u row)]\<rparr>)" for msg
    by (simp add: update_job_def execute_update_def t1 id)
  have rows: "sort_key j_created_at (filter unfinished (jt_rows t)) = [row]" using assms(1,2) by (simp add: unfinished_def)
  have "mark_dead_jobs os others ttl now t = (Inr 1, (others 0 t)\<lparr>jt_rows :=
      [set_columns (dead_update now (reason @ '' (found at Web UI startup)'')) (set_columns ?u row)]\<rparr>)"
    unfolding mark_dead_jobs_def rows by (simp add: reason upd)
  then show ?thesis by (simp add: t1 set_columns_def dead_update_def no_update_def)
qed

subsection \<open>Runs of the table\<close>

definition jobs_ok :: "job_table \<Rightarrow> bool" where
  "jobs_ok t \<longleftrightarrow> distinct (map j_id (jt_rows t)) \<and> list_all (\<lambda>r. j_id r < jt_next_id t \<and> j_status r \<in> set VALID_STATUSES) (jt_rows t)"

inductive job_step :: "job_table \<Rightarrow> job_table \<Rightarrow> bool" where
  created: "job_step t (snd (create_job profile now t))"
| updated: "job_step t (snd (update_job i u t))"

lemma execute_update_ok:
  assumes "jobs_ok t" and "\<And>s. u_status u = Some s \<Longrightarrow> s \<in> set VALID_STATUSES"
  shows "jobs_ok (snd (execute_update i u t))"
proof -
  have same: "map j_id (map (\<lambda>r. if j_id r = i then set_columns u r else r) (jt_rows t)) = map j_id (jt_rows t)" by (simp add: set_columns_def)
  have cols: "j_id (set_columns u r) = j_id r" "j_status (set_columns u r) = (case u_status u of None \<Rightarrow> j_status r | Some s \<Rightarrow> s)" for r
    by (simp_all add: set_columns_def)
  have "distinct (map j_id (map (\<lambda>r. if j_id r = i then set_columns u r else r) (jt_rows t)))"
    using assms(1) unfolding same by (simp add: jobs_ok_def)
  moreover have "list_all (\<lambda>r. j_id r < jt_next_id t \<and> j_status r \<in> set VALID_STATUSES)
      (map (\<lambda>r. if j_id r = i then set_columns u r else r) (jt_rows t))"
    using assms by (auto simp: jobs_ok_def cols list_all_iff split: option.splits)
  ultimately have "jobs_ok (t\<lparr>jt_rows := map (\<lambda>r. if j_id r = i then set_columns u r else r) (jt_rows t)\<rparr>)"
    unfolding jobs_ok_def by simp
  with assms(1) show ?thesis by (simp add: execute_update_def)
qed

lemma job_step_ok: "job_step t t' \<Longrightarrow> jobs_ok t \<Longrightarrow> jobs_ok t'"
proof (induction rule: job_step.induct)
  case (created t profile now)
  then show ?case by (auto simp: jobs_ok_def create_job_def VALID_STATUSES_def list_all_iff)
next
  case (updated t i u)
  then show ?case by (auto simp: update_job_def Let_def intro!: execute_update_ok split: option.splits)
qed

lemma mark_rows_steps:
  assumes "\<And>k t. job_step\<^sup>*\<^sup>* t (others k t)"
  shows "job_step\<^sup>*\<^sup>* t (snd (mark_rows os others ttl now k rows n t))"
proof (induction rows arbitrary: k n t)
  case (Cons row rows)
  let ?u = "dead_update now (the (job_staleness (os k) ttl now row) @ '' (found at Web UI startup)'')"
  obtain res t2 where upd: "update_job (j_id row) ?u (others k t) = (res, t2)" by fastforce
  have "job_step (others k t) t2" using job_step.updated [of "others k t" "j_id row" ?u] by (simp add: upd)
  with assms [of t k] have "job_step\<^sup>*\<^sup>* t t2" by (rule rtranclp.rtrancl_into_rtrancl)
  with Cons.IH [where k = "Suc k" and n = "Suc n" and t = t2] Cons.IH [where k = "Suc k" and n = n and t = "others k t"] assms [of t k] upd show ?case
    by (auto simp: Let_def split: option.splits sum.splits intro: rtranclp_trans)
qed simp

text \<open>Whatever is created and updated, beside the sweep and by it, the numbers of the jobs stay unique and their status one of the four.\<close>

theorem job_table_stays_valid:
  assumes "jobs_ok t" and "job_step\<^sup>*\<^sup>* t t1" and "\<And>k t. job_step\<^sup>*\<^sup>* t (others k t)"
  shows "jobs_ok (snd (mark_dead_jobs os others ttl now t1))"
proof -
  have "job_step\<^sup>*\<^sup>* t (snd (mark_dead_jobs os others ttl now t1))"
    unfolding mark_dead_jobs_def using assms(2) mark_rows_steps [OF assms(3)] by (rule rtranclp_trans)
  then show ?thesis by (induction rule: rtranclp_induct) (auto intro: assms(1) job_step_ok)
qed

subsection \<open>Witness\<close>

definition sample_os :: os_view where
  "sample_os = \<lparr>os_stat = None, os_pid_stat = (\<lambda>_. None), os_boot_id = Some ''b1'', os_float = (\<lambda>_. None), os_clk_tck = Some 100,
     os_kill = (\<lambda>p. if p = 11 then No_process else Exists)\<rparr>"

definition sample_job :: "int \<Rightarrow> string \<Rightarrow> int \<Rightarrow> job" where
  "sample_job i st p = \<lparr>j_id = i, j_profile_name = ''std'', j_status = st, j_pid = Some p, j_started_at = Some 10, j_finished_at = None, j_error_msg = None,
     j_created_at = 5, j_proc_start_ticks = Some 7, j_boot_id = Some ''b1''\<rparr>"

definition sample_jobs :: job_table where
  "sample_jobs = \<lparr>jt_rows = [sample_job 1 ''running'' 11, sample_job 2 ''running'' 12, sample_job 3 ''done'' 11], jt_next_id = 4, jt_identity = True\<rparr>"

theorem mark_dead_jobs_exact_witness:
  "fst (mark_dead_jobs (\<lambda>_. sample_os) (\<lambda>_ t. t) 600 1000 sample_jobs) = Inr 1 \<and>
   map j_status (jt_rows (snd (mark_dead_jobs (\<lambda>_. sample_os) (\<lambda>_ t. t) 600 1000 sample_jobs))) = [''error'', ''running'', ''done'']"
proof -
  have "distinct (map j_id (jt_rows sample_jobs))" by (simp add: sample_jobs_def sample_job_def)
  moreover have "map (\<lambda>r. unfinished r \<and> stale sample_os 600 1000 r) (jt_rows sample_jobs) = [True, False, False]"
    by (simp add: sample_jobs_def sample_job_def unfinished_def stale_def job_staleness_def sample_os_def boot_id_def start_ticks_def strip_def is_space_def char_code_def)
  ultimately show ?thesis by (simp add: mark_dead_jobs_exact sample_jobs_def mark_dead_def) (simp add: sample_job_def)
qed

end
