(* ===== verification/Profiles.thy ===== *)
theory Profiles
  imports Py_Strings
begin

section \<open>Profiles, tenants and repositories (src/db/repo_registry.py)\<close>

text \<open>
  The registry of profiles and repositories. A profile belongs to a tenant or is shared (no tenant), and may have a
  parent profile of the same version; a repository belongs to a profile and follows its tenant. Each method is one
  function from the tables to an error or a result and the new tables; its transaction is one step, and a raise leaves the
  tables as they were. Where a method checks by statements of their own before it writes (\<open>validate_parent\<close>, \<open>edit_checks\<close>), the checks are
  functions apart, and the method is their composition on one registry; what comes of a write in between is shown in \<^verbatim>\<open>Profile_Laws\<close>. The tables \<^verbatim>\<open>tenants\<close> and \<^verbatim>\<open>ssh_key_pairs\<close> are the numbers they hold, the ledger
  the repository, profile name and version of its rows. Two recursive queries use \<^verbatim>\<open>UNION ALL\<close> without a bound and do
  not end on a cyclic registry: they are \<^verbatim>\<open>partial_function\<close>s, and a call that does not return is \<open>None\<close>.
\<close>

subsection \<open>Tables\<close>

record profile =
  pf_id :: int
  pf_name :: string
  pf_version :: string
  pf_description :: "string option"
  pf_parent :: "int option"
  pf_tenant :: "int option"

record repo_row =
  rp_id :: int
  rp_profile :: int
  rp_url :: string
  rp_branch :: string
  rp_local_path :: string
  rp_status :: string
  rp_error_msg :: "string option"
  rp_last_indexed_at :: "int option"
  rp_head_sha :: "string option"
  rp_ssh_key :: "int option"
  rp_clone_status :: string
  rp_clone_error_msg :: "string option"
  rp_tenant :: "int option"

record presence =
  pr_repo :: "int option"
  pr_profile_name :: string
  pr_version :: string

record registry =
  rg_profiles :: "profile list"
  rg_repos :: "repo_row list"
  rg_next_profile :: int
  rg_next_repo :: int
  rg_tenants :: "int list"
  rg_ssh_keys :: "int list"
  rg_presence :: "presence list"

datatype reg_error =
    Profile_not_found | Parent_not_found | Version_mismatch | Name_taken | Profile_input | Tenant_required | Visibility | Cycle
  | Profile_indexed | Lock_timeout | Value_error | Repo_not_found | Repo_conflict | Check_violation | Unique_violation | Foreign_key

type_synonym 'a reg_result = "(reg_error + 'a) \<times> registry"

definition fail :: "reg_error \<Rightarrow> registry \<Rightarrow> 'a reg_result" where
  "fail e s = (Inl e, s)"

definition row_of :: "profile list \<Rightarrow> int \<Rightarrow> profile option" where
  "row_of ps i = find (\<lambda>p. pf_id p = i) ps"

definition row_named :: "profile list \<Rightarrow> string \<Rightarrow> profile option" where
  "row_named ps n = find (\<lambda>p. pf_name p = n) ps"

definition repo_of :: "registry \<Rightarrow> int \<Rightarrow> repo_row option" where
  "repo_of s i = find (\<lambda>r. rp_id r = i) (rg_repos s)"

definition update_row :: "int \<Rightarrow> (profile \<Rightarrow> profile) \<Rightarrow> registry \<Rightarrow> registry" where
  "update_row i f s = s\<lparr>rg_profiles := map (\<lambda>p. if pf_id p = i then f p else p) (rg_profiles s)\<rparr>"

definition update_repo_row :: "int \<Rightarrow> (repo_row \<Rightarrow> repo_row) \<Rightarrow> registry \<Rightarrow> registry" where
  "update_repo_row i f s = s\<lparr>rg_repos := map (\<lambda>r. if rp_id r = i then f r else r) (rg_repos s)\<rparr>"

subsection \<open>Shape and visibility\<close>

definition is_letter :: "char \<Rightarrow> bool" where
  "is_letter c = (let k = char_code c in 65 \<le> k \<and> k \<le> 90 \<or> 97 \<le> k \<and> k \<le> 122)"

definition profile_name_ok :: "string \<Rightarrow> bool" where
  "profile_name_ok n = (1 \<le> length n \<and> length n \<le> 50 \<and> list_all (\<lambda>c. is_letter c \<or> is_digit c \<or> c = CHR ''_'') n)"

definition odoo_version_ok :: "string \<Rightarrow> bool" where
  "odoo_version_ok v =
     (let major = takeWhile is_digit v; rest = dropWhile is_digit v
      in 1 \<le> length major \<and> length major \<le> 2 \<and> (case rest of [] \<Rightarrow> False | c # ds \<Rightarrow> c = CHR ''.'' \<and> ds \<noteq> [] \<and> list_all is_digit ds))"

definition validate_profile_identity :: "string \<Rightarrow> string \<Rightarrow> bool" where
  "validate_profile_identity n v = (profile_name_ok n \<and> odoo_version_ok v)"

text \<open>The two checks of the table on a name: no comma, and no two underscores in front.\<close>

definition name_check :: "string \<Rightarrow> bool" where
  "name_check n = (CHR '','' \<notin> set n \<and> \<not> startswith n ''__'')"

definition check_child_visibility :: "int option \<Rightarrow> int option \<Rightarrow> bool" where
  "check_child_visibility child parent = (parent = None \<or> child = parent)"

definition resolve_new_profile_tenant :: "int option \<Rightarrow> bool \<Rightarrow> int option \<Rightarrow> bool \<Rightarrow> reg_error + int option" where
  "resolve_new_profile_tenant parent_tenant has_parent tenant shared =
     (if shared \<and> tenant \<noteq> None then Inl Profile_input
      else if has_parent \<and> parent_tenant \<noteq> None then
        (if shared \<and> \<not> check_child_visibility None parent_tenant then Inl Visibility
         else if tenant = None then Inr parent_tenant
         else if \<not> check_child_visibility tenant parent_tenant then Inl Visibility
         else Inr tenant)
      else if tenant \<noteq> None then Inr tenant
      else if shared then Inr None
      else Inl Tenant_required)"

definition tenant_exists :: "registry \<Rightarrow> int option \<Rightarrow> bool" where
  "tenant_exists s t = (case t of None \<Rightarrow> True | Some i \<Rightarrow> i \<in> set (rg_tenants s))"

subsection \<open>Profiles\<close>

definition insert_profile :: "string \<Rightarrow> string \<Rightarrow> string \<Rightarrow> int option \<Rightarrow> int option \<Rightarrow> registry \<Rightarrow> int reg_result" where
  "insert_profile n v d parent tenant s =
     (if \<not> name_check n then fail Check_violation s
      else if row_named (rg_profiles s) n \<noteq> None then fail Name_taken s
      else if \<not> tenant_exists s tenant then fail Profile_input s
      else (Inr (rg_next_profile s), s\<lparr>rg_next_profile := rg_next_profile s + 1, rg_profiles := rg_profiles s @
        [\<lparr>pf_id = rg_next_profile s, pf_name = n, pf_version = v, pf_description = Some d, pf_parent = parent, pf_tenant = tenant\<rparr>]\<rparr>))"

definition add_profile :: "string \<Rightarrow> string \<Rightarrow> string \<Rightarrow> int option \<Rightarrow> int option \<Rightarrow> bool \<Rightarrow> registry \<Rightarrow> int reg_result" where
  "add_profile n v d parent tenant shared s =
     (if \<not> validate_profile_identity n v then fail Profile_input s
      else case parent of
        None \<Rightarrow>
          (case resolve_new_profile_tenant None False tenant shared of
             Inl e \<Rightarrow> fail e s | Inr t \<Rightarrow> insert_profile n v d None t s)
      | Some i \<Rightarrow>
          (case row_of (rg_profiles s) i of
             None \<Rightarrow> fail Parent_not_found s
           | Some p \<Rightarrow>
               if pf_version p \<noteq> v then fail Version_mismatch s
               else case resolve_new_profile_tenant (pf_tenant p) True tenant shared of
                 Inl e \<Rightarrow> fail e s | Inr t \<Rightarrow> insert_profile n v d parent t s))"

definition get_profile_tenant_id :: "string \<Rightarrow> registry \<Rightarrow> int option option" where
  "get_profile_tenant_id n s = map_option pf_tenant (row_named (rg_profiles s) n)"

text \<open>The query of the cycle check: \<^verbatim>\<open>UNION\<close> keeps a row once, so the walk stops at a profile it has seen.\<close>

function ancestors :: "profile list \<Rightarrow> int list \<Rightarrow> int \<Rightarrow> int list" where
  "ancestors ps seen i =
     (case row_of ps i of
        None \<Rightarrow> []
      | Some p \<Rightarrow>
          if i \<in> set seen then []
          else i # (case pf_parent p of None \<Rightarrow> [] | Some q \<Rightarrow> ancestors ps (i # seen) q))"
  by pat_completeness auto
termination
proof (relation "measure (\<lambda>(ps, seen, i). length (filter (\<lambda>p. pf_id p \<notin> set seen) ps))", goal_cases)
  case (2 ps seen i p q)
  then have p: "p \<in> set ps" "pf_id p = i" by (auto simp: row_of_def find_Some_iff)
  have "length (filter (\<lambda>p. pf_id p \<notin> set (i # seen)) ps) < length (filter (\<lambda>p. pf_id p \<notin> set seen) ps)"
    using length_filter_less [of p "filter (\<lambda>p. pf_id p \<notin> set seen) ps" "\<lambda>p. pf_id p \<noteq> i"] p 2(2) by (simp add: conj_commute)
  then show ?case by simp
qed simp

declare ancestors.simps [simp del]

definition validate_parent :: "int \<Rightarrow> int option \<Rightarrow> registry \<Rightarrow> reg_error option" where
  "validate_parent i parent s =
     (case parent of
        None \<Rightarrow> None
      | Some q \<Rightarrow>
          if q = i then Some Cycle
          else case (row_of (rg_profiles s) i, row_of (rg_profiles s) q) of
            (None, _) \<Rightarrow> Some Profile_not_found
          | (_, None) \<Rightarrow> Some Profile_not_found
          | (Some c, Some p) \<Rightarrow>
              if pf_version c \<noteq> pf_version p then Some Version_mismatch
              else if \<not> check_child_visibility (pf_tenant c) (pf_tenant p) then Some Visibility
              else if i \<in> set (ancestors (rg_profiles s) [] q) then Some Cycle
              else None)"

text \<open>The write of a new parent, and the number of rows it changes.\<close>

definition write_parent :: "int \<Rightarrow> int option \<Rightarrow> registry \<Rightarrow> bool \<times> registry" where
  "write_parent i parent s =
     (list_ex (\<lambda>p. pf_id p = i \<and> pf_parent p \<noteq> parent) (rg_profiles s), update_row i (\<lambda>p. p\<lparr>pf_parent := parent\<rparr>) s)"

definition set_profile_parent :: "int \<Rightarrow> int option \<Rightarrow> registry \<Rightarrow> bool reg_result" where
  "set_profile_parent i parent s =
     (case validate_parent i parent s of
        Some e \<Rightarrow> fail e s
      | None \<Rightarrow>
          let (changed, s1) = write_parent i parent s
          in if \<not> changed \<and> row_of (rg_profiles s1) i = None then fail Profile_not_found s1 else (Inr changed, s1))"

definition children_of :: "profile list \<Rightarrow> int \<Rightarrow> profile list" where
  "children_of ps i = filter (\<lambda>p. pf_parent p = Some i) ps"

definition follow_tenant :: "int \<Rightarrow> int option \<Rightarrow> registry \<Rightarrow> nat \<times> registry" where
  "follow_tenant i tenant s =
     (length (filter (\<lambda>r. rp_profile r = i \<and> rp_tenant r \<noteq> tenant) (rg_repos s)),
      s\<lparr>rg_repos := map (\<lambda>r. if rp_profile r = i then r\<lparr>rp_tenant := tenant\<rparr> else r) (rg_repos s)\<rparr>)"

definition set_profile_tenant :: "int \<Rightarrow> int option \<Rightarrow> bool \<Rightarrow> registry \<Rightarrow> (bool \<times> nat) reg_result" where
  "set_profile_tenant i tenant confirm_shared s =
     (if tenant = None \<and> \<not> confirm_shared then fail Tenant_required s
      else case row_of (rg_profiles s) i of
        None \<Rightarrow> fail Profile_not_found s
      | Some p \<Rightarrow>
          if (case Option.bind (pf_parent p) (row_of (rg_profiles s)) of None \<Rightarrow> False | Some q \<Rightarrow> \<not> check_child_visibility tenant (pf_tenant q))
          then fail Visibility s
          else if list_ex (\<lambda>c. \<not> check_child_visibility (pf_tenant c) tenant) (children_of (rg_profiles s) i) then fail Visibility s
          else if \<not> tenant_exists s tenant then fail Profile_input s
          else
            let (n, s1) = follow_tenant i tenant (update_row i (\<lambda>p. p\<lparr>pf_tenant := tenant\<rparr>) s)
            in (Inr (pf_tenant p \<noteq> tenant, n), s1))"

definition set_repo_tenant :: "int \<Rightarrow> int option \<Rightarrow> registry \<Rightarrow> bool reg_result" where
  "set_repo_tenant i tenant s =
     (case repo_of s i of
        None \<Rightarrow> (Inr False, s)
      | Some r \<Rightarrow>
          (case row_of (rg_profiles s) (rp_profile r) of
             None \<Rightarrow> (Inr False, s)
           | Some p \<Rightarrow>
               if pf_tenant p \<noteq> tenant then fail Visibility s
               else (Inr True, update_repo_row i (\<lambda>r. r\<lparr>rp_tenant := tenant\<rparr>) s)))"

subsection \<open>Changing a profile\<close>

text \<open>The query of all descendants, level by level as the database evaluates it, without a bound.\<close>

partial_function (option) descend :: "profile list \<Rightarrow> profile list \<Rightarrow> profile list option" where
  "descend ps work =
     (if work = [] then Some []
      else Option.bind (descend ps (concat (map (\<lambda>p. children_of ps (pf_id p)) work))) (\<lambda>rest. Some (work @ rest)))"

declare descend.simps [code]

definition has_indexed_repos :: "int \<Rightarrow> registry \<Rightarrow> nat" where
  "has_indexed_repos i s = length (filter (\<lambda>r. rp_profile r = i \<and> rp_head_sha r \<noteq> None) (rg_repos s))"

definition new_value :: "'a option \<Rightarrow> 'a \<Rightarrow> 'a" where
  "new_value u old = (case u of None \<Rightarrow> old | Some v \<Rightarrow> v)"

definition changed_fields :: "profile \<Rightarrow> string option \<Rightarrow> string option \<Rightarrow> string option \<Rightarrow> string list" where
  "changed_fields p n v d =
     (if new_value n (pf_name p) \<noteq> pf_name p then [''name''] else []) @
     (if new_value v (pf_version p) \<noteq> pf_version p then [''odoo_version''] else []) @
     (if d \<noteq> None \<and> d \<noteq> pf_description p then [''description''] else [])"

text \<open>The columns to write are those that differ from the row \<open>p\<close> that was read; the row written is the one found then.\<close>

definition edit_row :: "profile \<Rightarrow> string option \<Rightarrow> string option \<Rightarrow> string option \<Rightarrow> profile \<Rightarrow> profile" where
  "edit_row p n v d q = q\<lparr>
     pf_name := (if new_value n (pf_name p) \<noteq> pf_name p then new_value n (pf_name p) else pf_name q),
     pf_version := (if new_value v (pf_version p) \<noteq> pf_version p then new_value v (pf_version p) else pf_version q),
     pf_description := (if d \<noteq> None \<and> d \<noteq> pf_description p then d else pf_description q)\<rparr>"

text \<open>The update of the row and, for a new name, of the ledger in the same transaction. \<open>lock\<close>: the ledger locks were obtained.\<close>

definition write_profile :: "bool \<Rightarrow> profile \<Rightarrow> string option \<Rightarrow> string option \<Rightarrow> string option \<Rightarrow> registry \<Rightarrow> string list reg_result" where
  "write_profile lock p n v d s =
     (let name = new_value n (pf_name p);
          fields = changed_fields p n v d;
          s1 = update_row (pf_id p) (edit_row p n v d) s
      in if fields = [] then (Inr [], s)
         else if name = pf_name p then (if row_of (rg_profiles s) (pf_id p) = None then fail Profile_not_found s else (Inr fields, s1))
         else if \<not> lock \<and> list_ex (\<lambda>l. pr_profile_name l = pf_name p) (rg_presence s) then fail Lock_timeout s
         else if row_of (rg_profiles s) (pf_id p) = None then fail Profile_not_found s
         else if \<not> name_check name then fail Check_violation s
         else if list_ex (\<lambda>q. pf_name q = name \<and> pf_id q \<noteq> pf_id p) (rg_profiles s) then fail Name_taken s
         else if pf_name p = [] \<or> name = [] then fail Value_error s
         else (Inr fields, s1\<lparr>rg_presence := map (\<lambda>l. if pr_profile_name l = pf_name p then l\<lparr>pr_profile_name := name\<rparr> else l) (rg_presence s)\<rparr>))"

text \<open>The checks before it: the row, the count of its indexed repositories, its parent and its descendants, read by four statements of their
  own, each from the registry of its time. \<open>None\<close>: the query of the descendants does not return.\<close>

definition edit_checks :: "registry \<Rightarrow> registry \<Rightarrow> registry \<Rightarrow> registry \<Rightarrow> int \<Rightarrow> string option \<Rightarrow> string option \<Rightarrow> (reg_error + profile) option" where
  "edit_checks s0 s1 s2 s3 i n v =
     (case row_of (rg_profiles s0) i of
        None \<Rightarrow> Some (Inl Profile_not_found)
      | Some p \<Rightarrow>
          let version = new_value v (pf_version p)
          in if (new_value n (pf_name p) \<noteq> pf_name p \<or> version \<noteq> pf_version p) \<and> has_indexed_repos i s1 > 0 then Some (Inl Profile_indexed)
             else if version = pf_version p then Some (Inr p)
             else if (case Option.bind (pf_parent p) (row_of (rg_profiles s2)) of None \<Rightarrow> False | Some q \<Rightarrow> pf_version q \<noteq> version)
             then Some (Inl Version_mismatch)
             else Option.bind (descend (rg_profiles s3) (children_of (rg_profiles s3) i)) (\<lambda>below.
               Some (if list_ex (\<lambda>c. pf_version c \<noteq> version) below then Inl Version_mismatch else Inr p)))"

text \<open>The call when nothing is written between its statements.\<close>

definition update_profile :: "bool \<Rightarrow> int \<Rightarrow> string option \<Rightarrow> string option \<Rightarrow> string option \<Rightarrow> registry \<Rightarrow> string list reg_result option" where
  "update_profile lock i n v d s =
     Option.bind (edit_checks s s s s i n v) (\<lambda>checked.
       Some (case checked of Inl e \<Rightarrow> fail e s | Inr p \<Rightarrow> write_profile lock p n v d s))"

definition drop_repos :: "(repo_row \<Rightarrow> bool) \<Rightarrow> registry \<Rightarrow> registry" where
  "drop_repos P s =
     (let gone = map rp_id (filter P (rg_repos s))
      in s\<lparr>rg_repos := filter (\<lambda>r. \<not> P r) (rg_repos s),
           rg_presence := map (\<lambda>l. case pr_repo l of None \<Rightarrow> l | Some i \<Rightarrow> if i \<in> set gone then l\<lparr>pr_repo := None\<rparr> else l) (rg_presence s)\<rparr>)"

definition delete_profile :: "int \<Rightarrow> registry \<Rightarrow> (string \<times> string) list reg_result" where
  "delete_profile i s =
     (case row_of (rg_profiles s) i of
        None \<Rightarrow> fail Value_error s
      | Some p \<Rightarrow>
          if children_of (rg_profiles s) i \<noteq> [] then fail Foreign_key s
          else (Inr (map (\<lambda>r. (path_name (rp_local_path r), pf_version p)) (filter (\<lambda>r. rp_profile r = i) (rg_repos s))),
                (drop_repos (\<lambda>r. rp_profile r = i) s)\<lparr>rg_profiles := filter (\<lambda>q. pf_id q \<noteq> i) (rg_profiles s)\<rparr>))"

subsection \<open>Repositories\<close>

definition add_repo ::
  "int \<Rightarrow> string \<Rightarrow> string \<Rightarrow> string \<Rightarrow> int option \<Rightarrow> string \<Rightarrow> int option option \<Rightarrow> registry \<Rightarrow> int reg_result" where
  "add_repo i url branch path ssh clone_status tenant s =
     (case row_of (rg_profiles s) i of
        None \<Rightarrow> fail Profile_not_found s
      | Some p \<Rightarrow>
          if tenant \<noteq> None \<and> tenant \<noteq> Some (pf_tenant p) then fail Visibility s
          else if list_ex (\<lambda>r. rp_url r = url \<and> rp_branch r = branch \<and> rp_profile r = i) (rg_repos s) then fail Unique_violation s
          else if (case ssh of None \<Rightarrow> False | Some k \<Rightarrow> k \<notin> set (rg_ssh_keys s)) then fail Foreign_key s
          else (Inr (rg_next_repo s), s\<lparr>rg_next_repo := rg_next_repo s + 1, rg_repos := rg_repos s @
            [\<lparr>rp_id = rg_next_repo s, rp_profile = i, rp_url = url, rp_branch = branch, rp_local_path = path, rp_status = ''pending'',
              rp_error_msg = None, rp_last_indexed_at = None, rp_head_sha = None, rp_ssh_key = ssh, rp_clone_status = clone_status,
              rp_clone_error_msg = None, rp_tenant = pf_tenant p\<rparr>]\<rparr>))"

definition update_repo_status :: "int \<Rightarrow> string \<Rightarrow> string option \<Rightarrow> int \<Rightarrow> registry \<Rightarrow> unit reg_result" where
  "update_repo_status i status msg now s =
     (if repo_of s i = None then fail Value_error s
      else (Inr (), update_repo_row i (\<lambda>r. r\<lparr>rp_status := status, rp_error_msg := msg,
        rp_last_indexed_at := (if status = ''indexed'' then Some now else rp_last_indexed_at r)\<rparr>) s))"

definition get_repo_head_sha :: "int \<Rightarrow> registry \<Rightarrow> string option" where
  "get_repo_head_sha i s = Option.bind (repo_of s i) rp_head_sha"

definition update_repo_head_sha :: "int \<Rightarrow> string \<Rightarrow> int \<Rightarrow> registry \<Rightarrow> unit reg_result" where
  "update_repo_head_sha i sha now s =
     (if repo_of s i = None then fail Value_error s
      else (Inr (), update_repo_row i (\<lambda>r. r\<lparr>rp_head_sha := Some sha, rp_last_indexed_at := Some now\<rparr>) s))"

definition set_clone_status :: "int \<Rightarrow> string \<Rightarrow> string option \<Rightarrow> registry \<Rightarrow> unit reg_result" where
  "set_clone_status i status msg s =
     (if status \<notin> {''manual'', ''pending'', ''cloned'', ''error''} then fail Value_error s
      else if repo_of s i = None then fail Value_error s
      else (Inr (), update_repo_row i (\<lambda>r. r\<lparr>rp_clone_status := status, rp_clone_error_msg := msg\<rparr>) s))"

definition reset_repo_head_sha :: "int \<Rightarrow> registry \<Rightarrow> unit reg_result" where
  "reset_repo_head_sha i s =
     (if repo_of s i = None then fail Value_error s else (Inr (), update_repo_row i (\<lambda>r. r\<lparr>rp_head_sha := None\<rparr>) s))"

definition update_repo_local_path :: "int \<Rightarrow> string \<Rightarrow> registry \<Rightarrow> unit reg_result" where
  "update_repo_local_path i path s =
     (if repo_of s i = None then fail Value_error s else (Inr (), update_repo_row i (\<lambda>r. r\<lparr>rp_local_path := path\<rparr>) s))"

definition repo_fields :: "string option \<Rightarrow> string option \<Rightarrow> int option \<Rightarrow> bool \<Rightarrow> string option \<Rightarrow> string list" where
  "repo_fields url branch ssh clear_ssh path =
     (if url \<noteq> None then [''url''] else []) @ (if branch \<noteq> None then [''branch''] else []) @
     (if clear_ssh \<or> ssh \<noteq> None then [''ssh_key_id''] else []) @ (if path \<noteq> None then [''local_path''] else [])"

definition edit_repo :: "string option \<Rightarrow> string option \<Rightarrow> int option \<Rightarrow> bool \<Rightarrow> string option \<Rightarrow> repo_row \<Rightarrow> repo_row" where
  "edit_repo url branch ssh clear_ssh path r = r\<lparr>rp_url := new_value url (rp_url r), rp_branch := new_value branch (rp_branch r),
     rp_ssh_key := (if clear_ssh then None else case ssh of None \<Rightarrow> rp_ssh_key r | Some _ \<Rightarrow> ssh),
     rp_local_path := new_value path (rp_local_path r)\<rparr>"

definition update_repo ::
  "int \<Rightarrow> string option \<Rightarrow> string option \<Rightarrow> int option \<Rightarrow> bool \<Rightarrow> string option \<Rightarrow> registry \<Rightarrow> string list reg_result" where
  "update_repo i url branch ssh clear_ssh path s =
     (case repo_of s i of
        None \<Rightarrow> fail Repo_not_found s
      | Some r \<Rightarrow>
          if (url \<noteq> None \<or> branch \<noteq> None) \<and>
             list_ex (\<lambda>x. rp_url x = new_value url (rp_url r) \<and> rp_branch x = new_value branch (rp_branch r) \<and>
               rp_profile x = rp_profile r \<and> rp_id x \<noteq> i) (rg_repos s) then fail Repo_conflict s
          else if repo_fields url branch ssh clear_ssh path = [] then (Inr [], s)
          else if \<not> clear_ssh \<and> (case ssh of None \<Rightarrow> False | Some k \<Rightarrow> k \<notin> set (rg_ssh_keys s)) then fail Foreign_key s
          else (Inr (repo_fields url branch ssh clear_ssh path), update_repo_row i (edit_repo url branch ssh clear_ssh path) s))"

definition delete_repo :: "int \<Rightarrow> registry \<Rightarrow> (string \<times> string) reg_result" where
  "delete_repo i s =
     (case repo_of s i of
        None \<Rightarrow> fail Value_error s
      | Some r \<Rightarrow>
          (case row_of (rg_profiles s) (rp_profile r) of
             None \<Rightarrow> fail Value_error s
           | Some p \<Rightarrow> (Inr (path_name (rp_local_path r), pf_version p), drop_repos (\<lambda>r. rp_id r = i) s)))"

subsection \<open>What the readers ask\<close>

definition MAX_PROFILE_DEPTH :: nat where
  "MAX_PROFILE_DEPTH = 16"

text \<open>The bounded walk of \<^verbatim>\<open>get_ancestor_profile_names\<close>: the name and the mark of a cut, \<open>k\<close> hops before the bound.\<close>

fun chain_rows :: "profile list \<Rightarrow> nat \<Rightarrow> int list \<Rightarrow> profile \<Rightarrow> bool \<Rightarrow> (string \<times> bool) list" where
  "chain_rows ps 0 path p stop = [(pf_name p, stop)]"
| "chain_rows ps (Suc k) path p stop = (pf_name p, stop) #
     (if stop then []
      else case Option.bind (pf_parent p) (row_of ps) of
        None \<Rightarrow> []
      | Some q \<Rightarrow> chain_rows ps k (path @ [pf_id q]) q (pf_id q \<in> set path \<or> k = 0 \<and> pf_parent q \<noteq> None))"

fun first_names :: "string list \<Rightarrow> string list \<Rightarrow> string list" where
  "first_names seen [] = seen"
| "first_names seen (n # ns) = first_names (if n \<in> set seen then seen else seen @ [n]) ns"

definition get_ancestor_profile_names :: "string \<Rightarrow> registry \<Rightarrow> string list" where
  "get_ancestor_profile_names n s =
     (case row_named (rg_profiles s) n of
        None \<Rightarrow> []
      | Some p \<Rightarrow> first_names [] (map fst (chain_rows (rg_profiles s) MAX_PROFILE_DEPTH [pf_id p] p False)))"

definition get_children_profiles :: "string \<Rightarrow> registry \<Rightarrow> string list" where
  "get_children_profiles n s =
     (case row_named (rg_profiles s) n of None \<Rightarrow> [] | Some p \<Rightarrow> sort (map pf_name (children_of (rg_profiles s) (pf_id p))))"

text \<open>The unbounded walk of \<^verbatim>\<open>get_ancestor_repos\<close>.\<close>

partial_function (option) ascend :: "profile list \<Rightarrow> profile \<Rightarrow> profile list option" where
  "ascend ps p =
     (case Option.bind (pf_parent p) (row_of ps) of
        None \<Rightarrow> Some [p]
      | Some q \<Rightarrow> Option.bind (ascend ps q) (\<lambda>rest. Some (p # rest)))"

declare ascend.simps [code]

definition get_ancestor_repos :: "string \<Rightarrow> registry \<Rightarrow> (repo_row \<times> string \<times> string) list option" where
  "get_ancestor_repos n s =
     (case row_named (rg_profiles s) n of
        None \<Rightarrow> Some []
      | Some p \<Rightarrow> map_option (\<lambda>chain. concat (map (\<lambda>q.
          map (\<lambda>r. (r, pf_name q, pf_version q)) (sort_key rp_id (filter (\<lambda>r. rp_profile r = pf_id q) (rg_repos s)))) chain))
          (ascend (rg_profiles s) p))"

definition shared_profile_names :: "registry \<Rightarrow> string list" where
  "shared_profile_names s = sort (map pf_name (filter (\<lambda>p. pf_tenant p = None) (rg_profiles s)))"

definition resolve_tenant_scope :: "int \<Rightarrow> registry \<Rightarrow> string list \<times> string list" where
  "resolve_tenant_scope t s = (sort (map pf_name (filter (\<lambda>p. pf_tenant p = Some t) (rg_profiles s))), shared_profile_names s)"

definition resolve_allowed_profiles :: "int \<Rightarrow> registry \<Rightarrow> string list" where
  "resolve_allowed_profiles t s = (let (own, shared) = resolve_tenant_scope t s in sort (remdups (own @ shared)))"

text \<open>The text whose md5 is \<^verbatim>\<open>scope_fingerprint\<close>.\<close>

definition scope_digest :: "registry \<Rightarrow> string" where
  "scope_digest s =
     join_with (CHR '','') (map (\<lambda>p. str_int (pf_id p) @ '':'' @ pf_name p @ '':'' @
       (case pf_tenant p of None \<Rightarrow> ''-'' | Some t \<Rightarrow> str_int t) @ '':'' @ (case pf_parent p of None \<Rightarrow> ''-'' | Some q \<Rightarrow> str_int q))
       (sort_key pf_id (rg_profiles s)))"

subsection \<open>The audit\<close>

record violation =
  vi_kind :: string
  vi_profile :: int
  vi_name :: string
  vi_tenant :: "int option"
  vi_ancestor :: "string option"
  vi_other_tenant :: "int option"
  vi_repo :: "int option"

text \<open>The nearest private profile from \<open>i\<close> upwards, with \<open>k\<close> hops left.\<close>

fun nearest_private :: "profile list \<Rightarrow> nat \<Rightarrow> int \<Rightarrow> profile option" where
  "nearest_private ps k i =
     (case row_of ps i of
        None \<Rightarrow> None
      | Some a \<Rightarrow>
          if pf_tenant a \<noteq> None then Some a
          else case (k, pf_parent a) of (Suc k', Some q) \<Rightarrow> nearest_private ps k' q | _ \<Rightarrow> None)"

definition chain_violations :: "profile list \<Rightarrow> violation list" where
  "chain_violations ps = concat (map (\<lambda>p.
     case Option.bind (pf_parent p) (nearest_private ps 63) of
       None \<Rightarrow> []
     | Some a \<Rightarrow>
         if pf_tenant p = pf_tenant a then []
         else [\<lparr>vi_kind = (if pf_tenant p = None then ''shared_child_of_private'' else ''cross_tenant_chain''), vi_profile = pf_id p, vi_name = pf_name p,
           vi_tenant = pf_tenant p, vi_ancestor = Some (pf_name a), vi_other_tenant = pf_tenant a, vi_repo = None\<rparr>]) ps)"

definition repo_violations :: "registry \<Rightarrow> violation list" where
  "repo_violations s = concat (map (\<lambda>r.
     case row_of (rg_profiles s) (rp_profile r) of
       None \<Rightarrow> []
     | Some p \<Rightarrow>
         if rp_tenant r = pf_tenant p then []
         else [\<lparr>vi_kind = ''repo_tenant_mismatch'', vi_profile = pf_id p, vi_name = pf_name p, vi_tenant = pf_tenant p,
           vi_ancestor = None, vi_other_tenant = rp_tenant r, vi_repo = Some (rp_id r)\<rparr>]) (rg_repos s))"

definition visibility_violations :: "registry \<Rightarrow> violation list" where
  "visibility_violations s =
     sort_key vi_kind (sort_key vi_name (sort_key (\<lambda>x. case vi_repo x of None \<Rightarrow> 0 | Some i \<Rightarrow> i)
       (chain_violations (rg_profiles s) @ repo_violations s)))"

end
