(* ===== verification/Scope.thy ===== *)
theory Scope
  imports Profiles Complex_Main
begin

section \<open>Who may read what (src/mcp/session.py, src/mcp/server.py, src/mcp/middleware.py)\<close>

text \<open>
  The tenant boundary of the MCP server: the caches of profile scopes and their epoch, the narrowing by profile, the pins of a
  session, the recovery of the tenant of a request from its key, and the two filters that end up in the queries (the node predicate
  and the setting of the row policy). The registry may be unreachable at every read: a call gets, for each clock reading and each
  query, the instant and the registry it meets (\<open>None\<close>: the read raises). A call is the sequence of its critical sections and of the
  queries between them; \<^verbatim>\<open>Scope_Threads\<close> lets the sections of several threads alternate.
  The digest of the fingerprint (md5) and the hash of a key are arguments.
\<close>

subsection \<open>Caches of the profile scope\<close>

record scope_cache =
  sc_tenants :: "int \<rightharpoonup> (string list \<times> string list) \<times> rat"
  sc_shared :: "(string list \<times> rat) option"
  sc_chains :: "(string \<times> string list \<times> rat) list"
  sc_epoch :: "string option"
  sc_checked :: "rat option"
  sc_degraded :: "string list"

definition CACHE_TTL_SEC :: rat where "CACHE_TTL_SEC = 60"
definition SCOPE_EPOCH_CHECK_SEC :: rat where "SCOPE_EPOCH_CHECK_SEC = 5"
definition CHAIN_CACHE_MAX :: nat where "CHAIN_CACHE_MAX = 10000"

text \<open>One cached read: the clock at the poll of the epoch, the instant and the result of the fingerprint query, the clock again, and
  the instant and the registry of the query itself.\<close>

record reading =
  en_poll :: rat
  en_fp_at :: rat
  en_fp :: "registry option"
  en_now :: rat
  en_db_at :: rat
  en_db :: "registry option"

definition mark_degraded :: "string \<Rightarrow> scope_cache \<Rightarrow> scope_cache" where
  "mark_degraded reason st = st\<lparr>sc_degraded := sc_degraded st @ [reason]\<rparr>"

definition invalidate_allowed_profiles :: "int option \<Rightarrow> scope_cache \<Rightarrow> scope_cache" where
  "invalidate_allowed_profiles t st = st\<lparr>sc_shared := None, sc_chains := [],
     sc_tenants := (case t of None \<Rightarrow> Map.empty | Some i \<Rightarrow> (sc_tenants st)(i := None))\<rparr>"

text \<open>The three sections of the poll: whether it is due, and what a fingerprint read outside the lock does.\<close>

definition poll_due :: "rat \<Rightarrow> scope_cache \<Rightarrow> bool" where
  "poll_due now st = (case sc_checked st of None \<Rightarrow> True | Some c \<Rightarrow> \<not> now - c < SCOPE_EPOCH_CHECK_SEC)"

definition epoch_text :: "string option \<Rightarrow> string" where
  "epoch_text e = (case e of None \<Rightarrow> [] | Some x \<Rightarrow> x)"

abbreviation poll_begin :: "rat \<Rightarrow> scope_cache \<Rightarrow> scope_cache" where
  "poll_begin now st \<equiv> st\<lparr>sc_checked := Some now\<rparr>"

abbreviation epoch_write :: "string \<Rightarrow> scope_cache \<Rightarrow> scope_cache" where
  "epoch_write fp st \<equiv> st\<lparr>sc_epoch := Some fp\<rparr>"

definition apply_fingerprint :: "string option \<Rightarrow> string \<Rightarrow> scope_cache \<Rightarrow> scope_cache" where
  "apply_fingerprint previous fp st =
     (let st1 = epoch_write fp st
      in if previous \<noteq> None \<and> previous \<noteq> Some fp then invalidate_allowed_profiles None st1 else st1)"

definition scope_epoch :: "(string \<Rightarrow> string) \<Rightarrow> reading \<Rightarrow> scope_cache \<Rightarrow> string \<times> scope_cache" where
  "scope_epoch md5 en st =
     (if \<not> poll_due (en_poll en) st then (epoch_text (sc_epoch st), st)
      else
        let st1 = poll_begin (en_poll en) st
        in case en_fp en of
             None \<Rightarrow> (epoch_text (sc_epoch st), st1)
           | Some reg \<Rightarrow> (md5 (scope_digest reg), apply_fingerprint (sc_epoch st) (md5 (scope_digest reg)) st1))"

definition fresh :: "rat \<Rightarrow> ('a \<times> rat) option \<Rightarrow> 'a option" where
  "fresh now e = (case e of None \<Rightarrow> None | Some (x, expiry) \<Rightarrow> if expiry > now then Some x else None)"

text \<open>The section that looks a tenant up, and the one that stores what the query between them has read.\<close>

abbreviation tenant_lookup :: "rat \<Rightarrow> int \<Rightarrow> scope_cache \<Rightarrow> (string list \<times> string list) option" where
  "tenant_lookup now t st \<equiv> fresh now (sc_tenants st t)"

abbreviation tenant_store :: "int \<Rightarrow> (string list \<times> string list) \<times> rat \<Rightarrow> scope_cache \<Rightarrow> scope_cache" where
  "tenant_store t e st \<equiv> st\<lparr>sc_tenants := (sc_tenants st)(t \<mapsto> e)\<rparr>"

definition tenant_scope :: "(string \<Rightarrow> string) \<Rightarrow> reading \<Rightarrow> int \<Rightarrow> scope_cache \<Rightarrow> (string list \<times> string list) option \<times> scope_cache" where
  "tenant_scope md5 en t st =
     (let st1 = snd (scope_epoch md5 en st)
      in case tenant_lookup (en_now en) t st1 of
           Some scope \<Rightarrow> (Some scope, st1)
         | None \<Rightarrow>
             (case en_db en of
                None \<Rightarrow> (None, st1)
              | Some reg \<Rightarrow>
                  (Some (Profiles.resolve_tenant_scope t reg), tenant_store t (Profiles.resolve_tenant_scope t reg, en_now en + CACHE_TTL_SEC) st1)))"

text \<open>No tenant: an administrator's or a global key, with no boundary. The outer \<open>None\<close> is a raise.\<close>

definition session_tenant_scope ::
  "(string \<Rightarrow> string) \<Rightarrow> reading \<Rightarrow> int option \<Rightarrow> scope_cache \<Rightarrow> (string list option \<times> string list) option \<times> scope_cache" where
  "session_tenant_scope md5 en t st =
     (case t of
        None \<Rightarrow> (Some (None, []), st)
      | Some i \<Rightarrow>
          (case tenant_scope md5 en i st of
             (None, st1) \<Rightarrow> (None, st1)
           | (Some (own, shared), st1) \<Rightarrow> (Some (Some own, shared), st1)))"

definition resolve_profile_chain :: "(string \<Rightarrow> string) \<Rightarrow> reading \<Rightarrow> string \<Rightarrow> scope_cache \<Rightarrow> string list \<times> scope_cache" where
  "resolve_profile_chain md5 en n st =
     (let st1 = snd (scope_epoch md5 en st)
      in case fresh (en_now en) (map_of (sc_chains st1) n) of
           Some chain \<Rightarrow> (chain, st1)
         | None \<Rightarrow>
             (case en_db en of
                None \<Rightarrow> ([n], mark_degraded ''profile ancestor chain unavailable'' st1)
              | Some reg \<Rightarrow>
                  (case get_ancestor_profile_names n reg of
                     [] \<Rightarrow> ([n], st1)
                   | first # rest \<Rightarrow>
                       if first \<noteq> n then ([n], st1)
                       else
                         let chains = (if length (sc_chains st1) \<ge> CHAIN_CACHE_MAX then [] else sc_chains st1)
                         in (first # rest, st1\<lparr>sc_chains := (n, first # rest, en_now en + CACHE_TTL_SEC) # filter (\<lambda>e. fst e \<noteq> n) chains\<rparr>))))"

definition resolve_shared_profiles :: "(string \<Rightarrow> string) \<Rightarrow> reading \<Rightarrow> scope_cache \<Rightarrow> string list option \<times> scope_cache" where
  "resolve_shared_profiles md5 en st =
     (let st1 = snd (scope_epoch md5 en st)
      in case fresh (en_now en) (sc_shared st1) of
           Some shared \<Rightarrow> (Some shared, st1)
         | None \<Rightarrow>
             (case en_db en of
                None \<Rightarrow> (None, st1)
              | Some reg \<Rightarrow> (Some (Profiles.shared_profile_names reg),
                  st1\<lparr>sc_shared := Some (Profiles.shared_profile_names reg, en_now en + CACHE_TTL_SEC)\<rparr>)))"

definition admin_narrowing_shared :: "(string \<Rightarrow> string) \<Rightarrow> reading \<Rightarrow> scope_cache \<Rightarrow> string list \<times> scope_cache" where
  "admin_narrowing_shared md5 en st =
     (case resolve_shared_profiles md5 en st of
        (Some shared, st1) \<Rightarrow> (shared, st1)
      | (None, st1) \<Rightarrow> ([], mark_degraded ''shared profile list unavailable'' st1))"

text \<open>The narrowing by a profile. \<open>en1\<close> is the read of the chain, \<open>en2\<close> that of the shared names.\<close>

definition narrow_scope ::
  "(string \<Rightarrow> string) \<Rightarrow> reading \<Rightarrow> reading \<Rightarrow> string \<Rightarrow> string list option \<Rightarrow> string list \<Rightarrow> scope_cache \<Rightarrow>
   (string list option \<times> string list) \<times> scope_cache" where
  "narrow_scope md5 en1 en2 n own shared st =
     (case own of
        None \<Rightarrow>
          let (chain, st1) = resolve_profile_chain md5 en1 n st; (sh, st2) = admin_narrowing_shared md5 en2 st1
          in ((Some chain, sh), st2)
      | Some own_names \<Rightarrow>
          if n \<notin> set own_names \<and> n \<notin> set shared then ((Some [], []), st)
          else
            let (chain, st1) = resolve_profile_chain md5 en1 n st
            in ((Some (n # filter (\<lambda>a. a \<in> set own_names) (tl chain)), shared), st1))"

record filter_report =
  fr_profile :: string
  fr_chain :: "string list"
  fr_withheld :: nat
  fr_denied :: bool

definition profile_filter_report ::
  "(string \<Rightarrow> string) \<Rightarrow> reading \<Rightarrow> string \<Rightarrow> string list option \<Rightarrow> string list \<Rightarrow> scope_cache \<Rightarrow> filter_report \<times> scope_cache" where
  "profile_filter_report md5 en n own shared st =
     (if (case own of None \<Rightarrow> False | Some own_names \<Rightarrow> n \<notin> set own_names \<and> n \<notin> set shared)
      then (\<lparr>fr_profile = n, fr_chain = [], fr_withheld = 0, fr_denied = True\<rparr>, st)
      else
        let (chain, st1) = resolve_profile_chain md5 en n st
        in case own of
             None \<Rightarrow> (\<lparr>fr_profile = n, fr_chain = chain, fr_withheld = 0, fr_denied = False\<rparr>, st1)
           | Some own_names \<Rightarrow>
               let visible = filter (\<lambda>p. p \<in> set own_names \<or> p \<in> set shared) chain
               in (\<lparr>fr_profile = n, fr_chain = visible, fr_withheld = length chain - length visible, fr_denied = False\<rparr>, st1))"

subsection \<open>Pins of a session\<close>

record pin =
  pn_version :: "string option"
  pn_profile :: "string option"
  pn_set_at :: rat

text \<open>The store in the order of writing, oldest first; the key is one string.\<close>

type_synonym pins = "(string \<times> pin) list"

definition NO_SESSION :: string where "NO_SESSION = ''_nosession''"
definition SESSION_TTL :: rat where "SESSION_TTL = 24 * 3600"

definition SENTINELS :: "string list" where
  "SENTINELS = [''auto'', ''default'', ''latest'', ''version'', ''any'', '''']"

definition lower_char :: "char \<Rightarrow> char" where
  "lower_char c = (let k = char_code c in if 65 \<le> k \<and> k \<le> 90 \<or> 192 \<le> k \<and> k \<le> 222 \<and> k \<noteq> 215 then char_of (k + 32) else c)"

definition pin_key :: "string \<Rightarrow> string \<Rightarrow> string" where
  "pin_key k sid = k @ CHR 0x1F # sid"

definition evict_over_cap :: "nat \<Rightarrow> pins \<Rightarrow> pins" where
  "evict_over_cap pin_max ps = drop (length ps - pin_max) ps"

definition cache_invalidate_pin :: "string \<Rightarrow> string \<Rightarrow> pins \<Rightarrow> pins" where
  "cache_invalidate_pin k sid ps = filter (\<lambda>e. fst e \<noteq> pin_key k sid) ps"

definition get_session_state :: "rat \<Rightarrow> string \<Rightarrow> string \<Rightarrow> pins \<Rightarrow> pin option \<times> pins" where
  "get_session_state now k sid ps =
     (if py_int k = None then (None, ps)
      else case map_of ps (pin_key k sid) of
        None \<Rightarrow> (None, ps)
      | Some e \<Rightarrow> if now - pn_set_at e > SESSION_TTL then (None, cache_invalidate_pin k sid ps) else (Some e, ps))"

text \<open>A write moves its key to the end.\<close>

definition write_pin :: "nat \<Rightarrow> string \<Rightarrow> string \<Rightarrow> pin \<Rightarrow> pins \<Rightarrow> pins" where
  "write_pin pin_max k sid e ps = evict_over_cap pin_max (cache_invalidate_pin k sid ps @ [(pin_key k sid, e)])"

definition set_active_version_db :: "nat \<Rightarrow> rat \<Rightarrow> string \<Rightarrow> string \<Rightarrow> string \<Rightarrow> pins \<Rightarrow> bool \<times> pins" where
  "set_active_version_db pin_max now k sid version ps =
     (if py_int k = None then (False, ps)
      else (True, write_pin pin_max k sid
        (case map_of ps (pin_key k sid) of
           None \<Rightarrow> \<lparr>pn_version = Some version, pn_profile = None, pn_set_at = now\<rparr>
         | Some e \<Rightarrow> e\<lparr>pn_version := Some version, pn_set_at := now\<rparr>) ps))"

definition set_active_profile_db :: "nat \<Rightarrow> rat \<Rightarrow> string \<Rightarrow> string \<Rightarrow> string option \<Rightarrow> pins \<Rightarrow> bool \<times> pins" where
  "set_active_profile_db pin_max now k sid profile ps =
     (if py_int k = None then (False, ps)
      else case map_of ps (pin_key k sid) of
        None \<Rightarrow>
          if profile = None then (True, ps)
          else (True, write_pin pin_max k sid \<lparr>pn_version = None, pn_profile = profile, pn_set_at = now\<rparr> ps)
      | Some e \<Rightarrow> (True, write_pin pin_max k sid (e\<lparr>pn_profile := profile, pn_set_at := now\<rparr>) ps))"

definition normalize_version_arg :: "string option \<Rightarrow> string option" where
  "normalize_version_arg v = (case v of None \<Rightarrow> None | Some s \<Rightarrow> if map lower_char (strip s) \<in> set SENTINELS then None else Some s)"

definition normalize_profile_arg :: "string option \<Rightarrow> string option" where
  "normalize_profile_arg p = (case p of None \<Rightarrow> None | Some s \<Rightarrow> if strip s = [] then None else Some s)"

definition non_empty :: "string option \<Rightarrow> string option" where
  "non_empty s = (if s = Some [] then None else s)"

text \<open>\<open>latest\<close> is the newest version of the index; without any of the three the call raises.\<close>

definition resolve_version_v2 :: "rat \<Rightarrow> string option \<Rightarrow> string option \<Rightarrow> string \<Rightarrow> string \<Rightarrow> pins \<Rightarrow> string option \<times> pins" where
  "resolve_version_v2 now latest v k sid ps =
     (case normalize_version_arg v of
        Some x \<Rightarrow> (Some x, ps)
      | None \<Rightarrow>
          let (state, ps1) = get_session_state now k sid ps
          in case Option.bind state (\<lambda>e. non_empty (pn_version e)) of
               Some x \<Rightarrow> (Some x, ps1)
             | None \<Rightarrow> (latest, ps1))"

definition resolve_profile_v2 :: "rat \<Rightarrow> string option \<Rightarrow> string \<Rightarrow> string \<Rightarrow> pins \<Rightarrow> string option \<times> pins" where
  "resolve_profile_v2 now p k sid ps =
     (case normalize_profile_arg p of
        Some x \<Rightarrow> (Some x, ps)
      | None \<Rightarrow> (let (state, ps1) = get_session_state now k sid ps in (Option.bind state (\<lambda>e. non_empty (pn_profile e)), ps1)))"

subsection \<open>The filters of a query\<close>

definition resolve_allowed_list :: "string list option \<times> string list \<Rightarrow> string list option" where
  "resolve_allowed_list scope = (case fst scope of None \<Rightarrow> None | Some own \<Rightarrow> Some (sort (remdups (own @ snd scope))))"

text \<open>The predicate of \<^verbatim>\<open>_scope_pred\<close> on the profiles of a node.\<close>

definition scope_pred :: "string list option \<times> string list \<Rightarrow> string list \<Rightarrow> bool" where
  "scope_pred scope node =
     (case fst scope of None \<Rightarrow> True | Some own \<Rightarrow> node \<noteq> [] \<and> list_all (\<lambda>p. p \<in> set own \<or> p \<in> set (snd scope)) node)"

text \<open>The readings of one call: the boundary, the chain of the profile, the shared names.\<close>

record readings =
  rd_boundary :: reading
  rd_chain :: reading
  rd_shared :: reading

definition effective_profile :: "rat \<Rightarrow> string option \<Rightarrow> bool \<Rightarrow> string \<Rightarrow> string \<Rightarrow> pins \<Rightarrow> string option \<times> pins" where
  "effective_profile now p pin k sid ps = (if p = None \<and> pin then resolve_profile_v2 now None k sid ps else (p, ps))"

definition scope_for ::
  "(string \<Rightarrow> string) \<Rightarrow> readings \<Rightarrow> int option \<Rightarrow> string option \<Rightarrow> scope_cache \<Rightarrow> (string list option \<times> string list) option \<times> scope_cache" where
  "scope_for md5 rd t p st =
     (case session_tenant_scope md5 (rd_boundary rd) t st of
        (None, st1) \<Rightarrow> (None, st1)
      | (Some (own, shared), st1) \<Rightarrow>
          (case non_empty p of
             None \<Rightarrow> (Some (own, shared), st1)
           | Some n \<Rightarrow> (let (sc, st2) = narrow_scope md5 (rd_chain rd) (rd_shared rd) n own shared st1 in (Some sc, st2))))"

definition scope_params ::
  "(string \<Rightarrow> string) \<Rightarrow> rat \<Rightarrow> readings \<Rightarrow> int option \<Rightarrow> string option \<Rightarrow> bool \<Rightarrow> string \<Rightarrow> string \<Rightarrow> scope_cache \<Rightarrow> pins \<Rightarrow>
   (string list option \<times> string list) option \<times> scope_cache \<times> pins" where
  "scope_params md5 now rd t p pin k sid st ps =
     (let (n, ps1) = effective_profile now p pin k sid ps; (sc, st1) = scope_for md5 rd t n st in (sc, st1, ps1))"

text \<open>A list for the filters on one profile: the outer \<open>None\<close> is a raise, the inner one no filter.\<close>

definition effective_allowed ::
  "(string \<Rightarrow> string) \<Rightarrow> rat \<Rightarrow> readings \<Rightarrow> int option \<Rightarrow> string option \<Rightarrow> string \<Rightarrow> string \<Rightarrow> scope_cache \<Rightarrow> pins \<Rightarrow>
   string list option option \<times> scope_cache \<times> pins" where
  "effective_allowed md5 now rd t p k sid st ps =
     (let (n, ps1) = effective_profile now p True k sid ps; (sc, st1) = scope_for md5 rd t n st
      in (map_option (\<lambda>scope.
            if non_empty n = None then resolve_allowed_list scope
            else Some (first_names [] ((case fst scope of None \<Rightarrow> [] | Some own \<Rightarrow> own) @ sort (snd scope)))) sc, st1, ps1))"

definition allowed_to_guc :: "string list option \<Rightarrow> string" where
  "allowed_to_guc allowed = (case allowed of None \<Rightarrow> ''*'' | Some ns \<Rightarrow> join_with (CHR '','') ns)"

text \<open>The row policy of the embeddings, as the migrations state it: what the setting lets through.\<close>

definition rls_admits :: "string \<Rightarrow> string \<Rightarrow> bool" where
  "rls_admits guc p = (guc = ''*'' \<or> p = ''__global__'' \<or> guc \<noteq> [] \<and> p \<in> set (split_on (CHR '','') guc))"

subsection \<open>The tenant of a request\<close>

definition AUTH_CACHE_TTL :: rat where "AUTH_CACHE_TTL = 300"

text \<open>Four dictionaries over the hash of a key.\<close>

record auth_cache =
  ac_key :: "string \<rightharpoonup> int option"
  ac_ts :: "string \<rightharpoonup> rat"
  ac_tenant :: "string \<rightharpoonup> int option"
  ac_owner :: "string \<rightharpoonup> int option \<times> bool"

definition live_entry :: "rat \<Rightarrow> string \<Rightarrow> auth_cache \<Rightarrow> bool" where
  "live_entry now h c = (case ac_ts c h of None \<Rightarrow> False | Some ts \<Rightarrow> now - ts < AUTH_CACHE_TTL)"

text \<open>\<^verbatim>\<open>dict.get\<close> of a dictionary whose values may be \<open>None\<close>.\<close>

definition dict_get :: "(string \<rightharpoonup> 'a option) \<Rightarrow> string \<Rightarrow> 'a option" where
  "dict_get m h = (case m h of None \<Rightarrow> None | Some x \<Rightarrow> x)"

definition cache_get :: "rat \<Rightarrow> string \<Rightarrow> auth_cache \<Rightarrow> bool \<times> int option" where
  "cache_get now h c = (if live_entry now h c then (True, dict_get (ac_key c) h) else (False, None))"

definition cache_get_tenant :: "rat \<Rightarrow> string \<Rightarrow> auth_cache \<Rightarrow> bool \<times> int option" where
  "cache_get_tenant now h c = (if live_entry now h c then (True, dict_get (ac_tenant c) h) else (False, None))"

definition cache_get_owner :: "rat \<Rightarrow> string \<Rightarrow> auth_cache \<Rightarrow> bool \<times> int option \<times> bool" where
  "cache_get_owner now h c =
     (if live_entry now h c then (case ac_owner c h of None \<Rightarrow> (False, None, False) | Some (u, a) \<Rightarrow> (True, u, a)) else (False, None, False))"

definition cache_set :: "rat \<Rightarrow> string \<Rightarrow> int option \<Rightarrow> auth_cache \<Rightarrow> auth_cache" where
  "cache_set now h key c = c\<lparr>ac_key := (ac_key c)(h \<mapsto> key), ac_ts := (ac_ts c)(h \<mapsto> now)\<rparr>"

definition cache_set_tenant :: "string \<Rightarrow> int option \<Rightarrow> auth_cache \<Rightarrow> auth_cache" where
  "cache_set_tenant h t c = c\<lparr>ac_tenant := (ac_tenant c)(h \<mapsto> t)\<rparr>"

definition cache_set_owner :: "string \<Rightarrow> int option \<Rightarrow> bool \<Rightarrow> auth_cache \<Rightarrow> auth_cache" where
  "cache_set_owner h u admin c = c\<lparr>ac_owner := (ac_owner c)(h \<mapsto> (u, admin))\<rparr>"

definition cache_invalidate :: "string \<Rightarrow> auth_cache \<Rightarrow> auth_cache" where
  "cache_invalidate h c = c\<lparr>ac_key := (ac_key c)(h := None), ac_ts := (ac_ts c)(h := None),
     ac_tenant := (ac_tenant c)(h := None), ac_owner := (ac_owner c)(h := None)\<rparr>"

definition cache_invalidate_by_key_id :: "int \<Rightarrow> auth_cache \<Rightarrow> auth_cache" where
  "cache_invalidate_by_key_id key c =
     c\<lparr>ac_key := (\<lambda>h. if ac_key c h = Some (Some key) then None else ac_key c h), ac_ts := (\<lambda>h. if ac_key c h = Some (Some key) then None else ac_ts c h),
           ac_tenant := (\<lambda>h. if ac_key c h = Some (Some key) then None else ac_tenant c h), ac_owner := (\<lambda>h. if ac_key c h = Some (Some key) then None else ac_owner c h)\<rparr>"

definition is_null_tenant_escalation :: "int option \<Rightarrow> int option \<Rightarrow> bool \<Rightarrow> bool" where
  "is_null_tenant_escalation t u admin = (u \<noteq> None \<and> \<not> admin \<and> t = None)"

type_synonym identity = "int \<times> int option \<times> int option \<times> bool"

text \<open>The three lookups of a key; the outer \<open>None\<close> is a store or a schema without the query.\<close>

definition do_verify :: "identity option option \<Rightarrow> (int \<times> int option) option option \<Rightarrow> int option \<Rightarrow> identity option" where
  "do_verify full two legacy =
     (case full of
        Some r \<Rightarrow> r
      | None \<Rightarrow>
          (case two of
             Some r \<Rightarrow> map_option (\<lambda>(k, t). (k, t, None, False)) r
           | None \<Rightarrow> map_option (\<lambda>k. (k, None, None, False)) legacy))"

text \<open>The three writes that follow a lookup in the database, one critical section each.\<close>

definition warm :: "rat \<Rightarrow> string \<Rightarrow> int option \<Rightarrow> int option \<Rightarrow> int option \<Rightarrow> bool \<Rightarrow> auth_cache \<Rightarrow> auth_cache" where
  "warm now h key t u admin c = cache_set_owner h u admin (cache_set_tenant h t (cache_set now h key c))"

datatype auth_outcome = Passed int "int option" | Unauthorized | Degraded | Public

text \<open>The authentication of \<^verbatim>\<open>AuthMiddleware.dispatch\<close>. \<open>verify\<close>: the answer of the database, \<open>None\<close> when it is down.\<close>

definition authenticate ::
  "(string \<Rightarrow> string) \<Rightarrow> rat \<Rightarrow> bool \<Rightarrow> string option \<Rightarrow> identity option option \<Rightarrow> auth_cache \<Rightarrow> auth_outcome \<times> auth_cache" where
  "authenticate hash now public header verify c =
     (if public then (Public, c)
      else case non_empty header of
        None \<Rightarrow> (Unauthorized, c)
      | Some raw \<Rightarrow>
          let h = hash raw;
              finish = (\<lambda>key t u admin c'.
                case key of
                  None \<Rightarrow> (Unauthorized, c')
                | Some k \<Rightarrow> if is_null_tenant_escalation t u admin then (Unauthorized, c') else (Passed k t, c'))
          in if fst (cache_get now h c) \<and> fst (cache_get_tenant now h c) \<and> fst (cache_get_owner now h c)
             then finish (snd (cache_get now h c)) (snd (cache_get_tenant now h c)) (fst (snd (cache_get_owner now h c))) (snd (snd (cache_get_owner now h c))) c
             else case verify of
               None \<Rightarrow> (Degraded, c)
             | Some None \<Rightarrow> finish None None None False (warm now h None None None False c)
             | Some (Some (k, t, u, admin)) \<Rightarrow> finish (Some k) t u admin (warm now h (Some k) t u admin c))"

text \<open>\<open>Inl ()\<close> is \<^verbatim>\<open>TenantResolutionDenied\<close>.\<close>

definition authoritative_tenant_id_or_deny ::
  "(string \<Rightarrow> string) \<Rightarrow> rat \<Rightarrow> string \<Rightarrow> identity option option \<Rightarrow> auth_cache \<Rightarrow> (unit + int option) \<times> auth_cache" where
  "authoritative_tenant_id_or_deny hash now raw verify c =
     (case verify of
        Some (Some (k, t, u, admin)) \<Rightarrow>
          if is_null_tenant_escalation t u admin then (Inl (), c) else (Inr t, warm now (hash raw) (Some k) t u admin c)
      | _ \<Rightarrow> (Inl (), c))"

text \<open>\<open>header\<close> is \<open>None\<close> without a request or without the header.\<close>

definition recover_tenant_id ::
  "(string \<Rightarrow> string) \<Rightarrow> rat \<Rightarrow> string option \<Rightarrow> identity option option \<Rightarrow> auth_cache \<Rightarrow> (unit + int option) \<times> auth_cache" where
  "recover_tenant_id hash now header verify c =
     (case non_empty header of
        None \<Rightarrow> (Inr None, c)
      | Some raw \<Rightarrow>
          let (hit, t) = cache_get_tenant now (hash raw) c
          in if hit then (Inr t, c) else authoritative_tenant_id_or_deny hash now raw verify c)"

definition get_tenant_id ::
  "(string \<Rightarrow> string) \<Rightarrow> rat \<Rightarrow> int option \<Rightarrow> string option \<Rightarrow> identity option option \<Rightarrow> auth_cache \<Rightarrow> (unit + int option) \<times> auth_cache" where
  "get_tenant_id hash now var header verify c = (if var \<noteq> None then (Inr var, c) else recover_tenant_id hash now header verify c)"

definition get_api_key_id :: "(string \<Rightarrow> string) \<Rightarrow> rat \<Rightarrow> string \<Rightarrow> string option \<Rightarrow> auth_cache \<Rightarrow> string" where
  "get_api_key_id hash now var header c =
     (if var \<noteq> ''default'' then var
      else case non_empty header of
        None \<Rightarrow> var
      | Some raw \<Rightarrow> (case cache_get now (hash raw) c of (True, Some k) \<Rightarrow> str_int k | _ \<Rightarrow> var))"

definition get_mcp_session_id :: "string \<Rightarrow> string option \<Rightarrow> string" where
  "get_mcp_session_id var header = (if var \<noteq> NO_SESSION then var else case non_empty header of None \<Rightarrow> NO_SESSION | Some sid \<Rightarrow> sid)"

text \<open>What the hook of a call puts into the context.\<close>

definition recover_identity_from_header ::
  "(string \<Rightarrow> string) \<Rightarrow> rat \<Rightarrow> string option \<Rightarrow> int option \<Rightarrow> int option \<Rightarrow> string option \<Rightarrow> auth_cache \<Rightarrow> int option \<times> int option \<times> string option" where
  "recover_identity_from_header hash now header key t prefix c =
     (if key \<noteq> None then (key, t, prefix)
      else case non_empty header of
        None \<Rightarrow> (key, t, prefix)
      | Some raw \<Rightarrow>
          (case cache_get now (hash raw) c of
             (True, Some k) \<Rightarrow>
               (Some k, (case cache_get_tenant now (hash raw) c of (True, tid) \<Rightarrow> tid | _ \<Rightarrow> t), (if prefix = None then Some (take 12 raw) else prefix))
           | _ \<Rightarrow> (key, t, prefix)))"

end
