(* ===== verification/Profile_Laws.thy ===== *)
theory Profile_Laws
  imports Profiles
begin

section \<open>What every operation keeps of the registry\<close>

text \<open>
  The invariant of the profile registry: unique numbers and names, parents that exist and have the version of their child, no
  cycle, no profile more visible than its parent, and repositories with the tenant of their profile. The locale
  \<open>registry_op\<close> is the contract of a method; it is interpreted on every method that writes. The audit query is shown to
  decide the visibility part of the invariant, and the two unbounded queries to end on every registry that meets it. Two
  concurrent parent changes may leave a cycle behind, on which they do not.
\<close>

subsection \<open>The invariant\<close>

definition parent_rel :: "profile list \<Rightarrow> (int \<times> int) set" where
  "parent_rel ps = {(pf_id p, q) | p q. p \<in> set ps \<and> pf_parent p = Some q}"

definition link_ok :: "profile list \<Rightarrow> profile \<Rightarrow> bool" where
  "link_ok ps p = (case pf_parent p of None \<Rightarrow> True
     | Some q \<Rightarrow> (case row_of ps q of None \<Rightarrow> False
         | Some r \<Rightarrow> pf_version r = pf_version p \<and> check_child_visibility (pf_tenant p) (pf_tenant r)))"

definition profiles_ok :: "profile list \<Rightarrow> int \<Rightarrow> bool" where
  "profiles_ok ps next \<longleftrightarrow> distinct (map pf_id ps) \<and> distinct (map pf_name ps) \<and> (\<forall>p \<in> set ps. pf_id p < next) \<and>
     (\<forall>p \<in> set ps. name_check (pf_name p)) \<and> (\<forall>p \<in> set ps. link_ok ps p) \<and> acyclic (parent_rel ps)"

definition repo_ok :: "profile list \<Rightarrow> repo_row \<Rightarrow> bool" where
  "repo_ok ps r = (\<exists>p. row_of ps (rp_profile r) = Some p \<and> rp_tenant r = pf_tenant p)"

definition repo_key :: "repo_row \<Rightarrow> string \<times> string \<times> int" where
  "repo_key r = (rp_url r, rp_branch r, rp_profile r)"

definition repos_ok :: "profile list \<Rightarrow> repo_row list \<Rightarrow> int \<Rightarrow> bool" where
  "repos_ok ps rs next \<longleftrightarrow> distinct (map rp_id rs) \<and> (\<forall>r \<in> set rs. rp_id r < next) \<and> distinct (map repo_key rs) \<and> (\<forall>r \<in> set rs. repo_ok ps r)"

definition registry_ok :: "registry \<Rightarrow> bool" where
  "registry_ok s \<longleftrightarrow> profiles_ok (rg_profiles s) (rg_next_profile s) \<and> repos_ok (rg_profiles s) (rg_repos s) (rg_next_repo s)"

subsection \<open>Rows\<close>

lemma row_of_SomeD: "row_of ps i = Some p \<Longrightarrow> p \<in> set ps \<and> pf_id p = i"
  by (auto simp: row_of_def find_Some_iff)

lemma row_of_None: "row_of ps i = None \<longleftrightarrow> i \<notin> pf_id ` set ps"
  by (auto simp: row_of_def find_None_iff)

lemma row_of_mem: "distinct (map pf_id ps) \<Longrightarrow> p \<in> set ps \<Longrightarrow> row_of ps (pf_id p) = Some p"
  by (induction ps) (auto simp: row_of_def)

lemma row_of_map:
  assumes "\<And>p. pf_id (f p) = pf_id p"
  shows "row_of (map (\<lambda>p. if pf_id p = i then f p else p) ps) j = map_option (\<lambda>p. if pf_id p = i then f p else p) (row_of ps j)"
  by (induction ps) (auto simp: row_of_def assms)

lemma row_of_filter: "j \<noteq> i \<Longrightarrow> row_of (filter (\<lambda>p. pf_id p \<noteq> i) ps) j = row_of ps j"
  by (induction ps) (auto simp: row_of_def)

lemma row_of_append: "row_of (ps @ [p]) j = (case row_of ps j of Some r \<Rightarrow> Some r | None \<Rightarrow> if pf_id p = j then Some p else None)"
  by (induction ps) (auto simp: row_of_def)

lemma row_named_None: "row_named ps n = None \<longleftrightarrow> n \<notin> pf_name ` set ps"
  by (auto simp: row_named_def find_None_iff)

lemma row_named_SomeD: "row_named ps n = Some p \<Longrightarrow> p \<in> set ps \<and> pf_name p = n"
  by (auto simp: row_named_def find_Some_iff)

lemma repo_of_SomeD: "repo_of s i = Some r \<Longrightarrow> r \<in> set (rg_repos s) \<and> rp_id r = i"
  by (auto simp: repo_of_def find_Some_iff)

lemma map_keeps: "(\<And>x. x \<in> set xs \<Longrightarrow> k (f x) = k x) \<Longrightarrow> map k (map f xs) = map k xs"
  by simp

lemma profiles_okD:
  assumes "profiles_ok ps next"
  shows "distinct (map pf_id ps)" "distinct (map pf_name ps)" "p \<in> set ps \<Longrightarrow> pf_id p < next" "p \<in> set ps \<Longrightarrow> name_check (pf_name p)"
    "p \<in> set ps \<Longrightarrow> link_ok ps p" "acyclic (parent_rel ps)"
  using assms by (auto simp: profiles_ok_def)

lemma parent_row:
  assumes "profiles_ok ps next" and "p \<in> set ps" and "pf_parent p = Some q"
  obtains r where "row_of ps q = Some r" "r \<in> set ps" "pf_id r = q" "pf_version r = pf_version p" "check_child_visibility (pf_tenant p) (pf_tenant r)"
  using profiles_okD(5) [OF assms(1,2)] assms(3) row_of_SomeD by (fastforce simp: link_ok_def split: option.splits)

lemma parent_rel_step: "distinct (map pf_id ps) \<Longrightarrow> row_of ps i = Some p \<Longrightarrow> (i, q) \<in> parent_rel ps \<longleftrightarrow> pf_parent p = Some q"
  unfolding parent_rel_def using row_of_SomeD [of ps i p] by (auto simp: distinct_map inj_on_def)

lemma not_own_parent: "profiles_ok ps next \<Longrightarrow> p \<in> set ps \<Longrightarrow> pf_parent p \<noteq> Some (pf_id p)"
  using profiles_okD(6) by (fastforce simp: parent_rel_def acyclic_def)

lemma parent_rel_map:
  assumes "\<And>p. p \<in> set ps \<Longrightarrow> pf_id (g p) = pf_id p \<and> pf_parent (g p) = pf_parent p"
  shows "parent_rel (map g ps) = parent_rel ps"
proof (intro set_eqI iffI; clarify)
  fix x q assume "(x, q) \<in> parent_rel (map g ps)"
  then obtain p where "p \<in> set ps" "x = pf_id (g p)" "pf_parent (g p) = Some q" by (auto simp: parent_rel_def)
  with assms [of p] show "(x, q) \<in> parent_rel ps" unfolding parent_rel_def by fastforce
next
  fix x q assume "(x, q) \<in> parent_rel ps"
  then obtain p where p: "p \<in> set ps" "x = pf_id p" "pf_parent p = Some q" by (auto simp: parent_rel_def)
  with assms [of p] have "g p \<in> set (map g ps)" "x = pf_id (g p)" "pf_parent (g p) = Some q" by auto
  then show "(x, q) \<in> parent_rel (map g ps)" unfolding parent_rel_def by blast
qed

lemma profiles_ok_map:
  assumes "profiles_ok ps next" and "\<And>p. p \<in> set ps \<Longrightarrow> pf_id (g p) = pf_id p" and "acyclic (parent_rel (map g ps))"
    and "\<And>p. p \<in> set ps \<Longrightarrow> name_check (pf_name (g p)) \<and> link_ok (map g ps) (g p)" and "distinct (map pf_name (map g ps))"
  shows "profiles_ok (map g ps) next"
proof -
  have "map pf_id (map g ps) = map pf_id ps" using assms(2) by simp
  with assms show ?thesis unfolding profiles_ok_def by (simp del: map_map)
qed

subsection \<open>Edits of one row\<close>

text \<open>An edit of row \<open>i\<close> that keeps its number and does not change parents keeps the links if it does for the row and its children.\<close>

lemma profiles_ok_edit:
  assumes ok: "profiles_ok ps next" and f: "\<And>p. pf_id (f p) = pf_id p" "\<And>p. pf_parent (f p) = pf_parent p"
    and p: "row_of ps i = Some p"
    and name: "pf_name (f p) = pf_name p \<or> pf_name (f p) \<notin> pf_name ` set ps \<and> name_check (pf_name (f p))"
    and up: "\<And>r. Option.bind (pf_parent p) (row_of ps) = Some r \<Longrightarrow>
      pf_version r = pf_version (f p) \<and> check_child_visibility (pf_tenant (f p)) (pf_tenant r)"
    and down: "\<And>c. c \<in> set (children_of ps i) \<Longrightarrow> pf_version (f p) = pf_version c \<and> check_child_visibility (pf_tenant c) (pf_tenant (f p))"
  shows "profiles_ok (map (\<lambda>p. if pf_id p = i then f p else p) ps) next"
proof -
  let ?g = "\<lambda>p. if pf_id p = i then f p else p"
  note d = profiles_okD [OF ok]
  have pm: "p \<in> set ps" "pf_id p = i" using row_of_SomeD [OF p] by auto
  have only: "x = p" if "x \<in> set ps" "pf_id x = i" for x using d(1) pm that by (auto simp: distinct_map inj_on_def)
  have ids: "map pf_id (map ?g ps) = map pf_id ps" by (simp add: f)
  have rel: "parent_rel (map ?g ps) = parent_rel ps" by (rule parent_rel_map) (simp add: f)
  have inj: "inj_on pf_name (set ps)" using d(2) by (simp add: distinct_map)
  have fresh: "pf_name (f p) = pf_name x \<Longrightarrow> x = p" if "x \<in> set ps" for x
    using name that inj_onD [OF inj _ that pm(1)] by auto
  have "inj_on (\<lambda>x. pf_name (?g x)) (set ps)"
  proof (rule inj_onI)
    fix x y assume "x \<in> set ps" "y \<in> set ps" "pf_name (?g x) = pf_name (?g y)"
    then show "x = y" using only [of x] only [of y] fresh [of x] fresh [of y] inj_onD [OF inj, of x y]
      by (cases "pf_id x = i"; cases "pf_id y = i") auto
  qed
  then have names: "distinct (map pf_name (map ?g ps))" using d(2) by (auto simp: distinct_map comp_def)
  have link: "link_ok (map ?g ps) (?g x)" if x: "x \<in> set ps" for x
  proof (cases "pf_parent x")
    case (Some q)
    obtain r where r: "row_of ps q = Some r" "r \<in> set ps" "pf_id r = q" "pf_version r = pf_version x" "check_child_visibility (pf_tenant x) (pf_tenant r)"
      by (rule parent_row [OF ok x Some])
    have rg: "row_of (map ?g ps) q = Some (?g r)" using r(1) by (simp add: row_of_map f)
    have ne: "\<not> (pf_id x = i \<and> q = i)" using not_own_parent [OF ok x] Some by auto
    have "pf_version (?g r) = pf_version (?g x) \<and> check_child_visibility (pf_tenant (?g x)) (pf_tenant (?g r))"
    proof (cases "pf_id x = i")
      case True
      with only [OF x] Some r ne up [of r] show ?thesis by simp
    next
      case False
      with r Some x down [of x] only [OF r(2)] show ?thesis by (auto simp: children_of_def)
    qed
    moreover have "pf_parent (?g x) = Some q" by (simp add: Some f)
    ultimately show ?thesis unfolding link_ok_def by (simp only: rg option.case)
  qed (simp add: link_ok_def f)
  have "name_check (pf_name (?g x))" if "x \<in> set ps" for x
    using d(4) [OF that] d(4) [OF pm(1)] only [OF that] name by (auto split: if_splits)
  moreover have "acyclic (parent_rel (map ?g ps))" using d(6) by (simp only: rel)
  ultimately show ?thesis using link names f by (intro profiles_ok_map [OF ok]) auto
qed

lemma repos_ok_edit:
  assumes "repos_ok ps rs next" and "\<And>j q. row_of ps j = Some q \<Longrightarrow> \<exists>q'. row_of ps' j = Some q' \<and> pf_tenant q' = pf_tenant q"
  shows "repos_ok ps' rs next"
  using assms unfolding repos_ok_def repo_ok_def by fastforce

subsection \<open>The operations\<close>

lemma fail_keeps [simp]: "snd (fail e s) = s"
  by (simp add: fail_def)

lemma resolved_visible: "resolve_new_profile_tenant pt True t sh = Inr x \<Longrightarrow> check_child_visibility x pt"
  by (auto simp: resolve_new_profile_tenant_def check_child_visibility_def split: if_splits)

lemma profiles_ok_append:
  assumes ok: "profiles_ok ps next" and new: "pf_id p = next" "name_check (pf_name p)" "pf_name p \<notin> pf_name ` set ps"
    and link: "link_ok ps p"
  shows "profiles_ok (ps @ [p]) (next + 1)"
proof -
  note d = profiles_okD [OF ok]
  have old: "next \<notin> pf_id ` set ps" using d(3) by auto
  have keep: "link_ok (ps @ [p]) x" if "link_ok ps x" for x
    using that by (auto simp: link_ok_def row_of_append split: option.splits)
  have exists: "pf_parent x = Some q \<Longrightarrow> q \<in> pf_id ` set ps" if "x \<in> set ps \<or> x = p" for x q
    using that d(5) [of x] link row_of_SomeD by (fastforce simp: link_ok_def split: option.splits)
  have no_edge: "(a, next) \<notin> parent_rel ps" for a using exists old unfolding parent_rel_def by blast
  then have no_path: "(q, next) \<notin> (parent_rel ps)\<^sup>*" if "q \<noteq> next" for q
    using that by (meson rtranclE)
  have rel: "parent_rel (ps @ [p]) = (case pf_parent p of None \<Rightarrow> parent_rel ps | Some q \<Rightarrow> insert (next, q) (parent_rel ps))"
    using new(1) by (auto simp: parent_rel_def split: option.splits)
  have "acyclic (parent_rel (ps @ [p]))"
  proof (cases "pf_parent p")
    case (Some q)
    then have "q \<noteq> next" using exists [of p q] old by auto
    with Some d(6) no_path show ?thesis by (simp add: rel acyclic_insert)
  qed (simp add: rel d(6))
  moreover have "\<forall>x \<in> set (ps @ [p]). link_ok (ps @ [p]) x" using d(5) link keep by simp
  moreover have "\<forall>x \<in> set (ps @ [p]). pf_id x < next + 1" using d(3) new(1) by fastforce
  ultimately show ?thesis using d(1,2,4) new old unfolding profiles_ok_def by simp
qed

lemma insert_profile_keeps:
  assumes "registry_ok s" and "case parent of None \<Rightarrow> True
    | Some q \<Rightarrow> \<exists>r. row_of (rg_profiles s) q = Some r \<and> pf_version r = v \<and> check_child_visibility t (pf_tenant r)"
  shows "registry_ok (snd (insert_profile n v d parent t s))"
proof -
  let ?p = "\<lparr>pf_id = rg_next_profile s, pf_name = n, pf_version = v, pf_description = Some d, pf_parent = parent, pf_tenant = t\<rparr>"
  have ok: "profiles_ok (rg_profiles s) (rg_next_profile s)" "repos_ok (rg_profiles s) (rg_repos s) (rg_next_repo s)"
    using assms(1) by (simp_all add: registry_ok_def)
  have "repos_ok (rg_profiles s @ [?p]) (rg_repos s) (rg_next_repo s)"
    by (rule repos_ok_edit [OF ok(2)]) (simp add: row_of_append)
  moreover have link: "link_ok (rg_profiles s) ?p" using assms(2) by (auto simp: link_ok_def split: option.splits)
  then have "profiles_ok (rg_profiles s @ [?p]) (rg_next_profile s + 1)" if "name_check n" "n \<notin> pf_name ` set (rg_profiles s)"
    using that by (intro profiles_ok_append [OF ok(1)]) simp_all
  ultimately show ?thesis using assms(1) by (simp add: registry_ok_def insert_profile_def row_named_None)
qed

lemma add_profile_keeps: "registry_ok s \<Longrightarrow> registry_ok (snd (add_profile n v d parent tenant shared s))"
  by (auto simp: add_profile_def split: option.splits sum.splits intro!: insert_profile_keeps dest: resolved_visible)

lemma ancestors_complete:
  assumes "distinct (map pf_id ps)" and "acyclic (parent_rel ps)" and "(q, i) \<in> (parent_rel ps)\<^sup>*" and "row_of ps q \<noteq> None"
    and "row_of ps i \<noteq> None" and "\<And>x. x \<in> set seen \<Longrightarrow> (x, q) \<in> (parent_rel ps)\<^sup>+"
    and "\<And>p r. p \<in> set ps \<Longrightarrow> pf_parent p = Some r \<Longrightarrow> row_of ps r \<noteq> None"
  shows "i \<in> set (ancestors ps seen q)"
  using assms
proof (induction ps seen q rule: ancestors.induct)
  case (1 ps seen q)
  obtain p where p: "row_of ps q = Some p" using 1(5) by auto
  have new: "q \<notin> set seen" using 1(3,7) by (auto simp: acyclic_def)
  show ?case
  proof (cases "q = i")
    case True
    then show ?thesis using p new by (subst ancestors.simps) simp
  next
    case False
    then obtain r where r: "(q, r) \<in> parent_rel ps" "(r, i) \<in> (parent_rel ps)\<^sup>*" using 1(4) by (meson converse_rtranclE)
    then have pr: "pf_parent p = Some r" using parent_rel_step [OF 1(2) p] by blast
    have "row_of ps r \<noteq> None" using 1(8) pr row_of_SomeD [OF p] by blast
    moreover have "(x, r) \<in> (parent_rel ps)\<^sup>+" if "x \<in> set (q # seen)" for x
      using that 1(7) r(1) by (auto intro: trancl_into_trancl)
    ultimately have "i \<in> set (ancestors ps (q # seen) r)" by (rule 1(1) [OF p new pr 1(2,3) r(2) _ 1(6)]) (use 1(8) in auto)
    then show ?thesis using p pr new by (subst ancestors.simps) simp
  qed
qed

lemma set_parent_profiles:
  assumes ok: "profiles_ok ps next" and v: "validate_parent i parent s = None" "rg_profiles s = ps"
  shows "profiles_ok (map (\<lambda>p. if pf_id p = i then p\<lparr>pf_parent := parent\<rparr> else p) ps) next"
proof -
  let ?g = "\<lambda>p. if pf_id p = i then p\<lparr>pf_parent := parent\<rparr> else p"
  note d = profiles_okD [OF ok]
  have rows: "row_of (map ?g ps) j = map_option ?g (row_of ps j)" for j by (rule row_of_map) simp
  have exists: "row_of ps r \<noteq> None" if "p \<in> set ps" "pf_parent p = Some r" for p r
    by (rule parent_row [OF ok that]) simp
  have new: "\<exists>c r. row_of ps i = Some c \<and> row_of ps q = Some r \<and> q \<noteq> i \<and> pf_version r = pf_version c \<and>
      check_child_visibility (pf_tenant c) (pf_tenant r) \<and> i \<notin> set (ancestors ps [] q)" if "parent = Some q" for q
    using v that by (auto simp: validate_parent_def split: option.splits if_splits)
  have link: "link_ok (map ?g ps) (?g x)" if x: "x \<in> set ps" for x
  proof (cases "pf_id x = i")
    case True
    then have "row_of ps i = Some x" using row_of_mem [OF d(1) x] by simp
    with new True show ?thesis by (auto simp: link_ok_def rows split: option.splits)
  next
    case False
    with d(5) [OF x] show ?thesis by (auto simp: link_ok_def rows split: option.splits)
  qed
  have "acyclic (parent_rel (map ?g ps))"
  proof (cases parent)
    case None
    have "parent_rel (map ?g ps) \<subseteq> parent_rel ps" using None by (auto simp: parent_rel_def split: if_splits)
    with d(6) show ?thesis by (rule acyclic_subset)
  next
    case (Some q)
    have "parent_rel (map ?g ps) \<subseteq> insert (i, q) (parent_rel ps)" using Some by (auto simp: parent_rel_def split: if_splits)
    moreover have "(q, i) \<notin> (parent_rel ps)\<^sup>*"
      using new [OF Some] ancestors_complete [OF d(1,6), of q i "[]"] exists by auto
    then have "acyclic (insert (i, q) (parent_rel ps))" using d(6) by (simp add: acyclic_insert)
    ultimately show ?thesis by (rule acyclic_subset [rotated])
  qed
  moreover have "map pf_name (map ?g ps) = map pf_name ps" by simp
  then have "distinct (map pf_name (map ?g ps))" using d(2) by (simp only:)
  ultimately show ?thesis using d(4) link by (intro profiles_ok_map [OF ok]) auto
qed

lemma set_profile_parent_keeps: "registry_ok s \<Longrightarrow> registry_ok (snd (set_profile_parent i parent s))"
proof -
  assume ok: "registry_ok s"
  have "repos_ok (map (\<lambda>p. if pf_id p = i then p\<lparr>pf_parent := parent\<rparr> else p) (rg_profiles s)) (rg_repos s) (rg_next_repo s)"
    by (rule repos_ok_edit [of "rg_profiles s"]) (use ok in \<open>auto simp: registry_ok_def row_of_map\<close>)
  with ok show ?thesis
    by (cases "validate_parent i parent s")
      (simp_all add: set_profile_parent_def registry_ok_def write_parent_def update_row_def set_parent_profiles)
qed

lemma repos_ok_map:
  assumes "\<And>r. r \<in> set rs \<Longrightarrow> rp_id (h r) = rp_id r" and "repos_ok ps rs next" and "distinct (map repo_key (map h rs))"
    and "\<And>r. r \<in> set rs \<Longrightarrow> repo_ok ps' (h r)"
  shows "repos_ok ps' (map h rs) next"
proof -
  have "map rp_id (map h rs) = map rp_id rs" using assms(1) by simp
  with assms show ?thesis unfolding repos_ok_def by (simp del: map_map)
qed

lemma follow_tenant_repos:
  assumes "repos_ok ps rs next" and "row_of ps i = Some p"
  shows "repos_ok (map (\<lambda>p. if pf_id p = i then p\<lparr>pf_tenant := t\<rparr> else p) ps) (map (\<lambda>r. if rp_profile r = i then r\<lparr>rp_tenant := t\<rparr> else r) rs) next"
proof -
  let ?g = "\<lambda>p. if pf_id p = i then p\<lparr>pf_tenant := t\<rparr> else p" and ?h = "\<lambda>r. if rp_profile r = i then r\<lparr>rp_tenant := t\<rparr> else r"
  have rows: "row_of (map ?g ps) j = map_option ?g (row_of ps j)" for j by (rule row_of_map) simp
  have "map repo_key (map ?h rs) = map repo_key rs" by (simp add: repo_key_def)
  then have "distinct (map repo_key (map ?h rs))" using assms(1) by (simp only: repos_ok_def)
  moreover have "repo_ok (map ?g ps) (?h r)" if rm: "r \<in> set rs" for r
  proof -
    obtain q where q: "row_of ps (rp_profile r) = Some q" "rp_tenant r = pf_tenant q" using assms(1) rm by (auto simp: repos_ok_def repo_ok_def)
    moreover have "pf_id q = rp_profile r" using row_of_SomeD [OF q(1)] by simp
    ultimately show ?thesis by (auto simp: repo_ok_def rows)
  qed
  ultimately show ?thesis by (intro repos_ok_map [OF _ assms(1)]) auto
qed

lemma set_profile_tenant_keeps: "registry_ok s \<Longrightarrow> registry_ok (snd (set_profile_tenant i t confirm s))"
proof -
  assume ok: "registry_ok s"
  then have pok: "profiles_ok (rg_profiles s) (rg_next_profile s)" and rok: "repos_ok (rg_profiles s) (rg_repos s) (rg_next_repo s)"
    by (simp_all add: registry_ok_def)
  show ?thesis
  proof (cases "row_of (rg_profiles s) i")
    case None
    with ok show ?thesis by (simp add: set_profile_tenant_def)
  next
    case (Some p)
    have "profiles_ok (map (\<lambda>p. if pf_id p = i then p\<lparr>pf_tenant := t\<rparr> else p) (rg_profiles s)) (rg_next_profile s)"
      if "\<not> (case Option.bind (pf_parent p) (row_of (rg_profiles s)) of None \<Rightarrow> False | Some q \<Rightarrow> \<not> check_child_visibility t (pf_tenant q))"
        and "\<not> list_ex (\<lambda>c. \<not> check_child_visibility (pf_tenant c) t) (children_of (rg_profiles s) i)"
    proof (rule profiles_ok_edit [OF pok _ _ Some])
      fix r assume r: "Option.bind (pf_parent p) (row_of (rg_profiles s)) = Some r"
      then obtain q where q: "pf_parent p = Some q" "row_of (rg_profiles s) q = Some r" by (auto simp: bind_eq_Some_conv)
      have "pf_version r = pf_version p" by (rule parent_row [OF pok _ q(1)]) (use row_of_SomeD [OF Some] q(2) in auto)
      with that(1) r show "pf_version r = pf_version (p\<lparr>pf_tenant := t\<rparr>) \<and> check_child_visibility (pf_tenant (p\<lparr>pf_tenant := t\<rparr>)) (pf_tenant r)" by simp
    next
      fix c assume c: "c \<in> set (children_of (rg_profiles s) i)"
      then have cm: "c \<in> set (rg_profiles s)" "pf_parent c = Some i" by (auto simp: children_of_def)
      have "pf_version p = pf_version c" by (rule parent_row [OF pok cm]) (use Some in auto)
      with that(2) c show "pf_version (p\<lparr>pf_tenant := t\<rparr>) = pf_version c \<and> check_child_visibility (pf_tenant c) (pf_tenant (p\<lparr>pf_tenant := t\<rparr>))"
        by (auto simp: list_ex_iff)
    qed simp_all
    with ok follow_tenant_repos [OF rok Some] Some show ?thesis
      by (simp add: set_profile_tenant_def follow_tenant_def update_row_def registry_ok_def)
  qed
qed

lemma repos_ok_update:
  assumes "repos_ok ps rs next" and f: "\<And>r. rp_id (f r) = rp_id r \<and> rp_profile (f r) = rp_profile r"
    and "\<And>r. r \<in> set rs \<Longrightarrow> rp_id r = i \<Longrightarrow> repo_ok ps (f r)"
    and key: "\<And>r x. r \<in> set rs \<Longrightarrow> rp_id r = i \<Longrightarrow> x \<in> set rs \<Longrightarrow> rp_id x \<noteq> i \<Longrightarrow> repo_key (f r) \<noteq> repo_key x"
  shows "repos_ok ps (map (\<lambda>r. if rp_id r = i then f r else r) rs) next"
proof -
  let ?h = "\<lambda>r. if rp_id r = i then f r else r"
  have inj: "inj_on rp_id (set rs)" "inj_on repo_key (set rs)" "distinct rs" using assms(1) by (auto simp: repos_ok_def distinct_map)
  have "inj_on (\<lambda>r. repo_key (?h r)) (set rs)"
  proof (rule inj_onI)
    fix x y assume "x \<in> set rs" "y \<in> set rs" "repo_key (?h x) = repo_key (?h y)"
    then show "x = y" using key [of x y] key [of y x] inj_onD [OF inj(1), of x y] inj_onD [OF inj(2), of x y]
      by (cases "rp_id x = i"; cases "rp_id y = i") auto
  qed
  then have "distinct (map repo_key (map ?h rs))" using inj(3) by (simp add: distinct_map comp_def)
  moreover have "repo_ok ps (?h r)" if "r \<in> set rs" for r using assms(1,3) that by (auto simp: repos_ok_def)
  ultimately show ?thesis using f by (intro repos_ok_map [OF _ assms(1)]) auto
qed

lemma update_repo_row_keeps:
  assumes "registry_ok s" and "\<And>r. rp_id (f r) = rp_id r \<and> repo_key (f r) = repo_key r"
    and "\<And>r. r \<in> set (rg_repos s) \<Longrightarrow> rp_id r = i \<Longrightarrow> rp_tenant (f r) = rp_tenant r"
  shows "registry_ok (update_repo_row i f s)"
proof -
  have rok: "repos_ok (rg_profiles s) (rg_repos s) (rg_next_repo s)" using assms(1) by (simp add: registry_ok_def)
  have "repos_ok (rg_profiles s) (map (\<lambda>r. if rp_id r = i then f r else r) (rg_repos s)) (rg_next_repo s)"
  proof (rule repos_ok_update [OF rok])
    fix r show "rp_id (f r) = rp_id r \<and> rp_profile (f r) = rp_profile r" using assms(2) [of r] by (simp add: repo_key_def)
  next
    fix r assume "r \<in> set (rg_repos s)" "rp_id r = i"
    with assms(2) [of r] assms(3) rok show "repo_ok (rg_profiles s) (f r)" by (auto simp: repos_ok_def repo_ok_def repo_key_def)
  next
    fix r x assume rx: "r \<in> set (rg_repos s)" "rp_id r = i" "x \<in> set (rg_repos s)" "rp_id x \<noteq> i"
    have "inj_on repo_key (set (rg_repos s))" using rok by (simp add: repos_ok_def distinct_map)
    with rx show "repo_key (f r) \<noteq> repo_key x" unfolding assms(2) [THEN conjunct2] by (auto dest: inj_onD)
  qed
  with assms(1) show ?thesis by (simp add: registry_ok_def update_repo_row_def)
qed

lemma repo_row_tenant: "registry_ok s \<Longrightarrow> repo_of s i = Some r \<Longrightarrow> \<exists>p. row_of (rg_profiles s) (rp_profile r) = Some p \<and> rp_tenant r = pf_tenant p"
  using repo_of_SomeD [of s i r] by (auto simp: registry_ok_def repos_ok_def repo_ok_def)

lemma same_repo: "registry_ok s \<Longrightarrow> repo_of s i = Some r \<Longrightarrow> x \<in> set (rg_repos s) \<Longrightarrow> rp_id x = i \<Longrightarrow> x = r"
  using repo_of_SomeD [of s i r] by (auto simp: registry_ok_def repos_ok_def distinct_map inj_on_def)

lemma set_repo_tenant_keeps: "registry_ok s \<Longrightarrow> registry_ok (snd (set_repo_tenant i t s))"
proof -
  assume ok: "registry_ok s"
  show ?thesis
  proof (cases "repo_of s i")
    case (Some r)
    obtain p where p: "row_of (rg_profiles s) (rp_profile r) = Some p" "rp_tenant r = pf_tenant p" using repo_row_tenant [OF ok Some] by auto
    have "registry_ok (update_repo_row i (\<lambda>r. r\<lparr>rp_tenant := t\<rparr>) s)" if "pf_tenant p = t"
      by (rule update_repo_row_keeps [OF ok]) (use that p same_repo [OF ok Some] in \<open>auto simp: repo_key_def\<close>)
    with Some p ok show ?thesis by (simp add: set_repo_tenant_def)
  qed (simp add: set_repo_tenant_def ok)
qed

lemma add_repo_keeps: "registry_ok s \<Longrightarrow> registry_ok (snd (add_repo i url branch path ssh cs tenant s))"
  by (auto simp: add_repo_def registry_ok_def repos_ok_def repo_ok_def repo_key_def list_ex_iff split: option.splits)

lemma update_repo_status_keeps: "registry_ok s \<Longrightarrow> registry_ok (snd (update_repo_status i st msg now s))"
  by (simp add: update_repo_status_def repo_key_def update_repo_row_keeps)

lemma update_repo_head_sha_keeps: "registry_ok s \<Longrightarrow> registry_ok (snd (update_repo_head_sha i sha now s))"
  by (simp add: update_repo_head_sha_def repo_key_def update_repo_row_keeps)

lemma set_clone_status_keeps: "registry_ok s \<Longrightarrow> registry_ok (snd (set_clone_status i st msg s))"
  by (simp add: set_clone_status_def repo_key_def update_repo_row_keeps)

lemma reset_repo_head_sha_keeps: "registry_ok s \<Longrightarrow> registry_ok (snd (reset_repo_head_sha i s))"
  by (simp add: reset_repo_head_sha_def repo_key_def update_repo_row_keeps)

lemma update_repo_local_path_keeps: "registry_ok s \<Longrightarrow> registry_ok (snd (update_repo_local_path i path s))"
  by (simp add: update_repo_local_path_def repo_key_def update_repo_row_keeps)

lemma update_repo_keeps: "registry_ok s \<Longrightarrow> registry_ok (snd (update_repo i url branch ssh clear path s))"
proof -
  assume ok: "registry_ok s"
  then have rok: "repos_ok (rg_profiles s) (rg_repos s) (rg_next_repo s)" by (simp add: registry_ok_def)
  show ?thesis
  proof (cases "repo_of s i")
    case (Some r)
    let ?u = "new_value url (rp_url r)" and ?b = "new_value branch (rp_branch r)"
    let ?f = "edit_repo url branch ssh clear path"
    have "repos_ok (rg_profiles s) (map (\<lambda>r. if rp_id r = i then ?f r else r) (rg_repos s)) (rg_next_repo s)"
      if free: "\<not> ((url \<noteq> None \<or> branch \<noteq> None) \<and>
        list_ex (\<lambda>x. rp_url x = ?u \<and> rp_branch x = ?b \<and> rp_profile x = rp_profile r \<and> rp_id x \<noteq> i) (rg_repos s))"
    proof (rule repos_ok_update [OF rok])
      fix x assume "x \<in> set (rg_repos s)" "rp_id x = i"
      with rok show "repo_ok (rg_profiles s) (?f x)" by (auto simp: repos_ok_def repo_ok_def edit_repo_def)
    next
      fix x y assume xy: "x \<in> set (rg_repos s)" "rp_id x = i" "y \<in> set (rg_repos s)" "rp_id y \<noteq> i"
      have x: "x = r" using same_repo [OF ok Some xy(1,2)] .
      have "inj_on repo_key (set (rg_repos s))" using rok by (simp add: repos_ok_def distinct_map)
      then have "repo_key r \<noteq> repo_key y" using xy x by (auto dest: inj_onD)
      with free xy x show "repo_key (?f x) \<noteq> repo_key y" by (auto simp: repo_key_def list_ex_iff edit_repo_def new_value_def split: option.splits)
    qed (simp add: edit_repo_def)
    with ok Some show ?thesis by (auto simp: update_repo_def registry_ok_def update_repo_row_def)
  qed (simp add: update_repo_def ok)
qed

lemma repos_ok_filter: "repos_ok ps rs next \<Longrightarrow> repos_ok ps (filter P rs) next"
  by (auto simp: repos_ok_def distinct_map_filter)

lemma delete_repo_keeps: "registry_ok s \<Longrightarrow> registry_ok (snd (delete_repo i s))"
  by (auto simp: delete_repo_def drop_repos_def Let_def registry_ok_def repos_ok_filter split: option.splits)

lemma profiles_ok_remove:
  assumes ok: "profiles_ok ps next" and "children_of ps i = []"
  shows "profiles_ok (filter (\<lambda>p. pf_id p \<noteq> i) ps) next"
proof -
  note d = profiles_okD [OF ok]
  have "parent_rel (filter (\<lambda>p. pf_id p \<noteq> i) ps) \<subseteq> parent_rel ps" by (auto simp: parent_rel_def)
  with d(6) have "acyclic (parent_rel (filter (\<lambda>p. pf_id p \<noteq> i) ps))" by (rule acyclic_subset)
  moreover have "link_ok (filter (\<lambda>p. pf_id p \<noteq> i) ps) x" if x: "x \<in> set ps" for x
  proof -
    have "pf_parent x \<noteq> Some i" using assms(2) x by (auto simp: children_of_def filter_empty_conv)
    with d(5) [OF x] show ?thesis by (auto simp: link_ok_def row_of_filter split: option.splits)
  qed
  ultimately show ?thesis using d(1-4) by (simp add: profiles_ok_def distinct_map_filter)
qed

lemma delete_profile_keeps: "registry_ok s \<Longrightarrow> registry_ok (snd (delete_profile i s))"
proof -
  assume ok: "registry_ok s"
  have "repos_ok (filter (\<lambda>p. pf_id p \<noteq> i) (rg_profiles s)) (filter (\<lambda>r. rp_profile r \<noteq> i) (rg_repos s)) (rg_next_repo s)"
    using ok by (auto simp: registry_ok_def repos_ok_def repo_ok_def row_of_filter distinct_map_filter)
  with ok show ?thesis
    by (auto simp: delete_profile_def drop_repos_def Let_def registry_ok_def profiles_ok_remove split: option.splits)
qed

lemma descend_holds_work: "descend ps work = Some below \<Longrightarrow> set work \<subseteq> set below"
  by (subst (asm) descend.simps) (auto simp: bind_eq_Some_conv split: if_splits)

lemma write_profile_keeps:
  assumes ok: "registry_ok s" and p: "row_of (rg_profiles s) i = Some p"
    and v: "new_value v (pf_version p) = pf_version p \<or>
      \<not> (case Option.bind (pf_parent p) (row_of (rg_profiles s)) of None \<Rightarrow> False | Some q \<Rightarrow> pf_version q \<noteq> new_value v (pf_version p)) \<and>
      (\<forall>c \<in> set (children_of (rg_profiles s) i). pf_version c = new_value v (pf_version p))"
  shows "registry_ok (snd (write_profile lock p n v d s))"
proof -
  have pok: "profiles_ok (rg_profiles s) (rg_next_profile s)" and rok: "repos_ok (rg_profiles s) (rg_repos s) (rg_next_repo s)"
    using ok by (simp_all add: registry_ok_def)
  let ?f = "edit_row p n v d"
  have id: "pf_id p = i" "p \<in> set (rg_profiles s)" using row_of_SomeD [OF p] by auto
  have new: "profiles_ok (map (\<lambda>p. if pf_id p = i then ?f p else p) (rg_profiles s)) (rg_next_profile s)"
    if "pf_name (?f p) = pf_name p \<or> pf_name (?f p) \<notin> pf_name ` set (rg_profiles s) \<and> name_check (pf_name (?f p))"
  proof (rule profiles_ok_edit [where f = ?f, OF pok _ _ p that])
    fix r assume r: "Option.bind (pf_parent p) (row_of (rg_profiles s)) = Some r"
    then obtain q where q: "pf_parent p = Some q" "row_of (rg_profiles s) q = Some r" by (auto simp: bind_eq_Some_conv)
    have "pf_version r = pf_version p \<and> check_child_visibility (pf_tenant p) (pf_tenant r)" by (rule parent_row [OF pok id(2) q(1)]) (use q(2) in auto)
    with v r show "pf_version r = pf_version (?f p) \<and> check_child_visibility (pf_tenant (?f p)) (pf_tenant r)" by (auto simp: edit_row_def)
  next
    fix c assume c: "c \<in> set (children_of (rg_profiles s) i)"
    then have cm: "c \<in> set (rg_profiles s)" "pf_parent c = Some i" by (auto simp: children_of_def)
    have "pf_version p = pf_version c \<and> check_child_visibility (pf_tenant c) (pf_tenant p)" by (rule parent_row [OF pok cm]) (use p in auto)
    with v c show "pf_version (?f p) = pf_version c \<and> check_child_visibility (pf_tenant c) (pf_tenant (?f p))" by (auto simp: edit_row_def)
  qed (simp_all add: edit_row_def)
  have "repos_ok (map (\<lambda>p. if pf_id p = i then ?f p else p) (rg_profiles s)) (rg_repos s) (rg_next_repo s)"
    by (rule repos_ok_edit [OF rok]) (auto simp: row_of_map edit_row_def)
  moreover have "new_value n (pf_name p) \<notin> pf_name ` set (rg_profiles s)"
    if "new_value n (pf_name p) \<noteq> pf_name p" "\<not> list_ex (\<lambda>q. pf_name q = new_value n (pf_name p) \<and> pf_id q \<noteq> i) (rg_profiles s)"
    using that row_of_mem [OF profiles_okD(1) [OF pok]] p by (auto simp: list_ex_iff)
  ultimately show ?thesis using new ok id
    by (simp add: write_profile_def Let_def registry_ok_def update_row_def edit_row_def fail_def)
qed

lemma edit_checks_pass:
  assumes "edit_checks s s s s i n v = Some (Inr p)"
  shows "row_of (rg_profiles s) i = Some p"
    and "new_value v (pf_version p) = pf_version p \<or>
      \<not> (case Option.bind (pf_parent p) (row_of (rg_profiles s)) of None \<Rightarrow> False | Some q \<Rightarrow> pf_version q \<noteq> new_value v (pf_version p)) \<and>
      (\<forall>c \<in> set (children_of (rg_profiles s) i). pf_version c = new_value v (pf_version p))"
proof -
  obtain q where q: "row_of (rg_profiles s) i = Some q" using assms by (auto simp: edit_checks_def split: option.splits)
  let ?same = "new_value v (pf_version q) = pf_version q"
  let ?clash = "case Option.bind (pf_parent q) (row_of (rg_profiles s)) of None \<Rightarrow> False | Some r \<Rightarrow> pf_version r \<noteq> new_value v (pf_version q)"
  have "q = p \<and> (?same \<or> \<not> ?clash \<and> (\<forall>c \<in> set (children_of (rg_profiles s) i). pf_version c = new_value v (pf_version q)))"
  proof (cases "?same \<or> ?clash")
    case True
    then show ?thesis using assms q by (auto simp: edit_checks_def Let_def simp del: not_None_eq split: if_split_asm)
  next
    case False
    then obtain below where "descend (rg_profiles s) (children_of (rg_profiles s) i) = Some below" "p = q"
        "\<forall>c \<in> set below. pf_version c = new_value v (pf_version q)"
      using assms q by (simp add: edit_checks_def Let_def bind_eq_Some_conv list_ex_iff split: if_split_asm) blast
    with False descend_holds_work show ?thesis by blast
  qed
  with q show "row_of (rg_profiles s) i = Some p"
    and "new_value v (pf_version p) = pf_version p \<or>
      \<not> (case Option.bind (pf_parent p) (row_of (rg_profiles s)) of None \<Rightarrow> False | Some q \<Rightarrow> pf_version q \<noteq> new_value v (pf_version p)) \<and>
      (\<forall>c \<in> set (children_of (rg_profiles s) i). pf_version c = new_value v (pf_version p))"
    by blast+
qed

lemma update_profile_keeps: "registry_ok s \<Longrightarrow> update_profile lock i n v d s = Some (res, s') \<Longrightarrow> registry_ok s'"
proof -
  assume ok: "registry_ok s" and up: "update_profile lock i n v d s = Some (res, s')"
  then obtain checked where checked: "edit_checks s s s s i n v = Some checked"
    "(res, s') = (case checked of Inl e \<Rightarrow> fail e s | Inr p \<Rightarrow> write_profile lock p n v d s)"
    by (auto simp: update_profile_def bind_eq_Some_conv)
  show ?thesis
  proof (cases checked)
    case (Inl e)
    with checked ok show ?thesis by (simp add: fail_def)
  next
    case (Inr p)
    have "registry_ok (snd (write_profile lock p n v d s))"
      by (rule write_profile_keeps [OF ok edit_checks_pass]) (use checked(1) Inr in simp_all)
    moreover have "s' = snd (write_profile lock p n v d s)" using checked(2) Inr by (cases "write_profile lock p n v d s") simp
    ultimately show ?thesis by simp
  qed
qed

subsection \<open>The audit decides visibility\<close>

definition visible_links :: "profile list \<Rightarrow> bool" where
  "visible_links ps \<longleftrightarrow> (\<forall>p \<in> set ps. \<forall>r. Option.bind (pf_parent p) (row_of ps) = Some r \<longrightarrow> check_child_visibility (pf_tenant p) (pf_tenant r))"

definition repos_follow :: "registry \<Rightarrow> bool" where
  "repos_follow s \<longleftrightarrow> (\<forall>r \<in> set (rg_repos s). \<forall>p. row_of (rg_profiles s) (rp_profile r) = Some p \<longrightarrow> rp_tenant r = pf_tenant p)"

declare nearest_private.simps [simp del]

lemma nearest_private_private: "nearest_private ps k i = Some a \<Longrightarrow> pf_tenant a \<noteq> None"
  by (induction ps k i rule: nearest_private.induct) (subst (asm) (2) nearest_private.simps, auto split: option.splits if_splits nat.splits)

lemma nearest_private_tenant:
  assumes "visible_links ps"
  shows "p \<in> set ps \<Longrightarrow> pf_parent p = Some q \<Longrightarrow> nearest_private ps k q = Some a \<Longrightarrow> pf_tenant p = pf_tenant a"
proof (induction k arbitrary: p q)
  case (0 p q)
  then show ?case using assms
    by (subst (asm) nearest_private.simps) (fastforce simp: visible_links_def check_child_visibility_def split: option.splits if_splits)
next
  case (Suc k p q)
  obtain r where r: "row_of ps q = Some r" using Suc.prems(3) by (subst (asm) nearest_private.simps) (auto split: option.splits)
  have vis: "check_child_visibility (pf_tenant p) (pf_tenant r)" using assms Suc.prems r by (fastforce simp: visible_links_def)
  show ?case
  proof (cases "pf_tenant r")
    case (Some t)
    then show ?thesis using Suc.prems(3) r vis by (subst (asm) nearest_private.simps) (auto simp: check_child_visibility_def)
  next
    case None
    then obtain q' where q': "pf_parent r = Some q'" "nearest_private ps k q' = Some a"
      using Suc.prems(3) r by (subst (asm) nearest_private.simps) (auto split: option.splits)
    have "pf_tenant r = pf_tenant a" by (rule Suc.IH [OF _ q']) (use row_of_SomeD [OF r] in simp)
    with None nearest_private_private [OF q'(2)] show ?thesis by simp
  qed
qed

lemma chain_violations_empty: "chain_violations ps = [] \<longleftrightarrow> visible_links ps"
proof
  assume "visible_links ps"
  then have "pf_tenant p = pf_tenant a" if "p \<in> set ps" "Option.bind (pf_parent p) (nearest_private ps 63) = Some a" for p a
    using that nearest_private_tenant by (auto simp: bind_eq_Some_conv)
  then show "chain_violations ps = []" by (auto simp: chain_violations_def split: option.splits)
next
  assume none: "chain_violations ps = []"
  show "visible_links ps" unfolding visible_links_def
  proof (intro ballI allI impI)
    fix p r assume p: "p \<in> set ps" "Option.bind (pf_parent p) (row_of ps) = Some r"
    then have "pf_tenant r \<noteq> None \<Longrightarrow> Option.bind (pf_parent p) (nearest_private ps 63) = Some r"
      by (auto simp: bind_eq_Some_conv nearest_private.simps)
    with none p(1) show "check_child_visibility (pf_tenant p) (pf_tenant r)"
      by (fastforce simp: chain_violations_def check_child_visibility_def split: if_splits)
  qed
qed

lemma repo_violations_empty: "repo_violations s = [] \<longleftrightarrow> repos_follow s"
  by (auto simp: repo_violations_def repos_follow_def split: option.splits)

lemma sort_key_empty: "sort_key f xs = [] \<longleftrightarrow> xs = []"
  by (metis mset_sort mset_zero_iff)

text \<open>C37. The audit query answers with no row exactly when no profile is more visible than its parent and every repository has the
  tenant of its profile, on any registry whatever, cyclic ones and chains deeper than the bound of 64 hops included.\<close>

theorem audit_decides_visibility: "visibility_violations s = [] \<longleftrightarrow> visible_links (rg_profiles s) \<and> repos_follow s"
  by (simp add: visibility_violations_def sort_key_empty chain_violations_empty repo_violations_empty)

lemma registry_visible: "registry_ok s \<Longrightarrow> visible_links (rg_profiles s) \<and> repos_follow s"
  by (fastforce simp: registry_ok_def profiles_ok_def repos_ok_def repo_ok_def link_ok_def visible_links_def repos_follow_def bind_eq_Some_conv
    split: option.splits)

subsection \<open>Runs\<close>

locale registry_op =
  fixes op :: "registry \<Rightarrow> registry"
  assumes keeps: "registry_ok s \<Longrightarrow> registry_ok (op s)"
begin

lemma repeated: "registry_ok s \<Longrightarrow> registry_ok ((op ^^ n) s)"
  by (induction n) (simp_all add: keeps)

lemma visible: "registry_ok s \<Longrightarrow> visible_links (rg_profiles (op s)) \<and> repos_follow (op s)"
  by (rule registry_visible) (rule keeps)

end

definition after_update :: "bool \<Rightarrow> int \<Rightarrow> string option \<Rightarrow> string option \<Rightarrow> string option \<Rightarrow> registry \<Rightarrow> registry" where
  "after_update lock i n v d s = (case update_profile lock i n v d s of None \<Rightarrow> s | Some (_, s') \<Rightarrow> s')"

interpretation added: registry_op "\<lambda>s. snd (add_profile n v d parent tenant shared s)" for n v d parent tenant shared
  by unfold_locales (rule add_profile_keeps)

interpretation reparented: registry_op "\<lambda>s. snd (set_profile_parent i parent s)" for i parent
  by unfold_locales (rule set_profile_parent_keeps)

interpretation retenanted: registry_op "\<lambda>s. snd (set_profile_tenant i t confirm s)" for i t confirm
  by unfold_locales (rule set_profile_tenant_keeps)

interpretation edited: registry_op "after_update lock i n v d" for lock i n v d
  by unfold_locales (auto simp: after_update_def split: option.splits intro: update_profile_keeps)

interpretation removed: registry_op "\<lambda>s. snd (delete_profile i s)" for i
  by unfold_locales (rule delete_profile_keeps)

interpretation repo_added: registry_op "\<lambda>s. snd (add_repo i url branch path ssh cs tenant s)" for i url branch path ssh cs tenant
  by unfold_locales (rule add_repo_keeps)

interpretation repo_edited: registry_op "\<lambda>s. snd (update_repo i url branch ssh clear path s)" for i url branch ssh clear path
  by unfold_locales (rule update_repo_keeps)

interpretation repo_removed: registry_op "\<lambda>s. snd (Profiles.delete_repo i s)" for i
  by unfold_locales (rule delete_repo_keeps)

interpretation repo_synced: registry_op "\<lambda>s. snd (set_repo_tenant i t s)" for i t
  by unfold_locales (rule set_repo_tenant_keeps)

interpretation repo_status: registry_op "\<lambda>s. snd (update_repo_status i st msg now s)" for i st msg now
  by unfold_locales (rule update_repo_status_keeps)

interpretation repo_head: registry_op "\<lambda>s. snd (update_repo_head_sha i sha now s)" for i sha now
  by unfold_locales (rule update_repo_head_sha_keeps)

interpretation repo_cloned: registry_op "\<lambda>s. snd (set_clone_status i st msg s)" for i st msg
  by unfold_locales (rule set_clone_status_keeps)

interpretation repo_reset: registry_op "\<lambda>s. snd (reset_repo_head_sha i s)" for i
  by unfold_locales (rule reset_repo_head_sha_keeps)

interpretation repo_moved: registry_op "\<lambda>s. snd (update_repo_local_path i path s)" for i path
  by unfold_locales (rule update_repo_local_path_keeps)

text \<open>One call of a method of the store.\<close>

inductive registry_step :: "registry \<Rightarrow> registry \<Rightarrow> bool" where
  add_profile: "registry_step s (snd (add_profile n v d parent tenant shared s))"
| set_profile_parent: "registry_step s (snd (set_profile_parent i parent s))"
| set_profile_tenant: "registry_step s (snd (set_profile_tenant i tenant confirm s))"
| update_profile: "registry_step s (after_update lock i n' v' d' s)"
| delete_profile: "registry_step s (snd (delete_profile i s))"
| add_repo: "registry_step s (snd (add_repo i url branch path ssh cs rt s))"
| update_repo: "registry_step s (snd (update_repo i url' branch' ssh clear path' s))"
| delete_repo: "registry_step s (snd (Profiles.delete_repo i s))"
| set_repo_tenant: "registry_step s (snd (set_repo_tenant i tenant s))"
| update_repo_status: "registry_step s (snd (update_repo_status i st msg now s))"
| update_repo_head_sha: "registry_step s (snd (update_repo_head_sha i sha now s))"
| set_clone_status: "registry_step s (snd (set_clone_status i st msg s))"
| reset_repo_head_sha: "registry_step s (snd (reset_repo_head_sha i s))"
| update_repo_local_path: "registry_step s (snd (update_repo_local_path i path s))"

lemmas op_keeps = added.keeps reparented.keeps retenanted.keeps edited.keeps removed.keeps repo_added.keeps repo_edited.keeps
  repo_removed.keeps repo_synced.keeps repo_status.keeps repo_head.keeps repo_cloned.keeps repo_reset.keeps repo_moved.keeps

lemma step_keeps: "registry_step s s' \<Longrightarrow> registry_ok s \<Longrightarrow> registry_ok s'"
  by (induction rule: registry_step.induct) (rule op_keeps, assumption)+

text \<open>C36. Whatever is called on the store, in any order and with any arguments, one call after another: from a registry that meets the invariant (unique
  numbers and names, parents that exist and share the version, no cycle, unique repositories) every serial run ends in one that meets it, and
  there no profile is more visible than its parent and every repository has the tenant of its profile. Overlapping changes are
  not covered: two changes of parents can leave a cycle (\<^verbatim>\<open>concurrent_parents_leave_cycle\<close>), and a change of version beside a new link two
  versions in one tree (\<^verbatim>\<open>concurrent_version_change\<close>).\<close>

theorem registry_runs_ok:
  assumes "registry_step\<^sup>*\<^sup>* s s'" and "registry_ok s"
  shows "registry_ok s' \<and> visible_links (rg_profiles s') \<and> repos_follow s'"
proof -
  have "registry_ok s'" using assms by (induction rule: rtranclp_induct) (auto intro: step_keeps)
  with registry_visible show ?thesis by blast
qed

subsection \<open>The unbounded queries end\<close>

lemma parent_rel_finite: "finite (parent_rel ps)"
proof -
  have "parent_rel ps \<subseteq> (\<lambda>p. (pf_id p, the (pf_parent p))) ` set ps" by (force simp: parent_rel_def)
  then show ?thesis by (rule finite_subset) simp
qed

lemma parent_edge: "p \<in> set ps \<Longrightarrow> Option.bind (pf_parent p) (row_of ps) = Some q \<Longrightarrow> q \<in> set ps \<and> (pf_id p, pf_id q) \<in> parent_rel ps"
  by (auto simp: bind_eq_Some_conv parent_rel_def dest: row_of_SomeD)

lemma ascend_ends:
  assumes "acyclic (parent_rel ps)"
  shows "p \<in> set ps \<Longrightarrow> \<exists>chain. ascend ps p = Some chain"
proof (induction "pf_id p" arbitrary: p rule: wf_induct_rule [OF finite_acyclic_wf_converse [OF parent_rel_finite assms]])
  case (1 p)
  show ?case
  proof (cases "Option.bind (pf_parent p) (row_of ps)")
    case None
    then show ?thesis by (simp add: ascend.simps)
  next
    case (Some q)
    with 1(1) [of q] parent_edge [OF 1(2) Some] obtain rest where "ascend ps q = Some rest" by auto
    with Some show ?thesis by (simp add: ascend.simps [of ps p])
  qed
qed

definition next_level :: "profile list \<Rightarrow> profile list \<Rightarrow> profile list" where
  "next_level ps work = concat (map (\<lambda>p. children_of ps (pf_id p)) work)"

lemma levels_append: "(next_level ps ^^ n) (a @ b) = (next_level ps ^^ n) a @ (next_level ps ^^ n) b"
  by (induction n arbitrary: a b) (simp_all add: next_level_def)

lemma levels_Nil: "(next_level ps ^^ n) [] = []"
  by (induction n) (simp_all add: next_level_def)

lemma levels_stay_empty: "(next_level ps ^^ n) w = [] \<Longrightarrow> n \<le> m \<Longrightarrow> (next_level ps ^^ m) w = []"
  by (metis le_add_diff_inverse2 funpow_add comp_apply levels_Nil)

lemma levels_end_list:
  assumes "\<And>c. c \<in> set work \<Longrightarrow> \<exists>n. (next_level ps ^^ n) [c] = []"
  shows "\<exists>n. (next_level ps ^^ n) work = []"
  using assms
proof (induction work)
  case Nil
  show ?case by (rule exI [of _ 0]) simp
next
  case (Cons c work)
  obtain n where n: "(next_level ps ^^ n) [c] = []" using Cons.prems by auto
  obtain m where m: "(next_level ps ^^ m) work = []" using Cons.IH Cons.prems by auto
  have "(next_level ps ^^ max n m) (c # work) = []"
    using levels_append [of "max n m" ps "[c]" work] levels_stay_empty [OF n, of "max n m"] levels_stay_empty [OF m, of "max n m"] by simp
  then show ?case by blast
qed

lemma levels_end:
  assumes "acyclic (parent_rel ps)"
  shows "\<exists>n. (next_level ps ^^ n) [p] = []"
proof (induction "pf_id p" arbitrary: p rule: wf_induct_rule [OF finite_acyclic_wf [OF parent_rel_finite assms]])
  case (1 p)
  have "\<exists>n. (next_level ps ^^ n) [c] = []" if "c \<in> set (children_of ps (pf_id p))" for c
    using that by (intro 1) (auto simp: children_of_def parent_rel_def)
  then obtain n where "(next_level ps ^^ n) (children_of ps (pf_id p)) = []" using levels_end_list by blast
  then have "(next_level ps ^^ Suc n) [p] = []" unfolding funpow_Suc_right by (simp add: next_level_def)
  then show ?case by blast
qed

lemma descend_level: "(next_level ps ^^ n) work = [] \<Longrightarrow> \<exists>below. descend ps work = Some below"
proof (induction n arbitrary: work)
  case 0
  then show ?case by (simp add: descend.simps)
next
  case (Suc n)
  then obtain below where "descend ps (next_level ps work) = Some below" by (auto simp: funpow_swap1)
  then show ?case by (subst descend.simps) (simp add: next_level_def)
qed

lemma descend_ends: "acyclic (parent_rel ps) \<Longrightarrow> \<exists>below. descend ps work = Some below"
  using levels_end_list [of work ps] levels_end descend_level by blast

text \<open>C38. On a registry that meets the invariant both queries without a bound return: the repositories of a profile and its ancestors are
  listed, and a change of a profile ends with a result or an error.\<close>

theorem registry_queries_return:
  assumes "registry_ok s"
  shows "(\<exists>rows. get_ancestor_repos n s = Some rows) \<and> (\<exists>res. update_profile lock i n' v d s = Some res)"
proof
  have ac: "acyclic (parent_rel (rg_profiles s))" using assms by (simp add: registry_ok_def profiles_ok_def)
  show "\<exists>rows. get_ancestor_repos n s = Some rows"
    using ascend_ends [OF ac] row_named_SomeD by (fastforce simp: get_ancestor_repos_def split: option.splits)
  obtain below where "descend (rg_profiles s) (children_of (rg_profiles s) i) = Some below" using descend_ends [OF ac] by blast
  then show "\<exists>res. update_profile lock i n' v d s = Some res"
    by (auto simp: update_profile_def edit_checks_def Let_def split: option.splits)
qed

subsection \<open>The bounded walk\<close>

lemma ascend_path:
  assumes "acyclic (parent_rel ps)" and "ascend ps p = Some chain" and "p \<in> set ps"
  shows "q \<in> set (tl chain) \<Longrightarrow> (pf_id p, pf_id q) \<in> (parent_rel ps)\<^sup>+" and "set chain \<subseteq> set ps" and "\<exists>rest. chain = p # rest"
proof -
  have "(\<forall>q \<in> set (tl chain). (pf_id p, pf_id q) \<in> (parent_rel ps)\<^sup>+) \<and> set chain \<subseteq> set ps \<and> (\<exists>rest. chain = p # rest)"
    using assms(2,3)
  proof (induction "pf_id p" arbitrary: p chain rule: wf_induct_rule [OF finite_acyclic_wf_converse [OF parent_rel_finite assms(1)]])
    case (1 p chain)
    show ?case
    proof (cases "Option.bind (pf_parent p) (row_of ps)")
      case None
      with 1(2) have "chain = [p]" by (auto simp: ascend.simps [of ps p])
      with 1(3) show ?thesis by simp
    next
      case (Some q)
      then obtain rest where rest: "ascend ps q = Some rest" "chain = p # rest" using 1(2) by (auto simp: ascend.simps [of ps p] bind_eq_Some_conv)
      note e = parent_edge [OF 1(3) Some]
      obtain more where more: "rest = q # more" "\<forall>x \<in> set more. (pf_id q, pf_id x) \<in> (parent_rel ps)\<^sup>+" "set rest \<subseteq> set ps"
        using 1(1) [of q rest] e rest(1) by auto
      with e rest(2) 1(3) show ?thesis by (auto intro: trancl_into_trancl2)
    qed
  qed
  then show "q \<in> set (tl chain) \<Longrightarrow> (pf_id p, pf_id q) \<in> (parent_rel ps)\<^sup>+" and "set chain \<subseteq> set ps" and "\<exists>rest. chain = p # rest" by auto
qed

lemma ascend_distinct:
  assumes "acyclic (parent_rel ps)"
  shows "ascend ps p = Some chain \<Longrightarrow> p \<in> set ps \<Longrightarrow> distinct (map pf_id chain)"
proof (induction "pf_id p" arbitrary: p chain rule: wf_induct_rule [OF finite_acyclic_wf_converse [OF parent_rel_finite assms]])
  case (1 p chain)
  show ?case
  proof (cases "Option.bind (pf_parent p) (row_of ps)")
    case None
    with 1(2) have "chain = [p]" by (auto simp: ascend.simps [of ps p])
    then show ?thesis by simp
  next
    case (Some q)
    then obtain rest where rest: "ascend ps q = Some rest" "chain = p # rest" using 1(2) by (auto simp: ascend.simps [of ps p] bind_eq_Some_conv)
    note e = parent_edge [OF 1(3) Some]
    have "distinct (map pf_id rest)" using 1(1) [of q rest] e rest(1) by auto
    moreover have "pf_id x \<noteq> pf_id p" if "x \<in> set rest" for x
      using ascend_path(1) [OF assms 1(2,3), of x] that rest(2) assms by (auto simp: acyclic_def)
    ultimately show ?thesis using rest(2) by fastforce
  qed
qed

lemma chain_rows_ascend:
  assumes ac: "acyclic (parent_rel ps)"
  shows "p \<in> set ps \<Longrightarrow> ascend ps p = Some chain \<Longrightarrow> \<forall>x \<in> set path. x = pf_id p \<or> (x, pf_id p) \<in> (parent_rel ps)\<^sup>+ \<Longrightarrow> \<not> stop \<or> k = 0 \<Longrightarrow>
    map fst (chain_rows ps k path p stop) = take (Suc k) (map pf_name chain)"
proof (induction k arbitrary: p chain path stop)
  case 0
  with ascend_path(3) [OF ac 0(2,1)] show ?case by auto
next
  case (Suc k)
  show ?case
  proof (cases "Option.bind (pf_parent p) (row_of ps)")
    case None
    with Suc.prems(2) have "chain = [p]" by (auto simp: ascend.simps [of ps p])
    with None show ?thesis by simp
  next
    case (Some q)
    then obtain rest where rest: "ascend ps q = Some rest" "chain = p # rest" using Suc.prems(2) by (auto simp: ascend.simps [of ps p] bind_eq_Some_conv)
    note e = parent_edge [OF Suc.prems(1) Some]
    have above: "(x, pf_id q) \<in> (parent_rel ps)\<^sup>+" if "x \<in> set path" for x using Suc.prems(3) that e by (auto intro: trancl_into_trancl)
    then have "pf_id q \<notin> set path" using ac by (auto simp: acyclic_def)
    moreover have "map fst (chain_rows ps k (path @ [pf_id q]) q (k = 0 \<and> pf_parent q \<noteq> None)) = take (Suc k) (map pf_name rest)"
      by (rule Suc.IH) (use e rest above in auto)
    ultimately show ?thesis using rest(2) Suc.prems(4) Some by simp
  qed
qed

lemma first_names_distinct: "distinct (seen @ ns) \<Longrightarrow> first_names seen ns = seen @ ns"
  by (induction seen ns rule: first_names.induct) auto

text \<open>C39. On a registry that meets the invariant the bounded walk of the readers names the same ancestors as the unbounded one of the
  indexer, in the same order, cut after seventeen profiles.\<close>

theorem bounded_walk_agrees:
  assumes "registry_ok s" and "row_named (rg_profiles s) n = Some p" and "ascend (rg_profiles s) p = Some chain"
  shows "get_ancestor_profile_names n s = take 17 (map pf_name chain)"
proof -
  have d: "acyclic (parent_rel (rg_profiles s))" "distinct (map pf_name (rg_profiles s))" using assms(1) by (auto simp: registry_ok_def profiles_ok_def)
  have p: "p \<in> set (rg_profiles s)" using row_named_SomeD [OF assms(2)] by simp
  have rows: "map fst (chain_rows (rg_profiles s) 16 [pf_id p] p False) = take (Suc 16) (map pf_name chain)"
    by (rule chain_rows_ascend [OF d(1) p assms(3)]) simp_all
  have "distinct chain" using ascend_distinct [OF d(1) assms(3) p] by (simp add: distinct_map)
  moreover have "set chain \<subseteq> set (rg_profiles s)" by (rule ascend_path(2) [OF d(1) assms(3) p])
  ultimately have "distinct (map pf_name chain)" using d(2) by (auto simp: distinct_map intro: inj_on_subset)
  then have "distinct ([] @ take (Suc 16) (map pf_name chain))" by (simp add: distinct_take)
  with rows assms(2) show ?thesis by (simp add: get_ancestor_profile_names_def MAX_PROFILE_DEPTH_def first_names_distinct)
qed

subsection \<open>Two parents at once\<close>

definition sample_profile :: "int \<Rightarrow> string \<Rightarrow> int option \<Rightarrow> int option \<Rightarrow> profile" where
  "sample_profile i n parent t = \<lparr>pf_id = i, pf_name = n, pf_version = ''17.0'', pf_description = None, pf_parent = parent, pf_tenant = t\<rparr>"

definition sample_registry :: registry where
  "sample_registry = \<lparr>rg_profiles = [sample_profile 1 ''a'' None None, sample_profile 2 ''b'' (Some 3) None, sample_profile 3 ''c'' None None,
     sample_profile 4 ''d'' (Some 1) None], rg_repos = [], rg_next_profile = 5, rg_next_repo = 1, rg_tenants = [7], rg_ssh_keys = [], rg_presence = []\<rparr>"

lemma parent_rel_UN: "parent_rel ps = (\<Union>p \<in> set ps. case pf_parent p of None \<Rightarrow> {} | Some q \<Rightarrow> {(pf_id p, q)})"
  by (force simp: parent_rel_def split: option.splits)

lemma sample_registry_ok: "registry_ok sample_registry"
proof -
  have "parent_rel (rg_profiles sample_registry) = {(2, 3), (4, 1)}" by (auto simp: parent_rel_UN sample_registry_def sample_profile_def)
  moreover have "acyclic {(2::int, 3::int), (4, 1)}"
    by (rule acyclicI_order [of _ "\<lambda>x. if x = 2 \<or> x = 4 then 1 else 0 :: nat"]) auto
  ultimately have "acyclic (parent_rel (rg_profiles sample_registry))" by simp
  then show ?thesis
    by (simp add: registry_ok_def profiles_ok_def repos_ok_def sample_registry_def sample_profile_def name_check_def startswith_def link_ok_def
      row_of_def check_child_visibility_def)
qed

lemma ascend_returns_short:
  assumes "ascend ps p = Some chain" and "Option.bind (pf_parent p) (row_of ps) = Some q"
  shows "\<exists>rest. ascend ps q = Some rest \<and> length rest < length chain"
  using assms by (auto simp: ascend.simps [of ps p] bind_eq_Some_conv)

text \<open>Two calls that lock different rows, \<open>a\<close> under \<open>b\<close> and \<open>c\<close> under \<open>d\<close>, may both pass the check for
  cycles before either writes; what they leave is a cycle, and the query of the indexer does not return.\<close>

theorem concurrent_parents_leave_cycle:
  "let after = snd (write_parent 3 (Some 4) (snd (write_parent 1 (Some 2) sample_registry)))
   in registry_ok sample_registry \<and> validate_parent 1 (Some 2) sample_registry = None \<and> validate_parent 3 (Some 4) sample_registry = None \<and>
      {1, 2} \<inter> {3, 4 :: int} = {} \<and> get_ancestor_repos ''a'' after = None"
proof -
  define A B C D where d: "A = sample_profile 1 ''a'' (Some 2) None" "B = sample_profile 2 ''b'' (Some 3) None"
    "C = sample_profile 3 ''c'' (Some 4) None" "D = sample_profile 4 ''d'' (Some 1) None"
  have up: "Option.bind (pf_parent A) (row_of [A, B, C, D]) = Some B" "Option.bind (pf_parent B) (row_of [A, B, C, D]) = Some C"
    "Option.bind (pf_parent C) (row_of [A, B, C, D]) = Some D" "Option.bind (pf_parent D) (row_of [A, B, C, D]) = Some A"
    by (simp_all add: d sample_profile_def row_of_def)
  have none: "ascend [A, B, C, D] A = None"
  proof (rule ccontr)
    assume "ascend [A, B, C, D] A \<noteq> None"
    then obtain c0 where c0: "ascend [A, B, C, D] A = Some c0" by blast
    obtain c1 where c1: "ascend [A, B, C, D] B = Some c1" "length c1 < length c0" using ascend_returns_short [OF c0 up(1)] by blast
    obtain c2 where c2: "ascend [A, B, C, D] C = Some c2" "length c2 < length c1" using ascend_returns_short [OF c1(1) up(2)] by blast
    obtain c3 where c3: "ascend [A, B, C, D] D = Some c3" "length c3 < length c2" using ascend_returns_short [OF c2(1) up(3)] by blast
    obtain c4 where c4: "ascend [A, B, C, D] A = Some c4" "length c4 < length c3" using ascend_returns_short [OF c3(1) up(4)] by blast
    with c0 c1(2) c2(2) c3(2) show False by simp
  qed
  have after: "rg_profiles (snd (write_parent 3 (Some 4) (snd (write_parent 1 (Some 2) sample_registry)))) = [A, B, C, D]"
    by (simp add: write_parent_def update_row_def sample_registry_def sample_profile_def d)
  have "row_named [A, B, C, D] ''a'' = Some A" by (simp add: row_named_def d sample_profile_def)
  with none after have "get_ancestor_repos ''a'' (snd (write_parent 3 (Some 4) (snd (write_parent 1 (Some 2) sample_registry)))) = None"
    by (simp only: get_ancestor_repos_def) simp
  moreover have "validate_parent 1 (Some 2) sample_registry = None" "validate_parent 3 (Some 4) sample_registry = None"
    by (simp_all add: validate_parent_def sample_registry_def sample_profile_def row_of_def check_child_visibility_def ancestors.simps)
  ultimately show ?thesis using sample_registry_ok by (simp add: Let_def)
qed

text \<open>A change of the version checks parent and descendants before the transaction that writes it. A profile \<open>a\<close> that is linked below \<open>b\<close> in
  between, when both still have one version, ends under a parent of another version.\<close>

definition pair_registry :: registry where
  "pair_registry = sample_registry\<lparr>rg_profiles := [sample_profile 1 ''a'' None None, sample_profile 2 ''b'' None None]\<rparr>"

theorem concurrent_version_change:
  "let b = sample_profile 2 ''b'' None None; linked = snd (set_profile_parent 1 (Some 2) pair_registry)
   in registry_ok pair_registry \<and> edit_checks pair_registry pair_registry pair_registry pair_registry 2 None (Some ''18.0'') = Some (Inr b) \<and>
      fst (set_profile_parent 1 (Some 2) pair_registry) = Inr True \<and>
      (\<exists>after. write_profile True b None (Some ''18.0'') None linked = (Inr [''odoo_version''], after) \<and> \<not> registry_ok after)"
proof -
  let ?s = pair_registry and ?b = "sample_profile 2 ''b'' None None"
  define linked where "linked = ?s\<lparr>rg_profiles := [sample_profile 1 ''a'' (Some 2) None, ?b]\<rparr>"
  define after where "after = ?s\<lparr>rg_profiles := [sample_profile 1 ''a'' (Some 2) None, ?b\<lparr>pf_version := ''18.0''\<rparr>]\<rparr>"
  have "parent_rel (rg_profiles ?s) = {}" by (auto simp: parent_rel_UN pair_registry_def sample_profile_def)
  then have "registry_ok ?s"
    by (simp add: registry_ok_def profiles_ok_def repos_ok_def pair_registry_def sample_registry_def sample_profile_def name_check_def startswith_def link_ok_def
      acyclic_def)
  moreover have "edit_checks ?s ?s ?s ?s 2 None (Some ''18.0'') = Some (Inr ?b)"
    by (simp add: edit_checks_def pair_registry_def sample_registry_def sample_profile_def row_of_def has_indexed_repos_def new_value_def
      children_of_def descend.simps)
  moreover have "set_profile_parent 1 (Some 2) ?s = (Inr True, linked)"
    by (simp add: set_profile_parent_def validate_parent_def write_parent_def update_row_def linked_def pair_registry_def sample_registry_def sample_profile_def
      row_of_def check_child_visibility_def ancestors.simps)
  moreover have "write_profile True ?b None (Some ''18.0'') None linked = (Inr [''odoo_version''], after)"
    by (simp add: write_profile_def edit_row_def changed_fields_def new_value_def update_row_def linked_def after_def pair_registry_def sample_registry_def
      sample_profile_def row_of_def)
  moreover have "\<not> registry_ok after"
    by (simp add: registry_ok_def profiles_ok_def after_def link_ok_def pair_registry_def sample_registry_def sample_profile_def row_of_def)
  ultimately show ?thesis by (simp add: Let_def)
qed

subsection \<open>Witnesses\<close>

theorem registry_runs_ok_witness:
  "registry_ok (snd (set_profile_tenant 3 (Some 7) False sample_registry)) \<and>
   visible_links (rg_profiles (snd (set_profile_tenant 3 (Some 7) False sample_registry)))"
  using registry_runs_ok [OF r_into_rtranclp [where r = registry_step, OF set_profile_tenant [of sample_registry 3 "Some 7" False]] sample_registry_ok] by blast

theorem registry_queries_return_witness:
  "(\<exists>rows. get_ancestor_repos ''b'' sample_registry = Some rows) \<and> (\<exists>res. update_profile True 3 None (Some ''18.0'') None sample_registry = Some res)"
  by (rule registry_queries_return [OF sample_registry_ok])

theorem bounded_walk_agrees_witness: "get_ancestor_profile_names ''b'' sample_registry = [''b'', ''c'']"
proof -
  let ?ps = "rg_profiles sample_registry"
  have "ascend ?ps (sample_profile 2 ''b'' (Some 3) None) = Some [sample_profile 2 ''b'' (Some 3) None, sample_profile 3 ''c'' None None]"
    by (simp add: ascend.simps sample_registry_def row_of_def sample_profile_def)
  then show ?thesis
    using bounded_walk_agrees [OF sample_registry_ok, of "''b''" "sample_profile 2 ''b'' (Some 3) None"]
    by (simp add: row_named_def sample_registry_def sample_profile_def)
qed

end
