(* ===== verification/Scope_Laws.thy ===== *)
theory Scope_Laws
  imports Scope Profile_Laws
begin

section \<open>Tenant isolation\<close>

text \<open>
  What a tenant may read. A history \<open>H\<close> gives the registry at every instant; a run of cached reads meets it at the instants of
  its readings, some of which may fail. The scope that a query gets is one the registry held less than a minute before the clock was read, and less than
  five seconds before the poll when the polls succeed and no change is taken back; a profile filter or a pin only narrows it. The
  locale \<open>scope_op\<close> is the contract of the cached reads. A key whose answers are always of one tenant is never read
  as unrestricted; a key that is rejected while a call is running is.
\<close>

subsection \<open>The fingerprint tells scopes apart\<close>

lemma str_int_chars: "c \<in> set (str_int i) \<Longrightarrow> is_digit c \<or> c = CHR ''-''"
  using str_nat_digits by (auto simp: str_int_def split: if_splits)

lemma separators: "\<not> is_digit (CHR '':'')" "\<not> is_digit (CHR '','')"
  by (simp_all add: is_digit_def char_code_def)

lemma str_int_no_sep [simp]: "CHR '':'' \<notin> set (str_int i)" "CHR '','' \<notin> set (str_int i)"
  using str_int_chars separators by fastforce+

lemma str_nat_inj: "str_nat m = str_nat n \<longleftrightarrow> m = n"
  using digits_value_str_nat by (metis of_nat_eq_iff)

lemma str_nat_no_minus: "CHR ''-'' # s \<noteq> str_nat n"
  using str_nat_digits [of n] sign_not_digit by (metis list.set_intros(1))

lemma str_int_inj [simp]: "str_int i = str_int j \<longleftrightarrow> i = j"
  using str_nat_no_minus str_nat_no_minus [symmetric] by (auto simp: str_int_def str_nat_inj)

definition opt_text :: "int option \<Rightarrow> string" where
  "opt_text t = (case t of None \<Rightarrow> ''-'' | Some i \<Rightarrow> str_int i)"

lemma opt_text_no_sep [simp]: "CHR '':'' \<notin> set (opt_text t)" "CHR '','' \<notin> set (opt_text t)"
  by (auto simp: opt_text_def split: option.splits)

lemma str_int_not_minus: "str_int i \<noteq> ''-''"
  by (auto simp: str_int_def dest: str_nat_no_minus [of "[]", symmetric, THEN notE])

lemma opt_text_inj [simp]: "opt_text t = opt_text t' \<longleftrightarrow> t = t'"
  using str_int_not_minus str_int_not_minus [symmetric] by (auto simp: opt_text_def split: option.splits)

lemma split_at: "c \<notin> set a \<Longrightarrow> c \<notin> set b \<Longrightarrow> a @ c # x = b @ c # y \<longleftrightarrow> a = b \<and> x = y"
proof (induction a arbitrary: b)
  case Nil
  then show ?case by (cases b) auto
next
  case (Cons z a)
  then show ?case by (cases b) auto
qed

lemma split_at_end: "c \<notin> set a \<Longrightarrow> c \<notin> set b \<Longrightarrow> x @ c # a = y @ c # b \<longleftrightarrow> x = y \<and> a = b"
  using split_at [of c "rev a" "rev b" "rev x" "rev y"] by (metis (no_types, lifting) append.assoc append_Cons append_Nil rev.simps(2) rev_append rev_rev_ident set_rev)

lemma split_join: "ns \<noteq> [] \<Longrightarrow> \<forall>n \<in> set ns. c \<notin> set n \<Longrightarrow> split_on c (join_with c ns) = ns"
  by (induction c ns rule: join_with.induct) (auto simp: split_on_no_sep split_on_append)

definition digest_entry :: "profile \<Rightarrow> string" where
  "digest_entry p = str_int (pf_id p) @ CHR '':'' # (pf_name p @ CHR '':'' # opt_text (pf_tenant p)) @ CHR '':'' # opt_text (pf_parent p)"

lemma scope_digest_entries: "scope_digest s = join_with (CHR '','') (map digest_entry (sort_key pf_id (rg_profiles s)))"
proof -
  have "digest_entry = (\<lambda>p. str_int (pf_id p) @ '':'' @ pf_name p @ '':'' @
      (case pf_tenant p of None \<Rightarrow> ''-'' | Some t \<Rightarrow> str_int t) @ '':'' @ (case pf_parent p of None \<Rightarrow> ''-'' | Some q \<Rightarrow> str_int q))"
    by (simp add: fun_eq_iff digest_entry_def opt_text_def)
  then show ?thesis by (simp only: scope_digest_def)
qed

lemma digest_entry_inj: "digest_entry p = digest_entry q \<Longrightarrow> pf_name p = pf_name q \<and> pf_tenant p = pf_tenant q"
proof -
  assume "digest_entry p = digest_entry q"
  from this [unfolded digest_entry_def]
  have "(pf_name p @ CHR '':'' # opt_text (pf_tenant p)) @ CHR '':'' # opt_text (pf_parent p) =
      (pf_name q @ CHR '':'' # opt_text (pf_tenant q)) @ CHR '':'' # opt_text (pf_parent q)"
    by (rule split_at [OF str_int_no_sep(1) str_int_no_sep(1), THEN iffD1, THEN conjunct2])
  then have "pf_name p @ CHR '':'' # opt_text (pf_tenant p) = pf_name q @ CHR '':'' # opt_text (pf_tenant q)"
    by (rule split_at_end [OF opt_text_no_sep(1) opt_text_no_sep(1), THEN iffD1, THEN conjunct1])
  then have "pf_name p = pf_name q \<and> opt_text (pf_tenant p) = opt_text (pf_tenant q)"
    by (rule split_at_end [OF opt_text_no_sep(1) opt_text_no_sep(1), THEN iffD1])
  then show ?thesis by simp
qed

lemma map_coarser: "map f xs = map f ys \<Longrightarrow> (\<And>x y. f x = f y \<Longrightarrow> g x = g y) \<Longrightarrow> map g xs = map g ys"
proof (induction xs arbitrary: ys)
  case (Cons x xs)
  from Cons.prems(1) obtain y zs where y: "ys = y # zs" "f x = f y" "map f xs = map f zs" by (auto simp: Cons_eq_map_conv)
  show ?case using Cons.IH [OF y(3) Cons.prems(2)] Cons.prems(2) [OF y(2)] by (simp only: y(1) list.map)
qed simp

definition names_plain :: "registry \<Rightarrow> bool" where
  "names_plain s \<longleftrightarrow> (\<forall>p \<in> set (rg_profiles s). CHR '','' \<notin> set (pf_name p))"

lemma digest_entries_eq:
  assumes "names_plain s" and "names_plain s'" and "scope_digest s = scope_digest s'"
  shows "map digest_entry (sort_key pf_id (rg_profiles s)) = map digest_entry (sort_key pf_id (rg_profiles s'))"
proof -
  let ?e = "\<lambda>s. map digest_entry (sort_key pf_id (rg_profiles s))"
  have plain: "\<forall>n \<in> set (?e s). CHR '','' \<notin> set n" if "names_plain s" for s using that by (auto simp: digest_entry_def names_plain_def)
  have full: "?e s \<noteq> [] \<Longrightarrow> [] \<notin> set (?e s)" for s by (auto simp: digest_entry_def)
  have split: "split_on (CHR '','') (scope_digest s) = (if ?e s = [] then [[]] else ?e s)" if "names_plain s" for s
    using split_join [OF _ plain [OF that]] by (simp add: scope_digest_entries)
  have "(if ?e s = [] then [[]] else ?e s) = (if ?e s' = [] then [[]] else ?e s')" using split [OF assms(1)] split [OF assms(2)] assms(3) by simp
  with full show ?thesis by (metis list.set_intros(1))
qed

lemma digest_scope:
  assumes "names_plain s" and "names_plain s'" and "scope_digest s = scope_digest s'"
  shows "Profiles.resolve_tenant_scope t s = Profiles.resolve_tenant_scope t s'"
proof -
  let ?f = "\<lambda>p. (pf_name p, pf_tenant p)"
  have "map ?f (sort_key pf_id (rg_profiles s)) = map ?f (sort_key pf_id (rg_profiles s'))"
    by (rule map_coarser [OF digest_entries_eq [OF assms]]) (drule digest_entry_inj, simp)
  then have "mset (map ?f (sort_key pf_id (rg_profiles s))) = mset (map ?f (sort_key pf_id (rg_profiles s')))" by (simp only:)
  then have all: "image_mset ?f (mset (rg_profiles s)) = image_mset ?f (mset (rg_profiles s'))" by simp
  have part: "mset (map pf_name (filter (\<lambda>p. pf_tenant p = x) (rg_profiles u))) =
      image_mset fst (filter_mset (\<lambda>e. snd e = x) (image_mset ?f (mset (rg_profiles u))))" for x u
    by (simp add: filter_mset_image_mset image_mset.compositionality comp_def)
  have "sort (map pf_name (filter (\<lambda>p. pf_tenant p = x) (rg_profiles s))) = sort (map pf_name (filter (\<lambda>p. pf_tenant p = x) (rg_profiles s')))" for x
    by (rule properties_for_sort) (simp_all add: part all del: mset_map mset_filter)
  then show ?thesis by (simp add: Profiles.resolve_tenant_scope_def shared_profile_names_def)
qed

subsection \<open>Runs of cached reads\<close>

definition reading_ok :: "(rat \<Rightarrow> registry) \<Rightarrow> bool \<Rightarrow> reading \<Rightarrow> bool" where
  "reading_ok H up en \<longleftrightarrow> en_poll en \<le> en_fp_at en \<and> en_fp_at en \<le> en_now en \<and> en_now en \<le> en_db_at en \<and> (en_fp en = None \<longrightarrow> \<not> up) \<and>
     (\<forall>r. en_fp en = Some r \<longrightarrow> r = H (en_fp_at en)) \<and> (\<forall>r. en_db en = Some r \<longrightarrow> r = H (en_db_at en))"

definition no_cache :: scope_cache where
  "no_cache = \<lparr>sc_tenants = Map.empty, sc_shared = None, sc_chains = [], sc_epoch = None, sc_checked = None, sc_degraded = []\<rparr>"

text \<open>Every cached scope of a tenant is one the registry held at some instant, and expires no later than a minute after it.\<close>

definition dated :: "(rat \<Rightarrow> registry) \<Rightarrow> rat \<Rightarrow> scope_cache \<Rightarrow> bool" where
  "dated H now st \<longleftrightarrow> (\<forall>t sc expiry. sc_tenants st t = Some (sc, expiry) \<longrightarrow>
     (\<exists>u \<le> now. expiry \<le> u + CACHE_TTL_SEC \<and> sc = Profiles.resolve_tenant_scope t (H u)))"

text \<open>And, when every poll succeeds, one it held since the last poll.\<close>

definition since_poll :: "(string \<Rightarrow> string) \<Rightarrow> (rat \<Rightarrow> registry) \<Rightarrow> rat \<Rightarrow> scope_cache \<Rightarrow> bool" where
  "since_poll md5 H now st \<longleftrightarrow>
     (case sc_checked st of
        None \<Rightarrow> sc_tenants st = Map.empty \<and> sc_epoch st = None
      | Some c \<Rightarrow> \<exists>f. c \<le> f \<and> f \<le> now \<and> sc_epoch st = Some (md5 (scope_digest (H f))) \<and>
          (\<forall>t sc expiry. sc_tenants st t = Some (sc, expiry) \<longrightarrow> (\<exists>u. f \<le> u \<and> u \<le> now \<and> sc = Profiles.resolve_tenant_scope t (H u))))"

text \<open>What the history must be for a poll to see every change: names without a comma (the table checks it), digests that differ for
  different texts, and no change taken back.\<close>

definition changes_stay :: "(string \<Rightarrow> string) \<Rightarrow> (rat \<Rightarrow> registry) \<Rightarrow> bool" where
  "changes_stay md5 H \<longleftrightarrow> (\<forall>u. names_plain (H u)) \<and>
     (\<forall>u x w. u \<le> x \<longrightarrow> x \<le> w \<longrightarrow> md5 (scope_digest (H u)) = md5 (scope_digest (H w)) \<longrightarrow> scope_digest (H x) = scope_digest (H w))"

lemma dated_later: "dated H now st \<Longrightarrow> now \<le> now' \<Longrightarrow> dated H now' st"
  unfolding dated_def using order_trans by blast

lemma invalidate_tenants: "sc_tenants (invalidate_allowed_profiles t st) i = (if t = None \<or> t = Some i then None else sc_tenants st i)"
  by (auto simp: invalidate_allowed_profiles_def split: option.splits)

lemma scope_epoch_tenants: "sc_tenants (snd (scope_epoch md5 en st)) i = Some e \<Longrightarrow> sc_tenants st i = Some e"
  by (auto simp: scope_epoch_def apply_fingerprint_def invalidate_tenants Let_def split: if_splits option.splits)

lemma scope_epoch_dated: "dated H now st \<Longrightarrow> dated H now (snd (scope_epoch md5 en st))"
  unfolding dated_def using scope_epoch_tenants by blast

lemma since_pollI:
  assumes "sc_checked st = Some c" and "c \<le> f" and "f \<le> now" and "sc_epoch st = Some (md5 (scope_digest (H f)))"
    and "\<And>t sc expiry. sc_tenants st t = Some (sc, expiry) \<Longrightarrow> \<exists>u. f \<le> u \<and> u \<le> now \<and> sc = Profiles.resolve_tenant_scope t (H u)"
  shows "since_poll md5 H now st"
  unfolding since_poll_def assms(1) option.case using assms(2-5) by blast

lemma since_poll_later:
  assumes "since_poll md5 H now st" and le: "now \<le> now'"
  shows "since_poll md5 H now' st"
proof (cases "sc_checked st")
  case None
  with assms(1) show ?thesis by (simp add: since_poll_def)
next
  case (Some c)
  then obtain f where f: "c \<le> f" "f \<le> now" "sc_epoch st = Some (md5 (scope_digest (H f)))"
      "\<And>t sc expiry. sc_tenants st t = Some (sc, expiry) \<Longrightarrow> \<exists>u. f \<le> u \<and> u \<le> now \<and> sc = Profiles.resolve_tenant_scope t (H u)"
    using assms(1) unfolding since_poll_def by auto
  have "\<exists>u. f \<le> u \<and> u \<le> now' \<and> sc = Profiles.resolve_tenant_scope t (H u)" if "sc_tenants st t = Some (sc, expiry)" for t sc expiry
    using f(4) [OF that] le order_trans by blast
  with Some f(1-3) le show ?thesis by (intro since_pollI [of st c f]) auto
qed

lemma scope_epoch_since_poll:
  assumes inv: "since_poll md5 H now st" and en: "reading_ok H True en" and later: "now \<le> en_poll en" and stay: "changes_stay md5 H"
  shows "since_poll md5 H (en_fp_at en) (snd (scope_epoch md5 en st)) \<and>
    (\<exists>c. sc_checked (snd (scope_epoch md5 en st)) = Some c \<and> en_poll en - 5 < c)"
proof (cases "poll_due (en_poll en) st")
  case False
  have "now \<le> en_fp_at en" using later en by (simp add: reading_ok_def)
  with inv have "since_poll md5 H (en_fp_at en) st" by (rule since_poll_later)
  with False show ?thesis by (auto simp: scope_epoch_def poll_due_def SCOPE_EPOCH_CHECK_SEC_def split: option.splits)
next
  case True
  let ?f = "md5 (scope_digest (H (en_fp_at en)))"
  have at: "en_poll en \<le> en_fp_at en" using en by (simp add: reading_ok_def)
  have fp: "en_fp en = Some (H (en_fp_at en))" using en by (cases "en_fp en") (auto simp: reading_ok_def)
  have st': "snd (scope_epoch md5 en st) = apply_fingerprint (sc_epoch st) ?f (st\<lparr>sc_checked := Some (en_poll en)\<rparr>)"
    using True fp by (simp add: scope_epoch_def Let_def)
  have keep: "sc = Profiles.resolve_tenant_scope t (H (en_fp_at en))"
    if e: "sc_tenants st t = Some (sc, expiry)" and same: "sc_epoch st = None \<or> sc_epoch st = Some ?f" for t sc expiry
  proof -
    obtain c where c: "sc_checked st = Some c" using inv e unfolding since_poll_def by (cases "sc_checked st") auto
    then obtain f where ep: "sc_epoch st = Some (md5 (scope_digest (H f)))" and
        all: "\<forall>t sc expiry. sc_tenants st t = Some (sc, expiry) \<longrightarrow> (\<exists>u. f \<le> u \<and> u \<le> now \<and> sc = Profiles.resolve_tenant_scope t (H u))"
      using inv unfolding since_poll_def by auto
    obtain u where u: "f \<le> u" "u \<le> now" "sc = Profiles.resolve_tenant_scope t (H u)" using all e by blast
    have "md5 (scope_digest (H f)) = ?f" using ep same by simp
    moreover have "u \<le> en_fp_at en" using u(2) later at by simp
    ultimately have "scope_digest (H u) = scope_digest (H (en_fp_at en))" using stay u(1) unfolding changes_stay_def by blast
    then show ?thesis using stay u(3) digest_scope unfolding changes_stay_def by metis
  qed
  have "since_poll md5 H (en_fp_at en) (snd (scope_epoch md5 en st))" unfolding st'
    by (rule since_pollI [of _ "en_poll en" "en_fp_at en"])
      (use at keep in \<open>auto simp: apply_fingerprint_def invalidate_tenants Let_def invalidate_allowed_profiles_def split: if_splits\<close>)
  moreover have "sc_checked (snd (scope_epoch md5 en st)) = Some (en_poll en)"
    by (simp add: st' apply_fingerprint_def Let_def invalidate_allowed_profiles_def)
  ultimately show ?thesis by simp
qed

text \<open>The contract of a cached read: it keeps what the cached scopes are.\<close>

locale scope_op =
  fixes md5 :: "string \<Rightarrow> string" and op :: "reading \<Rightarrow> scope_cache \<Rightarrow> scope_cache"
  assumes op_dated: "dated H now st \<Longrightarrow> reading_ok H up en \<Longrightarrow> now \<le> en_poll en \<Longrightarrow> dated H (en_db_at en) (op en st)"
    and op_since: "since_poll md5 H now st \<Longrightarrow> reading_ok H True en \<Longrightarrow> now \<le> en_poll en \<Longrightarrow> changes_stay md5 H \<Longrightarrow>
      since_poll md5 H (en_db_at en) (op en st)"

lemma same_tenants_scope_op:
  assumes "\<And>en st. sc_tenants (op en st) = sc_tenants (snd (scope_epoch md5 en st)) \<and> sc_epoch (op en st) = sc_epoch (snd (scope_epoch md5 en st)) \<and>
    sc_checked (op en st) = sc_checked (snd (scope_epoch md5 en st))"
  shows "scope_op md5 op"
proof
  fix H now st up en assume "dated H now st" "reading_ok H up en" "now \<le> en_poll en"
  then have "dated H (en_db_at en) (snd (scope_epoch md5 en st))" using dated_later [OF scope_epoch_dated] by (auto simp: reading_ok_def)
  then show "dated H (en_db_at en) (op en st)" by (simp add: dated_def assms)
next
  fix H now st en assume "since_poll md5 H now st" "reading_ok H True en" "now \<le> en_poll en" "changes_stay md5 H"
  then have "since_poll md5 H (en_fp_at en) (snd (scope_epoch md5 en st))" "en_fp_at en \<le> en_db_at en"
    using scope_epoch_since_poll by (blast, auto simp: reading_ok_def)
  then have "since_poll md5 H (en_db_at en) (snd (scope_epoch md5 en st))" by (rule since_poll_later)
  then show "since_poll md5 H (en_db_at en) (op en st)" unfolding since_poll_def using assms [of en st] by (simp cong: option.case_cong)
qed

interpretation chain_read: scope_op md5 "\<lambda>en st. snd (resolve_profile_chain md5 en n st)" for md5 n
  by (rule same_tenants_scope_op) (simp add: resolve_profile_chain_def mark_degraded_def Let_def split: option.splits list.splits)

interpretation shared_read: scope_op md5 "\<lambda>en st. snd (admin_narrowing_shared md5 en st)" for md5
  by (rule same_tenants_scope_op)
    (simp add: admin_narrowing_shared_def resolve_shared_profiles_def mark_degraded_def Let_def split: option.splits prod.splits)

lemma tenant_scope_cases:
  assumes "tenant_scope md5 en t st = (res, st')"
  obtains (hit) sc expiry where "res = Some sc" "st' = snd (scope_epoch md5 en st)" "sc_tenants st' t = Some (sc, expiry)" "en_now en < expiry"
  | (down) "res = None" "st' = snd (scope_epoch md5 en st)"
  | (read) reg where "en_db en = Some reg" "res = Some (Profiles.resolve_tenant_scope t reg)"
      "st' = (snd (scope_epoch md5 en st))\<lparr>sc_tenants := (sc_tenants (snd (scope_epoch md5 en st)))(t \<mapsto> (Profiles.resolve_tenant_scope t reg, en_now en + CACHE_TTL_SEC))\<rparr>"
  using assms by (auto simp: tenant_scope_def Let_def fresh_def split: option.splits prod.splits if_splits)

interpretation tenant_read: scope_op md5 "\<lambda>en st. snd (tenant_scope md5 en t st)" for md5 t
proof
  fix H now st up en assume a: "dated H now st" "reading_ok H up en" "now \<le> en_poll en"
  obtain res st' where r: "tenant_scope md5 en t st = (res, st')" by fastforce
  have base: "dated H (en_db_at en) (snd (scope_epoch md5 en st))" using dated_later [OF scope_epoch_dated [OF a(1)]] a(2,3) by (auto simp: reading_ok_def)
  from r show "dated H (en_db_at en) (snd (tenant_scope md5 en t st))"
  proof (cases rule: tenant_scope_cases)
    case (read reg)
    then have "reg = H (en_db_at en)" using a(2) by (simp add: reading_ok_def)
    moreover have "en_now en \<le> en_db_at en" using a(2) by (simp add: reading_ok_def)
    ultimately show ?thesis using read base r by (auto simp: dated_def intro!: exI [of _ "en_db_at en"])
  qed (use base r in simp_all)
next
  fix H now st en assume a: "since_poll md5 H now st" "reading_ok H True en" "now \<le> en_poll en" "changes_stay md5 H"
  obtain res st' where r: "tenant_scope md5 en t st = (res, st')" by fastforce
  note ep = scope_epoch_since_poll [OF a]
  have base: "since_poll md5 H (en_db_at en) (snd (scope_epoch md5 en st))" using ep since_poll_later a(2) by (auto simp: reading_ok_def)
  from r show "since_poll md5 H (en_db_at en) (snd (tenant_scope md5 en t st))"
  proof (cases rule: tenant_scope_cases)
    case (read reg)
    then have "reg = H (en_db_at en)" using a(2) by (simp add: reading_ok_def)
    moreover from ep obtain c where c: "sc_checked (snd (scope_epoch md5 en st)) = Some c" by blast
    moreover obtain f where "c \<le> f" "f \<le> en_db_at en" "sc_epoch (snd (scope_epoch md5 en st)) = Some (md5 (scope_digest (H f)))"
        "\<forall>t sc expiry. sc_tenants (snd (scope_epoch md5 en st)) t = Some (sc, expiry) \<longrightarrow>
          (\<exists>u. f \<le> u \<and> u \<le> en_db_at en \<and> sc = Profiles.resolve_tenant_scope t (H u))"
      using base c by (auto simp: since_poll_def)
    ultimately show ?thesis using read r by (intro since_pollI [of _ c f]) (auto split: if_splits)
  qed (use base r in simp_all)
qed

inductive cache_run :: "(string \<Rightarrow> string) \<Rightarrow> (rat \<Rightarrow> registry) \<Rightarrow> bool \<Rightarrow> rat \<Rightarrow> scope_cache \<Rightarrow> bool" for md5 H up where
  started: "cache_run md5 H up now no_cache"
| tenant: "cache_run md5 H up now st \<Longrightarrow> reading_ok H up en \<Longrightarrow> now \<le> en_poll en \<Longrightarrow> cache_run md5 H up (en_db_at en) (snd (tenant_scope md5 en t st))"
| chain: "cache_run md5 H up now st \<Longrightarrow> reading_ok H up en \<Longrightarrow> now \<le> en_poll en \<Longrightarrow> cache_run md5 H up (en_db_at en) (snd (resolve_profile_chain md5 en n st))"
| shared: "cache_run md5 H up now st \<Longrightarrow> reading_ok H up en \<Longrightarrow> now \<le> en_poll en \<Longrightarrow> cache_run md5 H up (en_db_at en) (snd (admin_narrowing_shared md5 en st))"
| invalidated: "cache_run md5 H up now st \<Longrightarrow> now \<le> now' \<Longrightarrow> cache_run md5 H up now' (invalidate_allowed_profiles t st)"

lemma run_dated: "cache_run md5 H up now st \<Longrightarrow> dated H now st"
proof (induction rule: cache_run.induct)
  case (started now)
  show ?case by (simp add: dated_def no_cache_def)
next
  case (invalidated now st now' t)
  then have "dated H now' st" by (blast intro: dated_later)
  then show ?case by (simp add: dated_def invalidate_tenants)
qed (auto intro: tenant_read.op_dated chain_read.op_dated shared_read.op_dated)

lemma run_since_poll: "cache_run md5 H up now st \<Longrightarrow> up \<Longrightarrow> changes_stay md5 H \<Longrightarrow> since_poll md5 H now st"
proof (induction rule: cache_run.induct)
  case (started now)
  show ?case by (simp add: since_poll_def no_cache_def)
next
  case (invalidated now st now' t)
  then have "since_poll md5 H now' st" by (blast intro: since_poll_later)
  then show ?case
    by (cases "sc_checked st") (auto simp: since_poll_def invalidate_tenants invalidate_allowed_profiles_def fun_eq_iff split: option.splits)
qed (auto intro: tenant_read.op_since chain_read.op_since shared_read.op_since)

lemma tenant_scope_recent:
  assumes "cache_run md5 H up now st" and "reading_ok H up en" and "now \<le> en_poll en" and "tenant_scope md5 en t st = (Some sc, st')"
  shows "\<exists>u. en_now en - 60 < u \<and> u \<le> en_db_at en \<and> sc = Profiles.resolve_tenant_scope t (H u)"
  using assms(4)
proof (cases rule: tenant_scope_cases)
  case (hit sc' expiry)
  have "dated H now (snd (scope_epoch md5 en st))" by (rule scope_epoch_dated [OF run_dated [OF assms(1)]])
  with hit obtain u where "u \<le> now" "expiry \<le> u + CACHE_TTL_SEC" "sc = Profiles.resolve_tenant_scope t (H u)" unfolding dated_def by blast
  with hit(4) assms(2,3) show ?thesis by (intro exI [of _ u]) (auto simp: CACHE_TTL_SEC_def reading_ok_def)
next
  case (read reg)
  then have "reg = H (en_db_at en)" "en_now en \<le> en_db_at en" using assms(2) by (simp_all add: reading_ok_def)
  with read show ?thesis by (intro exI [of _ "en_db_at en"]) simp
qed simp

lemma tenant_scope_current:
  assumes "cache_run md5 H True now st" and "changes_stay md5 H" and "reading_ok H True en" and "now \<le> en_poll en"
    and "tenant_scope md5 en t st = (Some sc, st')"
  shows "\<exists>u. en_poll en - 5 < u \<and> u \<le> en_db_at en \<and> sc = Profiles.resolve_tenant_scope t (H u)"
proof -
  have le: "en_poll en \<le> en_fp_at en" "en_fp_at en \<le> en_db_at en" using assms(3) by (auto simp: reading_ok_def)
  note ep = scope_epoch_since_poll [OF run_since_poll [OF assms(1) TrueI assms(2)] assms(3,4,2)]
  from assms(5) show ?thesis
  proof (cases rule: tenant_scope_cases)
    case (hit sc' expiry)
    from ep obtain c where c: "sc_checked (snd (scope_epoch md5 en st)) = Some c" "en_poll en - 5 < c" by blast
    with ep obtain f where "c \<le> f" and all: "\<forall>t sc expiry. sc_tenants (snd (scope_epoch md5 en st)) t = Some (sc, expiry) \<longrightarrow>
        (\<exists>u. f \<le> u \<and> u \<le> en_fp_at en \<and> sc = Profiles.resolve_tenant_scope t (H u))" by (auto simp: since_poll_def)
    obtain u where "f \<le> u" "u \<le> en_fp_at en" "sc = Profiles.resolve_tenant_scope t (H u)" using all hit by blast
    with c(2) le \<open>c \<le> f\<close> show ?thesis by (intro exI [of _ u]) auto
  next
    case (read reg)
    then have "reg = H (en_db_at en)" using assms(3) by (simp add: reading_ok_def)
    with read le show ?thesis by (intro exI [of _ "en_db_at en"]) simp
  qed simp
qed

subsection \<open>Narrowing\<close>

lemma narrow_scope_within:
  assumes "narrow_scope md5 en1 en2 n (Some own) shared st = (sc, st')" and "scope_pred sc node"
  shows "scope_pred (Some own, shared) node"
  using assms by (auto simp: narrow_scope_def scope_pred_def list_all_iff split: if_splits prod.splits)

lemma scope_for_within:
  assumes "scope_for md5 rd (Some t) p st = (Some sc, st')" and "scope_pred sc node"
  obtains own shared st1 where "tenant_scope md5 (rd_boundary rd) t st = (Some (own, shared), st1)" "scope_pred (Some own, shared) node"
  using assms narrow_scope_within
  by (fastforce simp: scope_for_def session_tenant_scope_def split: option.splits prod.splits)

definition readable_by :: "int \<Rightarrow> registry \<Rightarrow> string \<Rightarrow> bool" where
  "readable_by t reg n \<longleftrightarrow> (\<exists>q \<in> set (rg_profiles reg). pf_name q = n \<and> (pf_tenant q = Some t \<or> pf_tenant q = None))"

lemma scope_readable: "(own, shared) = Profiles.resolve_tenant_scope t reg \<Longrightarrow> n \<in> set own \<or> n \<in> set shared \<longleftrightarrow> readable_by t reg n"
  by (auto simp: Profiles.resolve_tenant_scope_def shared_profile_names_def readable_by_def)

text \<open>C6. A query of a tenant sees a node only if it carries a profile and every profile it carries belonged to the tenant or was
  shared, in the registry as it was at one instant, at most a minute before the clock of the call was read; whatever profile is asked for or pinned, whatever the
  caches hold after any run of calls, and whichever reads of the registry fail.\<close>

theorem scoped_read_isolated:
  assumes "cache_run md5 H up now st" and "reading_ok H up (rd_boundary rd)" and "now \<le> en_poll (rd_boundary rd)"
    and "scope_for md5 rd (Some t) p st = (Some sc, st')" and "scope_pred sc node"
  shows "node \<noteq> [] \<and> (\<exists>u. en_now (rd_boundary rd) - 60 < u \<and> u \<le> en_db_at (rd_boundary rd) \<and> (\<forall>n \<in> set node. readable_by t (H u) n))"
proof -
  obtain own shared st1 where b: "tenant_scope md5 (rd_boundary rd) t st = (Some (own, shared), st1)" "scope_pred (Some own, shared) node"
    by (rule scope_for_within [OF assms(4,5)])
  obtain u where u: "en_now (rd_boundary rd) - 60 < u" "u \<le> en_db_at (rd_boundary rd)" "(own, shared) = Profiles.resolve_tenant_scope t (H u)"
    using tenant_scope_recent [OF assms(1-3) b(1)] by blast
  with b(2) scope_readable [OF u(3)] show ?thesis by (auto simp: scope_pred_def list_all_iff)
qed

text \<open>C34. When whole calls follow one another, every poll is answered by the registry and no change of it is taken back, that instant is less than
  five seconds before the poll of the call: a profile that was moved away from the tenant, or made private to another, is out of reach five
  seconds later. A call that reads the registry and stores what it read only after another call has polled breaks the bound, see
  \<^verbatim>\<open>slow_reader_outlives_poll\<close> in \<^verbatim>\<open>Scope_Threads\<close>; what holds however calls overlap is \<^verbatim>\<open>interleaved_scope_isolated\<close> there.\<close>

theorem scope_change_seen:
  assumes "cache_run md5 H True now st" and "changes_stay md5 H" and "reading_ok H True (rd_boundary rd)" and "now \<le> en_poll (rd_boundary rd)"
    and "scope_for md5 rd (Some t) p st = (Some sc, st')" and "scope_pred sc node"
  shows "\<exists>u. en_poll (rd_boundary rd) - 5 < u \<and> u \<le> en_db_at (rd_boundary rd) \<and> (\<forall>n \<in> set node. readable_by t (H u) n)"
proof -
  obtain own shared st1 where b: "tenant_scope md5 (rd_boundary rd) t st = (Some (own, shared), st1)" "scope_pred (Some own, shared) node"
    by (rule scope_for_within [OF assms(5,6)])
  obtain u where u: "en_poll (rd_boundary rd) - 5 < u" "u \<le> en_db_at (rd_boundary rd)" "(own, shared) = Profiles.resolve_tenant_scope t (H u)"
    using tenant_scope_current [OF assms(1-4) b(1)] by blast
  with b(2) scope_readable [OF u(3)] show ?thesis by (auto simp: scope_pred_def list_all_iff)
qed

subsection \<open>The setting of the row policy\<close>

lemma plain_name: "profile_name_ok n \<Longrightarrow> CHR '','' \<notin> set n \<and> n \<noteq> [] \<and> n \<noteq> ''*''"
  by (auto simp: profile_name_ok_def list_all_iff is_letter_def is_digit_def char_code_def)

text \<open>C35. For profile names of the documented shape the setting lets through exactly the listed profiles, besides the global rows: the
  list is read back by the policy as it was, the empty list admits nothing, and no list is taken for the sign of an administrator.\<close>

theorem guc_admits_exactly:
  assumes "\<forall>n \<in> set ns. profile_name_ok n" and "p \<noteq> ''__global__''"
  shows "rls_admits (allowed_to_guc (Some ns)) p \<longleftrightarrow> p \<in> set ns"
proof (cases ns)
  case Nil
  then show ?thesis using assms(2) by (simp add: rls_admits_def allowed_to_guc_def)
next
  case (Cons a bs)
  have plain: "\<forall>n \<in> set ns. CHR '','' \<notin> set n \<and> n \<noteq> [] \<and> n \<noteq> ''*''" using assms(1) plain_name by blast
  have read: "split_on (CHR '','') (join_with (CHR '','') ns) = ns" using plain Cons by (intro split_join) auto
  have "split_on (CHR '','') [] = [[]]" "split_on (CHR '','') ''*'' = [''*'']" by simp_all
  with read plain have "join_with (CHR '','') ns \<noteq> []" "join_with (CHR '','') ns \<noteq> ''*''" by (metis list.set_intros(1))+
  then show ?thesis unfolding rls_admits_def allowed_to_guc_def option.case read using assms(2) by blast
qed

text \<open>A rename is not held to that shape. A private profile renamed to a star, where nothing is shared, makes the list of its tenant
  the sign of an administrator.\<close>

definition star_registry :: registry where
  "star_registry = \<lparr>rg_profiles = [sample_profile 1 ''a'' None (Some 7), sample_profile 2 ''b'' None (Some 8)], rg_repos = [],
     rg_next_profile = 3, rg_next_repo = 1, rg_tenants = [7, 8], rg_ssh_keys = [], rg_presence = []\<rparr>"

theorem star_name_opens_policy:
  "\<exists>s'. update_profile True 1 (Some ''*'') None None star_registry = Some (Inr [''name''], s') \<and>
     rls_admits (allowed_to_guc (resolve_allowed_list (Some (fst (Profiles.resolve_tenant_scope 7 s')), snd (Profiles.resolve_tenant_scope 7 s')))) ''b''"
proof -
  define s' where "s' = star_registry\<lparr>rg_profiles := [sample_profile 1 ''*'' None (Some 7), sample_profile 2 ''b'' None (Some 8)]\<rparr>"
  have row: "row_of (rg_profiles star_registry) 1 = Some (sample_profile 1 ''a'' None (Some 7))" by (simp add: row_of_def star_registry_def sample_profile_def)
  have new: "update_row 1 (edit_row (sample_profile 1 ''a'' None (Some 7)) (Some ''*'') None None) star_registry = s'"
    by (simp add: update_row_def star_registry_def sample_profile_def edit_row_def new_value_def s'_def)
  have p: "pf_id (sample_profile 1 ''a'' None (Some 7)) = 1" "pf_name (sample_profile 1 ''a'' None (Some 7)) = ''a''"
    "pf_description (sample_profile 1 ''a'' None (Some 7)) = None" by (simp_all add: sample_profile_def)
  have free: "\<not> list_ex (\<lambda>q. pf_name q = ''*'' \<and> pf_id q \<noteq> 1) (rg_profiles star_registry)" by (simp add: star_registry_def sample_profile_def)
  have "write_profile True (sample_profile 1 ''a'' None (Some 7)) (Some ''*'') None None star_registry = (Inr [''name''], s')"
    by (simp add: write_profile_def new_value_def changed_fields_def p free name_check_def startswith_def new row) (simp add: s'_def star_registry_def)
  moreover have "has_indexed_repos 1 star_registry = 0" by (simp add: has_indexed_repos_def star_registry_def)
  ultimately have up: "update_profile True 1 (Some ''*'') None None star_registry = Some (Inr [''name''], s')"
    by (simp add: update_profile_def edit_checks_def row new_value_def)
  have "Profiles.resolve_tenant_scope 7 s' = ([''*''], [])"
    by (simp add: Profiles.resolve_tenant_scope_def shared_profile_names_def s'_def sample_profile_def)
  then have "rls_admits (allowed_to_guc (resolve_allowed_list (Some (fst (Profiles.resolve_tenant_scope 7 s')), snd (Profiles.resolve_tenant_scope 7 s')))) ''b''"
    by (simp add: resolve_allowed_list_def allowed_to_guc_def rls_admits_def)
  with up show ?thesis by blast
qed

subsection \<open>A change that is taken back\<close>

definition flip_history :: "rat \<Rightarrow> registry" where
  "flip_history u = (if 1 \<le> u \<and> u < 2 then star_registry else star_registry\<lparr>rg_profiles := [sample_profile 1 ''a'' None (Some 8), sample_profile 2 ''b'' None (Some 8)]\<rparr>)"

definition read_at :: "(rat \<Rightarrow> registry) \<Rightarrow> rat \<Rightarrow> reading" where
  "read_at H u = \<lparr>en_poll = u, en_fp_at = u, en_fp = Some (H u), en_now = u, en_db_at = u, en_db = Some (H u)\<rparr>"

lemma read_at_ok: "reading_ok H up (read_at H u)"
  by (simp add: reading_ok_def read_at_def)

text \<open>A profile belongs to tenant 7 for one second only. A read in that second is cached, the next poll finds the digest it knows, and the
  read eight seconds after the change was taken back is answered from the cache, although every poll succeeded.\<close>

theorem reverted_change_outlives_interval:
  "\<exists>st st'. cache_run (\<lambda>x. x) flip_history True (3 / 2) st \<and> fst (tenant_scope (\<lambda>x. x) (read_at flip_history 10) 7 st) = Some ([''a''], []) \<and>
     (\<forall>u \<ge> 2. Profiles.resolve_tenant_scope 7 (flip_history u) = ([], []))"
proof -
  let ?H = flip_history and ?md5 = "\<lambda>x :: string. x"
  define st1 where "st1 = snd (tenant_scope ?md5 (read_at ?H 0) 9 no_cache)"
  define st2 where "st2 = snd (tenant_scope ?md5 (read_at ?H (3 / 2)) 7 st1)"
  have "cache_run ?md5 ?H True (en_db_at (read_at ?H 0)) st1" unfolding st1_def
    by (rule cache_run.tenant [OF cache_run.started [where now = 0] read_at_ok]) (simp add: read_at_def)
  then have "cache_run ?md5 ?H True (en_db_at (read_at ?H (3 / 2))) st2" unfolding st2_def
    by (rule cache_run.tenant [OF _ read_at_ok]) (simp add: read_at_def)
  then have run: "cache_run ?md5 ?H True (3 / 2) st2" by (simp add: read_at_def)
  have same: "flip_history 10 = flip_history 0" by (simp add: flip_history_def)
  have st1: "sc_checked st1 = Some 0" "sc_epoch st1 = Some (scope_digest (?H 0))" "sc_tenants st1 7 = None"
    by (simp_all add: st1_def tenant_scope_def scope_epoch_def poll_due_def no_cache_def read_at_def apply_fingerprint_def fresh_def Let_def)
  have scope: "Profiles.resolve_tenant_scope 7 (?H (3 / 2)) = ([''a''], [])"
    by (simp add: flip_history_def Profiles.resolve_tenant_scope_def shared_profile_names_def star_registry_def sample_profile_def)
  have "snd (scope_epoch ?md5 (read_at ?H (3 / 2)) st1) = st1" using st1 by (simp add: scope_epoch_def poll_due_def read_at_def SCOPE_EPOCH_CHECK_SEC_def)
  then have st2: "st2 = st1\<lparr>sc_tenants := (sc_tenants st1)(7 \<mapsto> (([''a''], []), 3 / 2 + CACHE_TTL_SEC))\<rparr>"
    unfolding st2_def tenant_scope_def using st1(3) scope by (simp add: fresh_def Let_def) (simp add: read_at_def scope)
  have "sc_tenants (snd (scope_epoch ?md5 (read_at ?H 10) st2)) = sc_tenants st2"
    using st1 same by (simp add: st2 scope_epoch_def poll_due_def read_at_def SCOPE_EPOCH_CHECK_SEC_def apply_fingerprint_def Let_def)
  then have "fst (tenant_scope ?md5 (read_at ?H 10) 7 st2) = Some ([''a''], [])"
    by (simp add: tenant_scope_def Let_def fresh_def st2 read_at_def CACHE_TTL_SEC_def)
  moreover have "\<forall>u \<ge> 2. Profiles.resolve_tenant_scope 7 (?H u) = ([], [])"
    by (simp add: flip_history_def Profiles.resolve_tenant_scope_def shared_profile_names_def sample_profile_def)
  ultimately show ?thesis using run by blast
qed

subsection \<open>The tenant of a key\<close>

text \<open>Runs of the key caches: authentications and recoveries of any keys, with the answers \<open>db\<close> allows, and invalidations.\<close>

inductive auth_run :: "(string \<Rightarrow> string) \<Rightarrow> (string \<Rightarrow> identity option option \<Rightarrow> bool) \<Rightarrow> auth_cache \<Rightarrow> bool" for hash db where
  empty: "auth_run hash db \<lparr>ac_key = Map.empty, ac_ts = Map.empty, ac_tenant = Map.empty, ac_owner = Map.empty\<rparr>"
| authenticated: "auth_run hash db c \<Longrightarrow> db raw v \<Longrightarrow> auth_run hash db (snd (authenticate hash now public (Some raw) v c))"
| recovered: "auth_run hash db c \<Longrightarrow> db raw v \<Longrightarrow> auth_run hash db (snd (get_tenant_id hash now var (Some raw) v c))"
| dropped: "auth_run hash db c \<Longrightarrow> auth_run hash db (cache_invalidate (hash raw) c)"
| dropped_id: "auth_run hash db c \<Longrightarrow> auth_run hash db (cache_invalidate_by_key_id k c)"

lemma authenticate_cache:
  "snd (authenticate hash now public (Some raw) v c) \<in>
     {c} \<union> {warm now (hash raw) None None None False c | u :: unit. v = Some None} \<union>
     {warm now (hash raw) (Some k) t u admin c | k t u admin. v = Some (Some (k, t, u, admin))}"
  unfolding authenticate_def by (auto simp: Let_def non_empty_def split: option.splits prod.splits if_splits)

lemma get_tenant_cache:
  "snd (get_tenant_id hash now var (Some raw) v c) \<in>
     {c} \<union> {warm now (hash raw) (Some k) t u admin c | k t u admin. v = Some (Some (k, t, u, admin))}"
  unfolding get_tenant_id_def recover_tenant_id_def authoritative_tenant_id_or_deny_def
  by (auto simp: Let_def non_empty_def split: option.splits prod.splits if_splits)

text \<open>Without that, a running call can be widened: its key is revoked and its entries dropped, another request with the key is rejected and
  caches the rejection, and the running call reads no tenant from the cache, which stands for an unrestricted key.\<close>

theorem revoked_key_reads_unrestricted:
  assumes "raw \<noteq> []"
  shows "let c1 = snd (authenticate hash 0 False (Some raw) (Some (Some (1, Some 7, Some 5, False))) \<lparr>ac_key = Map.empty, ac_ts = Map.empty, ac_tenant = Map.empty, ac_owner = Map.empty\<rparr>);
      c2 = cache_invalidate_by_key_id 1 c1;
      (outcome, c3) = authenticate hash 1 False (Some raw) (Some None) c2
    in fst (get_tenant_id hash 0 None (Some raw) None c1) = Inr (Some 7) \<and> outcome = Unauthorized \<and>
       fst (get_tenant_id hash 2 None (Some raw) (Some None) c3) = Inr None"
  using assms by (simp add: authenticate_def get_tenant_id_def recover_tenant_id_def cache_get_tenant_def cache_get_def cache_get_owner_def live_entry_def
    dict_get_def non_empty_def warm_def cache_set_def cache_set_tenant_def cache_set_owner_def cache_invalidate_by_key_id_def
    is_null_tenant_escalation_def AUTH_CACHE_TTL_def Let_def)

text \<open>The entries of a key are written in three sections; between the first and the second another thread reads no tenant.\<close>

theorem cold_cache_window:
  assumes "raw \<noteq> []" and "ac_tenant c (hash raw) = None"
  shows "fst (get_tenant_id hash now None (Some raw) v (cache_set now (hash raw) (Some k) c)) = Inr None"
  using assms by (simp add: get_tenant_id_def recover_tenant_id_def cache_get_tenant_def live_entry_def dict_get_def non_empty_def cache_set_def
    AUTH_CACHE_TTL_def Let_def)

subsection \<open>Pins\<close>

definition pins_ok :: "nat \<Rightarrow> pins \<Rightarrow> bool" where
  "pins_ok pin_max ps \<longleftrightarrow> distinct (map fst ps) \<and> length ps \<le> pin_max"

lemma map_of_filter_key: "x \<noteq> k \<Longrightarrow> map_of (filter (\<lambda>e. fst e \<noteq> k) ps) x = map_of ps x"
  by (induction ps) auto

text \<open>A write of a pin keeps the store within its bound, sets the pin of its own session, and leaves every other pin as it was, except that
  a full store gives up its oldest for a new session.\<close>

theorem write_pin_exact:
  assumes "pins_ok pin_max ps" and "0 < pin_max" and "ps' = write_pin pin_max k sid e ps"
  shows "pins_ok pin_max ps' \<and> map_of ps' (pin_key k sid) = Some e \<and>
    (\<forall>x. x \<noteq> pin_key k sid \<longrightarrow> map_of ps' x = map_of ps x \<or>
      length ps = pin_max \<and> map_of ps (pin_key k sid) = None \<and> x = fst (hd ps) \<and> map_of ps' x = None)"
proof -
  let ?key = "pin_key k sid"
  define qs where "qs = filter (\<lambda>e. fst e \<noteq> ?key) ps"
  have ps': "ps' = drop (length (qs @ [(?key, e)]) - pin_max) (qs @ [(?key, e)])"
    by (simp add: assms(3) write_pin_def evict_over_cap_def cache_invalidate_pin_def qs_def)
  have len: "length qs \<le> pin_max" using assms(1) order_trans [OF length_filter_le] by (auto simp: pins_ok_def qs_def)
  have dist: "distinct (map fst (qs @ [(?key, e)]))" using assms(1) by (auto simp: pins_ok_def qs_def distinct_map_filter)
  have "map fst ps' = drop (length (qs @ [(?key, e)]) - pin_max) (map fst (qs @ [(?key, e)]))" unfolding ps' by (rule drop_map [symmetric])
  then have "distinct (map fst ps')" using distinct_drop [OF dist] by (simp only:)
  moreover have "length ps' \<le> pin_max" using len by (simp only: ps' length_drop length_append)
  ultimately have ok: "pins_ok pin_max ps'" by (simp add: pins_ok_def)
  show ?thesis
  proof (cases "length qs = pin_max")
    case False
    with len have all: "ps' = qs @ [(?key, e)]" by (simp add: ps')
    have "map_of qs ?key = None" by (auto simp: qs_def map_of_eq_None_iff)
    then have "map_of ps' ?key = Some e" by (simp add: all map_add_def)
    moreover have "map_of ps' x = map_of ps x" if "x \<noteq> ?key" for x using that map_of_filter_key [OF that, of ps] by (simp add: all map_add_def qs_def split: option.splits)
    ultimately show ?thesis using ok by simp
  next
    case True
    have same: "qs = ps" unfolding qs_def using assms(1) True qs_def
      by (metis (no_types, lifting) filter_id_conv length_filter_less not_less pins_ok_def)
    have "?key \<notin> fst ` set qs" by (auto simp: qs_def)
    with same have absent: "map_of ps ?key = None" by (simp add: map_of_eq_None_iff)
    obtain o1 v1 rest where ps: "ps = (o1, v1) # rest" using True same assms(2) by (cases ps) auto
    have all: "ps' = rest @ [(?key, e)]" using True same ps by (simp add: ps')
    have "o1 \<notin> fst ` set rest" "map_of rest ?key = None" using assms(1) absent ps by (auto simp: pins_ok_def split: if_splits)
    with all ps ok absent True same show ?thesis
      by (auto simp: map_add_def map_of_eq_None_iff [THEN iffD2] split: option.splits)
  qed
qed

text \<open>A pin set is read back for the next 24 hours, and an explicit argument is taken whatever is pinned.\<close>

theorem pinned_version_read_back:
  assumes "pins_ok pin_max ps" and "0 < pin_max" and "set_active_version_db pin_max now k sid v ps = (True, ps')" and "now' - now \<le> 24 * 3600" and "v \<noteq> []"
  shows "fst (resolve_version_v2 now' latest None k sid ps') = Some v"
proof -
  have k: "py_int k \<noteq> None" using assms(3) by (auto simp: set_active_version_db_def split: if_splits)
  then obtain e where e: "ps' = write_pin pin_max k sid e ps" "pn_version e = Some v" "pn_set_at e = now"
    using assms(3) by (auto simp: set_active_version_db_def split: if_splits option.splits)
  then have "map_of ps' (pin_key k sid) = Some e" using write_pin_exact [OF assms(1,2) e(1)] by simp
  with k e assms(4,5) show ?thesis
    by (auto simp: resolve_version_v2_def normalize_version_arg_def get_session_state_def SESSION_TTL_def non_empty_def Let_def)
qed

lemma explicit_version_wins: "normalize_version_arg (Some v) = Some v \<Longrightarrow> fst (resolve_version_v2 now latest (Some v) k sid ps) = Some v"
  by (simp add: resolve_version_v2_def)

subsection \<open>Witnesses\<close>

definition sample_readings :: readings where
  "sample_readings = \<lparr>rd_boundary = read_at (\<lambda>_. star_registry) 0, rd_chain = read_at (\<lambda>_. star_registry) 0, rd_shared = read_at (\<lambda>_. star_registry) 0\<rparr>"

lemma sample_scope: "scope_for (\<lambda>x. x) sample_readings (Some 7) None no_cache =
    (Some (Some [''a''], []), snd (scope_for (\<lambda>x. x) sample_readings (Some 7) None no_cache))"
proof -
  have "Profiles.resolve_tenant_scope 7 star_registry = ([''a''], [])"
    by (simp add: Profiles.resolve_tenant_scope_def shared_profile_names_def star_registry_def sample_profile_def)
  then have "fst (tenant_scope (\<lambda>x. x) (read_at (\<lambda>_. star_registry) 0) 7 no_cache) = Some ([''a''], [])"
    by (simp add: tenant_scope_def fresh_def scope_epoch_def poll_due_def no_cache_def read_at_def apply_fingerprint_def Let_def)
  then show ?thesis
    by (cases "tenant_scope (\<lambda>x. x) (read_at (\<lambda>_. star_registry) 0) 7 no_cache")
      (simp add: scope_for_def session_tenant_scope_def sample_readings_def non_empty_def)
qed

theorem scoped_read_isolated_witness:
  "\<exists>u. - 60 < u \<and> u \<le> (0::rat) \<and> (\<forall>n \<in> {''a''}. readable_by 7 star_registry n)"
  using scoped_read_isolated [OF cache_run.started [of "\<lambda>x. x" "\<lambda>_. star_registry" False 0] _ _ sample_scope, of "[''a'']"]
  by (simp add: sample_readings_def read_at_ok scope_pred_def) (simp add: read_at_def)

lemma sample_stays: "changes_stay (\<lambda>x. x) (\<lambda>_. star_registry)"
  by (simp add: changes_stay_def names_plain_def star_registry_def sample_profile_def)

theorem scope_change_seen_witness:
  "\<exists>u. - 5 < u \<and> u \<le> (0::rat) \<and> (\<forall>n \<in> {''a''}. readable_by 7 star_registry n)"
  using scope_change_seen [OF cache_run.started [of "\<lambda>x. x" "\<lambda>_. star_registry" True 0] sample_stays _ _ sample_scope, of "[''a'']"]
  by (simp add: sample_readings_def read_at_ok scope_pred_def) (simp add: read_at_def)

theorem guc_admits_exactly_witness:
  "rls_admits (allowed_to_guc (Some [''a'', ''b_17''])) ''b_17'' \<and> \<not> rls_admits (allowed_to_guc (Some [''a'', ''b_17''])) ''c''"
proof -
  have "\<forall>n \<in> set [''a'', ''b_17'']. profile_name_ok n" by (simp add: profile_name_ok_def is_letter_def is_digit_def char_code_def)
  then show ?thesis using guc_admits_exactly [of "[''a'', ''b_17'']"] by simp
qed

end
