(* ===== verification/Scope_Threads.thy ===== *)
theory Scope_Threads
  imports Scope_Laws
begin

section \<open>Requests that run beside each other\<close>

text \<open>
  The critical sections of \<^verbatim>\<open>src/mcp/session.py\<close> and \<^verbatim>\<open>src/mcp/middleware.py\<close> as steps of several threads: a scope read from
  the registry, a fingerprint and the later writes of a warmed key are in flight between the section that began them and the one that stores
  them, and any other section may come between. Calls that follow one another are runs of these steps. What holds for runs of calls of one bound
  only (\<^verbatim>\<open>scope_change_seen\<close>) is shown to fail here.
\<close>

subsection \<open>The scope caches\<close>

text \<open>In flight: the entries threads are about to store for a tenant, and the fingerprints they are about to write. A clock reading \<open>x\<close> may be
  older than the section it is used in. Nothing leaves the sets, so a step is possible as often as any number of threads could take it.\<close>

type_synonym scope_entry = "int \<times> (string list \<times> string list) \<times> rat"

inductive scope_threads :: "(string \<Rightarrow> string) \<Rightarrow> (rat \<Rightarrow> registry) \<Rightarrow> rat \<Rightarrow> scope_cache \<Rightarrow> scope_entry set \<Rightarrow> string set \<Rightarrow> bool" for md5 H where
  begun: "scope_threads md5 H now no_cache {} {}"
| time: "scope_threads md5 H now st P F \<Longrightarrow> now \<le> now' \<Longrightarrow> scope_threads md5 H now' st P F"
| poll: "scope_threads md5 H now st P F \<Longrightarrow> x \<le> now \<Longrightarrow> poll_due x st \<Longrightarrow> scope_threads md5 H now (poll_begin x st) P F"
| fingerprint: "scope_threads md5 H now st P F \<Longrightarrow> scope_threads md5 H now st P (insert (md5 (scope_digest (H now))) F)"
| epoch: "scope_threads md5 H now st P F \<Longrightarrow> fp \<in> F \<Longrightarrow> scope_threads md5 H now (epoch_write fp st) P F"
| drop_tenant: "scope_threads md5 H now st P F \<Longrightarrow> scope_threads md5 H now (invalidate_allowed_profiles t st) P F"
| tenant_query: "scope_threads md5 H now st P F \<Longrightarrow> x \<le> now \<Longrightarrow>
    scope_threads md5 H now st (insert (t, Profiles.resolve_tenant_scope t (H now), x + CACHE_TTL_SEC) P) F"
| tenant_stored: "scope_threads md5 H now st P F \<Longrightarrow> (t, e) \<in> P \<Longrightarrow> scope_threads md5 H now (tenant_store t e st) P F"
| chains: "scope_threads md5 H now st P F \<Longrightarrow> scope_threads md5 H now (st\<lparr>sc_chains := cs\<rparr>) P F"
| shared_names: "scope_threads md5 H now st P F \<Longrightarrow> scope_threads md5 H now (st\<lparr>sc_shared := sh\<rparr>) P F"
| degraded: "scope_threads md5 H now st P F \<Longrightarrow> scope_threads md5 H now (st\<lparr>sc_degraded := ds\<rparr>) P F"

lemma threads_dated:
  "scope_threads md5 H now st P F \<Longrightarrow> sc_tenants st t = Some (sc, expiry) \<or> (t, sc, expiry) \<in> P \<Longrightarrow>
     \<exists>u \<le> now. expiry \<le> u + CACHE_TTL_SEC \<and> sc = Profiles.resolve_tenant_scope t (H u)"
proof (induction arbitrary: t sc expiry rule: scope_threads.induct)
  case (time now st P F now')
  then obtain u where "u \<le> now" "expiry \<le> u + CACHE_TTL_SEC \<and> sc = Profiles.resolve_tenant_scope t (H u)" by blast
  with time(2) show ?case by (intro exI [of _ u]) auto
next
  case (drop_tenant now st P F t')
  then show ?case by (auto simp: invalidate_tenants split: if_splits)
next
  case (tenant_query now st P F x t')
  show ?case
  proof (cases "(t, sc, expiry) = (t', Profiles.resolve_tenant_scope t' (H now), x + CACHE_TTL_SEC)")
    case True
    with tenant_query.hyps(2) show ?thesis by (intro exI [of _ now]) auto
  next
    case False
    then have "sc_tenants st t = Some (sc, expiry) \<or> (t, sc, expiry) \<in> P" using tenant_query.prems by blast
    then show ?thesis by (rule tenant_query.IH)
  qed
next
  case (tenant_stored now st P F t' e)
  then have "sc_tenants st t = Some (sc, expiry) \<or> (t, sc, expiry) \<in> P" by (auto split: if_splits)
  then show ?case by (rule tenant_stored.IH)
qed (auto simp: no_cache_def)

text \<open>Calls that follow one another are such a run.\<close>

lemma epoch_threads:
  assumes "scope_threads md5 H now st P F" and "reading_ok H up en" and "now \<le> en_poll en"
  shows "\<exists>F'. scope_threads md5 H (en_now en) (snd (scope_epoch md5 en st)) P F'"
proof -
  have le: "en_poll en \<le> en_fp_at en" "en_fp_at en \<le> en_now en" using assms(2) by (auto simp: reading_ok_def)
  have start: "scope_threads md5 H (en_poll en) st P F" using scope_threads.time [OF assms(1,3)] .
  show ?thesis
  proof (cases "poll_due (en_poll en) st")
    case False
    have "scope_threads md5 H (en_now en) st P F" using scope_threads.time [OF start] le by simp
    with False show ?thesis by (auto simp: scope_epoch_def)
  next
    case True
    let ?st = "poll_begin (en_poll en) st" and ?f = "md5 (scope_digest (H (en_fp_at en)))"
    have "scope_threads md5 H (en_fp_at en) ?st P F" using scope_threads.time [OF scope_threads.poll [OF start order_refl True] le(1)] .
    from scope_threads.fingerprint [OF this] have fp: "scope_threads md5 H (en_fp_at en) ?st P (insert ?f F)" .
    from scope_threads.time [OF fp le(2)] have fp: "scope_threads md5 H (en_now en) ?st P (insert ?f F)" .
    from scope_threads.epoch [OF this, of ?f] have wrote: "scope_threads md5 H (en_now en) (epoch_write ?f ?st) P (insert ?f F)" by simp
    show ?thesis
    proof (cases "en_fp en")
      case None
      with True fp show ?thesis by (auto simp: scope_epoch_def Let_def)
    next
      case (Some reg)
      then have "reg = H (en_fp_at en)" using assms(2) by (simp add: reading_ok_def)
      with True Some wrote scope_threads.drop_tenant [OF wrote, of None] show ?thesis
        by (auto simp: scope_epoch_def Let_def apply_fingerprint_def)
    qed
  qed
qed

lemma threads_until: "\<exists>F. scope_threads md5 H now st P F \<Longrightarrow> now \<le> now' \<Longrightarrow> \<exists>P F. scope_threads md5 H now' st P F"
  using scope_threads.time by blast

lemma calls_are_threads: "cache_run md5 H up now st \<Longrightarrow> \<exists>P F. scope_threads md5 H now st P F"
proof (induction rule: cache_run.induct)
  case (started now)
  show ?case using scope_threads.begun by blast
next
  case (tenant now st en t)
  then obtain P F where P: "scope_threads md5 H now st P F" by blast
  obtain res st' where r: "tenant_scope md5 en t st = (res, st')" by fastforce
  have le: "en_now en \<le> en_db_at en" using tenant.hyps(2) by (simp add: reading_ok_def)
  obtain F' where ep: "scope_threads md5 H (en_now en) (snd (scope_epoch md5 en st)) P F'" using epoch_threads [OF P tenant.hyps(2,3)] by blast
  from scope_threads.time [OF this le] have ep: "scope_threads md5 H (en_db_at en) (snd (scope_epoch md5 en st)) P F'" .
  from r show ?case
  proof (cases rule: tenant_scope_cases)
    case (read reg)
    then have reg: "reg = H (en_db_at en)" using tenant.hyps(2) by (simp add: reading_ok_def)
    from scope_threads.tenant_stored [OF scope_threads.tenant_query [OF ep le, of t], of t "(Profiles.resolve_tenant_scope t (H (en_db_at en)), en_now en + CACHE_TTL_SEC)"]
    show ?thesis using r read(3) by (auto simp: reg)
  qed (use ep r in auto)
next
  case (chain now st en n)
  then obtain P F where P: "scope_threads md5 H now st P F" by blast
  have le: "en_now en \<le> en_db_at en" using chain.hyps(2) by (simp add: reading_ok_def)
  obtain F' where "scope_threads md5 H (en_now en) (snd (scope_epoch md5 en st)) P F'" using epoch_threads [OF P chain.hyps(2,3)] by blast
  from scope_threads.time [OF this le] have ep: "scope_threads md5 H (en_db_at en) (snd (scope_epoch md5 en st)) P F'" .
  from ep scope_threads.chains [OF ep] scope_threads.degraded [OF ep] show ?case
    by (auto simp: resolve_profile_chain_def mark_degraded_def Let_def split: option.splits list.splits)
next
  case (shared now st en)
  then obtain P F where P: "scope_threads md5 H now st P F" by blast
  have le: "en_now en \<le> en_db_at en" using shared.hyps(2) by (simp add: reading_ok_def)
  obtain F' where "scope_threads md5 H (en_now en) (snd (scope_epoch md5 en st)) P F'" using epoch_threads [OF P shared.hyps(2,3)] by blast
  from scope_threads.time [OF this le] have ep: "scope_threads md5 H (en_db_at en) (snd (scope_epoch md5 en st)) P F'" .
  from ep scope_threads.shared_names [OF ep] scope_threads.degraded [OF ep] show ?case
    by (auto simp: admin_narrowing_shared_def resolve_shared_profiles_def mark_degraded_def Let_def split: option.splits prod.splits)
next
  case (invalidated now st now' t)
  then obtain P F where "scope_threads md5 H now st P F" by blast
  from scope_threads.drop_tenant [OF scope_threads.time [OF this invalidated.hyps(2)]] show ?case by blast
qed

text \<open>C8. However the sections of concurrent requests alternate, with slow polls, slow reads and late stores among them: a scope that a request finds in the
  cache lets through only nodes whose every profile belonged to the tenant or was shared at one instant less than a minute before the request
  read its clock. Only what a request reads from the cache is meant; what it reads from the registry itself is of the instant of the query.\<close>

theorem interleaved_scope_isolated:
  assumes "scope_threads md5 H now st P F" and "tenant_lookup x t st = Some (own, shared)" and "scope_pred (Some own, shared) node"
  shows "node \<noteq> [] \<and> (\<exists>u. x - 60 < u \<and> u \<le> now \<and> (\<forall>n \<in> set node. readable_by t (H u) n))"
proof -
  obtain expiry where e: "sc_tenants st t = Some ((own, shared), expiry)" "x < expiry"
    using assms(2) by (auto simp: fresh_def split: option.splits if_splits)
  then obtain u where u: "u \<le> now" "expiry \<le> u + CACHE_TTL_SEC" "(own, shared) = Profiles.resolve_tenant_scope t (H u)"
    using threads_dated [OF assms(1)] by blast
  with e(2) have "x - 60 < u" by (simp add: CACHE_TTL_SEC_def)
  with u assms(3) scope_readable [OF u(3)] show ?thesis by (auto simp: scope_pred_def list_all_iff)
qed

text \<open>The five seconds of \<^verbatim>\<open>scope_change_seen\<close> are not kept: a thread that reads the registry and then stores late brings back a scope after another
  thread has polled, seen the change and dropped the caches; the polls that follow find the digest they know.\<close>

definition moved_history :: "rat \<Rightarrow> registry" where
  "moved_history u = (if u < 1 then star_registry else star_registry\<lparr>rg_profiles := [sample_profile 1 ''a'' None (Some 8), sample_profile 2 ''b'' None (Some 8)]\<rparr>)"

theorem slow_reader_outlives_poll:
  "\<exists>st P F. scope_threads (\<lambda>x. x) moved_history 20 st P F \<and> sc_checked st = Some 20 \<and> sc_epoch st = Some (scope_digest (moved_history 20)) \<and>
     tenant_lookup 20 7 st = Some ([''a''], []) \<and> (\<forall>u \<ge> 1. Profiles.resolve_tenant_scope 7 (moved_history u) = ([], []))"
proof -
  let ?H = moved_history and ?md5 = "\<lambda>x :: string. x"
  let ?e = "((([''a''], []), 60) :: (string list \<times> string list) \<times> rat)"
  have scope: "Profiles.resolve_tenant_scope 7 (?H 0) = ([''a''], [])" "\<forall>u \<ge> 1. Profiles.resolve_tenant_scope 7 (?H u) = ([], [])"
    by (simp_all add: moved_history_def Profiles.resolve_tenant_scope_def shared_profile_names_def star_registry_def sample_profile_def)
  have same: "?H 6 = ?H 20" by (simp add: moved_history_def)
  have "scope_threads ?md5 ?H 0 no_cache {(7, ?e)} {}"
    using scope_threads.tenant_query [OF scope_threads.begun [of ?md5 ?H 0], of 0 7] by (simp add: scope CACHE_TTL_SEC_def)
  from scope_threads.time [OF this, of 6] have "scope_threads ?md5 ?H 6 no_cache {(7, ?e)} {}" by simp
  from scope_threads.fingerprint [OF scope_threads.poll [OF this, of 6]]
  have "scope_threads ?md5 ?H 6 (poll_begin 6 no_cache) {(7, ?e)} {scope_digest (?H 20)}" by (simp add: poll_due_def no_cache_def same)
  from scope_threads.drop_tenant [OF scope_threads.epoch [OF this, of "scope_digest (?H 20)"], of None]
  have "scope_threads ?md5 ?H 6 (invalidate_allowed_profiles None (epoch_write (scope_digest (?H 20)) (poll_begin 6 no_cache))) {(7, ?e)} {scope_digest (?H 20)}"
    by simp
  from scope_threads.time [OF scope_threads.tenant_stored [OF this, of 7 ?e], of 20]
  have "scope_threads ?md5 ?H 20 (tenant_store 7 ?e (invalidate_allowed_profiles None (epoch_write (scope_digest (?H 20)) (poll_begin 6 no_cache))))
      {(7, ?e)} {scope_digest (?H 20)}" by simp
  from scope_threads.epoch [OF scope_threads.fingerprint [OF scope_threads.poll [OF this, of 20]], of "scope_digest (?H 20)"]
  have "scope_threads ?md5 ?H 20 (epoch_write (scope_digest (?H 20)) (poll_begin 20 (tenant_store 7 ?e
      (invalidate_allowed_profiles None (epoch_write (scope_digest (?H 20)) (poll_begin 6 no_cache)))))) {(7, ?e)} {scope_digest (?H 20)}"
    by (simp add: poll_due_def invalidate_allowed_profiles_def SCOPE_EPOCH_CHECK_SEC_def)
  then show ?thesis
    by (intro exI conjI, assumption) (simp_all add: scope fresh_def)
qed

subsection \<open>The key caches\<close>

text \<open>A lookup of a key has written the key and the time of its entry; the tenant and the owner are still to be written. \<open>W\<close> are the
  writes in flight, with repetitions; \<open>db\<close> allows the answers of the database. A rejected key is written without identity; a request handler
  (\<^verbatim>\<open>authoritative_tenant_id_or_deny\<close>) writes only what it accepts, which these steps include.\<close>

datatype cache_write = Tenant_write string "int option" | Owner_write string "int option" bool

definition no_keys :: auth_cache where
  "no_keys = \<lparr>ac_key = Map.empty, ac_ts = Map.empty, ac_tenant = Map.empty, ac_owner = Map.empty\<rparr>"

text \<open>The key, tenant and owner an answer of the database stands for; nothing is written when it is down.\<close>

definition answer_identity :: "identity option option \<Rightarrow> (int option \<times> int option \<times> int option \<times> bool) option" where
  "answer_identity v = (case v of None \<Rightarrow> None | Some None \<Rightarrow> Some (None, None, None, False) | Some (Some (k, t, u, admin)) \<Rightarrow> Some (Some k, t, u, admin))"

inductive key_threads :: "(string \<Rightarrow> string) \<Rightarrow> (string \<Rightarrow> identity option option \<Rightarrow> bool) \<Rightarrow> auth_cache \<Rightarrow> cache_write multiset \<Rightarrow> bool" for hash db where
  began: "key_threads hash db no_keys {#}"
| first_write: "key_threads hash db c W \<Longrightarrow> db raw v \<Longrightarrow> answer_identity v = Some (key, t, u, admin) \<Longrightarrow>
    key_threads hash db (cache_set now (hash raw) key c) (add_mset (Tenant_write (hash raw) t) (add_mset (Owner_write (hash raw) u admin) W))"
| tenant_write: "key_threads hash db c (add_mset (Tenant_write h t) W) \<Longrightarrow> key_threads hash db (cache_set_tenant h t c) W"
| owner_write: "key_threads hash db c (add_mset (Owner_write h u admin) W) \<Longrightarrow> key_threads hash db (cache_set_owner h u admin c) W"
| drop_key: "key_threads hash db c W \<Longrightarrow> key_threads hash db (cache_invalidate (hash raw) c) W"
| drop_key_id: "key_threads hash db c W \<Longrightarrow> key_threads hash db (cache_invalidate_by_key_id k c) W"

text \<open>No lookup of the key stands between its first and its second write.\<close>

definition settled :: "string \<Rightarrow> cache_write multiset \<Rightarrow> bool" where
  "settled h W \<longleftrightarrow> (\<forall>t. Tenant_write h t \<notin># W)"

lemma warm_threads:
  assumes "key_threads hash db c W" and "db raw v" and "answer_identity v = Some (key, t, u, admin)"
  shows "key_threads hash db (warm now (hash raw) key t u admin c) W"
  unfolding warm_def
  by (rule key_threads.owner_write, rule key_threads.tenant_write, rule key_threads.first_write [OF assms])

text \<open>Whole calls that follow one another are such a run, in which every key is settled after each call.\<close>

lemma key_calls_are_threads: "auth_run hash db c \<Longrightarrow> key_threads hash db c {#}"
proof (induction rule: auth_run.induct)
  case empty
  show ?case using key_threads.began by (simp add: no_keys_def)
next
  case (authenticated c raw v now public)
  have "v = Some None \<Longrightarrow> key_threads hash db (warm now (hash raw) None None None False c) {#}"
    "v = Some (Some (k, t, u, admin)) \<Longrightarrow> key_threads hash db (warm now (hash raw) (Some k) t u admin c) {#}" for k t u admin
    by (rule warm_threads [OF authenticated.IH authenticated.hyps(2)], simp add: answer_identity_def)+
  then show ?case using authenticate_cache [of hash now public raw v c] authenticated.IH by auto
next
  case (recovered c raw v now var)
  have "v = Some (Some (k, t, u, admin)) \<Longrightarrow> key_threads hash db (warm now (hash raw) (Some k) t u admin c) {#}" for k t u admin
    by (rule warm_threads [OF recovered.IH recovered.hyps(2)], simp add: answer_identity_def)
  then show ?case using get_tenant_cache [of hash now var raw v c] recovered.IH by auto
qed (auto intro: key_threads.intros)

definition tenant_cached :: "string \<Rightarrow> int \<Rightarrow> auth_cache \<Rightarrow> cache_write multiset \<Rightarrow> bool" where
  "tenant_cached h t c W \<longleftrightarrow> (ac_ts c h \<noteq> None \<longrightarrow> ac_tenant c h = Some (Some t) \<or> Tenant_write h (Some t) \<in># W) \<and>
     (\<forall>x. Tenant_write h x \<in># W \<longrightarrow> x = Some t)"

lemma threads_tenant_cached:
  assumes "key_threads hash db c W" and "inj hash" and one: "\<And>v. db raw v \<Longrightarrow> v = None \<or> (\<exists>k u admin. v = Some (Some (k, Some t, u, admin)))"
  shows "tenant_cached (hash raw) t c W"
  using assms(1)
proof (induction rule: key_threads.induct)
  case began
  show ?case by (simp add: tenant_cached_def no_keys_def)
next
  case (first_write c W raw' v key t' u admin now)
  have "hash raw' = hash raw \<Longrightarrow> t' = Some t"
    using first_write.hyps one [of v] assms(2) by (auto simp: inj_eq answer_identity_def)
  with first_write.IH show ?case by (auto simp: tenant_cached_def cache_set_def)
next
  case (tenant_write c h t' W)
  then show ?case by (auto simp: tenant_cached_def cache_set_tenant_def)
next
  case (owner_write c h u admin W)
  then show ?case by (auto simp: tenant_cached_def cache_set_owner_def)
next
  case (drop_key c W raw')
  then show ?case by (auto simp: tenant_cached_def cache_invalidate_def)
next
  case (drop_key_id c W k)
  then show ?case by (auto simp: tenant_cached_def cache_invalidate_by_key_id_def)
qed

text \<open>C7. A call that has lost its context recovers the tenant from its key. However the cache writes of concurrent requests alternate, with entries
  dropped and expired between them: if every lookup of the key in the database says tenant \<open>t\<close> or fails, and no request stands between its first
  and second cache write for this key when the call looks, the call is served for tenant \<open>t\<close> or denied, never as an unrestricted key. The hash of
  the keys is taken to be free of collisions. In the window between the two writes the call is unrestricted (\<^verbatim>\<open>cold_cache_window\<close>).\<close>

theorem scoped_key_stays_scoped:
  assumes "key_threads hash db c W" and "inj hash" and "\<And>v. db raw v \<Longrightarrow> v = None \<or> (\<exists>k u admin. v = Some (Some (k, Some t, u, admin)))"
    and "settled (hash raw) W" and "db raw v" and "raw \<noteq> []"
  shows "fst (get_tenant_id hash now None (Some raw) v c) \<in> {Inr (Some t), Inl ()}"
proof -
  have "tenant_cached (hash raw) t c W" by (rule threads_tenant_cached [OF assms(1-3)])
  then have "ac_ts c (hash raw) \<noteq> None \<longrightarrow> ac_tenant c (hash raw) = Some (Some t)" using assms(4) by (auto simp: tenant_cached_def settled_def)
  then show ?thesis using assms(3) [OF assms(5)] assms(6)
    by (auto simp: get_tenant_id_def recover_tenant_id_def authoritative_tenant_id_or_deny_def non_empty_def cache_get_tenant_def live_entry_def
      dict_get_def is_null_tenant_escalation_def Let_def split: option.splits if_splits)
qed

subsection \<open>Witnesses\<close>

theorem interleaved_scope_isolated_witness:
  "\<exists>u. - 60 < u \<and> u \<le> (0::rat) \<and> (\<forall>n \<in> {''a''}. readable_by 7 star_registry n)"
proof -
  let ?H = "\<lambda>_ :: rat. star_registry" and ?e = "((([''a''], []), 60) :: (string list \<times> string list) \<times> rat)"
  have "Profiles.resolve_tenant_scope 7 star_registry = ([''a''], [])"
    by (simp add: Profiles.resolve_tenant_scope_def shared_profile_names_def star_registry_def sample_profile_def)
  then have "scope_threads (\<lambda>x. x) ?H 0 no_cache {(7, ?e)} {}"
    using scope_threads.tenant_query [OF scope_threads.begun [of "\<lambda>x. x" ?H 0], of 0 7] by (simp add: CACHE_TTL_SEC_def)
  from scope_threads.tenant_stored [OF this, of 7 ?e] have "scope_threads (\<lambda>x. x) ?H 0 (tenant_store 7 ?e no_cache) {(7, ?e)} {}" by simp
  from interleaved_scope_isolated [OF this, of 0 7 "[''a'']" "[]" "[''a'']"] show ?thesis by (simp add: fresh_def scope_pred_def)
qed

text \<open>Another request has written the key and its tenant, and has still to write the owner.\<close>

theorem scoped_key_stays_scoped_witness:
  "fst (get_tenant_id (\<lambda>x. x) 1 None (Some ''k'') None (cache_set_tenant ''k'' (Some 7) (cache_set 0 ''k'' (Some 1) no_keys))) \<in> {Inr (Some 7), Inl ()}"
proof -
  let ?db = "\<lambda>(_ :: string) v. v = None \<or> v = Some (Some (1 :: int, Some (7 :: int), None :: int option, False))"
  have "key_threads (\<lambda>x. x) ?db (cache_set 0 ''k'' (Some 1) no_keys) (add_mset (Tenant_write ''k'' (Some 7)) (add_mset (Owner_write ''k'' None False) {#}))"
    using key_threads.first_write [OF key_threads.began, of ?db "''k''" "Some (Some (1, Some 7, None, False))" "Some 1" "Some 7" None False "\<lambda>x. x" 0]
    by (simp add: answer_identity_def)
  from key_threads.tenant_write [OF this] show ?thesis
    by (rule scoped_key_stays_scoped [where raw = "''k''" and db = ?db]) (auto simp: settled_def)
qed

end
