(* ===== verification/Spec2Isabelle.thy ===== *)
theory Spec2Isabelle
  imports Resolver Version_Registry Entitlements Lifecycle Install_Set Index_Sync Shared_Laws Jobs Scope_Threads
begin

text \<open>
  This development verifies the decision logic of the Odoo semantic server: a service that indexes Odoo
  addon repositories into a graph and answers questions about them over MCP, and sells access to it.

  \<^bold>\<open>The program and its parts.\<close> An index run scans a checkout for module manifests, decides which modules
  are present, excluded or gone, records that in a ledger in PostgreSQL, and sorts the modules for
  parsing. The MCP side answers from the graph, with rate limits per key. The billing side turns webhooks
  of the payment provider into subscriptions and API keys.

  \<^item> \<^verbatim>\<open>Prelude\<close>, \<^verbatim>\<open>Py_Strings\<close>, \<^verbatim>\<open>Json\<close>: association lists, sorted lists and the Python string and JSON
    operations the components share. \<^verbatim>\<open>Effects\<close>: computations that take a state and return an error or a
    value with the state after it, faults of the database, and the locale \<open>stepwise\<close>: a reflexive and
    transitive relation kept by the primitive statements is kept by every program built from them. Its
    interpretations are the invariants of the billing tables (\<^verbatim>\<open>Store_Laws\<close>, \<^verbatim>\<open>Entitlements\<close>), of the
    ledger (\<^verbatim>\<open>Ledger_Laws\<close>), of the index run (\<^verbatim>\<open>Index_Laws\<close>, \<^verbatim>\<open>Index_Sync\<close>) and of the rows a reconcile
    keeps (\<^verbatim>\<open>Reconcile_Laws\<close>). \<^verbatim>\<open>Triples\<close>: invariants of such computations together with what they return.

  \<^bold>\<open>Billing\<close> (\<^verbatim>\<open>src/src/billing\<close>, \<^verbatim>\<open>src/src/db\<close>, \<^verbatim>\<open>src/src/web_ui/routes/webhooks.py\<close>).
  \<^item> \<^verbatim>\<open>Billing_Store\<close>: the tables with their constraints and every statement of
    \<^verbatim>\<open>SubscriptionStore\<close>; \<^verbatim>\<open>Provisioning\<close>: \<^verbatim>\<open>provisioning.py\<close>; \<^verbatim>\<open>Activation\<close>: \<^verbatim>\<open>activation.py\<close>;
    \<^verbatim>\<open>Webhook\<close>: \<^verbatim>\<open>webhook_pipeline.py\<close>; \<^verbatim>\<open>Polar\<close>: \<^verbatim>\<open>polar.py\<close> and the adapter of \<^verbatim>\<open>webhooks.py\<close>.
  \<^item> \<^verbatim>\<open>Store_Laws\<close> and \<^verbatim>\<open>Entitlements\<close> show that every serial run keeps the tables well formed, that keys are
    never downgraded by a purchase, that stale and repeated events change nothing, that a revocation ends
    access, and where the code falls short of that (interleaved updates, shared keys, stale grants).

  \<^bold>\<open>Indexer\<close> (\<^verbatim>\<open>src/src/indexer\<close>).
  \<^item> \<^verbatim>\<open>Manifest\<close>: Python literals, and from \<^verbatim>\<open>registry.py\<close>, \<^verbatim>\<open>parser_python.py\<close> and \<^verbatim>\<open>constants.py\<close> the
    version rule, the auto-install triggers, licence and edition, and the record of a module.
  \<^item> \<^verbatim>\<open>Registry\<close>: the scan of a checkout (\<^verbatim>\<open>build_registry_scan\<close>), the choice among copies of a module,
    and \<^verbatim>\<open>build_registry\<close>. \<^verbatim>\<open>Resolver\<close>: the order of parsing. \<^verbatim>\<open>Version_Registry\<close>: the version gates.
    \<^verbatim>\<open>Incremental\<close>: the reading of \<^verbatim>\<open>git diff --name-status\<close>.
  \<^item> \<^verbatim>\<open>Lifecycle\<close>: \<^verbatim>\<open>lifecycle.py\<close>, the classification of scan against ledger, the gates that may forbid
    to retire, successors and evidence. \<^verbatim>\<open>Ledger\<close>: \<^verbatim>\<open>module_presence.py\<close>, the rows and every statement on
    them; \<^verbatim>\<open>Ledger_Laws\<close>: the history is kept by every sequence of statements, the preview
    predicts the commit, and the pending-rewrite statement that raises.
  \<^item> \<^verbatim>\<open>Cross_Repo\<close>: \<^verbatim>\<open>cross_repo.py\<close>, the walk over the dependents of changed modules and their flags in the
    ledger, with every failing database call; it reaches all of them or says that it did not.
  \<^item> \<^verbatim>\<open>Run_Plan\<close> and \<^verbatim>\<open>Index_Run\<close>: from \<^verbatim>\<open>pipeline_repo.py\<close> and \<^verbatim>\<open>git_utils.py\<close> what a run does with a repository:
    skip, sync, incremental or full; what it observes and how it judges it; what it rewrites; the propagation,
    the ledger commit and the advance of the heads. \<^verbatim>\<open>Index_Laws\<close>: an unrecorded propagation is repeated, and a
    run retires nothing by itself. \<^verbatim>\<open>Index_Sync\<close>: a run that claims to be in sync has a ledger that says what the
    scan saw.
  \<^item> \<^verbatim>\<open>Graph_Store\<close>: from \<^verbatim>\<open>writer_neo4j.py\<close> and \<^verbatim>\<open>writer_pgvector.py\<close> the Module nodes, the nodes below them, and the
    statements that retire modules, drop an owner, stamp a version and delete embeddings, with the writes of
    concurrent runs before each statement of a delete of modules. \<^verbatim>\<open>Graph_Laws\<close>: the locale \<open>graph_op\<close> of statements that lose no node, interpreted on all
    of them but the delete of modules, which is shown exact beside such writes; and the stamp that a failed delete leaves clean.
  \<^item> \<^verbatim>\<open>Reconcile\<close>: \<^verbatim>\<open>reconcile.py\<close>, every pass over ledger, graph and embeddings but one, the retries, and every call that may
    raise half way. \<^verbatim>\<open>Shared_Prune\<close>: the remaining pass, \<^verbatim>\<open>prune_shared\<close>, which deletes below modules of several repositories
    what none of them defines any more, with the statements of \<^verbatim>\<open>writer_neo4j.py\<close> and \<^verbatim>\<open>writer_pgvector.py\<close> it calls, and the reconcile of a
    version, which runs all passes. \<^verbatim>\<open>Reconcile_Laws\<close>: live modules and rows that are not free to go are left
    alone whatever fails, the orphan sweep deletes only what ledger and git prove gone, and a dry run changes no store.
    \<^verbatim>\<open>Shared_Laws\<close>: a node below a shared module goes only when the sources of all its owners agree.
  \<^item> \<^verbatim>\<open>Profiles\<close>: \<^verbatim>\<open>repo_registry.py\<close>, profiles with their parents and tenants, repositories, the visibility
    audit and the recursive queries. \<^verbatim>\<open>Profile_Laws\<close>: the locale \<open>registry_op\<close> of methods that keep the registry a forest in
    which nothing is more visible than its parent, interpreted on every method that writes; the audit decides visibility; the unbounded
    queries return on such a registry, and may not after two concurrent parent changes. The invariant is one of serial runs; what overlapping
    changes of parents and versions do to it is shown there too.
  \<^item> \<^verbatim>\<open>Scope\<close>: \<^verbatim>\<open>session.py\<close>, and from \<^verbatim>\<open>server.py\<close> and \<^verbatim>\<open>middleware.py\<close> the tenant of a request, the key
    caches, the node predicate and the setting of the row policy. \<^verbatim>\<open>Scope_Laws\<close>: the locale \<open>scope_op\<close> of cached reads, interpreted
    on all three; a tenant reads only what is its own or shared, with the age of that answer; a key that is rejected while a call runs may be unrestricted;
    the policy reads the list back; a pin is kept to its session and the store within its bound. \<^verbatim>\<open>Scope_Threads\<close>:
    the critical sections of \<^verbatim>\<open>session.py\<close> and the single cache writes of \<^verbatim>\<open>middleware.py\<close> as steps of several threads. The minute of staleness and the
    scoped key hold there too, the latter outside the window between the first two writes; the five seconds are shown to fail.
  \<^item> \<^verbatim>\<open>Jobs\<close>: \<^verbatim>\<open>job_registry.py\<close> and the reset route of \<^verbatim>\<open>routes/jobs.py\<close>: the identity of a process, the rule
    by which an unfinished job counts as dead, the sweep at start-up. The sweep is exact when nothing writes beside it, every
    run of updates keeps the table valid, and a job that finishes during the sweep is overwritten.
  \<^item> This theory joins scan and classification: on a complete scan, retirement follows git.

  \<^bold>\<open>MCP\<close> (\<^verbatim>\<open>src/src/mcp\<close>). \<^verbatim>\<open>Install_Set\<close>: which modules an installation pulls in (\<^verbatim>\<open>install_set.py\<close> with
  its graph reads from \<^verbatim>\<open>describe.py\<close> and the baseline cache). \<^verbatim>\<open>Rate_Limit\<close>: both sliding windows and
  the monthly quota (\<^verbatim>\<open>middleware.py\<close>, \<^verbatim>\<open>web_ui/rate_limit.py\<close>).

  \<^bold>\<open>How code becomes HOL.\<close> A store is a record of its tables; a method is a function from its arguments and
  the state to an error or a result and the new state; an exception is a value of an error type, and a
  transaction that raises restores the tables. Time is an argument, an integer or, for jobs, a rational. What is not in the repository
  is an argument: \<^verbatim>\<open>json.loads\<close>, HMAC, md5, the hash of a key, base64, \<^verbatim>\<open>fromisoformat\<close>, the parser of Python literals, the
  answers of \<^verbatim>\<open>git\<close>, the graph rows, the list of database faults, the writes of other processes; for the prune of shared modules also the
  relationships of the graph and the verdicts of the source oracle (record \<open>shared_world\<close>).

  \<^bold>\<open>Concurrency.\<close> Other writers are modelled where the code provides for them: index runs beside a delete of modules (\<open>concurrent\<close>), threads
  beside the caches (\<^verbatim>\<open>Scope_Threads\<close>), a ledger that changed between observation and commit (\<^verbatim>\<open>Index_Sync\<close>). Elsewhere a run is serial: one billing
  handler, one method of the registry, one reconcile after another, each under its lock where it has one. Where the code has no lock, the
  overlap that breaks the property is a theorem: \<^verbatim>\<open>concurrent_updates_regress\<close>, \<^verbatim>\<open>concurrent_parents_leave_cycle\<close>, \<^verbatim>\<open>concurrent_version_change\<close>,
  \<^verbatim>\<open>sweep_overwrites_done\<close>, \<^verbatim>\<open>cold_cache_window\<close>, \<^verbatim>\<open>slow_reader_outlives_poll\<close>.

  \<^bold>\<open>Loops and bounds.\<close> Every loop is structural, has a measure, or follows a bound of the program: the
  auto-install rounds are counted by \<^verbatim>\<open>MAX_AUTO_INSTALL_ROUNDS\<close>, and the dependency walk, which
  ends only because the graph is finite, is a \<^verbatim>\<open>partial_function\<close> for which termination is proved.

  \<^bold>\<open>Not modelled.\<close> The source parsers (they rest on \<^verbatim>\<open>ast\<close>, lxml and tree-sitter), the writers of parse results into
  the graph and the vector store, the embedder, the pipeline over a profile, the fetch and the graph half of a repository
  run (parses, entity prune, test nodes). Of the reconcile, the source oracle \<^verbatim>\<open>prune_evidence.py\<close>, which parses Python and XML and whose
  verdicts are an argument; and the lifecycle audit, a report over a dry run. The bounds of integer columns in PostgreSQL. The migrations, the MCP handlers that render answers, the web pages, configuration, command
  line and HTTP clients.
\<close>

section \<open>From the checkout to the ledger\<close>

text \<open>C10. Retirement follows git: when the scan of a checkout is complete and git tracks the manifests
  \<open>t\<close>, a name ends as retired exactly when no tracked manifest stands in a directory of that name and
  its last ledger row was present or excluded.\<close>

theorem retirement_follows_git:
  assumes "build_registry_scan co pv br url rid = Inr sc" and "rs_complete sc" and "rs_tracked_paths sc = Some t"
  shows "n \<in> t_name ` {tr \<in> set (t_items (classify rows (lifecycle_scan sc))). t_after tr = ''retired''} \<longleftrightarrow>
    n \<notin> module_name_of (co_root co) ` t \<and> before_state rows n \<in> {Some ''present'', Some ''excluded''}"
  unfolding classify_after after_state scan_names(1) [OF assms, symmetric] by auto

theorem retirement_follows_git_witness:
  "\<exists>sc. build_registry_scan sample_checkout None None None None = Inr sc \<and>
    ''purchase'' \<in> t_name ` {tr \<in> set (t_items (classify
      [\<lparr>row_name = ''purchase'', row_state = Some ''present'', row_reason = None, row_path = Some ''purchase''\<rparr>]
      (lifecycle_scan sc))). t_after tr = ''retired''}"
proof -
  let ?rows = "[\<lparr>row_name = ''purchase'', row_state = Some ''present'', row_reason = None, row_path = Some ''purchase''\<rparr>]"
  obtain sc where sc: "build_registry_scan sample_checkout None None None None = Inr sc" "sample_ok sc" using sample_scan by blast
  then have ok: "rs_complete sc" "rs_tracked_paths sc = Some sample_tracked" by (simp_all add: sample_ok_def)
  have "''purchase'' \<notin> module_name_of (co_root sample_checkout) ` sample_tracked" by code_simp
  moreover have "before_state ?rows ''purchase'' = Some ''present''" by code_simp
  ultimately show ?thesis
    using retirement_follows_git [OF sc(1) ok, of "''purchase''" ?rows] sc(1) by (intro exI [of _ sc]) simp
qed

end
